(* ===== verification/Prelude.thy ===== *)
theory Prelude
  imports Main "HOL-Library.Word" "HOL-Library.AList"
begin

text \<open>
  Shared vocabulary of the development: machine integers and byte strings as the Go code
  has them, big-endian integer encoding (\<^verbatim>\<open>encoding/binary.BigEndian\<close>), sub-slices, Go
  strings, and the generic lemmas on lists and words that the component theories rest on.

  The named collections declared here carry the component proofs:
  \<^item> \<open>wire\<close>: how the encoders and decoders act on concatenated byte strings;
  \<^item> \<open>layer_defs\<close>: the operations of the reliability layer, to be unfolded together;
  \<^item> \<open>session_defs\<close>: the handlers of the session orchestrator, likewise.
\<close>

unbundle bit_operations_syntax

named_theorems wire "encoders and decoders on concatenated byte strings"
named_theorems layer_defs "definitions of the reliability layer's operations"
named_theorems session_defs "definitions of the session's handlers"

section \<open>Types\<close>

type_synonym byte = "8 word"
type_synonym u8 = "8 word"
type_synonym u16 = "16 word"
type_synonym u32 = "32 word"
type_synonym u64 = "64 word"
type_synonym bytes = "byte list"

text \<open>
  An operation that may fail returns \<open>Inl\<close> of its error or \<open>Inr\<close> of its result, as a
  Go function returns \<^verbatim>\<open>(T, error)\<close>.
\<close>

type_synonym ('e, 'a) result = "'e + 'a"

definition rbind :: "('e, 'a) result \<Rightarrow> ('a \<Rightarrow> ('e, 'b) result) \<Rightarrow> ('e, 'b) result" where
  "rbind r f = (case r of Inl e \<Rightarrow> Inl e | Inr x \<Rightarrow> f x)"

lemma rbind_simps [simp]: "rbind (Inl e) f = Inl e" "rbind (Inr x) f = f x"
  by (simp_all add: rbind_def)

lemma rbind_eq_Inr: "rbind r f = Inr y \<longleftrightarrow> (\<exists>x. r = Inr x \<and> f x = Inr y)"
  by (cases r) auto

lemma map_sum_eq_Inr: "map_sum f g r = Inr y \<longleftrightarrow> (\<exists>x. r = Inr x \<and> y = g x)"
  by (cases r) auto

text \<open>Every result satisfies \<open>P\<close>: a rule for each way the code composes results.\<close>

definition result_ok :: "('a \<Rightarrow> bool) \<Rightarrow> ('e, 'a) result \<Rightarrow> bool" where
  "result_ok P r \<longleftrightarrow> (\<forall>x. r = Inr x \<longrightarrow> P x)"

named_theorems result_intros "what every result of a composed operation satisfies"

lemma result_ok_Inl [result_intros]: "result_ok P (Inl e)"
  by (simp add: result_ok_def)

lemma result_ok_Inr: "P x \<Longrightarrow> result_ok P (Inr x)"
  by (simp add: result_ok_def)

lemma result_ok_if [result_intros]: "result_ok P a \<Longrightarrow> result_ok P b \<Longrightarrow> result_ok P (if c then a else b)"
  by simp

lemma result_ok_rbind [result_intros]: "(\<And>x. r = Inr x \<Longrightarrow> result_ok P (f x)) \<Longrightarrow> result_ok P (rbind r f)"
  by (cases r) (simp_all add: result_ok_def)

lemma result_ok_option [result_intros]:
  "result_ok P a \<Longrightarrow> (\<And>x. opt = Some x \<Longrightarrow> result_ok P (f x)) \<Longrightarrow> result_ok P (case opt of None \<Rightarrow> a | Some x \<Rightarrow> f x)"
  by (cases opt) simp_all

lemma result_okD: "result_ok P r \<Longrightarrow> r = Inr x \<Longrightarrow> P x"
  by (simp add: result_ok_def)

lemma rbind_assoc: "rbind (rbind r f) g = rbind r (\<lambda>x. rbind (f x) g)"
  by (cases r) auto

section \<open>Slices\<close>

text \<open>\<open>subslice xs i j\<close> is Go's \<^verbatim>\<open>xs[i:j]\<close>; every use is guarded by a length check.\<close>

definition subslice :: "'a list \<Rightarrow> nat \<Rightarrow> nat \<Rightarrow> 'a list" where
  "subslice xs i j = take (j - i) (drop i xs)"

lemma length_subslice [simp]: "length (subslice xs i j) = min (j - i) (length xs - i)"
  by (simp add: subslice_def)

lemma subslice_0 [simp]: "subslice xs 0 n = take n xs"
  by (simp add: subslice_def)

lemma subslice_append_right [wire]: "length xs \<le> i \<Longrightarrow> subslice (xs @ ys) i j = subslice ys (i - length xs) (j - length xs)"
  by (simp add: subslice_def diff_commute)

lemma subslice_append_left: "j \<le> length xs \<Longrightarrow> subslice (xs @ ys) i j = subslice xs i j"
  by (auto simp: subslice_def)

lemma subslice_append_exact [wire]:
  "i = length xs \<Longrightarrow> j = length xs + length ys \<Longrightarrow> subslice (xs @ ys @ zs) i j = ys"
  by (simp add: subslice_def)

lemma subslice_append_exact_end [wire]:
  "i = length xs \<Longrightarrow> j = length xs + length ys \<Longrightarrow> subslice (xs @ ys) i j = ys"
  by (simp add: subslice_def)

lemma subslice_split: "i \<le> j \<Longrightarrow> j \<le> k \<Longrightarrow> subslice xs i k = subslice xs i j @ subslice xs j k"
proof -
  assume "i \<le> j" "j \<le> k"
  then obtain a b where "j = i + a" "k = i + a + b" by (metis le_Suc_ex)
  then show ?thesis by (simp add: subslice_def take_add add.commute)
qed

lemma subslice_append_drop: "i \<le> j \<Longrightarrow> subslice xs i j @ drop j xs = drop i xs"
  by (metis append_take_drop_id drop_drop le_add_diff_inverse2 subslice_def)

lemma hd_append_drop: "xs \<noteq> [] \<Longrightarrow> xs ! 0 # drop 1 xs = xs"
  by (cases xs) auto

lemma subslice_to_end: "length xs \<le> j \<Longrightarrow> subslice xs i j = drop i xs"
  by (simp add: subslice_def)

text \<open>\<open>copy_at off src buf\<close> is Go's \<^verbatim>\<open>copy(buf[off:], src)\<close> with room for all of \<open>src\<close>.\<close>

definition copy_at :: "nat \<Rightarrow> 'a list \<Rightarrow> 'a list \<Rightarrow> 'a list" where
  "copy_at off src buf = take off buf @ src @ drop (off + length src) buf"

lemma length_copy_at [simp]: "off + length src \<le> length buf \<Longrightarrow> length (copy_at off src buf) = length buf"
  by (simp add: copy_at_def)

section \<open>Big-endian integers\<close>

text \<open>
  \<open>be_bytes n w\<close> writes the low \<open>n\<close> bytes of \<open>w\<close>, most significant first
  (\<^verbatim>\<open>AppendUint16/32/64\<close>, \<^verbatim>\<open>PutUint16/32/64\<close>); \<open>of_be\<close> reads them back.
\<close>

primrec be_bytes :: "nat \<Rightarrow> 'a::len word \<Rightarrow> bytes" where
  "be_bytes 0 w = []"
| "be_bytes (Suc n) w = ucast (drop_bit (8 * n) w) # be_bytes n w"

primrec of_be :: "bytes \<Rightarrow> 'a::len word" where
  "of_be [] = 0"
| "of_be (b # bs) = push_bit (8 * length bs) (ucast b) OR of_be bs"

abbreviation put_uint16 :: "u16 \<Rightarrow> bytes" where
  "put_uint16 \<equiv> be_bytes 2"

abbreviation put_uint32 :: "u32 \<Rightarrow> bytes" where
  "put_uint32 \<equiv> be_bytes 4"

abbreviation put_uint64 :: "u64 \<Rightarrow> bytes" where
  "put_uint64 \<equiv> be_bytes 8"

abbreviation uint16_of :: "bytes \<Rightarrow> u16" where
  "uint16_of \<equiv> of_be"

abbreviation uint32_of :: "bytes \<Rightarrow> u32" where
  "uint32_of \<equiv> of_be"

abbreviation uint64_of :: "bytes \<Rightarrow> u64" where
  "uint64_of \<equiv> of_be"

lemma length_be_bytes [simp]: "length (be_bytes n w) = n"
  by (induction n) auto

lemma be_bytes_nonempty [simp]: "be_bytes n w = [] \<longleftrightarrow> n = 0"
  by (cases n) auto

lemma be_bytes_numeral: "be_bytes (numeral k) w = ucast (drop_bit (8 * pred_numeral k) w) # be_bytes (pred_numeral k) w"
  by (simp add: numeral_eq_Suc)

lemma of_be_be_bytes_take: "of_be (be_bytes n w) = take_bit (8 * n) (w :: 'a::len word)"
proof (induction n)
  case 0
  then show ?case by simp
next
  case (Suc n)
  have "push_bit (8 * n) (ucast (ucast (drop_bit (8 * n) w) :: byte)) OR take_bit (8 * n) w
      = take_bit (8 * Suc n) w"
    by (rule bit_word_eqI) (auto simp: bit_simps)
  with Suc show ?case by simp
qed

lemma of_be_be_bytes [simp]: "LENGTH('a) \<le> 8 * n \<Longrightarrow> of_be (be_bytes n w) = (w :: 'a::len word)"
  by (simp add: of_be_be_bytes_take take_bit_word_eq_self)

lemma bit_of_be_low:
  "k < 8 * length bs \<Longrightarrow> bit (of_be (b # bs) :: 'a::len word) k = bit (of_be bs :: 'a word) k"
  by (auto simp: bit_simps)

lemma bit_of_be_high: "8 * length bs \<le> k \<Longrightarrow> \<not> bit (of_be bs :: 'a::len word) k"
proof (induction bs)
  case Nil
  then show ?case by simp
next
  case (Cons b bs)
  then show ?case by (auto simp: bit_simps dest: bit_imp_le_length)
qed

lemma be_bytes_cong:
  "(\<And>k. k < 8 * n \<Longrightarrow> bit v k = bit w k) \<Longrightarrow> be_bytes n v = be_bytes n (w :: 'a::len word)"
proof (induction n)
  case 0
  then show ?case by simp
next
  case (Suc n)
  have "ucast (drop_bit (8 * n) v) = (ucast (drop_bit (8 * n) w) :: byte)"
    by (rule bit_word_eqI) (simp add: bit_simps Suc.prems)
  with Suc show ?case by simp
qed

lemma be_bytes_of_be [simp]:
  "8 * length bs \<le> LENGTH('a) \<Longrightarrow> n = length bs \<Longrightarrow> be_bytes n (of_be bs :: 'a::len word) = bs"
proof (induction bs arbitrary: n)
  case Nil
  then show ?case by simp
next
  case (Cons b bs)
  have hd: "ucast (drop_bit (8 * length bs) (of_be (b # bs) :: 'a word)) = b"
    using Cons.prems(1)
    by (intro bit_word_eqI) (auto simp: bit_simps bit_of_be_high)
  have tl: "be_bytes (length bs) (of_be (b # bs) :: 'a word) = be_bytes (length bs) (of_be bs :: 'a word)"
    by (rule be_bytes_cong) (rule bit_of_be_low)
  from Cons hd tl show ?case by simp
qed

lemma be_bytes_inj:
  "LENGTH('a) \<le> 8 * n \<Longrightarrow> be_bytes n v = be_bytes n (w :: 'a::len word) \<longleftrightarrow> v = w"
  by (metis of_be_be_bytes)

section \<open>Go strings\<close>

text \<open>
  A Go string is a sequence of bytes. The model writes it as an Isabelle \<^typ>\<open>string\<close>
  (one \<^typ>\<open>char\<close> per byte); these conversions are \<^verbatim>\<open>[]byte(s)\<close> and \<^verbatim>\<open>string(b)\<close>.
\<close>

definition byte_of_char :: "char \<Rightarrow> byte" where
  "byte_of_char c = of_nat (of_char c)"

definition char_of_byte :: "byte \<Rightarrow> char" where
  "char_of_byte b = char_of (unat b)"

abbreviation bytes_of_string :: "string \<Rightarrow> bytes" where
  "bytes_of_string \<equiv> map byte_of_char"

abbreviation string_of_bytes :: "bytes \<Rightarrow> string" where
  "string_of_bytes \<equiv> map char_of_byte"

lemma char_of_byte_of_char [simp]: "char_of_byte (byte_of_char c) = c"
proof -
  have "(of_char c :: nat) < 256" by simp
  then show ?thesis
    by (simp add: char_of_byte_def byte_of_char_def unat_of_nat)
qed

lemma byte_of_char_of_byte [simp]: "byte_of_char (char_of_byte b) = b"
proof -
  have "unat b < 256" using unsigned_less [where ?'a = nat, of b] by simp
  then show ?thesis by (simp add: char_of_byte_def byte_of_char_def)
qed

lemma char_of_byte_comp [simp]: "char_of_byte \<circ> byte_of_char = id"
  by (rule ext) simp

lemma string_of_bytes_of_string [simp]: "string_of_bytes (bytes_of_string s) = s"
  by (simp add: map_idI)

lemma bytes_of_string_of_bytes [simp]: "bytes_of_string (string_of_bytes b) = b"
  by (simp add: map_idI)

section \<open>Words\<close>

lemma unat_of_nat_u16 [simp]: "n < 65536 \<Longrightarrow> unat (of_nat n :: u16) = n"
  by (simp add: unat_of_nat)

lemma unat_of_nat_u8 [simp]: "n < 256 \<Longrightarrow> unat (of_nat n :: u8) = n"
  by (simp add: unat_of_nat)

lemma unat_sub_le: "b \<le> a \<Longrightarrow> unat (a - b) = unat a - unat (b :: 'a::len word)"
  by (simp add: unat_sub_if_size word_le_nat_alt)

lemma take_bit_small: "unat w < 2 ^ n \<Longrightarrow> take_bit n w = (w :: 'a::len word)"
  by (simp add: word_unat_eq_iff unsigned_take_bit_eq take_bit_nat_eq_self)

lemma bit_small: "unat (w :: 'a::len word) < 2 ^ n \<Longrightarrow> bit w k \<Longrightarrow> k < n"
  by (metis take_bit_small bit_take_bit_iff)

lemma and_7 [simp]: "(k :: u8) AND 7 = take_bit 3 k"
  by (simp add: take_bit_eq_mask mask_eq_exp_minus_1)

lemma unat_less_of_nat: "n < 2 ^ LENGTH('a) \<Longrightarrow> (w < of_nat n) = (unat (w :: 'a::len word) < n)"
  by (simp add: word_less_nat_alt unat_of_nat)

section \<open>Association lists\<close>

lemma length_delete_less: "map_of xs k = Some v \<Longrightarrow> length (AList.delete k xs) < length xs"
  by (induction xs) (auto simp: AList.delete_eq le_imp_less_Suc split: if_splits)

lemma length_update_le: "length (AList.update k v xs) \<le> Suc (length xs)"
  by (induction xs) auto

lemma length_update_mem: "k \<in> fst ` set xs \<Longrightarrow> length (AList.update k v xs) = length xs"
  by (induction xs) auto

lemma keys_update: "fst ` set (AList.update k v xs) = insert k (fst ` set xs)"
  by (induction xs) auto

lemma set_update_distinct:
  "distinct (map fst xs) \<Longrightarrow> set (AList.update k v xs) = insert (k, v) {e \<in> set xs. fst e \<noteq> k}"
proof (induction xs)
  case Nil
  then show ?case by simp
next
  case (Cons e xs)
  obtain k' v' where e: "e = (k', v')" by (cases e)
  then show ?case
    using Cons by (cases "k' = k") (auto simp: image_iff)
qed

lemma set_delete: "set (AList.delete k xs) = {e \<in> set xs. fst e \<noteq> k}"
  by (auto simp: AList.delete_eq)

lemma distinct_delete_keys: "distinct (map fst xs) \<Longrightarrow> distinct (map fst (AList.delete k xs))"
  unfolding AList.delete_eq by (rule distinct_map_filter)

lemma keys_delete: "fst ` set (AList.delete k xs) = fst ` set xs - {k}"
  by (auto simp: set_delete)

lemma map_of_None_keys: "map_of xs k = None \<longleftrightarrow> k \<notin> fst ` set xs"
  by (induction xs) auto

end
