(* ===== verification/Proto.thy ===== *)
theory Proto
  imports Prelude
begin

text \<open>
  The wire formats of \<^verbatim>\<open>internal/proto\<close>: opcodes (\<^verbatim>\<open>opcodes.go\<close>), the control-channel
  header and payloads and the P_DATA_V2 header (\<^verbatim>\<open>header.go\<close>), and the keepalive payload
  (\<^verbatim>\<open>ping.go\<close>). Encoders and parsers are the Go functions; the lemmas are the round
  trips in both directions, the exact lengths, and what a truncated packet does.
\<close>

section \<open>Opcodes (opcodes.go)\<close>

type_synonym opcode = u8

definition PControlSoftResetV1 :: opcode where "PControlSoftResetV1 = 3"
definition PControlV1 :: opcode where "PControlV1 = 4"
definition PAckV1 :: opcode where "PAckV1 = 5"
definition PControlHardResetClientV2 :: opcode where "PControlHardResetClientV2 = 7"
definition PControlHardResetServerV2 :: opcode where "PControlHardResetServerV2 = 8"
definition PDataV2 :: opcode where "PDataV2 = 9"
definition PControlHardResetClientV3 :: opcode where "PControlHardResetClientV3 = 10"
definition PControlWKCV1 :: opcode where "PControlWKCV1 = 11"

lemmas opcode_defs = PControlSoftResetV1_def PControlV1_def PAckV1_def
  PControlHardResetClientV2_def PControlHardResetServerV2_def PDataV2_def
  PControlHardResetClientV3_def PControlWKCV1_def

definition IsControl :: "opcode \<Rightarrow> bool" where
  "IsControl op \<longleftrightarrow> op \<in> {PControlSoftResetV1, PControlV1, PAckV1,
     PControlHardResetClientV2, PControlHardResetServerV2,
     PControlHardResetClientV3, PControlWKCV1}"

definition IsData :: "opcode \<Rightarrow> bool" where
  "IsData op \<longleftrightarrow> op = PDataV2"

definition opcode_String :: "opcode \<Rightarrow> string" where
  "opcode_String op =
    (if op = PControlSoftResetV1 then ''P_CONTROL_SOFT_RESET_V1''
     else if op = PControlV1 then ''P_CONTROL_V1''
     else if op = PAckV1 then ''P_ACK_V1''
     else if op = PControlHardResetClientV2 then ''P_CONTROL_HARD_RESET_CLIENT_V2''
     else if op = PControlHardResetServerV2 then ''P_CONTROL_HARD_RESET_SERVER_V2''
     else if op = PDataV2 then ''P_DATA_V2''
     else if op = PControlHardResetClientV3 then ''P_CONTROL_HARD_RESET_CLIENT_V3''
     else if op = PControlWKCV1 then ''P_CONTROL_WKC_V1''
     else ''UNKNOWN'')"

definition PackOpcodeKID :: "opcode \<Rightarrow> u8 \<Rightarrow> byte" where
  "PackOpcodeKID op keyID = push_bit 3 op OR (keyID AND 7)"

definition UnpackOpcodeKID :: "byte \<Rightarrow> opcode \<times> u8" where
  "UnpackOpcodeKID b = (drop_bit 3 b, b AND 7)"

datatype proto_error =
    ErrShortPacket
  | TooManyAcks nat
  | ZeroAcks
  | NotDataV2 opcode
  | MissingZeroPrefix
  | UnsupportedKeyMethod byte
  | ZeroLength string
  | MissingNUL string
  | StringTooLong string nat
  | ContainsNUL string nat

section \<open>Control header and payloads (header.go)\<close>

definition MaxAcks :: nat where "MaxAcks = 255"

record ControlHeader =
  ch_Opcode :: opcode
  ch_KeyID :: u8
  ch_SessionID :: u64

definition HeaderLen :: nat where "HeaderLen = 1 + 8"

definition ControlHeader_AppendBinary :: "ControlHeader \<Rightarrow> bytes \<Rightarrow> bytes" where
  "ControlHeader_AppendBinary h dst =
     (dst @ [PackOpcodeKID (ch_Opcode h) (ch_KeyID h)]) @ put_uint64 (ch_SessionID h)"

definition ParseControlHeader :: "bytes \<Rightarrow> (proto_error, ControlHeader \<times> bytes) result" where
  "ParseControlHeader pkt =
     (if length pkt < HeaderLen then Inl ErrShortPacket
      else let (op, kid) = UnpackOpcodeKID (pkt ! 0)
           in Inr (\<lparr>ch_Opcode = op, ch_KeyID = kid, ch_SessionID = uint64_of (subslice pkt 1 9)\<rparr>,
                   drop 9 pkt))"

record ControlPayload =
  cp_Acks :: "u32 list"
  cp_RemoteSessionID :: u64
  cp_MessagePID :: u32
  cp_Body :: bytes

definition put_acks :: "u32 list \<Rightarrow> bytes" where
  "put_acks acks = concat (map put_uint32 acks)"

text \<open>The decoding loop \<^verbatim>\<open>for i := range n\<close>: \<open>n\<close> big-endian words from offset \<open>off\<close>.\<close>

primrec read_acks :: "nat \<Rightarrow> bytes \<Rightarrow> nat \<Rightarrow> u32 list" where
  "read_acks 0 data off = []"
| "read_acks (Suc n) data off = uint32_of (subslice data off (off + 4)) # read_acks n data (off + 4)"

definition MarshalControlPayload :: "ControlPayload \<Rightarrow> (proto_error, bytes) result" where
  "MarshalControlPayload cp =
     (if length (cp_Acks cp) > MaxAcks then Inl (TooManyAcks (length (cp_Acks cp)))
      else Inr ([of_nat (length (cp_Acks cp))]
                @ put_acks (cp_Acks cp)
                @ (if length (cp_Acks cp) > 0 then put_uint64 (cp_RemoteSessionID cp) else [])
                @ put_uint32 (cp_MessagePID cp)
                @ cp_Body cp))"

definition ParseControlPayload :: "bytes \<Rightarrow> (proto_error, ControlPayload) result" where
  "ParseControlPayload data =
     (if length data < 1 then Inl ErrShortPacket
      else let n = unat (data ! 0);
               need = 1 + 4 * n + (if n > 0 then 8 else 0) + 4
           in if length data < need then Inl ErrShortPacket
              else let off = (if n > 0 then 1 + 4 * n + 8 else 1)
                   in Inr \<lparr>cp_Acks = read_acks n data 1,
                          cp_RemoteSessionID =
                            (if n > 0 then uint64_of (subslice data (1 + 4 * n) (1 + 4 * n + 8)) else 0),
                          cp_MessagePID = uint32_of (subslice data off (off + 4)),
                          cp_Body = drop (off + 4) data\<rparr>)"

record AckPayload =
  ap_Acks :: "u32 list"
  ap_RemoteSessionID :: u64

definition MarshalAckPayload :: "AckPayload \<Rightarrow> (proto_error, bytes) result" where
  "MarshalAckPayload ap =
     (if length (ap_Acks ap) = 0 then Inl ZeroAcks
      else if length (ap_Acks ap) > MaxAcks then Inl (TooManyAcks (length (ap_Acks ap)))
      else Inr ([of_nat (length (ap_Acks ap))] @ put_acks (ap_Acks ap)
                @ put_uint64 (ap_RemoteSessionID ap)))"

definition ParseAckPayload :: "bytes \<Rightarrow> (proto_error, AckPayload) result" where
  "ParseAckPayload data =
     (if length data < 1 then Inl ErrShortPacket
      else let n = unat (data ! 0)
           in if n = 0 then Inl ZeroAcks
              else if length data < 1 + 4 * n + 8 then Inl ErrShortPacket
              else Inr \<lparr>ap_Acks = read_acks n data 1,
                       ap_RemoteSessionID = uint64_of (subslice data (1 + 4 * n) (1 + 4 * n + 8))\<rparr>)"

section \<open>P_DATA_V2 header (header.go)\<close>

record DataV2Header =
  dh_KeyID :: u8
  dh_PeerID :: u32
  dh_PacketID :: u32

definition DataV2HeaderLen :: nat where "DataV2HeaderLen = 1 + 3 + 4"

text \<open>The 24-bit peer-id as \<^verbatim>\<open>byte(p>>16), byte(p>>8), byte(p)\<close>.\<close>

definition peer_id_bytes :: "u32 \<Rightarrow> bytes" where
  "peer_id_bytes p = [ucast (drop_bit 16 p), ucast (drop_bit 8 p), ucast p]"

definition DataV2Header_AppendBinary :: "DataV2Header \<Rightarrow> bytes \<Rightarrow> bytes" where
  "DataV2Header_AppendBinary h dst =
     dst @ [PackOpcodeKID PDataV2 (dh_KeyID h)] @ peer_id_bytes (dh_PeerID h)
         @ put_uint32 (dh_PacketID h)"

definition ParseDataV2Header :: "bytes \<Rightarrow> (proto_error, DataV2Header \<times> bytes) result" where
  "ParseDataV2Header pkt =
     (if length pkt < DataV2HeaderLen then Inl ErrShortPacket
      else let (op, kid) = UnpackOpcodeKID (pkt ! 0)
           in if op \<noteq> PDataV2 then Inl (NotDataV2 op)
              else Inr (\<lparr>dh_KeyID = kid,
                        dh_PeerID = push_bit 16 (ucast (pkt ! 1)) OR push_bit 8 (ucast (pkt ! 2))
                                    OR ucast (pkt ! 3),
                        dh_PacketID = uint32_of (subslice pkt 4 8)\<rparr>,
                        drop 8 pkt))"

section \<open>Keepalive payload (ping.go)\<close>

definition PingMagic :: bytes where
  "PingMagic = [0x2a, 0x18, 0x7b, 0xf3, 0x64, 0x1e, 0xb4, 0xcb,
                0x07, 0xed, 0x2d, 0x0a, 0x98, 0x1f, 0xc7, 0x48]"

fun all_equal_from :: "bytes \<Rightarrow> bytes \<Rightarrow> bool" where
  "all_equal_from [] b = True"
| "all_equal_from (m # ms) b = (if hd b \<noteq> m then False else all_equal_from ms (tl b))"

definition IsPing :: "bytes \<Rightarrow> bool" where
  "IsPing b = (if length b \<noteq> length PingMagic then False else all_equal_from PingMagic b)"

section \<open>Lemmas\<close>

lemma Unpack_Pack: "op < 32 \<Longrightarrow> UnpackOpcodeKID (PackOpcodeKID op k) = (op, k AND 7)"
proof -
  assume "op < 32"
  then have "unat op < 2 ^ 5" by (simp add: word_less_nat_alt)
  note hi = bit_small [OF this]
  have "drop_bit 3 (push_bit 3 op OR take_bit 3 k) = op"
    by (rule bit_word_eqI) (auto simp: bit_simps dest: hi)
  moreover have "take_bit 3 (push_bit 3 op OR take_bit 3 k) = take_bit 3 k"
    by (rule bit_word_eqI) (auto simp: bit_simps)
  ultimately show ?thesis by (simp add: UnpackOpcodeKID_def PackOpcodeKID_def)
qed

lemma Pack_Unpack: "PackOpcodeKID (fst (UnpackOpcodeKID b)) (snd (UnpackOpcodeKID b)) = b"
  unfolding PackOpcodeKID_def UnpackOpcodeKID_def fst_conv snd_conv and_7
  by (rule bit_word_eqI) (auto simp: bit_simps)

lemma length_put_acks [simp]: "length (put_acks acks) = 4 * length acks"
  by (induction acks) (auto simp: put_acks_def)

lemma put_acks_Cons: "put_acks (a # acks) = put_uint32 a @ put_acks acks"
  by (simp add: put_acks_def)

lemma length_read_acks [simp]: "length (read_acks n data off) = n"
  by (induction n arbitrary: off) auto

lemma read_acks_put_acks [wire]:
  "off = length pre \<Longrightarrow> n = length acks \<Longrightarrow> read_acks n (pre @ put_acks acks @ rest) off = acks"
proof (induction acks arbitrary: pre off n)
  case Nil
  then show ?case by simp
next
  case (Cons a acks)
  have hd: "subslice (pre @ put_uint32 a @ put_acks acks @ rest) off (off + 4) = put_uint32 a"
    using Cons.prems by (simp add: subslice_append_exact)
  have tl: "read_acks (length acks) ((pre @ put_uint32 a) @ put_acks acks @ rest) (off + 4) = acks"
    using Cons.prems by (intro Cons.IH) auto
  from hd tl Cons.prems show ?case by (simp add: put_acks_Cons)
qed

lemma put_acks_read_acks:
  "off + 4 * n \<le> length data \<Longrightarrow> put_acks (read_acks n data off) = subslice data off (off + 4 * n)"
proof (induction n arbitrary: off)
  case 0
  then show ?case by (simp add: put_acks_def subslice_def)
next
  case (Suc n)
  have "subslice data off (off + 4 * Suc n) = subslice data off (off + 4) @ subslice data (off + 4) (off + 4 * Suc n)"
    by (rule subslice_split) auto
  with Suc show ?case by (simp add: put_acks_Cons add.assoc)
qed

lemma MarshalControlPayload_layout:
  "MarshalControlPayload cp = Inr data \<Longrightarrow>
     length (cp_Acks cp) \<le> 255 \<and>
     data = [of_nat (length (cp_Acks cp))] @ put_acks (cp_Acks cp)
       @ (if cp_Acks cp = [] then [] else put_uint64 (cp_RemoteSessionID cp))
       @ put_uint32 (cp_MessagePID cp) @ cp_Body cp"
  by (auto simp: MarshalControlPayload_def MaxAcks_def split: if_splits)

lemma ParseControlPayload_layout:
  assumes "length acks \<le> 255"
  shows "ParseControlPayload ([of_nat (length acks)] @ put_acks acks
           @ (if acks = [] then [] else put_uint64 sid) @ put_uint32 pid @ body)
         = Inr \<lparr>cp_Acks = acks, cp_RemoteSessionID = (if acks = [] then 0 else sid),
               cp_MessagePID = pid, cp_Body = body\<rparr>"
proof (cases "acks = []")
  case True
  then show ?thesis
    by (simp add: ParseControlPayload_def subslice_append_exact [where xs = "[_]", simplified] put_acks_def)
next
  case False
  let ?h = "of_nat (length acks) :: byte"
  let ?d = "[?h] @ put_acks acks @ put_uint64 sid @ put_uint32 pid @ body"
  have n: "unat ?h = length acks" using assms by simp
  have ak: "read_acks (length acks) ?d 1 = acks"
    by (rule read_acks_put_acks) auto
  have sid: "subslice ?d (1 + 4 * length acks) (1 + 4 * length acks + 8) = put_uint64 sid"
    using subslice_append_exact [of _ "[?h] @ put_acks acks" _ "put_uint64 sid"] by simp
  have pid: "subslice ?d (1 + 4 * length acks + 8) (1 + 4 * length acks + 8 + 4) = put_uint32 pid"
    using subslice_append_exact [of _ "[?h] @ put_acks acks @ put_uint64 sid" _ "put_uint32 pid"] by simp
  have body: "drop (1 + 4 * length acks + 8 + 4) ?d = body"
    by (simp add: drop_Cons')
  from False show ?thesis
    using n ak sid pid body by (simp add: ParseControlPayload_def Let_def)
qed

lemma ParseControlPayload_MarshalControlPayload:
  "MarshalControlPayload cp = Inr data \<Longrightarrow>
     ParseControlPayload data =
       Inr (cp\<lparr>cp_RemoteSessionID := if cp_Acks cp = [] then 0 else cp_RemoteSessionID cp\<rparr>)"
  by (drule MarshalControlPayload_layout) (simp add: ParseControlPayload_layout del: append_Cons append.simps)

lemma be_bytes_subslice [wire]:
  "i + n \<le> length data \<Longrightarrow> 8 * n = LENGTH('a) \<Longrightarrow>
     be_bytes n (of_be (subslice data i (i + n)) :: 'a::len word) = subslice data i (i + n)"
  by simp

lemma MarshalControlPayload_ParseControlPayload:
  assumes "ParseControlPayload data = Inr cp"
  shows "MarshalControlPayload cp = Inr data"
proof -
  define n where "n = unat (data ! 0)"
  have n: "n < 256" "of_nat n = data ! 0"
    using unsigned_less [where ?'a = nat, of "data ! 0"] by (auto simp: n_def)
  have ne: "data \<noteq> []" using assms by (auto simp: ParseControlPayload_def)
  show ?thesis
  proof (cases "n > 0")
    case True
    with assms ne have len: "1 + 4 * n + 8 + 4 \<le> length data"
      and cp: "cp = \<lparr>cp_Acks = read_acks n data 1,
        cp_RemoteSessionID = uint64_of (subslice data (1 + 4 * n) (1 + 4 * n + 8)),
        cp_MessagePID = uint32_of (subslice data (1 + 4 * n + 8) (1 + 4 * n + 8 + 4)),
        cp_Body = drop (1 + 4 * n + 8 + 4) data\<rparr>"
      by (auto simp: ParseControlPayload_def Let_def n_def split: if_splits)
    have "[data ! 0] @ subslice data 1 (1 + 4 * n) @ subslice data (1 + 4 * n) (1 + 4 * n + 8)
        @ subslice data (1 + 4 * n + 8) (1 + 4 * n + 8 + 4) @ drop (1 + 4 * n + 8 + 4) data = data"
      using ne by (simp add: subslice_append_drop hd_append_drop [simplified])
    then show ?thesis
      using len n True
      by (simp add: MarshalControlPayload_def MaxAcks_def cp put_acks_read_acks)
  next
    case False
    with assms ne have len: "5 \<le> length data"
      and cp: "cp = \<lparr>cp_Acks = [], cp_RemoteSessionID = 0,
        cp_MessagePID = uint32_of (subslice data 1 (1 + 4)), cp_Body = drop 5 data\<rparr>"
      by (auto simp: ParseControlPayload_def Let_def n_def split: if_splits)
    have "[data ! 0] @ subslice data 1 (1 + 4) @ drop 5 data = data"
      using ne by (simp add: subslice_append_drop hd_append_drop [simplified])
    with len n False show ?thesis
      by (simp add: MarshalControlPayload_def cp put_acks_def)
  qed
qed

lemma ParseAckPayload_MarshalAckPayload:
  assumes "MarshalAckPayload ap = Inr data"
  shows "ParseAckPayload (data @ rest) = Inr ap"
proof -
  let ?acks = "ap_Acks ap"
  let ?h = "of_nat (length ?acks) :: byte"
  let ?sid = "put_uint64 (ap_RemoteSessionID ap)"
  have l: "length ?acks \<noteq> 0" "length ?acks \<le> 255"
    and d: "data = [?h] @ put_acks ?acks @ ?sid"
    using assms by (auto simp: MarshalAckPayload_def MaxAcks_def split: if_splits)
  have n: "unat ?h = length ?acks" using l by simp
  have ak: "read_acks (length ?acks) ([?h] @ put_acks ?acks @ ?sid @ rest) 1 = ?acks"
    by (rule read_acks_put_acks) auto
  have sid: "subslice ([?h] @ put_acks ?acks @ ?sid @ rest) (1 + 4 * length ?acks) (1 + 4 * length ?acks + 8) = ?sid"
    using subslice_append_exact [of _ "[?h] @ put_acks ?acks" _ ?sid] by simp
  show ?thesis
    using l n ak sid d by (simp add: ParseAckPayload_def Let_def)
qed

lemma MarshalAckPayload_ParseAckPayload:
  assumes "ParseAckPayload data = Inr ap"
  shows "MarshalAckPayload ap = Inr (take (1 + 4 * length (ap_Acks ap) + 8) data)"
proof -
  define n where "n = unat (data ! 0)"
  have n: "n < 256" "of_nat n = data ! 0"
    using unsigned_less [where ?'a = nat, of "data ! 0"] by (auto simp: n_def)
  from assms have ne: "data \<noteq> []" and n0: "n \<noteq> 0" and len: "1 + 4 * n + 8 \<le> length data"
    and ap: "ap = \<lparr>ap_Acks = read_acks n data 1,
        ap_RemoteSessionID = uint64_of (subslice data (1 + 4 * n) (1 + 4 * n + 8))\<rparr>"
    by (auto simp: ParseAckPayload_def Let_def n_def split: if_splits)
  have "subslice data 1 (1 + 4 * n) @ subslice data (1 + 4 * n) (1 + 4 * n + 8) = subslice data 1 (1 + 4 * n + 8)"
    by (rule subslice_split [symmetric]) auto
  moreover have "data ! 0 # subslice data 1 (1 + 4 * n + 8) = take (1 + 4 * n + 8) data"
    using ne by (cases data) (auto simp: subslice_def take_Cons')
  ultimately show ?thesis
    using len n n0 by (simp add: MarshalAckPayload_def MaxAcks_def ap put_acks_read_acks)
qed

lemma ParseControlHeader_AppendBinary:
  "ch_Opcode h < 32 \<Longrightarrow>
     ParseControlHeader (ControlHeader_AppendBinary h [] @ rest)
       = Inr (h\<lparr>ch_KeyID := ch_KeyID h AND 7\<rparr>, rest)"
  by (auto simp: ParseControlHeader_def ControlHeader_AppendBinary_def HeaderLen_def Unpack_Pack
      subslice_def drop_Cons')

lemma peer_id_join:
  "push_bit 16 (ucast (ucast (drop_bit 16 p) :: byte)) OR push_bit 8 (ucast (ucast (drop_bit 8 p) :: byte))
     OR ucast (ucast p :: byte) = take_bit 24 (p :: u32)"
  apply (rule bit_word_eqI)
  subgoal for n by (cases "16 \<le> n") (auto simp: bit_simps)
  done

lemma ParseDataV2Header_AppendBinary:
  "ParseDataV2Header (DataV2Header_AppendBinary h [] @ rest)
     = Inr (h\<lparr>dh_KeyID := dh_KeyID h AND 7, dh_PeerID := take_bit 24 (dh_PeerID h)\<rparr>, rest)"
proof -
  have "PDataV2 < 32" by (simp add: PDataV2_def)
  then show ?thesis
    by (simp add: ParseDataV2Header_def DataV2Header_AppendBinary_def DataV2HeaderLen_def
        peer_id_bytes_def Unpack_Pack peer_id_join subslice_def)
qed

lemma all_equal_from_eq: "length b = length m \<Longrightarrow> all_equal_from m b \<longleftrightarrow> b = m"
proof (induction m arbitrary: b)
  case Nil
  then show ?case by simp
next
  case (Cons x m)
  then show ?case by (cases b) auto
qed

lemma IsPing_iff: "IsPing b \<longleftrightarrow> b = PingMagic"
  by (auto simp: IsPing_def all_equal_from_eq)

section \<open>Properties\<close>

text \<open>
  The control payload codec is exact in both directions: a byte string parses to a payload
  if and only if the payload marshals to that very byte string and carries no session-id when
  it carries no acknowledgements (the field is then not on the wire). In particular two
  different byte strings never parse to the same payload.
\<close>

lemma ControlPayload_codec:
  "ParseControlPayload data = Inr cp \<longleftrightarrow>
     MarshalControlPayload cp = Inr data \<and> (cp_Acks cp = [] \<longrightarrow> cp_RemoteSessionID cp = 0)"
proof
  assume p: "ParseControlPayload data = Inr cp"
  then have m: "MarshalControlPayload cp = Inr data"
    by (rule MarshalControlPayload_ParseControlPayload)
  have "cp_RemoteSessionID cp = 0" if "cp_Acks cp = []"
  proof -
    have "cp\<lparr>cp_RemoteSessionID := 0\<rparr> = cp"
      using ParseControlPayload_MarshalControlPayload [OF m] p that by simp
    then have "cp_RemoteSessionID (cp\<lparr>cp_RemoteSessionID := 0\<rparr>) = cp_RemoteSessionID cp" by (rule arg_cong)
    then show ?thesis by simp
  qed
  with m show "MarshalControlPayload cp = Inr data \<and> (cp_Acks cp = [] \<longrightarrow> cp_RemoteSessionID cp = 0)"
    by blast
next
  assume m: "MarshalControlPayload cp = Inr data \<and> (cp_Acks cp = [] \<longrightarrow> cp_RemoteSessionID cp = 0)"
  then have "(if cp_Acks cp = [] then 0 else cp_RemoteSessionID cp) = cp_RemoteSessionID cp" by simp
  then show "ParseControlPayload data = Inr cp"
    using ParseControlPayload_MarshalControlPayload [of cp data] m by simp
qed

lemma ControlPayload_codec_witness:
  "ParseControlPayload [1, 0, 0, 0, 7, 0, 0, 0, 0, 0, 0, 0, 9, 0, 0, 0, 3, 65] =
     Inr \<lparr>cp_Acks = [7], cp_RemoteSessionID = 9, cp_MessagePID = 3, cp_Body = [65]\<rparr>"
  by (subst ControlPayload_codec) (code_simp)

text \<open>
  A marshalled acknowledgement parses back to itself, whatever follows it in the datagram,
  and whatever parses is the marshalled form of the result: the codec of \<^verbatim>\<open>P_ACK_V1\<close> payloads
  is exact.
\<close>

lemma AckPayload_codec:
  "ParseAckPayload data = Inr ap \<longleftrightarrow> (\<exists>m rest. MarshalAckPayload ap = Inr m \<and> data = m @ rest)"
proof
  assume "ParseAckPayload data = Inr ap"
  then show "\<exists>m rest. MarshalAckPayload ap = Inr m \<and> data = m @ rest"
    using MarshalAckPayload_ParseAckPayload by (metis append_take_drop_id)
next
  assume "\<exists>m rest. MarshalAckPayload ap = Inr m \<and> data = m @ rest"
  then show "ParseAckPayload data = Inr ap"
    using ParseAckPayload_MarshalAckPayload by blast
qed

text \<open>
  The fixed headers survive the wire: the opcode byte packs and unpacks without loss in
  both directions, a control header and a data header parse back from the front of any packet
  they are put on, with the key-id cut to its 3 bits and the peer-id to its 24 bits.
\<close>

lemma headers_roundtrip:
  "PackOpcodeKID (fst (UnpackOpcodeKID b)) (snd (UnpackOpcodeKID b)) = b \<and>
   (op < 32 \<longrightarrow> UnpackOpcodeKID (PackOpcodeKID op k) = (op, k AND 7)) \<and>
   ParseDataV2Header (DataV2Header_AppendBinary h [] @ rest)
     = Inr (h\<lparr>dh_KeyID := dh_KeyID h AND 7, dh_PeerID := take_bit 24 (dh_PeerID h)\<rparr>, rest) \<and>
   (ch_Opcode c < 32 \<longrightarrow> ParseControlHeader (ControlHeader_AppendBinary c [] @ rest)
     = Inr (c\<lparr>ch_KeyID := ch_KeyID c AND 7\<rparr>, rest))"
  using Pack_Unpack Unpack_Pack ParseDataV2Header_AppendBinary ParseControlHeader_AppendBinary by blast

lemma headers_roundtrip_witness:
  "ParseControlHeader (ControlHeader_AppendBinary \<lparr>ch_Opcode = 7, ch_KeyID = 1, ch_SessionID = 42\<rparr> [] @ [5])
     = Inr (\<lparr>ch_Opcode = 7, ch_KeyID = 1, ch_SessionID = 42\<rparr>, [5])"
  using headers_roundtrip [where c = "\<lparr>ch_Opcode = 7, ch_KeyID = 1, ch_SessionID = 42\<rparr>" and rest = "[5]"]
  by (simp add: take_bit_eq_mod)

end
