(* ===== verification/KeyMethod2.thy ===== *)
theory KeyMethod2
  imports Proto
begin

text \<open>
  The KEY_METHOD 2 message: the in-memory codec of \<^verbatim>\<open>internal/proto/keymethod2.go\<close> and the
  streaming readers and writers of \<^verbatim>\<open>internal/control/messages.go\<close>, which take the same
  message and the NUL-terminated text messages off the TLS stream. A stream is the list of
  bytes still to come; an exhausted stream is the \<^verbatim>\<open>io.EOF\<close> of \<^verbatim>\<open>io.ReadFull\<close>.
\<close>

section \<open>The codec (keymethod2.go)\<close>

definition PreMasterLen :: nat where "PreMasterLen = 48"
definition RandomLen :: nat where "RandomLen = 32"
definition MaxUint16 :: nat where "MaxUint16 = 65535"

record KeyMethod2 =
  km_IsServer :: bool
  km_PreMaster :: bytes
  km_Random1 :: bytes
  km_Random2 :: bytes
  km_Options :: string
  km_Username :: string
  km_Password :: string
  km_AuthUserPass :: bool
  km_PeerInfo :: string

text \<open>The Go arrays \<^verbatim>\<open>[48]byte\<close> and \<^verbatim>\<open>[32]byte\<close>: their lengths are part of the type there.\<close>

definition km_arrays :: "KeyMethod2 \<Rightarrow> bool" where
  "km_arrays km \<longleftrightarrow> length (km_PreMaster km) = PreMasterLen \<and>
     length (km_Random1 km) = RandomLen \<and> length (km_Random2 km) = RandomLen"

fun first_nul :: "nat \<Rightarrow> string \<Rightarrow> nat option" where
  "first_nul i [] = None"
| "first_nul i (c # s) = (if byte_of_char c = 0 then Some i else first_nul (Suc i) s)"

definition validateString :: "string \<Rightarrow> string \<Rightarrow> (proto_error, unit) result" where
  "validateString s name =
     (if length s + 1 > MaxUint16 then Inl (StringTooLong name (length s))
      else case first_nul 0 s of Some i \<Rightarrow> Inl (ContainsNUL name i) | None \<Rightarrow> Inr ())"

definition appendEmptyString :: "bytes \<Rightarrow> bytes" where
  "appendEmptyString out = out @ [0, 0]"

definition appendLengthPrefixed :: "bytes \<Rightarrow> string \<Rightarrow> bytes" where
  "appendLengthPrefixed out s =
     (out @ put_uint16 (of_nat (length s + 1)) @ bytes_of_string s) @ [0]"

definition MarshalKeyMethod2 :: "KeyMethod2 \<Rightarrow> (proto_error, bytes) result" where
  "MarshalKeyMethod2 km =
     rbind (validateString (km_Options km) ''options'') (\<lambda>_.
     rbind (if km_AuthUserPass km
            then rbind (validateString (km_Username km) ''username'') (\<lambda>_.
                 validateString (km_Password km) ''password'')
            else Inr ()) (\<lambda>_.
     rbind (validateString (km_PeerInfo km) ''peer_info'') (\<lambda>_.
     let out = [0, 0, 0, 0] @ [2];
         out = (if km_IsServer km then out else out @ km_PreMaster km);
         out = out @ km_Random1 km;
         out = out @ km_Random2 km;
         out = appendLengthPrefixed out (km_Options km);
         out = (if km_AuthUserPass km
                then appendLengthPrefixed (appendLengthPrefixed out (km_Username km)) (km_Password km)
                else appendEmptyString (appendEmptyString out))
     in Inr (appendLengthPrefixed out (km_PeerInfo km)))))"

definition readLengthOrEmpty :: "bytes \<Rightarrow> nat \<Rightarrow> string \<Rightarrow> (proto_error, string \<times> nat) result" where
  "readLengthOrEmpty data off name =
     (if length data < off + 2 then Inl ErrShortPacket
      else let n = unat (uint16_of (subslice data off (off + 2))); off = off + 2
           in if n = 0 then Inr ('''', off)
              else if length data < off + n then Inl ErrShortPacket
              else if data ! (off + n - 1) \<noteq> 0 then Inl (MissingNUL name)
              else Inr (string_of_bytes (subslice data off (off + n - 1)), off + n))"

definition readLengthPrefixed :: "bytes \<Rightarrow> nat \<Rightarrow> string \<Rightarrow> (proto_error, string \<times> nat) result" where
  "readLengthPrefixed data off name =
     (if length data < off + 2 then Inl ErrShortPacket
      else let n = unat (uint16_of (subslice data off (off + 2))); off = off + 2
           in if n = 0 then Inl (ZeroLength name)
              else if length data < off + n then Inl ErrShortPacket
              else if data ! (off + n - 1) \<noteq> 0 then Inl (MissingNUL name)
              else Inr (string_of_bytes (subslice data off (off + n - 1)), off + n))"

text \<open>
  \<open>zero_array n\<close> is the zero value of \<^verbatim>\<open>[n]byte\<close>: a server-side message has no pre_master,
  so the field keeps it.
\<close>

definition zero_array :: "nat \<Rightarrow> bytes" where
  "zero_array n = replicate n 0"

definition ParseKeyMethod2 :: "bytes \<Rightarrow> bool \<Rightarrow> bool \<Rightarrow> (proto_error, KeyMethod2) result" where
  "ParseKeyMethod2 data isServer authUserPass =
     (if length data < 5 then Inl ErrShortPacket
      else if data ! 0 \<noteq> 0 \<or> data ! 1 \<noteq> 0 \<or> data ! 2 \<noteq> 0 \<or> data ! 3 \<noteq> 0 then Inl MissingZeroPrefix
      else if data ! 4 \<noteq> 2 then Inl (UnsupportedKeyMethod (data ! 4))
      else if \<not> isServer \<and> length data < 5 + PreMasterLen then Inl ErrShortPacket
      else
        let pre = (if isServer then zero_array PreMasterLen else subslice data 5 (5 + PreMasterLen));
            off = (if isServer then 5 else 5 + PreMasterLen)
        in if length data < off + RandomLen * 2 then Inl ErrShortPacket
           else
             let r1 = subslice data off (off + RandomLen);
                 off = off + RandomLen;
                 r2 = subslice data off (off + RandomLen);
                 off = off + RandomLen
             in rbind (readLengthPrefixed data off ''options'') (\<lambda>(opts, off).
                rbind (readLengthOrEmpty data off ''username'') (\<lambda>(user, off).
                rbind (readLengthOrEmpty data off ''password'') (\<lambda>(pass, off).
                rbind (readLengthOrEmpty data off ''peer_info'') (\<lambda>(pinfo, off).
                Inr \<lparr>km_IsServer = isServer, km_PreMaster = pre, km_Random1 = r1, km_Random2 = r2,
                     km_Options = opts, km_Username = user, km_Password = pass,
                     km_AuthUserPass = authUserPass, km_PeerInfo = pinfo\<rparr>)))))"

section \<open>Streaming (messages.go)\<close>

definition MaxControlMessageLen :: nat where "MaxControlMessageLen = 16 * 1024"

datatype control_error =
    ReadEOF
  | BadZeroPrefix
  | BadKeyMethod byte
  | LengthExceedsMax string nat
  | NoNULTerminator string
  | TextMessageTooLong

text \<open>\<^verbatim>\<open>io.ReadFull(r, buf[:n])\<close>: all \<open>n\<close> bytes or an error.\<close>

definition read_full :: "nat \<Rightarrow> bytes \<Rightarrow> (control_error, bytes \<times> bytes) result" where
  "read_full n r = (if length r < n then Inl ReadEOF else Inr (take n r, drop n r))"

definition readLengthString :: "bytes \<Rightarrow> string \<Rightarrow> (control_error, string \<times> bytes) result" where
  "readLengthString r name =
     rbind (read_full 2 r) (\<lambda>(lenBuf, r).
     let n = unat (uint16_of lenBuf)
     in if n = 0 then Inr ('''', r)
        else if n > MaxControlMessageLen then Inl (LengthExceedsMax name n)
        else rbind (read_full n r) (\<lambda>(body, r).
             if body ! (n - 1) \<noteq> 0 then Inl (NoNULTerminator name)
             else Inr (string_of_bytes (take (n - 1) body), r)))"

definition ReadKeyMethod2 :: "bytes \<Rightarrow> bool \<Rightarrow> bool \<Rightarrow> (control_error, KeyMethod2 \<times> bytes) result" where
  "ReadKeyMethod2 r serverSide authUserPass =
     rbind (read_full 5 r) (\<lambda>(prefix, r).
     if (prefix ! 0 OR prefix ! 1 OR prefix ! 2 OR prefix ! 3) \<noteq> 0 then Inl BadZeroPrefix
     else if prefix ! 4 \<noteq> 2 then Inl (BadKeyMethod (prefix ! 4))
     else rbind (if serverSide then Inr (zero_array PreMasterLen, r)
                 else read_full PreMasterLen r) (\<lambda>(pre, r).
          rbind (read_full RandomLen r) (\<lambda>(r1, r).
          rbind (read_full RandomLen r) (\<lambda>(r2, r).
          rbind (readLengthString r ''options'') (\<lambda>(opts, r).
          rbind (readLengthString r ''username'') (\<lambda>(user, r).
          rbind (readLengthString r ''password'') (\<lambda>(pass, r).
          rbind (readLengthString r ''peer_info'') (\<lambda>(pinfo, r).
          Inr (\<lparr>km_IsServer = serverSide, km_PreMaster = pre, km_Random1 = r1, km_Random2 = r2,
                km_Options = opts, km_Username = user, km_Password = pass,
                km_AuthUserPass = authUserPass, km_PeerInfo = pinfo\<rparr>, r)))))))))"

text \<open>
  \<^verbatim>\<open>ReadControlMessage\<close>: the buffered and the unbuffered branch run the same loop, one byte
  at a time, with the length test before each read.
\<close>

fun read_message_loop :: "bytes \<Rightarrow> bytes \<Rightarrow> (control_error, string \<times> bytes) result" where
  "read_message_loop buf r =
     (if length buf > MaxControlMessageLen then Inl TextMessageTooLong
      else case r of
             [] \<Rightarrow> Inl ReadEOF
           | b # r' \<Rightarrow> if b = 0 then Inr (string_of_bytes buf, r')
                      else read_message_loop (buf @ [b]) r')"

declare read_message_loop.simps [simp del]

definition ReadControlMessage :: "bytes \<Rightarrow> (control_error, string \<times> bytes) result" where
  "ReadControlMessage r = read_message_loop [] r"

text \<open>\<^verbatim>\<open>WriteControlMessage\<close> appends the text and a NUL to what was written so far.\<close>

definition WriteControlMessage :: "bytes \<Rightarrow> string \<Rightarrow> bytes" where
  "WriteControlMessage w s = (w @ bytes_of_string s) @ [0]"

section \<open>Lemmas\<close>

text \<open>\<open>lp_string s\<close> is the field \<open>s\<close> on the wire; \<open>nul_free\<close> what \<open>validateString\<close> requires.\<close>

definition lp_string :: "string \<Rightarrow> bytes" where
  "lp_string s = put_uint16 (of_nat (length s + 1)) @ bytes_of_string s @ [0]"

definition nul_free :: "string \<Rightarrow> bool" where
  "nul_free s \<longleftrightarrow> (\<forall>c\<in>set s. byte_of_char c \<noteq> 0)"

lemma first_nul_None: "first_nul i s = None \<longleftrightarrow> nul_free s"
  by (induction i s rule: first_nul.induct) (auto simp: nul_free_def)

lemma validateString_ok: "validateString s name = Inr () \<longleftrightarrow> length s \<le> 65534 \<and> nul_free s"
  using first_nul_None [of 0 s] by (auto simp: validateString_def MaxUint16_def split: option.splits)

lemma length_lp_string [simp]: "length (lp_string s) = length s + 3"
  by (simp add: lp_string_def)

lemma uint16_length [simp]: "n \<le> 65534 \<Longrightarrow> unat (1 + of_nat n :: u16) = Suc n"
  using unat_of_nat_u16 [of "Suc n"] by simp

lemma lp_string_head: "length s \<le> 65534 \<Longrightarrow> unat (uint16_of (take 2 (lp_string s @ rest))) = Suc (length s)"
  by (simp add: lp_string_def)

lemma lp_string_tail: "drop 2 (lp_string s @ rest) = bytes_of_string s @ [0] @ rest"
  by (simp add: lp_string_def)

lemma readLengthPrefixed_lp [wire]:
  assumes "length s \<le> 65534" and "off = length pre"
  shows "readLengthPrefixed (pre @ lp_string s @ rest) off name = Inr (s, off + length s + 3)"
proof -
  have h: "subslice (pre @ lp_string s @ rest) off (off + 2) = take 2 (lp_string s @ rest)"
    using assms(2) by (simp add: subslice_def)
  have nul: "(pre @ lp_string s @ rest) ! (off + 2 + Suc (length s) - 1) = 0"
    using assms(2) by (simp add: nth_append lp_string_def)
  have body: "subslice (pre @ lp_string s @ rest) (off + 2) (off + 2 + Suc (length s) - 1) = bytes_of_string s"
    using assms(2) by (simp add: subslice_def lp_string_def)
  show ?thesis
    unfolding readLengthPrefixed_def h lp_string_head [OF assms(1)] Let_def
    using nul body assms(2) by simp
qed

lemma readLengthOrEmpty_nonempty:
  "unat (uint16_of (subslice data off (off + 2))) \<noteq> 0 \<Longrightarrow>
     readLengthOrEmpty data off name = readLengthPrefixed data off name"
  by (simp add: readLengthOrEmpty_def readLengthPrefixed_def Let_def)

lemma readLengthOrEmpty_lp [wire]:
  assumes "length s \<le> 65534" and "off = length pre"
  shows "readLengthOrEmpty (pre @ lp_string s @ rest) off name = Inr (s, off + length s + 3)"
proof -
  have "subslice (pre @ lp_string s @ rest) off (off + 2) = take 2 (lp_string s @ rest)"
    using assms(2) by (simp add: subslice_def)
  then have "unat (uint16_of (subslice (pre @ lp_string s @ rest) off (off + 2))) \<noteq> 0"
    by (simp only: lp_string_head [OF assms(1)])
  from readLengthOrEmpty_nonempty [OF this] show ?thesis
    by (simp only: readLengthPrefixed_lp [OF assms])
qed

lemma readLengthOrEmpty_empty [wire]:
  "off = length pre \<Longrightarrow> readLengthOrEmpty (pre @ [0, 0] @ rest) off name = Inr ('''', off + 2)"
  by (simp add: readLengthOrEmpty_def subslice_def)

text \<open>The credential fields: real strings under auth-user-pass, empty placeholders otherwise.\<close>

definition credential :: "bool \<Rightarrow> string \<Rightarrow> bytes" where
  "credential auth s = (if auth then lp_string s else [0, 0])"

lemma readLengthOrEmpty_credential [wire]:
  "(auth \<Longrightarrow> length s \<le> 65534) \<Longrightarrow> off = length pre \<Longrightarrow>
     readLengthOrEmpty (pre @ credential auth s @ rest) off name
       = Inr (if auth then s else '''', off + length (credential auth s))"
  using readLengthOrEmpty_lp [of s off pre rest name] readLengthOrEmpty_empty [of off pre rest name]
  by (cases auth) (simp_all add: credential_def)

definition km_valid :: "KeyMethod2 \<Rightarrow> bool" where
  "km_valid km \<longleftrightarrow> length (km_Options km) \<le> 65534 \<and> nul_free (km_Options km) \<and>
     (km_AuthUserPass km \<longrightarrow> length (km_Username km) \<le> 65534 \<and> nul_free (km_Username km) \<and>
        length (km_Password km) \<le> 65534 \<and> nul_free (km_Password km)) \<and>
     length (km_PeerInfo km) \<le> 65534 \<and> nul_free (km_PeerInfo km)"

definition km_head :: "KeyMethod2 \<Rightarrow> bytes" where
  "km_head km = [0, 0, 0, 0, 2] @ (if km_IsServer km then [] else km_PreMaster km)
     @ km_Random1 km @ km_Random2 km"

definition km_wire :: "KeyMethod2 \<Rightarrow> bytes" where
  "km_wire km = km_head km @ lp_string (km_Options km)
     @ credential (km_AuthUserPass km) (km_Username km)
     @ credential (km_AuthUserPass km) (km_Password km) @ lp_string (km_PeerInfo km)"

lemma validateString_unit: "validateString s name = Inr u \<longleftrightarrow> length s \<le> 65534 \<and> nul_free s"
  using validateString_ok by (cases u) auto

lemma MarshalKeyMethod2_eq:
  "MarshalKeyMethod2 km = Inr data \<longleftrightarrow> km_valid km \<and> data = km_wire km"
  by (auto simp: MarshalKeyMethod2_def rbind_eq_Inr validateString_unit km_valid_def km_wire_def
      km_head_def credential_def lp_string_def appendLengthPrefixed_def appendEmptyString_def)

text \<open>What a parser makes of a message: the zero values of the fields that are not on the wire.\<close>

definition km_received :: "KeyMethod2 \<Rightarrow> KeyMethod2" where
  "km_received km = km\<lparr>
     km_PreMaster := (if km_IsServer km then zero_array PreMasterLen else km_PreMaster km),
     km_Username := (if km_AuthUserPass km then km_Username km else ''''),
     km_Password := (if km_AuthUserPass km then km_Password km else '''')\<rparr>"

lemma length_km_head:
  "km_arrays km \<Longrightarrow> length (km_head km) = (if km_IsServer km then 69 else 117)"
  by (simp add: km_head_def km_arrays_def PreMasterLen_def RandomLen_def)

lemma km_strings_parse:
  assumes "km_valid km" and "off = length pre"
  shows "readLengthPrefixed (pre @ lp_string (km_Options km)
      @ credential (km_AuthUserPass km) (km_Username km)
      @ credential (km_AuthUserPass km) (km_Password km) @ lp_string (km_PeerInfo km)) off n
    = Inr (km_Options km, off + length (lp_string (km_Options km)))"
    and "readLengthOrEmpty ((pre @ lp_string (km_Options km))
      @ credential (km_AuthUserPass km) (km_Username km)
      @ credential (km_AuthUserPass km) (km_Password km) @ lp_string (km_PeerInfo km))
        (off + length (lp_string (km_Options km))) n
    = Inr (km_Username (km_received km), length (pre @ lp_string (km_Options km)
        @ credential (km_AuthUserPass km) (km_Username km)))"
    and "readLengthOrEmpty ((pre @ lp_string (km_Options km)
      @ credential (km_AuthUserPass km) (km_Username km))
      @ credential (km_AuthUserPass km) (km_Password km) @ lp_string (km_PeerInfo km))
        (length (pre @ lp_string (km_Options km)
        @ credential (km_AuthUserPass km) (km_Username km))) n
    = Inr (km_Password (km_received km), length (pre @ lp_string (km_Options km)
        @ credential (km_AuthUserPass km) (km_Username km) @ credential (km_AuthUserPass km) (km_Password km)))"
    and "\<exists>off'. readLengthOrEmpty ((pre @ lp_string (km_Options km)
      @ credential (km_AuthUserPass km) (km_Username km)
      @ credential (km_AuthUserPass km) (km_Password km)) @ lp_string (km_PeerInfo km) @ [])
        (length (pre @ lp_string (km_Options km)
        @ credential (km_AuthUserPass km) (km_Username km) @ credential (km_AuthUserPass km) (km_Password km))) n
    = Inr (km_PeerInfo km, off')"
  using assms
  by (subst readLengthPrefixed_lp readLengthOrEmpty_credential readLengthOrEmpty_lp;
      simp add: km_valid_def km_received_def; fail)+

lemma ParseKeyMethod2_wire:
  assumes "km_arrays km" and "km_valid km"
  shows "ParseKeyMethod2 (km_wire km) (km_IsServer km) (km_AuthUserPass km) = Inr (km_received km)"
proof -
  note strings = km_strings_parse [OF assms(2) refl, of "km_head km", unfolded append_assoc append_Nil2,
    folded km_wire_def [unfolded append_assoc]]
  let ?o = "if km_IsServer km then 5 else 5 + PreMasterLen"
  have off: "?o + RandomLen + RandomLen = length (km_head km)"
    using assms(1) by (simp add: length_km_head PreMasterLen_def RandomLen_def)
  have len: "length (km_head km) \<le> length (km_wire km)" by (simp add: km_wire_def)
  have prefix: "km_wire km ! 0 = 0" "km_wire km ! 1 = 0" "km_wire km ! 2 = 0" "km_wire km ! 3 = 0" "km_wire km ! 4 = 2"
    by (simp_all add: km_wire_def km_head_def)
  have pre: "(if km_IsServer km then zero_array PreMasterLen else subslice (km_wire km) 5 (5 + PreMasterLen))
      = km_PreMaster (km_received km)"
    using assms(1) by (simp add: km_wire_def km_head_def km_arrays_def subslice_def km_received_def)
  have r1: "subslice (km_wire km) ?o (?o + RandomLen) = km_Random1 km"
    and r2: "subslice (km_wire km) (?o + RandomLen) (length (km_head km)) = km_Random2 km"
    using assms(1) unfolding off [symmetric]
    by (auto simp: km_wire_def km_head_def km_arrays_def subslice_def drop_Cons')
  have short: "\<not> length (km_wire km) < 5" "\<not> (\<not> km_IsServer km \<and> length (km_wire km) < 5 + PreMasterLen)"
    "\<not> length (km_wire km) < ?o + RandomLen * 2"
    using len off [symmetric] by (auto split: if_splits)
  obtain off' where pinfo: "readLengthOrEmpty (km_wire km) (length (km_head km @ lp_string (km_Options km)
        @ credential (km_AuthUserPass km) (km_Username km) @ credential (km_AuthUserPass km) (km_Password km))) ''peer_info''
      = Inr (km_PeerInfo km, off')"
    using strings(4) by blast
  show ?thesis
    unfolding ParseKeyMethod2_def Let_def prefix pre
    using short strings(1-3) pinfo r1 r2
    by (simp only: off rbind_simps prod.case simp_thms if_False) (simp add: km_received_def)
qed

lemma read_full_append [wire]: "n = length xs \<Longrightarrow> read_full n (xs @ ys) = Inr (xs, ys)"
  by (simp add: read_full_def)

lemma readLengthString_lp [wire]:
  assumes "length s < MaxControlMessageLen"
  shows "readLengthString (lp_string s @ rest) name = Inr (s, rest)"
proof -
  have l: "length s \<le> 65534" using assms by (simp add: MaxControlMessageLen_def)
  have "read_full 2 (lp_string s @ rest) = Inr (put_uint16 (of_nat (length s + 1)), bytes_of_string s @ [0] @ rest)"
    by (simp add: read_full_def lp_string_def)
  moreover have "read_full (Suc (length s)) (bytes_of_string s @ [0] @ rest) = Inr (bytes_of_string s @ [0], rest)"
    by (simp add: read_full_def)
  ultimately show ?thesis
    using l assms by (simp add: readLengthString_def nth_append)
qed

lemma readLengthString_credential [wire]:
  "(auth \<Longrightarrow> length s < MaxControlMessageLen) \<Longrightarrow>
     readLengthString (credential auth s @ rest) name = Inr (if auth then s else '''', rest)"
  using readLengthString_lp [of s rest name]
  by (cases auth) (auto simp: credential_def readLengthString_def read_full_def)

text \<open>The streaming reader caps each string at 16 KiB, its NUL included.\<close>

definition km_streamable :: "KeyMethod2 \<Rightarrow> bool" where
  "km_streamable km \<longleftrightarrow> length (km_Options km) < MaxControlMessageLen \<and>
     (km_AuthUserPass km \<longrightarrow> length (km_Username km) < MaxControlMessageLen \<and>
        length (km_Password km) < MaxControlMessageLen) \<and>
     length (km_PeerInfo km) < MaxControlMessageLen"

lemma ReadKeyMethod2_wire:
  assumes "km_arrays km" and "km_streamable km"
  shows "ReadKeyMethod2 (km_wire km @ rest) (km_IsServer km) (km_AuthUserPass km) = Inr (km_received km, rest)"
proof -
  have strings: "readLengthString (lp_string (km_Options km) @ ys) n = Inr (km_Options km, ys)"
    "readLengthString (lp_string (km_PeerInfo km) @ ys) n = Inr (km_PeerInfo km, ys)"
    "readLengthString (credential (km_AuthUserPass km) (km_Username km) @ ys) n = Inr (km_Username (km_received km), ys)"
    "readLengthString (credential (km_AuthUserPass km) (km_Password km) @ ys) n = Inr (km_Password (km_received km), ys)"
    for ys n
    using assms(2) by (simp_all add: km_streamable_def km_received_def wire)
  have prefix: "read_full 5 ([0, 0, 0, 0, 2] @ ys) = Inr ([0, 0, 0, 0, 2], ys)" for ys
    by (rule read_full_append) simp
  have arrays: "read_full RandomLen (km_Random1 km @ ys) = Inr (km_Random1 km, ys)"
    "read_full RandomLen (km_Random2 km @ ys) = Inr (km_Random2 km, ys)"
    "(if km_IsServer km then Inr (zero_array PreMasterLen, (if km_IsServer km then [] else km_PreMaster km) @ ys)
      else read_full PreMasterLen ((if km_IsServer km then [] else km_PreMaster km) @ ys))
     = Inr (km_PreMaster (km_received km), ys)" for ys
    using assms(1) by (simp_all add: km_arrays_def km_received_def wire)
  show ?thesis
    unfolding ReadKeyMethod2_def km_wire_def km_head_def append_assoc
    by (simp only: prefix rbind_simps prod.case arrays strings) (simp add: km_received_def)
qed

lemma read_message_loop_nul:
  "length buf + length s \<le> MaxControlMessageLen \<Longrightarrow> nul_free s \<Longrightarrow>
     read_message_loop buf (bytes_of_string s @ 0 # rest) = Inr (string_of_bytes buf @ s, rest)"
proof (induction s arbitrary: buf)
  case Nil
  then show ?case by (simp add: read_message_loop.simps)
next
  case (Cons c s)
  then have "read_message_loop (buf @ [byte_of_char c]) (bytes_of_string s @ 0 # rest)
      = Inr (string_of_bytes (buf @ [byte_of_char c]) @ s, rest)"
    by (intro Cons.IH) (auto simp: nul_free_def)
  with Cons.prems show ?case by (simp add: read_message_loop.simps [of buf] nul_free_def)
qed

lemma read_message_loop_bound:
  "read_message_loop buf r = Inr (s, r') \<Longrightarrow>
     length s \<le> MaxControlMessageLen \<and> (\<exists>m. s = string_of_bytes (buf @ m) \<and> r = m @ 0 # r' \<and> 0 \<notin> set m)"
proof (induction buf r rule: read_message_loop.induct)
  case (1 buf r)
  from "1.prems" have len: "\<not> length buf > MaxControlMessageLen"
    by (auto simp: read_message_loop.simps [of buf] split: if_splits)
  with "1.prems" obtain b r'' where r: "r = b # r''"
    by (cases r) (auto simp: read_message_loop.simps [of buf])
  show ?case
  proof (cases "b = 0")
    case True
    with "1.prems" len r show ?thesis by (auto simp: read_message_loop.simps [of buf])
  next
    case False
    with "1.prems" len r have "read_message_loop (buf @ [b]) r'' = Inr (s, r')"
      by (simp add: read_message_loop.simps [of buf])
    with "1.IH" [OF len r False] obtain m where "length s \<le> MaxControlMessageLen"
      "s = string_of_bytes ((buf @ [b]) @ m)" "r'' = m @ 0 # r'" "0 \<notin> set m"
      by blast
    with r False show ?thesis by (intro conjI exI [of _ "b # m"]) auto
  qed
qed

lemma read_message_loop_too_long:
  "length buf + length m = MaxControlMessageLen + 1 \<Longrightarrow> 0 \<notin> set m \<Longrightarrow>
     read_message_loop buf (m @ rest) = Inl TextMessageTooLong"
  by (induction m arbitrary: buf) (auto simp: read_message_loop.simps)

section \<open>Properties\<close>

text \<open>
  Key exchange round trip: every KEY_METHOD 2 message that marshals is read back, both by the
  buffer parser and (when its strings fit the 16 KiB limit of the stream reader) by the
  streaming reader, which leaves exactly the bytes that follow. The fields that are not on the
  wire (the pre-master secret of a server, credentials without user/password
  authentication) come back as zero values, all others unchanged.
\<close>

lemma KeyMethod2_roundtrip:
  assumes "MarshalKeyMethod2 km = Inr data" and "km_arrays km"
  shows "ParseKeyMethod2 data (km_IsServer km) (km_AuthUserPass km) = Inr (km_received km) \<and>
    (km_streamable km \<longrightarrow>
      ReadKeyMethod2 (data @ rest) (km_IsServer km) (km_AuthUserPass km) = Inr (km_received km, rest))"
  using assms ParseKeyMethod2_wire ReadKeyMethod2_wire by (auto simp: MarshalKeyMethod2_eq)

definition demo_km :: KeyMethod2 where
  "demo_km = \<lparr>km_IsServer = True, km_PreMaster = zero_array PreMasterLen, km_Random1 = replicate 32 1,
     km_Random2 = replicate 32 2, km_Options = ''V4'', km_Username = '''', km_Password = '''',
     km_AuthUserPass = False, km_PeerInfo = ''IV''\<rparr>"

lemma demo_km_marshals: "MarshalKeyMethod2 demo_km = Inr (km_wire demo_km)" and demo_km_arrays: "km_arrays demo_km"
  and demo_km_streamable: "km_streamable demo_km" and demo_km_received: "km_received demo_km = demo_km"
  unfolding demo_km_def MarshalKeyMethod2_eq km_valid_def km_arrays_def km_streamable_def km_received_def
  by (simp_all add: zero_array_def PreMasterLen_def RandomLen_def MaxControlMessageLen_def nul_free_def) code_simp+

lemma KeyMethod2_roundtrip_witness:
  "ReadKeyMethod2 (km_wire demo_km @ [9, 9]) True False = Inr (demo_km, [9, 9])"
  using KeyMethod2_roundtrip [OF demo_km_marshals demo_km_arrays, of "[9, 9]"] demo_km_streamable
  unfolding demo_km_received by (simp add: demo_km_def)

text \<open>
  Control messages are framed by their NUL: what \<open>WriteControlMessage\<close> writes is read back as
  the same text with the rest of the stream untouched, so a sequence of messages is read one by
  one. Conversely every text that is read is at most 16 KiB long and is exactly the bytes up to
  the first NUL, and a longer text is refused.
\<close>

lemma ControlMessage_framing:
  "(nul_free s \<and> length s \<le> MaxControlMessageLen \<longrightarrow>
      ReadControlMessage (WriteControlMessage [] s @ rest) = Inr (s, rest)) \<and>
   (ReadControlMessage r = Inr (t, r') \<longrightarrow>
      length t \<le> MaxControlMessageLen \<and> 0 \<notin> set (bytes_of_string t) \<and> r = WriteControlMessage [] t @ r') \<and>
   (length m = MaxControlMessageLen + 1 \<and> 0 \<notin> set m \<longrightarrow>
      ReadControlMessage (m @ rest) = Inl TextMessageTooLong)"
proof (intro conjI impI)
  show "ReadControlMessage (WriteControlMessage [] s @ rest) = Inr (s, rest)"
    if "nul_free s \<and> length s \<le> MaxControlMessageLen"
    using that read_message_loop_nul [of "[]" s rest] by (simp add: ReadControlMessage_def WriteControlMessage_def)
next
  assume "ReadControlMessage r = Inr (t, r')"
  then obtain m where m: "length t \<le> MaxControlMessageLen" "t = string_of_bytes m" "r = m @ 0 # r'" "0 \<notin> set m"
    using read_message_loop_bound [of "[]" r t r'] by (auto simp: ReadControlMessage_def)
  have "bytes_of_string t = m" unfolding m(2) by (rule bytes_of_string_of_bytes)
  with m show "length t \<le> MaxControlMessageLen" "0 \<notin> set (bytes_of_string t)"
    "r = WriteControlMessage [] t @ r'"
    by (simp_all only: WriteControlMessage_def append_assoc append_Nil append_Cons not_False_eq_True)
next
  show "ReadControlMessage (m @ rest) = Inl TextMessageTooLong"
    if "length m = MaxControlMessageLen + 1 \<and> 0 \<notin> set m"
    using that read_message_loop_too_long [of "[]" m rest] by (simp add: ReadControlMessage_def)
qed

lemma ControlMessage_framing_witness:
  "ReadControlMessage (WriteControlMessage [] ''PUSH_REQUEST'' @ [7]) = Inr (''PUSH_REQUEST'', [7])"
proof -
  have "nul_free ''PUSH_REQUEST''" by code_simp
  then show ?thesis
    using ControlMessage_framing [of "''PUSH_REQUEST''" "[7]"] by (simp add: MaxControlMessageLen_def)
qed

end
