(* ===== verification/Replay.thy ===== *)
theory Replay
  imports Prelude
begin

text \<open>
  Replay protection. The first part is the contract every replay filter of the program
  promises (the data channel's \<^verbatim>\<open>ReplayWindow\<close> and the control channel's two \<^verbatim>\<open>pidWindow\<close>
  types): a sliding window over packet-ids, as a locale, and the abstract filter that
  remembers every packet-id it ever accepted. What a client of the window relies on (no
  packet-id is accepted twice, in any order of arrival) is proved once, in the locale. The
  second part is \<^verbatim>\<open>internal/data/replay.go\<close>: the multi-word bitmap with its in-place shift,
  and the interpretation of the contract on it.
\<close>

section \<open>The abstract filter\<close>

text \<open>
  The history filter keeps the highest packet-id and the set of all packet-ids accepted so
  far. It takes a packet-id that is above the highest, or less than \<open>n\<close> below it and new.
\<close>

definition spec_fresh :: "nat \<Rightarrow> u32 \<Rightarrow> u32 set \<Rightarrow> u32 \<Rightarrow> bool" where
  "spec_fresh n h S p \<longleftrightarrow> p \<noteq> 0 \<and> (h < p \<or> unat h - unat p < n \<and> p \<notin> S)"

fun spec_run :: "nat \<Rightarrow> u32 \<Rightarrow> u32 set \<Rightarrow> u32 list \<Rightarrow> bool list" where
  "spec_run n h S [] = []"
| "spec_run n h S (p # ps) =
     (if spec_fresh n h S p then True # spec_run n (max h p) (insert p S) ps
      else False # spec_run n h S ps)"

text \<open>Running a concrete filter over a sequence of packet-ids: the answers it gives.\<close>

fun filter_run :: "('w \<Rightarrow> u32 \<Rightarrow> bool \<times> 'w) \<Rightarrow> 'w \<Rightarrow> u32 list \<Rightarrow> bool list" where
  "filter_run acc w [] = []"
| "filter_run acc w (p # ps) = (case acc w p of (b, w') \<Rightarrow> b # filter_run acc w' ps)"

text \<open>The packet-ids of a sequence that were accepted, in order.\<close>

definition accepted :: "u32 list \<Rightarrow> bool list \<Rightarrow> u32 list" where
  "accepted ps bs = map fst (filter snd (zip ps bs))"

lemma accepted_simps [simp]:
  "accepted [] bs = []"
  "accepted (p # ps) (b # bs) = (if b then p # accepted ps bs else accepted ps bs)"
  by (simp_all add: accepted_def)

lemma spec_run_distinct:
  "\<forall>q\<in>S. q \<le> h \<Longrightarrow>
     distinct (accepted ps (spec_run n h S ps)) \<and> set (accepted ps (spec_run n h S ps)) \<inter> S = {}"
proof (induction n h S ps rule: spec_run.induct)
  case (1 n h S)
  then show ?case by simp
next
  case (2 n h S p ps)
  show ?case
  proof (cases "spec_fresh n h S p")
    case True
    then have "p \<notin> S" using "2.prems" by (auto simp: spec_fresh_def)
    moreover have "\<forall>q\<in>insert p S. q \<le> max h p"
      using "2.prems" by (auto simp: le_max_iff_disj)
    ultimately show ?thesis using "2.IH"(1) [OF True] True by auto
  next
    case False
    then show ?thesis using "2" by simp
  qed
qed

section \<open>The contract of a sliding window\<close>

locale replay_filter =
  fixes inv :: "'w \<Rightarrow> bool"
    and wsize :: "'w \<Rightarrow> nat"
    and high :: "'w \<Rightarrow> u32"
    and marked :: "'w \<Rightarrow> nat \<Rightarrow> bool"
    and acc :: "'w \<Rightarrow> u32 \<Rightarrow> bool \<times> 'w"
    and test :: "'w \<Rightarrow> u32 \<Rightarrow> bool"
  assumes test_iff: "inv w \<Longrightarrow> test w p \<longleftrightarrow>
      p \<noteq> 0 \<and> (high w < p \<or> unat (high w) - unat p < wsize w \<and> \<not> marked w (unat (high w) - unat p))"
    and acc_fst: "inv w \<Longrightarrow> fst (acc w p) = test w p"
    and acc_reject: "inv w \<Longrightarrow> \<not> test w p \<Longrightarrow> snd (acc w p) = w"
    and acc_inv: "inv w \<Longrightarrow> inv (snd (acc w p))"
    and acc_size: "inv w \<Longrightarrow> wsize (snd (acc w p)) = wsize w"
    and acc_high: "inv w \<Longrightarrow> test w p \<Longrightarrow> high (snd (acc w p)) = max (high w) p"
    and acc_marked: "inv w \<Longrightarrow> test w p \<Longrightarrow> k < wsize w \<Longrightarrow>
      marked (snd (acc w p)) k \<longleftrightarrow>
        (if high w < p then k = 0 \<or> unat p - unat (high w) \<le> k \<and> marked w (k - (unat p - unat (high w)))
         else marked w k \<or> k = unat (high w) - unat p)"
begin

text \<open>A window represents a history when the two agree on every packet-id inside the window.\<close>

definition represents :: "'w \<Rightarrow> u32 set \<Rightarrow> bool" where
  "represents w S \<longleftrightarrow> inv w \<and> (\<forall>q\<in>S. q \<le> high w \<and> q \<noteq> 0) \<and>
     (\<forall>q. q \<noteq> 0 \<and> q \<le> high w \<and> unat (high w) - unat q < wsize w \<longrightarrow>
        (marked w (unat (high w) - unat q) \<longleftrightarrow> q \<in> S))"

lemma represents_test:
  assumes "represents w S"
  shows "test w p \<longleftrightarrow> spec_fresh (wsize w) (high w) S p"
proof -
  have "inv w" using assms by (simp add: represents_def)
  then show ?thesis
    using assms by (auto simp: test_iff spec_fresh_def represents_def not_less)
qed

lemma represents_acc_above:
  assumes r: "represents w S" and t: "test w p" and p: "high w < p"
  shows "represents (snd (acc w p)) (insert p S)"
proof -
  have inv: "inv w" using r by (simp add: represents_def)
  have high: "high (snd (acc w p)) = p" using acc_high [OF inv t] p by (simp add: max.absorb2 less_imp_le)
  have p0: "p \<noteq> 0" using t inv by (simp add: test_iff)
  have "marked (snd (acc w p)) (unat p - unat q) \<longleftrightarrow> q \<in> insert p S"
    if q: "q \<noteq> 0" "q \<le> p" "unat p - unat q < wsize w" for q
  proof -
    have qp: "unat q \<le> unat p" and hp: "unat (high w) < unat p"
      using q(2) p by (simp_all add: word_le_nat_alt word_less_nat_alt)
    have eq: "unat p - unat q = 0 \<longleftrightarrow> q = p"
      using qp by (auto simp: word_unat_eq_iff)
    show ?thesis
    proof (cases "q \<le> high w")
      case True
      then have qh: "unat q \<le> unat (high w)" by (simp add: word_le_nat_alt)
      then have "unat p - unat q - (unat p - unat (high w)) = unat (high w) - unat q"
        and "unat p - unat (high w) \<le> unat p - unat q" and "unat (high w) - unat q < wsize w"
        using hp q(3) by linarith+
      moreover have "q \<noteq> p" using True p by auto
      ultimately show ?thesis
        using acc_marked [OF inv t q(3)] p eq r q(1) True by (auto simp: represents_def)
    next
      case False
      then have "unat (high w) < unat q" by (simp add: word_le_nat_alt)
      moreover have "q \<notin> S" using r False by (auto simp: represents_def)
      ultimately show ?thesis
        using acc_marked [OF inv t q(3)] p eq hp by auto
    qed
  qed
  moreover have "\<forall>q\<in>insert p S. q \<le> p \<and> q \<noteq> 0"
    using r p p0 by (auto simp: represents_def)
  ultimately show ?thesis
    by (simp add: represents_def high acc_inv [OF inv] acc_size [OF inv])
qed

lemma represents_acc_inside:
  assumes r: "represents w S" and t: "test w p" and p: "\<not> high w < p"
  shows "represents (snd (acc w p)) (insert p S)"
proof -
  have inv: "inv w" using r by (simp add: represents_def)
  have high: "high (snd (acc w p)) = high w" using acc_high [OF inv t] p by (simp add: max.absorb1 not_less)
  have p0: "p \<noteq> 0" using t inv by (simp add: test_iff)
  have "marked (snd (acc w p)) (unat (high w) - unat q) \<longleftrightarrow> q \<in> insert p S"
    if q: "q \<noteq> 0" "q \<le> high w" "unat (high w) - unat q < wsize w" for q
  proof -
    have "unat q \<le> unat (high w)" "unat p \<le> unat (high w)"
      using q(2) p by (simp_all add: word_le_nat_alt not_less)
    then have "unat (high w) - unat q = unat (high w) - unat p \<longleftrightarrow> q = p"
      by (auto simp: word_unat_eq_iff)
    then show ?thesis
      using acc_marked [OF inv t q(3)] p r q by (auto simp: represents_def)
  qed
  then show ?thesis
    using r p p0 by (simp add: represents_def high acc_inv [OF inv] acc_size [OF inv] not_less)
qed

lemma represents_acc: "represents w S \<Longrightarrow> test w p \<Longrightarrow> represents (snd (acc w p)) (insert p S)"
  by (cases "high w < p") (simp_all add: represents_acc_above represents_acc_inside)

text \<open>The window answers every sequence of packet-ids as the abstract filter does.\<close>

lemma run_refines: "represents w S \<Longrightarrow> filter_run acc w ps = spec_run (wsize w) (high w) S ps"
proof (induction ps arbitrary: w S)
  case Nil
  then show ?case by simp
next
  case (Cons p ps)
  have inv: "inv w" using Cons.prems by (simp add: represents_def)
  obtain b w' where a: "acc w p = (b, w')" by (cases "acc w p")
  show ?case
  proof (cases "test w p")
    case True
    then have "represents w' (insert p S)" "wsize w' = wsize w" "high w' = max (high w) p" "b"
      using represents_acc [OF Cons.prems True] acc_size [OF inv, of p] acc_high [OF inv True]
        acc_fst [OF inv, of p] a by simp_all
    then show ?thesis
      using Cons.IH [of w' "insert p S"] True represents_test [OF Cons.prems] by (simp add: a)
  next
    case False
    then have "w' = w" "\<not> b"
      using acc_reject [OF inv False] acc_fst [OF inv, of p] a by simp_all
    then show ?thesis
      using Cons.IH [OF Cons.prems] False represents_test [OF Cons.prems] by (simp add: a)
  qed
qed

lemma no_replay: "represents w S \<Longrightarrow>
    distinct (accepted ps (filter_run acc w ps)) \<and> set (accepted ps (filter_run acc w ps)) \<inter> S = {}"
  unfolding run_refines by (rule spec_run_distinct) (simp add: represents_def)

text \<open>Once accepted, a packet-id is never fresh again, whatever arrives in between.\<close>

lemma accepted_not_fresh: "represents w S \<Longrightarrow> p \<in> S \<Longrightarrow> \<not> test w p"
  using represents_test [of w S p] by (auto simp: spec_fresh_def represents_def)

lemma represents_accept_any:
  "represents w S \<Longrightarrow> represents (snd (acc w p)) (if test w p then insert p S else S)"
  using represents_acc [of w S p] acc_reject [of w p] by (auto simp: represents_def)

end

section \<open>The data channel's window (replay.go)\<close>

definition DefaultReplayWindow :: u64 where "DefaultReplayWindow = 1024"

record ReplayWindow =
  rw_highest :: u32
  rw_bitmap :: "u64 list"
  rw_size :: u64

definition NewReplayWindow :: "u64 \<Rightarrow> ReplayWindow" where
  "NewReplayWindow sz =
     (let sz = (if sz = 0 then DefaultReplayWindow else sz);
          nWords = (sz + 63) div 64
      in \<lparr>rw_highest = 0, rw_bitmap = replicate (unat nWords) 0, rw_size = sz\<rparr>)"

text \<open>
  The in-place loop of \<^verbatim>\<open>shiftLeftLocked\<close>, from the highest index down. The argument
  \<open>Suc i\<close> stands for the loop variable \<open>i\<close>; \<^verbatim>\<open>src >= 0\<close> is \<open>ws \<le> i\<close> and \<^verbatim>\<open>src-1 >= 0\<close> is
  \<open>ws + 1 \<le> i\<close>.
\<close>

fun shift_loop :: "nat \<Rightarrow> nat \<Rightarrow> nat \<Rightarrow> u64 list \<Rightarrow> u64 list" where
  "shift_loop 0 wordShift bitShift bm = bm"
| "shift_loop (Suc i) wordShift bitShift bm =
     (let v = (if wordShift \<le> i then push_bit bitShift (bm ! (i - wordShift)) else 0);
          v = (if bitShift > 0 \<and> wordShift + 1 \<le> i
               then v OR drop_bit (64 - bitShift) (bm ! (i - wordShift - 1)) else v)
      in shift_loop i wordShift bitShift (bm[i := v]))"

definition shiftLeftLocked :: "ReplayWindow \<Rightarrow> u64 \<Rightarrow> ReplayWindow" where
  "shiftLeftLocked w shift =
     (if shift \<ge> rw_size w then w\<lparr>rw_bitmap := map (\<lambda>_. 0) (rw_bitmap w)\<rparr>
      else w\<lparr>rw_bitmap := shift_loop (length (rw_bitmap w)) (unat (shift div 64)) (unat (shift mod 64))
                           (rw_bitmap w)\<rparr>)"

definition Accept :: "ReplayWindow \<Rightarrow> u32 \<Rightarrow> bool \<times> ReplayWindow" where
  "Accept w pid =
     (if pid = 0 then (False, w)
      else if pid > rw_highest w then
        let w = shiftLeftLocked w (ucast (pid - rw_highest w));
            w = w\<lparr>rw_bitmap := (rw_bitmap w)[0 := rw_bitmap w ! 0 OR 1]\<rparr>
        in (True, w\<lparr>rw_highest := pid\<rparr>)
      else if rw_highest w - pid \<ge> ucast (rw_size w) then (False, w)
      else
        let offset = unat (rw_highest w - pid);
            mask = push_bit (offset mod 64) 1;
            idx = offset div 64
        in if (rw_bitmap w ! idx) AND mask \<noteq> 0 then (False, w)
           else (True, w\<lparr>rw_bitmap := (rw_bitmap w)[idx := rw_bitmap w ! idx OR mask]\<rparr>))"

definition Test :: "ReplayWindow \<Rightarrow> u32 \<Rightarrow> bool" where
  "Test w pid =
     (if pid = 0 then False
      else if pid > rw_highest w then True
      else if rw_highest w - pid \<ge> ucast (rw_size w) then False
      else let offset = unat (rw_highest w - pid)
           in (rw_bitmap w ! (offset div 64)) AND push_bit (offset mod 64) 1 = 0)"

definition Highest :: "ReplayWindow \<Rightarrow> u32" where
  "Highest w = rw_highest w"

subsection \<open>The bitmap as a sequence of bits\<close>

text \<open>Bit \<open>k\<close> of the whole bitmap: offset \<open>k\<close> below the highest packet-id.\<close>

definition bm_bit :: "u64 list \<Rightarrow> nat \<Rightarrow> bool" where
  "bm_bit bm k = bit (bm ! (k div 64)) (k mod 64)"

text \<open>The word the loop writes at index \<open>j\<close>, computed from the bitmap before the shift.\<close>

definition shifted_word :: "nat \<Rightarrow> nat \<Rightarrow> u64 list \<Rightarrow> nat \<Rightarrow> u64" where
  "shifted_word ws bs bm j =
     (if ws \<le> j then push_bit bs (bm ! (j - ws)) else 0) OR
     (if bs > 0 \<and> ws + 1 \<le> j then drop_bit (64 - bs) (bm ! (j - ws - 1)) else 0)"

lemma length_shift_loop [simp]: "length (shift_loop n ws bs bm) = length bm"
  by (induction n ws bs bm rule: shift_loop.induct) (simp_all add: Let_def)

text \<open>
  Updating from the top down reads every source word before it is overwritten: the in-place
  loop computes the same words as a shift into a fresh bitmap.
\<close>

lemma shift_loop_nth:
  "n \<le> length bm \<Longrightarrow> j < length bm \<Longrightarrow>
     shift_loop n ws bs bm ! j = (if j < n then shifted_word ws bs bm j else bm ! j)"
proof (induction n arbitrary: bm)
  case 0
  then show ?case by simp
next
  case (Suc i)
  define v where "v = shifted_word ws bs bm i"
  have step: "shift_loop (Suc i) ws bs bm = shift_loop i ws bs (bm[i := v])"
    by (simp add: Let_def shifted_word_def v_def)
  have same: "shifted_word ws bs (bm[i := v]) j = shifted_word ws bs bm j" if "j < i"
    using that by (auto simp: shifted_word_def nth_list_update)
  have "shift_loop i ws bs (bm[i := v]) ! j
      = (if j < i then shifted_word ws bs (bm[i := v]) j else bm[i := v] ! j)"
    using Suc.prems by (intro Suc.IH) auto
  then show ?case
    unfolding step using same Suc.prems by (cases "j < i"; cases "j = i") (auto simp: v_def)
qed

lemma bm_bit_word: "c < 64 \<Longrightarrow> bm_bit bm (64 * m + c) = bit (bm ! m) c"
  by (simp add: bm_bit_def)

lemma bit_shifted_word:
  assumes "b < 64" and "bs < 64"
  shows "bit (shifted_word ws bs bm j) b \<longleftrightarrow>
    64 * ws + bs \<le> 64 * j + b \<and> bm_bit bm (64 * j + b - (64 * ws + bs))"
proof (cases "bs \<le> b")
  case True
  have none: "\<not> bit (drop_bit (64 - bs) (w :: u64)) b" for w
    using True assms by (auto simp: bit_simps dest: bit_imp_le_length)
  have le: "64 * ws + bs \<le> 64 * j + b \<longleftrightarrow> ws \<le> j"
    using True assms by (intro iffI) linarith+
  show ?thesis
  proof (cases "ws \<le> j")
    case ws: True
    then obtain m where m: "j = ws + m" by (auto dest: le_Suc_ex)
    have "bit (shifted_word ws bs bm j) b = bit (bm ! m) (b - bs)"
      using True assms none by (simp add: shifted_word_def m bit_or_iff bit_push_bit_iff)
    moreover have "64 * j + b - (64 * ws + bs) = 64 * m + (b - bs)" using True by (simp add: m)
    moreover have "bm_bit bm (64 * m + (b - bs)) = bit (bm ! m) (b - bs)"
      using assms by (intro bm_bit_word) simp
    ultimately show ?thesis using ws le by simp
  next
    case False
    then show ?thesis using le by (simp add: shifted_word_def)
  qed
next
  case False
  have le: "64 * ws + bs \<le> 64 * j + b \<longleftrightarrow> ws + 1 \<le> j"
    using False assms by (intro iffI) linarith+
  have none: "\<not> bit (push_bit bs (w :: u64)) b" for w
    using False by (simp add: bit_simps)
  show ?thesis
  proof (cases "ws + 1 \<le> j")
    case ws: True
    then obtain m where m: "j = ws + 1 + m" by (auto dest: le_Suc_ex)
    have "bit (shifted_word ws bs bm j) b = bit (bm ! m) (64 - bs + b)"
      using False assms none by (simp add: shifted_word_def m bit_or_iff bit_drop_bit_eq)
    moreover have "64 * j + b - (64 * ws + bs) = 64 * m + (64 - bs + b)" using assms by (simp add: m)
    moreover have "bm_bit bm (64 * m + (64 - bs + b)) = bit (bm ! m) (64 - bs + b)"
      using assms False by (intro bm_bit_word) simp
    ultimately show ?thesis using ws le by simp
  next
    case False
    then show ?thesis using le none by (simp add: shifted_word_def)
  qed
qed

lemma bm_bit_shift_loop:
  assumes "k < 64 * length bm" and "bs < 64"
  shows "bm_bit (shift_loop (length bm) ws bs bm) k \<longleftrightarrow>
    64 * ws + bs \<le> k \<and> bm_bit bm (k - (64 * ws + bs))"
proof -
  have "k div 64 < length bm" using assms(1) by (simp add: less_mult_imp_div_less mult.commute)
  then have "bm_bit (shift_loop (length bm) ws bs bm) k = bit (shifted_word ws bs bm (k div 64)) (k mod 64)"
    by (simp add: bm_bit_def shift_loop_nth)
  then show ?thesis
    using bit_shifted_word [of "k mod 64" bs ws bm "k div 64"] assms(2) by simp
qed

lemma bm_bit_update:
  assumes "i < 64 * length bm" and "k < 64 * length bm"
  shows "bm_bit (bm[i div 64 := bm ! (i div 64) OR push_bit (i mod 64) 1]) k \<longleftrightarrow> bm_bit bm k \<or> k = i"
proof -
  have "i div 64 < length bm" "k div 64 < length bm"
    using assms by (simp_all add: less_mult_imp_div_less mult.commute)
  moreover have "k = i \<longleftrightarrow> k div 64 = i div 64 \<and> k mod 64 = i mod 64"
    by (metis div_mult_mod_eq)
  ultimately show ?thesis
    by (auto simp: bm_bit_def nth_list_update bit_simps bit_1_iff)
qed

lemma and_mask_eq_0: "(w :: u64) AND 2 ^ n = 0 \<longleftrightarrow> \<not> bit w n"
  by (simp add: bit_iff_and_push_bit_not_eq_0)

subsection \<open>The window meets the contract\<close>

definition rw_inv :: "ReplayWindow \<Rightarrow> bool" where
  "rw_inv w \<longleftrightarrow> 0 < rw_size w \<and> unat (rw_size w) < 2 ^ 32 \<and>
     length (rw_bitmap w) = (unat (rw_size w) + 63) div 64"

definition rw_marked :: "ReplayWindow \<Rightarrow> nat \<Rightarrow> bool" where
  "rw_marked w k = bm_bit (rw_bitmap w) k"

lemma rw_inv_bits: "rw_inv w \<Longrightarrow> unat (rw_size w) \<le> 64 * length (rw_bitmap w)"
  by (simp add: rw_inv_def)

lemma rw_too_old:
  "rw_inv w \<Longrightarrow> pid \<le> rw_highest w \<Longrightarrow>
     rw_highest w - pid \<ge> ucast (rw_size w) \<longleftrightarrow> unat (rw_size w) \<le> unat (rw_highest w) - unat pid"
  by (simp add: rw_inv_def word_le_nat_alt unat_sub_le unsigned_ucast_eq take_bit_nat_eq_self)

lemma rw_Test_iff:
  assumes "rw_inv w"
  shows "Test w p \<longleftrightarrow> p \<noteq> 0 \<and> (rw_highest w < p \<or>
    unat (rw_highest w) - unat p < unat (rw_size w) \<and> \<not> rw_marked w (unat (rw_highest w) - unat p))"
  using rw_too_old [OF assms]
  by (auto simp: Test_def rw_marked_def bm_bit_def Let_def and_mask_eq_0 unat_sub_le not_less not_le)

lemma rw_shift_bits:
  assumes "rw_inv w" and "k < unat (rw_size w)" and "unat d < 2 ^ 32"
  shows "bm_bit (rw_bitmap (shiftLeftLocked w d)) k \<longleftrightarrow> unat d \<le> k \<and> bm_bit (rw_bitmap w) (k - unat d)"
proof (cases "d \<ge> rw_size w")
  case True
  have "k < 64 * length (rw_bitmap w)" using assms(1,2) rw_inv_bits by fastforce
  then have "k div 64 < length (rw_bitmap w)" by (simp add: less_mult_imp_div_less mult.commute)
  then have "\<not> bm_bit (map (\<lambda>_. 0) (rw_bitmap w)) k" by (simp add: bm_bit_def)
  moreover have "\<not> unat d \<le> k" using True assms(2) by (simp add: word_le_nat_alt)
  ultimately show ?thesis using True by (simp add: shiftLeftLocked_def)
next
  case False
  have "k < 64 * length (rw_bitmap w)" using assms(1,2) rw_inv_bits by fastforce
  moreover have "64 * unat (d div 64) + unat (d mod 64) = unat d" "unat (d mod 64) < 64"
    by (simp_all add: unat_div unat_mod)
  ultimately show ?thesis
    using False bm_bit_shift_loop [of k "rw_bitmap w" "unat (d mod 64)" "unat (d div 64)"]
    by (simp add: shiftLeftLocked_def)
qed

lemma shiftLeftLocked_frame [simp]:
  "rw_size (shiftLeftLocked w d) = rw_size w" "rw_highest (shiftLeftLocked w d) = rw_highest w"
  "length (rw_bitmap (shiftLeftLocked w d)) = length (rw_bitmap w)"
  by (simp_all add: shiftLeftLocked_def)

lemma rw_Accept_fst: "rw_inv w \<Longrightarrow> fst (Accept w p) = Test w p"
  by (simp add: Accept_def Test_def Let_def)

lemma rw_Accept_reject: "\<not> Test w p \<Longrightarrow> snd (Accept w p) = w"
  by (auto simp: Accept_def Test_def Let_def split: if_splits)

lemma rw_Accept_frame: "rw_size (snd (Accept w p)) = rw_size w" "length (rw_bitmap (snd (Accept w p))) = length (rw_bitmap w)"
  by (simp_all add: Accept_def Let_def)

lemma rw_Accept_highest: "Test w p \<Longrightarrow> rw_highest (snd (Accept w p)) = max (rw_highest w) p"
  by (auto simp: Accept_def Test_def Let_def max_def split: if_splits)

lemma rw_Accept_marked:
  assumes inv: "rw_inv w" and t: "Test w p" and k: "k < unat (rw_size w)"
  shows "rw_marked (snd (Accept w p)) k \<longleftrightarrow>
    (if rw_highest w < p
     then k = 0 \<or> unat p - unat (rw_highest w) \<le> k \<and> rw_marked w (k - (unat p - unat (rw_highest w)))
     else rw_marked w k \<or> k = unat (rw_highest w) - unat p)"
proof (cases "rw_highest w < p")
  case True
  let ?d = "ucast (p - rw_highest w) :: u64"
  have d: "unat ?d = unat p - unat (rw_highest w)" "unat ?d < 2 ^ 32"
    using True unsigned_less [where ?'a = nat, of p]
    by (simp_all add: unsigned_ucast_eq take_bit_nat_eq_self unat_sub_le)
  let ?bm = "rw_bitmap (shiftLeftLocked w ?d)"
  have k64: "k < 64 * length ?bm" "0 < 64 * length ?bm"
    using k rw_inv_bits [OF inv] by auto
  have "rw_marked (snd (Accept w p)) k = bm_bit (?bm[0 div 64 := ?bm ! (0 div 64) OR push_bit (0 mod 64) 1]) k"
    using True by (auto simp: rw_marked_def Accept_def Let_def)
  also have "\<dots> \<longleftrightarrow> bm_bit ?bm k \<or> k = 0"
    using k64 by (intro bm_bit_update) auto
  finally show ?thesis
    using True rw_shift_bits [OF inv k d(2)] d(1) by (auto simp: rw_marked_def)
next
  case False
  then have le: "p \<le> rw_highest w" by simp
  let ?o = "unat (rw_highest w) - unat p"
  have o: "?o < unat (rw_size w)" "\<not> rw_marked w ?o" and p0: "p \<noteq> 0"
    using t False rw_Test_iff [OF inv] by auto
  then have old: "\<not> rw_highest w - p \<ge> ucast (rw_size w)"
    using rw_too_old [OF inv le] by simp
  have "rw_marked (snd (Accept w p)) k
      = bm_bit ((rw_bitmap w)[?o div 64 := rw_bitmap w ! (?o div 64) OR push_bit (?o mod 64) 1]) k"
    using False p0 old o(2) le
    by (simp add: Accept_def Let_def rw_marked_def bm_bit_def and_mask_eq_0 unat_sub_le)
  also have "\<dots> \<longleftrightarrow> bm_bit (rw_bitmap w) k \<or> k = ?o"
    using o(1) k rw_inv_bits [OF inv] by (intro bm_bit_update) auto
  finally show ?thesis using False by (simp add: rw_marked_def)
qed

interpretation rw: replay_filter rw_inv "\<lambda>w. unat (rw_size w)" rw_highest rw_marked Accept Test
proof unfold_locales
  show "rw_inv w \<Longrightarrow> rw_inv (snd (Accept w p))" for w p
    by (simp add: rw_inv_def rw_Accept_frame)
  show "rw_inv w \<Longrightarrow> unat (rw_size (snd (Accept w p))) = unat (rw_size w)" for w p
    by (simp add: rw_Accept_frame)
qed (simp_all add: rw_Test_iff rw_Accept_fst rw_Accept_reject rw_Accept_highest rw_Accept_marked)

lemma rw_inv_New:
  assumes "unat sz < 2 ^ 32"
  shows "rw_inv (NewReplayWindow sz)"
proof -
  let ?s = "if sz = 0 then DefaultReplayWindow else sz"
  have s: "unat ?s < 2 ^ 32" "0 < ?s"
    using assms by (auto simp: DefaultReplayWindow_def word_gt_0)
  then have "unat (?s + 63) = unat ?s + 63"
    by (subst unat_add_lem [THEN iffD1]) (auto simp: unat_numeral)
  then have "unat ((?s + 63) div 64) = (unat ?s + 63) div 64"
    by (simp add: unat_div)
  with s show ?thesis by (simp add: rw_inv_def NewReplayWindow_def Let_def)
qed

lemma rw_represents_New: "unat sz < 2 ^ 32 \<Longrightarrow> rw.represents (NewReplayWindow sz) {}"
  unfolding rw.represents_def by (simp add: rw_inv_New) (simp add: NewReplayWindow_def Let_def)

section \<open>Properties\<close>

text \<open>
  C39. For every sequence of packet-ids, in any order and with any repetitions, the bitmap window
  gives the same answers as the abstract filter that remembers every packet-id it ever
  accepted: shifting the bitmap in place loses nothing inside the window and forgets
  everything outside it.
\<close>

theorem ReplayWindow_refines_history:
  assumes "unat sz < 2 ^ 32"
  shows "filter_run Accept (NewReplayWindow sz) ps
    = spec_run (if sz = 0 then 1024 else unat sz) 0 {} ps"
  using rw.run_refines [OF rw_represents_New [OF assms], of ps]
  by (simp add: NewReplayWindow_def Let_def DefaultReplayWindow_def unat_numeral)

theorem ReplayWindow_refines_history_witness:
  "filter_run Accept (NewReplayWindow 0) [5, 3, 5, 0, 2000, 3] = [True, True, False, False, True, False]"
  by (subst ReplayWindow_refines_history) (simp_all add: spec_fresh_def max_def)

text \<open>
  No packet-id is accepted twice: whatever the order of arrival, the accepted packet-ids are
  pairwise distinct.
\<close>

lemma ReplayWindow_no_replay:
  assumes "unat sz < 2 ^ 32"
  shows "distinct (accepted ps (filter_run Accept (NewReplayWindow sz) ps))"
  using rw.no_replay [OF rw_represents_New [OF assms], of ps] by simp

lemma ReplayWindow_no_replay_witness:
  "distinct (accepted [7, 7, 6, 7, 6] (filter_run Accept (NewReplayWindow 64) [7, 7, 6, 7, 6]))"
  by (rule ReplayWindow_no_replay) simp

text \<open>
  The in-place word-by-word shift moves the bitmap as one long bit string: bit \<open>k\<close> afterwards
  is bit \<open>k - d\<close> before, for every distance below the window size and for clearing shifts, across
  word boundaries.
\<close>

lemma shiftLeftLocked_correct:
  assumes "rw_inv w" and "k < unat (rw_size w)" and "unat d < 2 ^ 32"
  shows "rw_marked (shiftLeftLocked w d) k \<longleftrightarrow> unat d \<le> k \<and> rw_marked w (k - unat d)"
  unfolding rw_marked_def by (rule rw_shift_bits [OF assms])

lemma shiftLeftLocked_correct_witness:
  "rw_marked (shiftLeftLocked \<lparr>rw_highest = 9, rw_bitmap = [1, 0], rw_size = 128\<rparr> 70) 70"
  using shiftLeftLocked_correct [of "\<lparr>rw_highest = 9, rw_bitmap = [1, 0], rw_size = 128\<rparr>" 70 70]
  by (simp add: rw_inv_def rw_marked_def bm_bit_def)

end
