(* ===== verification/Slot.thy ===== *)
theory Slot
  imports Proto Replay
begin

text \<open>
  The data channel (\<^verbatim>\<open>internal/data/aead.go\<close>, \<^verbatim>\<open>internal/data/slot.go\<close>): AEAD construction,
  nonce and additional data, \<^verbatim>\<open>Slot.Seal\<close> with its in-place tag move, \<^verbatim>\<open>Slot.Open\<close> and
  \<^verbatim>\<open>Slot.OpenInto\<close> with the replay pre-check and the mark after authentication.

  The ciphers themselves (\<^verbatim>\<open>crypto/aes\<close>, \<^verbatim>\<open>crypto/cipher\<close>, \<^verbatim>\<open>chacha20poly1305\<close>) are a
  parameter: an \<open>aead\<close> value is what \<^verbatim>\<open>cipher.AEAD\<close> exposes, \<open>aead_ok\<close> is the documented
  contract of that interface, and \<open>aead_lib\<close> holds the constructors.
\<close>

section \<open>AEAD (aead.go)\<close>

record aead =
  aead_Seal :: "bytes \<Rightarrow> bytes \<Rightarrow> bytes \<Rightarrow> bytes"  \<comment> \<open>nonce, plaintext, additional data\<close>
  aead_Open :: "bytes \<Rightarrow> bytes \<Rightarrow> bytes \<Rightarrow> bytes option"  \<comment> \<open>nonce, ciphertext and tag, additional data\<close>
  aead_Overhead :: nat

record aead_lib =
  lib_GCM :: "bytes \<Rightarrow> aead option"  \<comment> \<open>\<^verbatim>\<open>aes.NewCipher\<close> and \<^verbatim>\<open>cipher.NewGCM\<close>\<close>
  lib_ChaCha :: "bytes \<Rightarrow> aead option"  \<comment> \<open>\<^verbatim>\<open>chacha20poly1305.New\<close>\<close>

definition NonceLen :: nat where "NonceLen = 12"
definition TagLen :: nat where "TagLen = 16"
definition ImplicitIVLen :: nat where "ImplicitIVLen = 8"

text \<open>
  The contract of \<^verbatim>\<open>cipher.AEAD\<close> for a 12-byte nonce and a 16-byte tag: \<^verbatim>\<open>Seal\<close> returns the
  ciphertext and its tag, \<^verbatim>\<open>Open\<close> inverts it under the same nonce and additional data.
\<close>

definition aead_ok :: "aead \<Rightarrow> bool" where
  "aead_ok a \<longleftrightarrow> aead_Overhead a = TagLen \<and>
     (\<forall>nonce pt aad. length nonce = NonceLen \<longrightarrow>
        length (aead_Seal a nonce pt aad) = length pt + TagLen \<and>
        aead_Open a nonce (aead_Seal a nonce pt aad) aad = Some pt)"

datatype data_error =
    BadKeyLen string nat
  | CipherInit
  | UnsupportedAEAD string
  | ErrCiphertextShort
  | AEADOpen
  | PeerIDTooBig u32
  | SendAEAD data_error
  | RecvAEAD data_error
  | ErrPacketIDExhausted
  | SealLength nat
  | HeaderError proto_error
  | KeyIDMismatch u8
  | PeerIDMismatch u32
  | TooShortForTag nat
  | Replay u32

definition NewAEAD :: "aead_lib \<Rightarrow> string \<Rightarrow> bytes \<Rightarrow> (data_error, aead) result" where
  "NewAEAD lib cipherName key =
     (if cipherName = ''AES-256-GCM'' then
        if length key \<noteq> 32 then Inl (BadKeyLen cipherName (length key))
        else case lib_GCM lib key of None \<Rightarrow> Inl CipherInit | Some a \<Rightarrow> Inr a
      else if cipherName = ''AES-128-GCM'' then
        if length key \<noteq> 16 then Inl (BadKeyLen cipherName (length key))
        else case lib_GCM lib key of None \<Rightarrow> Inl CipherInit | Some a \<Rightarrow> Inr a
      else if cipherName = ''CHACHA20-POLY1305'' then
        if length key \<noteq> 32 then Inl (BadKeyLen cipherName (length key))
        else case lib_ChaCha lib key of None \<Rightarrow> Inl CipherInit | Some a \<Rightarrow> Inr a
      else Inl (UnsupportedAEAD cipherName))"

definition makeNonce :: "u32 \<Rightarrow> bytes \<Rightarrow> bytes" where
  "makeNonce packetID implicitIV = put_uint32 packetID @ implicitIV"

definition makeAAD :: "byte \<Rightarrow> u32 \<Rightarrow> u32 \<Rightarrow> bytes" where
  "makeAAD opcodeKID peerID packetID = [opcodeKID] @ peer_id_bytes peerID @ put_uint32 packetID"

definition AEAD_open :: "aead \<Rightarrow> bytes \<Rightarrow> bytes \<Rightarrow> bytes \<Rightarrow> (data_error, bytes) result" where
  "AEAD_open a nonce ciphertext aad =
     (if length ciphertext < aead_Overhead a then Inl ErrCiphertextShort
      else case aead_Open a nonce ciphertext aad of None \<Rightarrow> Inl AEADOpen | Some p \<Rightarrow> Inr p)"

definition AEAD_openInto :: "aead \<Rightarrow> bytes \<Rightarrow> bytes \<Rightarrow> bytes \<Rightarrow> bytes \<Rightarrow> (data_error, bytes) result" where
  "AEAD_openInto a dst nonce ciphertext aad =
     (if length ciphertext < aead_Overhead a then Inl ErrCiphertextShort
      else case aead_Open a nonce ciphertext aad of None \<Rightarrow> Inl AEADOpen | Some p \<Rightarrow> Inr (dst @ p))"

section \<open>Slots (slot.go)\<close>

definition sealBufSize :: nat where "sealBufSize = 1500 + DataV2HeaderLen + 2 * TagLen"
definition PacketIDRekeyThreshold :: u32 where "PacketIDRekeyThreshold = 2 ^ 31"

record Slot =
  sl_KeyID :: u8
  sl_PeerID :: u32
  sl_sendAEAD :: aead
  sl_sendIV :: bytes
  sl_sendPID :: u32
  sl_recvAEAD :: aead
  sl_recvIV :: bytes
  sl_recvWin :: ReplayWindow

record SlotConfig =
  sc_KeyID :: u8
  sc_PeerID :: u32
  sc_Cipher :: string
  sc_SendKey :: bytes
  sc_SendIV :: bytes
  sc_RecvKey :: bytes
  sc_RecvIV :: bytes
  sc_ReplaySize :: u64

definition NewSlot :: "aead_lib \<Rightarrow> SlotConfig \<Rightarrow> (data_error, Slot) result" where
  "NewSlot lib cfg =
     (if sc_PeerID cfg AND NOT 0x00FFFFFF \<noteq> 0 then Inl (PeerIDTooBig (sc_PeerID cfg))
      else case NewAEAD lib (sc_Cipher cfg) (sc_SendKey cfg) of
        Inl e \<Rightarrow> Inl (SendAEAD e)
      | Inr sa \<Rightarrow> (case NewAEAD lib (sc_Cipher cfg) (sc_RecvKey cfg) of
          Inl e \<Rightarrow> Inl (RecvAEAD e)
        | Inr ra \<Rightarrow> Inr \<lparr>sl_KeyID = sc_KeyID cfg, sl_PeerID = sc_PeerID cfg,
              sl_sendAEAD = sa, sl_sendIV = sc_SendIV cfg, sl_sendPID = 0,
              sl_recvAEAD = ra, sl_recvIV = sc_RecvIV cfg,
              sl_recvWin = NewReplayWindow (sc_ReplaySize cfg)\<rparr>))"

text \<open>
  \<^verbatim>\<open>Seal\<close> takes its work buffer from a pool (or allocates it), so the buffer starts with
  whatever an earlier packet left there: \<open>stale i\<close> is its byte at index \<open>i\<close>. The buffer is
  laid out \<^verbatim>\<open>[header | tag slot | AEAD output]\<close>, and the trailing tag is then copied into the
  tag slot.
\<close>

definition Seal :: "(nat \<Rightarrow> byte) \<Rightarrow> Slot \<Rightarrow> bytes \<Rightarrow> (data_error, bytes) result \<times> Slot" where
  "Seal stale s plaintext =
     (let pid = sl_sendPID s + 1;
          s = s\<lparr>sl_sendPID := pid\<rparr>
      in if pid \<ge> PacketIDRekeyThreshold then (Inl ErrPacketIDExhausted, s)
         else
           let opcodeKID = PackOpcodeKID PDataV2 (sl_KeyID s);
               nonce = makeNonce pid (sl_sendIV s);
               aad = makeAAD opcodeKID (sl_PeerID s) pid;
               pktLen = DataV2HeaderLen + TagLen + length plaintext;
               want = pktLen + TagLen;
               buf = map stale [0..<want];
               buf = copy_at 0 ([opcodeKID] @ peer_id_bytes (sl_PeerID s)) buf;
               buf = copy_at 4 (put_uint32 pid) buf;
               dstStart = DataV2HeaderLen + TagLen;
               sealed = aead_Seal (sl_sendAEAD s) nonce plaintext aad;
               buf = copy_at dstStart sealed buf
           in if length sealed \<noteq> length plaintext + TagLen then (Inl (SealLength (length sealed)), s)
              else
                let tagSrc = dstStart + length plaintext;
                    buf = copy_at DataV2HeaderLen (subslice buf tagSrc (tagSrc + TagLen)) buf
                in (Inr (take pktLen buf), s))"

text \<open>
  The reordering of \<^verbatim>\<open>tag||ciphertext\<close> into \<^verbatim>\<open>ciphertext||tag\<close>, in place in the receive buffer
  (the three \<^verbatim>\<open>copy\<close> calls; the second one overlaps and moves left).
\<close>

definition reorder_body :: "bytes \<Rightarrow> bytes" where
  "reorder_body body =
     (let tagBuf = take TagLen body;
          body = copy_at 0 (drop TagLen body) body
      in copy_at (length body - TagLen) tagBuf body)"

definition Open :: "Slot \<Rightarrow> bytes \<Rightarrow> (data_error, bytes) result \<times> Slot" where
  "Open s packet =
     (case ParseDataV2Header packet of
        Inl e \<Rightarrow> (Inl (HeaderError e), s)
      | Inr (hdr, body) \<Rightarrow>
        if dh_KeyID hdr \<noteq> sl_KeyID s then (Inl (KeyIDMismatch (dh_KeyID hdr)), s)
        else if dh_PeerID hdr \<noteq> sl_PeerID s then (Inl (PeerIDMismatch (dh_PeerID hdr)), s)
        else if length body < TagLen then (Inl (TooShortForTag (length body)), s)
        else if \<not> Test (sl_recvWin s) (dh_PacketID hdr) then (Inl (Replay (dh_PacketID hdr)), s)
        else
          let body = reorder_body body;
              opcodeKID = packet ! 0;
              nonce = makeNonce (dh_PacketID hdr) (sl_recvIV s);
              aad = makeAAD opcodeKID (dh_PeerID hdr) (dh_PacketID hdr)
          in case AEAD_open (sl_recvAEAD s) nonce body aad of
               Inl e \<Rightarrow> (Inl e, s)
             | Inr plaintext \<Rightarrow>
                 (case Accept (sl_recvWin s) (dh_PacketID hdr) of
                    (ok, win) \<Rightarrow>
                      let s = s\<lparr>sl_recvWin := win\<rparr>
                      in if \<not> ok then (Inl (Replay (dh_PacketID hdr)), s) else (Inr plaintext, s)))"

definition OpenInto :: "Slot \<Rightarrow> bytes \<Rightarrow> bytes \<Rightarrow> (data_error, bytes) result \<times> Slot" where
  "OpenInto s dst packet =
     (case ParseDataV2Header packet of
        Inl e \<Rightarrow> (Inl (HeaderError e), s)
      | Inr (hdr, body) \<Rightarrow>
        if dh_KeyID hdr \<noteq> sl_KeyID s then (Inl (KeyIDMismatch (dh_KeyID hdr)), s)
        else if dh_PeerID hdr \<noteq> sl_PeerID s then (Inl (PeerIDMismatch (dh_PeerID hdr)), s)
        else if length body < TagLen then (Inl (TooShortForTag (length body)), s)
        else if \<not> Test (sl_recvWin s) (dh_PacketID hdr) then (Inl (Replay (dh_PacketID hdr)), s)
        else
          let body = reorder_body body;
              opcodeKID = packet ! 0;
              nonce = makeNonce (dh_PacketID hdr) (sl_recvIV s);
              aad = makeAAD opcodeKID (dh_PeerID hdr) (dh_PacketID hdr)
          in case AEAD_openInto (sl_recvAEAD s) dst nonce body aad of
               Inl e \<Rightarrow> (Inl e, s)
             | Inr plaintext \<Rightarrow>
                 (case Accept (sl_recvWin s) (dh_PacketID hdr) of
                    (ok, win) \<Rightarrow>
                      let s = s\<lparr>sl_recvWin := win\<rparr>
                      in if \<not> ok then (Inl (Replay (dh_PacketID hdr)), s) else (Inr plaintext, s)))"

definition SendPID :: "Slot \<Rightarrow> u32" where
  "SendPID s = sl_sendPID s"

section \<open>Lemmas\<close>

lemma makeNonce_inj: "makeNonce p iv = makeNonce q iv \<longleftrightarrow> p = q"
  by (simp add: makeNonce_def be_bytes_inj)

lemma length_makeNonce: "length iv = ImplicitIVLen \<Longrightarrow> length (makeNonce p iv) = NonceLen"
  by (simp add: makeNonce_def ImplicitIVLen_def NonceLen_def)

lemma reorder_body_eq: "TagLen \<le> length body \<Longrightarrow> reorder_body body = drop TagLen body @ take TagLen body"
  by (simp add: reorder_body_def copy_at_def Let_def min_def)

text \<open>What a sealed packet looks like: header, tag, ciphertext, whatever the buffer held before.\<close>

definition data_packet :: "Slot \<Rightarrow> u32 \<Rightarrow> bytes \<Rightarrow> bytes" where
  "data_packet s pid plaintext =
     (let opcodeKID = PackOpcodeKID PDataV2 (sl_KeyID s);
          sealed = aead_Seal (sl_sendAEAD s) (makeNonce pid (sl_sendIV s)) plaintext
                     (makeAAD opcodeKID (sl_PeerID s) pid)
      in DataV2Header_AppendBinary \<lparr>dh_KeyID = sl_KeyID s, dh_PeerID = sl_PeerID s, dh_PacketID = pid\<rparr> []
         @ drop (length plaintext) sealed @ take (length plaintext) sealed)"

lemma seal_buffer:
  assumes "length hdr = 4" "length pidb = 4" "length sealed = n + 16" "length buf = 24 + n + 16"
  shows "take (24 + n) (copy_at 8 (subslice (copy_at 24 sealed (copy_at 4 pidb (copy_at 0 hdr buf))) (24 + n) (24 + n + 16))
           (copy_at 24 sealed (copy_at 4 pidb (copy_at 0 hdr buf))))
         = hdr @ pidb @ drop n sealed @ take n sealed"
  using assms by (simp add: copy_at_def subslice_def)

lemma Seal_eq:
  assumes "aead_ok (sl_sendAEAD s)" and "length (sl_sendIV s) = ImplicitIVLen"
  shows "Seal stale s pt =
    (let pid = sl_sendPID s + 1
     in (if pid \<ge> PacketIDRekeyThreshold then Inl ErrPacketIDExhausted else Inr (data_packet s pid pt),
         s\<lparr>sl_sendPID := pid\<rparr>))"
proof -
  let ?op = "PackOpcodeKID PDataV2 (sl_KeyID s)"
  let ?pid = "sl_sendPID s + 1"
  let ?sealed = "aead_Seal (sl_sendAEAD s) (makeNonce ?pid (sl_sendIV s)) pt (makeAAD ?op (sl_PeerID s) ?pid)"
  have len: "length ?sealed = length pt + 16"
    using assms length_makeNonce [OF assms(2)] by (simp add: aead_ok_def TagLen_def)
  let ?buf = "map stale [0..<24 + length pt + 16]"
  have "take (24 + length pt) (copy_at 8 (subslice (copy_at 24 ?sealed (copy_at 4 (put_uint32 ?pid)
            (copy_at 0 (?op # peer_id_bytes (sl_PeerID s)) ?buf))) (24 + length pt) (24 + length pt + 16))
          (copy_at 24 ?sealed (copy_at 4 (put_uint32 ?pid) (copy_at 0 (?op # peer_id_bytes (sl_PeerID s)) ?buf))))
      = data_packet s ?pid pt"
    by (subst seal_buffer) (simp_all add: len peer_id_bytes_def data_packet_def DataV2Header_AppendBinary_def Let_def)
  then show ?thesis
    using len by (simp add: Seal_def Let_def DataV2HeaderLen_def TagLen_def)
qed

text \<open>A slot as \<^verbatim>\<open>NewSlot\<close> builds it on the supported ciphers, and the two ends of one key.\<close>

definition slot_wf :: "Slot \<Rightarrow> bool" where
  "slot_wf s \<longleftrightarrow> aead_ok (sl_sendAEAD s) \<and> aead_ok (sl_recvAEAD s) \<and>
     length (sl_sendIV s) = ImplicitIVLen \<and> length (sl_recvIV s) = ImplicitIVLen \<and>
     unat (sl_KeyID s) < 8 \<and> unat (sl_PeerID s) < 2 ^ 24 \<and> rw_inv (sl_recvWin s)"

definition slots_agree :: "Slot \<Rightarrow> Slot \<Rightarrow> bool" where
  "slots_agree s r \<longleftrightarrow> sl_KeyID r = sl_KeyID s \<and> sl_PeerID r = sl_PeerID s \<and>
     sl_recvAEAD r = sl_sendAEAD s \<and> sl_recvIV r = sl_sendIV s"

lemma slot_wf_ids:
  assumes "slot_wf s"
  shows "take_bit 3 (sl_KeyID s) = sl_KeyID s" "take_bit 24 (sl_PeerID s) = sl_PeerID s"
  using assms take_bit_small [of "sl_KeyID s" 3] take_bit_small [of "sl_PeerID s" 24]
  by (simp_all add: slot_wf_def)

lemma slots_agree_SendPID [simp]: "slots_agree (s\<lparr>sl_sendPID := p\<rparr>) r = slots_agree s r"
  by (simp add: slots_agree_def)

lemma slot_wf_SendPID [simp]: "slot_wf (s\<lparr>sl_sendPID := p\<rparr>) = slot_wf s"
  by (simp add: slot_wf_def)

lemma data_packet_SendPID [simp]: "data_packet (s\<lparr>sl_sendPID := p\<rparr>) = data_packet s"
  by (rule ext, rule ext) (simp add: data_packet_def)

lemma data_packet_header:
  assumes "slot_wf s"
  shows "ParseDataV2Header (data_packet s pid pt) =
    Inr (\<lparr>dh_KeyID = sl_KeyID s, dh_PeerID = sl_PeerID s, dh_PacketID = pid\<rparr>, drop 8 (data_packet s pid pt))"
  using slot_wf_ids [OF assms]
  by (simp add: data_packet_def Let_def ParseDataV2Header_AppendBinary)
     (simp add: DataV2Header_AppendBinary_def peer_id_bytes_def)

lemma data_packet_body:
  "drop 8 (data_packet s pid pt) =
     (let sealed = aead_Seal (sl_sendAEAD s) (makeNonce pid (sl_sendIV s)) pt
          (makeAAD (PackOpcodeKID PDataV2 (sl_KeyID s)) (sl_PeerID s) pid)
      in drop (length pt) sealed @ take (length pt) sealed)"
  and data_packet_first: "data_packet s pid pt ! 0 = PackOpcodeKID PDataV2 (sl_KeyID s)"
  by (simp_all add: data_packet_def Let_def DataV2Header_AppendBinary_def peer_id_bytes_def)

lemma Open_data_packet:
  assumes "slot_wf s" and "slot_wf r" and "slots_agree s r"
  shows "Open r (data_packet s pid pt) =
    (if Test (sl_recvWin r) pid then (Inr pt, r\<lparr>sl_recvWin := snd (Accept (sl_recvWin r) pid)\<rparr>)
     else (Inl (Replay pid), r))"
proof -
  let ?aad = "makeAAD (PackOpcodeKID PDataV2 (sl_KeyID s)) (sl_PeerID s) pid"
  define sealed where "sealed = aead_Seal (sl_sendAEAD s) (makeNonce pid (sl_sendIV s)) pt ?aad"
  have ok: "aead_ok (sl_sendAEAD s)" "length (makeNonce pid (sl_sendIV s)) = NonceLen"
    using assms(1) by (auto simp: slot_wf_def length_makeNonce)
  then have len: "length sealed = length pt + TagLen"
    and opn: "aead_Open (sl_sendAEAD s) (makeNonce pid (sl_sendIV s)) sealed ?aad = Some pt"
    and ovh: "aead_Overhead (sl_sendAEAD s) = TagLen"
    by (simp_all add: aead_ok_def sealed_def)
  have body: "drop 8 (data_packet s pid pt) = drop (length pt) sealed @ take (length pt) sealed"
    by (simp add: data_packet_body sealed_def Let_def)
  have long: "\<not> length (drop (length pt) sealed @ take (length pt) sealed) < TagLen"
    using len by simp
  have re: "reorder_body (drop (length pt) sealed @ take (length pt) sealed) = sealed"
    using len by (subst reorder_body_eq) simp_all
  have inv: "rw_inv (sl_recvWin r)" using assms(2) by (simp add: slot_wf_def)
  show ?thesis
  proof (cases "Test (sl_recvWin r) pid")
    case True
    then obtain win where "Accept (sl_recvWin r) pid = (True, win)"
      using rw_Accept_fst [OF inv, of pid] by (metis prod.collapse)
    then show ?thesis
      using True assms(3) len opn ovh long
      by (simp add: Open_def data_packet_header [OF assms(1)] body re data_packet_first slots_agree_def
          AEAD_open_def Let_def del: length_append)
  next
    case False
    then show ?thesis
      using assms(3) long
      by (simp add: Open_def data_packet_header [OF assms(1)] body slots_agree_def del: length_append)
  qed
qed

text \<open>A refused packet leaves the slot as it was: only authenticated packets move the window.\<close>

lemma Open_error_unchanged:
  assumes "rw_inv (sl_recvWin s)" and "Open s packet = (Inl e, s')"
  shows "s' = s"
  using assms rw_Accept_fst [OF assms(1)]
  by (auto simp: Open_def Let_def prod_eq_iff split: sum.splits if_splits prod.splits)

lemma Open_success:
  assumes "rw_inv (sl_recvWin s)" and "Open s packet = (Inr pt, s')"
  shows "\<exists>hdr body. ParseDataV2Header packet = Inr (hdr, body) \<and> Test (sl_recvWin s) (dh_PacketID hdr) \<and>
    dh_KeyID hdr = sl_KeyID s \<and> dh_PeerID hdr = sl_PeerID s \<and>
    aead_Open (sl_recvAEAD s) (makeNonce (dh_PacketID hdr) (sl_recvIV s)) (drop TagLen body @ take TagLen body)
      (makeAAD (packet ! 0) (sl_PeerID s) (dh_PacketID hdr)) = Some pt \<and>
    s' = s\<lparr>sl_recvWin := snd (Accept (sl_recvWin s) (dh_PacketID hdr))\<rparr>"
  using assms rw_Accept_fst [OF assms(1)]
  by (auto simp: Open_def Let_def AEAD_open_def prod_eq_iff reorder_body_eq not_less
      split: sum.splits if_splits prod.splits option.splits)

text \<open>Sealing a sequence of plaintexts, and opening a sequence of packets.\<close>

fun seal_all :: "(nat \<Rightarrow> byte) \<Rightarrow> Slot \<Rightarrow> bytes list \<Rightarrow> (data_error, bytes) result list \<times> Slot" where
  "seal_all stale s [] = ([], s)"
| "seal_all stale s (pt # pts) =
     (case Seal stale s pt of (r, s') \<Rightarrow>
      case seal_all stale s' pts of (rs, s'') \<Rightarrow> (r # rs, s''))"

fun open_all :: "Slot \<Rightarrow> bytes list \<Rightarrow> (data_error, bytes) result list \<times> Slot" where
  "open_all s [] = ([], s)"
| "open_all s (p # ps) =
     (case Open s p of (r, s') \<Rightarrow>
      case open_all s' ps of (rs, s'') \<Rightarrow> (r # rs, s''))"

text \<open>The packet-id in the header of a packet (the part of the nonce that varies).\<close>

definition packet_pid :: "bytes \<Rightarrow> u32" where
  "packet_pid pkt = uint32_of (subslice pkt 4 8)"

definition sealed_packets :: "(data_error, bytes) result list \<Rightarrow> bytes list" where
  "sealed_packets rs = concat (map (\<lambda>r. case r of Inl _ \<Rightarrow> [] | Inr p \<Rightarrow> [p]) rs)"

lemma sealed_packets_simps [simp]:
  "sealed_packets [] = []"
  "sealed_packets (Inl e # rs) = sealed_packets rs"
  "sealed_packets (Inr p # rs) = p # sealed_packets rs"
  by (simp_all add: sealed_packets_def)

lemma packet_pid_data_packet: "packet_pid (data_packet s pid pt) = pid"
  by (simp add: packet_pid_def data_packet_def Let_def DataV2Header_AppendBinary_def peer_id_bytes_def subslice_def)

lemma packet_pid_header: "ParseDataV2Header p = Inr (hdr, body) \<Longrightarrow> dh_PacketID hdr = packet_pid p"
  by (auto simp: ParseDataV2Header_def packet_pid_def split: if_splits prod.splits)

lemma seal_all_pids:
  assumes "slot_wf s" and "unat (sl_sendPID s) + length pts < 2 ^ 32"
  shows "distinct (map packet_pid (sealed_packets (fst (seal_all stale s pts)))) \<and>
    (\<forall>p\<in>set (sealed_packets (fst (seal_all stale s pts))).
       sl_sendPID s < packet_pid p \<and> packet_pid p < PacketIDRekeyThreshold)"
  using assms
proof (induction pts arbitrary: s)
  case Nil
  then show ?case by simp
next
  case (Cons pt pts)
  let ?pid = "sl_sendPID s + 1"
  let ?s' = "s\<lparr>sl_sendPID := ?pid\<rparr>"
  have up: "unat ?pid = unat (sl_sendPID s) + 1"
    using Cons.prems(2) by (subst unat_add_lem [THEN iffD1]) auto
  have IH: "distinct (map packet_pid (sealed_packets (fst (seal_all stale ?s' pts))))"
    "\<forall>p\<in>set (sealed_packets (fst (seal_all stale ?s' pts))).
       ?pid < packet_pid p \<and> packet_pid p < PacketIDRekeyThreshold"
    using Cons.IH [of ?s'] Cons.prems up by auto
  have lt: "sl_sendPID s < ?pid" using up by (simp add: word_less_nat_alt)
  have "fst (seal_all stale s (pt # pts)) =
      (if ?pid \<ge> PacketIDRekeyThreshold then Inl ErrPacketIDExhausted else Inr (data_packet s ?pid pt))
      # fst (seal_all stale ?s' pts)"
    using Cons.prems(1) Seal_eq [of s stale pt]
    by (simp add: slot_wf_def Let_def case_prod_unfold)
  then show ?case
    using IH lt by (auto simp: packet_pid_data_packet not_le)
qed

text \<open>The packet-ids of the packets that opened, in order of arrival.\<close>

definition opened_pids :: "bytes list \<Rightarrow> (data_error, bytes) result list \<Rightarrow> u32 list" where
  "opened_pids ps rs = map packet_pid (map fst (filter (\<lambda>(p, r). case r of Inl _ \<Rightarrow> False | Inr _ \<Rightarrow> True) (zip ps rs)))"

lemma opened_pids_simps [simp]:
  "opened_pids [] rs = []"
  "opened_pids (p # ps) (Inl e # rs) = opened_pids ps rs"
  "opened_pids (p # ps) (Inr x # rs) = packet_pid p # opened_pids ps rs"
  by (simp_all add: opened_pids_def)

lemma open_all_no_replay:
  assumes "rw.represents (sl_recvWin s) S"
  shows "distinct (opened_pids ps (fst (open_all s ps))) \<and> set (opened_pids ps (fst (open_all s ps))) \<inter> S = {}"
  using assms
proof (induction ps arbitrary: s S)
  case Nil
  then show ?case by simp
next
  case (Cons p ps)
  have inv: "rw_inv (sl_recvWin s)" using Cons.prems by (simp add: rw.represents_def)
  obtain r s' where o: "Open s p = (r, s')" by (cases "Open s p")
  have fst: "fst (open_all s (p # ps)) = r # fst (open_all s' ps)"
    by (simp add: o case_prod_unfold)
  show ?case
  proof (cases r)
    case (Inl e)
    then have "s' = s" using Open_error_unchanged [OF inv] o by simp
    then show ?thesis using Cons.IH [OF Cons.prems] fst Inl by simp
  next
    case (Inr pt)
    then have ok: "Test (sl_recvWin s) (packet_pid p)"
      and s': "s' = s\<lparr>sl_recvWin := snd (Accept (sl_recvWin s) (packet_pid p))\<rparr>"
      using Open_success [OF inv] o packet_pid_header by fastforce+
    have "rw.represents (sl_recvWin s') (insert (packet_pid p) S)"
      using rw.represents_acc [OF Cons.prems ok] s' by simp
    moreover have "packet_pid p \<notin> S"
      using rw.accepted_not_fresh [OF Cons.prems] ok by blast
    ultimately show ?thesis using Cons.IH [of s' "insert (packet_pid p) S"] fst Inr by auto
  qed
qed

lemma OpenInto_Open:
  "OpenInto s dst packet = (case Open s packet of (r, s') \<Rightarrow> (map_sum id (\<lambda>pt. dst @ pt) r, s'))"
  by (auto simp: OpenInto_def Open_def AEAD_open_def AEAD_openInto_def Let_def
      split: sum.splits prod.splits option.splits)

lemma NewSlot_wf:
  assumes "NewSlot lib cfg = Inr s"
    and "\<And>key a. lib_GCM lib key = Some a \<Longrightarrow> aead_ok a"
    and "\<And>key a. lib_ChaCha lib key = Some a \<Longrightarrow> aead_ok a"
    and "unat (sc_KeyID cfg) < 8" and "unat (sc_ReplaySize cfg) < 2 ^ 32"
    and "length (sc_SendIV cfg) = ImplicitIVLen" and "length (sc_RecvIV cfg) = ImplicitIVLen"
  shows "slot_wf s \<and> sl_sendPID s = 0 \<and> rw.represents (sl_recvWin s) {}"
proof -
  have aead: "NewAEAD lib c key = Inr a \<Longrightarrow> aead_ok a" for c key a
    using assms(2,3) by (auto simp: NewAEAD_def split: if_splits option.splits)
  have peer: "unat (p :: u32) < 2 ^ 24" if "p AND NOT 0x00FFFFFF = 0" for p
  proof -
    have "take_bit 24 p = p"
    proof (rule bit_word_eqI)
      fix n assume n: "n < LENGTH(32)"
      have "bit (p AND NOT (mask 24)) n = False"
        using that by (simp add: mask_eq_exp_minus_1)
      then show "bit (take_bit 24 p) n = bit p n"
        using n by (auto simp: bit_simps)
    qed
    then show ?thesis
      by (metis take_bit_nat_less_exp unsigned_take_bit_eq)
  qed
  show ?thesis
    using assms(1,4-) aead peer
    by (auto simp: NewSlot_def slot_wf_def rw_inv_New rw_represents_New split: if_splits sum.splits)
qed

text \<open>Every packet of a log of sealed packets either opens to its plaintext or is a replay.\<close>

lemma Open_agree: "slots_agree s r \<Longrightarrow> slot_wf r \<Longrightarrow> Open r p = (x, r') \<Longrightarrow> slots_agree s r' \<and> slot_wf r'"
  using Open_error_unchanged [of r p] Open_success [of r p] rw.acc_inv [of "sl_recvWin r"]
  by (cases x) (fastforce simp: slots_agree_def slot_wf_def)+

lemma open_all_delivers:
  assumes "slot_wf s" and "slot_wf r" and "slots_agree s r"
  shows "list_all2 (\<lambda>(pid, pt) res. res = Inr pt \<or> res = Inl (Replay pid)) log
    (fst (open_all r (map (\<lambda>(pid, pt). data_packet s pid pt) log)))"
  using assms(2,3)
proof (induction log arbitrary: r)
  case Nil
  then show ?case by simp
next
  case (Cons e log)
  obtain pid pt where e: "e = (pid, pt)" by (cases e)
  obtain x r' where o: "Open r (data_packet s pid pt) = (x, r')" by (cases "Open r (data_packet s pid pt)")
  have "x = Inr pt \<or> x = Inl (Replay pid)"
    using Open_data_packet [OF assms(1) Cons.prems, of pid pt] o by (auto split: if_splits)
  then show ?case
    using Cons.IH [of r'] Open_agree [OF Cons.prems(2,1) o] by (simp add: e o case_prod_unfold)
qed

section \<open>Properties\<close>

text \<open>A concrete cipher that meets the contract, to run the properties on.\<close>

definition demo_aead :: aead where
  "demo_aead = \<lparr>aead_Seal = (\<lambda>nonce pt aad. pt @ replicate 16 7),
     aead_Open = (\<lambda>nonce ct aad. Some (take (length ct - 16) ct)), aead_Overhead = 16\<rparr>"

definition demo_slot :: Slot where
  "demo_slot = \<lparr>sl_KeyID = 1, sl_PeerID = 5, sl_sendAEAD = demo_aead, sl_sendIV = replicate 8 3, sl_sendPID = 0,
     sl_recvAEAD = demo_aead, sl_recvIV = replicate 8 3, sl_recvWin = NewReplayWindow 64\<rparr>"

lemma demo_aead_ok: "aead_ok demo_aead"
  by (simp add: aead_ok_def demo_aead_def TagLen_def)

lemma demo_slot_wf: "slot_wf demo_slot"
  by (simp add: slot_wf_def demo_slot_def demo_aead_ok ImplicitIVLen_def rw_inv_New)

lemma demo_slot_agree: "slots_agree demo_slot demo_slot"
  by (simp add: slots_agree_def demo_slot_def)

text \<open>
  C6. The tunnel delivers what was sent: for two well-formed slots that hold the two ends of one
  key, sealing a plaintext below the packet-id threshold and opening the packet on the other
  side yields that plaintext, if the receiver's window still takes the packet-id, and the
  packet-id is then used up; otherwise the packet is refused as a replay. The content of the
  pooled buffer never matters.
\<close>

theorem Seal_Open_roundtrip:
  assumes "slot_wf s" and "slot_wf r" and "slots_agree s r" and "Seal stale s pt = (Inr pkt, s')"
  shows "Open r pkt =
    (if Test (sl_recvWin r) (SendPID s')
     then (Inr pt, r\<lparr>sl_recvWin := snd (Accept (sl_recvWin r) (SendPID s'))\<rparr>)
     else (Inl (Replay (SendPID s')), r))"
proof -
  have "pkt = data_packet s (SendPID s') pt"
    using assms(1,4) Seal_eq [of s stale pt] by (auto simp: slot_wf_def SendPID_def Let_def split: if_splits)
  then show ?thesis using Open_data_packet [OF assms(1-3)] by simp
qed

theorem Seal_Open_roundtrip_witness:
  "fst (Open demo_slot (case fst (Seal (\<lambda>_. 9) demo_slot [1, 2, 3]) of Inr p \<Rightarrow> p)) = Inr [1, 2, 3]"
proof -
  have thr: "\<not> PacketIDRekeyThreshold \<le> 1" by code_simp
  have "Seal (\<lambda>_. 9) demo_slot [1, 2, 3] = (Inr (data_packet demo_slot 1 [1, 2, 3]), demo_slot\<lparr>sl_sendPID := 1\<rparr>)"
    using demo_slot_wf thr
    by (subst Seal_eq) (simp_all add: slot_wf_def demo_slot_def Let_def)
  from Seal_Open_roundtrip [OF demo_slot_wf demo_slot_wf demo_slot_agree this] show ?thesis
    unfolding \<open>Seal (\<lambda>_. 9) demo_slot [1, 2, 3] = _\<close>
    by (simp add: SendPID_def Test_def demo_slot_def NewReplayWindow_def Let_def)
qed



text \<open>
  C7. Whatever arrives (packets of this tunnel in any order and multiplicity, forgeries, garbage),
  no two packets that open carry the same packet-id.
\<close>

theorem Open_no_replay:
  assumes "NewSlot lib cfg = Inr s" and "unat (sc_ReplaySize cfg) < 2 ^ 32"
  shows "distinct (opened_pids ps (fst (open_all s ps)))"
proof -
  have "rw.represents (sl_recvWin s) {}"
    using assms rw_represents_New by (auto simp: NewSlot_def split: if_splits sum.splits)
  then show ?thesis using open_all_no_replay by blast
qed

definition demo_lib :: aead_lib where
  "demo_lib = \<lparr>lib_GCM = (\<lambda>key. Some demo_aead), lib_ChaCha = (\<lambda>key. Some demo_aead)\<rparr>"

definition demo_slot_config :: SlotConfig where
  "demo_slot_config = \<lparr>sc_KeyID = 1, sc_PeerID = 5, sc_Cipher = ''AES-128-GCM'', sc_SendKey = replicate 16 1,
     sc_SendIV = replicate 8 3, sc_RecvKey = replicate 16 2, sc_RecvIV = replicate 8 3, sc_ReplaySize = 64\<rparr>"

lemma demo_NewSlot: "NewSlot demo_lib demo_slot_config = Inr demo_slot"
  by (simp add: NewSlot_def NewAEAD_def demo_lib_def demo_slot_config_def demo_slot_def)

theorem Open_no_replay_witness:
  "distinct (opened_pids [[1], [2, 3]] (fst (open_all demo_slot [[1], [2, 3]])))"
  by (rule Open_no_replay [OF demo_NewSlot]) (simp add: demo_slot_config_def)

text \<open>
  For any arrival sequence of packets sealed under the same key (reordered, duplicated, with
  losses), every packet is either opened to exactly its own plaintext or refused as a replay of
  its own packet-id: a receiver is never driven into another error and never delivers anything
  else.
\<close>

lemma Open_delivers_only_sealed:
  assumes "slot_wf s" and "slot_wf r" and "slots_agree s r"
  shows "list_all2 (\<lambda>(pid, pt) res. res = Inr pt \<or> res = Inl (Replay pid)) log
    (fst (open_all r (map (\<lambda>(pid, pt). data_packet s pid pt) log)))"
  by (rule open_all_delivers [OF assms])

lemma Open_delivers_only_sealed_witness:
  "list_all2 (\<lambda>(pid, pt) res. res = Inr pt \<or> res = Inl (Replay pid)) [(4, [1, 2]), (4, [1, 2])]
    (fst (open_all demo_slot [data_packet demo_slot 4 [1, 2], data_packet demo_slot 4 [1, 2]]))"
  using Open_delivers_only_sealed [OF demo_slot_wf demo_slot_wf demo_slot_agree, of "[(4, [1, 2]), (4, [1, 2])]"]
  by simp

text \<open>
  A packet that does not open leaves the slot as it was, so a forged or corrupted packet can
  never move the replay window; a packet that opens was fresh, carried this slot's key-id and
  peer-id, and authenticated under the nonce and additional data of its own header.
\<close>

lemma Open_only_authenticated_moves_window:
  assumes "slot_wf s" and "Open s packet = (res, s')"
  shows "case res of
      Inl e \<Rightarrow> s' = s
    | Inr pt \<Rightarrow> (\<exists>hdr body. ParseDataV2Header packet = Inr (hdr, body) \<and> Test (sl_recvWin s) (dh_PacketID hdr) \<and>
        dh_KeyID hdr = sl_KeyID s \<and> dh_PeerID hdr = sl_PeerID s \<and>
        aead_Open (sl_recvAEAD s) (makeNonce (dh_PacketID hdr) (sl_recvIV s)) (drop TagLen body @ take TagLen body)
          (makeAAD (packet ! 0) (sl_PeerID s) (dh_PacketID hdr)) = Some pt \<and>
        s' = s\<lparr>sl_recvWin := snd (Accept (sl_recvWin s) (dh_PacketID hdr))\<rparr>)"
proof -
  have "rw_inv (sl_recvWin s)" using assms(1) by (simp add: slot_wf_def)
  from Open_error_unchanged [OF this] Open_success [OF this] show ?thesis
    using assms(2) by (cases res) simp_all
qed

lemma Open_only_authenticated_moves_window_witness:
  "snd (Open demo_slot [1, 2, 3]) = demo_slot"
proof -
  have "Open demo_slot [1, 2, 3] = (Inl (HeaderError ErrShortPacket), demo_slot)"
    by (simp add: Open_def ParseDataV2Header_def DataV2HeaderLen_def)
  from Open_only_authenticated_moves_window [OF demo_slot_wf this] show ?thesis
    unfolding \<open>Open demo_slot [1, 2, 3] = _\<close> by simp
qed

text \<open>
  The buffer-reusing variant \<open>OpenInto\<close> behaves as \<open>Open\<close> on every input: same errors, same
  slot afterwards, and on success the caller's buffer with the same plaintext appended.
\<close>

lemma OpenInto_equals_Open:
  "OpenInto s dst packet = (case Open s packet of (r, s') \<Rightarrow> (map_sum id (\<lambda>pt. dst @ pt) r, s'))"
  by (rule OpenInto_Open)

text \<open>
  Whatever \<open>NewSlot\<close> builds over ciphers that keep their contract is well formed, starts with
  send counter 0 and an empty replay history.
\<close>

lemma NewSlot_wellformed:
  assumes "NewSlot lib cfg = Inr s"
    and "\<And>key a. lib_GCM lib key = Some a \<Longrightarrow> aead_ok a"
    and "\<And>key a. lib_ChaCha lib key = Some a \<Longrightarrow> aead_ok a"
    and "unat (sc_KeyID cfg) < 8" and "unat (sc_ReplaySize cfg) < 2 ^ 32"
    and "length (sc_SendIV cfg) = ImplicitIVLen" and "length (sc_RecvIV cfg) = ImplicitIVLen"
  shows "slot_wf s \<and> SendPID s = 0 \<and> rw.represents (sl_recvWin s) {}"
  using NewSlot_wf [OF assms] by (simp add: SendPID_def)

lemma NewSlot_wellformed_witness: "slot_wf demo_slot \<and> SendPID demo_slot = 0 \<and> rw.represents (sl_recvWin demo_slot) {}"
  by (rule NewSlot_wellformed [OF demo_NewSlot])
     (simp_all add: demo_lib_def demo_aead_ok demo_slot_config_def ImplicitIVLen_def split: if_splits)

text \<open>
  The send counter keeps counting past the threshold, so it is not saturated: after \<open>2 ^ 32\<close>
  calls it wraps and \<open>Seal\<close> hands out packet-ids that were used before.
\<close>

lemma Seal_counter_wraps:
  assumes "slot_wf s" and "sl_sendPID s = 2 ^ 32 - 1"
  shows "fst (Seal stale s pt) = Inr (data_packet s 0 pt)"
proof -
  have "sl_sendPID s + 1 = 0" using assms(2) by simp
  then show ?thesis
    using assms(1) Seal_eq [of s stale pt] by (simp add: slot_wf_def PacketIDRekeyThreshold_def Let_def)
qed

end
