(* ===== verification/Reliable.thy ===== *)
theory Reliable
  imports Proto "HOL-Library.AList"
begin

text \<open>
  The control-channel reliability layer (\<^verbatim>\<open>internal/reliable/reliable.go\<close>): acknowledgements,
  retransmission with backoff and fast retransmit, in-order delivery of TLS bytes, chunking of
  TLS writes. One definition per method; every method runs under the layer's mutex, so each is
  one atomic step.

  Modelling choices. Go maps are association lists (\<^verbatim>\<open>len\<close> is \<open>length\<close>), and the unspecified
  iteration order of \<^verbatim>\<open>for range txQueue\<close> is an argument of \<open>Tick\<close>. The buffered channel
  \<open>outbound\<close> is the list of packets in it with its capacity. Times are nanoseconds; the zero
  \<^verbatim>\<open>time.Time\<close> is \<open>None\<close>; all clock readings of one method call are its argument \<open>now\<close>. A call
  that would wait on a condition variable returns a \<open>Wait\<close> outcome with what is left to do.
\<close>

section \<open>Constants and data\<close>

definition MaxAcksPerPacket :: nat where "MaxAcksPerPacket = 8"
definition MaxQueueSize :: nat where "MaxQueueSize = 12"
definition MaxRxBuffer :: u32 where "MaxRxBuffer = 64"
definition MaxRetransmits :: nat where "MaxRetransmits = 8"
definition second :: int where "second = 1000000000"
definition millisecond :: int where "millisecond = 1000000"
definition InitialRetransmit :: int where "InitialRetransmit = second"
definition MaxRetransmit :: int where "MaxRetransmit = 16 * second"
definition AckFlushDelay :: int where "AckFlushDelay = 20 * millisecond"
definition FastRetransmitThreshold :: nat where "FastRetransmitThreshold = 3"
definition TLSChunkSize :: nat where "TLSChunkSize = 1200"

lemmas rel_consts = MaxAcksPerPacket_def MaxQueueSize_def MaxRxBuffer_def MaxRetransmits_def
  second_def millisecond_def InitialRetransmit_def MaxRetransmit_def AckFlushDelay_def
  FastRetransmitThreshold_def TLSChunkSize_def

datatype rel_error =
    ErrClosed
  | ErrTooManyRetransmits
  | ErrQueueFull
  | ErrSessionIDMismatch
  | NotControlOpcode
  | IoEOF
  | DeadlineExceeded
  | CloseCause string

record OutPacket =
  op_Opcode :: opcode
  op_KeyID :: u8
  op_SessionID :: u64
  op_Payload :: ControlPayload
  op_Ack :: AckPayload

definition IsAck :: "OutPacket \<Rightarrow> bool" where
  "IsAck o' \<longleftrightarrow> op_Opcode o' = PAckV1"

record InPacket =
  ip_Opcode :: opcode
  ip_KeyID :: u8
  ip_SessionID :: u64
  ip_Payload :: ControlPayload
  ip_Ack :: AckPayload

text \<open>The zero values of the two payload structs.\<close>

definition zero_payload :: ControlPayload where
  "zero_payload = \<lparr>cp_Acks = [], cp_RemoteSessionID = 0, cp_MessagePID = 0, cp_Body = []\<rparr>"

definition zero_ack :: AckPayload where
  "zero_ack = \<lparr>ap_Acks = [], ap_RemoteSessionID = 0\<rparr>"

record pendingPkt =
  pp_msgPID :: u32
  pp_opcode :: opcode
  pp_body :: bytes
  pp_sentAt :: int
  pp_attempts :: nat
  pp_higherACKs :: nat

record Layer =
  ly_LocalSessionID :: u64
  ly_OutboundBuffer :: nat
  ly_keyID :: u8
  ly_remoteSessionID :: u64
  ly_remoteKnown :: bool
  ly_nextTxPID :: u32
  ly_txQueue :: "(u32 \<times> pendingPkt) list"
  ly_nextRxPID :: u32
  ly_rxBuffer :: "(u32 \<times> bytes) list"
  ly_pendingAcks :: "u32 list"
  ly_pendingAckSet :: "u32 set"
  ly_ackPendingSince :: "int option"
  ly_readBuf :: bytes
  ly_readClosed :: bool
  ly_readErr :: "rel_error option"
  ly_outbound :: "OutPacket list"
  ly_closed :: bool

record LayerConfig =
  lc_LocalSessionID :: u64
  lc_InitialKeyID :: u8
  lc_OutboundBuffer :: int

section \<open>Operations\<close>

definition New :: "LayerConfig \<Rightarrow> Layer" where
  "New cfg = \<lparr>ly_LocalSessionID = lc_LocalSessionID cfg,
     ly_OutboundBuffer = nat (if lc_OutboundBuffer cfg \<le> 0 then 64 else lc_OutboundBuffer cfg),
     ly_keyID = lc_InitialKeyID cfg, ly_remoteSessionID = 0, ly_remoteKnown = False,
     ly_nextTxPID = 0, ly_txQueue = [], ly_nextRxPID = 0, ly_rxBuffer = [],
     ly_pendingAcks = [], ly_pendingAckSet = {}, ly_ackPendingSince = None,
     ly_readBuf = [], ly_readClosed = False, ly_readErr = None, ly_outbound = [], ly_closed = False\<rparr>"

definition SetKeyID :: "u8 \<Rightarrow> Layer \<Rightarrow> Layer" where
  "SetKeyID k l = l\<lparr>ly_keyID := k\<rparr>"

definition Layer_KeyID :: "Layer \<Rightarrow> u8" where
  "Layer_KeyID l = ly_keyID l"

definition RemoteSessionID :: "Layer \<Rightarrow> u64 \<times> bool" where
  "RemoteSessionID l = (ly_remoteSessionID l, ly_remoteKnown l)"

definition SetRemoteSessionID :: "u64 \<Rightarrow> Layer \<Rightarrow> Layer" where
  "SetRemoteSessionID sid l = l\<lparr>ly_remoteSessionID := sid, ly_remoteKnown := True\<rparr>"

definition drainAcksLocked :: "nat \<Rightarrow> Layer \<Rightarrow> u32 list \<times> Layer" where
  "drainAcksLocked mx l =
     (if length (ly_pendingAcks l) = 0 then ([], l)
      else let n = min (length (ly_pendingAcks l)) mx;
               acks = take n (ly_pendingAcks l);
               l = l\<lparr>ly_pendingAckSet := ly_pendingAckSet l - set acks\<rparr>;
               l = l\<lparr>ly_pendingAcks := drop n (ly_pendingAcks l)\<rparr>
           in (acks, if length (ly_pendingAcks l) = 0 then l\<lparr>ly_ackPendingSince := None\<rparr> else l))"

definition emitLocked :: "int \<Rightarrow> opcode \<Rightarrow> u32 \<Rightarrow> bytes \<Rightarrow> Layer \<Rightarrow> Layer" where
  "emitLocked now opc msgPID body l =
     (let (acks, l) = drainAcksLocked MaxAcksPerPacket l;
          payload = \<lparr>cp_Acks = acks, cp_RemoteSessionID = ly_remoteSessionID l,
                     cp_MessagePID = msgPID, cp_Body = body\<rparr>;
          out = \<lparr>op_Opcode = opc, op_KeyID = ly_keyID l, op_SessionID = ly_LocalSessionID l,
                 op_Payload = payload, op_Ack = zero_ack\<rparr>
      in if length (ly_outbound l) < ly_OutboundBuffer l
         then l\<lparr>ly_outbound := ly_outbound l @ [out]\<rparr>
         else let l = l\<lparr>ly_pendingAcks := acks @ ly_pendingAcks l,
                        ly_pendingAckSet := ly_pendingAckSet l \<union> set acks\<rparr>
              in if ly_ackPendingSince l = None \<and> length (ly_pendingAcks l) > 0
                 then l\<lparr>ly_ackPendingSince := Some now\<rparr> else l)"

definition enqueueAndEmitLocked :: "int \<Rightarrow> opcode \<Rightarrow> bytes \<Rightarrow> Layer \<Rightarrow> rel_error option \<times> Layer" where
  "enqueueAndEmitLocked now opc body l =
     (if length (ly_txQueue l) \<ge> MaxQueueSize then (Some ErrQueueFull, l)
      else let pid = ly_nextTxPID l;
               l = l\<lparr>ly_nextTxPID := ly_nextTxPID l + 1\<rparr>;
               pkt = \<lparr>pp_msgPID = pid, pp_opcode = opc, pp_body = body, pp_sentAt = now,
                      pp_attempts = 1, pp_higherACKs = 0\<rparr>;
               l = l\<lparr>ly_txQueue := AList.update pid pkt (ly_txQueue l)\<rparr>
           in (None, emitLocked now opc pid body l))"

definition SendHardReset :: "int \<Rightarrow> opcode \<Rightarrow> Layer \<Rightarrow> rel_error option \<times> Layer" where
  "SendHardReset now opc l =
     (if ly_closed l then (Some ErrClosed, l)
      else if \<not> IsControl opc then (Some NotControlOpcode, l)
      else enqueueAndEmitLocked now opc [] l)"

definition SendSoftReset :: "int \<Rightarrow> u8 \<Rightarrow> Layer \<Rightarrow> rel_error option \<times> Layer" where
  "SendSoftReset now newKeyID l =
     (if ly_closed l then (Some ErrClosed, l)
      else let prev = ly_keyID l;
               l = l\<lparr>ly_keyID := newKeyID\<rparr>;
               (err, l) = enqueueAndEmitLocked now PControlSoftResetV1 [] l
           in (err, l\<lparr>ly_keyID := prev\<rparr>))"

definition emitStandaloneAckLocked :: "int \<Rightarrow> Layer \<Rightarrow> Layer" where
  "emitStandaloneAckLocked now l =
     (if length (ly_pendingAcks l) = 0 \<or> \<not> ly_remoteKnown l then l
      else let (acks, l) = drainAcksLocked MaxAcksPerPacket l;
               out = \<lparr>op_Opcode = PAckV1, op_KeyID = ly_keyID l, op_SessionID = ly_LocalSessionID l,
                      op_Payload = zero_payload,
                      op_Ack = \<lparr>ap_Acks = acks, ap_RemoteSessionID = ly_remoteSessionID l\<rparr>\<rparr>
           in if length (ly_outbound l) < ly_OutboundBuffer l
              then l\<lparr>ly_outbound := ly_outbound l @ [out]\<rparr>
              else let l = l\<lparr>ly_pendingAcks := acks @ ly_pendingAcks l,
                             ly_pendingAckSet := ly_pendingAckSet l \<union> set acks\<rparr>
                   in if ly_ackPendingSince l = None then l\<lparr>ly_ackPendingSince := Some now\<rparr> else l)"

definition bumpHigherACKsLocked :: "u32 \<Rightarrow> Layer \<Rightarrow> Layer" where
  "bumpHigherACKsLocked acked l =
     l\<lparr>ly_txQueue := map (\<lambda>(pid, pkt).
         (pid, if pid < acked then pkt\<lparr>pp_higherACKs := pp_higherACKs pkt + 1\<rparr> else pkt)) (ly_txQueue l)\<rparr>"

definition addPendingAckLocked :: "int \<Rightarrow> u32 \<Rightarrow> Layer \<Rightarrow> Layer" where
  "addPendingAckLocked now msgPID l =
     (if msgPID \<in> ly_pendingAckSet l then l
      else let l = l\<lparr>ly_pendingAckSet := insert msgPID (ly_pendingAckSet l),
                     ly_pendingAcks := ly_pendingAcks l @ [msgPID]\<rparr>
           in if ly_ackPendingSince l = None then l\<lparr>ly_ackPendingSince := Some now\<rparr> else l)"

definition appendReadLocked :: "bytes \<Rightarrow> Layer \<Rightarrow> Layer" where
  "appendReadLocked body l = (if length body = 0 then l else l\<lparr>ly_readBuf := ly_readBuf l @ body\<rparr>)"

text \<open>The ack loop: remove the acknowledged packet, credit every lower one still pending.\<close>

definition handle_ack :: "u32 \<Rightarrow> Layer \<Rightarrow> Layer" where
  "handle_ack ack l = bumpHigherACKsLocked ack (l\<lparr>ly_txQueue := AList.delete ack (ly_txQueue l)\<rparr>)"

definition handle_acks :: "u32 list \<Rightarrow> Layer \<Rightarrow> Layer" where
  "handle_acks acks l = fold handle_ack acks l"

text \<open>The delivery loop: hand over contiguous buffered packets while the next one is there.\<close>

function drain_rx :: "Layer \<Rightarrow> Layer" where
  "drain_rx l =
     (case map_of (ly_rxBuffer l) (ly_nextRxPID l) of
        None \<Rightarrow> l
      | Some body \<Rightarrow>
          drain_rx (appendReadLocked body (l\<lparr>ly_rxBuffer := AList.delete (ly_nextRxPID l) (ly_rxBuffer l)\<rparr>)
                     \<lparr>ly_nextRxPID := ly_nextRxPID l + 1\<rparr>))"
  by pat_completeness auto

termination
  by (relation "measure (\<lambda>l. length (ly_rxBuffer l))")
     (auto simp: appendReadLocked_def length_delete_less)

declare drain_rx.simps [simp del]

definition HandleInbound :: "int \<Rightarrow> InPacket \<Rightarrow> Layer \<Rightarrow> rel_error option \<times> Layer" where
  "HandleInbound now pkt l =
     (if ly_closed l then (Some ErrClosed, l)
      else if ly_remoteKnown l \<and> ip_SessionID pkt \<noteq> ly_remoteSessionID l then (Some ErrSessionIDMismatch, l)
      else
        let l = (if \<not> ly_remoteKnown l
                 then l\<lparr>ly_remoteSessionID := ip_SessionID pkt, ly_remoteKnown := True\<rparr> else l)
        in if ip_Opcode pkt = PAckV1 then (None, handle_acks (ap_Acks (ip_Ack pkt)) l)
           else
             let l = handle_acks (cp_Acks (ip_Payload pkt)) l;
                 msgPID = cp_MessagePID (ip_Payload pkt)
             in if msgPID < ly_nextRxPID l then (None, addPendingAckLocked now msgPID l)
                else if map_of (ly_rxBuffer l) msgPID \<noteq> None then (None, addPendingAckLocked now msgPID l)
                else if msgPID = ly_nextRxPID l then
                  let l = appendReadLocked (cp_Body (ip_Payload pkt)) l;
                      l = l\<lparr>ly_nextRxPID := ly_nextRxPID l + 1\<rparr>;
                      l = drain_rx l
                  in (None, addPendingAckLocked now msgPID l)
                else if msgPID - ly_nextRxPID l \<ge> MaxRxBuffer then (None, l)
                else
                  let l = l\<lparr>ly_rxBuffer := AList.update msgPID (cp_Body (ip_Payload pkt)) (ly_rxBuffer l)\<rparr>
                  in (None, addPendingAckLocked now msgPID l))"

datatype read_outcome = ReadWait | ReadDone bytes | ReadError rel_error

text \<open>\<open>Read n\<close> for a buffer of \<open>n\<close> bytes; \<open>ReadWait\<close> is the wait for data.\<close>

definition Read :: "nat \<Rightarrow> Layer \<Rightarrow> read_outcome \<times> Layer" where
  "Read n l =
     (if length (ly_readBuf l) = 0 then
        if ly_closed l \<or> ly_readClosed l
        then (case ly_readErr l of Some e \<Rightarrow> (ReadError e, l) | None \<Rightarrow> (ReadError IoEOF, l))
        else (ReadWait, l)
      else (ReadDone (take n (ly_readBuf l)), l\<lparr>ly_readBuf := drop n (ly_readBuf l)\<rparr>))"

datatype write_outcome =
    WaitRemote
  | WaitQueue nat bytes
  | WriteDone nat "rel_error option"

text \<open>
  The chunk loop of \<^verbatim>\<open>Write\<close>. \<open>WaitQueue written rest\<close> is the wait on a full queue; waking up
  re-enters the loop with the same \<open>written\<close> and \<open>rest\<close>.
\<close>

function write_loop :: "int \<Rightarrow> nat \<Rightarrow> bytes \<Rightarrow> Layer \<Rightarrow> write_outcome \<times> Layer" where
  "write_loop now written p l =
     (if length p = 0 then (WriteDone written None, l)
      else if ly_closed l then
        (if written > 0 then WriteDone written None else WriteDone 0 (Some ErrClosed), l)
      else if length (ly_txQueue l) \<ge> MaxQueueSize then (WaitQueue written p, l)
      else let chunk = (if length p > TLSChunkSize then take TLSChunkSize p else p)
           in case enqueueAndEmitLocked now PControlV1 chunk l of
                (Some e, l) \<Rightarrow> (WriteDone written (Some e), l)
              | (None, l) \<Rightarrow> write_loop now (written + length chunk) (drop (length chunk) p) l)"
  by pat_completeness auto
termination
  by (relation "measure (\<lambda>(now, written, p, l). length p)") (auto simp: TLSChunkSize_def)

declare write_loop.simps [simp del]

definition Write :: "int \<Rightarrow> bytes \<Rightarrow> Layer \<Rightarrow> write_outcome \<times> Layer" where
  "Write now p l =
     (if \<not> ly_remoteKnown l \<and> \<not> ly_closed l \<and> \<not> ly_readClosed l then (WaitRemote, l)
      else if \<not> ly_remoteKnown l \<and> ly_readClosed l \<and> \<not> ly_closed l then
        (WriteDone 0 (Some (case ly_readErr l of Some e \<Rightarrow> e | None \<Rightarrow> ErrClosed)), l)
      else write_loop now 0 p l)"

definition CloseRead :: "rel_error option \<Rightarrow> Layer \<Rightarrow> Layer" where
  "CloseRead err l =
     (let l = l\<lparr>ly_readClosed := True\<rparr>
      in case err of None \<Rightarrow> l | Some e \<Rightarrow> l\<lparr>ly_readErr := Some e\<rparr>)"

definition Close :: "Layer \<Rightarrow> Layer" where
  "Close l =
     (if ly_closed l then l
      else l\<lparr>ly_closed := True, ly_readClosed := True,
             ly_readErr := (if ly_readErr l = None then Some IoEOF else ly_readErr l)\<rparr>)"

definition backoff :: "nat \<Rightarrow> int" where
  "backoff attempts = min (InitialRetransmit * 2 ^ nat (min (int attempts - 1) 4)) MaxRetransmit"

definition due :: "int \<Rightarrow> pendingPkt \<Rightarrow> bool" where
  "due now pkt \<longleftrightarrow> pp_higherACKs pkt \<ge> FastRetransmitThreshold \<or>
     \<not> (now - pp_sentAt pkt < backoff (pp_attempts pkt))"

text \<open>
  The retransmit loop of \<open>Tick\<close> over the keys of \<open>txQueue\<close> in the given order; it stops at the
  first packet that has used up its attempts.
\<close>

fun tick_loop :: "int \<Rightarrow> u32 list \<Rightarrow> Layer \<Rightarrow> rel_error option \<times> Layer" where
  "tick_loop now [] l = (None, l)"
| "tick_loop now (k # ks) l =
     (case map_of (ly_txQueue l) k of
        None \<Rightarrow> tick_loop now ks l
      | Some pkt \<Rightarrow>
          if \<not> due now pkt then tick_loop now ks l
          else if pp_attempts pkt \<ge> MaxRetransmits then (Some ErrTooManyRetransmits, l)
          else
            let l = emitLocked now (pp_opcode pkt) (pp_msgPID pkt) (pp_body pkt) l;
                pkt' = pkt\<lparr>pp_attempts := pp_attempts pkt + 1, pp_sentAt := now, pp_higherACKs := 0\<rparr>
            in tick_loop now ks (l\<lparr>ly_txQueue := AList.update k pkt' (ly_txQueue l)\<rparr>))"

definition Tick :: "int \<Rightarrow> u32 list \<Rightarrow> Layer \<Rightarrow> rel_error option \<times> Layer" where
  "Tick now order l =
     (if ly_closed l then (Some ErrClosed, l)
      else case tick_loop now order l of
        (Some e, l) \<Rightarrow> (Some e, l)
      | (None, l) \<Rightarrow>
          if length (ly_pendingAcks l) > 0 \<and>
             (length (ly_pendingAcks l) \<ge> MaxAcksPerPacket \<or>
              (case ly_ackPendingSince l of None \<Rightarrow> False | Some t \<Rightarrow> now - t \<ge> AckFlushDelay))
          then (None, emitStandaloneAckLocked now l)
          else (None, l))"

definition PendingAcks :: "Layer \<Rightarrow> nat" where
  "PendingAcks l = length (ly_pendingAcks l)"

definition QueueLen :: "Layer \<Rightarrow> nat" where
  "QueueLen l = length (ly_txQueue l)"

text \<open>The orchestrator takes the oldest packet off the outbound channel.\<close>

definition take_outbound :: "Layer \<Rightarrow> OutPacket option \<times> Layer" where
  "take_outbound l = (case ly_outbound l of [] \<Rightarrow> (None, l) | o' # os \<Rightarrow> (Some o', l\<lparr>ly_outbound := os\<rparr>))"

section \<open>The layer's invariant\<close>

text \<open>
  Four groups of facts: the transmit queue (at most twelve entries, one per message id, between
  one and eight attempts each), the pending acknowledgements (the set mirrors the list, no
  duplicates, a timer exactly when there are some, none before the peer is known), the receive
  buffer (only ids in the window above the next expected one) and the outbound channel (never
  over its capacity, at most eight acknowledgements per packet, always the local session-id).
\<close>

definition tx_inv :: "Layer \<Rightarrow> bool" where
  "tx_inv l \<longleftrightarrow> length (ly_txQueue l) \<le> MaxQueueSize \<and> distinct (map fst (ly_txQueue l)) \<and>
     (\<forall>(k, pkt) \<in> set (ly_txQueue l). pp_msgPID pkt = k \<and> 1 \<le> pp_attempts pkt \<and> pp_attempts pkt \<le> MaxRetransmits)"

definition ack_inv :: "Layer \<Rightarrow> bool" where
  "ack_inv l \<longleftrightarrow> distinct (ly_pendingAcks l) \<and> ly_pendingAckSet l = set (ly_pendingAcks l) \<and>
     (ly_ackPendingSince l = None \<longleftrightarrow> ly_pendingAcks l = []) \<and>
     (ly_pendingAcks l \<noteq> [] \<longrightarrow> ly_remoteKnown l)"

definition rx_window :: "u32 \<Rightarrow> (u32 \<times> bytes) list \<Rightarrow> bool" where
  "rx_window n buf \<longleftrightarrow> distinct (map fst buf) \<and>
     (\<forall>k \<in> fst ` set buf. unat n \<le> unat k \<and> unat k < unat n + unat MaxRxBuffer)"

definition rx_inv :: "Layer \<Rightarrow> bool" where
  "rx_inv l \<longleftrightarrow> rx_window (ly_nextRxPID l) (ly_rxBuffer l) \<and> ly_nextRxPID l \<notin> fst ` set (ly_rxBuffer l)"

definition out_acks :: "OutPacket \<Rightarrow> u32 list" where
  "out_acks o' = (if IsAck o' then ap_Acks (op_Ack o') else cp_Acks (op_Payload o'))"

definition out_inv :: "Layer \<Rightarrow> bool" where
  "out_inv l \<longleftrightarrow> length (ly_outbound l) \<le> ly_OutboundBuffer l \<and>
     (\<forall>o' \<in> set (ly_outbound l). length (out_acks o') \<le> MaxAcksPerPacket \<and> op_SessionID o' = ly_LocalSessionID l)"

definition close_inv :: "Layer \<Rightarrow> bool" where
  "close_inv l \<longleftrightarrow> (ly_closed l \<longrightarrow> ly_readClosed l \<and> ly_readErr l \<noteq> None)"

definition layer_inv :: "Layer \<Rightarrow> bool" where
  "layer_inv l \<longleftrightarrow> tx_inv l \<and> ack_inv l \<and> rx_inv l \<and> out_inv l \<and> close_inv l"

lemmas inv_defs = tx_inv_def ack_inv_def rx_inv_def rx_window_def out_inv_def close_inv_def

subsection \<open>Association lists as Go maps\<close>

lemma set_drop_take: "set (drop n xs) \<union> set (take n xs) = set xs"
  by (metis append_take_drop_id set_append sup_commute)

subsection \<open>Emitting packets\<close>

lemma drainAcks_eq:
  "ack_inv l \<Longrightarrow> drainAcksLocked m l =
     (take m (ly_pendingAcks l),
      l\<lparr>ly_pendingAckSet := set (drop m (ly_pendingAcks l)), ly_pendingAcks := drop m (ly_pendingAcks l),
        ly_ackPendingSince := if length (ly_pendingAcks l) \<le> m then None else ly_ackPendingSince l\<rparr>)"
proof (cases "ly_pendingAcks l = []")
  case True
  assume "ack_inv l"
  with True show ?thesis by (cases l) (simp add: drainAcksLocked_def ack_inv_def)
next
  case False
  assume inv: "ack_inv l"
  have "set (ly_pendingAcks l) - set (take m (ly_pendingAcks l)) = set (drop m (ly_pendingAcks l))"
  proof -
    have "distinct (take m (ly_pendingAcks l) @ drop m (ly_pendingAcks l))"
      using inv by (simp add: ack_inv_def)
    then have "set (take m (ly_pendingAcks l)) \<inter> set (drop m (ly_pendingAcks l)) = {}"
      by (simp only: distinct_append)
    moreover have "set (ly_pendingAcks l) = set (take m (ly_pendingAcks l)) \<union> set (drop m (ly_pendingAcks l))"
      by (metis append_take_drop_id set_append)
    ultimately show ?thesis by blast
  qed
  then show ?thesis
    using False inv by (simp add: drainAcksLocked_def ack_inv_def Let_def min_def take_all drop_all)
qed

lemma ack_timer: "ack_inv l \<Longrightarrow> ly_ackPendingSince l = None \<longleftrightarrow> ly_pendingAcks l = []"
  by (simp add: ack_inv_def)

text \<open>The packet \<open>emitLocked\<close> builds, and what the call does with and without room for it.\<close>

definition control_out :: "opcode \<Rightarrow> u32 \<Rightarrow> bytes \<Rightarrow> Layer \<Rightarrow> OutPacket" where
  "control_out opc pid body l =
     \<lparr>op_Opcode = opc, op_KeyID = ly_keyID l, op_SessionID = ly_LocalSessionID l,
      op_Payload = \<lparr>cp_Acks = take MaxAcksPerPacket (ly_pendingAcks l), cp_RemoteSessionID = ly_remoteSessionID l,
                    cp_MessagePID = pid, cp_Body = body\<rparr>,
      op_Ack = zero_ack\<rparr>"

definition ack_out :: "Layer \<Rightarrow> OutPacket" where
  "ack_out l =
     \<lparr>op_Opcode = PAckV1, op_KeyID = ly_keyID l, op_SessionID = ly_LocalSessionID l, op_Payload = zero_payload,
      op_Ack = \<lparr>ap_Acks = take MaxAcksPerPacket (ly_pendingAcks l), ap_RemoteSessionID = ly_remoteSessionID l\<rparr>\<rparr>"

definition after_drain :: "OutPacket \<Rightarrow> Layer \<Rightarrow> Layer" where
  "after_drain o' l = l\<lparr>ly_outbound := ly_outbound l @ [o'],
     ly_pendingAckSet := set (drop MaxAcksPerPacket (ly_pendingAcks l)),
     ly_pendingAcks := drop MaxAcksPerPacket (ly_pendingAcks l),
     ly_ackPendingSince :=
       if length (ly_pendingAcks l) \<le> MaxAcksPerPacket then None else ly_ackPendingSince l\<rparr>"

definition restart_timer :: "int \<Rightarrow> Layer \<Rightarrow> Layer" where
  "restart_timer now l = l\<lparr>ly_ackPendingSince :=
     if ly_pendingAcks l \<noteq> [] \<and> length (ly_pendingAcks l) \<le> MaxAcksPerPacket then Some now
     else ly_ackPendingSince l\<rparr>"

lemma emitLocked_eq:
  "ack_inv l \<Longrightarrow> emitLocked now opc pid body l =
     (if length (ly_outbound l) < ly_OutboundBuffer l then after_drain (control_out opc pid body l) l
      else restart_timer now l)"
  by (cases l)
     (auto simp: emitLocked_def drainAcks_eq control_out_def after_drain_def restart_timer_def Let_def ack_inv_def
       set_drop_take)

lemma emitStandaloneAck_eq:
  "ack_inv l \<Longrightarrow> emitStandaloneAckLocked now l =
     (if ly_pendingAcks l = [] then l
      else if length (ly_outbound l) < ly_OutboundBuffer l then after_drain (ack_out l) l
      else restart_timer now l)"
  by (cases l)
     (auto simp: emitStandaloneAckLocked_def drainAcks_eq ack_out_def after_drain_def restart_timer_def Let_def
       ack_inv_def set_drop_take)

lemma after_drain_frame [simp]:
  "ly_txQueue (after_drain o' l) = ly_txQueue l" "ly_nextTxPID (after_drain o' l) = ly_nextTxPID l"
  "ly_nextRxPID (after_drain o' l) = ly_nextRxPID l" "ly_rxBuffer (after_drain o' l) = ly_rxBuffer l"
  "ly_readBuf (after_drain o' l) = ly_readBuf l" "ly_closed (after_drain o' l) = ly_closed l"
  "ly_readClosed (after_drain o' l) = ly_readClosed l" "ly_readErr (after_drain o' l) = ly_readErr l"
  "ly_remoteKnown (after_drain o' l) = ly_remoteKnown l" "ly_remoteSessionID (after_drain o' l) = ly_remoteSessionID l"
  "ly_outbound (after_drain o' l) = ly_outbound l @ [o']" "ly_OutboundBuffer (after_drain o' l) = ly_OutboundBuffer l"
  "ly_LocalSessionID (after_drain o' l) = ly_LocalSessionID l" "ly_keyID (after_drain o' l) = ly_keyID l"
  "ly_pendingAcks (after_drain o' l) = drop MaxAcksPerPacket (ly_pendingAcks l)"
  by (simp_all add: after_drain_def)

lemma restart_timer_frame [simp]:
  "ly_txQueue (restart_timer now l) = ly_txQueue l" "ly_nextTxPID (restart_timer now l) = ly_nextTxPID l"
  "ly_nextRxPID (restart_timer now l) = ly_nextRxPID l" "ly_rxBuffer (restart_timer now l) = ly_rxBuffer l"
  "ly_readBuf (restart_timer now l) = ly_readBuf l" "ly_closed (restart_timer now l) = ly_closed l"
  "ly_readClosed (restart_timer now l) = ly_readClosed l" "ly_readErr (restart_timer now l) = ly_readErr l"
  "ly_remoteKnown (restart_timer now l) = ly_remoteKnown l" "ly_remoteSessionID (restart_timer now l) = ly_remoteSessionID l"
  "ly_outbound (restart_timer now l) = ly_outbound l" "ly_OutboundBuffer (restart_timer now l) = ly_OutboundBuffer l"
  "ly_LocalSessionID (restart_timer now l) = ly_LocalSessionID l" "ly_keyID (restart_timer now l) = ly_keyID l"
  "ly_pendingAcks (restart_timer now l) = ly_pendingAcks l"
  by (simp_all add: restart_timer_def)

lemma ack_inv_after_drain: "ack_inv l \<Longrightarrow> ack_inv (after_drain o' l)"
  by (auto simp: ack_inv_def after_drain_def)

lemma ack_inv_restart_timer: "ack_inv l \<Longrightarrow> ack_inv (restart_timer now l)"
  by (auto simp: ack_inv_def restart_timer_def)

lemma layer_inv_after_drain:
  "layer_inv l \<Longrightarrow> length (ly_outbound l) < ly_OutboundBuffer l \<Longrightarrow> op_SessionID o' = ly_LocalSessionID l \<Longrightarrow>
     length (out_acks o') \<le> MaxAcksPerPacket \<Longrightarrow> layer_inv (after_drain o' l)"
  using ack_inv_after_drain [of l o'] by (auto simp: layer_inv_def tx_inv_def rx_inv_def out_inv_def close_inv_def)

lemma layer_inv_restart_timer: "layer_inv l \<Longrightarrow> layer_inv (restart_timer now l)"
  using ack_inv_restart_timer [of l now] by (auto simp: layer_inv_def tx_inv_def rx_inv_def out_inv_def close_inv_def)

lemma out_acks_built [simp]:
  "length (out_acks (control_out opc pid body l)) \<le> MaxAcksPerPacket"
  "out_acks (ack_out l) = take MaxAcksPerPacket (ly_pendingAcks l)"
  "op_SessionID (control_out opc pid body l) = ly_LocalSessionID l" "op_SessionID (ack_out l) = ly_LocalSessionID l"
  by (simp_all add: out_acks_def control_out_def ack_out_def IsAck_def zero_ack_def)

lemma layer_inv_emit: "layer_inv l \<Longrightarrow> layer_inv (emitLocked now opc pid body l)"
  by (subst emitLocked_eq) (auto simp: layer_inv_def [THEN iffD1] layer_inv_after_drain layer_inv_restart_timer)

lemma layer_inv_emitStandaloneAck: "layer_inv l \<Longrightarrow> layer_inv (emitStandaloneAckLocked now l)"
  by (subst emitStandaloneAck_eq) (auto simp: layer_inv_def [THEN iffD1] layer_inv_after_drain layer_inv_restart_timer)

subsection \<open>Every operation keeps the invariant\<close>

lemma layer_inv_New: "layer_inv (New cfg)"
  by (simp add: layer_inv_def New_def inv_defs)

lemma layer_inv_enqueue:
  assumes "layer_inv l"
  shows "layer_inv (snd (enqueueAndEmitLocked now opc body l))"
proof (cases "length (ly_txQueue l) \<ge> MaxQueueSize")
  case True
  then show ?thesis using assms by (simp add: enqueueAndEmitLocked_def)
next
  case False
  let ?pkt = "\<lparr>pp_msgPID = ly_nextTxPID l, pp_opcode = opc, pp_body = body, pp_sentAt = now,
    pp_attempts = 1, pp_higherACKs = 0\<rparr>"
  let ?l = "l\<lparr>ly_nextTxPID := ly_nextTxPID l + 1, ly_txQueue := AList.update (ly_nextTxPID l) ?pkt (ly_txQueue l)\<rparr>"
  have "tx_inv l" using assms by (simp add: layer_inv_def)
  then have "tx_inv ?l"
    using False length_update_le [of "ly_nextTxPID l" ?pkt "ly_txQueue l"]
    by (auto simp: tx_inv_def set_update_distinct distinct_update MaxRetransmits_def)
  then have "layer_inv ?l"
    using assms by (simp add: layer_inv_def ack_inv_def rx_inv_def out_inv_def close_inv_def)
  then show ?thesis
    using False by (simp add: enqueueAndEmitLocked_def Let_def layer_inv_emit)
qed

text \<open>The effect of a list of acknowledgements on the transmit queue.\<close>

definition bump_queue :: "u32 \<Rightarrow> (u32 \<times> pendingPkt) list \<Rightarrow> (u32 \<times> pendingPkt) list" where
  "bump_queue acked q = map (\<lambda>(pid, pkt).
     (pid, if pid < acked then pkt\<lparr>pp_higherACKs := pp_higherACKs pkt + 1\<rparr> else pkt)) q"

definition ack_queue :: "u32 list \<Rightarrow> (u32 \<times> pendingPkt) list \<Rightarrow> (u32 \<times> pendingPkt) list" where
  "ack_queue acks q = fold (\<lambda>a q. bump_queue a (AList.delete a q)) acks q"

lemma ack_queue_simps [simp]:
  "ack_queue [] q = q" "ack_queue (a # acks) q = ack_queue acks (bump_queue a (AList.delete a q))"
  by (simp_all add: ack_queue_def)

lemma handle_acks_eq: "handle_acks acks l = l\<lparr>ly_txQueue := ack_queue acks (ly_txQueue l)\<rparr>"
proof (induction acks arbitrary: l)
  case Nil
  then show ?case by (simp add: handle_acks_def)
next
  case (Cons a acks)
  then show ?case by (simp add: handle_acks_def handle_ack_def bumpHigherACKsLocked_def bump_queue_def)
qed

lemma bump_queue_keys [simp]: "map fst (bump_queue a q) = map fst q" "length (bump_queue a q) = length q"
  by (simp_all add: bump_queue_def case_prod_unfold comp_def)

lemma bump_queue_mem:
  "(k, pkt) \<in> set (bump_queue a q) \<Longrightarrow>
     \<exists>h. (k, pkt\<lparr>pp_higherACKs := h\<rparr>) \<in> set q"
  by (auto simp: bump_queue_def split: if_splits intro: exI [of _ "pp_higherACKs _"])
     (metis pendingPkt.surjective pendingPkt.update_convs(6))+

lemma length_delete_alist_le: "length (AList.delete k xs) \<le> length xs"
  by (simp add: AList.delete_eq)

lemma ack_queue_distinct: "distinct (map fst q) \<Longrightarrow> distinct (map fst (ack_queue acks q))"
  by (induction acks arbitrary: q) (simp_all add: distinct_delete_keys)

lemma ack_queue_length: "length (ack_queue acks q) \<le> length q"
  by (induction acks arbitrary: q) (simp, metis ack_queue_simps(2) bump_queue_keys(2) le_trans length_delete_alist_le)

lemma ack_queue_keys: "fst ` set (ack_queue acks q) = fst ` set q - set acks"
proof (induction acks arbitrary: q)
  case Nil
  then show ?case by simp
next
  case (Cons a acks)
  have "fst ` set (bump_queue a (AList.delete a q)) = fst ` set q - {a}"
    by (metis bump_queue_keys(1) keys_delete set_map)
  then show ?case using Cons.IH [of "bump_queue a (AList.delete a q)"] by auto
qed

lemma ack_queue_mem: "(k, pkt) \<in> set (ack_queue acks q) \<Longrightarrow> \<exists>h. (k, pkt\<lparr>pp_higherACKs := h\<rparr>) \<in> set q"
proof (induction acks arbitrary: q)
  case Nil
  then show ?case by (auto intro: exI [of _ "pp_higherACKs pkt"])
next
  case (Cons a acks)
  then obtain h where "(k, pkt\<lparr>pp_higherACKs := h\<rparr>) \<in> set (bump_queue a (AList.delete a q))"
    by fastforce
  then show ?case
    using bump_queue_mem [of k "pkt\<lparr>pp_higherACKs := h\<rparr>" a "AList.delete a q"] by (auto simp: set_delete)
qed

lemma layer_inv_handle_acks:
  assumes "layer_inv l"
  shows "layer_inv (handle_acks acks l)"
proof -
  have q: "length (ly_txQueue l) \<le> MaxQueueSize" "distinct (map fst (ly_txQueue l))"
    "\<forall>(k, pkt) \<in> set (ly_txQueue l). pp_msgPID pkt = k \<and> 1 \<le> pp_attempts pkt \<and> pp_attempts pkt \<le> MaxRetransmits"
    using assms by (auto simp: layer_inv_def tx_inv_def)
  have "tx_inv (handle_acks acks l)"
    using q(1) ack_queue_distinct [OF q(2), of acks] ack_queue_length [of acks "ly_txQueue l"]
    by (auto simp: tx_inv_def handle_acks_eq dest!: ack_queue_mem q(3) [rule_format])
  then show ?thesis
    using assms by (simp add: layer_inv_def handle_acks_eq ack_inv_def rx_inv_def out_inv_def close_inv_def)
qed

lemma addPendingAck_frame [simp]:
  "ly_txQueue (addPendingAckLocked now p l) = ly_txQueue l" "ly_nextTxPID (addPendingAckLocked now p l) = ly_nextTxPID l"
  "ly_nextRxPID (addPendingAckLocked now p l) = ly_nextRxPID l" "ly_rxBuffer (addPendingAckLocked now p l) = ly_rxBuffer l"
  "ly_readBuf (addPendingAckLocked now p l) = ly_readBuf l" "ly_closed (addPendingAckLocked now p l) = ly_closed l"
  "ly_readClosed (addPendingAckLocked now p l) = ly_readClosed l" "ly_readErr (addPendingAckLocked now p l) = ly_readErr l"
  "ly_remoteKnown (addPendingAckLocked now p l) = ly_remoteKnown l"
  "ly_remoteSessionID (addPendingAckLocked now p l) = ly_remoteSessionID l"
  "ly_outbound (addPendingAckLocked now p l) = ly_outbound l"
  "ly_OutboundBuffer (addPendingAckLocked now p l) = ly_OutboundBuffer l"
  "ly_LocalSessionID (addPendingAckLocked now p l) = ly_LocalSessionID l"
  by (simp_all add: addPendingAckLocked_def Let_def)

lemma layer_inv_addPendingAck:
  "layer_inv l \<Longrightarrow> ly_remoteKnown l \<Longrightarrow> layer_inv (addPendingAckLocked now p l)"
  unfolding layer_inv_def tx_inv_def rx_inv_def out_inv_def close_inv_def
  by (auto simp: ack_inv_def addPendingAckLocked_def Let_def)

lemma appendRead_eq [simp]: "appendReadLocked body l = l\<lparr>ly_readBuf := ly_readBuf l @ body\<rparr>"
  by (simp add: appendReadLocked_def)

lemma drain_rx_induct [case_names step]:
  fixes P :: "Layer \<Rightarrow> bool"
  assumes "\<And>l. (\<And>body. map_of (ly_rxBuffer l) (ly_nextRxPID l) = Some body \<Longrightarrow>
      P (l\<lparr>ly_rxBuffer := AList.delete (ly_nextRxPID l) (ly_rxBuffer l), ly_readBuf := ly_readBuf l @ body,
           ly_nextRxPID := ly_nextRxPID l + 1\<rparr>)) \<Longrightarrow> P l"
  shows "P l"
proof (induction l rule: drain_rx.induct)
  case (1 l)
  show ?case
  proof (rule assms)
    fix body assume "map_of (ly_rxBuffer l) (ly_nextRxPID l) = Some body"
    from "1.IH" [OF this] show "P (l\<lparr>ly_rxBuffer := AList.delete (ly_nextRxPID l) (ly_rxBuffer l),
        ly_readBuf := ly_readBuf l @ body, ly_nextRxPID := ly_nextRxPID l + 1\<rparr>)" by simp
  qed
qed

lemma drain_rx_unfold:
  "drain_rx l = (case map_of (ly_rxBuffer l) (ly_nextRxPID l) of None \<Rightarrow> l
     | Some body \<Rightarrow> drain_rx (l\<lparr>ly_rxBuffer := AList.delete (ly_nextRxPID l) (ly_rxBuffer l),
         ly_readBuf := ly_readBuf l @ body, ly_nextRxPID := ly_nextRxPID l + 1\<rparr>))"
  by (subst drain_rx.simps) (simp split: option.splits)

text \<open>The delivery loop only moves the receive side.\<close>

lemma drain_rx_frame:
  "\<exists>buf rd n. drain_rx l = l\<lparr>ly_rxBuffer := buf, ly_readBuf := rd, ly_nextRxPID := n\<rparr>"
proof (induction l rule: drain_rx_induct)
  case (step l)
  show ?case
  proof (cases "map_of (ly_rxBuffer l) (ly_nextRxPID l)")
    case None
    then show ?thesis
      by (subst drain_rx_unfold)
         (auto intro!: exI [of _ "ly_rxBuffer l"] exI [of _ "ly_readBuf l"] exI [of _ "ly_nextRxPID l"])
  next
    case (Some body)
    then show ?thesis using step [OF Some] by (subst drain_rx_unfold) auto
  qed
qed

lemma rx_window_delete:
  assumes "rx_window n buf"
  shows "rx_window (n + 1) (AList.delete n buf)"
proof -
  have "unat (n + 1) \<le> unat k \<and> unat k < unat (n + 1) + unat MaxRxBuffer"
    if "k \<in> fst ` set buf" "k \<noteq> n" for k
  proof -
    have b: "unat n \<le> unat k" "unat k < unat n + unat MaxRxBuffer" using assms that(1) by (auto simp: rx_window_def)
    with that(2) have "unat n < unat k" by (metis le_neq_implies_less word_unat_eq_iff)
    moreover have "unat k < 2 ^ 32" using unsigned_less [where ?'a = nat, of k] by simp
    ultimately have "unat (n + 1) = unat n + 1" by (subst unat_add_lem [THEN iffD1]) auto
    with b \<open>unat n < unat k\<close> show ?thesis by simp
  qed
  then show ?thesis
    using assms unfolding rx_window_def keys_delete by (blast intro: distinct_delete_keys)
qed

lemma rx_inv_drain: "rx_window (ly_nextRxPID l) (ly_rxBuffer l) \<Longrightarrow> rx_inv (drain_rx l)"
proof (induction l rule: drain_rx_induct)
  case (step l)
  show ?case
  proof (cases "map_of (ly_rxBuffer l) (ly_nextRxPID l)")
    case None
    then have "drain_rx l = l" by (simp add: drain_rx_unfold [of l])
    then show ?thesis using None step.prems by (simp add: rx_inv_def map_of_None_keys)
  next
    case (Some body)
    then show ?thesis
      using step.IH [OF Some] rx_window_delete [OF step.prems] by (subst drain_rx_unfold) simp
  qed
qed

lemma layer_inv_drain:
  assumes "tx_inv l" "ack_inv l" "out_inv l" "close_inv l" "rx_window (ly_nextRxPID l) (ly_rxBuffer l)"
  shows "layer_inv (drain_rx l)"
proof -
  obtain buf rd n where "drain_rx l = l\<lparr>ly_rxBuffer := buf, ly_readBuf := rd, ly_nextRxPID := n\<rparr>"
    using drain_rx_frame by blast
  then show ?thesis
    using assms rx_inv_drain [OF assms(5)]
    by (simp add: layer_inv_def tx_inv_def ack_inv_def out_inv_def close_inv_def)
qed

lemma rx_window_next: "rx_inv l \<Longrightarrow> rx_window (ly_nextRxPID l + 1) (ly_rxBuffer l)"
  using rx_window_delete [of "ly_nextRxPID l" "ly_rxBuffer l"]
  by (simp add: rx_inv_def delete_id)

text \<open>The receive part of \<open>HandleInbound\<close>, once the peer is known.\<close>

definition receive :: "int \<Rightarrow> u32 \<Rightarrow> bytes \<Rightarrow> Layer \<Rightarrow> Layer" where
  "receive now msgPID body l =
     (if msgPID < ly_nextRxPID l then addPendingAckLocked now msgPID l
      else if map_of (ly_rxBuffer l) msgPID \<noteq> None then addPendingAckLocked now msgPID l
      else if msgPID = ly_nextRxPID l then
        addPendingAckLocked now msgPID
          (drain_rx (l\<lparr>ly_readBuf := ly_readBuf l @ body, ly_nextRxPID := ly_nextRxPID l + 1\<rparr>))
      else if msgPID - ly_nextRxPID l \<ge> MaxRxBuffer then l
      else addPendingAckLocked now msgPID (l\<lparr>ly_rxBuffer := AList.update msgPID body (ly_rxBuffer l)\<rparr>))"

definition learn_remote :: "u64 \<Rightarrow> Layer \<Rightarrow> Layer" where
  "learn_remote sid l =
     (if \<not> ly_remoteKnown l then l\<lparr>ly_remoteSessionID := sid, ly_remoteKnown := True\<rparr> else l)"

lemma HandleInbound_eq:
  "HandleInbound now pkt l =
     (if ly_closed l then (Some ErrClosed, l)
      else if ly_remoteKnown l \<and> ip_SessionID pkt \<noteq> ly_remoteSessionID l then (Some ErrSessionIDMismatch, l)
      else (None,
        if ip_Opcode pkt = PAckV1 then handle_acks (ap_Acks (ip_Ack pkt)) (learn_remote (ip_SessionID pkt) l)
        else receive now (cp_MessagePID (ip_Payload pkt)) (cp_Body (ip_Payload pkt))
               (handle_acks (cp_Acks (ip_Payload pkt)) (learn_remote (ip_SessionID pkt) l))))"
  unfolding HandleInbound_def receive_def learn_remote_def [symmetric] Let_def if_distrib [of "Pair None"]
  by (simp add: handle_acks_eq split del: if_split cong: if_cong)

lemma known_frame [simp]:
  "ly_remoteKnown (handle_acks acks l) = ly_remoteKnown l" "ly_remoteKnown (learn_remote sid l)"
  by (simp_all add: handle_acks_eq learn_remote_def)

lemma unat_window:
  assumes "n < (k :: u32)" "\<not> k - n \<ge> MaxRxBuffer"
  shows "unat n < unat k" "unat k < unat n + unat MaxRxBuffer"
  using assms by (auto simp: word_le_nat_alt word_less_nat_alt unat_sub_le order_less_imp_le)

lemma layer_inv_receive:
  assumes inv: "layer_inv l" and known: "ly_remoteKnown l"
  shows "layer_inv (receive now p body l)"
proof -
  consider "p < ly_nextRxPID l \<or> map_of (ly_rxBuffer l) p \<noteq> None"
    | "p = ly_nextRxPID l" "map_of (ly_rxBuffer l) p = None"
    | "ly_nextRxPID l < p" "map_of (ly_rxBuffer l) p = None" by force
  then show ?thesis
  proof cases
    case 1
    then show ?thesis using layer_inv_addPendingAck [OF inv known] by (auto simp: receive_def)
  next
    case 2
    let ?l = "l\<lparr>ly_readBuf := ly_readBuf l @ body, ly_nextRxPID := ly_nextRxPID l + 1\<rparr>"
    have "layer_inv (drain_rx ?l)"
      using inv rx_window_next [of l]
      by (intro layer_inv_drain)
         (simp_all add: layer_inv_def tx_inv_def ack_inv_def out_inv_def close_inv_def)
    moreover have "ly_remoteKnown (drain_rx ?l)" using drain_rx_frame [of ?l] known by auto
    ultimately show ?thesis using 2 by (simp add: receive_def layer_inv_addPendingAck)
  next
    case 3
    let ?l = "l\<lparr>ly_rxBuffer := AList.update p body (ly_rxBuffer l)\<rparr>"
    show ?thesis
    proof (cases "p - ly_nextRxPID l \<ge> MaxRxBuffer")
      case True
      then show ?thesis using 3 inv by (auto simp: receive_def)
    next
      case False
      have "rx_inv ?l"
        using inv unat_window [OF 3(1) False] 3(1)
        by (auto simp: layer_inv_def rx_inv_def rx_window_def keys_update distinct_update)
      then have "layer_inv ?l"
        using inv by (simp add: layer_inv_def tx_inv_def ack_inv_def out_inv_def close_inv_def)
      then show ?thesis using 3 False known by (simp add: receive_def layer_inv_addPendingAck)
    qed
  qed
qed

lemma layer_inv_learn_remote: "layer_inv l \<Longrightarrow> layer_inv (learn_remote sid l)"
  by (auto simp: layer_inv_def learn_remote_def tx_inv_def ack_inv_def rx_inv_def out_inv_def close_inv_def)

lemma layer_inv_HandleInbound: "layer_inv l \<Longrightarrow> layer_inv (snd (HandleInbound now pkt l))"
  by (simp add: HandleInbound_eq layer_inv_handle_acks layer_inv_learn_remote layer_inv_receive)

lemma layer_inv_update_keyID: "layer_inv (l\<lparr>ly_keyID := k\<rparr>) = layer_inv l"
  by (simp add: layer_inv_def inv_defs)

lemma layer_inv_update_readBuf: "layer_inv (l\<lparr>ly_readBuf := b\<rparr>) = layer_inv l"
  by (simp add: layer_inv_def inv_defs)

lemma layer_inv_Read: "layer_inv l \<Longrightarrow> layer_inv (snd (Read n l))"
  by (auto simp: Read_def layer_inv_update_readBuf split: option.splits)

lemma write_loop_unfold:
  "write_loop now written p l =
     (if p = [] then (WriteDone written None, l)
      else if ly_closed l then (if written > 0 then WriteDone written None else WriteDone 0 (Some ErrClosed), l)
      else if length (ly_txQueue l) \<ge> MaxQueueSize then (WaitQueue written p, l)
      else write_loop now (written + min TLSChunkSize (length p)) (drop TLSChunkSize p)
             (snd (enqueueAndEmitLocked now PControlV1 (take TLSChunkSize p) l)))"
proof -
  have "(if length p > TLSChunkSize then take TLSChunkSize p else p) = take TLSChunkSize p" by simp
  moreover have "drop (min (length p) TLSChunkSize) p = drop TLSChunkSize p" by (simp add: min_def)
  moreover have "fst (enqueueAndEmitLocked now PControlV1 c l) = None" if "\<not> length (ly_txQueue l) \<ge> MaxQueueSize" for c
    using that by (simp add: enqueueAndEmitLocked_def Let_def)
  ultimately show ?thesis
    by (subst write_loop.simps)
       (simp add: Let_def case_prod_unfold min.commute split del: if_split cong: if_cong)
qed

text \<open>Writing is a sequence of enqueued chunks: what holds before and after each holds at the end.\<close>

lemma write_loop_preserves:
  assumes "\<And>l c. P l \<Longrightarrow> P (snd (enqueueAndEmitLocked now PControlV1 c l))"
  shows "P l \<Longrightarrow> P (snd (write_loop now written p l))"
proof (induction "length p" arbitrary: written p l rule: less_induct)
  case less
  have "length (drop TLSChunkSize p) < length p" if "p \<noteq> []"
    using that by (simp add: TLSChunkSize_def)
  then show ?case
    using less.hyps [of "drop TLSChunkSize p"] less.prems assms by (subst write_loop_unfold) auto
qed

lemma layer_inv_write_loop: "layer_inv l \<Longrightarrow> layer_inv (snd (write_loop now written p l))"
  by (rule write_loop_preserves [where P = layer_inv]) (simp_all add: layer_inv_enqueue)

lemma layer_inv_Write: "layer_inv l \<Longrightarrow> layer_inv (snd (Write now p l))"
  by (simp add: Write_def layer_inv_write_loop)

text \<open>One retransmission of the loop, on a packet that is due and has attempts left.\<close>

definition resent :: "int \<Rightarrow> pendingPkt \<Rightarrow> pendingPkt" where
  "resent now pkt = pkt\<lparr>pp_attempts := pp_attempts pkt + 1, pp_sentAt := now, pp_higherACKs := 0\<rparr>"

definition retransmit :: "int \<Rightarrow> u32 \<Rightarrow> pendingPkt \<Rightarrow> Layer \<Rightarrow> Layer" where
  "retransmit now k pkt l =
     (let l' = emitLocked now (pp_opcode pkt) (pp_msgPID pkt) (pp_body pkt) l
      in l'\<lparr>ly_txQueue := AList.update k (resent now pkt) (ly_txQueue l')\<rparr>)"

lemma tick_loop_unfold:
  "tick_loop now (k # ks) l =
     (case map_of (ly_txQueue l) k of
        None \<Rightarrow> tick_loop now ks l
      | Some pkt \<Rightarrow>
          if \<not> due now pkt then tick_loop now ks l
          else if pp_attempts pkt \<ge> MaxRetransmits then (Some ErrTooManyRetransmits, l)
          else tick_loop now ks (retransmit now k pkt l))"
  by (simp add: retransmit_def resent_def Let_def split: option.split)

lemma retransmit_queue: "ack_inv l \<Longrightarrow> ly_txQueue (retransmit now k pkt l) = AList.update k (resent now pkt) (ly_txQueue l)"
  by (simp add: retransmit_def Let_def emitLocked_eq)

lemma retransmit_outbound:
  "ack_inv l \<Longrightarrow> ly_outbound (retransmit now k pkt l) = ly_outbound l @
     (if length (ly_outbound l) < ly_OutboundBuffer l
      then [control_out (pp_opcode pkt) (pp_msgPID pkt) (pp_body pkt) l] else [])"
  "ack_inv l \<Longrightarrow> ly_OutboundBuffer (retransmit now k pkt l) = ly_OutboundBuffer l"
  by (simp_all add: retransmit_def Let_def emitLocked_eq)

lemma layer_inv_retransmit:
  assumes inv: "layer_inv l" and k: "map_of (ly_txQueue l) k = Some pkt" and a: "pp_attempts pkt < MaxRetransmits"
  shows "layer_inv (retransmit now k pkt l)"
proof -
  let ?l = "emitLocked now (pp_opcode pkt) (pp_msgPID pkt) (pp_body pkt) l"
  have inv': "layer_inv ?l" and q: "ly_txQueue ?l = ly_txQueue l"
    using inv layer_inv_emit by (auto simp: layer_inv_def emitLocked_eq)
  have mem: "(k, pkt) \<in> set (ly_txQueue l)" using k by (rule map_of_SomeD)
  then have "k \<in> fst ` set (ly_txQueue l)" by force
  then have "tx_inv (?l\<lparr>ly_txQueue := AList.update k (resent now pkt) (ly_txQueue ?l)\<rparr>)"
    using inv mem a
    by (auto simp: q layer_inv_def tx_inv_def set_update_distinct distinct_update length_update_mem resent_def)
  then show ?thesis
    using inv' by (simp add: retransmit_def Let_def layer_inv_def ack_inv_def rx_inv_def out_inv_def close_inv_def)
qed

lemma tick_loop_preserves:
  assumes "\<And>l k pkt. P l \<Longrightarrow> map_of (ly_txQueue l) k = Some pkt \<Longrightarrow> pp_attempts pkt < MaxRetransmits \<Longrightarrow>
    P (retransmit now k pkt l)"
  shows "P l \<Longrightarrow> P (snd (tick_loop now ks l))"
  by (induction ks arbitrary: l)
     (auto simp: tick_loop_unfold assms simp del: tick_loop.simps(2) split: option.splits)

lemma layer_inv_tick_loop: "layer_inv l \<Longrightarrow> layer_inv (snd (tick_loop now ks l))"
  by (rule tick_loop_preserves [where P = layer_inv]) (simp_all add: layer_inv_retransmit)

lemma layer_inv_Tick: "layer_inv l \<Longrightarrow> layer_inv (snd (Tick now order l))"
  using layer_inv_tick_loop [of l now order]
  by (auto simp: Tick_def layer_inv_emitStandaloneAck split: prod.splits option.splits)

lemma layer_inv_CloseRead: "layer_inv l \<Longrightarrow> layer_inv (CloseRead err l)"
  by (cases err)
     (auto simp: CloseRead_def layer_inv_def tx_inv_def ack_inv_def rx_inv_def out_inv_def close_inv_def)

lemma layer_inv_Close: "layer_inv l \<Longrightarrow> layer_inv (Close l)"
  by (simp add: Close_def layer_inv_def inv_defs)

lemma layer_inv_resets:
  "layer_inv l \<Longrightarrow> layer_inv (snd (SendHardReset now opc l))"
  "layer_inv l \<Longrightarrow> layer_inv (snd (SendSoftReset now kid l))"
  by (simp_all add: SendHardReset_def SendSoftReset_def layer_inv_enqueue layer_inv_update_keyID case_prod_unfold Let_def)

lemma layer_inv_take: "layer_inv l \<Longrightarrow> layer_inv (snd (take_outbound l))"
  by (auto simp: take_outbound_def layer_inv_def inv_defs split: list.splits)

lemma layer_inv_SetRemote: "layer_inv l \<Longrightarrow> layer_inv (SetRemoteSessionID sid l)"
  by (simp add: SetRemoteSessionID_def layer_inv_def inv_defs)

section \<open>Reachable layers\<close>

text \<open>Every call another goroutine can make between two lock acquisitions, in any order.\<close>

datatype layer_op =
    OpSetKeyID u8
  | OpSetRemote u64
  | OpHardReset int opcode
  | OpSoftReset int u8
  | OpInbound int InPacket
  | OpRead nat
  | OpWrite int bytes
  | OpResume int nat bytes
  | OpTick int "u32 list"
  | OpTake
  | OpCloseRead "rel_error option"
  | OpClose

fun layer_step :: "layer_op \<Rightarrow> Layer \<Rightarrow> Layer" where
  "layer_step (OpSetKeyID k) l = SetKeyID k l"
| "layer_step (OpSetRemote sid) l = SetRemoteSessionID sid l"
| "layer_step (OpHardReset now opc) l = snd (SendHardReset now opc l)"
| "layer_step (OpSoftReset now k) l = snd (SendSoftReset now k l)"
| "layer_step (OpInbound now pkt) l = snd (HandleInbound now pkt l)"
| "layer_step (OpRead n) l = snd (Read n l)"
| "layer_step (OpWrite now p) l = snd (Write now p l)"
| "layer_step (OpResume now written p) l = snd (write_loop now written p l)"
| "layer_step (OpTick now order) l = snd (Tick now order l)"
| "layer_step OpTake l = snd (take_outbound l)"
| "layer_step (OpCloseRead err) l = CloseRead err l"
| "layer_step OpClose l = Close l"

inductive layer_reach :: "LayerConfig \<Rightarrow> Layer \<Rightarrow> bool" for cfg where
  init: "layer_reach cfg (New cfg)"
| step: "layer_reach cfg l \<Longrightarrow> layer_reach cfg (layer_step ev l)"

lemma layer_inv_step: "layer_inv l \<Longrightarrow> layer_inv (layer_step ev l)"
  by (cases ev)
     (simp_all add: SetKeyID_def layer_inv_update_keyID layer_inv_SetRemote layer_inv_resets layer_inv_HandleInbound
       layer_inv_Read layer_inv_Write layer_inv_write_loop layer_inv_Tick layer_inv_take layer_inv_CloseRead layer_inv_Close)

lemma layer_reach_inv: "layer_reach cfg l \<Longrightarrow> layer_inv l"
  by (induction rule: layer_reach.induct) (simp_all add: layer_inv_New layer_inv_step)

lemma rx_buffer_bound:
  assumes "rx_inv l"
  shows "length (ly_rxBuffer l) \<le> 63"
proof -
  let ?n = "unat (ly_nextRxPID l)"
  have sub: "unat ` fst ` set (ly_rxBuffer l) \<subseteq> {?n + 1..<?n + 64}"
  proof
    fix x assume "x \<in> unat ` fst ` set (ly_rxBuffer l)"
    then obtain k where k: "x = unat k" "k \<in> fst ` set (ly_rxBuffer l)" by auto
    moreover have "k \<noteq> ly_nextRxPID l" using k(2) assms by (metis rx_inv_def)
    then have "unat k \<noteq> ?n" by (simp add: word_unat_eq_iff)
    moreover have "?n \<le> unat k" "unat k < ?n + 64"
      using k(2) assms by (auto simp: rx_inv_def rx_window_def MaxRxBuffer_def)
    ultimately show "x \<in> {?n + 1..<?n + 64}" by auto
  qed
  have "card (unat ` fst ` set (ly_rxBuffer l)) = card (fst ` set (ly_rxBuffer l))"
    by (intro card_image inj_onI) (simp add: word_unat_eq_iff)
  also have "\<dots> = length (ly_rxBuffer l)"
    using assms distinct_card [of "map fst (ly_rxBuffer l)"] by (simp add: rx_inv_def rx_window_def)
  finally show ?thesis using card_mono [OF _ sub] by simp
qed

section \<open>Retransmission\<close>

lemma backoff_eq: "1 \<le> a \<Longrightarrow> backoff a = (if a \<le> 5 then second * 2 ^ (a - 1) else 16 * second)"
proof -
  assume a: "1 \<le> a"
  show ?thesis
  proof (cases "a \<le> 5")
    case True
    with a consider "a = 1" | "a = 2" | "a = 3" | "a = 4" | "a = 5" by linarith
    then show ?thesis by cases (simp_all add: backoff_def rel_consts)
  next
    case False
    then have "min (int a - 1) 4 = 4" by simp
    with False show ?thesis by (simp add: backoff_def rel_consts)
  qed
qed

lemma backoff_bounds: "1 \<le> a \<Longrightarrow> second \<le> backoff a \<and> backoff a \<le> 16 * second"
  by (auto simp: backoff_def rel_consts min_def)

text \<open>A packet that has used up its attempts, in any place of the queue, makes the loop fail.\<close>

definition exhausted :: "int \<Rightarrow> pendingPkt \<Rightarrow> bool" where
  "exhausted now pkt \<longleftrightarrow> due now pkt \<and> pp_attempts pkt \<ge> MaxRetransmits"

lemma resent_not_due: "\<not> due now (resent now pkt)" if "1 \<le> pp_attempts pkt"
  using that backoff_bounds [of "pp_attempts pkt + 1"] by (simp add: due_def resent_def rel_consts)

definition exhausted_at :: "int \<Rightarrow> Layer \<Rightarrow> u32 \<Rightarrow> bool" where
  "exhausted_at now l k \<longleftrightarrow> (\<exists>pkt. map_of (ly_txQueue l) k = Some pkt \<and> exhausted now pkt)"

lemma retransmit_lookup:
  "layer_inv l \<Longrightarrow> map_of (ly_txQueue (retransmit now k pkt l)) = (map_of (ly_txQueue l))(k \<mapsto> resent now pkt)"
  by (simp add: layer_inv_def retransmit_queue update_conv')

text \<open>The three ways the loop treats its first key.\<close>

lemma tick_loop_cases:
  assumes "layer_inv l"
  obtains (skip) "tick_loop now (k # ks) l = tick_loop now ks l"
      "\<forall>pkt. map_of (ly_txQueue l) k = Some pkt \<longrightarrow> \<not> due now pkt"
    | (fail) "tick_loop now (k # ks) l = (Some ErrTooManyRetransmits, l)" "exhausted_at now l k"
    | (resend) pkt where "tick_loop now (k # ks) l = tick_loop now ks (retransmit now k pkt l)"
      "map_of (ly_txQueue l) k = Some pkt" "due now pkt" "\<not> exhausted_at now l k"
      "layer_inv (retransmit now k pkt l)" "pp_msgPID pkt = k"
proof (cases "map_of (ly_txQueue l) k")
  case None
  then show ?thesis by (intro skip) simp_all
next
  case (Some pkt)
  then have "(k, pkt) \<in> set (ly_txQueue l)" by (rule map_of_SomeD)
  then have pid: "pp_msgPID pkt = k" using assms by (auto simp: layer_inv_def tx_inv_def)
  consider "\<not> due now pkt" | "exhausted now pkt" | "due now pkt" "pp_attempts pkt < MaxRetransmits"
    unfolding exhausted_def not_le [symmetric] by blast
  then show ?thesis
  proof cases
    case 1
    then show ?thesis using Some by (intro skip) simp_all
  next
    case 2
    then show ?thesis using Some by (intro fail) (auto simp: exhausted_def exhausted_at_def)
  next
    case 3
    then show ?thesis
      using Some pid layer_inv_retransmit [OF assms Some 3(2)]
      by (intro resend [of pkt]) (auto simp: tick_loop_unfold exhausted_def exhausted_at_def simp del: tick_loop.simps(2))
  qed
qed

lemma tick_loop_error:
  "layer_inv l \<Longrightarrow> distinct ks \<Longrightarrow>
     fst (tick_loop now ks l) = (if \<exists>k\<in>set ks. exhausted_at now l k then Some ErrTooManyRetransmits else None)"
proof (induction ks arbitrary: l)
  case Nil
  then show ?case by simp
next
  case (Cons k ks)
  from Cons.prems(1) show ?case
  proof (cases rule: tick_loop_cases [of _ now k ks])
    case skip
    then show ?thesis using Cons by (auto simp: exhausted_at_def exhausted_def simp del: tick_loop.simps(2))
  next
    case fail
    then show ?thesis by (simp del: tick_loop.simps(2))
  next
    case (resend pkt)
    have "exhausted_at now (retransmit now k pkt l) j = exhausted_at now l j" if "j \<in> set ks" for j
      using that Cons.prems by (auto simp: exhausted_at_def retransmit_lookup)
    then show ?thesis using Cons.IH [OF resend(5)] Cons.prems resend(1,4) by (auto simp del: tick_loop.simps(2))
  qed
qed

lemma tick_loop_queue:
  "layer_inv l \<Longrightarrow> distinct ks \<Longrightarrow> tick_loop now ks l = (None, l') \<Longrightarrow>
     map_of (ly_txQueue l') j = map_option (\<lambda>pkt. if j \<in> set ks \<and> due now pkt then resent now pkt else pkt)
       (map_of (ly_txQueue l) j)"
proof (induction ks arbitrary: l)
  case Nil
  then show ?case by (simp add: option.map_ident)
next
  case (Cons k ks)
  from Cons.prems(1) show ?case
  proof (cases rule: tick_loop_cases [of _ now k ks])
    case skip
    then show ?thesis
      using Cons by (cases "map_of (ly_txQueue l) j") (auto simp del: tick_loop.simps(2))
  next
    case fail
    then show ?thesis using Cons.prems by simp
  next
    case (resend pkt)
    then show ?thesis
      using Cons.IH [OF resend(5)] Cons.prems by (auto simp: retransmit_lookup simp del: tick_loop.simps(2))
  qed
qed

text \<open>With room in the channel, every packet that is due goes out again, unchanged.\<close>

definition sends :: "OutPacket list \<Rightarrow> u32 \<Rightarrow> pendingPkt \<Rightarrow> bool" where
  "sends outs k pkt \<longleftrightarrow> (\<exists>o'\<in>set outs. op_Opcode o' = pp_opcode pkt \<and> cp_MessagePID (op_Payload o') = k \<and>
     cp_Body (op_Payload o') = pp_body pkt)"

lemma tick_loop_outbound:
  "layer_inv l \<Longrightarrow> distinct ks \<Longrightarrow> tick_loop now ks l = (None, l') \<Longrightarrow>
     length (ly_outbound l) + length ks \<le> ly_OutboundBuffer l \<Longrightarrow>
     \<exists>outs. ly_outbound l' = ly_outbound l @ outs \<and> length outs \<le> length ks \<and>
       (\<forall>k\<in>set ks. \<forall>pkt. map_of (ly_txQueue l) k = Some pkt \<and> due now pkt \<longrightarrow> sends outs k pkt)"
proof (induction ks arbitrary: l)
  case Nil
  then show ?case by simp
next
  case (Cons k ks)
  from Cons.prems(1) show ?case
  proof (cases rule: tick_loop_cases [of _ now k ks])
    case skip
    then obtain outs where "ly_outbound l' = ly_outbound l @ outs" "length outs \<le> length ks"
      "\<forall>k\<in>set ks. \<forall>pkt. map_of (ly_txQueue l) k = Some pkt \<and> due now pkt \<longrightarrow> sends outs k pkt"
      using Cons.IH [of l] Cons.prems by (auto simp del: tick_loop.simps(2))
    then show ?thesis using skip(2) by (intro exI [of _ outs]) auto
  next
    case fail
    then show ?thesis using Cons.prems by simp
  next
    case (resend pkt)
    let ?l = "retransmit now k pkt l" and ?o = "control_out (pp_opcode pkt) (pp_msgPID pkt) (pp_body pkt) l"
    have ack: "ack_inv l" using Cons.prems(1) by (simp add: layer_inv_def)
    have out: "ly_outbound ?l = ly_outbound l @ [?o]" "ly_OutboundBuffer ?l = ly_OutboundBuffer l"
      using Cons.prems(4) by (simp_all add: retransmit_outbound [OF ack])
    then obtain outs where o: "ly_outbound l' = ly_outbound ?l @ outs" "length outs \<le> length ks"
      "\<forall>k\<in>set ks. \<forall>pkt. map_of (ly_txQueue ?l) k = Some pkt \<and> due now pkt \<longrightarrow> sends outs k pkt"
      using Cons.IH [OF resend(5)] Cons.prems resend(1) by (auto simp del: tick_loop.simps(2))
    have "sends (?o # outs) k pkt" using resend(6) by (simp add: sends_def control_out_def)
    moreover have "sends (?o # outs) j p" if "j \<in> set ks" "map_of (ly_txQueue l) j = Some p" "due now p" for j p
    proof -
      have "map_of (ly_txQueue ?l) j = Some p" using that Cons.prems(1,2) by (auto simp: retransmit_lookup)
      then have "sends outs j p" using o(3) that by blast
      then show ?thesis by (auto simp: sends_def)
    qed
    ultimately show ?thesis
      using o(1,2) out(1) resend(2) by (intro exI [of _ "?o # outs"]) auto
  qed
qed

section \<open>The net.Conn adapter (adapter.go)\<close>

record 'addr Adapter =
  ad_layer :: Layer
  ad_localAddr :: 'addr
  ad_remoteAddr :: 'addr

definition NewAdapter :: "Layer \<Rightarrow> 'addr \<Rightarrow> 'addr \<Rightarrow> 'addr Adapter" where
  "NewAdapter l la ra = \<lparr>ad_layer = l, ad_localAddr = la, ad_remoteAddr = ra\<rparr>"

definition Adapter_Read :: "nat \<Rightarrow> 'addr Adapter \<Rightarrow> read_outcome \<times> 'addr Adapter" where
  "Adapter_Read n a = (case Read n (ad_layer a) of (out, l) \<Rightarrow> (out, a\<lparr>ad_layer := l\<rparr>))"

definition Adapter_Write :: "int \<Rightarrow> bytes \<Rightarrow> 'addr Adapter \<Rightarrow> write_outcome \<times> 'addr Adapter" where
  "Adapter_Write now p a = (case Write now p (ad_layer a) of (out, l) \<Rightarrow> (out, a\<lparr>ad_layer := l\<rparr>))"

definition Adapter_Close :: "'addr Adapter \<Rightarrow> 'addr Adapter" where
  "Adapter_Close a = a\<lparr>ad_layer := Close (ad_layer a)\<rparr>"

definition LocalAddr :: "'addr Adapter \<Rightarrow> 'addr" where "LocalAddr a = ad_localAddr a"
definition RemoteAddr :: "'addr Adapter \<Rightarrow> 'addr" where "RemoteAddr a = ad_remoteAddr a"

text \<open>The zero \<^verbatim>\<open>time.Time\<close> is \<open>None\<close>; \<open>now\<close> is the clock reading of the call.\<close>

definition SetDeadline :: "int \<Rightarrow> int option \<Rightarrow> 'addr Adapter \<Rightarrow> 'addr Adapter" where
  "SetDeadline now t a =
     (case t of
        None \<Rightarrow> a
      | Some d \<Rightarrow> if \<not> d > now then a\<lparr>ad_layer := CloseRead (Some DeadlineExceeded) (ad_layer a)\<rparr> else a)"

definition SetReadDeadline :: "int \<Rightarrow> int option \<Rightarrow> 'addr Adapter \<Rightarrow> 'addr Adapter" where
  "SetReadDeadline now t a = SetDeadline now t a"

definition SetWriteDeadline :: "int \<Rightarrow> int option \<Rightarrow> 'addr Adapter \<Rightarrow> 'addr Adapter" where
  "SetWriteDeadline now t a = SetDeadline now t a"

section \<open>Properties\<close>

text \<open>
  C33. In every state a layer can reach, whatever calls are made in whatever order and whatever
  packets the peer sends: at most twelve unacknowledged messages are queued, at most 63 future
  messages are buffered, the outbound channel never overflows, every queued message has had
  between one and eight attempts, and the pending acknowledgements are duplicate-free, mirrored
  by their set and timed exactly when there are some.
\<close>

theorem Layer_invariant:
  assumes "layer_reach cfg l"
  shows "layer_inv l \<and> QueueLen l \<le> 12 \<and> length (ly_rxBuffer l) \<le> 63 \<and>
    length (ly_outbound l) \<le> ly_OutboundBuffer l \<and> ly_pendingAckSet l = set (ly_pendingAcks l)"
  using layer_reach_inv [OF assms] rx_buffer_bound
  by (auto simp: layer_inv_def tx_inv_def ack_inv_def out_inv_def QueueLen_def MaxQueueSize_def)

definition demo_layer :: Layer where
  "demo_layer = snd (SendHardReset 7 PControlHardResetClientV2
     (New \<lparr>lc_LocalSessionID = 5, lc_InitialKeyID = 0, lc_OutboundBuffer = 4\<rparr>))"

lemma demo_layer_reach: "layer_reach \<lparr>lc_LocalSessionID = 5, lc_InitialKeyID = 0, lc_OutboundBuffer = 4\<rparr> demo_layer"
  unfolding demo_layer_def using layer_reach.step [OF layer_reach.init, of _ "OpHardReset 7 PControlHardResetClientV2"] by simp

lemma demo_layer_queue: "ly_txQueue demo_layer = [(0, \<lparr>pp_msgPID = 0, pp_opcode = PControlHardResetClientV2, pp_body = [],
    pp_sentAt = 7, pp_attempts = 1, pp_higherACKs = 0\<rparr>)]" and demo_layer_closed: "\<not> ly_closed demo_layer"
  and demo_layer_outbound: "length (ly_outbound demo_layer) = 1" "ly_OutboundBuffer demo_layer = 4"
  by (simp_all add: demo_layer_def SendHardReset_def IsControl_def opcode_defs enqueueAndEmitLocked_def emitLocked_def
      drainAcksLocked_def New_def rel_consts Let_def)

theorem Layer_invariant_witness: "layer_inv demo_layer \<and> QueueLen demo_layer \<le> 12"
  using Layer_invariant [OF demo_layer_reach] by blast



text \<open>
  The retransmission timeout doubles from one second up to sixteen: a message that is due by
  its timer has waited at least one second, and after sixteen seconds without a send it is due
  in any case.
\<close>

lemma backoff_schedule:
  assumes "1 \<le> pp_attempts pkt"
  shows "backoff (pp_attempts pkt) = (if pp_attempts pkt \<le> 5 then second * 2 ^ (pp_attempts pkt - 1) else 16 * second) \<and>
    (due now pkt \<and> pp_higherACKs pkt < FastRetransmitThreshold \<longrightarrow> second \<le> now - pp_sentAt pkt) \<and>
    (16 * second \<le> now - pp_sentAt pkt \<longrightarrow> due now pkt)"
  using backoff_eq [OF assms] backoff_bounds [OF assms] by (auto simp: due_def)

lemma backoff_schedule_witness: "backoff 3 = 4 * second"
  using backoff_schedule [of "\<lparr>pp_msgPID = 0, pp_opcode = 4, pp_body = [], pp_sentAt = 0, pp_attempts = 3, pp_higherACKs = 0\<rparr>"]
  by simp

text \<open>
  The peer's session-id is fixed by the first packet: afterwards a packet with another
  session-id is refused and changes nothing at all, and no inbound packet ever changes the
  recorded session-id.
\<close>

lemma HandleInbound_session_lock:
  assumes "ly_remoteKnown l"
  shows "RemoteSessionID (snd (HandleInbound now pkt l)) = RemoteSessionID l \<and>
    (\<not> ly_closed l \<and> ip_SessionID pkt \<noteq> ly_remoteSessionID l \<longrightarrow>
       HandleInbound now pkt l = (Some ErrSessionIDMismatch, l))"
proof -
  have "ly_remoteSessionID (drain_rx m) = ly_remoteSessionID m \<and> ly_remoteKnown (drain_rx m) = ly_remoteKnown m" for m
    using drain_rx_frame [of m] by auto
  then show ?thesis
    using assms by (auto simp: HandleInbound_eq RemoteSessionID_def learn_remote_def handle_acks_eq receive_def)
qed

lemma HandleInbound_session_lock_witness:
  "HandleInbound 0 \<lparr>ip_Opcode = 4, ip_KeyID = 0, ip_SessionID = 8, ip_Payload = zero_payload, ip_Ack = zero_ack\<rparr>
     (SetRemoteSessionID 9 demo_layer) = (Some ErrSessionIDMismatch, SetRemoteSessionID 9 demo_layer)"
  using HandleInbound_session_lock [of "SetRemoteSessionID 9 demo_layer" 0
      "\<lparr>ip_Opcode = 4, ip_KeyID = 0, ip_SessionID = 8, ip_Payload = zero_payload, ip_Ack = zero_ack\<rparr>"] demo_layer_closed
  by (simp add: SetRemoteSessionID_def)

text \<open>
  No caller stays blocked on a closed layer: after \<open>Close\<close>, or after a deadline in the past,
  a \<open>Read\<close> returns (buffered bytes first, then the recorded error) and never waits, a \<open>Write\<close>
  never waits for the peer, and a closed layer refuses to send, receive or tick.
\<close>

lemma Close_unblocks:
  "fst (Read n (Close l)) \<noteq> ReadWait \<and>
   (\<exists>err. fst (Write now p (Close l)) = WriteDone 0 err \<and> (p \<noteq> [] \<longrightarrow> err = Some ErrClosed)) \<and>
   HandleInbound now pkt (Close l) = (Some ErrClosed, Close l) \<and>
   Tick now order (Close l) = (Some ErrClosed, Close l) \<and>
   SendHardReset now opc (Close l) = (Some ErrClosed, Close l) \<and>
   (d \<le> now \<longrightarrow> fst (Adapter_Read n (SetDeadline now (Some d) a)) \<noteq> ReadWait \<and>
      fst (Adapter_Write now p (SetDeadline now (Some d) a)) \<noteq> WaitRemote)"
proof -
  have c: "ly_closed (Close l)" by (simp add: Close_def)
  have w: "fst (write_loop now 0 p m) \<noteq> WaitRemote" for m
  proof -
    have "fst (write_loop now w q m) \<noteq> WaitRemote" for w q
    proof (induction "length q" arbitrary: w q m rule: less_induct)
      case less
      have "length (drop TLSChunkSize q) < length q" if "q \<noteq> []" using that by (simp add: TLSChunkSize_def)
      then show ?case using less.hyps [of "drop TLSChunkSize q"] by (subst write_loop_unfold) auto
    qed
    then show ?thesis .
  qed
  have "\<exists>err. fst (Write now p (Close l)) = WriteDone 0 err \<and> (p \<noteq> [] \<longrightarrow> err = Some ErrClosed)"
    using c by (auto simp: Write_def write_loop_unfold [of now 0 p])
  moreover have "fst (Read n (Close l)) \<noteq> ReadWait" using c by (simp add: Read_def split: option.splits)
  moreover have "fst (Adapter_Read n (SetDeadline now (Some d) a)) \<noteq> ReadWait \<and>
      fst (Adapter_Write now p (SetDeadline now (Some d) a)) \<noteq> WaitRemote" if "d \<le> now"
    using that w
    by (auto simp: Adapter_Read_def Adapter_Write_def SetDeadline_def CloseRead_def Read_def Write_def case_prod_unfold)
  ultimately show ?thesis using c by (simp add: HandleInbound_def Tick_def SendHardReset_def)
qed

lemma Close_unblocks_witness:
  "fst (Adapter_Read 5 (SetDeadline 10 (Some 3) (NewAdapter demo_layer () ()))) \<noteq> ReadWait"
  using Close_unblocks [where d = 3 and now = 10 and n = 5 and a = "NewAdapter demo_layer () ()"] by auto

end
