(* ===== verification/Connection.thy ===== *)
theory Connection
  imports Reliable "HOL-Library.Sublist"
begin

text \<open>
  Two reliability layers joined by a network that may lose, duplicate and reorder packets:
  the end-to-end promise of \<^verbatim>\<open>internal/reliable\<close>. Every interleaving of calls on either side
  (at any times, with any retransmission order) and of deliveries is a run of the step
  relation. The theorems: each side reads a prefix of what the other side wrote, in order and
  without gaps or repetitions, and no message is dropped from the transmit queue before the
  other side holds it.
\<close>

section \<open>Two endpoints and the network\<close>

text \<open>
  An endpoint is its layer with what an observer has seen: the bytes \<open>Write\<close> accepted, the bytes
  \<open>Read\<close> returned, every packet taken off the outbound channel, and the number of reset packets
  asked for (which, with the bytes written, bounds the number of messages).
\<close>

record Endpoint =
  en_layer :: Layer
  en_wrote :: bytes
  en_got :: bytes
  en_wire :: "OutPacket set"
  en_resets :: nat

definition as_inbound :: "OutPacket \<Rightarrow> InPacket" where
  "as_inbound o' = \<lparr>ip_Opcode = op_Opcode o', ip_KeyID = op_KeyID o', ip_SessionID = op_SessionID o',
     ip_Payload = op_Payload o', ip_Ack = op_Ack o'\<rparr>"

text \<open>The bytes a \<open>Write\<close> call that had already accepted \<open>written\<close> bytes took from \<open>p\<close>.\<close>

fun taken :: "nat \<Rightarrow> bytes \<Rightarrow> write_outcome \<Rightarrow> bytes" where
  "taken written p WaitRemote = []"
| "taken written p (WaitQueue w rest) = take (w - written) p"
| "taken written p (WriteDone w err) = take (w - written) p"

inductive local_step :: "Endpoint \<Rightarrow> Endpoint \<Rightarrow> bool" where
  set_key: "local_step e (e\<lparr>en_layer := SetKeyID k (en_layer e)\<rparr>)"
| set_remote: "local_step e (e\<lparr>en_layer := SetRemoteSessionID sid (en_layer e)\<rparr>)"
| hard_reset: "SendHardReset now opc (en_layer e) = (err, l) \<Longrightarrow>
    local_step e (e\<lparr>en_layer := l, en_resets := en_resets e + 1\<rparr>)"
| soft_reset: "SendSoftReset now k (en_layer e) = (err, l) \<Longrightarrow>
    local_step e (e\<lparr>en_layer := l, en_resets := en_resets e + 1\<rparr>)"
| read_call: "Read n (en_layer e) = (ReadDone bs, l) \<Longrightarrow> local_step e (e\<lparr>en_layer := l, en_got := en_got e @ bs\<rparr>)"
| write_call: "Write now p (en_layer e) = (out, l) \<Longrightarrow>
    local_step e (e\<lparr>en_layer := l, en_wrote := en_wrote e @ taken 0 p out\<rparr>)"
| resume: "write_loop now w p (en_layer e) = (out, l) \<Longrightarrow>
    local_step e (e\<lparr>en_layer := l, en_wrote := en_wrote e @ taken w p out\<rparr>)"
| tick: "Tick now order (en_layer e) = (err, l) \<Longrightarrow> local_step e (e\<lparr>en_layer := l\<rparr>)"
| send_packet: "take_outbound (en_layer e) = (Some o', l) \<Longrightarrow>
    local_step e (e\<lparr>en_layer := l, en_wire := insert o' (en_wire e)\<rparr>)"
| close_read: "local_step e (e\<lparr>en_layer := CloseRead err (en_layer e)\<rparr>)"
| close_call: "local_step e (e\<lparr>en_layer := Close (en_layer e)\<rparr>)"

text \<open>
  A packet once on the wire may arrive at any later time, any number of times, or never; the
  receiving side may also refuse it.
\<close>

inductive conn_step :: "Endpoint \<times> Endpoint \<Rightarrow> Endpoint \<times> Endpoint \<Rightarrow> bool" where
  left: "local_step a a' \<Longrightarrow> conn_step (a, b) (a', b)"
| right: "local_step b b' \<Longrightarrow> conn_step (a, b) (a, b')"
| to_right: "o' \<in> en_wire a \<Longrightarrow> HandleInbound now (as_inbound o') (en_layer b) = (err, l) \<Longrightarrow>
    conn_step (a, b) (a, b\<lparr>en_layer := l\<rparr>)"
| to_left: "o' \<in> en_wire b \<Longrightarrow> HandleInbound now (as_inbound o') (en_layer a) = (err, l) \<Longrightarrow>
    conn_step (a, b) (a\<lparr>en_layer := l\<rparr>, b)"

definition endpoint_start :: "LayerConfig \<Rightarrow> Endpoint" where
  "endpoint_start cfg = \<lparr>en_layer = New cfg, en_wrote = [], en_got = [], en_wire = {}, en_resets = 0\<rparr>"

text \<open>
  Message ids do not wrap: fewer than \<open>2 ^ 32 - 1\<close> messages, each of which is a reset or
  carries at least one byte.
\<close>

definition unwrapped :: "Endpoint \<Rightarrow> bool" where
  "unwrapped e \<longleftrightarrow> length (en_wrote e) + en_resets e < 2 ^ 32 - 1"

inductive conn_reach :: "LayerConfig \<Rightarrow> LayerConfig \<Rightarrow> Endpoint \<times> Endpoint \<Rightarrow> bool" for cfg cfg' where
  start: "conn_reach cfg cfg' (endpoint_start cfg, endpoint_start cfg')"
| step: "conn_reach cfg cfg' c \<Longrightarrow> conn_step c c' \<Longrightarrow> unwrapped (fst c') \<Longrightarrow> unwrapped (snd c') \<Longrightarrow>
    conn_reach cfg cfg' c'"

section \<open>What one layer keeps\<close>

text \<open>\<open>sent\<close> is the list of message bodies in the order of their ids.\<close>

definition received :: "Layer \<Rightarrow> u32 set" where
  "received l = {k. k < ly_nextRxPID l} \<union> fst ` set (ly_rxBuffer l)"

definition pkt_ok :: "bytes list \<Rightarrow> u32 set \<Rightarrow> OutPacket \<Rightarrow> bool" where
  "pkt_ok sent R o' \<longleftrightarrow> set (out_acks o') \<subseteq> R \<and>
     (\<not> IsAck o' \<longrightarrow> unat (cp_MessagePID (op_Payload o')) < length sent \<and>
        cp_Body (op_Payload o') = sent ! unat (cp_MessagePID (op_Payload o')))"

definition tx_ok :: "bytes list \<Rightarrow> Layer \<Rightarrow> bool" where
  "tx_ok sent l \<longleftrightarrow> ly_nextTxPID l = of_nat (length sent) \<and>
     (\<forall>(k, pkt) \<in> set (ly_txQueue l). unat k < length sent \<and> pp_body pkt = sent ! unat k)"

definition layer_ok :: "bytes list \<Rightarrow> OutPacket set \<Rightarrow> Layer \<Rightarrow> bool" where
  "layer_ok sent W l \<longleftrightarrow> layer_inv l \<and> tx_ok sent l \<and>
     (\<forall>o' \<in> set (ly_outbound l) \<union> W. pkt_ok sent (received l) o') \<and> set (ly_pendingAcks l) \<subseteq> received l"

definition rx_ok :: "bytes list \<Rightarrow> bytes \<Rightarrow> Layer \<Rightarrow> bool" where
  "rx_ok peer got l \<longleftrightarrow> unat (ly_nextRxPID l) \<le> length peer \<and>
     got @ ly_readBuf l = concat (take (unat (ly_nextRxPID l)) peer) \<and>
     (\<forall>(k, b) \<in> set (ly_rxBuffer l). unat k < length peer \<and> b = peer ! unat k)"

definition no_loss :: "bytes list \<Rightarrow> Layer \<Rightarrow> u32 set \<Rightarrow> bool" where
  "no_loss sent l R \<longleftrightarrow> (\<forall>i < length sent. of_nat i \<in> fst ` set (ly_txQueue l) \<union> R)"

lemma pkt_ok_mono: "pkt_ok sent R o' \<Longrightarrow> R \<subseteq> R' \<Longrightarrow> pkt_ok (sent @ cs) R' o'"
  by (auto simp: pkt_ok_def nth_append)

lemma rx_ok_mono: "rx_ok peer got l \<Longrightarrow> rx_ok (peer @ cs) got l"
  by (auto simp: rx_ok_def nth_append)

text \<open>What a call that does not receive does to the layer: it appends messages \<open>cs\<close>.\<close>

definition tx_effect :: "bytes list \<Rightarrow> OutPacket set \<Rightarrow> Layer \<Rightarrow> bytes list \<Rightarrow> Layer \<Rightarrow> bool" where
  "tx_effect sent W l cs l' \<longleftrightarrow> layer_ok (sent @ cs) W l' \<and>
     ly_nextRxPID l' = ly_nextRxPID l \<and> ly_rxBuffer l' = ly_rxBuffer l \<and> ly_readBuf l' = ly_readBuf l \<and>
     fst ` set (ly_txQueue l) \<union> of_nat ` {length sent..<length sent + length cs} \<subseteq> fst ` set (ly_txQueue l')"

lemma tx_effect_refl: "layer_ok sent W l \<Longrightarrow> tx_effect sent W l [] l"
  by (simp add: tx_effect_def)

lemma tx_effect_trans:
  "tx_effect sent W l cs l' \<Longrightarrow> tx_effect (sent @ cs) W l' cs' l'' \<Longrightarrow> tx_effect sent W l (cs @ cs') l''"
proof (unfold tx_effect_def, elim conjE, intro conjI)
  assume "fst ` set (ly_txQueue l) \<union> of_nat ` {length sent..<length sent + length cs} \<subseteq> fst ` set (ly_txQueue l')"
    and "fst ` set (ly_txQueue l') \<union> of_nat ` {length (sent @ cs)..<length (sent @ cs) + length cs'}
      \<subseteq> fst ` set (ly_txQueue l'')"
  moreover have "{length sent..<length sent + length (cs @ cs')} =
      {length sent..<length sent + length cs} \<union> {length (sent @ cs)..<length (sent @ cs) + length cs'}"
    by auto
  ultimately show "fst ` set (ly_txQueue l) \<union> of_nat ` {length sent..<length sent + length (cs @ cs')}
      \<subseteq> fst ` set (ly_txQueue l'')"
    unfolding \<open>{length sent..<length sent + length (cs @ cs')} = _\<close> image_Un by blast
qed simp_all

lemma received_frame [simp]:
  "received (after_drain o' l) = received l" "received (restart_timer now l) = received l"
  by (simp_all add: received_def)

lemma tx_effect_after_drain:
  assumes "layer_ok sent W l" and "length (ly_outbound l) < ly_OutboundBuffer l"
    and "op_SessionID o' = ly_LocalSessionID l" and "length (out_acks o') \<le> MaxAcksPerPacket"
    and "pkt_ok sent (received l) o'"
  shows "tx_effect sent W l [] (after_drain o' l)"
  using assms layer_inv_after_drain [OF _ assms(2-4)]
  by (auto simp: tx_effect_def layer_ok_def tx_ok_def dest: in_set_dropD)

lemma tx_effect_restart_timer: "layer_ok sent W l \<Longrightarrow> tx_effect sent W l [] (restart_timer now l)"
  by (auto simp: tx_effect_def layer_ok_def tx_ok_def layer_inv_restart_timer)

lemma pkt_ok_control_out:
  "layer_ok sent W l \<Longrightarrow> unat pid < length sent \<Longrightarrow> body = sent ! unat pid \<Longrightarrow>
     pkt_ok sent (received l) (control_out opc pid body l)"
  by (auto simp: pkt_ok_def control_out_def out_acks_def layer_ok_def zero_ack_def split: if_splits dest: in_set_takeD)

lemma tx_effect_emit:
  assumes "layer_ok sent W l" and "unat pid < length sent" and "body = sent ! unat pid"
  shows "tx_effect sent W l [] (emitLocked now opc pid body l)"
proof -
  have "ack_inv l" using assms(1) by (simp add: layer_ok_def layer_inv_def)
  then show ?thesis
    using assms pkt_ok_control_out [OF assms]
    by (simp add: emitLocked_eq tx_effect_after_drain tx_effect_restart_timer)
qed

lemma tx_effect_ack:
  assumes "layer_ok sent W l"
  shows "tx_effect sent W l [] (emitStandaloneAckLocked now l)"
proof -
  have "ack_inv l" using assms by (simp add: layer_ok_def layer_inv_def)
  moreover have "pkt_ok sent (received l) (ack_out l)"
    using assms by (auto simp: pkt_ok_def layer_ok_def ack_out_def IsAck_def out_acks_def dest: in_set_takeD)
  ultimately show ?thesis
    using assms by (simp add: emitStandaloneAck_eq tx_effect_refl tx_effect_after_drain tx_effect_restart_timer)
qed

lemma unat_of_nat_u32: "n < 2 ^ 32 \<Longrightarrow> unat (of_nat n :: u32) = n"
  by (simp add: unat_of_nat take_bit_nat_eq_self)

text \<open>The queue entry added by an enqueue carries the next message of the log.\<close>

lemma layer_ok_queue:
  assumes ok: "layer_ok sent W l" and room: "length (ly_txQueue l) < MaxQueueSize"
    and small: "length sent < 2 ^ 32 - 1"
    and l': "l' = l\<lparr>ly_nextTxPID := ly_nextTxPID l + 1,
      ly_txQueue := AList.update (ly_nextTxPID l) \<lparr>pp_msgPID = ly_nextTxPID l, pp_opcode = opc, pp_body = body,
        pp_sentAt = now, pp_attempts = 1, pp_higherACKs = 0\<rparr> (ly_txQueue l)\<rparr>"
  shows "tx_effect sent W l [body] l'"
proof -
  have pid: "ly_nextTxPID l = of_nat (length sent)" and upid: "unat (ly_nextTxPID l) = length sent"
    using ok small by (auto simp: layer_ok_def tx_ok_def unat_of_nat_u32)
  have tx: "tx_inv l" using ok by (simp add: layer_ok_def layer_inv_def)
  have "tx_inv l'"
    using tx room length_update_le [of "ly_nextTxPID l" _ "ly_txQueue l"]
    by (force simp: l' tx_inv_def set_update_distinct distinct_update MaxRetransmits_def intro: order_trans)
  then have inv: "layer_inv l'"
    using ok by (simp add: l' layer_ok_def layer_inv_def ack_inv_def rx_inv_def out_inv_def close_inv_def)
  have "tx_ok (sent @ [body]) l'"
    using ok tx upid
    by (auto simp: l' tx_ok_def layer_ok_def tx_inv_def set_update_distinct nth_append pid)
  moreover have "received l' = received l" by (simp add: l' received_def)
  moreover have "fst ` set (ly_txQueue l') = insert (ly_nextTxPID l) (fst ` set (ly_txQueue l))"
    by (simp add: l' keys_update)
  ultimately show ?thesis
    using ok inv by (auto simp: tx_effect_def layer_ok_def l' pid intro: pkt_ok_mono)
qed

lemma tx_effect_enqueue:
  assumes ok: "layer_ok sent W l" and small: "length sent < 2 ^ 32 - 1"
  shows "tx_effect sent W l (if length (ly_txQueue l) \<ge> MaxQueueSize then [] else [body])
    (snd (enqueueAndEmitLocked now opc body l))"
proof (cases "length (ly_txQueue l) \<ge> MaxQueueSize")
  case True
  then show ?thesis using ok by (simp add: enqueueAndEmitLocked_def tx_effect_refl)
next
  case False
  define l1 where "l1 = l\<lparr>ly_nextTxPID := ly_nextTxPID l + 1,
      ly_txQueue := AList.update (ly_nextTxPID l) \<lparr>pp_msgPID = ly_nextTxPID l, pp_opcode = opc, pp_body = body,
        pp_sentAt = now, pp_attempts = 1, pp_higherACKs = 0\<rparr> (ly_txQueue l)\<rparr>"
  have e: "snd (enqueueAndEmitLocked now opc body l) = emitLocked now opc (ly_nextTxPID l) body l1"
    using False by (simp add: enqueueAndEmitLocked_def Let_def l1_def)
  have upid: "unat (ly_nextTxPID l) = length sent"
    using ok small by (auto simp: layer_ok_def tx_ok_def unat_of_nat_u32)
  have one: "tx_effect sent W l [body] l1"
    using layer_ok_queue [OF ok _ small l1_def] False by simp
  then have "layer_ok (sent @ [body]) W l1" by (simp add: tx_effect_def)
  then have "tx_effect (sent @ [body]) W l1 [] (snd (enqueueAndEmitLocked now opc body l))"
    unfolding e using upid by (intro tx_effect_emit) (simp_all add: nth_append)
  then show ?thesis using tx_effect_trans [OF one] False by simp
qed

lemma tx_effect_keyID:
  "tx_effect sent W l cs (l'\<lparr>ly_keyID := k\<rparr>) = tx_effect sent W l cs l'"
  "tx_effect sent W (l\<lparr>ly_keyID := k\<rparr>) cs l' = tx_effect sent W l cs l'"
  "layer_ok sent W (l\<lparr>ly_keyID := k\<rparr>) = layer_ok sent W l"
  by (simp_all add: tx_effect_def layer_ok_def layer_inv_update_keyID tx_ok_def received_def)

lemma tx_effect_resets:
  assumes "layer_ok sent W l" and "length sent < 2 ^ 32 - 1"
  shows "\<exists>cs. tx_effect sent W l cs (snd (SendHardReset now opc l)) \<and> concat cs = [] \<and> length cs \<le> 1"
    and "\<exists>cs. tx_effect sent W l cs (snd (SendSoftReset now k l)) \<and> concat cs = [] \<and> length cs \<le> 1"
proof -
  let ?cs = "\<lambda>l. if length (ly_txQueue l) \<ge> MaxQueueSize then [] else [[]]"
  have "\<exists>cs. tx_effect sent W l cs (snd (enqueueAndEmitLocked now opc [] l)) \<and> concat cs = [] \<and> length cs \<le> 1"
    using tx_effect_enqueue [OF assms, of "[]" now opc] by (intro exI [of _ "?cs l"]) simp
  then show "\<exists>cs. tx_effect sent W l cs (snd (SendHardReset now opc l)) \<and> concat cs = [] \<and> length cs \<le> 1"
    using tx_effect_refl [OF assms(1)] by (auto simp: SendHardReset_def intro: exI [of _ "[]"])
  let ?l = "l\<lparr>ly_keyID := k\<rparr>"
  have ok: "layer_ok sent W ?l" using assms(1) by (simp add: tx_effect_keyID)
  have "\<exists>cs. tx_effect sent W l cs (snd (enqueueAndEmitLocked now PControlSoftResetV1 [] ?l)) \<and>
      concat cs = [] \<and> length cs \<le> 1"
    using tx_effect_enqueue [OF ok assms(2), of "[]" now PControlSoftResetV1]
    by (intro exI [of _ "?cs ?l"]) (simp add: tx_effect_keyID)
  then show "\<exists>cs. tx_effect sent W l cs (snd (SendSoftReset now k l)) \<and> concat cs = [] \<and> length cs \<le> 1"
    using tx_effect_refl [OF assms(1)]
    by (auto simp: SendSoftReset_def Let_def case_prod_unfold tx_effect_keyID intro: exI [of _ "[]"])
qed

text \<open>\<open>Write\<close> cuts exactly the bytes it reports into nonempty messages.\<close>

lemma take_split: "take (n + m) p = take n p @ take m (drop n p)"
  by (simp add: take_add)

lemma write_loop_taken:
  assumes "\<not> (p = [] \<or> ly_closed l \<or> length (ly_txQueue l) \<ge> MaxQueueSize)"
    and "write_loop now written p l = (out, l')"
  shows "taken written p out = take TLSChunkSize p @ taken (written + min TLSChunkSize (length p)) (drop TLSChunkSize p) out"
proof -
  have mono: "write_loop now v q m = (out, m') \<Longrightarrow>
      (case out of WaitRemote \<Rightarrow> False | WaitQueue w r \<Rightarrow> v \<le> w | WriteDone w e \<Rightarrow> v \<le> w)" for v q m m'
  proof (induction "length q" arbitrary: v q m rule: less_induct)
    case less
    have "length (drop TLSChunkSize q) < length q" if "q \<noteq> []" using that by (simp add: TLSChunkSize_def)
    then show ?case
      using less.hyps [of "drop TLSChunkSize q"] less.prems
      by (subst (asm) write_loop_unfold) (fastforce split: if_splits write_outcome.splits)
  qed
  let ?c = "min TLSChunkSize (length p)"
  have "write_loop now (written + ?c) (drop TLSChunkSize p)
      (snd (enqueueAndEmitLocked now PControlV1 (take TLSChunkSize p) l)) = (out, l')"
    using assms by (subst (asm) write_loop_unfold) simp
  from mono [OF this] obtain w where out: "\<forall>v q. taken v q out = take (w - v) q" and w: "written + ?c \<le> w"
    by (cases out) auto
  have "take (w - written) p = take ?c p @ take (w - written - ?c) (drop ?c p)"
    using w by (simp add: take_add [symmetric])
  also have "take ?c p = take TLSChunkSize p" by (simp add: min_def)
  also have "drop ?c p = drop TLSChunkSize p" by (simp add: min_def)
  finally show ?thesis by (simp add: out)
qed

lemma tx_effect_write_loop:
  "layer_ok sent W l \<Longrightarrow> write_loop now written p l = (out, l') \<Longrightarrow>
     length sent + length (taken written p out) < 2 ^ 32 - 1 \<Longrightarrow>
     \<exists>cs. tx_effect sent W l cs l' \<and> concat cs = taken written p out \<and> length cs \<le> length (taken written p out)"
proof (induction "length p" arbitrary: sent written p l rule: less_induct)
  case less
  show ?case
  proof (cases "p = [] \<or> ly_closed l \<or> length (ly_txQueue l) \<ge> MaxQueueSize")
    case True
    then have "l' = l \<and> taken written p out = []"
      using less.prems(2) by (subst (asm) write_loop_unfold) (auto split: if_splits)
    then show ?thesis using tx_effect_refl [OF less.prems(1)] by (intro exI [of _ "[]"]) simp
  next
    case False
    let ?c = "take TLSChunkSize p" and ?w = "written + min TLSChunkSize (length p)"
    let ?l = "snd (enqueueAndEmitLocked now PControlV1 ?c l)" and ?p = "drop TLSChunkSize p"
    have rest: "write_loop now ?w ?p ?l = (out, l')"
      using less.prems(2) False by (subst (asm) write_loop_unfold) simp
    have tk: "taken written p out = ?c @ taken ?w ?p out"
      using write_loop_taken [OF False less.prems(2)] .
    have ne: "1 \<le> length ?c" using False by (cases p) (auto simp: TLSChunkSize_def)
    have one: "tx_effect sent W l [?c] ?l"
      using tx_effect_enqueue [OF less.prems(1), of ?c now PControlV1] less.prems(3) False tk by simp
    have sm: "length (sent @ [?c]) + length (taken ?w ?p out) < 2 ^ 32 - 1"
      using less.prems(3) ne unfolding tk length_append list.size by linarith
    have "length ?p < length p" using False by (simp add: TLSChunkSize_def)
    then obtain cs where cs: "tx_effect (sent @ [?c]) W ?l cs l'" "concat cs = taken ?w ?p out"
      "length cs \<le> length (taken ?w ?p out)"
      using less.hyps [OF _ _ rest sm] one by (auto simp: tx_effect_def)
    have "length ([?c] @ cs) \<le> length (?c @ taken ?w ?p out)"
      using cs(3) ne unfolding length_append list.size by linarith
    then show ?thesis
      using tx_effect_trans [OF one cs(1)] cs(2) unfolding tk by (intro exI [of _ "[?c] @ cs"]) simp
  qed
qed

lemma tx_effect_tick_loop:
  assumes "layer_ok sent W l"
  shows "tx_effect sent W l [] (snd (tick_loop now ks l))"
proof (rule tick_loop_preserves [where P = "\<lambda>l'. tx_effect sent W l [] l'"])
  show "tx_effect sent W l [] l" using assms by (rule tx_effect_refl)
next
  fix m k pkt
  assume eff: "tx_effect sent W l [] m" and k: "map_of (ly_txQueue m) k = Some pkt" and a: "pp_attempts pkt < MaxRetransmits"
  have ok: "layer_ok sent W m" using eff by (simp add: tx_effect_def)
  define e where "e = emitLocked now (pp_opcode pkt) (pp_msgPID pkt) (pp_body pkt) m"
  have re: "retransmit now k pkt m = e\<lparr>ly_txQueue := AList.update k (resent now pkt) (ly_txQueue e)\<rparr>"
    by (simp add: retransmit_def Let_def e_def)
  have mem: "(k, pkt) \<in> set (ly_txQueue m)" using k by (rule map_of_SomeD)
  then have pid: "pp_msgPID pkt = k" and log: "unat k < length sent" "pp_body pkt = sent ! unat k"
    using ok by (auto simp: layer_ok_def layer_inv_def tx_inv_def tx_ok_def)
  have em: "tx_effect sent W m [] e" unfolding e_def using ok log by (intro tx_effect_emit) (simp_all add: pid)
  have inv: "layer_inv m" using ok by (simp add: layer_ok_def)
  have d: "distinct (map fst (ly_txQueue m))" and q: "ly_txQueue e = ly_txQueue m"
    using inv by (auto simp: e_def layer_inv_def tx_inv_def emitLocked_eq)
  have "layer_inv (retransmit now k pkt m)" by (rule layer_inv_retransmit [OF inv k a])
  moreover have "received (retransmit now k pkt m) = received e" by (simp add: re received_def)
  moreover have "tx_ok sent (retransmit now k pkt m)"
    using em d log by (auto simp: re tx_effect_def layer_ok_def tx_ok_def q set_update_distinct resent_def)
  ultimately have "tx_effect sent W m [] (retransmit now k pkt m)"
    using em by (auto simp: tx_effect_def layer_ok_def re keys_update q)
  then show "tx_effect sent W l [] (retransmit now k pkt m)" using tx_effect_trans [OF eff] by simp
qed

lemma tx_effect_Tick:
  assumes "layer_ok sent W l"
  shows "tx_effect sent W l [] (snd (Tick now order l))"
proof -
  obtain err m where t: "tick_loop now order l = (err, m)" by (cases "tick_loop now order l")
  then have eff: "tx_effect sent W l [] m" using tx_effect_tick_loop [OF assms, of now order] by simp
  then have "tx_effect sent W l [] (emitStandaloneAckLocked now m)"
    using tx_effect_trans [OF eff, of "[]"] tx_effect_ack [of sent W m now] eff
    unfolding append_Nil2 by (metis append_Nil2 tx_effect_def)
  then show ?thesis
    using eff t tx_effect_refl [OF assms] by (auto simp: Tick_def split: option.splits)
qed

section \<open>Receiving\<close>

lemma unat_Suc_u32: "unat n < N \<Longrightarrow> N < 2 ^ 32 \<Longrightarrow> unat (n + 1 :: u32) = unat n + 1"
  by (subst unat_add_lem [THEN iffD1]) auto

lemma less_Suc_u32: "unat n < N \<Longrightarrow> N < 2 ^ 32 \<Longrightarrow> k < n + 1 \<longleftrightarrow> k < n \<or> k = (n :: u32)"
  by (auto simp: word_less_nat_alt unat_Suc_u32 word_unat_eq_iff)

text \<open>Taking the message with the next id, from the wire or from the buffer.\<close>

lemma rx_ok_next:
  assumes "rx_ok peer got l" and "length peer < 2 ^ 32" and "unat (ly_nextRxPID l) < length peer"
    and "body = peer ! unat (ly_nextRxPID l)"
  shows "rx_ok peer got (l\<lparr>ly_rxBuffer := AList.delete (ly_nextRxPID l) (ly_rxBuffer l),
      ly_readBuf := ly_readBuf l @ body, ly_nextRxPID := ly_nextRxPID l + 1\<rparr>)"
proof -
  have "unat (ly_nextRxPID l + 1) = unat (ly_nextRxPID l) + 1" using assms by (intro unat_Suc_u32)
  then show ?thesis
    using assms by (auto simp: rx_ok_def take_Suc_conv_app_nth set_delete simp flip: append_assoc)
qed

lemma received_next:
  assumes "length peer < 2 ^ 32" and "unat (ly_nextRxPID l) < length peer"
  shows "received (l\<lparr>ly_rxBuffer := AList.delete (ly_nextRxPID l) (ly_rxBuffer l), ly_readBuf := rd,
      ly_nextRxPID := ly_nextRxPID l + 1\<rparr>) = insert (ly_nextRxPID l) (received l)"
  using less_Suc_u32 [OF assms(2,1)] by (auto simp: received_def keys_delete set_delete)

lemma drain_rx_ok:
  "rx_ok peer got l \<Longrightarrow> length peer < 2 ^ 32 \<Longrightarrow> rx_ok peer got (drain_rx l) \<and> received l \<subseteq> received (drain_rx l)"
proof (induction l rule: drain_rx_induct)
  case (step l)
  show ?case
  proof (cases "map_of (ly_rxBuffer l) (ly_nextRxPID l)")
    case None
    then have "drain_rx l = l" by (simp add: drain_rx_unfold [of l])
    then show ?thesis using step.prems by simp
  next
    case (Some body)
    then have "(ly_nextRxPID l, body) \<in> set (ly_rxBuffer l)" by (rule map_of_SomeD)
    then have n: "unat (ly_nextRxPID l) < length peer" "body = peer ! unat (ly_nextRxPID l)"
      using step.prems(1) by (auto simp: rx_ok_def)
    let ?l = "l\<lparr>ly_rxBuffer := AList.delete (ly_nextRxPID l) (ly_rxBuffer l), ly_readBuf := ly_readBuf l @ body,
        ly_nextRxPID := ly_nextRxPID l + 1\<rparr>"
    have "drain_rx l = drain_rx ?l" using Some by (simp add: drain_rx_unfold [of l])
    moreover have "received l \<subseteq> received ?l" using received_next [OF step.prems(2) n(1)] by auto
    ultimately show ?thesis
      using step.IH [OF Some rx_ok_next [OF step.prems n] step.prems(2)] by auto
  qed
qed

lemma received_addPendingAck [simp]: "received (addPendingAckLocked now p l) = received l"
  by (simp add: received_def)

lemma rx_ok_addPendingAck [simp]: "rx_ok peer got (addPendingAckLocked now p l) = rx_ok peer got l"
  by (simp add: rx_ok_def)

lemma pendingAcks_add: "set (ly_pendingAcks (addPendingAckLocked now p l)) \<subseteq> insert p (set (ly_pendingAcks l))"
  by (auto simp: addPendingAckLocked_def Let_def)

lemma pendingAcks_drain [simp]:
  "ly_pendingAcks (drain_rx l) = ly_pendingAcks l" "ly_txQueue (drain_rx l) = ly_txQueue l"
  "ly_nextTxPID (drain_rx l) = ly_nextTxPID l" "ly_outbound (drain_rx l) = ly_outbound l"
  using drain_rx_frame [of l] by auto

lemma receive_frame:
  "ly_txQueue (receive now p body l) = ly_txQueue l" "ly_nextTxPID (receive now p body l) = ly_nextTxPID l"
  "ly_outbound (receive now p body l) = ly_outbound l"
  by (simp_all add: receive_def)

text \<open>Receiving one message of the peer: in order at once, out of order into the buffer.\<close>

lemma receive_ok:
  assumes rx: "rx_ok peer got l" and small: "length peer < 2 ^ 32" and inv: "rx_inv l"
    and pid: "unat p < length peer" "body = peer ! unat p"
  shows "rx_ok peer got (receive now p body l)" (is ?A)
    and "received l \<subseteq> received (receive now p body l)" (is ?B)
    and "set (ly_pendingAcks (receive now p body l)) \<subseteq> set (ly_pendingAcks l) \<union> received (receive now p body l)" (is ?C)
proof -
  consider (old) "p \<in> received l" | (next_pid) "p = ly_nextRxPID l" "map_of (ly_rxBuffer l) p = None"
    | (future) "p \<notin> received l" "p \<noteq> ly_nextRxPID l"
    using inv by (auto simp: received_def rx_inv_def map_of_None_keys)
  then have "?A \<and> ?B \<and> ?C"
  proof cases
    case old
    then have "receive now p body l = addPendingAckLocked now p l \<or> p = ly_nextRxPID l"
      by (auto simp: receive_def received_def map_of_None_keys)
    moreover have "p \<noteq> ly_nextRxPID l" using old inv by (auto simp: received_def rx_inv_def)
    ultimately show ?thesis using rx old pendingAcks_add [of now p l] by auto
  next
    case next_pid
    let ?l = "l\<lparr>ly_rxBuffer := AList.delete (ly_nextRxPID l) (ly_rxBuffer l), ly_readBuf := ly_readBuf l @ body,
        ly_nextRxPID := ly_nextRxPID l + 1\<rparr>"
    have same: "AList.delete (ly_nextRxPID l) (ly_rxBuffer l) = ly_rxBuffer l"
      using inv by (simp add: rx_inv_def delete_id)
    have eq: "receive now p body l = addPendingAckLocked now p (drain_rx ?l)"
      using next_pid by (simp add: receive_def same)
    have n: "unat (ly_nextRxPID l) < length peer" "body = peer ! unat (ly_nextRxPID l)" using pid next_pid by simp_all
    have "rx_ok peer got (drain_rx ?l) \<and> received ?l \<subseteq> received (drain_rx ?l)"
      by (rule drain_rx_ok [OF rx_ok_next [OF rx small n] small])
    moreover have "received ?l = insert p (received l)" using received_next [OF small n(1)] next_pid by simp
    ultimately show ?thesis
      using pendingAcks_add [of now p "drain_rx ?l"] by (auto simp: eq)
  next
    case future
    then have nlt: "\<not> p < ly_nextRxPID l" "map_of (ly_rxBuffer l) p = None"
      by (auto simp: received_def map_of_None_keys)
    let ?l = "l\<lparr>ly_rxBuffer := AList.update p body (ly_rxBuffer l)\<rparr>"
    have "rx_ok peer got ?l"
      using rx inv pid by (auto simp: rx_ok_def rx_inv_def rx_window_def set_update_distinct)
    moreover have "received ?l = insert p (received l)" by (auto simp: received_def keys_update)
    ultimately show ?thesis
      using future nlt rx pendingAcks_add [of now p ?l] by (auto simp: receive_def)
  qed
  then show ?A ?B ?C by blast+
qed

lemma learn_remote_frame [simp]:
  "ly_txQueue (learn_remote sid l) = ly_txQueue l" "ly_nextTxPID (learn_remote sid l) = ly_nextTxPID l"
  "ly_nextRxPID (learn_remote sid l) = ly_nextRxPID l" "ly_rxBuffer (learn_remote sid l) = ly_rxBuffer l"
  "ly_readBuf (learn_remote sid l) = ly_readBuf l" "ly_outbound (learn_remote sid l) = ly_outbound l"
  "ly_pendingAcks (learn_remote sid l) = ly_pendingAcks l"
  by (simp_all add: learn_remote_def)

lemma tx_ok_ack_queue: "tx_ok sent l \<Longrightarrow> ly_txQueue l' = ack_queue acks (ly_txQueue l) \<Longrightarrow>
    ly_nextTxPID l' = ly_nextTxPID l \<Longrightarrow> tx_ok sent l'"
  by (fastforce simp: tx_ok_def dest: ack_queue_mem)

text \<open>A packet of the peer: acknowledged messages leave the queue, the received set only grows.\<close>

lemma HandleInbound_ok:
  assumes ok: "layer_ok sent W l" and rx: "rx_ok peer got l" and small: "length peer < 2 ^ 32"
    and pkt: "pkt_ok peer R o'" and h: "HandleInbound now (as_inbound o') l = (err, l')"
  shows "layer_ok sent W l' \<and> rx_ok peer got l' \<and> received l \<subseteq> received l' \<and>
    fst ` set (ly_txQueue l) - R \<subseteq> fst ` set (ly_txQueue l')"
proof (cases "ly_closed l \<or> ly_remoteKnown l \<and> op_SessionID o' \<noteq> ly_remoteSessionID l")
  case True
  then have "HandleInbound now (as_inbound o') l = (if ly_closed l then Some ErrClosed else Some ErrSessionIDMismatch, l)"
    by (auto simp: HandleInbound_def as_inbound_def)
  then have "l' = l" using h by simp
  then show ?thesis using ok rx by simp
next
  case False
  let ?l = "handle_acks (out_acks o') (learn_remote (op_SessionID o') l)"
  let ?p = "cp_MessagePID (op_Payload o')" and ?b = "cp_Body (op_Payload o')"
  have l': "l' = (if IsAck o' then ?l else receive now ?p ?b ?l)"
    using False h by (auto simp: HandleInbound_eq as_inbound_def out_acks_def IsAck_def)
  have inv': "layer_inv l'"
    using layer_inv_HandleInbound [of l now "as_inbound o'"] ok h by (simp add: layer_ok_def)
  have acks: "set (out_acks o') \<subseteq> R" using pkt by (simp add: pkt_ok_def)
  have q: "ly_txQueue l' = ack_queue (out_acks o') (ly_txQueue l)" "ly_nextTxPID l' = ly_nextTxPID l"
    "ly_outbound l' = ly_outbound l"
    by (simp_all add: l' receive_frame handle_acks_eq)
  have rl: "rx_ok peer got ?l" "received ?l = received l" "ly_pendingAcks ?l = ly_pendingAcks l" "rx_inv ?l"
    using rx ok by (simp_all add: rx_ok_def received_def handle_acks_eq layer_ok_def layer_inv_def rx_inv_def)
  have "rx_ok peer got l' \<and> received l \<subseteq> received l' \<and>
      set (ly_pendingAcks l') \<subseteq> set (ly_pendingAcks l) \<union> received l'"
  proof (cases "IsAck o'")
    case True
    then show ?thesis using rl by (simp add: l')
  next
    case False
    then have "unat ?p < length peer" "?b = peer ! unat ?p" using pkt by (auto simp: pkt_ok_def)
    from receive_ok [OF rl(1) small rl(4) this, of now] show ?thesis using False rl by (simp add: l')
  qed
  then show ?thesis
    using ok inv' acks tx_ok_ack_queue [OF _ q(1,2), of sent] pkt_ok_mono [of sent "received l" _ "received l'" "[]"]
    by (auto simp: layer_ok_def q(3) q(1) ack_queue_keys)
qed

section \<open>The invariant of the pair\<close>

text \<open>One side's half: \<open>sa\<close> are the messages of \<open>a\<close>, \<open>sb\<close> those of its peer \<open>b\<close>.\<close>

definition half :: "bytes list \<Rightarrow> bytes list \<Rightarrow> Endpoint \<Rightarrow> Endpoint \<Rightarrow> bool" where
  "half sa sb a b \<longleftrightarrow> layer_ok sa (en_wire a) (en_layer a) \<and> rx_ok sb (en_got a) (en_layer a) \<and>
     no_loss sa (en_layer a) (received (en_layer b)) \<and> concat sa = en_wrote a \<and>
     length sa \<le> length (en_wrote a) + en_resets a"

definition pair_ok :: "bytes list \<Rightarrow> bytes list \<Rightarrow> Endpoint \<Rightarrow> Endpoint \<Rightarrow> bool" where
  "pair_ok sa sb a b \<longleftrightarrow> half sa sb a b \<and> half sb sa b a"

lemma pair_ok_sym: "pair_ok sa sb a b \<Longrightarrow> pair_ok sb sa b a"
  by (simp add: pair_ok_def)

lemma pair_ok_tx:
  assumes "pair_ok sa sb a b" and eff: "tx_effect sa (en_wire a) (en_layer a) cs l'"
    and len: "length sa + length cs \<le> length (en_wrote a @ concat cs) + r"
  shows "pair_ok (sa @ cs) sb (a\<lparr>en_layer := l', en_wrote := en_wrote a @ concat cs, en_resets := r\<rparr>) b"
proof -
  have "received l' = received (en_layer a)" using eff by (simp add: tx_effect_def received_def)
  moreover have "rx_ok sb (en_got a) l'" using assms(1) eff by (simp add: pair_ok_def half_def tx_effect_def rx_ok_def)
  moreover have "no_loss (sa @ cs) l' (received (en_layer b))"
  proof (unfold no_loss_def, intro allI impI)
    fix i assume i: "i < length (sa @ cs)"
    have "(of_nat i :: u32) \<in> of_nat ` {length sa..<length sa + length cs}" if "\<not> i < length sa"
      using that i by auto
    then show "of_nat i \<in> fst ` set (ly_txQueue l') \<union> received (en_layer b)"
      using assms(1) eff by (cases "i < length sa") (auto simp: pair_ok_def half_def no_loss_def tx_effect_def)
  qed
  ultimately show ?thesis
    using assms rx_ok_mono [of sa "en_got b" "en_layer b" cs] by (simp add: pair_ok_def half_def tx_effect_def)
qed

lemma pair_ok_tx_nil:
  "pair_ok sa sb a b \<Longrightarrow> tx_effect sa (en_wire a) (en_layer a) [] l' \<Longrightarrow> pair_ok sa sb (a\<lparr>en_layer := l'\<rparr>) b"
  using pair_ok_tx [of sa sb a b "[]" l' "en_resets a"] by (simp add: pair_ok_def half_def)

lemma tx_effect_setters:
  assumes "layer_ok sent W l"
  shows "tx_effect sent W l [] (SetKeyID k l)" "tx_effect sent W l [] (SetRemoteSessionID sid l)"
    "tx_effect sent W l [] (CloseRead err l)" "tx_effect sent W l [] (Close l)"
proof -
  have inv: "layer_inv l" using assms by (simp add: layer_ok_def)
  show "tx_effect sent W l [] (SetKeyID k l)"
    using tx_effect_refl [OF assms] by (simp add: SetKeyID_def tx_effect_keyID)
  show "tx_effect sent W l [] (SetRemoteSessionID sid l)"
    using assms layer_inv_SetRemote [OF inv, of sid]
    by (simp add: tx_effect_def layer_ok_def SetRemoteSessionID_def tx_ok_def received_def)
  show "tx_effect sent W l [] (CloseRead err l)"
    using assms layer_inv_CloseRead [OF inv, of err]
    by (cases err) (simp_all add: tx_effect_def layer_ok_def CloseRead_def tx_ok_def received_def)
  show "tx_effect sent W l [] (Close l)"
    using assms layer_inv_Close [OF inv]
    by (simp add: tx_effect_def layer_ok_def Close_def tx_ok_def received_def)
qed

lemma tx_effect_Write:
  assumes "layer_ok sent W l" "Write now p l = (out, l')" "length sent + length (taken 0 p out) < 2 ^ 32 - 1"
  shows "\<exists>cs. tx_effect sent W l cs l' \<and> concat cs = taken 0 p out \<and> length cs \<le> length (taken 0 p out)"
proof (cases "write_loop now 0 p l = (out, l')")
  case True
  then show ?thesis using tx_effect_write_loop assms by blast
next
  case False
  then have "l' = l \<and> taken 0 p out = []"
    using assms(2) by (auto simp: Write_def split: if_splits)
  then show ?thesis using tx_effect_refl [OF assms(1)] by (intro exI [of _ "[]"]) simp
qed

lemma pair_ok_write:
  assumes ok: "pair_ok sa sb a b"
    and eff: "\<exists>cs. tx_effect sa (en_wire a) (en_layer a) cs l' \<and> concat cs = t \<and> length cs \<le> length t"
  shows "\<exists>cs. pair_ok (sa @ cs) sb (a\<lparr>en_layer := l', en_wrote := en_wrote a @ t\<rparr>) b"
proof -
  from eff obtain cs where cs: "tx_effect sa (en_wire a) (en_layer a) cs l'" "concat cs = t" "length cs \<le> length t" by blast
  have "length sa + length cs \<le> length (en_wrote a @ concat cs) + en_resets a"
    using ok cs(2,3) by (auto simp: pair_ok_def half_def)
  from pair_ok_tx [OF ok cs(1) this] show ?thesis using cs(2) by (intro exI [of _ cs]) simp
qed

lemma pair_ok_reset:
  assumes ok: "pair_ok sa sb a b"
    and eff: "\<exists>cs. tx_effect sa (en_wire a) (en_layer a) cs l' \<and> concat cs = [] \<and> length cs \<le> 1"
  shows "\<exists>cs. pair_ok (sa @ cs) sb (a\<lparr>en_layer := l', en_resets := en_resets a + 1\<rparr>) b"
proof -
  from eff obtain cs where cs: "tx_effect sa (en_wire a) (en_layer a) cs l'" "concat cs = []" "length cs \<le> 1" by blast
  have "length sa + length cs \<le> length (en_wrote a @ concat cs) + (en_resets a + 1)"
    using ok cs(3) by (auto simp: pair_ok_def half_def)
  from pair_ok_tx [OF ok cs(1) this] show ?thesis
    unfolding cs(2) append_Nil2 by (intro exI [of _ cs]) simp
qed

lemma pair_ok_read:
  assumes "pair_ok sa sb a b" and "Read n (en_layer a) = (ReadDone bs, l)"
  shows "pair_ok sa sb (a\<lparr>en_layer := l, en_got := en_got a @ bs\<rparr>) b"
proof -
  have l: "l = (en_layer a)\<lparr>ly_readBuf := drop n (ly_readBuf (en_layer a))\<rparr>" and bs: "bs = take n (ly_readBuf (en_layer a))"
    using assms(2) by (auto simp: Read_def split: if_splits option.splits)
  show ?thesis
    using assms(1)
    by (simp add: pair_ok_def half_def l bs layer_ok_def layer_inv_update_readBuf tx_ok_def received_def rx_ok_def no_loss_def)
qed

lemma pair_ok_send:
  assumes "pair_ok sa sb a b" and "take_outbound (en_layer a) = (Some o', l)"
  shows "pair_ok sa sb (a\<lparr>en_layer := l, en_wire := insert o' (en_wire a)\<rparr>) b"
proof -
  obtain os where os: "ly_outbound (en_layer a) = o' # os" and l: "l = (en_layer a)\<lparr>ly_outbound := os\<rparr>"
    using assms(2) by (auto simp: take_outbound_def split: list.splits)
  have "layer_inv (en_layer a)" using assms(1) by (simp add: pair_ok_def half_def layer_ok_def)
  then have "layer_inv l" using layer_inv_take [of "en_layer a"] assms(2) by simp
  then show ?thesis
    using assms(1) os
    by (simp add: pair_ok_def half_def layer_ok_def l tx_ok_def received_def rx_ok_def no_loss_def)
qed

lemma pair_ok_local:
  assumes ok: "pair_ok sa sb a b" and st: "local_step a a'" and u: "unwrapped a'"
  shows "\<exists>cs. pair_ok (sa @ cs) sb a' b"
proof -
  have lay: "layer_ok sa (en_wire a) (en_layer a)" and len: "length sa \<le> length (en_wrote a) + en_resets a"
    using ok by (simp_all add: pair_ok_def half_def)
  note nil = pair_ok_tx_nil [OF ok]
  from st show ?thesis
  proof cases
    case (set_key k)
    then show ?thesis using nil [OF tx_effect_setters(1) [OF lay]] by (intro exI [of _ "[]"]) simp
  next
    case (set_remote sid)
    then show ?thesis using nil [OF tx_effect_setters(2) [OF lay]] by (intro exI [of _ "[]"]) simp
  next
    case (hard_reset now opc err l)
    have "length sa < 2 ^ 32 - 1" using u len unfolding hard_reset unwrapped_def by simp
    from tx_effect_resets(1) [OF lay this, of now opc] show ?thesis
      using pair_ok_reset [OF ok] hard_reset by simp
  next
    case (soft_reset now k err l)
    have "length sa < 2 ^ 32 - 1" using u len unfolding soft_reset unwrapped_def by simp
    from tx_effect_resets(2) [OF lay this, of now k] show ?thesis
      using pair_ok_reset [OF ok] soft_reset by simp
  next
    case (read_call n bs l)
    then show ?thesis using pair_ok_read [OF ok] by (intro exI [of _ "[]"]) simp
  next
    case (write_call now p out l)
    have "length sa + length (taken 0 p out) < 2 ^ 32 - 1" using u len unfolding write_call unwrapped_def by simp
    from tx_effect_Write [OF lay write_call(2) this] show ?thesis using pair_ok_write [OF ok] write_call by simp
  next
    case (resume now w p out l)
    have "length sa + length (taken w p out) < 2 ^ 32 - 1" using u len unfolding resume unwrapped_def by simp
    from tx_effect_write_loop [OF lay resume(2) this] show ?thesis using pair_ok_write [OF ok] resume by simp
  next
    case (tick now order err l)
    then show ?thesis using nil [of l] tx_effect_Tick [OF lay, of now order] by (intro exI [of _ "[]"]) simp
  next
    case (send_packet o' l)
    then show ?thesis using pair_ok_send [OF ok] by (intro exI [of _ "[]"]) simp
  next
    case (close_read err)
    then show ?thesis using nil [OF tx_effect_setters(3) [OF lay]] by (intro exI [of _ "[]"]) simp
  next
    case close_call
    then show ?thesis using nil [OF tx_effect_setters(4) [OF lay]] by (intro exI [of _ "[]"]) simp
  qed
qed

text \<open>Delivery of a packet of \<open>b\<close> to \<open>a\<close>.\<close>

lemma pair_ok_deliver:
  assumes ok: "pair_ok sa sb a b" and o': "o' \<in> en_wire b" and u: "unwrapped b"
    and h: "HandleInbound now (as_inbound o') (en_layer a) = (err, l)"
  shows "pair_ok sa sb (a\<lparr>en_layer := l\<rparr>) b"
proof -
  have pkt: "pkt_ok sb (received (en_layer b)) o'" and lay: "layer_ok sa (en_wire a) (en_layer a)"
    and rx: "rx_ok sb (en_got a) (en_layer a)"
    using ok o' by (auto simp: pair_ok_def half_def layer_ok_def)
  have "length sb < 2 ^ 32" using ok u by (auto simp: pair_ok_def half_def unwrapped_def)
  from HandleInbound_ok [OF lay rx this pkt h]
  have eff: "layer_ok sa (en_wire a) l" "rx_ok sb (en_got a) l" "received (en_layer a) \<subseteq> received l"
    "fst ` set (ly_txQueue (en_layer a)) - received (en_layer b) \<subseteq> fst ` set (ly_txQueue l)" by auto
  have "no_loss sa l (received (en_layer b))"
    using ok eff(4) unfolding pair_ok_def half_def no_loss_def by fast
  moreover have "no_loss sb (en_layer b) (received l)"
    using ok eff(3) unfolding pair_ok_def half_def no_loss_def by fast
  ultimately show ?thesis using ok eff(1,2) by (simp add: pair_ok_def half_def)
qed

lemma pair_ok_start: "pair_ok [] [] (endpoint_start cfg) (endpoint_start cfg')"
  by (simp add: pair_ok_def half_def endpoint_start_def layer_ok_def layer_inv_New tx_ok_def rx_ok_def no_loss_def)
     (simp add: New_def)

lemma unwrapped_start: "unwrapped (endpoint_start cfg)"
  by (simp add: unwrapped_def endpoint_start_def)

lemma conn_reach_ok:
  "conn_reach cfg cfg' c \<Longrightarrow>
     (\<exists>sa sb. pair_ok sa sb (fst c) (snd c)) \<and> unwrapped (fst c) \<and> unwrapped (snd c)"
proof (induction rule: conn_reach.induct)
  case start
  then show ?case using pair_ok_start unwrapped_start by auto
next
  case (step c c')
  then obtain sa sb where ok: "pair_ok sa sb (fst c) (snd c)" by blast
  from step.hyps(2) have "\<exists>sa sb. pair_ok sa sb (fst c') (snd c')"
  proof cases
    case (left a a' b)
    then show ?thesis using pair_ok_local [of sa sb a b a'] ok step.hyps(3) by auto
  next
    case (right b b' a)
    then show ?thesis
      using pair_ok_local [OF pair_ok_sym, of sa sb a b b'] ok step.hyps(4) pair_ok_sym by fastforce
  next
    case (to_right o' a now b err l)
    then show ?thesis
      using pair_ok_deliver [OF pair_ok_sym, of sa sb a b o' now err l] ok step.hyps(3) pair_ok_sym by fastforce
  next
    case (to_left o' b now a err l)
    then show ?thesis using pair_ok_deliver [of sa sb a b o' now err l] ok step.hyps(4) by auto
  qed
  then show ?case using step.hyps by blast
qed

section \<open>Properties\<close>

lemma pair_ok_prefix:
  assumes "pair_ok sa sb a b"
  shows "prefix (en_got b) (en_wrote a)"
proof -
  have r: "rx_ok sa (en_got b) (en_layer b)" and w: "concat sa = en_wrote a"
    using assms by (simp_all add: pair_ok_def half_def)
  have "prefix (concat (take n sa)) (concat sa)" for n
    by (metis append_take_drop_id concat_append prefixI)
  then show ?thesis
    using r unfolding w [symmetric] rx_ok_def by (metis append_prefixD)
qed

text \<open>
  A run to try the properties on: one side writes three bytes, the packet crosses the network,
  the other side reads two of them.
\<close>

definition demo_config :: LayerConfig where
  "demo_config = \<lparr>lc_LocalSessionID = 5, lc_InitialKeyID = 0, lc_OutboundBuffer = 4\<rparr>"

definition demo_start :: Endpoint where
  "demo_start = endpoint_start demo_config"

definition demo_known :: Endpoint where
  "demo_known = demo_start\<lparr>en_layer := SetRemoteSessionID 5 (en_layer demo_start)\<rparr>"

definition demo_written :: Endpoint where
  "demo_written = (case Write 7 [1, 2, 3] (en_layer demo_known) of (out, l) \<Rightarrow>
     demo_known\<lparr>en_layer := l, en_wrote := en_wrote demo_known @ taken 0 [1, 2, 3] out\<rparr>)"

definition demo_packet :: OutPacket where
  "demo_packet = hd (ly_outbound (en_layer demo_written))"

definition demo_sender :: Endpoint where
  "demo_sender = demo_written\<lparr>en_layer := snd (take_outbound (en_layer demo_written)),
     en_wire := insert demo_packet (en_wire demo_written)\<rparr>"

definition demo_holder :: Endpoint where
  "demo_holder = demo_start\<lparr>en_layer := snd (HandleInbound 9 (as_inbound demo_packet) (en_layer demo_start))\<rparr>"

definition demo_reader :: Endpoint where
  "demo_reader = demo_holder\<lparr>en_layer := snd (Read 2 (en_layer demo_holder)), en_got := en_got demo_holder @ [1, 2]\<rparr>"

lemma demo_Write:
  "Write 7 [1, 2, 3] (en_layer demo_known) = (WriteDone 3 None,
     (New demo_config)\<lparr>ly_remoteSessionID := 5, ly_remoteKnown := True, ly_nextTxPID := 1,
       ly_txQueue := [(0, \<lparr>pp_msgPID = 0, pp_opcode = PControlV1, pp_body = [1, 2, 3], pp_sentAt = 7,
         pp_attempts = 1, pp_higherACKs = 0\<rparr>)],
       ly_outbound := [control_out PControlV1 0 [1, 2, 3] (en_layer demo_known)]\<rparr>)"
  by (simp add: Write_def write_loop.simps enqueueAndEmitLocked_def emitLocked_def drainAcksLocked_def rel_consts
      demo_known_def demo_start_def endpoint_start_def SetRemoteSessionID_def New_def demo_config_def control_out_def
      Let_def eval_nat_numeral)

lemma demo_written_fields:
  "en_wrote demo_written = [1, 2, 3]" "en_got demo_written = []" "en_resets demo_written = 0"
  "ly_outbound (en_layer demo_written) = [demo_packet]"
  "demo_packet = control_out PControlV1 0 [1, 2, 3] (en_layer demo_known)"
  unfolding demo_packet_def demo_written_def demo_Write
  by (simp_all add: demo_known_def demo_start_def endpoint_start_def)

lemma demo_start_fields:
  "en_wrote demo_start = []" "en_got demo_start = []" "en_resets demo_start = 0" "en_layer demo_start = New demo_config"
  by (simp_all add: demo_start_def endpoint_start_def)

lemma demo_wrote: "en_wrote demo_sender = [1, 2, 3]" and demo_got: "en_got demo_reader = [1, 2]"
  by (simp_all add: demo_sender_def demo_written_fields demo_reader_def demo_holder_def demo_start_fields)

lemma demo_unwrapped:
  "unwrapped demo_start" "unwrapped demo_known" "unwrapped demo_written" "unwrapped demo_sender" "unwrapped demo_holder"
  "unwrapped demo_reader"
  by (simp_all add: unwrapped_def demo_sender_def demo_known_def demo_written_fields demo_reader_def demo_holder_def
      demo_start_fields)

lemma demo_sent: "take_outbound (en_layer demo_written) = (Some demo_packet, snd (take_outbound (en_layer demo_written)))"
  by (simp add: take_outbound_def demo_written_fields)

lemma demo_read: "Read 2 (en_layer demo_holder) = (ReadDone [1, 2], snd (Read 2 (en_layer demo_holder)))"
proof -
  have "ip_Opcode (as_inbound demo_packet) \<noteq> PAckV1"
    by (simp add: as_inbound_def demo_written_fields(5) control_out_def PControlV1_def PAckV1_def)
  then have "ly_readBuf (en_layer demo_holder) = [1, 2, 3]"
    by (simp add: demo_holder_def HandleInbound_eq demo_start_fields)
       (simp add: New_def learn_remote_def as_inbound_def demo_written_fields(5) control_out_def handle_acks_eq
         receive_def drain_rx.simps)
  then show ?thesis by (simp add: Read_def)
qed

lemma demo_conn_reach: "conn_reach demo_config demo_config (demo_sender, demo_reader)"
proof -
  have known: "local_step demo_start demo_known"
    unfolding demo_known_def by (rule local_step.set_remote)
  have written: "local_step demo_known demo_written"
    using local_step.write_call [OF demo_Write] by (simp only: demo_written_def demo_Write prod.case)
  have sender: "local_step demo_written demo_sender"
    unfolding demo_sender_def by (rule local_step.send_packet [OF demo_sent])
  have reader: "local_step demo_holder demo_reader"
    unfolding demo_reader_def by (rule local_step.read_call [OF demo_read])
  have deliver: "conn_step (demo_sender, demo_start) (demo_sender, demo_holder)"
    unfolding demo_holder_def
    by (rule conn_step.to_right [OF _ prod.collapse [symmetric]]) (simp add: demo_sender_def)
  have "conn_reach demo_config demo_config (demo_start, demo_start)"
    unfolding demo_start_def by (rule conn_reach.start)
  then have "conn_reach demo_config demo_config (demo_known, demo_start)"
    by (rule conn_reach.step [OF _ conn_step.left [OF known]]) (simp_all add: demo_unwrapped)
  then have "conn_reach demo_config demo_config (demo_written, demo_start)"
    by (rule conn_reach.step [OF _ conn_step.left [OF written]]) (simp_all add: demo_unwrapped)
  then have "conn_reach demo_config demo_config (demo_sender, demo_start)"
    by (rule conn_reach.step [OF _ conn_step.left [OF sender]]) (simp_all add: demo_unwrapped)
  then have "conn_reach demo_config demo_config (demo_sender, demo_holder)"
    by (rule conn_reach.step [OF _ deliver]) (simp_all add: demo_unwrapped)
  then show ?thesis
    by (rule conn_reach.step [OF _ conn_step.right [OF reader]]) (simp_all add: demo_unwrapped)
qed

text \<open>
  C2. Reliable in-order delivery: in every run of two layers over a network that loses, duplicates
  and reorders packets at will, what one side has read is a prefix of what the other side has
  written: no byte is missing in between, repeated, reordered or invented, in either direction.
\<close>

theorem connection_delivers_prefix:
  assumes "conn_reach cfg cfg' (a, b)"
  shows "prefix (en_got b) (en_wrote a) \<and> prefix (en_got a) (en_wrote b)"
proof -
  obtain sa sb where ok: "pair_ok sa sb a b" using conn_reach_ok [OF assms] by auto
  show ?thesis using pair_ok_prefix [OF ok] pair_ok_prefix [OF pair_ok_sym [OF ok]] by blast
qed

theorem connection_delivers_prefix_witness: "en_got demo_reader = [1, 2] \<and> prefix (en_got demo_reader) (en_wrote demo_sender)"
  using connection_delivers_prefix [OF demo_conn_reach] demo_got by blast



end
