(* ===== verification/Crypto.thy ===== *)
theory Crypto
  imports Replay
begin

text \<open>
  What the control-channel wrappers use of the crypto libraries and of \<^verbatim>\<open>strings\<close>, and the
  64-entry replay window \<^verbatim>\<open>pidWindow\<close> both wrapper packages carry. The block cipher and the
  keyed hash are parameters: a function from key and block to block, and a function from
  digest, key and message to a tag of which the digest's size is kept. Nothing is assumed of
  them. Counter mode and hexadecimal decoding are modelled.
\<close>

section \<open>Keyed hashes and counter mode\<close>

datatype digest = SHA1 | SHA256 | SHA512

primrec digest_size :: "digest \<Rightarrow> nat" where
  "digest_size SHA1 = 20"
| "digest_size SHA256 = 32"
| "digest_size SHA512 = 64"

type_synonym hmac_fn = "digest \<Rightarrow> bytes \<Rightarrow> bytes \<Rightarrow> 512 word"
type_synonym block_fn = "128 word \<Rightarrow> 128 word"
type_synonym aes_fn = "bytes \<Rightarrow> block_fn"

definition hmac_sum :: "hmac_fn \<Rightarrow> digest \<Rightarrow> bytes \<Rightarrow> bytes \<Rightarrow> bytes" where
  "hmac_sum h d key msg = be_bytes (digest_size d) (h d key msg)"

lemma length_hmac_sum [simp]: "length (hmac_sum h d key msg) = digest_size d"
  by (simp add: hmac_sum_def)

text \<open>\<^verbatim>\<open>aes.NewCipher\<close> takes keys of 16, 24 or 32 bytes.\<close>

definition aes_NewCipher :: "aes_fn \<Rightarrow> bytes \<Rightarrow> block_fn option" where
  "aes_NewCipher aes key = (if length key \<in> {16, 24, 32} then Some (aes key) else None)"

text \<open>
  \<^verbatim>\<open>cipher.NewCTR(block, iv).XORKeyStream\<close>: byte \<open>i\<close> is combined with byte \<open>i mod 16\<close> of the
  encryption of the big-endian counter block \<open>iv + i div 16\<close>.
\<close>

definition ctr_byte :: "block_fn \<Rightarrow> bytes \<Rightarrow> nat \<Rightarrow> byte" where
  "ctr_byte block iv i = be_bytes 16 (block (of_be iv + of_nat (i div 16))) ! (i mod 16)"

definition XORKeyStream :: "block_fn \<Rightarrow> bytes \<Rightarrow> bytes \<Rightarrow> bytes" where
  "XORKeyStream block iv src = map (\<lambda>i. src ! i XOR ctr_byte block iv i) [0..<length src]"

lemma length_XORKeyStream [simp]: "length (XORKeyStream block iv src) = length src"
  by (simp add: XORKeyStream_def)

lemma XORKeyStream_involution [simp]: "XORKeyStream block iv (XORKeyStream block iv src) = src"
  by (rule nth_equalityI) (simp_all add: XORKeyStream_def xor.assoc)

section \<open>The control channel's replay window\<close>

record pidWindow =
  pw_highest :: u32
  pw_bitmap :: u64

definition windowSize :: u32 where "windowSize = 64"

definition pidWindow_Accept :: "pidWindow \<Rightarrow> u32 \<Rightarrow> bool \<times> pidWindow" where
  "pidWindow_Accept w pid =
     (if pid = 0 then (False, w)
      else if pid > pw_highest w then
        let shift = pid - pw_highest w;
            w = (if shift \<ge> windowSize then w\<lparr>pw_bitmap := 1\<rparr>
                 else w\<lparr>pw_bitmap := push_bit (unat shift) (pw_bitmap w) OR 1\<rparr>)
        in (True, w\<lparr>pw_highest := pid\<rparr>)
      else if pw_highest w - pid \<ge> windowSize then (False, w)
      else
        let offset = pw_highest w - pid;
            mask = push_bit (unat offset) 1
        in if pw_bitmap w AND mask \<noteq> 0 then (False, w)
           else (True, w\<lparr>pw_bitmap := pw_bitmap w OR mask\<rparr>))"

definition pidWindow_Test :: "pidWindow \<Rightarrow> u32 \<Rightarrow> bool" where
  "pidWindow_Test w pid =
     (if pid = 0 then False
      else if pid > pw_highest w then True
      else if pw_highest w - pid \<ge> windowSize then False
      else pw_bitmap w AND push_bit (unat (pw_highest w - pid)) 1 = 0)"

definition zero_window :: pidWindow where
  "zero_window = \<lparr>pw_highest = 0, pw_bitmap = 0\<rparr>"

subsection \<open>It meets the contract of a sliding window\<close>

definition pw_marked :: "pidWindow \<Rightarrow> nat \<Rightarrow> bool" where
  "pw_marked w k = bit (pw_bitmap w) k"

lemma pw_too_old: "pid \<le> pw_highest w \<Longrightarrow>
    pw_highest w - pid \<ge> windowSize \<longleftrightarrow> 64 \<le> unat (pw_highest w) - unat pid"
  by (simp add: windowSize_def word_le_nat_alt unat_sub_le)

lemma pw_Test_iff:
  "pidWindow_Test w p \<longleftrightarrow> p \<noteq> 0 \<and> (pw_highest w < p \<or>
     unat (pw_highest w) - unat p < 64 \<and> \<not> pw_marked w (unat (pw_highest w) - unat p))"
  using pw_too_old [of p w]
  by (auto simp: pidWindow_Test_def pw_marked_def and_mask_eq_0 unat_sub_le not_less not_le)

lemma pw_Accept_fst: "fst (pidWindow_Accept w p) = pidWindow_Test w p"
  by (simp add: pidWindow_Accept_def pidWindow_Test_def Let_def)

lemma pw_Accept_reject: "\<not> pidWindow_Test w p \<Longrightarrow> snd (pidWindow_Accept w p) = w"
  by (auto simp: pidWindow_Accept_def pidWindow_Test_def Let_def split: if_splits)

lemma pw_Accept_highest: "pidWindow_Test w p \<Longrightarrow> pw_highest (snd (pidWindow_Accept w p)) = max (pw_highest w) p"
  by (auto simp: pidWindow_Accept_def pidWindow_Test_def Let_def max_def split: if_splits)

lemma pw_Accept_marked:
  assumes "pidWindow_Test w p" and "k < 64"
  shows "pw_marked (snd (pidWindow_Accept w p)) k \<longleftrightarrow>
    (if pw_highest w < p
     then k = 0 \<or> unat p - unat (pw_highest w) \<le> k \<and> pw_marked w (k - (unat p - unat (pw_highest w)))
     else pw_marked w k \<or> k = unat (pw_highest w) - unat p)"
proof (cases "pw_highest w < p")
  case True
  then have d: "unat (p - pw_highest w) = unat p - unat (pw_highest w)" by (simp add: unat_sub_le)
  have "p \<noteq> 0" using assms(1) by (auto simp: pidWindow_Test_def)
  then show ?thesis
    using True assms(2) d
    by (auto simp: pidWindow_Accept_def Let_def pw_marked_def windowSize_def word_le_nat_alt bit_simps bit_1_iff)
next
  case False
  then have o: "unat (pw_highest w - p) = unat (pw_highest w) - unat p" by (simp add: unat_sub_le)
  have "p \<noteq> 0" "\<not> pw_highest w - p \<ge> windowSize" "pw_bitmap w AND push_bit (unat (pw_highest w - p)) 1 = 0"
    using assms(1) False by (auto simp: pidWindow_Test_def split: if_splits)
  then show ?thesis
    using False assms(2) o by (auto simp: pidWindow_Accept_def Let_def pw_marked_def bit_simps bit_1_iff)
qed

interpretation pw: replay_filter "\<lambda>_. True" "\<lambda>_. 64" pw_highest pw_marked pidWindow_Accept pidWindow_Test
  by unfold_locales
     (simp_all add: pw_Test_iff pw_Accept_fst pw_Accept_reject pw_Accept_highest pw_Accept_marked)

lemma pw_represents_zero: "pw.represents zero_window {}"
  by (auto simp: pw.represents_def zero_window_def)

end
