(* ===== verification/ControlWrapper.thy ===== *)
theory ControlWrapper
  imports Crypto
begin

text \<open>
  The interface \<^verbatim>\<open>controlWrapper\<close> the session uses (\<^verbatim>\<open>internal/session/session.go\<close>): wrap an
  outbound control packet, verify and unwrap an inbound one. Two providers implement it,
  \<^verbatim>\<open>internal/tlscrypt\<close> and \<^verbatim>\<open>internal/tlsauth\<close>. The locale holds what the session relies on:
  a packet wrapped by one end unwraps on the other end, packet-ids count up by one, the
  window moves for authenticated packets only. What follows for sequences of packets is
  proved here once.
\<close>

type_synonym unwrapped_packet = "byte \<times> u64 \<times> u32 \<times> bytes"

text \<open>
  Wrapping a sequence of messages (each with its clock reading), unwrapping a sequence of
  packets, the packet-ids of those that were accepted, and what a receiver should get.
\<close>

type_synonym message = "u32 \<times> byte \<times> u64 \<times> bytes"

fun wrap_all :: "(u32 \<Rightarrow> 'w \<Rightarrow> byte \<Rightarrow> u64 \<Rightarrow> bytes \<Rightarrow> bytes \<times> 'w) \<Rightarrow> 'w \<Rightarrow> message list \<Rightarrow> bytes list" where
  "wrap_all wrap w [] = []"
| "wrap_all wrap w ((t, opk, sid, pt) # ms) = (case wrap t w opk sid pt of (pkt, w') \<Rightarrow> pkt # wrap_all wrap w' ms)"

fun unwrap_all :: "('w \<Rightarrow> bytes \<Rightarrow> ('e, unwrapped_packet) result \<times> 'w) \<Rightarrow> 'w \<Rightarrow> bytes list \<Rightarrow>
    ('e, unwrapped_packet) result list" where
  "unwrap_all unwrap r [] = []"
| "unwrap_all unwrap r (p # ps) = (case unwrap r p of (x, r') \<Rightarrow> x # unwrap_all unwrap r' ps)"

definition pids_of :: "('e, unwrapped_packet) result list \<Rightarrow> u32 list" where
  "pids_of xs = concat (map (\<lambda>x. case x of Inl e \<Rightarrow> [] | Inr (opk, sid, pid, pt) \<Rightarrow> [pid]) xs)"

lemma pids_of_simps [simp]:
  "pids_of [] = []" "pids_of (Inl e # xs) = pids_of xs" "pids_of (Inr (opk, sid, pid, pt) # xs) = pid # pids_of xs"
  by (simp_all add: pids_of_def)

fun expect :: "u32 \<Rightarrow> message list \<Rightarrow> unwrapped_packet list" where
  "expect n [] = []"
| "expect n ((t, opk, sid, pt) # ms) = (opk, sid, n + 1, pt) # expect (n + 1) ms"

locale control_wrapper =
  fixes wrap :: "u32 \<Rightarrow> 'w \<Rightarrow> byte \<Rightarrow> u64 \<Rightarrow> bytes \<Rightarrow> bytes \<times> 'w"
    and unwrap :: "'w \<Rightarrow> bytes \<Rightarrow> ('e, unwrapped_packet) result \<times> 'w"
    and win :: "'w \<Rightarrow> pidWindow"
    and send_pid :: "'w \<Rightarrow> u32"
    and ready :: "'w \<Rightarrow> bool"
    and peers :: "'w \<Rightarrow> 'w \<Rightarrow> bool"
    and replay_err :: "'w \<Rightarrow> u32 \<Rightarrow> 'e"
  assumes wrap_pid: "send_pid (snd (wrap t w opk sid pt)) = send_pid w + 1"
    and wrap_ready: "ready w \<Longrightarrow> ready (snd (wrap t w opk sid pt))"
    and wrap_peers: "peers w r \<Longrightarrow> peers (snd (wrap t w opk sid pt)) r"
    and unwrap_wrap: "ready w \<Longrightarrow> peers w r \<Longrightarrow> fst (unwrap r (fst (wrap t w opk sid pt))) =
      (if pidWindow_Test (win r) (send_pid w + 1) then Inr (opk, sid, send_pid w + 1, pt)
       else Inl (replay_err r (send_pid w + 1)))"
    and unwrap_win: "win (snd (unwrap r p)) =
      (case fst (unwrap r p) of Inl e \<Rightarrow> win r | Inr (opk, sid, pid, pt) \<Rightarrow> snd (pidWindow_Accept (win r) pid))"
    and unwrap_fresh: "fst (unwrap r p) = Inr (opk, sid, pid, pt) \<Longrightarrow> pidWindow_Test (win r) pid"
    and unwrap_peers: "peers w r \<Longrightarrow> peers w (snd (unwrap r p))"
begin

lemma no_replay:
  "pw.represents (win r) S \<Longrightarrow> distinct (pids_of (unwrap_all unwrap r ps)) \<and> set (pids_of (unwrap_all unwrap r ps)) \<inter> S = {}"
proof (induction ps arbitrary: r S)
  case Nil
  then show ?case by simp
next
  case (Cons p ps)
  obtain x r' where u: "unwrap r p = (x, r')" by (cases "unwrap r p")
  show ?case
  proof (cases x)
    case (Inl e)
    then have "win r' = win r" using unwrap_win [of r p] u by simp
    then show ?thesis using Cons.IH [of r' S] Cons.prems u Inl by simp
  next
    case (Inr y)
    obtain opk sid pid pt where y: "y = (opk, sid, pid, pt)" by (cases y)
    have fresh: "pidWindow_Test (win r) pid" using unwrap_fresh [of r p] u Inr y by simp
    have "win r' = snd (pidWindow_Accept (win r) pid)" using unwrap_win [of r p] u Inr y by simp
    then have "pw.represents (win r') (insert pid S)" using pw.represents_acc [OF Cons.prems fresh] by simp
    moreover have "pid \<notin> S" using pw.accepted_not_fresh [OF Cons.prems] fresh by blast
    ultimately show ?thesis using Cons.IH [of r' "insert pid S"] u Inr y by auto
  qed
qed

lemma in_order:
  "ready w \<Longrightarrow> peers w r \<Longrightarrow> pw_highest (win r) \<le> send_pid w \<Longrightarrow> unat (send_pid w) + length ms < 2 ^ 32 \<Longrightarrow>
     unwrap_all unwrap r (wrap_all wrap w ms) = map Inr (expect (send_pid w) ms)"
proof (induction ms arbitrary: w r)
  case Nil
  then show ?case by simp
next
  case (Cons m ms)
  obtain t opk sid pt where m: "m = (t, opk, sid, pt)" by (cases m)
  obtain pkt w' where w: "wrap t w opk sid pt = (pkt, w')" by (cases "wrap t w opk sid pt")
  obtain x r' where u: "unwrap r pkt = (x, r')" by (cases "unwrap r pkt")
  have un: "unat (send_pid w + 1) = unat (send_pid w) + 1"
    using Cons.prems(4) by (subst unat_add_lem [THEN iffD1]) auto
  then have up: "send_pid w < send_pid w + 1" and nz: "send_pid w + 1 \<noteq> 0"
    by (auto simp: word_less_nat_alt)
  then have fresh: "pidWindow_Test (win r) (send_pid w + 1)"
    using Cons.prems(3) by (auto simp: pidWindow_Test_def)
  then have x: "x = Inr (opk, sid, send_pid w + 1, pt)"
    using unwrap_wrap [OF Cons.prems(1,2), of t opk sid pt] w u by simp
  have "win r' = snd (pidWindow_Accept (win r) (send_pid w + 1))"
    using unwrap_win [of r pkt] u x by simp
  then have high: "pw_highest (win r') = send_pid w + 1"
    using pw_Accept_highest [OF fresh] order_trans [OF Cons.prems(3) less_imp_le [OF up]]
    by (simp add: max.absorb2)
  have w': "send_pid w' = send_pid w + 1" "ready w'" "peers w' r'"
    using wrap_pid [of t w opk sid pt] wrap_ready [OF Cons.prems(1), of t opk sid pt]
      unwrap_peers [OF wrap_peers [OF Cons.prems(2), of t opk sid pt], of pkt] w u by simp_all
  have "unwrap_all unwrap r' (wrap_all wrap w' ms) = map Inr (expect (send_pid w') ms)"
    using Cons.IH [of w' r'] w' high Cons.prems(4) un by simp
  then show ?case by (simp add: m w u x w'(1))
qed

end

end
