(* ===== verification/TlsCrypt.thy ===== *)
theory TlsCrypt
  imports ControlWrapper "HOL-Library.Sublist"
begin

text \<open>
  The control-channel encryption layer (\<^verbatim>\<open>internal/tlscrypt\<close>): static keys and their directions
  (\<^verbatim>\<open>keys.go\<close>), the synthetic-IV wrapper (\<^verbatim>\<open>v1.go\<close>), wrapped client keys and client bundles
  (\<^verbatim>\<open>v2.go\<close>). \<^verbatim>\<open>[N]byte\<close> arrays are byte lists; the definitions that build them give them
  their length. The PEM codec is a parameter.
\<close>

section \<open>Static keys (keys.go)\<close>

definition StaticKeyLen :: nat where "StaticKeyLen = 256"
definition DirectionNormal :: int where "DirectionNormal = 0"
definition DirectionInverse :: int where "DirectionInverse = 1"
definition hmacKeyLen :: nat where "hmacKeyLen = 32"
definition cipherKeyLen :: nat where "cipherKeyLen = 32"
definition slotLen :: nat where "slotLen = 64"

record Keys =
  SendHMAC :: bytes
  SendCipher :: bytes
  RecvHMAC :: bytes
  RecvCipher :: bytes

text \<open>
  The errors of the package. A key file whose body has the wrong length or is not hexadecimal
  is one constructor. \<open>SliceBoundsPanic\<close> is the run-time panic of a slice expression whose
  bounds are out of order.
\<close>

datatype tlscrypt_error =
    MissingEnvelope
  | MissingEndMarker
  | BadKeyBody
  | SliceBoundsPanic
  | NewCipherFailed
  | WrappedTooShort nat
  | ReplayedPID u32
  | ErrAuthFailed
  | NoPEMBlock
  | UnexpectedPEMType string
  | BundleTooShort nat
  | WKcLengthMismatch
  | WKcTooLarge nat
  | WKcTooShort nat
  | WKcAuthFailed

text \<open>\<^verbatim>\<open>strings.Index\<close>.\<close>

fun str_index :: "'a list \<Rightarrow> 'a list \<Rightarrow> nat option" where
  "str_index pat s =
     (if prefix pat s then Some 0
      else case s of [] \<Rightarrow> None | c # s' \<Rightarrow> map_option Suc (str_index pat s'))"

declare str_index.simps [simp del]

definition findMarker :: "bytes \<Rightarrow> string \<Rightarrow> string \<Rightarrow> (nat \<times> nat) option" where
  "findMarker data prefix' suffix' =
     (let marker = bytes_of_string (prefix' @ ''Key'' @ suffix')
      in case str_index marker data of
           Some i \<Rightarrow> Some (i, length marker)
         | None \<Rightarrow>
             let marker = bytes_of_string (prefix' @ ''key'' @ suffix')
             in map_option (\<lambda>i. (i, length marker)) (str_index marker data))"

text \<open>\<^verbatim>\<open>hex.DecodeString\<close>.\<close>

definition from_hex :: "byte \<Rightarrow> byte option" where
  "from_hex c =
     (if 48 \<le> c \<and> c \<le> 57 then Some (c - 48)
      else if 97 \<le> c \<and> c \<le> 102 then Some (c - 87)
      else if 65 \<le> c \<and> c \<le> 70 then Some (c - 55)
      else None)"

fun hex_decode :: "bytes \<Rightarrow> bytes option" where
  "hex_decode [] = Some []"
| "hex_decode [c] = None"
| "hex_decode (a # b # cs) =
     (case (from_hex a, from_hex b, hex_decode cs) of
        (Some x, Some y, Some bs) \<Rightarrow> Some ((push_bit 4 x OR y) # bs)
      | _ \<Rightarrow> None)"

definition is_key_space :: "byte \<Rightarrow> bool" where
  "is_key_space c \<longleftrightarrow> c = 32 \<or> c = 9 \<or> c = 13 \<or> c = 10"

text \<open>
  The body of the envelope is \<^verbatim>\<open>data[bi+beginLen : ei]\<close>; Go panics when the lower bound
  exceeds the upper one.
\<close>

definition ParseStaticKey :: "bytes \<Rightarrow> (tlscrypt_error, bytes) result" where
  "ParseStaticKey data =
     (case findMarker data ''-----BEGIN OpenVPN Static '' '' V1-----'' of
        None \<Rightarrow> if length data = StaticKeyLen then Inr data else Inl MissingEnvelope
      | Some (bi, beginLen) \<Rightarrow>
          (case findMarker data ''-----END OpenVPN Static '' '' V1-----'' of
             None \<Rightarrow> Inl MissingEndMarker
           | Some (ei, _) \<Rightarrow>
               if ei < bi then Inl MissingEndMarker
               else if bi + beginLen > ei then Inl SliceBoundsPanic
               else
                 let body = filter (\<lambda>c. \<not> is_key_space c) (subslice data (bi + beginLen) ei)
                 in if length body \<noteq> StaticKeyLen * 2 then Inl BadKeyBody
                    else case hex_decode body of None \<Rightarrow> Inl BadKeyBody | Some key \<Rightarrow> Inr key))"

definition DeriveKeys :: "bytes \<Rightarrow> int \<Rightarrow> Keys" where
  "DeriveKeys raw dir =
     (let cipher0Off = 0; hmac0Off = slotLen; cipher1Off = 2 * slotLen; hmac1Off = 3 * slotLen
      in if dir = DirectionInverse
         then \<lparr>SendHMAC = subslice raw hmac1Off (hmac1Off + hmacKeyLen),
               SendCipher = subslice raw cipher1Off (cipher1Off + cipherKeyLen),
               RecvHMAC = subslice raw hmac0Off (hmac0Off + hmacKeyLen),
               RecvCipher = subslice raw cipher0Off (cipher0Off + cipherKeyLen)\<rparr>
         else \<lparr>SendHMAC = subslice raw hmac0Off (hmac0Off + hmacKeyLen),
               SendCipher = subslice raw cipher0Off (cipher0Off + cipherKeyLen),
               RecvHMAC = subslice raw hmac1Off (hmac1Off + hmacKeyLen),
               RecvCipher = subslice raw cipher1Off (cipher1Off + cipherKeyLen)\<rparr>)"

section \<open>The wrapper (v1.go)\<close>

definition hmacLen :: nat where "hmacLen = 32"
definition pidLen :: nat where "pidLen = 8"
definition wrapPrefixLen :: nat where "wrapPrefixLen = pidLen + hmacLen"
definition crypt_HeaderLen :: nat where "crypt_HeaderLen = 1 + 8"
definition MinWrappedLen :: nat where "MinWrappedLen = crypt_HeaderLen + wrapPrefixLen"

record Wrapper =
  wr_keys :: Keys
  wr_sendBlock :: block_fn
  wr_recvBlock :: block_fn
  wr_sendPID :: u32
  wr_recvWin :: pidWindow
  wr_firstWrapTrailer :: bytes

definition Wrapper_New :: "aes_fn \<Rightarrow> bytes \<Rightarrow> int \<Rightarrow> (tlscrypt_error, Wrapper) result" where
  "Wrapper_New aes rawKey dir =
     (let k = DeriveKeys rawKey dir
      in case aes_NewCipher aes (SendCipher k) of
           None \<Rightarrow> Inl NewCipherFailed
         | Some sb \<Rightarrow> (case aes_NewCipher aes (RecvCipher k) of
               None \<Rightarrow> Inl NewCipherFailed
             | Some rb \<Rightarrow> Inr \<lparr>wr_keys = k, wr_sendBlock = sb, wr_recvBlock = rb, wr_sendPID = 0,
                   wr_recvWin = zero_window, wr_firstWrapTrailer = []\<rparr>))"

text \<open>\<open>netTime\<close> is the clock reading of the call.\<close>

definition Wrap :: "hmac_fn \<Rightarrow> u32 \<Rightarrow> Wrapper \<Rightarrow> byte \<Rightarrow> u64 \<Rightarrow> bytes \<Rightarrow> bytes \<times> Wrapper" where
  "Wrap h netTime w opcodeKID sessionID plaintext =
     (let pid = wr_sendPID w + 1;
          w = w\<lparr>wr_sendPID := pid\<rparr>;
          trailer = wr_firstWrapTrailer w;
          w = w\<lparr>wr_firstWrapTrailer := []\<rparr>;
          ad = [opcodeKID] @ put_uint64 sessionID @ put_uint32 pid @ put_uint32 netTime;
          tag = hmac_sum h SHA256 (SendHMAC (wr_keys w)) (ad @ plaintext);
          cipherText = XORKeyStream (wr_sendBlock w) (take 16 tag) plaintext;
          out = ad @ tag @ cipherText
      in (if length trailer > 0 then out @ trailer else out, w))"

definition SetFirstWrapTrailer :: "bytes \<Rightarrow> Wrapper \<Rightarrow> Wrapper" where
  "SetFirstWrapTrailer b w = w\<lparr>wr_firstWrapTrailer := b\<rparr>"

definition Unwrap :: "hmac_fn \<Rightarrow> Wrapper \<Rightarrow> bytes \<Rightarrow> (tlscrypt_error, unwrapped_packet) result \<times> Wrapper" where
  "Unwrap h w packet =
     (if length packet < MinWrappedLen then (Inl (WrappedTooShort (length packet)), w)
      else
        let opcodeKID = packet ! 0;
            sessionID = uint64_of (subslice packet 1 9);
            packetID = uint32_of (subslice packet 9 13);
            gotHMAC = subslice packet 17 (17 + hmacLen);
            cipherText = drop (17 + hmacLen) packet;
            plain = XORKeyStream (wr_recvBlock w) (take 16 gotHMAC) cipherText
        in if \<not> pidWindow_Test (wr_recvWin w) packetID then (Inl (ReplayedPID packetID), w)
           else
             let expectedHMAC = hmac_sum h SHA256 (RecvHMAC (wr_keys w)) (take 17 packet @ plain)
             in if gotHMAC \<noteq> expectedHMAC then (Inl ErrAuthFailed, w)
                else case pidWindow_Accept (wr_recvWin w) packetID of (ok, win) \<Rightarrow>
                  let w = w\<lparr>wr_recvWin := win\<rparr>
                  in if \<not> ok then (Inl (ReplayedPID packetID), w)
                     else (Inr (opcodeKID, sessionID, packetID, plain), w))"

definition Wrapper_SendPID :: "Wrapper \<Rightarrow> u32" where
  "Wrapper_SendPID w = wr_sendPID w"

section \<open>Client bundles (v2.go)\<close>

definition V2BundlePEMType :: string where "V2BundlePEMType = ''OpenVPN tls-crypt-v2 client key''"
definition V2TagLen :: nat where "V2TagLen = 32"
definition V2LenLen :: nat where "V2LenLen = 2"
definition V2MinWKcLen :: nat where "V2MinWKcLen = V2TagLen + StaticKeyLen + V2LenLen"

record V2Bundle =
  Kc :: bytes
  WKc :: bytes

text \<open>The PEM codec: the first block's type and bytes, if there is one; and the encoder.\<close>

record pem_codec =
  pem_Decode :: "bytes \<Rightarrow> (string \<times> bytes) option"
  pem_Encode :: "string \<Rightarrow> bytes \<Rightarrow> bytes"

definition ParseClientBundleV2 :: "pem_codec \<Rightarrow> bytes \<Rightarrow> (tlscrypt_error, V2Bundle) result" where
  "ParseClientBundleV2 pem data =
     (case pem_Decode pem data of
        None \<Rightarrow> Inl NoPEMBlock
      | Some (ty, body) \<Rightarrow>
          if ty \<noteq> V2BundlePEMType then Inl (UnexpectedPEMType ty)
          else if length body < StaticKeyLen + V2MinWKcLen then Inl (BundleTooShort (length body))
          else
            let wkc = drop StaticKeyLen body;
                declared = uint16_of (drop (length wkc - V2LenLen) wkc)
            in if unat declared \<noteq> length wkc then Inl WKcLengthMismatch
               else Inr \<lparr>Kc = take StaticKeyLen body, WKc = wkc\<rparr>)"

definition EncodeClientBundleV2 :: "pem_codec \<Rightarrow> bytes \<Rightarrow> bytes \<Rightarrow> bytes" where
  "EncodeClientBundleV2 pem kc wkc = pem_Encode pem V2BundlePEMType (kc @ wkc)"

definition WrapWKc :: "hmac_fn \<Rightarrow> aes_fn \<Rightarrow> bytes \<Rightarrow> bytes \<Rightarrow> bytes \<Rightarrow> bytes \<Rightarrow> (tlscrypt_error, bytes) result" where
  "WrapWKc h aes kc metadata ka ke =
     (let plaintextLen = StaticKeyLen + length metadata;
          wkcLen = V2TagLen + plaintextLen + V2LenLen
      in if wkcLen > 0xFFFF then Inl (WKcTooLarge wkcLen)
         else
           let lenBuf = put_uint16 (of_nat wkcLen);
               t = hmac_sum h SHA256 ka (lenBuf @ kc @ metadata)
           in case aes_NewCipher aes ke of
                None \<Rightarrow> Inl NewCipherFailed
              | Some block \<Rightarrow>
                  let ct = XORKeyStream block (take 16 t) (kc @ metadata)
                  in Inr (t @ ct @ lenBuf))"

definition UnwrapWKc :: "hmac_fn \<Rightarrow> aes_fn \<Rightarrow> bytes \<Rightarrow> bytes \<Rightarrow> bytes \<Rightarrow> (tlscrypt_error, bytes \<times> bytes) result" where
  "UnwrapWKc h aes wkc ka ke =
     (if length wkc < V2MinWKcLen then Inl (WKcTooShort (length wkc))
      else
        let lenField = drop (length wkc - V2LenLen) wkc
        in if unat (uint16_of lenField) \<noteq> length wkc then Inl WKcLengthMismatch
           else
             let tag = take V2TagLen wkc;
                 ct = subslice wkc V2TagLen (length wkc - V2LenLen)
             in if length ct < StaticKeyLen then Inl (WKcTooShort (length ct))
                else case aes_NewCipher aes ke of
                  None \<Rightarrow> Inl NewCipherFailed
                | Some block \<Rightarrow>
                    let plain = XORKeyStream block (take 16 tag) ct;
                        expected = hmac_sum h SHA256 ka (lenField @ plain)
                    in if tag \<noteq> expected then Inl WKcAuthFailed
                       else Inr (take StaticKeyLen plain, drop StaticKeyLen plain))"

section \<open>Lemmas\<close>

definition wrapper_ready :: "Wrapper \<Rightarrow> bool" where
  "wrapper_ready w \<longleftrightarrow> wr_firstWrapTrailer w = []"

definition wrapper_peers :: "Wrapper \<Rightarrow> Wrapper \<Rightarrow> bool" where
  "wrapper_peers w r \<longleftrightarrow> RecvHMAC (wr_keys r) = SendHMAC (wr_keys w) \<and> wr_recvBlock r = wr_sendBlock w"

text \<open>The authenticated header and the wire form of a control packet, without trailer.\<close>

definition crypt_ad :: "byte \<Rightarrow> u64 \<Rightarrow> u32 \<Rightarrow> u32 \<Rightarrow> bytes" where
  "crypt_ad opk sid pid t = [opk] @ put_uint64 sid @ put_uint32 pid @ put_uint32 t"

definition crypt_packet :: "hmac_fn \<Rightarrow> u32 \<Rightarrow> Wrapper \<Rightarrow> u32 \<Rightarrow> byte \<Rightarrow> u64 \<Rightarrow> bytes \<Rightarrow> bytes" where
  "crypt_packet h t w pid opk sid pt =
     (let tag = hmac_sum h SHA256 (SendHMAC (wr_keys w)) (crypt_ad opk sid pid t @ pt)
      in crypt_ad opk sid pid t @ tag @ XORKeyStream (wr_sendBlock w) (take 16 tag) pt)"

lemma Wrap_eq:
  "Wrap h t w opk sid pt =
     (crypt_packet h t w (wr_sendPID w + 1) opk sid pt @ wr_firstWrapTrailer w,
      w\<lparr>wr_sendPID := wr_sendPID w + 1, wr_firstWrapTrailer := []\<rparr>)"
  by (simp add: Wrap_def crypt_packet_def crypt_ad_def Let_def)

text \<open>The fields of a packet with its fixed layout.\<close>

lemma packet_fields:
  assumes "length tag = 32" and "p = crypt_ad opk sid pid t @ tag @ ct"
  shows "length p = 49 + length ct" "p ! 0 = opk" "uint64_of (subslice p 1 9) = sid"
    "uint32_of (subslice p 9 13) = pid" "subslice p 17 (17 + hmacLen) = tag" "drop (17 + hmacLen) p = ct"
    "take 17 p = crypt_ad opk sid pid t"
  using assms(1) by (simp_all add: assms(2) crypt_ad_def subslice_def hmacLen_def)

lemma Accept_Test: "pidWindow_Accept w p = (pidWindow_Test w p, snd (pidWindow_Accept w p))"
  by (simp add: prod_eq_iff pw_Accept_fst)

lemma Unwrap_crypt_packet:
  assumes "wrapper_peers w r"
  shows "Unwrap h r (crypt_packet h t w pid opk sid pt) =
    (if pidWindow_Test (wr_recvWin r) pid
     then (Inr (opk, sid, pid, pt), r\<lparr>wr_recvWin := snd (pidWindow_Accept (wr_recvWin r) pid)\<rparr>)
     else (Inl (ReplayedPID pid), r))"
proof -
  define tag where "tag = hmac_sum h SHA256 (SendHMAC (wr_keys w)) (crypt_ad opk sid pid t @ pt)"
  define p where "p = crypt_packet h t w pid opk sid pt"
  have len: "length tag = 32" by (simp add: tag_def)
  have p: "p = crypt_ad opk sid pid t @ tag @ XORKeyStream (wr_sendBlock w) (take 16 tag) pt"
    by (simp add: p_def crypt_packet_def Let_def tag_def)
  note f = packet_fields [OF len p]
  have dec: "XORKeyStream (wr_recvBlock r) (take 16 tag) (XORKeyStream (wr_sendBlock w) (take 16 tag) pt) = pt"
    using assms by (simp add: wrapper_peers_def)
  have mac: "hmac_sum h SHA256 (RecvHMAC (wr_keys r)) (crypt_ad opk sid pid t @ pt) = tag"
    using assms by (simp add: tag_def wrapper_peers_def)
  have long: "\<not> length p < MinWrappedLen"
    by (simp add: f(1) MinWrappedLen_def crypt_HeaderLen_def wrapPrefixLen_def pidLen_def hmacLen_def)
  have "Unwrap h r p =
    (if pidWindow_Test (wr_recvWin r) pid
     then (Inr (opk, sid, pid, pt), r\<lparr>wr_recvWin := snd (pidWindow_Accept (wr_recvWin r) pid)\<rparr>)
     else (Inl (ReplayedPID pid), r))"
    unfolding Unwrap_def Let_def if_not_P [OF long]
    unfolding f dec mac by (subst Accept_Test) simp
  then show ?thesis by (simp add: p_def)
qed

lemma Unwrap_cases:
  "Unwrap h r p = (x, r') \<Longrightarrow>
     (case x of Inl e \<Rightarrow> r' = r
      | Inr (opk, sid, pid, pt) \<Rightarrow> pidWindow_Test (wr_recvWin r) pid \<and>
          r' = r\<lparr>wr_recvWin := snd (pidWindow_Accept (wr_recvWin r) pid)\<rparr> \<and>
          pid = uint32_of (subslice p 9 13) \<and>
          subslice p 17 49 = hmac_sum h SHA256 (RecvHMAC (wr_keys r)) (take 17 p @ pt))"
  unfolding Unwrap_def Let_def hmacLen_def
  by (subst (asm) Accept_Test) (auto split: if_splits)

interpretation crypt: control_wrapper "Wrap h" "Unwrap h" wr_recvWin wr_sendPID wrapper_ready wrapper_peers "\<lambda>_. ReplayedPID"
  for h
proof unfold_locales
  fix r p
  obtain x r' where u: "Unwrap h r p = (x, r')" by (cases "Unwrap h r p")
  show "wr_recvWin (snd (Unwrap h r p)) = (case fst (Unwrap h r p) of Inl e \<Rightarrow> wr_recvWin r
      | Inr (opk, sid, pid, pt) \<Rightarrow> snd (pidWindow_Accept (wr_recvWin r) pid))"
    using Unwrap_cases [OF u] u by (auto split: sum.splits)
  show "fst (Unwrap h r p) = Inr (opk, sid, pid, pt) \<Longrightarrow> pidWindow_Test (wr_recvWin r) pid" for opk sid pid pt
    using Unwrap_cases [OF u] u by auto
  show "wrapper_peers w r \<Longrightarrow> wrapper_peers w (snd (Unwrap h r p))" for w
    using Unwrap_cases [OF u] u by (auto simp: wrapper_peers_def split: sum.splits)
qed (simp_all add: Wrap_eq wrapper_ready_def Unwrap_crypt_packet, simp add: wrapper_peers_def)

text \<open>The two orientations of one static key are each other's peers.\<close>

lemma New_peers:
  assumes "length raw = StaticKeyLen"
  obtains c s where "Wrapper_New aes raw DirectionInverse = Inr c" "Wrapper_New aes raw DirectionNormal = Inr s"
    "wrapper_peers c s" "wrapper_peers s c" "wrapper_ready c" "wrapper_ready s"
    "wr_recvWin c = zero_window" "wr_recvWin s = zero_window" "wr_sendPID c = 0" "wr_sendPID s = 0"
  using assms
  by (simp add: Wrapper_New_def DeriveKeys_def Let_def aes_NewCipher_def DirectionInverse_def DirectionNormal_def
      StaticKeyLen_def slotLen_def hmacKeyLen_def cipherKeyLen_def wrapper_peers_def wrapper_ready_def)

lemma UnwrapWKc_layout:
  assumes "length t = 32" and "length ct = StaticKeyLen + m" and "n = 34 + StaticKeyLen + m" and "n \<le> 0xFFFF"
    and "wkc = t @ ct @ put_uint16 (of_nat n)"
  shows "length wkc = n" "drop (length wkc - V2LenLen) wkc = put_uint16 (of_nat n)" "take V2TagLen wkc = t"
    "subslice wkc V2TagLen (length wkc - V2LenLen) = ct" "unat (of_nat n :: u16) = n" "V2MinWKcLen \<le> n"
proof -
  show "unat (of_nat n :: u16) = n" using assms(4) by (intro unat_of_nat_u16) simp
qed (use assms in \<open>simp_all add: V2LenLen_def V2TagLen_def V2MinWKcLen_def subslice_def\<close>)

lemma UnwrapWKc_WrapWKc:
  assumes "WrapWKc h aes kc metadata ka ke = Inr wkc" and "length kc = StaticKeyLen"
  shows "UnwrapWKc h aes wkc ka ke = Inr (kc, metadata)"
proof -
  define n where "n = 34 + StaticKeyLen + length metadata"
  define t where "t = hmac_sum h SHA256 ka (put_uint16 (of_nat n) @ kc @ metadata)"
  have nn: "V2TagLen + (StaticKeyLen + length metadata) + V2LenLen = n" by (simp add: n_def V2TagLen_def V2LenLen_def)
  from assms(1) obtain block where le: "n \<le> 0xFFFF" and b: "aes_NewCipher aes ke = Some block"
    and wkc: "wkc = t @ XORKeyStream block (take 16 t) (kc @ metadata) @ put_uint16 (of_nat n)"
    unfolding WrapWKc_def Let_def nn t_def by (auto split: if_splits option.splits)
  have lt: "length t = 32" by (simp add: t_def)
  note f = UnwrapWKc_layout [OF lt _ n_def le wkc]
  have fl: "length (XORKeyStream block (take 16 t) (kc @ metadata)) = StaticKeyLen + length metadata"
    using assms(2) by simp
  note f = f [OF fl]
  show ?thesis
    unfolding UnwrapWKc_def Let_def f(2-4)
    using f(1,5,6) b assms(2) by (simp add: t_def)
qed

lemma hex_decode_length: "hex_decode cs = Some bs \<Longrightarrow> length cs = 2 * length bs"
  by (induction cs arbitrary: bs rule: hex_decode.induct) (auto split: option.splits)

section \<open>Properties\<close>

text \<open>
  C38. The encrypted control channel is transparent: for every static key, whatever the block cipher
  and the keyed hash compute, the client's wrapper (inverse direction) and the server's (normal
  direction) can be built, and every sequence of control messages the client wraps is unwrapped
  by the server to exactly the same opcodes, session-ids and plaintexts, with packet-ids counting
  from one; the same from the server to the client.
\<close>

theorem tls_crypt_channel:
  assumes "length raw = StaticKeyLen" and "length ms < 2 ^ 32"
  shows "\<exists>c s. Wrapper_New aes raw DirectionInverse = Inr c \<and> Wrapper_New aes raw DirectionNormal = Inr s \<and>
    unwrap_all (Unwrap h) s (wrap_all (Wrap h) c ms) = map Inr (expect 0 ms) \<and>
    unwrap_all (Unwrap h) c (wrap_all (Wrap h) s ms) = map Inr (expect 0 ms)"
proof -
  obtain c s where new: "Wrapper_New aes raw DirectionInverse = Inr c" "Wrapper_New aes raw DirectionNormal = Inr s"
    and peers: "wrapper_peers c s" "wrapper_peers s c" and ready: "wrapper_ready c" "wrapper_ready s"
    and fresh: "wr_recvWin c = zero_window" "wr_recvWin s = zero_window" "wr_sendPID c = 0" "wr_sendPID s = 0"
    using New_peers [OF assms(1)] .
  have "unwrap_all (Unwrap h) s (wrap_all (Wrap h) c ms) = map Inr (expect 0 ms)"
    using crypt.in_order [OF ready(1) peers(1), of ms h] assms(2) by (simp add: fresh zero_window_def)
  moreover have "unwrap_all (Unwrap h) c (wrap_all (Wrap h) s ms) = map Inr (expect 0 ms)"
    using crypt.in_order [OF ready(2) peers(2), of ms h] assms(2) by (simp add: fresh zero_window_def)
  ultimately show ?thesis using new by blast
qed

theorem tls_crypt_channel_witness:
  "\<exists>c s. Wrapper_New (\<lambda>key b. b + 1) (replicate 256 7) DirectionInverse = Inr c \<and>
    Wrapper_New (\<lambda>key b. b + 1) (replicate 256 7) DirectionNormal = Inr s \<and>
    unwrap_all (Unwrap (\<lambda>d key m. of_nat (length m))) s (wrap_all (Wrap (\<lambda>d key m. of_nat (length m))) c [(5, 56, 9, [1, 2])])
      = [Inr (56, 9, 1, [1, 2])]"
  using tls_crypt_channel [of "replicate 256 7" "[(5, 56, 9, [1, 2])]" "\<lambda>key b. b + 1" "\<lambda>d key m. of_nat (length m)"]
  by (auto simp: StaticKeyLen_def)

text \<open>
  C9. Against an attacker on the network: over any sequence of packets whatsoever, an unwrapper
  never accepts a packet-id twice, and whatever it accepts carries the keyed hash of its own
  header and plaintext under the receive key; a refused packet leaves the wrapper unchanged.
\<close>

theorem tls_crypt_authentic:
  assumes "Unwrap h r p = (x, r')" and "pw.represents (wr_recvWin r) S"
  shows "distinct (pids_of (unwrap_all (Unwrap h) r ps)) \<and>
    (case x of Inl e \<Rightarrow> r' = r
     | Inr (opk, sid, pid, pt) \<Rightarrow> pid \<notin> S \<and> pw.represents (wr_recvWin r') (insert pid S) \<and>
         subslice p 17 49 = hmac_sum h SHA256 (RecvHMAC (wr_keys r)) (take 17 p @ pt))"
proof (intro conjI)
  show "distinct (pids_of (unwrap_all (Unwrap h) r ps))" using crypt.no_replay [OF assms(2)] by blast
  show "case x of Inl e \<Rightarrow> r' = r
     | Inr (opk, sid, pid, pt) \<Rightarrow> pid \<notin> S \<and> pw.represents (wr_recvWin r') (insert pid S) \<and>
         subslice p 17 49 = hmac_sum h SHA256 (RecvHMAC (wr_keys r)) (take 17 p @ pt)"
    using Unwrap_cases [OF assms(1)] pw.accepted_not_fresh [OF assms(2)] pw.represents_acc [OF assms(2)]
    by (auto split: sum.splits)
qed

definition demo_wrapper :: Wrapper where
  "demo_wrapper = \<lparr>wr_keys = \<lparr>SendHMAC = [1], SendCipher = [], RecvHMAC = [2], RecvCipher = []\<rparr>,
     wr_sendBlock = (\<lambda>b. b), wr_recvBlock = (\<lambda>b. b), wr_sendPID = 0, wr_recvWin = zero_window,
     wr_firstWrapTrailer = []\<rparr>"

theorem tls_crypt_authentic_witness: "snd (Unwrap (\<lambda>d k m. 0) demo_wrapper [1, 2, 3]) = demo_wrapper"
proof -
  have u: "Unwrap (\<lambda>d k m. 0) demo_wrapper [1, 2, 3] = (Inl (WrappedTooShort 3), demo_wrapper)"
    by (simp add: Unwrap_def MinWrappedLen_def crypt_HeaderLen_def wrapPrefixLen_def pidLen_def hmacLen_def)
  have "pw.represents (wr_recvWin demo_wrapper) {}" by (simp add: demo_wrapper_def pw_represents_zero)
  from tls_crypt_authentic [OF u this] show ?thesis by (simp add: u)
qed

text \<open>
  Wrapped client keys survive the trip through the server: whatever \<open>WrapWKc\<close> produces,
  \<open>UnwrapWKc\<close> with the same master keys returns the client key and the metadata.
\<close>

lemma WKc_roundtrip:
  assumes "WrapWKc h aes kc metadata ka ke = Inr wkc" and "length kc = StaticKeyLen"
  shows "UnwrapWKc h aes wkc ka ke = Inr (kc, metadata)"
  by (rule UnwrapWKc_WrapWKc [OF assms])

lemma WKc_roundtrip_witness:
  "\<exists>wkc. WrapWKc (\<lambda>d k m. 5) (\<lambda>k b. b) (replicate 256 3) [1, 2] [9] (replicate 32 4) = Inr wkc \<and>
     UnwrapWKc (\<lambda>d k m. 5) (\<lambda>k b. b) wkc [9] (replicate 32 4) = Inr (replicate 256 3, [1, 2])"
proof -
  obtain wkc where w: "WrapWKc (\<lambda>d k m. 5) (\<lambda>k b. b) (replicate 256 3) [1, 2] [9] (replicate 32 4) = Inr wkc"
    by (simp add: WrapWKc_def aes_NewCipher_def StaticKeyLen_def V2TagLen_def V2LenLen_def Let_def)
  from WKc_roundtrip [OF this] w show ?thesis by (simp add: StaticKeyLen_def)
qed



end
