(* ===== verification/GoStrings.thy ===== *)
theory GoStrings
  imports Prelude
begin

text \<open>
  What the code uses of Go's \<^verbatim>\<open>strings\<close> and \<^verbatim>\<open>strconv\<close> packages, on strings as character lists:
  \<^verbatim>\<open>Join\<close>, \<^verbatim>\<open>Cut\<close> on one character, the prefix operations, \<^verbatim>\<open>Atoi\<close> and the \<^verbatim>\<open>%d\<close> format.
\<close>

section \<open>strings\<close>

fun Join :: "string list \<Rightarrow> string \<Rightarrow> string" where
  "Join [] sep = []"
| "Join [s] sep = s"
| "Join (s # t # ss) sep = s @ sep @ Join (t # ss) sep"

text \<open>\<^verbatim>\<open>before, after, found := strings.Cut(s, sep)\<close> for a separator of one character.\<close>

fun Cut :: "char \<Rightarrow> string \<Rightarrow> string \<times> string \<times> bool" where
  "Cut c [] = ([], [], False)"
| "Cut c (x # xs) = (if x = c then ([], xs, True) else case Cut c xs of (a, b, found) \<Rightarrow> (x # a, b, found))"

fun HasPrefix :: "string \<Rightarrow> string \<Rightarrow> bool" where
  "HasPrefix s [] = True"
| "HasPrefix [] (p # ps) = False"
| "HasPrefix (x # xs) (p # ps) = (x = p \<and> HasPrefix xs ps)"

definition TrimPrefix :: "string \<Rightarrow> string \<Rightarrow> string" where
  "TrimPrefix s p = (if HasPrefix s p then drop (length p) s else s)"

definition CutPrefix :: "string \<Rightarrow> string \<Rightarrow> string \<times> bool" where
  "CutPrefix s p = (if HasPrefix s p then (drop (length p) s, True) else (s, False))"

lemma HasPrefix_append [simp]: "HasPrefix (p @ s) p"
  by (induction p) auto

lemma HasPrefix_iff: "HasPrefix s p \<longleftrightarrow> (\<exists>t. s = p @ t)"
  by (induction s p rule: HasPrefix.induct) auto

lemma TrimPrefix_append [simp]: "TrimPrefix (p @ s) p = s"
  by (simp add: TrimPrefix_def)

lemma Cut_absent: "c \<notin> set s \<Longrightarrow> Cut c s = (s, [], False)"
  by (induction s) auto

lemma Cut_append [simp]: "c \<notin> set a \<Longrightarrow> Cut c (a @ c # b) = (a, b, True)"
  by (induction a) auto

lemma Cut_head_free: "c \<notin> set (fst (Cut c s))"
  by (induction s) (auto split: prod.splits)

lemma Cut_rejoin: "case Cut c s of (a, b, found) \<Rightarrow> s = (if found then a @ c # b else a)"
  by (induction s) (auto split: prod.splits)

section \<open>strconv and fmt\<close>

definition digit_char :: "nat \<Rightarrow> char" where
  "digit_char d = char_of (48 + d)"

definition char_digit :: "char \<Rightarrow> nat option" where
  "char_digit c = (let n = of_char c :: nat in if 48 \<le> n \<and> n \<le> 57 then Some (n - 48) else None)"

fun nat_decimal :: "nat \<Rightarrow> string" where
  "nat_decimal n = (if n < 10 then [digit_char n] else nat_decimal (n div 10) @ [digit_char (n mod 10)])"

declare nat_decimal.simps [simp del]

definition sprintf_d :: "int \<Rightarrow> string" where
  "sprintf_d i = (if i < 0 then ''-'' @ nat_decimal (nat (- i)) else nat_decimal (nat i))"

fun parse_digits :: "nat \<Rightarrow> string \<Rightarrow> nat option" where
  "parse_digits acc [] = Some acc"
| "parse_digits acc (c # cs) = (case char_digit c of None \<Rightarrow> None | Some d \<Rightarrow> parse_digits (10 * acc + d) cs)"

text \<open>
  \<^verbatim>\<open>strconv.Atoi\<close> on a 64-bit platform: an optional sign, then at least one decimal digit and
  nothing else; a value outside the \<^verbatim>\<open>int\<close> range is an error.
\<close>

definition Atoi :: "string \<Rightarrow> int option" where
  "Atoi s =
     (let (neg, body) = (case s of
            c # cs \<Rightarrow> if c = CHR ''-'' then (True, cs) else if c = CHR ''+'' then (False, cs) else (False, s)
          | [] \<Rightarrow> (False, []))
      in if body = [] then None
         else case parse_digits 0 body of
           None \<Rightarrow> None
         | Some n \<Rightarrow>
             if neg then (if n \<le> 2 ^ 63 then Some (- int n) else None)
             else (if n < 2 ^ 63 then Some (int n) else None))"

lemma char_digit_digit [simp]: "d < 10 \<Longrightarrow> char_digit (digit_char d) = Some d"
  by (simp add: char_digit_def digit_char_def)

lemma char_digit_sign [simp]: "char_digit CHR ''-'' = None" "char_digit CHR ''+'' = None" "char_digit CHR '','' = None"
  by (simp_all add: char_digit_def)

lemma parse_digits_append:
  "parse_digits acc (xs @ ys) = (case parse_digits acc xs of None \<Rightarrow> None | Some a \<Rightarrow> parse_digits a ys)"
  by (induction acc xs rule: parse_digits.induct) (auto split: option.splits)

lemma nat_decimal_nonempty [simp]: "nat_decimal n \<noteq> []"
  by (subst nat_decimal.simps) simp

lemma set_nat_decimal: "c \<in> set (nat_decimal n) \<Longrightarrow> \<exists>d < 10. c = digit_char d"
proof (induction n rule: nat_decimal.induct)
  case (1 n)
  show ?case
  proof (cases "n < 10")
    case True
    then show ?thesis using "1.prems" by (auto simp: nat_decimal.simps [of n])
  next
    case False
    then have "c \<in> set (nat_decimal (n div 10)) \<or> c = digit_char (n mod 10)"
      using "1.prems" by (auto simp: nat_decimal.simps [of n])
    moreover have "n mod 10 < 10" by simp
    ultimately show ?thesis using "1.IH" [OF False] by blast
  qed
qed

lemma parse_nat_decimal [simp]: "parse_digits 0 (nat_decimal n) = Some n"
proof (induction n rule: nat_decimal.induct)
  case (1 n)
  then show ?case
    by (cases "n < 10") (auto simp: nat_decimal.simps [of n] parse_digits_append)
qed

lemma nat_decimal_not_sign: "nat_decimal n = c # cs \<Longrightarrow> c \<noteq> CHR ''-'' \<and> c \<noteq> CHR ''+''"
  using set_nat_decimal [of c n] char_digit_digit char_digit_sign by (metis list.set_intros(1) option.distinct(1))

lemma nat_decimal_no_comma: "CHR '','' \<notin> set (nat_decimal n)"
  using set_nat_decimal [of "CHR '',''" n] char_digit_digit char_digit_sign by (metis option.distinct(1))

lemma Atoi_sprintf_d: "- (2 ^ 63) \<le> i \<Longrightarrow> i < 2 ^ 63 \<Longrightarrow> Atoi (sprintf_d i) = Some i"
proof (cases "i < 0")
  case True
  assume "- (2 ^ 63) \<le> i"
  with True have "nat (- i) \<le> 2 ^ 63" by simp
  with True show ?thesis by (simp add: Atoi_def sprintf_d_def)
next
  case False
  assume "i < 2 ^ 63"
  with False have lt: "nat i < 2 ^ 63" by (simp add: nat_less_iff)
  obtain c cs where ccs: "nat_decimal (nat i) = c # cs" by (cases "nat_decimal (nat i)") auto
  have "parse_digits 0 (c # cs) = Some (nat i)" using parse_nat_decimal [of "nat i"] ccs by simp
  with False lt show ?thesis
    using nat_decimal_not_sign [OF ccs] by (simp add: Atoi_def sprintf_d_def ccs del: parse_digits.simps)
qed

text \<open>\<^verbatim>\<open>strconv.ParseUint(s, 10, bits)\<close>\<close>

definition ParseUint :: "nat \<Rightarrow> string \<Rightarrow> nat option" where
  "ParseUint bits s =
     (if s = [] then None
      else case parse_digits 0 s of None \<Rightarrow> None | Some n \<Rightarrow> if n < 2 ^ bits then Some n else None)"

lemma ParseUint_nat_decimal: "n < 2 ^ bits \<Longrightarrow> ParseUint bits (nat_decimal n) = Some n"
  by (simp add: ParseUint_def)

lemma ParseUint_range: "ParseUint bits s = Some n \<Longrightarrow> n < 2 ^ bits"
  by (auto simp: ParseUint_def split: if_splits option.splits)

section \<open>White space and letter case\<close>

text \<open>
  The length of the white space character at the start of a string, 0 if there is none:
  \<^verbatim>\<open>unicode.IsSpace\<close> on UTF-8. A byte that starts a character is never the continuation of
  another, so looking at bytes is exact on every string, valid UTF-8 or not.
\<close>

definition space_len :: "string \<Rightarrow> nat" where
  "space_len s = (case map (of_char :: char \<Rightarrow> nat) (take 3 s) of
      [] \<Rightarrow> 0
    | a # r \<Rightarrow>
        if a \<in> {9, 10, 11, 12, 13, 32} then 1
        else case r of
          [] \<Rightarrow> 0
        | b # r' \<Rightarrow>
            if a = 0xC2 \<and> b \<in> {0x85, 0xA0} then 2
            else case r' of
              [] \<Rightarrow> 0
            | c # _ \<Rightarrow>
                if a = 0xE1 \<and> b = 0x9A \<and> c = 0x80 \<or> a = 0xE2 \<and> b = 0x80 \<and> (0x80 \<le> c \<and> c \<le> 0x8A \<or> c \<in> {0xA8, 0xA9, 0xAF}) \<or>
                   a = 0xE2 \<and> b = 0x81 \<and> c = 0x9F \<or> a = 0xE3 \<and> b = 0x80 \<and> c = 0x80
                then 3 else 0)"

lemma space_len_le: "space_len s \<le> length s"
  by (cases s; cases "tl s"; cases "tl (tl s)") (auto simp: space_len_def)

function trim_left :: "string \<Rightarrow> string" where
  "trim_left s = (if space_len s = 0 then s else trim_left (drop (space_len s) s))"
  by pat_completeness auto
termination
proof (relation "measure length")
  fix s :: string
  assume "space_len s \<noteq> 0"
  then show "(drop (space_len s) s, s) \<in> measure length" using space_len_le [of s] by simp
qed simp

declare trim_left.simps [simp del]

text \<open>The length of the white space character that ends a string.\<close>

definition space_suffix_len :: "string \<Rightarrow> nat" where
  "space_suffix_len s =
     (if length s \<ge> 1 \<and> space_len (drop (length s - 1) s) = 1 then 1
      else if length s \<ge> 2 \<and> space_len (drop (length s - 2) s) = 2 then 2
      else if length s \<ge> 3 \<and> space_len (drop (length s - 3) s) = 3 then 3
      else 0)"

function trim_right :: "string \<Rightarrow> string" where
  "trim_right s = (if space_suffix_len s = 0 then s else trim_right (take (length s - space_suffix_len s) s))"
  by pat_completeness auto
termination
  by (relation "measure length") (auto simp: space_suffix_len_def split: if_splits)

declare trim_right.simps [simp del]

definition TrimSpace :: "string \<Rightarrow> string" where
  "TrimSpace s = trim_right (trim_left s)"

text \<open>\<^verbatim>\<open>strings.Fields\<close>: \<open>cur\<close> is the field being read.\<close>

function fields_from :: "string \<Rightarrow> string \<Rightarrow> string list" where
  "fields_from cur s =
     (if space_len s > 0
      then (if cur = [] then [] else [cur]) @ fields_from [] (drop (space_len s) s)
      else case s of
        [] \<Rightarrow> if cur = [] then [] else [cur]
      | c # cs \<Rightarrow> fields_from (cur @ [c]) cs)"
  by pat_completeness auto
termination
proof (relation "measure (\<lambda>(cur, s). length s)")
  fix cur s :: string
  assume "0 < space_len s"
  then show "(([], drop (space_len s) s), (cur, s)) \<in> measure (\<lambda>(cur, s). length s)" using space_len_le [of s] by simp
qed simp_all

declare fields_from.simps [simp del]

definition Fields :: "string \<Rightarrow> string list" where
  "Fields s = fields_from [] s"

text \<open>\<^verbatim>\<open>strings.Split\<close> for a separator of one character.\<close>

fun Split :: "char \<Rightarrow> string \<Rightarrow> string list" where
  "Split c [] = [[]]"
| "Split c (x # xs) =
     (if x = c then [] # Split c xs else case Split c xs of [] \<Rightarrow> [[x]] | y # ys \<Rightarrow> (x # y) # ys)"

definition ascii_lower :: "char \<Rightarrow> char" where
  "ascii_lower c = (let n = of_char c :: nat in if 65 \<le> n \<and> n \<le> 90 then char_of (n + 32) else c)"

text \<open>
  \<^verbatim>\<open>strings.EqualFold\<close> for a second argument in ASCII. Besides the two ASCII cases, the letter s
  has the long s (U+017F) and the letter k the Kelvin sign (U+212A) in its folding orbit.
\<close>

fun EqualFold :: "string \<Rightarrow> string \<Rightarrow> bool" where
  "EqualFold s [] = (s = [])"
| "EqualFold [] (t # ts) = False"
| "EqualFold (c # cs) (t # ts) =
     (if ascii_lower c = ascii_lower t then EqualFold cs ts
      else if ascii_lower t = CHR ''s'' \<and> HasPrefix (c # cs) [char_of (0xC5 :: nat), char_of (0xBF :: nat)]
      then EqualFold (drop 1 cs) ts
      else if ascii_lower t = CHR ''k'' \<and> HasPrefix (c # cs) [char_of (0xE2 :: nat), char_of (0x84 :: nat), char_of (0xAA :: nat)]
      then EqualFold (drop 2 cs) ts
      else False)"

subsection \<open>Words\<close>

text \<open>Text without white space: one field, untouched by trimming.\<close>

definition plain_char :: "char \<Rightarrow> bool" where
  "plain_char c \<longleftrightarrow> (let n = of_char c :: nat in 33 \<le> n \<and> n < 127)"

lemma space_len_plain: "plain_char c \<Longrightarrow> space_len (c # cs) = 0"
  by (cases cs; cases "tl cs") (auto simp: space_len_def plain_char_def Let_def)

lemma space_len_blank [simp]: "space_len (CHR '' '' # cs) = 1" "space_len [] = 0"
  by (auto simp: space_len_def)

lemma fields_from_plain:
  "list_all plain_char w \<Longrightarrow> fields_from cur (w @ s) = fields_from (cur @ w) s"
proof (induction w arbitrary: cur)
  case (Cons c w)
  then have "fields_from cur ((c # w) @ s) = fields_from (cur @ [c]) (w @ s)"
    by (subst fields_from.simps) (simp add: space_len_plain)
  then show ?case using Cons by simp
qed simp

lemma fields_from_blank: "fields_from cur (CHR '' '' # s) = (if cur = [] then [] else [cur]) @ fields_from [] s"
  by (subst fields_from.simps) simp

lemma fields_from_Nil: "fields_from cur [] = (if cur = [] then [] else [cur])"
  by (subst fields_from.simps) simp

lemma Fields_join:
  assumes "\<And>w. w \<in> set ws \<Longrightarrow> w \<noteq> [] \<and> list_all plain_char w"
  shows "Fields (Join ws '' '') = ws"
  using assms unfolding Fields_def
proof (induction ws rule: induct_list012)
  case (2 w)
  then show ?case using fields_from_plain [of w "[]" "[]"] by (simp add: fields_from_Nil)
next
  case (3 w v ws)
  then show ?case
    using fields_from_plain [of w "[]" "'' '' @ Join (v # ws) '' ''"] by (simp add: fields_from_blank)
qed (simp add: fields_from_Nil)

lemma Split_plain: "c \<notin> set s \<Longrightarrow> Split c s = [s]"
  by (induction s) auto

lemma Split_nonempty [simp]: "Split c s \<noteq> []"
  by (cases s) (auto split: list.splits)

lemma Split_append: "c \<notin> set a \<Longrightarrow> Split c (a @ c # s) = a # Split c s"
  by (induction a) auto

lemma Split_join:
  assumes "ws \<noteq> []" and "\<And>w. w \<in> set ws \<Longrightarrow> c \<notin> set w"
  shows "Split c (Join ws [c]) = ws"
  using assms by (induction ws rule: induct_list012) (auto simp: Split_plain Split_append)

lemma trim_left_plain: "plain_char c \<Longrightarrow> trim_left (c # s) = c # s"
  by (subst trim_left.simps) (simp add: space_len_plain)

lemma space_suffix_plain:
  assumes "plain_char c"
  shows "space_suffix_len (s @ [c]) = 0"
proof -
  have no: "space_len (xs @ [c]) \<noteq> Suc (length xs)" if "length xs \<le> 2" for xs
    using that assms
    by (cases xs; cases "tl xs"; cases "tl (tl xs)") (auto simp: space_len_def plain_char_def Let_def split: if_splits)
  have "space_len (drop (length (s @ [c]) - Suc k) (s @ [c])) \<noteq> Suc k" if "k \<le> length s" "k \<le> 2" for k
    using no [of "drop (length s - k) s"] that by simp
  from this [of 0] this [of 1] this [of 2] show ?thesis by (auto simp: space_suffix_len_def)
qed

lemma TrimSpace_plain:
  assumes "s = c # r" and "plain_char c" and "plain_char (last s)"
  shows "TrimSpace s = s"
proof -
  have "s = butlast s @ [last s]" using assms(1) by simp
  then have "space_suffix_len s = 0" using space_suffix_plain [OF assms(3)] by metis
  then show ?thesis
    unfolding TrimSpace_def using trim_left_plain [OF assms(2), of r] assms(1) by (simp add: trim_right.simps)
qed

end
