(* ===== verification/TlsAuth.thy ===== *)
theory TlsAuth
  imports TlsCrypt GoStrings
begin

text \<open>
  The control-channel authentication layer (\<^verbatim>\<open>internal/tlsauth/tlsauth.go\<close>): digest names,
  directional HMAC keys, \<^verbatim>\<open>Wrap\<close> and \<^verbatim>\<open>Unwrap\<close> with the tag over the reordered header, and the
  package's own copy of the 64-entry window. It implements the same interface as the
  encryption layer.
\<close>

section \<open>Digest names\<close>

text \<open>
  \<^verbatim>\<open>strings.ToUpper\<close> on ASCII text; what it does to a name with other bytes in it is the
  parameter \<open>uni\<close>.
\<close>

definition is_ascii :: "string \<Rightarrow> bool" where
  "is_ascii s \<longleftrightarrow> (\<forall>c\<in>set s. byte_of_char c < 128)"

definition upper_char :: "char \<Rightarrow> char" where
  "upper_char c = (let b = byte_of_char c in if 97 \<le> b \<and> b \<le> 122 then char_of_byte (b - 32) else c)"

definition ToUpper :: "string \<Rightarrow> string" where
  "ToUpper s = map upper_char s"

definition normalizeDigest :: "(string \<Rightarrow> string) \<Rightarrow> string \<Rightarrow> string" where
  "normalizeDigest uni name =
     (let name = TrimSpace name
      in filter (\<lambda>c. c \<noteq> CHR ''-'') (if is_ascii name then ToUpper name else uni name))"

datatype tlsauth_error =
    UnsupportedDigest string
  | AuthTooShort nat
  | AuthReplay u32
  | AuthHMACFailed

definition parseDigest :: "(string \<Rightarrow> string) \<Rightarrow> string \<Rightarrow> (tlsauth_error, digest \<times> nat) result" where
  "parseDigest uni name =
     (let n = normalizeDigest uni name
      in if n = '''' \<or> n = ''SHA1'' then Inr (SHA1, 20)
         else if n = ''SHA256'' then Inr (SHA256, 32)
         else if n = ''SHA512'' then Inr (SHA512, 64)
         else Inl (UnsupportedDigest name))"

section \<open>Keys and state\<close>

definition deriveHMACKeys :: "bytes \<Rightarrow> int \<Rightarrow> nat \<Rightarrow> bytes \<times> bytes" where
  "deriveHMACKeys raw dir hlen =
     (let hmac0Off = 64; hmac1Off = 192;
          (sendOff, recvOff) = (if dir = DirectionNormal then (hmac0Off, hmac1Off) else (hmac1Off, hmac0Off))
      in (subslice raw sendOff (sendOff + hlen), subslice raw recvOff (recvOff + hlen)))"

text \<open>The package's own copy of the replay window, over the same two fields.\<close>

definition auth_windowSize :: u32 where "auth_windowSize = 64"

definition auth_Accept :: "pidWindow \<Rightarrow> u32 \<Rightarrow> bool \<times> pidWindow" where
  "auth_Accept w pid =
     (if pid = 0 then (False, w)
      else if pid > pw_highest w then
        let shift = pid - pw_highest w;
            w = (if shift \<ge> auth_windowSize then w\<lparr>pw_bitmap := 1\<rparr>
                 else w\<lparr>pw_bitmap := push_bit (unat shift) (pw_bitmap w) OR 1\<rparr>)
        in (True, w\<lparr>pw_highest := pid\<rparr>)
      else if pw_highest w - pid \<ge> auth_windowSize then (False, w)
      else
        let mask = push_bit (unat (pw_highest w - pid)) 1
        in if pw_bitmap w AND mask \<noteq> 0 then (False, w)
           else (True, w\<lparr>pw_bitmap := pw_bitmap w OR mask\<rparr>))"

definition auth_Test :: "pidWindow \<Rightarrow> u32 \<Rightarrow> bool" where
  "auth_Test w pid =
     (if pid = 0 then False
      else if pid > pw_highest w then True
      else if pw_highest w - pid \<ge> auth_windowSize then False
      else pw_bitmap w AND push_bit (unat (pw_highest w - pid)) 1 = 0)"

record Authenticator =
  au_sendHMAC :: bytes
  au_recvHMAC :: bytes
  au_newHash :: digest
  au_hlen :: nat
  au_sendPID :: u32
  au_recvWin :: pidWindow

definition Auth_New :: "(string \<Rightarrow> string) \<Rightarrow> bytes \<Rightarrow> int \<Rightarrow> string \<Rightarrow> (tlsauth_error, Authenticator) result" where
  "Auth_New uni raw dir digest =
     rbind (parseDigest uni digest) (\<lambda>(newHash, hlen).
       let (send, recv) = deriveHMACKeys raw dir hlen
       in Inr \<lparr>au_sendHMAC = send, au_recvHMAC = recv, au_newHash = newHash, au_hlen = hlen,
               au_sendPID = 0, au_recvWin = zero_window\<rparr>)"

section \<open>Wrap and Unwrap\<close>

definition authHdrLen :: nat where "authHdrLen = 4 + 4 + 1 + 8"
definition auth_MinWrappedLen :: "nat \<Rightarrow> nat" where "auth_MinWrappedLen hlen = 1 + 8 + hlen + 4 + 4"

definition Auth_Wrap :: "hmac_fn \<Rightarrow> u32 \<Rightarrow> Authenticator \<Rightarrow> byte \<Rightarrow> u64 \<Rightarrow> bytes \<Rightarrow> bytes \<times> Authenticator" where
  "Auth_Wrap h netTime a opcodeKID sessionID plaintext =
     (let pid = au_sendPID a + 1;
          a = a\<lparr>au_sendPID := pid\<rparr>;
          authHdr = put_uint32 pid @ put_uint32 netTime @ [opcodeKID] @ put_uint64 sessionID;
          tag = hmac_sum h (au_newHash a) (au_sendHMAC a) (authHdr @ plaintext);
          out = replicate (auth_MinWrappedLen (au_hlen a) + length plaintext) 0;
          out = copy_at 0 [opcodeKID] out;
          out = copy_at 1 (put_uint64 sessionID) out;
          out = copy_at 9 (take (au_hlen a) tag) out;
          off = 9 + au_hlen a;
          out = copy_at off (put_uint32 pid) out;
          out = copy_at (off + 4) (put_uint32 netTime) out;
          out = copy_at (off + 8) plaintext out
      in (out, a))"

definition Auth_Unwrap :: "hmac_fn \<Rightarrow> Authenticator \<Rightarrow> bytes \<Rightarrow> (tlsauth_error, unwrapped_packet) result \<times> Authenticator" where
  "Auth_Unwrap h a pkt =
     (if length pkt < auth_MinWrappedLen (au_hlen a) then (Inl (AuthTooShort (length pkt)), a)
      else
        let opcodeKID = pkt ! 0;
            sessionID = uint64_of (subslice pkt 1 9);
            gotHMAC = subslice pkt 9 (9 + au_hlen a);
            off = 9 + au_hlen a;
            packetID = uint32_of (subslice pkt off (off + 4));
            netTime = subslice pkt (off + 4) (off + 8);
            rest = drop (off + 8) pkt
        in if \<not> auth_Test (au_recvWin a) packetID then (Inl (AuthReplay packetID), a)
           else
             let authHdr = put_uint32 packetID @ netTime @ [opcodeKID] @ put_uint64 sessionID
             in if gotHMAC \<noteq> hmac_sum h (au_newHash a) (au_recvHMAC a) (authHdr @ rest) then (Inl AuthHMACFailed, a)
                else case auth_Accept (au_recvWin a) packetID of (ok, win) \<Rightarrow>
                  let a = a\<lparr>au_recvWin := win\<rparr>
                  in if \<not> ok then (Inl (AuthReplay packetID), a)
                     else (Inr (opcodeKID, sessionID, packetID, rest), a))"

definition Auth_SendPID :: "Authenticator \<Rightarrow> u32" where
  "Auth_SendPID a = au_sendPID a"

section \<open>Lemmas\<close>

lemma auth_Accept_eq: "auth_Accept = pidWindow_Accept"
  by (intro ext) (simp add: auth_Accept_def pidWindow_Accept_def auth_windowSize_def windowSize_def Let_def)

lemma auth_Test_eq: "auth_Test = pidWindow_Test"
  by (intro ext) (simp add: auth_Test_def pidWindow_Test_def auth_windowSize_def windowSize_def)

definition auth_ready :: "Authenticator \<Rightarrow> bool" where
  "auth_ready a \<longleftrightarrow> au_hlen a = digest_size (au_newHash a)"

definition auth_peers :: "Authenticator \<Rightarrow> Authenticator \<Rightarrow> bool" where
  "auth_peers a r \<longleftrightarrow> au_recvHMAC r = au_sendHMAC a \<and> au_newHash r = au_newHash a \<and> au_hlen r = au_hlen a"

definition auth_hdr :: "u32 \<Rightarrow> u32 \<Rightarrow> byte \<Rightarrow> u64 \<Rightarrow> bytes" where
  "auth_hdr pid t opk sid = put_uint32 pid @ put_uint32 t @ [opk] @ put_uint64 sid"

text \<open>The wire form: the tag between the session-id and the packet-id.\<close>

definition auth_packet :: "bytes \<Rightarrow> u32 \<Rightarrow> u32 \<Rightarrow> byte \<Rightarrow> u64 \<Rightarrow> bytes \<Rightarrow> bytes" where
  "auth_packet tag pid t opk sid pt = [opk] @ put_uint64 sid @ tag @ put_uint32 pid @ put_uint32 t @ pt"

lemma auth_buffer:
  assumes "length tag = n"
  shows "copy_at (9 + n + 8) pt (copy_at (9 + n + 4) (put_uint32 t) (copy_at (9 + n) (put_uint32 pid)
      (copy_at 9 (take n tag) (copy_at 1 (put_uint64 sid) (copy_at 0 [opk]
        (replicate (auth_MinWrappedLen n + length pt) 0)))))) = auth_packet tag pid t opk sid pt"
  using assms by (simp add: copy_at_def auth_packet_def auth_MinWrappedLen_def drop_Cons' take_Cons')

lemma Auth_Wrap_eq:
  "auth_ready a \<Longrightarrow> Auth_Wrap h t a opk sid pt =
     (auth_packet (hmac_sum h (au_newHash a) (au_sendHMAC a) (auth_hdr (au_sendPID a + 1) t opk sid @ pt))
        (au_sendPID a + 1) t opk sid pt, a\<lparr>au_sendPID := au_sendPID a + 1\<rparr>)"
  using auth_buffer [of "hmac_sum h (au_newHash a) (au_sendHMAC a) (auth_hdr (au_sendPID a + 1) t opk sid @ pt)" "au_hlen a"]
  by (simp add: Auth_Wrap_def Let_def auth_ready_def auth_hdr_def)

lemma auth_packet_fields:
  assumes "length tag = n" and "p = auth_packet tag pid t opk sid pt"
  shows "length p = 17 + n + length pt" "p ! 0 = opk" "uint64_of (subslice p 1 9) = sid" "subslice p 9 (9 + n) = tag"
    "uint32_of (subslice p (9 + n) (9 + n + 4)) = pid" "subslice p (9 + n + 4) (9 + n + 8) = put_uint32 t"
    "drop (9 + n + 8) p = pt"
  using assms(1) by (simp_all add: assms(2) auth_packet_def subslice_def drop_Cons')

lemma Auth_Unwrap_packet:
  assumes "auth_ready a" and "auth_peers a r"
    and tag: "tag = hmac_sum h (au_newHash a) (au_sendHMAC a) (auth_hdr pid t opk sid @ pt)"
  shows "Auth_Unwrap h r (auth_packet tag pid t opk sid pt) =
    (if pidWindow_Test (au_recvWin r) pid
     then (Inr (opk, sid, pid, pt), r\<lparr>au_recvWin := snd (pidWindow_Accept (au_recvWin r) pid)\<rparr>)
     else (Inl (AuthReplay pid), r))"
proof -
  define p where "p = auth_packet tag pid t opk sid pt"
  have len: "length tag = au_hlen r" using assms by (simp add: auth_ready_def auth_peers_def tag)
  note f = auth_packet_fields [OF len p_def]
  have mac: "hmac_sum h (au_newHash r) (au_recvHMAC r) ((put_uint32 pid @ put_uint32 t @ [opk] @ put_uint64 sid) @ pt) = tag"
    using assms(2) by (simp add: tag auth_peers_def auth_hdr_def)
  have long: "\<not> length p < auth_MinWrappedLen (au_hlen r)" by (simp add: f(1) auth_MinWrappedLen_def)
  have "Auth_Unwrap h r p =
    (if pidWindow_Test (au_recvWin r) pid
     then (Inr (opk, sid, pid, pt), r\<lparr>au_recvWin := snd (pidWindow_Accept (au_recvWin r) pid)\<rparr>)
     else (Inl (AuthReplay pid), r))"
    unfolding Auth_Unwrap_def Let_def if_not_P [OF long] auth_Accept_eq auth_Test_eq
    unfolding f mac by (subst Accept_Test) simp
  then show ?thesis by (simp add: p_def)
qed

lemma Auth_Unwrap_cases:
  "Auth_Unwrap h r p = (x, r') \<Longrightarrow>
     (case x of Inl e \<Rightarrow> r' = r
      | Inr (opk, sid, pid, pt) \<Rightarrow> pidWindow_Test (au_recvWin r) pid \<and>
          r' = r\<lparr>au_recvWin := snd (pidWindow_Accept (au_recvWin r) pid)\<rparr> \<and>
          subslice p 9 (9 + au_hlen r) = hmac_sum h (au_newHash r) (au_recvHMAC r)
            (put_uint32 pid @ subslice p (13 + au_hlen r) (17 + au_hlen r) @ [opk] @ put_uint64 sid @ pt))"
  unfolding Auth_Unwrap_def Let_def auth_Accept_eq auth_Test_eq
  by (subst (asm) Accept_Test) (auto split: if_splits simp: add.commute)

interpretation auth: control_wrapper "Auth_Wrap h" "Auth_Unwrap h" au_recvWin au_sendPID auth_ready auth_peers "\<lambda>_. AuthReplay"
  for h
proof unfold_locales
  fix r p
  obtain x r' where u: "Auth_Unwrap h r p = (x, r')" by (cases "Auth_Unwrap h r p")
  show "au_recvWin (snd (Auth_Unwrap h r p)) = (case fst (Auth_Unwrap h r p) of Inl e \<Rightarrow> au_recvWin r
      | Inr (opk, sid, pid, pt) \<Rightarrow> snd (pidWindow_Accept (au_recvWin r) pid))"
    using Auth_Unwrap_cases [OF u] u by (auto split: sum.splits)
  show "fst (Auth_Unwrap h r p) = Inr (opk, sid, pid, pt) \<Longrightarrow> pidWindow_Test (au_recvWin r) pid" for opk sid pid pt
    using Auth_Unwrap_cases [OF u] u by auto
  show "auth_peers w r \<Longrightarrow> auth_peers w (snd (Auth_Unwrap h r p))" for w
    using Auth_Unwrap_cases [OF u] u by (auto simp: auth_peers_def split: sum.splits)
next
  show "au_sendPID (snd (Auth_Wrap h t w opk sid pt)) = au_sendPID w + 1" for t w opk sid pt
    by (simp add: Auth_Wrap_def Let_def)
  show "auth_ready w \<Longrightarrow> auth_ready (snd (Auth_Wrap h t w opk sid pt))" for t w opk sid pt
    by (simp add: Auth_Wrap_def Let_def auth_ready_def)
  show "auth_peers w r \<Longrightarrow> auth_peers (snd (Auth_Wrap h t w opk sid pt)) r" for t w r opk sid pt
    by (simp add: Auth_Wrap_def Let_def auth_peers_def)
qed (simp add: Auth_Wrap_eq Auth_Unwrap_packet)

lemma parseDigest_size: "parseDigest uni name = Inr (d, n) \<Longrightarrow> n = digest_size d"
  by (auto simp: parseDigest_def Let_def split: if_splits)

lemma Auth_New_peers:
  assumes "parseDigest uni name = Inr (d, n)"
  obtains c s where "Auth_New uni raw DirectionInverse name = Inr c" "Auth_New uni raw DirectionNormal name = Inr s"
    "auth_peers c s" "auth_peers s c" "auth_ready c" "auth_ready s"
    "au_recvWin c = zero_window" "au_recvWin s = zero_window" "au_sendPID c = 0" "au_sendPID s = 0"
  using assms parseDigest_size [OF assms]
  by (simp add: Auth_New_def deriveHMACKeys_def Let_def DirectionInverse_def DirectionNormal_def auth_peers_def auth_ready_def)

section \<open>Properties\<close>

text \<open>
  The authenticated control channel is transparent: for every static key and every supported
  digest, whatever the keyed hash computes, the client's and the server's authenticator can be
  built, and every sequence of control messages one end wraps is verified by the other end to
  exactly the same opcodes, session-ids and plaintexts, with packet-ids counting from one.
\<close>

lemma tls_auth_channel:
  assumes "parseDigest uni name = Inr (d, n)" and "length ms < 2 ^ 32"
  shows "\<exists>c s. Auth_New uni raw DirectionInverse name = Inr c \<and> Auth_New uni raw DirectionNormal name = Inr s \<and>
    unwrap_all (Auth_Unwrap h) s (wrap_all (Auth_Wrap h) c ms) = map Inr (expect 0 ms) \<and>
    unwrap_all (Auth_Unwrap h) c (wrap_all (Auth_Wrap h) s ms) = map Inr (expect 0 ms)"
proof -
  obtain c s where new: "Auth_New uni raw DirectionInverse name = Inr c" "Auth_New uni raw DirectionNormal name = Inr s"
    and peers: "auth_peers c s" "auth_peers s c" and ready: "auth_ready c" "auth_ready s"
    and fresh: "au_recvWin c = zero_window" "au_recvWin s = zero_window" "au_sendPID c = 0" "au_sendPID s = 0"
    using Auth_New_peers [OF assms(1)] .
  have "unwrap_all (Auth_Unwrap h) s (wrap_all (Auth_Wrap h) c ms) = map Inr (expect 0 ms)"
    using auth.in_order [OF ready(1) peers(1), of ms h] assms(2) by (simp add: fresh zero_window_def)
  moreover have "unwrap_all (Auth_Unwrap h) c (wrap_all (Auth_Wrap h) s ms) = map Inr (expect 0 ms)"
    using auth.in_order [OF ready(2) peers(2), of ms h] assms(2) by (simp add: fresh zero_window_def)
  ultimately show ?thesis using new by blast
qed

lemma tls_auth_channel_witness:
  "\<exists>c s. Auth_New id (replicate 256 7) DirectionInverse ''sha-256'' = Inr c \<and>
    Auth_New id (replicate 256 7) DirectionNormal ''sha-256'' = Inr s \<and>
    unwrap_all (Auth_Unwrap (\<lambda>d key m. of_nat (length m))) s
      (wrap_all (Auth_Wrap (\<lambda>d key m. of_nat (length m))) c [(5, 56, 9, [1, 2])]) = [Inr (56, 9, 1, [1, 2])]"
proof -
  have "parseDigest id ''sha-256'' = Inr (SHA256, 32)" by code_simp
  from tls_auth_channel [OF this, of "[(5, 56, 9, [1, 2])]" "replicate 256 7" "\<lambda>d key m. of_nat (length m)"]
  show ?thesis by auto
qed

text \<open>
  Against an attacker on the network: over any sequence of packets, an authenticator never
  accepts a packet-id twice; whatever it accepts carries the full keyed hash over packet-id,
  time, opcode, session-id and payload in this order under the receive key; a refused packet
  leaves it unchanged. The package's copy of the window behaves as the encryption layer's.
\<close>

lemma tls_auth_authentic:
  assumes "Auth_Unwrap h r p = (x, r')" and "pw.represents (au_recvWin r) S"
  shows "distinct (pids_of (unwrap_all (Auth_Unwrap h) r ps)) \<and> auth_Accept = pidWindow_Accept \<and>
    (case x of Inl e \<Rightarrow> r' = r
     | Inr (opk, sid, pid, pt) \<Rightarrow> pid \<notin> S \<and> pw.represents (au_recvWin r') (insert pid S) \<and>
         subslice p 9 (9 + au_hlen r) = hmac_sum h (au_newHash r) (au_recvHMAC r)
            (put_uint32 pid @ subslice p (13 + au_hlen r) (17 + au_hlen r) @ [opk] @ put_uint64 sid @ pt))"
proof (intro conjI)
  show "distinct (pids_of (unwrap_all (Auth_Unwrap h) r ps))" using auth.no_replay [OF assms(2)] by blast
  show "auth_Accept = pidWindow_Accept" by (rule auth_Accept_eq)
  show "case x of Inl e \<Rightarrow> r' = r
     | Inr (opk, sid, pid, pt) \<Rightarrow> pid \<notin> S \<and> pw.represents (au_recvWin r') (insert pid S) \<and>
         subslice p 9 (9 + au_hlen r) = hmac_sum h (au_newHash r) (au_recvHMAC r)
            (put_uint32 pid @ subslice p (13 + au_hlen r) (17 + au_hlen r) @ [opk] @ put_uint64 sid @ pt)"
    using Auth_Unwrap_cases [OF assms(1)] pw.accepted_not_fresh [OF assms(2)] pw.represents_acc [OF assms(2)]
    by (auto split: sum.splits)
qed

definition demo_authenticator :: Authenticator where
  "demo_authenticator = \<lparr>au_sendHMAC = [1], au_recvHMAC = [2], au_newHash = SHA1, au_hlen = 20, au_sendPID = 0,
     au_recvWin = zero_window\<rparr>"

lemma tls_auth_authentic_witness: "snd (Auth_Unwrap (\<lambda>d k m. 0) demo_authenticator [1, 2, 3]) = demo_authenticator"
proof -
  have u: "Auth_Unwrap (\<lambda>d k m. 0) demo_authenticator [1, 2, 3] = (Inl (AuthTooShort 3), demo_authenticator)"
    by (simp add: Auth_Unwrap_def auth_MinWrappedLen_def demo_authenticator_def)
  have "pw.represents (au_recvWin demo_authenticator) {}" by (simp add: demo_authenticator_def pw_represents_zero)
  from tls_auth_authentic [OF u this] show ?thesis by (simp add: u)
qed

end
