(* ===== verification/Transport.thy ===== *)
theory Transport
  imports Prelude
begin

text \<open>
  The packet transports (\<^verbatim>\<open>internal/transport\<close>): choice of transport by network name, the
  scramble layer with its in-place permutations, the length-prefixed framing over TCP and the
  bounded retry of UDP sends. The contract of a packet transport is a locale; TCP framing
  provides it, and the scramble layer provides it over any transport that does.

  Sockets, deadlines and cancellation of a context are inputs of the definitions: the bytes a
  stream still holds, the outcome of each write attempt, whether a context is done.
\<close>

section \<open>Choosing a transport (transport.go)\<close>

datatype transport_error =
    TransportClosed
  | UnsupportedNetwork string
  | DialFailed
  | StreamEnded
  | ZeroLengthFrame
  | EmptyPacket
  | PacketTooLarge nat
  | NoBufferSpace
  | SocketError
  | ContextDone

definition Dial :: "(string \<Rightarrow> string \<Rightarrow> (transport_error, 'c) result) \<Rightarrow> (string \<Rightarrow> string \<Rightarrow> (transport_error, 'c) result) \<Rightarrow>
    string \<Rightarrow> string \<Rightarrow> (transport_error, 'c) result" where
  "Dial dialUDP dialTCP network addr =
     (if network \<in> {''udp'', ''udp4'', ''udp6''} then dialUDP network addr
      else if network \<in> {''tcp'', ''tcp4'', ''tcp6''} then dialTCP network addr
      else Inl (UnsupportedNetwork network))"

section \<open>Scrambling (scramble.go)\<close>

datatype ScrambleMode = ScrambleNone | ScrambleXorMask | ScrambleXorPtrPos | ScrambleReverse | ScrambleObfuscate

text \<open>The loops \<^verbatim>\<open>for i := range buf\<close>, from index \<open>i\<close> on, in place.\<close>

function xor_mask_loop :: "nat \<Rightarrow> bytes \<Rightarrow> bytes \<Rightarrow> bytes" where
  "xor_mask_loop i key buf =
     (if i < length buf then xor_mask_loop (i + 1) key (buf[i := buf ! i XOR key ! (i mod length key)]) else buf)"
  by pat_completeness auto
termination
  by (relation "measure (\<lambda>(i, key, buf). length buf - i)") auto

definition xorMask :: "bytes \<Rightarrow> bytes \<Rightarrow> bytes" where
  "xorMask buf key = (if length key = 0 then buf else xor_mask_loop 0 key buf)"

function xor_ptr_loop :: "nat \<Rightarrow> bytes \<Rightarrow> bytes" where
  "xor_ptr_loop i buf =
     (if i < length buf then xor_ptr_loop (i + 1) (buf[i := buf ! i XOR of_nat (i + 1)]) else buf)"
  by pat_completeness auto
termination
  by (relation "measure (\<lambda>(i, buf). length buf - i)") auto

definition xorPtrPos :: "bytes \<Rightarrow> bytes" where
  "xorPtrPos buf = xor_ptr_loop 0 buf"

function reverse_loop :: "nat \<Rightarrow> nat \<Rightarrow> 'a list \<Rightarrow> 'a list" where
  "reverse_loop i j buf =
     (if i < j then reverse_loop (i + 1) (j - 1) (buf[i := buf ! j, j := buf ! i]) else buf)"
  by pat_completeness auto
termination
  by (relation "measure (\<lambda>(i, j, buf). j - i)") auto

definition reverseBytes :: "bytes \<Rightarrow> bytes" where
  "reverseBytes buf = (if length buf < 3 then buf else reverse_loop 1 (length buf - 1) buf)"

declare xor_mask_loop.simps [simp del] xor_ptr_loop.simps [simp del] reverse_loop.simps [simp del]

fun scrambleSend :: "ScrambleMode \<Rightarrow> bytes \<Rightarrow> bytes \<Rightarrow> bytes" where
  "scrambleSend ScrambleXorMask key buf = xorMask buf key"
| "scrambleSend ScrambleXorPtrPos key buf = xorPtrPos buf"
| "scrambleSend ScrambleReverse key buf = reverseBytes buf"
| "scrambleSend ScrambleObfuscate key buf = xorMask (xorPtrPos (reverseBytes (xorPtrPos buf))) key"
| "scrambleSend ScrambleNone key buf = buf"

fun scrambleRecv :: "ScrambleMode \<Rightarrow> bytes \<Rightarrow> bytes \<Rightarrow> bytes" where
  "scrambleRecv ScrambleXorMask key buf = xorMask buf key"
| "scrambleRecv ScrambleXorPtrPos key buf = xorPtrPos buf"
| "scrambleRecv ScrambleReverse key buf = reverseBytes buf"
| "scrambleRecv ScrambleObfuscate key buf = xorPtrPos (reverseBytes (xorPtrPos (xorMask buf key)))"
| "scrambleRecv ScrambleNone key buf = buf"

text \<open>
  \<^verbatim>\<open>NewScramble\<close> keeps a key only for the two modes that use one; \<open>None\<close> is the inner
  transport returned unchanged.
\<close>

definition NewScramble :: "ScrambleMode \<Rightarrow> bytes \<Rightarrow> (ScrambleMode \<times> bytes) option" where
  "NewScramble mode key =
     (if mode = ScrambleNone then None
      else Some (mode, if mode = ScrambleXorMask \<or> mode = ScrambleObfuscate then key else []))"

text \<open>The wrapped transport, over the inner transport's read and write.\<close>

definition scramble_ReadPacket ::
  "('s \<Rightarrow> (transport_error, bytes) result \<times> 's) \<Rightarrow> ScrambleMode \<times> bytes \<Rightarrow> 's \<Rightarrow> (transport_error, bytes) result \<times> 's" where
  "scramble_ReadPacket inner cfg s =
     (case inner s of
        (Inl e, s') \<Rightarrow> (Inl e, s')
      | (Inr p, s') \<Rightarrow> (Inr (scrambleRecv (fst cfg) (snd cfg) p), s'))"

definition scramble_WritePacket ::
  "('s \<Rightarrow> bytes \<Rightarrow> transport_error option \<times> 's) \<Rightarrow> ScrambleMode \<times> bytes \<Rightarrow> 's \<Rightarrow> bytes \<Rightarrow> transport_error option \<times> 's" where
  "scramble_WritePacket inner cfg s p = inner s (scrambleSend (fst cfg) (snd cfg) p)"

section \<open>Framing over TCP (tcp.go)\<close>

definition maxTCPPacket :: nat where "maxTCPPacket = 65535"

text \<open>
  One direction of a connection: the writing end, the reading end and the bytes between them.
  A read that needs more bytes than the stream will ever hold fails.
\<close>

record tcp_pipe =
  tp_writerClosed :: bool
  tp_readerClosed :: bool
  tp_stream :: bytes

definition tcp_short :: "tcp_pipe \<Rightarrow> transport_error" where
  "tcp_short t = (if tp_readerClosed t then TransportClosed else StreamEnded)"

definition tcp_ReadPacket :: "tcp_pipe \<Rightarrow> (transport_error, bytes) result \<times> tcp_pipe" where
  "tcp_ReadPacket t =
     (if length (tp_stream t) < 2 then (Inl (tcp_short t), t\<lparr>tp_stream := []\<rparr>)
      else
        let n = unat (uint16_of (take 2 (tp_stream t)));
            t = t\<lparr>tp_stream := drop 2 (tp_stream t)\<rparr>
        in if n = 0 then (Inl ZeroLengthFrame, t)
           else if n > maxTCPPacket then (Inl (PacketTooLarge n), t)
           else if length (tp_stream t) < n then (Inl (tcp_short t), t\<lparr>tp_stream := []\<rparr>)
           else (Inr (take n (tp_stream t)), t\<lparr>tp_stream := drop n (tp_stream t)\<rparr>))"

definition tcp_WritePacket :: "tcp_pipe \<Rightarrow> bytes \<Rightarrow> transport_error option \<times> tcp_pipe" where
  "tcp_WritePacket t p =
     (if tp_writerClosed t then (Some TransportClosed, t)
      else if length p = 0 then (Some EmptyPacket, t)
      else if length p > maxTCPPacket then (Some (PacketTooLarge (length p)), t)
      else (None, t\<lparr>tp_stream := tp_stream t @ put_uint16 (of_nat (length p)) @ p\<rparr>))"

text \<open>\<^verbatim>\<open>Close\<close> on the connection that writes into the pipe, and on the one that reads from it.\<close>

definition tcp_Close :: "tcp_pipe \<Rightarrow> tcp_pipe" where
  "tcp_Close t = (if tp_writerClosed t then t else t\<lparr>tp_writerClosed := True\<rparr>)"

definition tcp_Close_reader :: "tcp_pipe \<Rightarrow> tcp_pipe" where
  "tcp_Close_reader t = (if tp_readerClosed t then t else t\<lparr>tp_readerClosed := True\<rparr>)"

section \<open>UDP sends (udp.go)\<close>

definition enobufInitialBackoff :: nat where "enobufInitialBackoff = 500"
definition enobufMaxBackoff :: nat where "enobufMaxBackoff = 16000"
definition enobufMaxTotalSleep :: nat where "enobufMaxTotalSleep = 1500000"

text \<open>
  All times in microseconds. The environment of one call: whether the context is done when the
  loop waits for the \<open>i\<close>-th time, how long is left until its deadline then (if it has one), and
  the outcome of the \<open>i\<close>-th write attempt. The result is the error, the number of attempts
  made, the time slept and the updated retry counter. The loop is only entered with a positive
  backoff, which doubling keeps positive; the test \<open>backoff = 0\<close> makes the recursion total.
\<close>

datatype write_result = Written | NoBufs | OtherError

record udp_env =
  ue_done :: "nat \<Rightarrow> bool"
  ue_until :: "nat \<Rightarrow> int option"
  ue_write :: "nat \<Rightarrow> write_result"

function enobufs_loop :: "udp_env \<Rightarrow> nat \<Rightarrow> nat \<Rightarrow> nat \<Rightarrow> u64 \<Rightarrow> transport_error option \<times> nat \<times> nat \<times> u64" where
  "enobufs_loop env i backoff totalSleep stats =
     (if totalSleep \<ge> enobufMaxTotalSleep \<or> backoff = 0 then (Some NoBufferSpace, i, totalSleep, stats)
      else if (case ue_until env i of Some u \<Rightarrow> u \<le> int backoff | None \<Rightarrow> False)
      then (Some NoBufferSpace, i, totalSleep, stats)
      else if ue_done env i then (Some ContextDone, i, totalSleep, stats)
      else
        let totalSleep = totalSleep + backoff;
            backoff = (if backoff < enobufMaxBackoff
                       then if backoff * 2 > enobufMaxBackoff then enobufMaxBackoff else backoff * 2
                       else backoff)
        in case ue_write env i of
             Written \<Rightarrow> (None, i + 1, totalSleep, stats + 1)
           | OtherError \<Rightarrow> (Some SocketError, i + 1, totalSleep, stats)
           | NoBufs \<Rightarrow> enobufs_loop env (i + 1) backoff totalSleep stats)"
  by pat_completeness auto
termination
  by (relation "measure (\<lambda>(env, i, backoff, totalSleep, stats). enobufMaxTotalSleep - totalSleep)") auto

declare enobufs_loop.simps [simp del]

definition udp_WritePacket :: "udp_env \<Rightarrow> bool \<Rightarrow> u64 \<Rightarrow> transport_error option \<times> nat \<times> nat \<times> u64" where
  "udp_WritePacket env closed stats =
     (if closed then (Some TransportClosed, 0, 0, stats)
      else case ue_write env 0 of
        Written \<Rightarrow> (None, 1, 0, stats)
      | OtherError \<Rightarrow> (Some SocketError, 1, 0, stats)
      | NoBufs \<Rightarrow> enobufs_loop env 1 enobufInitialBackoff 0 stats)"

section \<open>The contract of a packet transport\<close>

text \<open>Sending packets one by one, reading \<open>n\<close> packets, the packets a transport takes.\<close>

fun send_all :: "('s \<Rightarrow> bytes \<Rightarrow> transport_error option \<times> 's) \<Rightarrow> 's \<Rightarrow> bytes list \<Rightarrow> 's" where
  "send_all send s [] = s"
| "send_all send s (p # ps) = send_all send (snd (send s p)) ps"

fun recv_n :: "('s \<Rightarrow> (transport_error, bytes) result \<times> 's) \<Rightarrow> nat \<Rightarrow> 's \<Rightarrow> bytes list" where
  "recv_n recv 0 s = []"
| "recv_n recv (Suc n) s = (case recv s of (Inl e, s') \<Rightarrow> [] | (Inr p, s') \<Rightarrow> p # recv_n recv n s')"

fun sent :: "('s \<Rightarrow> bytes \<Rightarrow> transport_error option \<times> 's) \<Rightarrow> 's \<Rightarrow> bytes list \<Rightarrow> bytes list" where
  "sent send s [] = []"
| "sent send s (p # ps) =
     (if fst (send s p) = None then p # sent send (snd (send s p)) ps else sent send (snd (send s p)) ps)"

text \<open>
  \<open>rep s ps\<close>: in state \<open>s\<close> the packets \<open>ps\<close> are on their way, oldest first. A packet the transport
  takes joins the end; a read hands over the front, whole.
\<close>

locale packet_channel =
  fixes recv :: "'s \<Rightarrow> (transport_error, bytes) result \<times> 's"
    and send :: "'s \<Rightarrow> bytes \<Rightarrow> transport_error option \<times> 's"
    and rep :: "'s \<Rightarrow> bytes list \<Rightarrow> bool"
  assumes send_rep: "rep s ps \<Longrightarrow> send s p = (None, s') \<Longrightarrow> rep s' (ps @ [p])"
    and send_fail: "rep s ps \<Longrightarrow> send s p = (Some e, s') \<Longrightarrow> rep s' ps"
    and recv_rep: "rep s (p # ps) \<Longrightarrow> \<exists>s'. recv s = (Inr p, s') \<and> rep s' ps"
begin

lemma rep_send_all: "rep s qs \<Longrightarrow> rep (send_all send s ps) (qs @ sent send s ps)"
proof (induction ps arbitrary: s qs)
  case Nil
  then show ?case by simp
next
  case (Cons p ps)
  obtain e s' where snd: "send s p = (e, s')" by (cases "send s p")
  show ?case
  proof (cases e)
    case None
    then show ?thesis using Cons.IH [OF send_rep [OF Cons.prems, of p s']] snd by simp
  next
    case (Some x)
    then show ?thesis using Cons.IH [OF send_fail [OF Cons.prems, of p x s']] snd by simp
  qed
qed

lemma recv_n_rep: "rep s ps \<Longrightarrow> recv_n recv (length ps) s = ps"
proof (induction ps arbitrary: s)
  case Nil
  then show ?case by simp
next
  case (Cons p ps)
  from recv_rep [OF Cons.prems] obtain s' where "recv s = (Inr p, s')" "rep s' ps" by blast
  then show ?case using Cons.IH by simp
qed

text \<open>The packets taken are delivered in order, each exactly as it was sent.\<close>

lemma delivers: "rep s [] \<Longrightarrow> recv_n recv (length (sent send s ps)) (send_all send s ps) = sent send s ps"
  using recv_n_rep rep_send_all [of s "[]"] by simp

end

section \<open>Scrambling is undone\<close>

lemma length_xor_mask_loop [simp]: "length (xor_mask_loop i key buf) = length buf"
  by (induction i key buf rule: xor_mask_loop.induct) (subst xor_mask_loop.simps, simp)

lemma xor_mask_loop_nth:
  "j < length buf \<Longrightarrow> xor_mask_loop i key buf ! j = (if i \<le> j then buf ! j XOR key ! (j mod length key) else buf ! j)"
proof (induction i key buf rule: xor_mask_loop.induct)
  case (1 i key buf)
  then show ?case
    by (subst xor_mask_loop.simps) (cases "i = j"; auto simp: nth_list_update)
qed

lemma length_xor_ptr_loop [simp]: "length (xor_ptr_loop i buf) = length buf"
  by (induction i buf rule: xor_ptr_loop.induct) (subst xor_ptr_loop.simps, simp)

lemma xor_ptr_loop_nth:
  "j < length buf \<Longrightarrow> xor_ptr_loop i buf ! j = (if i \<le> j then buf ! j XOR of_nat (j + 1) else buf ! j)"
proof (induction i buf rule: xor_ptr_loop.induct)
  case (1 i buf)
  then show ?case
    by (subst xor_ptr_loop.simps) (cases "i = j"; auto simp: nth_list_update)
qed

lemma length_reverse_loop [simp]: "length (reverse_loop i j buf) = length buf"
  by (induction i j buf rule: reverse_loop.induct) (subst reverse_loop.simps, simp)

lemma reverse_loop_nth:
  "j < length buf \<Longrightarrow> k < length buf \<Longrightarrow>
     reverse_loop i j buf ! k = (if i \<le> k \<and> k \<le> j then buf ! (i + j - k) else buf ! k)"
proof (induction i j buf rule: reverse_loop.induct)
  case (1 i j buf)
  show ?case
  proof (cases "i < j")
    case False
    then have "i \<le> k \<and> k \<le> j \<longrightarrow> i + j - k = k" by auto
    then show ?thesis using False by (subst reverse_loop.simps) simp
  next
    case True
    let ?b = "buf[i := buf ! j, j := buf ! i]"
    have "reverse_loop (i + 1) (j - 1) ?b ! k =
        (if i + 1 \<le> k \<and> k \<le> j - 1 then ?b ! (i + 1 + (j - 1) - k) else ?b ! k)"
      using "1.IH" [OF True] "1.prems" True by simp
    also have "\<dots> = (if i \<le> k \<and> k \<le> j then buf ! (i + j - k) else buf ! k)"
      using True "1.prems" by (auto simp: nth_list_update)
    finally show ?thesis using True by (subst reverse_loop.simps) simp
  qed
qed

lemma length_scramble [simp]:
  "length (xorMask buf key) = length buf" "length (xorPtrPos buf) = length buf" "length (reverseBytes buf) = length buf"
  by (simp_all add: xorMask_def xorPtrPos_def reverseBytes_def)

lemma xorMask_involution [simp]: "xorMask (xorMask buf key) key = buf"
  by (rule nth_equalityI) (auto simp: xorMask_def xor_mask_loop_nth xor.assoc)

lemma xorPtrPos_involution [simp]: "xorPtrPos (xorPtrPos buf) = buf"
  by (rule nth_equalityI) (auto simp: xorPtrPos_def xor_ptr_loop_nth xor.assoc)

lemma reverseBytes_nth:
  "k < length buf \<Longrightarrow> reverseBytes buf ! k = (if k = 0 then buf ! 0 else buf ! (length buf - k))"
  by (auto simp: reverseBytes_def reverse_loop_nth le_Suc_eq numeral_3_eq_3 less_Suc_eq)

lemma reverseBytes_involution [simp]: "reverseBytes (reverseBytes buf) = buf"
  by (rule nth_equalityI) (auto simp: reverseBytes_nth)

lemma reverseBytes_eq: "reverseBytes (b # bs) = b # rev bs"
  by (rule nth_equalityI) (auto simp: reverseBytes_nth nth_Cons' rev_nth)

lemma length_scrambleSend [simp]: "length (scrambleSend mode key buf) = length buf"
  by (cases mode) simp_all

lemma scrambleRecv_scrambleSend [simp]: "scrambleRecv mode key (scrambleSend mode key buf) = buf"
  by (cases mode) simp_all

locale scrambled_channel = packet_channel +
  fixes cfg :: "ScrambleMode \<times> bytes"

sublocale scrambled_channel \<subseteq> sc: packet_channel "scramble_ReadPacket recv cfg" "scramble_WritePacket send cfg"
  "\<lambda>s ps. rep s (map (scrambleSend (fst cfg) (snd cfg)) ps)"
proof unfold_locales
  show "\<exists>s'. scramble_ReadPacket recv cfg s = (Inr p, s') \<and> rep s' (map (scrambleSend (fst cfg) (snd cfg)) ps)"
    if "rep s (map (scrambleSend (fst cfg) (snd cfg)) (p # ps))" for s p ps
  proof -
    from that obtain s' where "recv s = (Inr (scrambleSend (fst cfg) (snd cfg) p), s')"
      "rep s' (map (scrambleSend (fst cfg) (snd cfg)) ps)"
      using recv_rep [of s "scrambleSend (fst cfg) (snd cfg) p"] by fastforce
    then show ?thesis by (simp add: scramble_ReadPacket_def)
  qed
qed (auto simp: scramble_WritePacket_def dest: send_rep send_fail)

section \<open>TCP framing delivers packets\<close>

definition tcp_frames :: "bytes list \<Rightarrow> bytes" where
  "tcp_frames ps = concat (map (\<lambda>p. put_uint16 (of_nat (length p)) @ p) ps)"

definition tcp_rep :: "tcp_pipe \<Rightarrow> bytes list \<Rightarrow> bool" where
  "tcp_rep t ps \<longleftrightarrow> tp_stream t = tcp_frames ps \<and> (\<forall>p\<in>set ps. p \<noteq> [] \<and> length p \<le> maxTCPPacket)"

interpretation tcp: packet_channel tcp_ReadPacket tcp_WritePacket tcp_rep
proof unfold_locales
  show "tcp_rep s' (ps @ [p])" if "tcp_rep s ps" "tcp_WritePacket s p = (None, s')" for s ps p s'
    using that by (auto simp: tcp_rep_def tcp_WritePacket_def tcp_frames_def split: if_splits)
  show "tcp_rep s' ps" if "tcp_rep s ps" "tcp_WritePacket s p = (Some e, s')" for s ps p e s'
    using that by (auto simp: tcp_WritePacket_def split: if_splits)
  show "\<exists>s'. tcp_ReadPacket s = (Inr p, s') \<and> tcp_rep s' ps" if "tcp_rep s (p # ps)" for s p ps
    using that by (auto simp: tcp_rep_def tcp_ReadPacket_def tcp_frames_def maxTCPPacket_def Let_def)
qed

interpretation tcp_scrambled: scrambled_channel tcp_ReadPacket tcp_WritePacket tcp_rep cfg for cfg
  by unfold_locales

lemma tcp_sent:
  "\<not> tp_writerClosed t \<Longrightarrow> \<forall>p\<in>set ps. p \<noteq> [] \<and> length p \<le> maxTCPPacket \<Longrightarrow>
     sent (scramble_WritePacket tcp_WritePacket cfg) t ps = ps"
proof (induction ps arbitrary: t)
  case Nil
  then show ?case by simp
next
  case (Cons p ps)
  obtain t' where "scramble_WritePacket tcp_WritePacket cfg t p = (None, t')" "\<not> tp_writerClosed t'"
    using Cons.prems by (auto simp: scramble_WritePacket_def tcp_WritePacket_def)
  then show ?case using Cons.IH [of t'] Cons.prems by simp
qed

section \<open>The UDP retry loop is bounded\<close>

text \<open>What the first five, shorter waits leave out of 16 ms each.\<close>

definition backoff_deficit :: "nat \<Rightarrow> nat" where
  "backoff_deficit b = (if b = 500 then 64500 else if b = 1000 then 49000 else if b = 2000 then 34000
     else if b = 4000 then 20000 else if b = 8000 then 8000 else 0)"

lemma enobufs_loop_bounds:
  assumes "b \<in> {500, 1000, 2000, 4000, 8000, 16000}" and "t < 1516000"
    and "16000 * i + backoff_deficit b \<le> t + 80500"
  shows "case enobufs_loop env i b t stats of (err, n, slept, stats') \<Rightarrow> slept < 1516000 \<and> n \<le> 99 \<and>
    (err = None \<longleftrightarrow> i < n \<and> ue_write env (n - 1) = Written) \<and> stats' = (if err = None then stats + 1 else stats) \<and> i \<le> n"
  using assms
proof (induction env i b t stats rule: enobufs_loop.induct)
  case (1 env i b t stats)
  note unfold = enobufs_loop.simps [of env i b t stats]
  have i: "i \<le> 99" using "1.prems"(2,3) by linarith
  define b' where "b' = (if b < enobufMaxBackoff then if b * 2 > enobufMaxBackoff then enobufMaxBackoff else b * 2 else b)"
  have b: "b \<noteq> 0" "b' \<in> {500, 1000, 2000, 4000, 8000, 16000}" "b \<le> 16000"
    "backoff_deficit b' + 16000 = backoff_deficit b + b"
    using "1.prems"(1) by (auto simp: b'_def enobufMaxBackoff_def backoff_deficit_def)
  show ?case
  proof (cases "t \<ge> enobufMaxTotalSleep \<or> (case ue_until env i of Some u \<Rightarrow> u \<le> int b | None \<Rightarrow> False) \<or> ue_done env i")
    case True
    then show ?thesis using "1.prems"(2) b(1) i by (subst unfold) auto
  next
    case False
    have t: "t + b < 1516000" using False b(3) by (simp add: enobufMaxTotalSleep_def)
    have inv: "16000 * (i + 1) + backoff_deficit b' \<le> t + b + 80500" using "1.prems"(3) b(4) by (simp add: distrib_left)
    then have "16000 * i + 16000 \<le> t + b + 80500" by (simp add: distrib_left)
    then have i1: "i + 1 \<le> 99" using t by simp
    show ?thesis
    proof (cases "ue_write env i")
      case NoBufs
      have "enobufs_loop env i b t stats = enobufs_loop env (i + 1) b' (t + b) stats"
        using False b(1) NoBufs by (subst unfold) (simp add: Let_def b'_def)
      moreover obtain err n slept stats' where r: "enobufs_loop env (i + 1) b' (t + b) stats = (err, n, slept, stats')"
        by (cases "enobufs_loop env (i + 1) b' (t + b) stats")
      moreover have "slept < 1516000 \<and> n \<le> 99 \<and> (err = None \<longleftrightarrow> i + 1 < n \<and> ue_write env (n - 1) = Written) \<and>
          stats' = (if err = None then stats + 1 else stats) \<and> i + 1 \<le> n"
        using "1.IH" [OF _ _ _ refl b'_def NoBufs b(2) t inv] False b(1) r by simp
      moreover have "ue_write env (n - 1) = Written \<Longrightarrow> i + 1 \<le> n \<Longrightarrow> i + 1 < n"
        using NoBufs by (cases "n = i + 1") simp_all
      ultimately show ?thesis by auto
    next
      case Written
      then show ?thesis using False b(1) t i1 by (subst unfold) (simp add: Let_def)
    next
      case OtherError
      then show ?thesis using False b(1) t i1 by (subst unfold) (simp add: Let_def)
    qed
  qed
qed

section \<open>Properties\<close>

text \<open>
  Every scramble mode is undone by the receiver, keeps the packet's length, and is the
  documented permutation: each byte combined with the key byte of its position, or with its
  position plus one, or all bytes but the first reversed.
\<close>

lemma scramble_roundtrip:
  "scrambleRecv mode key (scrambleSend mode key buf) = buf \<and> length (scrambleSend mode key buf) = length buf \<and>
   scrambleSend ScrambleReverse key (b # bs) = b # rev bs \<and>
   (i < length buf \<longrightarrow> scrambleSend ScrambleXorPtrPos key buf ! i = buf ! i XOR of_nat (i + 1) \<and>
      (key \<noteq> [] \<longrightarrow> scrambleSend ScrambleXorMask key buf ! i = buf ! i XOR key ! (i mod length key)))"
  by (simp add: reverseBytes_eq xorPtrPos_def xor_ptr_loop_nth xorMask_def xor_mask_loop_nth)

lemma scramble_roundtrip_witness: "scrambleSend ScrambleXorMask [1, 2] [7, 7, 7] ! 2 = 7 XOR 1"
  using scramble_roundtrip [where buf = "[7, 7, 7]" and key = "[1, 2]" and i = 2] by (simp add: numeral_2_eq_2)

text \<open>
  Packets over a scrambled TCP stream arrive as they were sent: whatever the scramble mode and
  key, packets of 1 to 65535 bytes written one after the other are read back one by one, in
  order, with their boundaries.
\<close>

lemma scrambled_tcp_delivers:
  assumes "\<forall>p\<in>set ps. p \<noteq> [] \<and> length p \<le> maxTCPPacket"
    and "t = \<lparr>tp_writerClosed = False, tp_readerClosed = False, tp_stream = []\<rparr>"
  shows "recv_n (scramble_ReadPacket tcp_ReadPacket cfg) (length ps)
    (send_all (scramble_WritePacket tcp_WritePacket cfg) t ps) = ps"
proof -
  have s: "sent (scramble_WritePacket tcp_WritePacket cfg) t ps = ps"
    using tcp_sent [OF _ assms(1), of t cfg] assms(2) by simp
  have "tcp_rep t (map (scrambleSend (fst cfg) (snd cfg)) [])" by (simp add: assms(2) tcp_rep_def tcp_frames_def)
  from tcp_scrambled.sc.delivers [OF this, of ps] show ?thesis unfolding s .
qed

lemma scrambled_tcp_delivers_witness:
  "recv_n (scramble_ReadPacket tcp_ReadPacket (ScrambleObfuscate, [5])) 2
    (send_all (scramble_WritePacket tcp_WritePacket (ScrambleObfuscate, [5]))
      \<lparr>tp_writerClosed = False, tp_readerClosed = False, tp_stream = []\<rparr> [[1, 2, 3, 4], [9]]) = [[1, 2, 3, 4], [9]]"
  using scrambled_tcp_delivers [of "[[1, 2, 3, 4], [9]]" _ "(ScrambleObfuscate, [5])", OF _ refl]
  by (simp add: maxTCPPacket_def numeral_2_eq_2)

text \<open>
  A UDP send never hangs on a full kernel buffer: whatever the socket answers, it ends after at
  most 99 attempts and less than 1.516 seconds of waiting; it reports success exactly when its
  last attempt was written, and counts a retry exactly when a retry succeeded.
\<close>

lemma udp_WritePacket_bounded:
  "case udp_WritePacket env closed stats of (err, n, slept, stats') \<Rightarrow>
     n \<le> 99 \<and> slept < 1516000 \<and> (err = None \<longleftrightarrow> 0 < n \<and> ue_write env (n - 1) = Written) \<and>
     stats' = (if err = None \<and> 1 < n then stats + 1 else stats)"
proof (cases "closed \<or> ue_write env 0 \<noteq> NoBufs")
  case True
  then show ?thesis by (auto simp: udp_WritePacket_def split: write_result.splits)
next
  case False
  then have eq: "udp_WritePacket env closed stats = enobufs_loop env 1 500 0 stats"
    by (simp add: udp_WritePacket_def enobufInitialBackoff_def)
  have "ue_write env 0 = NoBufs" using False by simp
  then have first: "n = Suc 0 \<Longrightarrow> ue_write env (n - Suc 0) \<noteq> Written" for n by simp
  obtain err n slept stats' where r: "enobufs_loop env 1 500 0 stats = (err, n, slept, stats')"
    by (cases "enobufs_loop env 1 500 0 stats")
  show ?thesis
    using enobufs_loop_bounds [of 500 0 1 env stats] first [of n] unfolding eq r
    by (auto simp: backoff_deficit_def)
qed

end
