(* ===== verification/Tables.thy ===== *)
theory Tables
  imports Prelude
begin

text \<open>
  The key-id tables of a session (\<^verbatim>\<open>internal/session/tables.go\<close>): which data slot and which
  reliability layer is installed under each 3-bit key-id, and which slot sends.

  The Go tables hold pointers, and \<^verbatim>\<open>RetireIf\<close> compares them: an entry is evicted only if it is
  still the very object the caller installed. A pointer is a \<open>ref\<close>, an address of the object
  store of the session (theory \<^verbatim>\<open>Session\<close>); \<^verbatim>\<open>nil\<close> is \<^const>\<open>None\<close>. Every method holds the table's
  mutex, so each is one atomic step. (\<^verbatim>\<open>Install\<close> stores the active key-id just after it unlocks.)
\<close>

type_synonym ref = nat

section \<open>Slots\<close>

record slotTable =
  st_byKID :: "u8 \<rightharpoonup> ref"
  st_active :: u32

definition newSlotTable :: slotTable where
  "newSlotTable = \<lparr>st_byKID = Map.empty, st_active = 0\<rparr>"

text \<open>\<open>kid\<close> is the \<^verbatim>\<open>KeyID\<close> field of the slot \<open>s\<close> points to.\<close>

definition slots_Install :: "slotTable \<Rightarrow> u8 \<Rightarrow> ref \<Rightarrow> bool \<Rightarrow> slotTable" where
  "slots_Install t kid s makeActive =
     (let t1 = t\<lparr>st_byKID := (st_byKID t)(kid \<mapsto> s)\<rparr>
      in if makeActive then t1\<lparr>st_active := ucast kid\<rparr> else t1)"

definition slots_RetireIf :: "slotTable \<Rightarrow> u8 \<Rightarrow> ref option \<Rightarrow> slotTable" where
  "slots_RetireIf t kid want =
     (if st_byKID t kid = want then t\<lparr>st_byKID := (st_byKID t)(kid := None)\<rparr> else t)"

definition slots_Get :: "slotTable \<Rightarrow> u8 \<Rightarrow> ref option" where
  "slots_Get t kid = st_byKID t kid"

definition slots_ActiveKID :: "slotTable \<Rightarrow> u8" where
  "slots_ActiveKID t = ucast (st_active t)"

definition slots_Active :: "slotTable \<Rightarrow> ref option" where
  "slots_Active t = slots_Get t (ucast (st_active t))"

definition slots_Retire :: "slotTable \<Rightarrow> u8 \<Rightarrow> slotTable" where
  "slots_Retire t kid = t\<lparr>st_byKID := (st_byKID t)(kid := None)\<rparr>"

section \<open>Layers\<close>

record layerTable =
  lt_byKID :: "u8 \<rightharpoonup> ref"

definition newLayerTable :: layerTable where
  "newLayerTable = \<lparr>lt_byKID = Map.empty\<rparr>"

definition layers_Install :: "layerTable \<Rightarrow> u8 \<Rightarrow> ref \<Rightarrow> ref option \<times> layerTable" where
  "layers_Install t kid l =
     (case lt_byKID t kid of Some prev \<Rightarrow> if prev \<noteq> l then Some prev else None | None \<Rightarrow> None,
      t\<lparr>lt_byKID := (lt_byKID t)(kid \<mapsto> l)\<rparr>)"

definition layers_RetireIf :: "layerTable \<Rightarrow> u8 \<Rightarrow> ref option \<Rightarrow> ref option \<times> layerTable" where
  "layers_RetireIf t kid want =
     (case lt_byKID t kid of
        Some l \<Rightarrow> if Some l = want then (Some l, t\<lparr>lt_byKID := (lt_byKID t)(kid := None)\<rparr>) else (None, t)
      | None \<Rightarrow> (None, t))"

definition layers_Get :: "layerTable \<Rightarrow> u8 \<Rightarrow> ref option" where
  "layers_Get t kid = lt_byKID t kid"

definition layers_Retire :: "layerTable \<Rightarrow> u8 \<Rightarrow> ref option \<times> layerTable" where
  "layers_Retire t kid = (lt_byKID t kid, t\<lparr>lt_byKID := (lt_byKID t)(kid := None)\<rparr>)"

section \<open>Key-ids\<close>

definition nextKeyID :: "u8 \<Rightarrow> u8" where
  "nextKeyID cur = (let next = (cur + 1) AND 0x07 in if next = 0 then 1 else next)"

lemma nextKeyID_unat: "unat (nextKeyID k) = (let n = (unat k + 1) mod 8 in if n = 0 then 1 else n)"
proof -
  have "unat ((k + 1) AND 0x07) = unat (k + 1) mod 8"
    by (simp add: unsigned_take_bit_eq take_bit_nat_def)
  also have "\<dots> = (unat k + 1) mod 8"
  proof -
    have "unat (k + 1) = (unat k + 1) mod 256" by (simp add: unat_word_ariths)
    then show ?thesis by (simp add: mod_mod_cancel)
  qed
  finally have u: "unat ((k + 1) AND 0x07) = (unat k + 1) mod 8" .
  have "((k + 1) AND 0x07 = 0) = (unat ((k + 1) AND 0x07) = 0)" by (simp only: unsigned_eq_0_iff)
  then show ?thesis unfolding nextKeyID_def Let_def u by (simp add: u del: and_7)
qed

lemma nextKeyID_range: "1 \<le> unat (nextKeyID k)" "unat (nextKeyID k) < 8"
  unfolding nextKeyID_unat Let_def by auto

lemma nextKeyID_nonzero [simp]: "nextKeyID k \<noteq> 0"
  using nextKeyID_range(1) [of k] by auto

lemma nextKeyID_ne: "unat k < 8 \<Longrightarrow> nextKeyID k \<noteq> k"
proof
  assume "unat k < 8" "nextKeyID k = k"
  then have "unat k = (let n = (unat k + 1) mod 8 in if n = 0 then 1 else n)"
    by (metis nextKeyID_unat)
  with \<open>unat k < 8\<close> show False
    by (cases "unat k = 7") (auto simp: Let_def split: if_splits)
qed

lemma ucast_kid [simp]: "ucast (ucast (k :: u8) :: u32) = k"
  by (rule bit_word_eqI) (auto simp: bit_simps)

section \<open>The contract of a key-id table\<close>

text \<open>
  Both tables promise the same: an installed object is what \<open>get\<close> returns until something
  evicts it; a conditional eviction removes only the object it names; other key-ids are not
  touched. What a session needs of them is proved once from these laws.
\<close>

datatype table_op =
    TInstall u8 ref
  | TRetireIf u8 "ref option"
  | TRetire u8

locale kid_table =
  fixes get :: "'t \<Rightarrow> u8 \<Rightarrow> ref option"
    and install :: "'t \<Rightarrow> u8 \<Rightarrow> ref \<Rightarrow> 't"
    and retire_if :: "'t \<Rightarrow> u8 \<Rightarrow> ref option \<Rightarrow> 't"
    and retire :: "'t \<Rightarrow> u8 \<Rightarrow> 't"
  assumes get_install: "get (install t k p) k' = (if k' = k then Some p else get t k')"
    and get_retire_if: "get (retire_if t k w) k' = (if k' = k \<and> get t k = w then None else get t k')"
    and get_retire: "get (retire t k) k' = (if k' = k then None else get t k')"
begin

fun run_op :: "'t \<Rightarrow> table_op \<Rightarrow> 't" where
  "run_op t (TInstall k p) = install t k p"
| "run_op t (TRetireIf k w) = retire_if t k w"
| "run_op t (TRetire k) = retire t k"

text \<open>An operation that may run while \<open>p\<close> holds \<open>k\<close> without costing it its place.\<close>

fun spares :: "u8 \<Rightarrow> ref \<Rightarrow> table_op \<Rightarrow> bool" where
  "spares k p (TInstall k' p') \<longleftrightarrow> k' \<noteq> k"
| "spares k p (TRetireIf k' w) \<longleftrightarrow> k' \<noteq> k \<or> w \<noteq> Some p"
| "spares k p (TRetire k') \<longleftrightarrow> k' \<noteq> k"

lemma holder_survives: "get t k = Some p \<Longrightarrow> list_all (spares k p) ops \<Longrightarrow> get (foldl run_op t ops) k = Some p"
proof (induction ops arbitrary: t)
  case Nil
  then show ?case by simp
next
  case (Cons op ops)
  then have "get (run_op t op) k = Some p"
    by (cases op) (auto simp: get_install get_retire_if get_retire)
  with Cons show ?case by simp
qed

text \<open>What is in the table was put there, and is not older than the last object put there.\<close>

lemma get_origin:
  "get (foldl run_op t ops) k = Some p \<Longrightarrow> get t k = Some p \<or> TInstall k p \<in> set ops"
proof (induction ops arbitrary: t)
  case Nil
  then show ?case by simp
next
  case (Cons op ops)
  then have "get (run_op t op) k = Some p \<or> TInstall k p \<in> set ops" by simp
  then show ?case
    by (cases op) (auto simp: get_install get_retire_if get_retire split: if_splits)
qed

lemma newest_holder:
  "get (foldl run_op (install t k p) ops) k = Some q \<Longrightarrow> TInstall k q \<in> set ops \<or> q = p"
  using get_origin [of "install t k p" ops k q] by (auto simp: get_install)

end

interpretation slot_table: kid_table slots_Get "\<lambda>t k p. slots_Install t k p active" slots_RetireIf slots_Retire
  for active
  by unfold_locales (auto simp: slots_Get_def slots_Install_def slots_RetireIf_def slots_Retire_def Let_def)

interpretation layer_table: kid_table layers_Get "\<lambda>t k p. snd (layers_Install t k p)"
  "\<lambda>t k w. snd (layers_RetireIf t k w)" "\<lambda>t k. snd (layers_Retire t k)"
  by unfold_locales
     (auto simp: layers_Get_def layers_Install_def layers_RetireIf_def layers_Retire_def split: option.splits)

lemmas table_get_simps =
  slot_table.get_install slot_table.get_retire_if slot_table.get_retire
  layer_table.get_install layer_table.get_retire_if layer_table.get_retire

lemma slots_active_Install [simp]:
  "slots_ActiveKID (slots_Install t k p True) = k" "slots_Active (slots_Install t k p True) = Some p"
  "st_active (slots_Install t k p False) = st_active t"
  by (simp_all add: slots_ActiveKID_def slots_Active_def slots_Install_def slots_Get_def Let_def)

lemma slots_ActiveKID_retire [simp]:
  "slots_ActiveKID (slots_RetireIf t k w) = slots_ActiveKID t" "slots_ActiveKID (slots_Retire t k) = slots_ActiveKID t"
  by (simp_all add: slots_ActiveKID_def slots_RetireIf_def slots_Retire_def)

lemma slots_Active_Get: "slots_Active t = slots_Get t (slots_ActiveKID t)"
  by (simp add: slots_Active_def slots_ActiveKID_def)

lemma layers_Install_displaced:
  "fst (layers_Install t k p) = (if layers_Get t k = Some p then None else layers_Get t k)"
  by (auto simp: layers_Install_def layers_Get_def split: option.splits)

lemma layers_Retire_fst [simp]: "fst (layers_Retire t k) = layers_Get t k"
  by (simp add: layers_Retire_def layers_Get_def)

lemma layers_RetireIf_fst: "fst (layers_RetireIf t k w) = (if layers_Get t k = w then w else None)"
  by (auto simp: layers_RetireIf_def layers_Get_def split: option.splits)

end
