(* ===== verification/PeerInfo.thy ===== *)
theory PeerInfo
  imports GoStrings "HOL-Library.AList" "HOL-Library.List_Lexorder" "HOL-Library.Char_ord"
begin

text \<open>
  The peer-info field of KEY_METHOD 2 (\<^verbatim>\<open>internal/proto/peerinfo.go\<close>) and the strings the client
  sends with it (\<^verbatim>\<open>buildOptionsString\<close>, \<^verbatim>\<open>buildPeerInfo\<close>, \<^verbatim>\<open>firstCipher\<close> of
  \<^verbatim>\<open>internal/control/handshake.go\<close>).

  A Go map is an association list with distinct keys; nothing here depends on its order, as
  \<^verbatim>\<open>Encode\<close> sorts the keys (byte-wise, as \<^verbatim>\<open>sort.Strings\<close> does).
\<close>

section \<open>peerinfo.go\<close>

definition IVProtoDataV2 :: int where "IVProtoDataV2 = push_bit 1 1"
definition IVProtoRequestPush :: int where "IVProtoRequestPush = push_bit 2 1"
definition IVProtoTLSKeyExport :: int where "IVProtoTLSKeyExport = push_bit 3 1"
definition IVProtoCCExitNotify :: int where "IVProtoCCExitNotify = push_bit 7 1"

definition DefaultClientIVProto :: int where
  "DefaultClientIVProto = IVProtoDataV2 OR IVProtoRequestPush OR IVProtoTLSKeyExport OR IVProtoCCExitNotify"

type_synonym peer_info = "(string \<times> string) list"

definition PeerInfo_Set :: "string \<Rightarrow> string \<Rightarrow> peer_info \<Rightarrow> peer_info" where
  "PeerInfo_Set key value pi = AList.update key value pi"

definition NewPeerInfo :: "string \<Rightarrow> string \<Rightarrow> int \<Rightarrow> string \<Rightarrow> int \<Rightarrow> peer_info" where
  "NewPeerInfo version platform ivProto ciphers mtu =
     (let pi = [];
          pi = PeerInfo_Set ''IV_VER'' version pi;
          pi = PeerInfo_Set ''IV_PLAT'' platform pi;
          pi = PeerInfo_Set ''IV_PROTO'' (sprintf_d ivProto) pi;
          pi = PeerInfo_Set ''IV_NCP'' ''2'' pi;
          pi = PeerInfo_Set ''IV_CIPHERS'' ciphers pi;
          pi = PeerInfo_Set ''IV_MTU'' (sprintf_d mtu) pi
      in pi)"

text \<open>\<open>goos\<close> is \<^verbatim>\<open>runtime.GOOS\<close>.\<close>

definition DefaultPeerInfo :: "string \<Rightarrow> string \<Rightarrow> peer_info" where
  "DefaultPeerInfo goos ciphers = NewPeerInfo ''2.6.0'' goos DefaultClientIVProto ciphers 1500"

definition PeerInfo_Encode :: "peer_info \<Rightarrow> string" where
  "PeerInfo_Encode pi =
     (let keys = sort (map fst pi)
      in concat (map (\<lambda>k. k @ ''='' @ the (map_of pi k) @ [CHR 0x0A]) keys))"

section \<open>The client's strings (handshake.go)\<close>

definition firstCipher :: "string \<Rightarrow> string" where
  "firstCipher s = fst (Cut CHR '':'' s)"

definition buildOptionsString :: "string \<Rightarrow> string \<Rightarrow> string" where
  "buildOptionsString ciphers proto =
     Join [''V4'', ''dev-type tun'', ''link-mtu 1559'', ''tun-mtu 1500'', ''proto '' @ proto,
           ''cipher '' @ firstCipher ciphers, ''auth SHA256'', ''keysize 256'', ''key-method 2'', ''tls-client''] '',''"

definition buildPeerInfo :: "string \<Rightarrow> string \<Rightarrow> string \<Rightarrow> peer_info \<Rightarrow> string" where
  "buildPeerInfo goos ciphers version extra =
     (let pi = DefaultPeerInfo goos ciphers;
          pi = (if version \<noteq> '''' then PeerInfo_Set ''IV_VER'' version pi else pi);
          pi = foldl (\<lambda>pi (k, v). PeerInfo_Set k v pi) pi extra
      in PeerInfo_Encode pi)"

section \<open>Lemmas\<close>

lemma distinct_PeerInfo_Set [simp]: "distinct (map fst pi) \<Longrightarrow> distinct (map fst (PeerInfo_Set k v pi))"
  by (simp add: PeerInfo_Set_def distinct_update)

lemma map_of_PeerInfo_Set [simp]: "map_of (PeerInfo_Set k v pi) = (map_of pi)(k \<mapsto> v)"
  by (simp add: PeerInfo_Set_def update_conv')

lemma distinct_DefaultPeerInfo: "distinct (map fst (DefaultPeerInfo goos ciphers))"
  by (simp add: DefaultPeerInfo_def NewPeerInfo_def Let_def)

lemma extras_fields:
  "distinct (map fst pi) \<Longrightarrow> distinct (map fst (foldl (\<lambda>pi (k, v). PeerInfo_Set k v pi) pi extra))"
  by (induction extra arbitrary: pi) (auto split: prod.splits)

lemma extras_map:
  "distinct (map fst extra) \<Longrightarrow> map_of (foldl (\<lambda>pi (k, v). PeerInfo_Set k v pi) pi extra) = map_of pi ++ map_of extra"
proof (induction extra arbitrary: pi)
  case Nil
  then show ?case by simp
next
  case (Cons e extra)
  obtain k v where e: "e = (k, v)" by (cases e)
  have "map_of extra k = None" using Cons.prems e by (simp add: map_of_eq_None_iff)
  then have "(map_of pi)(k \<mapsto> v) ++ map_of extra = map_of pi ++ map_of (e # extra)"
    by (auto simp: e fun_eq_iff map_add_def split: option.splits)
  with Cons.IH Cons.prems show ?case by (simp add: e del: map_of.simps)
qed

text \<open>How a peer reads the field: one \<^verbatim>\<open>KEY=VALUE\<close> per line.\<close>

fun peer_lines :: "string \<Rightarrow> string list" where
  "peer_lines [] = []"
| "peer_lines (c # cs) =
     (if c = CHR 0x0A then [] # peer_lines cs
      else case peer_lines cs of [] \<Rightarrow> [[c]] | l # ls \<Rightarrow> (c # l) # ls)"

definition peer_parse :: "string \<Rightarrow> peer_info" where
  "peer_parse s = map (\<lambda>l. case Cut CHR ''='' l of (k, v, _) \<Rightarrow> (k, v)) (peer_lines s)"

definition field_ok :: "string \<times> string \<Rightarrow> bool" where
  "field_ok kv \<longleftrightarrow> CHR ''='' \<notin> set (fst kv) \<and> CHR 0x0A \<notin> set (fst kv) \<and> CHR 0x0A \<notin> set (snd kv)"

lemma peer_lines_line: "CHR 0x0A \<notin> set l \<Longrightarrow> peer_lines (l @ CHR 0x0A # s) = l # peer_lines s"
  by (induction l) auto

lemma peer_lines_concat:
  "(\<And>l. l \<in> set ls \<Longrightarrow> CHR 0x0A \<notin> set l) \<Longrightarrow> peer_lines (concat (map (\<lambda>l. l @ [CHR 0x0A]) ls)) = ls"
  by (induction ls) (auto simp: peer_lines_line)

lemma Encode_lines:
  "PeerInfo_Encode pi =
   concat (map (\<lambda>l. l @ [CHR 0x0A]) (map (\<lambda>k. k @ ''='' @ the (map_of pi k)) (sort (map fst pi))))"
  by (simp add: PeerInfo_Encode_def Let_def comp_def)

lemma peer_parse_Encode:
  assumes "\<And>kv. kv \<in> set pi \<Longrightarrow> field_ok kv" and "distinct (map fst pi)"
  shows "peer_parse (PeerInfo_Encode pi) = map (\<lambda>k. (k, the (map_of pi k))) (sort (map fst pi))"
proof -
  have ok: "field_ok (k, the (map_of pi k))" if "k \<in> set (map fst pi)" for k
  proof -
    from that obtain v where "(k, v) \<in> set pi" by auto
    with assms show ?thesis by simp
  qed
  have "peer_lines (PeerInfo_Encode pi) = map (\<lambda>k. k @ ''='' @ the (map_of pi k)) (sort (map fst pi))"
    unfolding Encode_lines using ok by (intro peer_lines_concat) (force simp: field_ok_def)
  then show ?thesis using ok by (force simp: peer_parse_def field_ok_def)
qed

lemma map_of_sorted_fields:
  "distinct (map fst pi) \<Longrightarrow> map_of (map (\<lambda>k. (k, the (map_of pi k))) (sort (map fst pi))) = map_of pi"
proof
  fix k assume "distinct (map fst pi)"
  show "map_of (map (\<lambda>k. (k, the (map_of pi k))) (sort (map fst pi))) k = map_of pi k"
  proof (cases "map_of pi k")
    case None
    then have "k \<notin> fst ` set (map (\<lambda>k. (k, the (map_of pi k))) (sort (map fst pi)))"
      by (force simp: map_of_eq_None_iff)
    then show ?thesis by (metis None map_of_eq_None_iff)
  next
    case (Some v)
    then have "k \<in> set (sort (map fst pi))" by (auto dest: map_of_SomeD intro: rev_image_eqI)
    with Some show ?thesis by (simp add: map_of_map_restrict)
  qed
qed

lemma sort_keys_cong:
  assumes "map_of pi = map_of pi'" and "distinct (map fst pi)" and "distinct (map fst pi')"
  shows "sort (map fst pi) = sort (map fst pi')"
proof -
  have "set (map fst pi) = set (map fst pi')"
    using assms(1) by (metis dom_map_of_conv_image_fst list.set_map)
  then show ?thesis
    using assms(2,3) by (metis sorted_list_of_set_sort_remdups distinct_remdups_id)
qed

lemma set_DefaultPeerInfo:
  "set (DefaultPeerInfo goos ciphers) =
   {(''IV_VER'', ''2.6.0''), (''IV_PLAT'', goos), (''IV_PROTO'', sprintf_d 142), (''IV_NCP'', ''2''),
    (''IV_CIPHERS'', ciphers), (''IV_MTU'', sprintf_d 1500)}"
proof -
  have "DefaultClientIVProto = 142"
    by (simp add: DefaultClientIVProto_def IVProtoDataV2_def IVProtoRequestPush_def IVProtoTLSKeyExport_def
        IVProtoCCExitNotify_def)
  then show ?thesis
    by (auto simp: DefaultPeerInfo_def NewPeerInfo_def PeerInfo_Set_def Let_def)
qed

lemma field_ok_Set: "field_ok (k, v) \<Longrightarrow> \<forall>kv\<in>set pi. field_ok kv \<Longrightarrow> \<forall>kv\<in>set (PeerInfo_Set k v pi). field_ok kv"
  by (induction pi) (auto simp: PeerInfo_Set_def)

lemma field_ok_extras:
  "\<forall>kv\<in>set extra. field_ok kv \<Longrightarrow> \<forall>kv\<in>set pi. field_ok kv \<Longrightarrow>
   \<forall>kv\<in>set (foldl (\<lambda>pi (k, v). PeerInfo_Set k v pi) pi extra). field_ok kv"
proof (induction extra arbitrary: pi)
  case Nil
  then show ?case by simp
next
  case (Cons e extra)
  obtain k v where e: "e = (k, v)" by (cases e)
  have "\<forall>kv\<in>set (PeerInfo_Set k v pi). field_ok kv"
  proof (rule field_ok_Set)
    show "field_ok (k, v)" using Cons.prems(1) e by simp
    show "\<forall>kv\<in>set pi. field_ok kv" by (rule Cons.prems(2))
  qed
  moreover have "\<forall>kv\<in>set extra. field_ok kv" using Cons.prems(1) by simp
  ultimately have "\<forall>kv\<in>set (foldl (\<lambda>pi (k, v). PeerInfo_Set k v pi) (PeerInfo_Set k v pi) extra). field_ok kv"
    by (intro Cons.IH)
  then show ?case by (simp only: e foldl.simps prod.case)
qed

lemma nat_decimal_no_newline: "CHR 0x0A \<notin> set (nat_decimal n)"
proof
  assume "CHR 0x0A \<in> set (nat_decimal n)"
  then obtain d where "d < 10" "CHR 0x0A = digit_char d" using set_nat_decimal by blast
  then have "char_digit CHR 0x0A = Some d" by simp
  then show False by (simp add: char_digit_def)
qed

lemma field_ok_default:
  "CHR 0x0A \<notin> set goos \<Longrightarrow> CHR 0x0A \<notin> set ciphers \<Longrightarrow> \<forall>kv\<in>set (DefaultPeerInfo goos ciphers). field_ok kv"
  by (auto simp: set_DefaultPeerInfo field_ok_def sprintf_d_def nat_decimal_no_newline)

section \<open>Properties\<close>

text \<open>
  What the server reads from the peer-info field is what the client set: parsing the encoded
  string line by line gives back exactly the default fields, with the version and the extra
  fields the caller supplied overriding them, in key order; and the string depends on the set
  of fields only, not on the iteration order of the Go map it was built from.
\<close>

lemma peer_info_roundtrip:
  assumes "CHR 0x0A \<notin> set goos" and "CHR 0x0A \<notin> set ciphers" and "CHR 0x0A \<notin> set version"
    and "\<forall>kv\<in>set extra. field_ok kv" and "distinct (map fst extra)"
  shows "map_of (peer_parse (buildPeerInfo goos ciphers version extra)) =
      (map_of (DefaultPeerInfo goos ciphers) ++ (if version = '''' then Map.empty else [''IV_VER'' \<mapsto> version]))
        ++ map_of extra
    \<and> sorted (map fst (peer_parse (buildPeerInfo goos ciphers version extra)))
    \<and> (\<forall>extra'. distinct (map fst extra') \<longrightarrow> map_of extra' = map_of extra \<longrightarrow>
        buildPeerInfo goos ciphers version extra' = buildPeerInfo goos ciphers version extra)"
proof -
  define base where "base = (let pi = DefaultPeerInfo goos ciphers
    in if version \<noteq> '''' then PeerInfo_Set ''IV_VER'' version pi else pi)"
  define full where "full extra = foldl (\<lambda>pi (k, v). PeerInfo_Set k v pi) base extra" for extra
  have eq: "buildPeerInfo goos ciphers version extra = PeerInfo_Encode (full extra)" for extra
    by (simp add: buildPeerInfo_def full_def base_def Let_def)
  have dbase: "distinct (map fst base)"
    by (simp add: base_def Let_def distinct_DefaultPeerInfo)
  then have dist: "distinct (map fst (full extra))" for extra
    unfolding full_def by (rule extras_fields)
  have "field_ok (''IV_VER'', version)" using assms(3) by (simp add: field_ok_def)
  then have "\<forall>kv\<in>set base. field_ok kv"
    using field_ok_default [OF assms(1,2)] field_ok_Set [of "''IV_VER''" version "DefaultPeerInfo goos ciphers"]
    unfolding base_def Let_def by (cases "version = ''''") simp_all
  then have ok: "\<forall>kv\<in>set (full extra). field_ok kv"
    unfolding full_def using field_ok_extras [OF assms(4)] by simp
  have mbase: "map_of base = map_of (DefaultPeerInfo goos ciphers) ++ (if version = '''' then Map.empty else [''IV_VER'' \<mapsto> version])"
    by (auto simp: base_def Let_def fun_eq_iff)
  have parse: "peer_parse (PeerInfo_Encode (full extra)) =
      map (\<lambda>k. (k, the (map_of (full extra) k))) (sort (map fst (full extra)))"
    using ok dist by (intro peer_parse_Encode) auto
  have cong: "PeerInfo_Encode (full extra') = PeerInfo_Encode (full extra)"
    if "distinct (map fst extra')" "map_of extra' = map_of extra" for extra'
  proof -
    have "map_of (full extra') = map_of (full extra)"
      unfolding full_def using that assms(5) by (simp add: extras_map)
    then show ?thesis
      using sort_keys_cong [of "full extra'" "full extra"] dist by (simp add: PeerInfo_Encode_def)
  qed
  have "map_of (full extra) = map_of base ++ map_of extra"
    unfolding full_def using assms(5) by (rule extras_map)
  then have "map_of (peer_parse (PeerInfo_Encode (full extra))) = map_of base ++ map_of extra"
    using map_of_sorted_fields [OF dist, of extra] parse by simp
  moreover have "sorted (map fst (peer_parse (PeerInfo_Encode (full extra))))"
    unfolding parse by (simp add: comp_def)
  ultimately show ?thesis unfolding eq mbase [symmetric] using cong by simp
qed

lemma peer_info_roundtrip_witness:
  "map_of (peer_parse (buildPeerInfo ''linux'' ''AES-256-GCM'' ''2.7'' [(''UV_ID'', ''7'')])) ''UV_ID'' = Some ''7'' \<and>
   map_of (peer_parse (buildPeerInfo ''linux'' ''AES-256-GCM'' ''2.7'' [(''UV_ID'', ''7'')])) ''IV_VER'' = Some ''2.7''"
proof -
  have m: "map_of (peer_parse (buildPeerInfo ''linux'' ''AES-256-GCM'' ''2.7'' [(''UV_ID'', ''7'')])) =
      map_of (DefaultPeerInfo ''linux'' ''AES-256-GCM'') ++ [''IV_VER'' \<mapsto> ''2.7''] ++ map_of [(''UV_ID'', ''7'')]"
    using conjunct1 [OF peer_info_roundtrip [of "''linux''" "''AES-256-GCM''" "''2.7''" "[(''UV_ID'', ''7'')]"]]
    by (simp add: field_ok_def)
  show ?thesis unfolding m by simp
qed

end
