(* ===== verification/DataKeys.thy ===== *)
theory DataKeys
  imports Slot
begin

text \<open>
  Data-channel keys (\<^verbatim>\<open>internal/control/keys.go\<close>) and the two places that build a slot from them:
  \<^verbatim>\<open>buildSlot\<close> (\<^verbatim>\<open>internal/session/session.go\<close>, after the initial handshake) and step 6 of
  \<^verbatim>\<open>PerformSoftReset\<close> (\<^verbatim>\<open>internal/session/rekey.go\<close>), which slices the exported bytes itself.

  The TLS exporter (RFC 5705) is a parameter \<open>ekm label len\<close>: the bytes
  \<^verbatim>\<open>ConnectionState.ExportKeyingMaterial(label, nil, len)\<close> returns, or \<^const>\<open>None\<close> on error.
\<close>

definition ExportLabel :: string where "ExportLabel = ''EXPORTER-OpenVPN-datakeys''"
definition DataKeyMaterialLen :: nat where "DataKeyMaterialLen = 256"

datatype keys_error = EKMFailed | EKMLength nat | UnsupportedCipher string

type_synonym exporter = "string \<Rightarrow> nat \<Rightarrow> bytes option"
type_synonym DataKeyMaterial = bytes

definition ClientToServerCipherKey :: "DataKeyMaterial \<Rightarrow> nat \<Rightarrow> bytes" where
  "ClientToServerCipherKey m keyLen = subslice m 0 keyLen"

definition ClientToServerImplicitIV :: "DataKeyMaterial \<Rightarrow> bytes" where
  "ClientToServerImplicitIV m = subslice m 64 (64 + ImplicitIVLen)"

definition ServerToClientCipherKey :: "DataKeyMaterial \<Rightarrow> nat \<Rightarrow> bytes" where
  "ServerToClientCipherKey m keyLen = subslice m 128 (128 + keyLen)"

definition ServerToClientImplicitIV :: "DataKeyMaterial \<Rightarrow> bytes" where
  "ServerToClientImplicitIV m = subslice m 192 (192 + ImplicitIVLen)"

definition DeriveDataKeys :: "exporter \<Rightarrow> (keys_error, DataKeyMaterial) result" where
  "DeriveDataKeys ekm =
     (case ekm ExportLabel DataKeyMaterialLen of
        None \<Rightarrow> Inl EKMFailed
      | Some out \<Rightarrow> if length out \<noteq> DataKeyMaterialLen then Inl (EKMLength (length out)) else Inr out)"

definition AEADKeyLen :: "string \<Rightarrow> (keys_error, nat) result" where
  "AEADKeyLen cipher =
     (if cipher = ''AES-256-GCM'' \<or> cipher = ''CHACHA20-POLY1305'' then Inr 32
      else if cipher = ''AES-128-GCM'' then Inr 16
      else Inl (UnsupportedCipher cipher))"

datatype slot_error = KeyLenError keys_error | SlotFailed data_error

text \<open>\<^verbatim>\<open>buildSlot\<close> also returns the key material as it leaves it: wiped once the slot is built.\<close>

definition buildSlot :: "aead_lib \<Rightarrow> u8 \<Rightarrow> string \<Rightarrow> u32 \<Rightarrow> DataKeyMaterial \<Rightarrow> (slot_error, Slot) result \<times> DataKeyMaterial" where
  "buildSlot lib keyID cipher peerID mat =
     (case AEADKeyLen cipher of
        Inl e \<Rightarrow> (Inl (KeyLenError e), mat)
      | Inr keyLen \<Rightarrow>
          (case NewSlot lib \<lparr>sc_KeyID = keyID, sc_PeerID = peerID, sc_Cipher = cipher,
               sc_SendKey = ClientToServerCipherKey mat keyLen, sc_SendIV = ClientToServerImplicitIV mat,
               sc_RecvKey = ServerToClientCipherKey mat keyLen, sc_RecvIV = ServerToClientImplicitIV mat,
               sc_ReplaySize = 0\<rparr> of
             Inl e \<Rightarrow> (Inl (SlotFailed e), mat)
           | Inr slot \<Rightarrow> (Inr slot, replicate (length mat) 0)))"

text \<open>Step 6 of a rekey: the slices are taken from the exported bytes directly.\<close>

definition rekey_slot :: "aead_lib \<Rightarrow> u8 \<Rightarrow> string \<Rightarrow> u32 \<Rightarrow> bytes \<Rightarrow> nat \<Rightarrow> (data_error, Slot) result" where
  "rekey_slot lib newKID cipher peerID mat keyLen =
     NewSlot lib \<lparr>sc_KeyID = newKID, sc_PeerID = peerID, sc_Cipher = cipher,
       sc_SendKey = subslice mat 0 keyLen, sc_SendIV = subslice mat 64 (64 + ImplicitIVLen),
       sc_RecvKey = subslice mat 128 (128 + keyLen), sc_RecvIV = subslice mat 192 (192 + ImplicitIVLen),
       sc_ReplaySize = 0\<rparr>"

section \<open>Lemmas\<close>

lemma AEADKeyLen_cases: "AEADKeyLen c = Inr n \<Longrightarrow> n = 16 \<or> n = 32"
  by (auto simp: AEADKeyLen_def split: if_splits)

lemma ekm_slices [simp]:
  "length m = DataKeyMaterialLen \<Longrightarrow> length (ClientToServerImplicitIV m) = ImplicitIVLen"
  "length m = DataKeyMaterialLen \<Longrightarrow> length (ServerToClientImplicitIV m) = ImplicitIVLen"
  by (simp_all add: ClientToServerImplicitIV_def ServerToClientImplicitIV_def DataKeyMaterialLen_def ImplicitIVLen_def)

lemma rekey_slot_buildSlot:
  "AEADKeyLen cipher = Inr keyLen \<Longrightarrow>
   fst (buildSlot lib kid cipher peerID mat) = map_sum SlotFailed id (rekey_slot lib kid cipher peerID mat keyLen)"
  by (auto simp: buildSlot_def rekey_slot_def ClientToServerCipherKey_def ClientToServerImplicitIV_def
      ServerToClientCipherKey_def ServerToClientImplicitIV_def split: sum.splits)

text \<open>The server's view of the same key material: it sends with the keys the client receives with.\<close>

definition server_slot :: "aead_lib \<Rightarrow> u8 \<Rightarrow> string \<Rightarrow> u32 \<Rightarrow> bytes \<Rightarrow> nat \<Rightarrow> (data_error, Slot) result" where
  "server_slot lib kid cipher peerID mat keyLen =
     NewSlot lib \<lparr>sc_KeyID = kid, sc_PeerID = peerID, sc_Cipher = cipher,
       sc_SendKey = ServerToClientCipherKey mat keyLen, sc_SendIV = ServerToClientImplicitIV mat,
       sc_RecvKey = ClientToServerCipherKey mat keyLen, sc_RecvIV = ClientToServerImplicitIV mat,
       sc_ReplaySize = 0\<rparr>"

lemma buildSlot_fields:
  assumes "fst (buildSlot lib kid cipher peerID mat) = Inr s"
  obtains keyLen sa ra where "AEADKeyLen cipher = Inr keyLen" "peerID AND NOT 0x00FFFFFF = 0"
    "NewAEAD lib cipher (ClientToServerCipherKey mat keyLen) = Inr sa"
    "NewAEAD lib cipher (ServerToClientCipherKey mat keyLen) = Inr ra"
    "s = \<lparr>sl_KeyID = kid, sl_PeerID = peerID, sl_sendAEAD = sa, sl_sendIV = ClientToServerImplicitIV mat, sl_sendPID = 0,
       sl_recvAEAD = ra, sl_recvIV = ServerToClientImplicitIV mat, sl_recvWin = NewReplayWindow 0\<rparr>"
  using assms by (auto simp: buildSlot_def NewSlot_def split: sum.splits if_splits)

lemma buildSlot_server:
  assumes "fst (buildSlot lib kid cipher peerID mat) = Inr c" and "AEADKeyLen cipher = Inr keyLen"
  obtains s where "server_slot lib kid cipher peerID mat keyLen = Inr s" "slots_agree c s" "slots_agree s c"
proof -
  obtain sa ra where
    a: "NewAEAD lib cipher (ClientToServerCipherKey mat keyLen) = Inr sa"
       "NewAEAD lib cipher (ServerToClientCipherKey mat keyLen) = Inr ra" "peerID AND NOT 0x00FFFFFF = 0"
    and c: "c = \<lparr>sl_KeyID = kid, sl_PeerID = peerID, sl_sendAEAD = sa, sl_sendIV = ClientToServerImplicitIV mat, sl_sendPID = 0,
       sl_recvAEAD = ra, sl_recvIV = ServerToClientImplicitIV mat, sl_recvWin = NewReplayWindow 0\<rparr>"
    by (rule buildSlot_fields [OF assms(1)]) (use assms(2) in simp)
  show thesis
    by (rule that [of "\<lparr>sl_KeyID = kid, sl_PeerID = peerID, sl_sendAEAD = ra, sl_sendIV = ServerToClientImplicitIV mat, sl_sendPID = 0,
          sl_recvAEAD = sa, sl_recvIV = ClientToServerImplicitIV mat, sl_recvWin = NewReplayWindow 0\<rparr>"])
       (use a in \<open>simp_all add: server_slot_def NewSlot_def slots_agree_def c\<close>)
qed

text \<open>Ciphers that keep the AEAD contract make well-formed slots.\<close>

definition lib_ok :: "aead_lib \<Rightarrow> bool" where
  "lib_ok lib \<longleftrightarrow> (\<forall>key a. lib_GCM lib key = Some a \<longrightarrow> aead_ok a) \<and> (\<forall>key a. lib_ChaCha lib key = Some a \<longrightarrow> aead_ok a)"

lemma buildSlot_wf:
  assumes "fst (buildSlot lib kid cipher peerID mat) = Inr s" and "lib_ok lib"
    and "unat kid < 8" and "length mat = DataKeyMaterialLen"
  shows "slot_wf s \<and> sl_sendPID s = 0 \<and> sl_KeyID s = kid \<and> rw.represents (sl_recvWin s) {}"
proof -
  obtain cfg where "NewSlot lib cfg = Inr s" "sc_KeyID cfg = kid" "sc_ReplaySize cfg = 0"
    "sc_SendIV cfg = ClientToServerImplicitIV mat" "sc_RecvIV cfg = ServerToClientImplicitIV mat"
    using assms(1) by (auto simp: buildSlot_def split: sum.splits)
  moreover from this have "sl_KeyID s = kid" by (auto simp: NewSlot_def split: if_splits sum.splits)
  ultimately show ?thesis using NewSlot_wf [of lib cfg s] assms(2-) by (auto simp: lib_ok_def)
qed

section \<open>Properties\<close>

text \<open>
  Two ends that export the same key material hold matching data keys: whenever the client's
  \<open>buildSlot\<close> succeeds, the server's slot, with the two directions swapped, can be built too, and
  what each of them seals as its first packet the other one opens to the same plaintext. The
  slot a rekey builds from its own slices of the export is the one \<open>buildSlot\<close> builds.
\<close>

lemma data_keys_agree:
  assumes "fst (buildSlot lib kid cipher peerID mat) = Inr c" and "AEADKeyLen cipher = Inr keyLen"
    and "lib_ok lib" and "unat kid < 8" and "DeriveDataKeys ekm = Inr mat"
  shows "rekey_slot lib kid cipher peerID mat keyLen = Inr c \<and>
    (\<exists>s. server_slot lib kid cipher peerID mat keyLen = Inr s \<and>
       (\<exists>pkt c'. Seal stale c pt = (Inr pkt, c') \<and> fst (Open s pkt) = Inr pt) \<and>
       (\<exists>pkt s'. Seal stale s pt = (Inr pkt, s') \<and> fst (Open c pkt) = Inr pt))"
proof -
  have len: "length mat = DataKeyMaterialLen"
    using assms(5) by (auto simp: DeriveDataKeys_def split: option.splits if_splits)
  obtain s where s: "server_slot lib kid cipher peerID mat keyLen = Inr s" and ag: "slots_agree c s" "slots_agree s c"
    using buildSlot_server [OF assms(1,2)] .
  have "sl_recvWin c = NewReplayWindow 0"
    by (rule buildSlot_fields [OF assms(1)]) simp
  then have wfc: "slot_wf c" "sl_sendPID c = 0" "sl_recvWin c = NewReplayWindow 0"
    using buildSlot_wf [OF assms(1,3,4) len] by auto
  have wfs: "slot_wf s" "sl_sendPID s = 0"
    using NewSlot_wf [OF s [unfolded server_slot_def]] assms(3,4) len by (auto simp: lib_ok_def)
  have win: "sl_recvWin s = NewReplayWindow 0"
    using s by (auto simp: server_slot_def NewSlot_def split: if_splits sum.splits)
  have thr: "\<not> PacketIDRekeyThreshold \<le> 1" by code_simp
  have first: "\<exists>pkt a'. Seal stale a pt = (Inr pkt, a') \<and> fst (Open b pkt) = Inr pt"
    if "slot_wf a" "sl_sendPID a = 0" "slot_wf b" "slots_agree a b" "sl_recvWin b = NewReplayWindow 0" for a b
  proof -
    have sealed: "Seal stale a pt = (Inr (data_packet a 1 pt), a\<lparr>sl_sendPID := 1\<rparr>)"
      using that(1,2) Seal_eq [of a stale pt] thr by (simp add: slot_wf_def Let_def)
    have "Test (sl_recvWin b) 1"
      by (simp add: that(5) Test_def NewReplayWindow_def Let_def)
    then show ?thesis using sealed Open_data_packet [OF that(1,3,4), of 1 pt] by simp
  qed
  have "rekey_slot lib kid cipher peerID mat keyLen = Inr c"
    using rekey_slot_buildSlot [OF assms(2), of lib kid peerID mat] assms(1)
    by (cases "rekey_slot lib kid cipher peerID mat keyLen") auto
  then show ?thesis
    using s first [OF wfc(1,2) wfs(1) ag(1) win] first [OF wfs(1,2) wfc(1) ag(2) wfc(3)] by blast
qed

definition demo_material :: bytes where
  "demo_material = map of_nat [0..<256]"

lemma demo_material_export: "DeriveDataKeys (\<lambda>label n. if n = 256 then Some demo_material else None) = Inr demo_material"
  by (simp add: DeriveDataKeys_def DataKeyMaterialLen_def demo_material_def)

lemma demo_lib_ok: "lib_ok demo_lib"
  by (simp add: lib_ok_def demo_lib_def demo_aead_ok)

lemma demo_buildSlot: "\<exists>c. fst (buildSlot demo_lib 2 ''AES-256-GCM'' 7 demo_material) = Inr c"
  by (simp add: buildSlot_def AEADKeyLen_def NewSlot_def NewAEAD_def demo_lib_def demo_material_def
      ClientToServerCipherKey_def ServerToClientCipherKey_def)

lemma data_keys_agree_witness:
  "\<exists>c s pkt c'. server_slot demo_lib 2 ''AES-256-GCM'' 7 demo_material 32 = Inr s \<and>
     Seal (\<lambda>_. 0) c [1, 2, 3] = (Inr pkt, c') \<and> fst (Open s pkt) = Inr [1, 2, 3]"
proof -
  obtain c where c: "fst (buildSlot demo_lib 2 ''AES-256-GCM'' 7 demo_material) = Inr c"
    using demo_buildSlot by blast
  have "AEADKeyLen ''AES-256-GCM'' = Inr 32" by (simp add: AEADKeyLen_def)
  from data_keys_agree [OF c this demo_lib_ok _ demo_material_export, of "\<lambda>_. 0" "[1, 2, 3]"]
  show ?thesis by auto
qed

end
