(* ===== verification/Liveness.thy ===== *)
theory Liveness
  imports Prelude
begin

text \<open>
  The pure decisions of the keepalive and watchdog workers (\<^verbatim>\<open>internal/session/keepalive.go\<close>):
  timings, the transport-protocol sniffer that feeds the per-protocol timestamps, and when
  the data path counts as stuck. Theory \<^verbatim>\<open>Watchdogs\<close> runs them on the session state.

  Times are nanoseconds (\<^verbatim>\<open>UnixNano\<close>), durations are differences of times, both as integers;
  a timestamp 0 means never observed.
\<close>

section \<open>Timings\<close>

definition sec :: int where "sec = 1000000000"
definition msec :: int where "msec = 1000000"
definition defaultPingInterval :: int where "defaultPingInterval = 15 * sec"
definition defaultPingRestart :: int where "defaultPingRestart = 60 * sec"
definition dataActivityCheckPeriod :: int where "dataActivityCheckPeriod = 5 * sec"
definition dataActivityWarmup :: int where "dataActivityWarmup = 60 * sec"
definition dataActivityStuckThreshold :: int where "dataActivityStuckThreshold = 60 * sec"
definition dataActivityWarmupFast :: int where "dataActivityWarmupFast = 10 * sec"
definition dataActivityStuckThresholdFast :: int where "dataActivityStuckThresholdFast = 20 * sec"
definition dataActivityFastWindow :: int where "dataActivityFastWindow = 120 * sec"
definition hardResetThreshold :: u64 where "hardResetThreshold = 3"
definition wakeDetectGapThreshold :: int where "wakeDetectGapThreshold = 10 * sec"
definition statsLogPeriod :: int where "statsLogPeriod = 30 * sec"

lemmas timing_defs = sec_def msec_def defaultPingInterval_def defaultPingRestart_def dataActivityCheckPeriod_def
  dataActivityWarmup_def dataActivityStuckThreshold_def dataActivityWarmupFast_def
  dataActivityStuckThresholdFast_def dataActivityFastWindow_def wakeDetectGapThreshold_def statsLogPeriod_def

section \<open>sniffL4\<close>

definition l4ProtoTCP :: u8 where "l4ProtoTCP = 6"
definition l4ProtoUDP :: u8 where "l4ProtoUDP = 17"

definition sniffL4 :: "bytes \<Rightarrow> u8" where
  "sniffL4 pkt =
     (if length pkt < 1 then 0
      else if drop_bit 4 (pkt ! 0) = 4 then (if length pkt < 20 then 0 else pkt ! 9)
      else if drop_bit 4 (pkt ! 0) = 6 then (if length pkt < 40 then 0 else pkt ! 6)
      else 0)"

section \<open>Is the data path stuck?\<close>

text \<open>\<^verbatim>\<open>reason\<close> is the empty string when all is well.\<close>

record activityStallDecision =
  reason :: string
  sinceOut :: int
  sinceIn :: int

definition no_stall :: activityStallDecision where
  "no_stall = \<lparr>reason = '''', sinceOut = 0, sinceIn = 0\<rparr>"

definition checkStallWithFloor :: "int \<Rightarrow> int \<Rightarrow> int \<Rightarrow> int \<Rightarrow> int \<Rightarrow> activityStallDecision" where
  "checkStallWithFloor now age threshold lastOutNs lastInNs =
     (if lastOutNs = 0 then no_stall
      else
        let sinceOut = now - lastOutNs
        in if sinceOut \<ge> threshold then no_stall
           else
             let sinceIn = (if lastInNs > 0 then now - lastInNs else age)
             in if sinceIn < threshold then no_stall
                else \<lparr>reason = ''matched'', sinceOut = sinceOut, sinceIn = sinceIn\<rparr>)"

text \<open>The six timestamps the watchdog reads, as one record.\<close>

record activity =
  ac_lastOut :: int
  ac_lastIn :: int
  ac_lastTCPOut :: int
  ac_lastTCPIn :: int
  ac_lastUDPOut :: int
  ac_lastUDPIn :: int

definition decideActivityStall :: "int \<Rightarrow> int \<Rightarrow> int \<Rightarrow> activity \<Rightarrow> activityStallDecision" where
  "decideActivityStall now age threshold a =
     (let d = checkStallWithFloor now age threshold (ac_lastTCPOut a) (ac_lastTCPIn a)
      in if reason d \<noteq> '''' then d\<lparr>reason := ''tcp''\<rparr>
         else
           let d = checkStallWithFloor now age threshold (ac_lastUDPOut a) (ac_lastUDPIn a)
           in if reason d \<noteq> '''' then d\<lparr>reason := ''udp''\<rparr>
              else if ac_lastOut a > 0 \<and> ac_lastIn a > 0 then
                let sinceOut = now - ac_lastOut a;
                    sinceIn = now - ac_lastIn a
                in if sinceOut < threshold \<and> sinceIn \<ge> threshold
                   then \<lparr>reason = ''aggregate'', sinceOut = sinceOut, sinceIn = sinceIn\<rparr>
                   else no_stall
              else no_stall)"

section \<open>Parameters of the data-activity watchdog\<close>

text \<open>The five settings of \<^verbatim>\<open>Config\<close>, and what the watchdog makes of them before its loop.\<close>

record activity_config =
  cf_Warmup :: int
  cf_StuckThreshold :: int
  cf_WarmupFast :: int
  cf_StuckThresholdFast :: int
  cf_FastWindow :: int

record activity_params =
  ap_warmupSteady :: int
  ap_thresholdSteady :: int
  ap_warmupFast :: int
  ap_thresholdFast :: int
  ap_fastWindow :: int
  ap_period :: int

definition or_default :: "int \<Rightarrow> int \<Rightarrow> int" where
  "or_default v d = (if v \<le> 0 then d else v)"

definition activity_setup :: "activity_config \<Rightarrow> activity_params" where
  "activity_setup c =
     (let warmupSteady = or_default (cf_Warmup c) dataActivityWarmup;
          thresholdSteady = or_default (cf_StuckThreshold c) dataActivityStuckThreshold;
          warmupFast = or_default (cf_WarmupFast c) dataActivityWarmupFast;
          thresholdFast = or_default (cf_StuckThresholdFast c) dataActivityStuckThresholdFast;
          fastWindow = or_default (cf_FastWindow c) dataActivityFastWindow;
          warmupFast = (if warmupFast > warmupSteady then warmupSteady else warmupFast);
          thresholdFast = (if thresholdFast > thresholdSteady then thresholdSteady else thresholdFast);
          period = thresholdFast div 4;
          period = (if period < 100 * msec then 100 * msec
                    else if period > dataActivityCheckPeriod then dataActivityCheckPeriod else period)
      in \<lparr>ap_warmupSteady = warmupSteady, ap_thresholdSteady = thresholdSteady, ap_warmupFast = warmupFast,
          ap_thresholdFast = thresholdFast, ap_fastWindow = fastWindow, ap_period = period\<rparr>)"

text \<open>One tick of its loop: the decision, or nothing to do.\<close>

definition activity_tick :: "activity_params \<Rightarrow> int \<Rightarrow> int \<Rightarrow> activity \<Rightarrow> activityStallDecision option" where
  "activity_tick p start now a =
     (let age = now - start;
          (warmup, threshold) = (if age < ap_fastWindow p then (ap_warmupFast p, ap_thresholdFast p)
                                 else (ap_warmupSteady p, ap_thresholdSteady p))
      in if age < warmup then None
         else
           let decision = decideActivityStall now age threshold a
           in if reason decision = '''' then None else Some decision)"

section \<open>Other periods\<close>

definition keepalive_period :: "int \<Rightarrow> int" where
  "keepalive_period interval = max (interval div 4) (250 * msec)"

definition pingRestart_period :: "int \<Rightarrow> int" where
  "pingRestart_period restart =
     (let period = restart div 4
      in if period < 100 * msec then 100 * msec else if period > sec then sec else period)"

section \<open>Lemmas\<close>

text \<open>
  Which family is stalled, declaratively: it was used to send within the threshold, and
  nothing came back on it for the threshold (counted from the start of the session if nothing
  ever came back).
\<close>

definition stalled :: "int \<Rightarrow> int \<Rightarrow> int \<Rightarrow> int \<Rightarrow> int \<Rightarrow> bool" where
  "stalled now age threshold out inn \<longleftrightarrow>
     out \<noteq> 0 \<and> now - out < threshold \<and> threshold \<le> (if inn > 0 then now - inn else age)"

lemma checkStall_iff: "reason (checkStallWithFloor now age th out inn) = '''' \<longleftrightarrow> \<not> stalled now age th out inn"
  by (simp add: checkStallWithFloor_def stalled_def no_stall_def Let_def)

lemma checkStall_fields:
  "stalled now age th out inn \<Longrightarrow> checkStallWithFloor now age th out inn =
     \<lparr>reason = ''matched'', sinceOut = now - out, sinceIn = (if inn > 0 then now - inn else age)\<rparr>"
  by (simp add: checkStallWithFloor_def stalled_def Let_def)

lemma decide_reason:
  "reason (decideActivityStall now age th a) =
    (if stalled now age th (ac_lastTCPOut a) (ac_lastTCPIn a) then ''tcp''
     else if stalled now age th (ac_lastUDPOut a) (ac_lastUDPIn a) then ''udp''
     else if ac_lastOut a > 0 \<and> ac_lastIn a > 0 \<and> stalled now age th (ac_lastOut a) (ac_lastIn a) then ''aggregate''
     else '''')"
proof -
  have "ac_lastOut a > 0 \<and> ac_lastIn a > 0 \<and> stalled now age th (ac_lastOut a) (ac_lastIn a) \<longleftrightarrow>
    ac_lastOut a > 0 \<and> ac_lastIn a > 0 \<and> now - ac_lastOut a < th \<and> now - ac_lastIn a \<ge> th"
    by (auto simp: stalled_def)
  then show ?thesis
    unfolding decideActivityStall_def Let_def checkStall_iff by (simp add: no_stall_def)
qed

lemma activity_setup_params:
  fixes c
  defines "p \<equiv> activity_setup c"
  shows "0 < ap_warmupFast p" "ap_warmupFast p \<le> ap_warmupSteady p"
    and "0 < ap_thresholdFast p" "ap_thresholdFast p \<le> ap_thresholdSteady p"
    and "100 * msec \<le> ap_period p" "ap_period p \<le> dataActivityCheckPeriod"
  unfolding p_def activity_setup_def Let_def by (auto simp: or_default_def timing_defs)

end
