(* ===== verification/Workers.thy ===== *)
theory Workers
  imports Prelude "HOL-Library.Multiset"
begin

text \<open>
  The worker manager (\<^verbatim>\<open>internal/workers/workers.go\<close>): goroutines that share one cancellation
  context. \<open>'n\<close> identifies a worker; \<open>wm_running\<close> is a ghost list of the workers whose body is
  running. Logging is left out; the panic handler is what the session does on \<open>PanicExit\<close>.
\<close>

record 'n Manager =
  wm_shutdown :: bool  \<comment> \<open>the flag under the mutex\<close>
  wm_cancelled :: bool  \<comment> \<open>the context is done\<close>
  wm_wg :: nat  \<comment> \<open>the \<^verbatim>\<open>WaitGroup\<close> counter\<close>
  wm_active :: int
  wm_running :: "'n list"

definition NewManager :: "'n Manager" where
  "NewManager = \<lparr>wm_shutdown = False, wm_cancelled = False, wm_wg = 0, wm_active = 0, wm_running = []\<rparr>"

definition Manager_Go :: "'n \<Rightarrow> 'n Manager \<Rightarrow> bool \<times> 'n Manager" where
  "Manager_Go name m =
     (if wm_shutdown m then (False, m)
      else (True, m\<lparr>wm_wg := wm_wg m + 1, wm_active := wm_active m + 1, wm_running := name # wm_running m\<rparr>))"

definition Manager_Shutdown :: "'n Manager \<Rightarrow> 'n Manager" where
  "Manager_Shutdown m = m\<lparr>wm_shutdown := True, wm_cancelled := True\<rparr>"

text \<open>
  How a worker's goroutine ends: its body returns, or panics, in which case the manager shuts
  down before the deferred counters are decremented.
\<close>

definition worker_return :: "'n \<Rightarrow> 'n Manager \<Rightarrow> 'n Manager" where
  "worker_return name m =
     m\<lparr>wm_active := wm_active m - 1, wm_wg := wm_wg m - 1, wm_running := remove1 name (wm_running m)\<rparr>"

definition worker_panic :: "'n \<Rightarrow> 'n Manager \<Rightarrow> 'n Manager" where
  "worker_panic name m = worker_return name (Manager_Shutdown m)"

definition Wait_returns :: "'n Manager \<Rightarrow> bool" where
  "Wait_returns m \<longleftrightarrow> wm_wg m = 0"

section \<open>Runs\<close>

inductive manager_step :: "'n Manager \<Rightarrow> 'n Manager \<Rightarrow> bool" where
  go: "manager_step m (snd (Manager_Go name m))"
| ends: "name \<in> set (wm_running m) \<Longrightarrow> manager_step m (worker_return name m)"
| panics: "name \<in> set (wm_running m) \<Longrightarrow> manager_step m (worker_panic name m)"
| shutdown: "manager_step m (Manager_Shutdown m)"

inductive_cases manager_stepE: "manager_step m m'"

definition manager_inv :: "'n Manager \<Rightarrow> bool" where
  "manager_inv m \<longleftrightarrow> wm_wg m = length (wm_running m) \<and> wm_active m = int (length (wm_running m)) \<and>
     wm_cancelled m = wm_shutdown m"

lemma manager_inv_New: "manager_inv NewManager"
  by (simp add: manager_inv_def NewManager_def)

lemma manager_inv_Go: "manager_inv m \<Longrightarrow> manager_inv (snd (Manager_Go name m))"
  by (simp add: manager_inv_def Manager_Go_def)

lemma manager_inv_Shutdown: "manager_inv m \<Longrightarrow> manager_inv (Manager_Shutdown m)"
  by (simp add: manager_inv_def Manager_Shutdown_def)

lemma manager_inv_return:
  "manager_inv m \<Longrightarrow> name \<in> set (wm_running m) \<Longrightarrow> manager_inv (worker_return name m)"
  by (cases "wm_running m = []") (auto simp: manager_inv_def worker_return_def length_remove1 of_nat_diff Suc_leI)

lemma manager_inv_panic:
  "manager_inv m \<Longrightarrow> name \<in> set (wm_running m) \<Longrightarrow> manager_inv (worker_panic name m)"
  using manager_inv_return [OF manager_inv_Shutdown] by (simp add: worker_panic_def Manager_Shutdown_def)

lemma manager_step_inv: "manager_step m m' \<Longrightarrow> manager_inv m \<Longrightarrow> manager_inv m'"
  by (erule manager_stepE)
     (auto intro: manager_inv_Go manager_inv_Shutdown manager_inv_return manager_inv_panic)

lemma manager_steps_inv: "manager_step\<^sup>*\<^sup>* m m' \<Longrightarrow> manager_inv m \<Longrightarrow> manager_inv m'"
  by (induction rule: rtranclp_induct) (auto intro: manager_step_inv)

lemma manager_step_shutdown:
  "manager_step m m' \<Longrightarrow> wm_shutdown m \<Longrightarrow>
   wm_shutdown m' \<and> mset (wm_running m') \<subseteq># mset (wm_running m)"
  by (erule manager_stepE)
     (auto simp: Manager_Go_def worker_return_def worker_panic_def Manager_Shutdown_def)

lemma manager_steps_shutdown:
  "manager_step\<^sup>*\<^sup>* m m' \<Longrightarrow> wm_shutdown m \<Longrightarrow> wm_shutdown m' \<and> mset (wm_running m') \<subseteq># mset (wm_running m)"
  by (induction rule: rtranclp_induct) (auto dest: manager_step_shutdown intro: subset_mset.order_trans)

section \<open>Properties\<close>

text \<open>
  Workers and shutdown: in every state a fresh manager can reach, its counters are the number
  of workers running, so \<open>Wait\<close> returns exactly when none is left; the shared context is done
  exactly when shutdown has begun; and from then on nothing new starts, whatever happens: \<open>Go\<close>
  refuses, and later states run only workers that were running before.
\<close>

lemma workers_shutdown:
  assumes "manager_step\<^sup>*\<^sup>* NewManager m"
  shows "wm_active m = int (length (wm_running m)) \<and> (Wait_returns m \<longleftrightarrow> wm_running m = []) \<and>
    wm_cancelled m = wm_shutdown m \<and>
    (wm_shutdown m \<longrightarrow> (\<forall>name. Manager_Go name m = (False, m)) \<and>
       (\<forall>m'. manager_step\<^sup>*\<^sup>* m m' \<longrightarrow> mset (wm_running m') \<subseteq># mset (wm_running m)))"
proof -
  have "manager_inv m" using manager_steps_inv [OF assms manager_inv_New] .
  then show ?thesis
    using manager_steps_shutdown [of m] by (auto simp: manager_inv_def Wait_returns_def Manager_Go_def)
qed

lemma workers_shutdown_witness:
  "wm_active (snd (Manager_Go (1 :: nat) NewManager)) = 1 \<and>
   fst (Manager_Go (2 :: nat) (worker_panic 1 (snd (Manager_Go 1 NewManager)))) = False"
proof -
  let ?m = "snd (Manager_Go (1 :: nat) NewManager)"
  have one: "manager_step\<^sup>*\<^sup>* NewManager ?m" by (intro r_into_rtranclp manager_step.go)
  have "1 \<in> set (wm_running ?m)" by (simp add: Manager_Go_def NewManager_def)
  then have two: "manager_step\<^sup>*\<^sup>* NewManager (worker_panic 1 ?m)"
    using one manager_step.panics by (meson rtranclp.rtrancl_into_rtrancl)
  have "wm_shutdown (worker_panic 1 ?m)"
    by (simp add: worker_panic_def worker_return_def Manager_Shutdown_def)
  with workers_shutdown [OF one] workers_shutdown [OF two] show ?thesis
    by (simp add: Manager_Go_def NewManager_def)
qed

end
