(* ===== verification/SessionState.thy ===== *)
theory SessionState
  imports Tables DataKeys PeerInfo Liveness Workers Reliable TlsCrypt TlsAuth Transport KeyMethod2
begin

text \<open>
  The session orchestrator (\<^verbatim>\<open>internal/session/session.go\<close>), first part: its configuration, the
  state a live session keeps, and closing. Theory \<^verbatim>\<open>Session\<close> has the handlers on that state.

  Slots, layers and TLS connections are Go objects that several parts of the program point to,
  so the state has a store for each: \<open>se_slotAt\<close>, \<open>se_layerAt\<close> and \<open>se_connAt\<close> map an address to
  the object, the tables and the fields hold addresses. Of a TLS connection the model keeps the
  layer its adapter writes to, whether it is closed, and the messages written to it; the TLS
  protocol itself is outside.

  Each handler is a function of the state before it and of what its environment hands it in
  that call (the clock, the packet read, the outcome of a transport write). What the session
  does to the outside world is logged in the state: \<open>se_wire\<close> the packets the transport took,
  \<open>se_handled\<close> the packets given to the ingress handler, \<open>se_closing\<close> the detached \<^verbatim>\<open>Close\<close> calls
  that have not run yet.
\<close>

section \<open>Configuration\<close>

record Config =
  cfg_Network :: string
  cfg_RemoteAddr :: string
  cfg_TLSConfig :: bool  \<comment> \<open>not \<^verbatim>\<open>nil\<close>\<close>
  cfg_Username :: string
  cfg_Password :: string
  cfg_TLSCryptV1 :: bytes
  cfg_TLSCryptV2 :: bytes
  cfg_TLSAuth :: bytes
  cfg_Auth :: string
  cfg_KeyDirection :: int
  cfg_PeerInfoExtra :: peer_info
  cfg_Ciphers :: "string list"
  cfg_Reneg :: int
  cfg_TransitionWindow :: int
  cfg_IngressBuffer :: int
  cfg_activity :: activity_config
  cfg_PeerInfoVersion :: string

text \<open>
  \<open>RestartError\<close> carries the delay (a \<^verbatim>\<open>time.Duration\<close>) and the reason. An error value of the
  session is also what closed it.
\<close>

datatype session_error =
    TLSConfigRequired
  | OneKeyRequired
  | KeyParse tlscrypt_error
  | CryptInit tlscrypt_error
  | AuthInit tlsauth_error
  | ErrSessionClosed
  | ErrServerExit
  | AuthFailedError string
  | RestartError int string
  | WorkerPanicked string
  | SlotNotReady
  | ShortBuffer nat nat
  | SealFailed data_error
  | WriteFailed transport_error
  | CtxError
  | ErrRekeyRequired
  | ErrRekeyInProgress
  | RekeyNotInitialised
  | ForcedRekey session_error
  | RekeySend rel_error
  | RekeyHandshake
  | RekeyRand
  | RekeyMarshal proto_error
  | RekeyWrite
  | RekeyRead control_error
  | RekeyEKM
  | RekeyKeyLen keys_error
  | RekeySlot data_error

definition validateConfig :: "Config \<Rightarrow> session_error option" where
  "validateConfig cfg =
     (if \<not> cfg_TLSConfig cfg then Some TLSConfigRequired
      else
        let set = (0 :: int);
            set = (if length (cfg_TLSCryptV1 cfg) > 0 then set + 1 else set);
            set = (if length (cfg_TLSCryptV2 cfg) > 0 then set + 1 else set);
            set = (if length (cfg_TLSAuth cfg) > 0 then set + 1 else set)
        in if set \<noteq> 1 then Some OneKeyRequired else None)"

definition cfgIngressBuffer :: "Config \<Rightarrow> nat" where
  "cfgIngressBuffer cfg = nat (if cfg_IngressBuffer cfg > 0 then cfg_IngressBuffer cfg else 256)"

section \<open>The control wrapper interface\<close>

text \<open>
  The interface \<^verbatim>\<open>controlWrapper\<close> has two implementations; the sum below is the dynamic type.
\<close>

datatype controlWrapper = CryptWrapper Wrapper | AuthWrapper Authenticator

datatype wrap_error = CryptError tlscrypt_error | AuthError tlsauth_error

fun wrapper_Wrap :: "hmac_fn \<Rightarrow> u32 \<Rightarrow> controlWrapper \<Rightarrow> byte \<Rightarrow> u64 \<Rightarrow> bytes \<Rightarrow> bytes \<times> controlWrapper" where
  "wrapper_Wrap h netTime (CryptWrapper w) opcodeKID sid body =
     (case Wrap h netTime w opcodeKID sid body of (out, w) \<Rightarrow> (out, CryptWrapper w))"
| "wrapper_Wrap h netTime (AuthWrapper a) opcodeKID sid body =
     (case Auth_Wrap h netTime a opcodeKID sid body of (out, a) \<Rightarrow> (out, AuthWrapper a))"

fun wrapper_Unwrap :: "hmac_fn \<Rightarrow> controlWrapper \<Rightarrow> bytes \<Rightarrow> (wrap_error, unwrapped_packet) result \<times> controlWrapper" where
  "wrapper_Unwrap h (CryptWrapper w) pkt =
     (case Unwrap h w pkt of (r, w) \<Rightarrow> (map_sum CryptError id r, CryptWrapper w))"
| "wrapper_Unwrap h (AuthWrapper a) pkt =
     (case Auth_Unwrap h a pkt of (r, a) \<Rightarrow> (map_sum AuthError id r, AuthWrapper a))"

text \<open>
  The libraries it is built on: AES, the PEM decoder, and Unicode case mapping (for a digest
  name outside ASCII).
\<close>

definition buildWrapper :: "aes_fn \<Rightarrow> pem_codec \<Rightarrow> (string \<Rightarrow> string) \<Rightarrow> Config \<Rightarrow>
    (session_error, controlWrapper \<times> opcode) result" where
  "buildWrapper aes pem uni cfg =
     (if length (cfg_TLSAuth cfg) > 0 then
        (case ParseStaticKey (cfg_TLSAuth cfg) of
           Inl e \<Rightarrow> Inl (KeyParse e)
         | Inr rawKey \<Rightarrow> (case Auth_New uni rawKey DirectionInverse (cfg_Auth cfg) of
               Inl e \<Rightarrow> Inl (AuthInit e)
             | Inr auth \<Rightarrow> Inr (AuthWrapper auth, PControlHardResetClientV2)))
      else if length (cfg_TLSCryptV2 cfg) > 0 then
        (case ParseClientBundleV2 pem (cfg_TLSCryptV2 cfg) of
           Inl e \<Rightarrow> Inl (KeyParse e)
         | Inr bundle \<Rightarrow> (case Wrapper_New aes (Kc bundle) DirectionInverse of
               Inl e \<Rightarrow> Inl (CryptInit e)
             | Inr w \<Rightarrow> Inr (CryptWrapper (SetFirstWrapTrailer (WKc bundle) w), PControlHardResetClientV3)))
      else
        (case ParseStaticKey (cfg_TLSCryptV1 cfg) of
           Inl e \<Rightarrow> Inl (KeyParse e)
         | Inr rawKey \<Rightarrow> (case Wrapper_New aes rawKey DirectionInverse of
               Inl e \<Rightarrow> Inl (CryptInit e)
             | Inr w \<Rightarrow> Inr (CryptWrapper w, PControlHardResetClientV2))))"

section \<open>State\<close>

datatype worker =
    ReadLoop
  | WriteLoop ref
  | TickLoop ref
  | ControlReader ref
  | ServerRekey
  | RekeyWatch
  | KeepaliveLoop
  | PingRestartWatch
  | DataActivityWatch
  | HardResetWatch
  | WakeDetectorWatch
  | StatsLogger

record tls_conn =
  tc_layer :: ref
  tc_closed :: bool
  tc_sent :: "bytes list"

record rekeyManager =
  rm_inProgress :: bool
  rm_transitionWindow :: int

text \<open>Where the one rekey that may be running has got to, with its local variables.\<close>

datatype rekey_phase =
    RekeyIdle
  | RekeyEntered u8 u8  \<comment> \<open>old and new key-id\<close>
  | RekeyInstalled u8 u8 ref  \<comment> \<open>and the new layer\<close>
  | RekeyPumping u8 u8 ref
  | RekeyHandshaking u8 u8 ref ref  \<comment> \<open>and the new TLS connection\<close>

text \<open>How far the one \<^verbatim>\<open>Close\<close> call that won has got.\<close>

datatype close_phase =
    NotClosing
  | CloseEntered
  | ShutdownFrom nat  \<comment> \<open>workers shut down, the first \<open>n\<close> key-ids retired\<close>
  | ShutdownDone

record Session =
  se_cfg :: Config
  se_wrapper :: controlWrapper
  se_localSID :: u64
  se_slots :: slotTable
  se_layers :: layerTable
  se_slotAt :: "ref \<rightharpoonup> Slot"
  se_layerAt :: "ref \<rightharpoonup> Layer"
  se_connAt :: "ref \<rightharpoonup> tls_conn"
  se_nextRef :: ref
  se_cipher :: string
  se_peerID :: u32
  se_PingInterval :: int
  se_PingRestart :: int
  se_rekeyMgr :: "rekeyManager option"
  se_rekeyPhase :: rekey_phase
  se_retireTimers :: "(u8 \<times> ref option \<times> ref option) list"
  se_tlsConn :: "ref option"
  se_closeErr :: "session_error option"
  se_lastInbound :: int
  se_lastDataInbound :: int
  se_lastUserOutbound :: int
  se_lastDataInboundTCP :: int
  se_lastDataInboundUDP :: int
  se_lastUserOutboundTCP :: int
  se_lastUserOutboundUDP :: int
  se_statsForwarded :: u64
  se_statsDroppedFull :: u64
  se_statsPingIn :: u64
  se_statsOpenFailed :: u64
  se_statsStrayHandshake :: u64
  se_statsHardResetIn :: u64
  se_statsOutboundOK :: u64
  se_statsOutboundErr :: u64
  se_lastOutboundErrNs :: int
  se_ingressCh :: "bytes list"
  se_handler :: bool
  se_handled :: "bytes list"
  se_workers :: "worker Manager"
  se_closed :: bool
  se_closePhase :: close_phase
  se_closing :: "string list"
  se_transportClosed :: bool
  se_wire :: "bytes list"

text \<open>The session context is the workers' context.\<close>

abbreviation ctx_done :: "Session \<Rightarrow> bool" where
  "ctx_done s \<equiv> wm_cancelled (se_workers s)"

text \<open>Following and writing through a pointer.\<close>

abbreviation slot_of :: "Session \<Rightarrow> ref \<Rightarrow> Slot" where
  "slot_of s r \<equiv> the (se_slotAt s r)"

abbreviation layer_of :: "Session \<Rightarrow> ref \<Rightarrow> Layer" where
  "layer_of s r \<equiv> the (se_layerAt s r)"

definition put_slot :: "ref \<Rightarrow> Slot \<Rightarrow> Session \<Rightarrow> Session" where
  "put_slot r x s = s\<lparr>se_slotAt := (se_slotAt s)(r \<mapsto> x)\<rparr>"

definition put_layer :: "ref \<Rightarrow> Layer \<Rightarrow> Session \<Rightarrow> Session" where
  "put_layer r x s = s\<lparr>se_layerAt := (se_layerAt s)(r \<mapsto> x)\<rparr>"

definition put_conn :: "ref \<Rightarrow> tls_conn \<Rightarrow> Session \<Rightarrow> Session" where
  "put_conn r x s = s\<lparr>se_connAt := (se_connAt s)(r \<mapsto> x)\<rparr>"

definition workers_Go :: "worker \<Rightarrow> Session \<Rightarrow> bool \<times> Session" where
  "workers_Go w s = (case Manager_Go w (se_workers s) of (ok, m) \<Rightarrow> (ok, s\<lparr>se_workers := m\<rparr>))"

definition close_layer :: "ref \<Rightarrow> Session \<Rightarrow> Session" where
  "close_layer r s = put_layer r (Close (layer_of s r)) s"

text \<open>\<^verbatim>\<open>tls.Conn.Close\<close> closes the adapter underneath, which closes the layer.\<close>

definition close_conn :: "ref \<Rightarrow> Session \<Rightarrow> Session" where
  "close_conn c s =
     (let x = the (se_connAt s c) in close_layer (tc_layer x) (put_conn c (x\<lparr>tc_closed := True\<rparr>) s))"

section \<open>Closing\<close>

definition closedErr :: "Session \<Rightarrow> session_error" where
  "closedErr s = (case se_closeErr s of Some e \<Rightarrow> e | None \<Rightarrow> ErrSessionClosed)"

definition CloseErr :: "Session \<Rightarrow> session_error option" where
  "CloseErr s = se_closeErr s"

definition IsClosed :: "Session \<Rightarrow> bool" where
  "IsClosed s = se_closed s"

definition setCloseErr :: "session_error \<Rightarrow> Session \<Rightarrow> Session" where
  "setCloseErr e s = (case se_closeErr s of None \<Rightarrow> s\<lparr>se_closeErr := Some e\<rparr> | Some _ \<Rightarrow> s)"

definition closeAsync :: "string \<Rightarrow> Session \<Rightarrow> Session" where
  "closeAsync why s = s\<lparr>se_closing := se_closing s @ [why]\<rparr>"

definition RequestRestart :: "string \<Rightarrow> Session \<Rightarrow> Session" where
  "RequestRestart why s =
     (if se_closed s then s
      else
        let why = (if why = '''' then ''application requested restart'' else why)
        in closeAsync (''application restart: '' @ why) (setCloseErr (RestartError 0 why) s))"

definition retireLayer :: "u8 \<Rightarrow> Session \<Rightarrow> Session" where
  "retireLayer kid s =
     (case layers_Retire (se_layers s) kid of
        (Some l, t) \<Rightarrow> close_layer l (s\<lparr>se_layers := t\<rparr>)
      | (None, t) \<Rightarrow> s\<lparr>se_layers := t\<rparr>)"

definition retireLayerIf :: "u8 \<Rightarrow> ref option \<Rightarrow> Session \<Rightarrow> Session" where
  "retireLayerIf kid want s =
     (case layers_RetireIf (se_layers s) kid want of
        (Some l, t) \<Rightarrow> close_layer l (s\<lparr>se_layers := t\<rparr>)
      | (None, t) \<Rightarrow> s\<lparr>se_layers := t\<rparr>)"

text \<open>
  \<open>written\<close>: the detached write of the EXIT message came back in time without an error. Waiting
  for the acknowledgement changes nothing in the session.
\<close>

definition sendExitNotifyBestEffort :: "bool \<Rightarrow> Session \<Rightarrow> Session" where
  "sendExitNotifyBestEffort written s =
     (case se_tlsConn s of
        None \<Rightarrow> s
      | Some c \<Rightarrow>
          if written then
            let x = the (se_connAt s c)
            in put_conn c (x\<lparr>tc_sent := tc_sent x @ [bytes_of_string ''EXIT'' @ [0]]\<rparr>) s
          else s)"

text \<open>
  \<^verbatim>\<open>shutdown\<close> in the pieces that are atomic with respect to the rest of the program: cancelling
  the workers, retiring one key-id at a time, and the TLS connection with the transport. The
  bounded wait for the workers at its end changes nothing.
\<close>

definition shutdown_workers :: "Session \<Rightarrow> Session" where
  "shutdown_workers s = s\<lparr>se_workers := Manager_Shutdown (se_workers s), se_closePhase := ShutdownFrom 0\<rparr>"

definition shutdown_kid :: "nat \<Rightarrow> Session \<Rightarrow> Session" where
  "shutdown_kid n s = (retireLayer (of_nat n) s)\<lparr>se_closePhase := ShutdownFrom (n + 1)\<rparr>"

definition shutdown_conn :: "Session \<Rightarrow> Session" where
  "shutdown_conn s =
     (let tc = se_tlsConn s;
          s = s\<lparr>se_tlsConn := None\<rparr>;
          s = (case tc of None \<Rightarrow> s | Some c \<Rightarrow> close_conn c s)
      in s\<lparr>se_transportClosed := True, se_closePhase := ShutdownDone\<rparr>)"

definition shutdown :: "Session \<Rightarrow> Session" where
  "shutdown s = shutdown_conn (foldl (\<lambda>s n. shutdown_kid n s) (shutdown_workers s) [0..<8])"

definition Session_Close_enter :: "bool \<Rightarrow> Session \<Rightarrow> Session" where
  "Session_Close_enter written s =
     sendExitNotifyBestEffort written (s\<lparr>se_closed := True, se_closePhase := CloseEntered\<rparr>)"

definition Session_Close :: "bool \<Rightarrow> Session \<Rightarrow> Session" where
  "Session_Close written s = (if se_closed s then s else shutdown (Session_Close_enter written s))"

definition installTLSConn :: "ref option \<Rightarrow> Session \<Rightarrow> Session" where
  "installTLSConn c s =
     (case c of
        Some r \<Rightarrow>
          if se_closed s then close_conn r s
          else
            let prev = se_tlsConn s;
                s = s\<lparr>se_tlsConn := c\<rparr>;
                s = (case prev of None \<Rightarrow> s | Some p \<Rightarrow> close_conn p s)
            in snd (workers_Go (ControlReader r) s)
      | None \<Rightarrow>
          let prev = se_tlsConn s;
              s = s\<lparr>se_tlsConn := None\<rparr>
          in case prev of None \<Rightarrow> s | Some p \<Rightarrow> close_conn p s)"

definition startLayerPumps :: "ref \<Rightarrow> Session \<Rightarrow> bool \<times> Session" where
  "startLayerPumps layer s =
     (let (okW, s) = workers_Go (WriteLoop layer) s;
          (okT, s) = workers_Go (TickLoop layer) s
      in (okW \<and> okT, s))"

end
