(* ===== verification/Session.thy ===== *)
theory Session
  imports SessionState Connection
begin

text \<open>
  The session orchestrator (\<^verbatim>\<open>internal/session/session.go\<close>), second part: the demultiplexer that
  routes inbound packets to data slots and reliability layers (\<^verbatim>\<open>readLoop\<close>, \<^verbatim>\<open>handleDataIn\<close>,
  \<^verbatim>\<open>handleControlIn\<close>), the pumps that carry a layer's packets to the transport (\<^verbatim>\<open>writeLoop\<close>,
  \<^verbatim>\<open>tickLoop\<close>), user reads and writes, and the reader of server messages.
\<close>

section \<open>Inbound data\<close>

definition handleDataIn :: "int \<Rightarrow> bytes \<Rightarrow> u8 \<Rightarrow> Session \<Rightarrow> Session" where
  "handleDataIn now pkt kid s =
     (case slots_Get (se_slots s) kid of
        None \<Rightarrow> s
      | Some r \<Rightarrow>
        (case OpenInto (slot_of s r) [] pkt of
           (Inl e, slot) \<Rightarrow> (put_slot r slot s)\<lparr>se_statsOpenFailed := se_statsOpenFailed s + 1\<rparr>
         | (Inr ip, slot) \<Rightarrow>
           let s = put_slot r slot s;
               s = s\<lparr>se_lastInbound := now\<rparr>
           in if IsPing ip then s\<lparr>se_statsPingIn := se_statsPingIn s + 1\<rparr>
              else
                let s = s\<lparr>se_lastDataInbound := now\<rparr>;
                    s = (if sniffL4 ip = l4ProtoTCP then s\<lparr>se_lastDataInboundTCP := now\<rparr>
                         else if sniffL4 ip = l4ProtoUDP then s\<lparr>se_lastDataInboundUDP := now\<rparr>
                         else s)
                in if se_handler s
                   then s\<lparr>se_statsForwarded := se_statsForwarded s + 1, se_handled := se_handled s @ [ip]\<rparr>
                   else if length (se_ingressCh s) < cfgIngressBuffer (se_cfg s)
                   then s\<lparr>se_ingressCh := se_ingressCh s @ [ip], se_statsForwarded := se_statsForwarded s + 1\<rparr>
                   else s\<lparr>se_statsDroppedFull := se_statsDroppedFull s + 1\<rparr>))"

definition SetIngressHandler :: "bool \<Rightarrow> Session \<Rightarrow> Session" where
  "SetIngressHandler h s = s\<lparr>se_handler := h\<rparr>"

section \<open>Inbound control\<close>

definition isStrayUnwrap :: "bytes \<Rightarrow> opcode \<Rightarrow> Layer \<Rightarrow> bool" where
  "isStrayUnwrap pkt opcode layer =
     (if opcode = PControlHardResetServerV2 then True
      else if length pkt \<ge> 9 then
        let sid = uint64_of (subslice pkt 1 9);
            (expected, ok) = RemoteSessionID layer
        in ok \<and> sid \<noteq> expected
      else False)"

definition inbound_packet :: "opcode \<Rightarrow> u8 \<Rightarrow> u64 \<Rightarrow> bytes \<Rightarrow> (proto_error, InPacket) result" where
  "inbound_packet opcode kid sid plain =
     (if opcode = PAckV1 then
        (case ParseAckPayload plain of
           Inl e \<Rightarrow> Inl e
         | Inr ap \<Rightarrow> Inr \<lparr>ip_Opcode = opcode, ip_KeyID = kid, ip_SessionID = sid, ip_Payload = zero_payload, ip_Ack = ap\<rparr>)
      else
        (case ParseControlPayload plain of
           Inl e \<Rightarrow> Inl e
         | Inr cp \<Rightarrow> Inr \<lparr>ip_Opcode = opcode, ip_KeyID = kid, ip_SessionID = sid, ip_Payload = cp, ip_Ack = zero_ack\<rparr>))"

definition handleControlIn :: "hmac_fn \<Rightarrow> int \<Rightarrow> bytes \<Rightarrow> opcode \<Rightarrow> u8 \<Rightarrow> Session \<Rightarrow> Session" where
  "handleControlIn h now pkt opcode kid s =
     (case layers_Get (se_layers s) kid of
        None \<Rightarrow>
          if opcode = PControlSoftResetV1 \<and> se_rekeyMgr s \<noteq> None then
            (if kid = nextKeyID (slots_ActiveKID (se_slots s)) then snd (workers_Go ServerRekey s) else s)
          else s
      | Some r \<Rightarrow>
        (case wrapper_Unwrap h (se_wrapper s) pkt of
           (Inl e, w) \<Rightarrow>
             let s = s\<lparr>se_wrapper := w\<rparr>
             in if isStrayUnwrap pkt opcode (layer_of s r) then
                  let s = s\<lparr>se_statsStrayHandshake := se_statsStrayHandshake s + 1\<rparr>
                  in if opcode = PControlHardResetServerV2
                     then s\<lparr>se_statsHardResetIn := se_statsHardResetIn s + 1\<rparr> else s
                else s
         | (Inr (opcodeKID, sid, pid, plain), w) \<Rightarrow>
             let s = s\<lparr>se_wrapper := w\<rparr>
             in (case inbound_packet opcode kid sid plain of
                   Inl e \<Rightarrow> s
                 | Inr pk \<Rightarrow> put_layer r (snd (HandleInbound now pk (layer_of s r))) s)))"

section \<open>The loops\<close>

text \<open>
  One turn of \<^verbatim>\<open>readLoop\<close>: what \<^verbatim>\<open>ReadPacket\<close> returned, an error text or a packet. The result says
  whether the loop goes on.
\<close>

definition readLoop_turn :: "hmac_fn \<Rightarrow> int \<Rightarrow> string + bytes \<Rightarrow> Session \<Rightarrow> bool \<times> Session" where
  "readLoop_turn h now got s =
     (case got of
        Inl err \<Rightarrow>
          (False,
           if \<not> ctx_done s \<and> \<not> se_closed s
           then closeAsync ''transport read failed'' (setCloseErr (RestartError 0 (''transport read failed: '' @ err)) s)
           else s)
      | Inr pkt \<Rightarrow>
          (True,
           if length pkt < 1 then s
           else
             let (opcode, kid) = UnpackOpcodeKID (pkt ! 0)
             in if IsData opcode then handleDataIn now pkt kid s
                else if IsControl opcode then handleControlIn h now pkt opcode kid s
                else s))"

text \<open>
  One turn of \<^verbatim>\<open>writeLoop\<close> on the layer at \<open>r\<close>, when the session context is not done: it receives
  the oldest packet of the layer's outbound channel. \<open>outcome\<close> is what the transport's
  \<^verbatim>\<open>WritePacket\<close> returns for it. (The packets still in the channel of a closed layer are drained
  first; then the loop ends.)
\<close>

definition marshal_out :: "OutPacket \<Rightarrow> (proto_error, bytes) result" where
  "marshal_out out = (if IsAck out then MarshalAckPayload (op_Ack out) else MarshalControlPayload (op_Payload out))"

definition writeLoop_turn :: "hmac_fn \<Rightarrow> u32 \<Rightarrow> int \<Rightarrow> transport_error option \<Rightarrow> ref \<Rightarrow> Session \<Rightarrow> bool \<times> Session" where
  "writeLoop_turn h netTime now outcome r s =
     (case take_outbound (layer_of s r) of
        (None, l) \<Rightarrow> (\<not> ly_closed l, s)
      | (Some out, l) \<Rightarrow>
        let s = put_layer r l s
        in (case marshal_out out of
             Inl e \<Rightarrow> (True, s)
           | Inr body \<Rightarrow>
             (case wrapper_Wrap h netTime (se_wrapper s) (PackOpcodeKID (op_Opcode out) (op_KeyID out)) (op_SessionID out) body of
                (wrapped, w) \<Rightarrow>
                  let s = s\<lparr>se_wrapper := w\<rparr>
                  in (case outcome of
                        None \<Rightarrow> (True, s\<lparr>se_wire := se_wire s @ [wrapped]\<rparr>)
                      | Some e \<Rightarrow>
                          let s = s\<lparr>se_statsOutboundErr := se_statsOutboundErr s + 1, se_lastOutboundErrNs := now\<rparr>
                          in (\<not> (e = ContextDone \<or> e = TransportClosed), s)))))"

text \<open>
  One tick of \<^verbatim>\<open>tickLoop\<close> on the layer at \<open>r\<close>. The loop ends with the first error (one of the two
  a tick can return), and ends the session only if the layer belongs to the active key-id.
\<close>

definition tick_errText :: "rel_error \<Rightarrow> string" where
  "tick_errText e = (if e = ErrClosed then ''reliable: closed''
     else ''reliable: peer unreachable (max retransmits exceeded)'')"

definition tickLoop_turn :: "int \<Rightarrow> u32 list \<Rightarrow> ref \<Rightarrow> Session \<Rightarrow> bool \<times> Session" where
  "tickLoop_turn now order r s =
     (case Tick now order (layer_of s r) of
        (None, l) \<Rightarrow> (True, put_layer r l s)
      | (Some err, l) \<Rightarrow>
        let s = put_layer r l s
        in (False,
            case slots_Active (se_slots s) of
              None \<Rightarrow> s
            | Some sl \<Rightarrow>
                if layers_Get (se_layers s) (sl_KeyID (slot_of s sl)) = Some r
                then closeAsync ''control-channel retransmits exhausted''
                       (setCloseErr (RestartError 0 (''control-channel retransmits exceeded: '' @ tick_errText err)) s)
                else s))"

section \<open>Reading from the tunnel\<close>

text \<open>
  \<^verbatim>\<open>ReadCtx\<close> waits on three channels; \<open>branch\<close> is the one the \<^verbatim>\<open>select\<close> takes, and the result is
  \<^const>\<open>None\<close> while that one is not ready. \<open>plen\<close> is the length of the caller's buffer.
\<close>

datatype read_branch = TakePacket | CallerDone | SessionDone

definition ReadCtx :: "read_branch \<Rightarrow> bool \<Rightarrow> nat \<Rightarrow> Session \<Rightarrow> ((session_error, bytes) result \<times> Session) option" where
  "ReadCtx branch callerDone plen s =
     (case branch of
        TakePacket \<Rightarrow>
          (case se_ingressCh s of
             [] \<Rightarrow> None
           | pkt # rest \<Rightarrow>
               let s = s\<lparr>se_ingressCh := rest\<rparr>
               in Some (if plen < length pkt then Inl (ShortBuffer plen (length pkt)) else Inr pkt, s))
      | CallerDone \<Rightarrow> if callerDone then Some (Inl CtxError, s) else None
      | SessionDone \<Rightarrow> if ctx_done s then Some (Inl (closedErr s), s) else None)"

section \<open>Server messages\<close>

text \<open>A \<^verbatim>\<open>time.Duration\<close> is a signed 64-bit integer; the product with \<^verbatim>\<open>time.Second\<close> wraps.\<close>

definition int64 :: "int \<Rightarrow> int" where
  "int64 i = sint (word_of_int i :: 64 word)"

definition parseRestart :: "string \<Rightarrow> session_error" where
  "parseRestart msg =
     (let (rest, ok) = CutPrefix msg ''RESTART''
      in if \<not> ok then RestartError 0 ''''
         else
           let rest = TrimPrefix rest '',''
           in if rest = '''' then RestartError 0 ''''
              else
                let (first, second', hasSecond) = Cut CHR '','' rest
                in case Atoi first of
                     Some d \<Rightarrow> RestartError (int64 (d * sec)) (if hasSecond then second' else '''')
                   | None \<Rightarrow> RestartError 0 rest)"

text \<open>One message in \<^verbatim>\<open>controlChannelReader\<close>; the result says whether the loop goes on.\<close>

definition controlChannelReader_msg :: "string \<Rightarrow> Session \<Rightarrow> bool \<times> Session" where
  "controlChannelReader_msg msg s =
     (if msg = ''EXIT'' \<or> HasPrefix msg ''EXIT,'' then
        (False, closeAsync ''server EXIT'' (setCloseErr ErrServerExit s))
      else if msg = ''RESTART'' \<or> HasPrefix msg ''RESTART,'' then
        (False, closeAsync ''server RESTART'' (setCloseErr (parseRestart msg) s))
      else if HasPrefix msg ''AUTH_FAILED'' then
        let body = TrimPrefix msg ''AUTH_FAILED'';
            body = TrimPrefix body '',''
        in (False, closeAsync ''server AUTH_FAILED'' (setCloseErr (AuthFailedError body) s))
      else (True, s))"

text \<open>The whole loop over what the connection still delivers, until it errors or a message ends it.\<close>

lemma read_message_loop_shorter:
  "read_message_loop acc stream = Inr (msg, rest) \<Longrightarrow> length rest < length stream"
proof (induction acc stream rule: read_message_loop.induct)
  case (1 buf r)
  show ?case
  proof (cases r)
    case Nil
    then show ?thesis using "1.prems" by (simp add: read_message_loop.simps [of buf] split: if_splits)
  next
    case (Cons b r')
    then have "\<not> MaxControlMessageLen < length buf" "b = 0 \<Longrightarrow> rest = r'"
      "b \<noteq> 0 \<Longrightarrow> read_message_loop (buf @ [b]) r' = Inr (msg, rest)"
      using "1.prems" by (simp_all add: read_message_loop.simps [of buf] split: if_splits)
    then show ?thesis using "1.IH" [of b r'] Cons by (cases "b = 0") auto
  qed
qed

lemma ReadControlMessage_shorter: "ReadControlMessage stream = Inr (msg, rest) \<Longrightarrow> length rest < length stream"
  unfolding ReadControlMessage_def by (rule read_message_loop_shorter)

function controlChannelReader :: "bytes \<Rightarrow> Session \<Rightarrow> Session" where
  "controlChannelReader stream s =
     (case ReadControlMessage stream of
        Inl e \<Rightarrow> s
      | Inr (msg, rest) \<Rightarrow>
          (case controlChannelReader_msg msg s of (go, s) \<Rightarrow> if go then controlChannelReader rest s else s))"
  by pat_completeness auto
termination
  by (relation "measure (\<lambda>(stream, s). length stream)") (auto dest: ReadControlMessage_shorter)

declare controlChannelReader.simps [simp del]

text \<open>A delay that is too large for a \<^verbatim>\<open>time.Duration\<close> comes out negative.\<close>

lemma parseRestart_overflow: "parseRestart ''RESTART,9223372037'' = RestartError (- 9223372036709551616) ''''"
  by (simp add: parseRestart_def CutPrefix_def TrimPrefix_def Atoi_def char_digit_def int64_def sec_def Let_def)

end
