(* ===== verification/Rekey.thy ===== *)
theory Rekey
  imports Session
begin

text \<open>
  Rekeying (\<^verbatim>\<open>internal/session/rekey.go\<close>): when a rekey is due, the soft reset itself, the timed
  retirement of the old key, the watchdog that drives it; and \<^verbatim>\<open>WriteCtx\<close> with its forced rekey
  (\<^verbatim>\<open>internal/session/session.go\<close>).

  \<^verbatim>\<open>PerformSoftReset\<close> runs for seconds, and closing, traffic and retirement timers go on meanwhile.
  It is therefore cut at the points where others can see the difference: the guard, the new layer
  in the table, its pumps, the soft reset sent, and the end. \<open>PerformSoftReset\<close> composes them as
  the code does; theory \<^verbatim>\<open>Interleaving\<close> runs them against the rest of the session.
\<close>

section \<open>When a rekey is due\<close>

record rekeyState =
  rs_startTime :: int
  rs_reneg :: int
  rs_triggered :: bool

text \<open>\<open>clock\<close> is the reading of the clock the caller supplied, if any, and \<open>now\<close> that of \<^verbatim>\<open>time.Now\<close>.\<close>

definition newRekeyState :: "int \<Rightarrow> int option \<Rightarrow> int \<Rightarrow> rekeyState" where
  "newRekeyState reneg clock now =
     \<lparr>rs_startTime = (case clock of None \<Rightarrow> now | Some t \<Rightarrow> t), rs_reneg = reneg, rs_triggered = False\<rparr>"

definition Check :: "Slot option \<Rightarrow> int \<Rightarrow> rekeyState \<Rightarrow> bool \<times> rekeyState" where
  "Check slot now r =
     (if rs_triggered r then (True, r)
      else if rs_reneg r > 0 \<and> now - rs_startTime r \<ge> rs_reneg r then (True, r\<lparr>rs_triggered := True\<rparr>)
      else case slot of
        Some sl \<Rightarrow> if SendPID sl \<ge> PacketIDRekeyThreshold then (True, r\<lparr>rs_triggered := True\<rparr>) else (False, r)
      | None \<Rightarrow> (False, r))"

definition Trigger :: "rekeyState \<Rightarrow> rekeyState" where
  "Trigger r = r\<lparr>rs_triggered := True\<rparr>"

definition Reset :: "int \<Rightarrow> rekeyState \<Rightarrow> rekeyState" where
  "Reset now r = r\<lparr>rs_triggered := False, rs_startTime := now\<rparr>"

datatype autoRekeyOutcome = autoRekeyDone | autoRekeyConcurrent | autoRekeyShutdown | autoRekeyFailed

definition classifyAutoRekey :: "session_error option \<Rightarrow> bool \<Rightarrow> autoRekeyOutcome" where
  "classifyAutoRekey err shuttingDown =
     (case err of
        None \<Rightarrow> autoRekeyDone
      | Some e \<Rightarrow>
          if e = ErrRekeyInProgress then autoRekeyConcurrent
          else if shuttingDown \<or> e = ErrSessionClosed then autoRekeyShutdown
          else autoRekeyFailed)"

section \<open>The soft reset\<close>

definition newRekeyManager :: "int \<Rightarrow> rekeyManager" where
  "newRekeyManager transitionWindow =
     \<lparr>rm_inProgress = False, rm_transitionWindow = (if transitionWindow \<le> 0 then 60 * sec else transitionWindow)\<rparr>"

definition firstColonField :: "string \<Rightarrow> string" where
  "firstColonField s = fst (Cut CHR '':'' s)"

text \<open>
  The random bytes of the three \<^verbatim>\<open>rand.Read\<close> calls, in order; \<^const>\<open>None\<close> where one failed.
\<close>

definition buildRekeyClientKM :: "string \<Rightarrow> (bytes \<times> bytes \<times> bytes) option \<Rightarrow> Config \<Rightarrow> (session_error, KeyMethod2) result" where
  "buildRekeyClientKM goos rand cfg =
     (case rand of
        None \<Rightarrow> Inl RekeyRand
      | Some (preMaster, random1, random2) \<Rightarrow>
        let ciphersStr = Join (cfg_Ciphers cfg) '':'';
            ciphersStr = (if ciphersStr = '''' then ''AES-256-GCM:CHACHA20-POLY1305:AES-128-GCM'' else ciphersStr);
            options = Join [''V4'', ''dev-type tun'', ''link-mtu 1559'', ''tun-mtu 1500'', ''proto UDPv4'',
                ''cipher '' @ firstColonField ciphersStr, ''auth SHA256'', ''keysize 256'', ''key-method 2'', ''tls-client''] '','';
            pi = DefaultPeerInfo goos ciphersStr;
            pi = (if cfg_PeerInfoVersion cfg \<noteq> '''' then PeerInfo_Set ''IV_VER'' (cfg_PeerInfoVersion cfg) pi else pi);
            pi = foldl (\<lambda>pi (k, v). PeerInfo_Set k v pi) pi (cfg_PeerInfoExtra cfg)
        in Inr \<lparr>km_IsServer = False, km_PreMaster = preMaster, km_Random1 = random1, km_Random2 = random2,
             km_Options = options, km_Username = cfg_Username cfg, km_Password = cfg_Password cfg,
             km_AuthUserPass = (cfg_Username cfg \<noteq> '''' \<or> cfg_Password cfg \<noteq> ''''),
             km_PeerInfo = PeerInfo_Encode pi\<rparr>)"

text \<open>
  What the outside contributes to one soft reset: whether the TLS handshake succeeds, the random
  source, whether the TLS write succeeds, the plaintext the server sends back, the exporter of
  the new TLS session (it returns as many bytes as it is asked for), and the ciphers.
\<close>

record rekey_env =
  rk_handshake :: bool
  rk_rand :: "(bytes \<times> bytes \<times> bytes) option"
  rk_write :: bool
  rk_stream :: bytes
  rk_ekm :: exporter
  rk_lib :: aead_lib
  rk_goos :: string

definition rekey_release :: "Session \<Rightarrow> Session" where
  "rekey_release s =
     s\<lparr>se_rekeyMgr := map_option (\<lambda>m. m\<lparr>rm_inProgress := False\<rparr>) (se_rekeyMgr s), se_rekeyPhase := RekeyIdle\<rparr>"

definition rekey_enter :: "Session \<Rightarrow> session_error option \<times> Session" where
  "rekey_enter s =
     (if se_closed s then (Some ErrSessionClosed, s)
      else case se_rekeyMgr s of
        None \<Rightarrow> (Some RekeyNotInitialised, s)
      | Some m \<Rightarrow>
          if rm_inProgress m then (Some ErrRekeyInProgress, s)
          else
            let oldKID = slots_ActiveKID (se_slots s);
                newKID = nextKeyID oldKID
            in (None, s\<lparr>se_rekeyMgr := Some (m\<lparr>rm_inProgress := True\<rparr>), se_rekeyPhase := RekeyEntered oldKID newKID\<rparr>))"

definition rekey_new_layer :: "u8 \<Rightarrow> u8 \<Rightarrow> Session \<Rightarrow> Layer" where
  "rekey_new_layer oldKID newKID s =
     (let newLayer = New \<lparr>lc_LocalSessionID = se_localSID s, lc_InitialKeyID = newKID, lc_OutboundBuffer = 0\<rparr>
      in case layers_Get (se_layers s) oldKID of
           None \<Rightarrow> newLayer
         | Some oldLayer \<Rightarrow>
             (case RemoteSessionID (layer_of s oldLayer) of
                (sid, ok) \<Rightarrow> if ok then SetRemoteSessionID sid newLayer else newLayer))"

definition rekey_install :: "u8 \<Rightarrow> u8 \<Rightarrow> Session \<Rightarrow> Session" where
  "rekey_install oldKID newKID s =
     (let r = se_nextRef s;
          s = put_layer r (rekey_new_layer oldKID newKID s) (s\<lparr>se_nextRef := r + 1\<rparr>);
          (displaced, t) = layers_Install (se_layers s) newKID r;
          s = s\<lparr>se_layers := t, se_rekeyPhase := RekeyInstalled oldKID newKID r\<rparr>
      in case displaced of None \<Rightarrow> s | Some d \<Rightarrow> close_layer d s)"

definition rekey_pumps :: "u8 \<Rightarrow> u8 \<Rightarrow> ref \<Rightarrow> Session \<Rightarrow> session_error option \<times> Session" where
  "rekey_pumps oldKID newKID r s =
     (let (ok, s) = startLayerPumps r s
      in if ok then (None, s\<lparr>se_rekeyPhase := RekeyPumping oldKID newKID r\<rparr>)
         else (Some ErrSessionClosed, rekey_release (retireLayerIf newKID (Some r) s)))"

definition rekey_send :: "int \<Rightarrow> u8 \<Rightarrow> u8 \<Rightarrow> ref \<Rightarrow> Session \<Rightarrow> session_error option \<times> Session" where
  "rekey_send now oldKID newKID r s =
     (case SendHardReset now PControlSoftResetV1 (layer_of s r) of
        (Some e, l) \<Rightarrow> (Some (RekeySend e), rekey_release (retireLayer newKID (put_layer r l s)))
      | (None, l) \<Rightarrow>
          let s = put_layer r l s;
              c = se_nextRef s;
              s = put_conn c \<lparr>tc_layer = r, tc_closed = False, tc_sent = []\<rparr> (s\<lparr>se_nextRef := c + 1\<rparr>)
          in (None, s\<lparr>se_rekeyPhase := RekeyHandshaking oldKID newKID r c\<rparr>))"

text \<open>Steps 3 to 6: everything up to the new slot, without touching the session.\<close>

definition rekey_exchange :: "rekey_env \<Rightarrow> u8 \<Rightarrow> Session \<Rightarrow> (session_error, Slot) result" where
  "rekey_exchange env newKID s =
     (if \<not> rk_handshake env then Inl RekeyHandshake
      else rbind (buildRekeyClientKM (rk_goos env) (rk_rand env) (se_cfg s)) (\<lambda>clientKM.
        rbind (map_sum RekeyMarshal id (MarshalKeyMethod2 clientKM)) (\<lambda>cmBytes.
          if \<not> rk_write env then Inl RekeyWrite
          else rbind (map_sum RekeyRead id (ReadKeyMethod2 (rk_stream env) True False)) (\<lambda>serverKM.
            case rk_ekm env ExportLabel DataKeyMaterialLen of
              None \<Rightarrow> Inl RekeyEKM
            | Some mat \<Rightarrow>
                rbind (map_sum RekeyKeyLen id (AEADKeyLen (se_cipher s))) (\<lambda>keyLen.
                  map_sum RekeySlot id (rekey_slot (rk_lib env) newKID (se_cipher s) (se_peerID s) mat keyLen))))))"

definition rekey_finish :: "rekey_env \<Rightarrow> u8 \<Rightarrow> u8 \<Rightarrow> ref \<Rightarrow> ref \<Rightarrow> Session \<Rightarrow> session_error option \<times> Session" where
  "rekey_finish env oldKID newKID r c s =
     (case rekey_exchange env newKID s of
        Inl e \<Rightarrow>
          let s = (if e = RekeyHandshake then s else close_conn c s)
          in (Some e, rekey_release (retireLayer newKID s))
      | Inr newSlot \<Rightarrow>
          let p = se_nextRef s;
              s = put_slot p newSlot (s\<lparr>se_nextRef := p + 1\<rparr>);
              s = s\<lparr>se_slots := slots_Install (se_slots s) newKID p True\<rparr>;
              s = installTLSConn (Some c) s;
              oldSlot = slots_Get (se_slots s) oldKID;
              oldLayer = layers_Get (se_layers s) oldKID;
              s = s\<lparr>se_retireTimers := (oldKID, oldSlot, oldLayer) # se_retireTimers s\<rparr>
          in (None, rekey_release s))"

definition PerformSoftReset :: "rekey_env \<Rightarrow> int \<Rightarrow> Session \<Rightarrow> session_error option \<times> Session" where
  "PerformSoftReset env now s =
     (case rekey_enter s of
        (Some e, s) \<Rightarrow> (Some e, s)
      | (None, s) \<Rightarrow>
        (case se_rekeyPhase s of
           RekeyEntered oldKID newKID \<Rightarrow>
             let r = se_nextRef s;
                 s = rekey_install oldKID newKID s
             in (case rekey_pumps oldKID newKID r s of
                   (Some e, s) \<Rightarrow> (Some e, s)
                 | (None, s) \<Rightarrow>
                   let c = se_nextRef s
                   in (case rekey_send now oldKID newKID r s of
                         (Some e, s) \<Rightarrow> (Some e, s)
                       | (None, s) \<Rightarrow> rekey_finish env oldKID newKID r c s))
         | _ \<Rightarrow> (None, s)))"

text \<open>The timer of \<^verbatim>\<open>retireAfter\<close> has run out, with the session still up.\<close>

definition retireAfter :: "u8 \<Rightarrow> ref option \<Rightarrow> ref option \<Rightarrow> Session \<Rightarrow> Session" where
  "retireAfter kid slot layer s =
     retireLayerIf kid layer (s\<lparr>se_slots := slots_RetireIf (se_slots s) kid slot\<rparr>)"

definition Session_Rekey :: "rekey_env \<Rightarrow> int \<Rightarrow> Session \<Rightarrow> session_error option \<times> Session" where
  "Session_Rekey env now s =
     (if se_rekeyMgr s = None then (Some RekeyNotInitialised, s) else PerformSoftReset env now s)"

text \<open>
  One tick of \<^verbatim>\<open>rekeyWatch\<close>: whether the loop goes on, its state, the session. \<open>closeNow\<close> stands for
  the \<^verbatim>\<open>Close\<close> call of the failure branch, which runs in the watch itself.
\<close>

definition rekeyWatch_tick :: "(session_error \<Rightarrow> string) \<Rightarrow> rekey_env \<Rightarrow> int \<Rightarrow> bool \<Rightarrow> rekeyState \<Rightarrow> Session \<Rightarrow>
    bool \<times> rekeyState \<times> Session" where
  "rekeyWatch_tick errText env now written st s =
     (case Check (map_option (slot_of s) (slots_Active (se_slots s))) now st of
        (False, st) \<Rightarrow> (True, st, s)
      | (True, st) \<Rightarrow>
        (case PerformSoftReset env now s of
           (err, s) \<Rightarrow>
             (case classifyAutoRekey err (ctx_done s \<or> se_closed s) of
                autoRekeyDone \<Rightarrow> (True, Reset now st, s)
              | autoRekeyConcurrent \<Rightarrow> (True, Reset now st, s)
              | autoRekeyShutdown \<Rightarrow> (False, st, s)
              | autoRekeyFailed \<Rightarrow>
                  (False, st, Session_Close written
                     (setCloseErr (RestartError 0 (''auto-rekey failed: '' @ errText (the err))) s)))))"

section \<open>Writing to the tunnel\<close>

text \<open>
  The wait for a fresh slot polls every 20 ms for 30 s. \<open>others\<close> is what the other goroutines do
  to the session in one such interval.
\<close>

definition maxPolls :: nat where "maxPolls = 1500"

fun poll_slot :: "nat \<Rightarrow> (Session \<Rightarrow> Session) \<Rightarrow> ref \<Rightarrow> Session \<Rightarrow> (session_error, ref) result \<times> Session" where
  "poll_slot 0 others old s = (Inl ErrRekeyRequired, s)"
| "poll_slot (Suc n) others old s =
     (case slots_Active (se_slots s) of
        Some cur \<Rightarrow>
          if cur \<noteq> old then (Inr cur, s)
          else if ctx_done s then (Inl (closedErr s), s) else poll_slot n others old (others s)
      | None \<Rightarrow> if ctx_done s then (Inl (closedErr s), s) else poll_slot n others old (others s))"

definition rekeyForExhaustedSlot :: "rekey_env \<Rightarrow> int \<Rightarrow> (Session \<Rightarrow> Session) \<Rightarrow> ref \<Rightarrow> Session \<Rightarrow>
    (session_error, ref) result \<times> Session" where
  "rekeyForExhaustedSlot env now others old s =
     (if se_rekeyMgr s = None then (Inl ErrRekeyRequired, s)
      else case PerformSoftReset env now s of
        (Some e, s) \<Rightarrow>
          if e \<noteq> ErrRekeyInProgress then (Inl (ForcedRekey e), s) else poll_slot maxPolls others old s
      | (None, s) \<Rightarrow> poll_slot maxPolls others old s)"

text \<open>From the sealed packet to the return: \<open>outcome\<close> is the transport's answer.\<close>

definition write_wire :: "int \<Rightarrow> transport_error option \<Rightarrow> bytes \<Rightarrow> bytes \<Rightarrow> Session \<Rightarrow> (session_error, nat) result \<times> Session" where
  "write_wire now outcome p wire s =
     (case outcome of
        Some e \<Rightarrow>
          if ctx_done s then (Inl (closedErr s), s)
          else (Inl (WriteFailed e), s\<lparr>se_statsOutboundErr := se_statsOutboundErr s + 1, se_lastOutboundErrNs := now\<rparr>)
      | None \<Rightarrow>
          let s = s\<lparr>se_wire := se_wire s @ [wire], se_statsOutboundOK := se_statsOutboundOK s + 1, se_lastUserOutbound := now\<rparr>;
              s = (if sniffL4 p = l4ProtoTCP then s\<lparr>se_lastUserOutboundTCP := now\<rparr>
                   else if sniffL4 p = l4ProtoUDP then s\<lparr>se_lastUserOutboundUDP := now\<rparr>
                   else s)
          in (Inr (length p), s))"

definition WriteCtx :: "rekey_env \<Rightarrow> (nat \<Rightarrow> byte) \<Rightarrow> int \<Rightarrow> (Session \<Rightarrow> Session) \<Rightarrow> transport_error option \<Rightarrow> bytes \<Rightarrow> Session \<Rightarrow>
    (session_error, nat) result \<times> Session" where
  "WriteCtx env stale now others outcome p s =
     (if se_closed s then (Inl (closedErr s), s)
      else case slots_Active (se_slots s) of
        None \<Rightarrow> (Inl SlotNotReady, s)
      | Some r \<Rightarrow>
        (case Seal stale (slot_of s r) p of
           (Inr wire, slot) \<Rightarrow> write_wire now outcome p wire (put_slot r slot s)
         | (Inl e, slot) \<Rightarrow>
           let s = put_slot r slot s
           in if e \<noteq> ErrPacketIDExhausted then (Inl (SealFailed e), s)
              else
                (case rekeyForExhaustedSlot env now others r s of
                   (Inl e, s) \<Rightarrow> (Inl e, s)
                 | (Inr r', s) \<Rightarrow>
                   (case Seal stale (slot_of s r') p of
                      (Inl e, slot) \<Rightarrow> (Inl (SealFailed e), put_slot r' slot s)
                    | (Inr wire, slot) \<Rightarrow> write_wire now outcome p wire (put_slot r' slot s)))))"

end
