(* ===== verification/SessionDial.thy ===== *)
theory SessionDial
  imports Rekey
begin

text \<open>
  Bringing a session up (\<^verbatim>\<open>DialWithTransport\<close> in \<^verbatim>\<open>internal/session/session.go\<close>): the state before the
  control-channel handshake, and what is installed once the handshake has returned its result.
\<close>

text \<open>
  What the session takes from the result of the handshake: the exported key material, the
  negotiated cipher, the peer-id, the pushed keepalive timings; and the TLS connection, which
  runs over the initial layer.
\<close>

record handshake_result =
  hr_KeyMaterial :: DataKeyMaterial
  hr_Cipher :: string
  hr_PeerID :: u32
  hr_PingInterval :: int
  hr_PingRestart :: int

definition applyKeepaliveDefaults :: "Session \<Rightarrow> Session" where
  "applyKeepaliveDefaults s =
     (let s = (if se_PingInterval s \<le> 0 then s\<lparr>se_PingInterval := defaultPingInterval\<rparr> else s)
      in if se_PingRestart s \<le> 0 then s\<lparr>se_PingRestart := defaultPingRestart\<rparr> else s)"

text \<open>
  The struct literal, the initial layer (the object at address 0) under key-id 0, the read loop
  and the layer's pumps.
\<close>

definition newSession :: "Config \<Rightarrow> controlWrapper \<Rightarrow> u64 \<Rightarrow> Session" where
  "newSession cfg w localSID =
     (let s = \<lparr>se_cfg = (if cfg_TransitionWindow cfg \<le> 0 then cfg\<lparr>cfg_TransitionWindow := 60 * sec\<rparr> else cfg),
            se_wrapper = w, se_localSID = localSID, se_slots = newSlotTable, se_layers = newLayerTable,
            se_slotAt = Map.empty, se_layerAt = Map.empty, se_connAt = Map.empty, se_nextRef = 0,
            se_cipher = '''', se_peerID = 0, se_PingInterval = 0, se_PingRestart = 0,
            se_rekeyMgr = None, se_rekeyPhase = RekeyIdle, se_retireTimers = [], se_tlsConn = None, se_closeErr = None,
            se_lastInbound = 0, se_lastDataInbound = 0, se_lastUserOutbound = 0,
            se_lastDataInboundTCP = 0, se_lastDataInboundUDP = 0, se_lastUserOutboundTCP = 0, se_lastUserOutboundUDP = 0,
            se_statsForwarded = 0, se_statsDroppedFull = 0, se_statsPingIn = 0, se_statsOpenFailed = 0,
            se_statsStrayHandshake = 0, se_statsHardResetIn = 0, se_statsOutboundOK = 0, se_statsOutboundErr = 0,
            se_lastOutboundErrNs = 0, se_ingressCh = [], se_handler = False, se_handled = [],
            se_workers = NewManager, se_closed = False, se_closePhase = NotClosing, se_closing = [],
            se_transportClosed = False, se_wire = []\<rparr>;
          r = se_nextRef s;
          s = put_layer r (New \<lparr>lc_LocalSessionID = localSID, lc_InitialKeyID = 0, lc_OutboundBuffer = 0\<rparr>)
                (s\<lparr>se_nextRef := r + 1\<rparr>);
          s = s\<lparr>se_layers := snd (layers_Install (se_layers s) 0 r)\<rparr>;
          s = snd (workers_Go ReadLoop s)
      in snd (startLayerPumps r s))"

text \<open>After the handshake: slot, TLS connection, rekey manager, keepalive timings, watchdogs.\<close>

definition session_established :: "aead_lib \<Rightarrow> int \<Rightarrow> handshake_result \<Rightarrow> Session \<Rightarrow> (slot_error, unit) result \<times> Session" where
  "session_established lib now hr s =
     (case fst (buildSlot lib 0 (hr_Cipher hr) (hr_PeerID hr) (hr_KeyMaterial hr)) of
        Inl e \<Rightarrow> (Inl e, shutdown s)
      | Inr slot \<Rightarrow>
          let p = se_nextRef s;
              s = put_slot p slot (s\<lparr>se_nextRef := p + 1\<rparr>);
              s = s\<lparr>se_slots := slots_Install (se_slots s) 0 p True\<rparr>;
              s = s\<lparr>se_PingInterval := hr_PingInterval hr, se_PingRestart := hr_PingRestart hr,
                    se_cipher := hr_Cipher hr, se_peerID := hr_PeerID hr\<rparr>;
              c = se_nextRef s;
              s = put_conn c \<lparr>tc_layer = the (layers_Get (se_layers s) 0), tc_closed = False, tc_sent = []\<rparr> (s\<lparr>se_nextRef := c + 1\<rparr>);
              s = installTLSConn (Some c) s;
              s = s\<lparr>se_rekeyMgr := Some (newRekeyManager (cfg_TransitionWindow (se_cfg s)))\<rparr>;
              s = snd (workers_Go RekeyWatch s);
              s = applyKeepaliveDefaults s;
              s = s\<lparr>se_lastInbound := now, se_lastDataInbound := now, se_lastUserOutbound := now\<rparr>;
              s = (if se_PingInterval s > 0 then snd (workers_Go KeepaliveLoop s) else s);
              s = (if se_PingRestart s > 0 then snd (workers_Go PingRestartWatch s) else s);
              s = snd (workers_Go DataActivityWatch s);
              s = snd (workers_Go HardResetWatch s);
              s = snd (workers_Go WakeDetectorWatch s);
              s = snd (workers_Go StatsLogger s)
          in (Inr (), s))"

end
