(* ===== verification/SessionFrame.thy ===== *)
theory SessionFrame
  imports SessionState
begin

text \<open>
  Three views of a session's object stores (the key-id of a slot, whether a layer is closed, the
  layer under a TLS connection) and how they move under the record's updates and the store
  writes: the simplification rules that let the proofs about interleavings skip over every
  counter, timestamp and log of the state.
\<close>

section \<open>Views\<close>

text \<open>The key-id of a slot object, whether a layer object is closed, the layer of a TLS connection.\<close>

definition kid_at :: "Session \<Rightarrow> ref \<Rightarrow> u8 option" where
  "kid_at s p = map_option sl_KeyID (se_slotAt s p)"

definition closed_at :: "Session \<Rightarrow> ref \<Rightarrow> bool option" where
  "closed_at s r = map_option ly_closed (se_layerAt s r)"

definition conn_layer :: "Session \<Rightarrow> ref \<Rightarrow> ref option" where
  "conn_layer s c = map_option tc_layer (se_connAt s c)"

lemma kid_at_fields [simp]:
  "kid_at (s\<lparr>se_cfg := v_cfg\<rparr>) = kid_at s"
  "kid_at (s\<lparr>se_wrapper := v_wrapper\<rparr>) = kid_at s"
  "kid_at (s\<lparr>se_localSID := v_localSID\<rparr>) = kid_at s"
  "kid_at (s\<lparr>se_slots := v_slots\<rparr>) = kid_at s"
  "kid_at (s\<lparr>se_layers := v_layers\<rparr>) = kid_at s"
  "kid_at (s\<lparr>se_layerAt := v_layerAt\<rparr>) = kid_at s"
  "kid_at (s\<lparr>se_connAt := v_connAt\<rparr>) = kid_at s"
  "kid_at (s\<lparr>se_nextRef := v_nextRef\<rparr>) = kid_at s"
  "kid_at (s\<lparr>se_cipher := v_cipher\<rparr>) = kid_at s"
  "kid_at (s\<lparr>se_peerID := v_peerID\<rparr>) = kid_at s"
  "kid_at (s\<lparr>se_PingInterval := v_PingInterval\<rparr>) = kid_at s"
  "kid_at (s\<lparr>se_PingRestart := v_PingRestart\<rparr>) = kid_at s"
  "kid_at (s\<lparr>se_rekeyMgr := v_rekeyMgr\<rparr>) = kid_at s"
  "kid_at (s\<lparr>se_rekeyPhase := v_rekeyPhase\<rparr>) = kid_at s"
  "kid_at (s\<lparr>se_retireTimers := v_retireTimers\<rparr>) = kid_at s"
  "kid_at (s\<lparr>se_tlsConn := v_tlsConn\<rparr>) = kid_at s"
  "kid_at (s\<lparr>se_closeErr := v_closeErr\<rparr>) = kid_at s"
  "kid_at (s\<lparr>se_lastInbound := v_lastInbound\<rparr>) = kid_at s"
  "kid_at (s\<lparr>se_lastDataInbound := v_lastDataInbound\<rparr>) = kid_at s"
  "kid_at (s\<lparr>se_lastUserOutbound := v_lastUserOutbound\<rparr>) = kid_at s"
  "kid_at (s\<lparr>se_lastDataInboundTCP := v_lastDataInboundTCP\<rparr>) = kid_at s"
  "kid_at (s\<lparr>se_lastDataInboundUDP := v_lastDataInboundUDP\<rparr>) = kid_at s"
  "kid_at (s\<lparr>se_lastUserOutboundTCP := v_lastUserOutboundTCP\<rparr>) = kid_at s"
  "kid_at (s\<lparr>se_lastUserOutboundUDP := v_lastUserOutboundUDP\<rparr>) = kid_at s"
  "kid_at (s\<lparr>se_statsForwarded := v_statsForwarded\<rparr>) = kid_at s"
  "kid_at (s\<lparr>se_statsDroppedFull := v_statsDroppedFull\<rparr>) = kid_at s"
  "kid_at (s\<lparr>se_statsPingIn := v_statsPingIn\<rparr>) = kid_at s"
  "kid_at (s\<lparr>se_statsOpenFailed := v_statsOpenFailed\<rparr>) = kid_at s"
  "kid_at (s\<lparr>se_statsStrayHandshake := v_statsStrayHandshake\<rparr>) = kid_at s"
  "kid_at (s\<lparr>se_statsHardResetIn := v_statsHardResetIn\<rparr>) = kid_at s"
  "kid_at (s\<lparr>se_statsOutboundOK := v_statsOutboundOK\<rparr>) = kid_at s"
  "kid_at (s\<lparr>se_statsOutboundErr := v_statsOutboundErr\<rparr>) = kid_at s"
  "kid_at (s\<lparr>se_lastOutboundErrNs := v_lastOutboundErrNs\<rparr>) = kid_at s"
  "kid_at (s\<lparr>se_ingressCh := v_ingressCh\<rparr>) = kid_at s"
  "kid_at (s\<lparr>se_handler := v_handler\<rparr>) = kid_at s"
  "kid_at (s\<lparr>se_handled := v_handled\<rparr>) = kid_at s"
  "kid_at (s\<lparr>se_workers := v_workers\<rparr>) = kid_at s"
  "kid_at (s\<lparr>se_closed := v_closed\<rparr>) = kid_at s"
  "kid_at (s\<lparr>se_closePhase := v_closePhase\<rparr>) = kid_at s"
  "kid_at (s\<lparr>se_closing := v_closing\<rparr>) = kid_at s"
  "kid_at (s\<lparr>se_transportClosed := v_transportClosed\<rparr>) = kid_at s"
  "kid_at (s\<lparr>se_wire := v_wire\<rparr>) = kid_at s"
  by (simp_all add: kid_at_def fun_eq_iff)

lemma closed_at_fields [simp]:
  "closed_at (s\<lparr>se_cfg := v_cfg\<rparr>) = closed_at s"
  "closed_at (s\<lparr>se_wrapper := v_wrapper\<rparr>) = closed_at s"
  "closed_at (s\<lparr>se_localSID := v_localSID\<rparr>) = closed_at s"
  "closed_at (s\<lparr>se_slots := v_slots\<rparr>) = closed_at s"
  "closed_at (s\<lparr>se_layers := v_layers\<rparr>) = closed_at s"
  "closed_at (s\<lparr>se_slotAt := v_slotAt\<rparr>) = closed_at s"
  "closed_at (s\<lparr>se_connAt := v_connAt\<rparr>) = closed_at s"
  "closed_at (s\<lparr>se_nextRef := v_nextRef\<rparr>) = closed_at s"
  "closed_at (s\<lparr>se_cipher := v_cipher\<rparr>) = closed_at s"
  "closed_at (s\<lparr>se_peerID := v_peerID\<rparr>) = closed_at s"
  "closed_at (s\<lparr>se_PingInterval := v_PingInterval\<rparr>) = closed_at s"
  "closed_at (s\<lparr>se_PingRestart := v_PingRestart\<rparr>) = closed_at s"
  "closed_at (s\<lparr>se_rekeyMgr := v_rekeyMgr\<rparr>) = closed_at s"
  "closed_at (s\<lparr>se_rekeyPhase := v_rekeyPhase\<rparr>) = closed_at s"
  "closed_at (s\<lparr>se_retireTimers := v_retireTimers\<rparr>) = closed_at s"
  "closed_at (s\<lparr>se_tlsConn := v_tlsConn\<rparr>) = closed_at s"
  "closed_at (s\<lparr>se_closeErr := v_closeErr\<rparr>) = closed_at s"
  "closed_at (s\<lparr>se_lastInbound := v_lastInbound\<rparr>) = closed_at s"
  "closed_at (s\<lparr>se_lastDataInbound := v_lastDataInbound\<rparr>) = closed_at s"
  "closed_at (s\<lparr>se_lastUserOutbound := v_lastUserOutbound\<rparr>) = closed_at s"
  "closed_at (s\<lparr>se_lastDataInboundTCP := v_lastDataInboundTCP\<rparr>) = closed_at s"
  "closed_at (s\<lparr>se_lastDataInboundUDP := v_lastDataInboundUDP\<rparr>) = closed_at s"
  "closed_at (s\<lparr>se_lastUserOutboundTCP := v_lastUserOutboundTCP\<rparr>) = closed_at s"
  "closed_at (s\<lparr>se_lastUserOutboundUDP := v_lastUserOutboundUDP\<rparr>) = closed_at s"
  "closed_at (s\<lparr>se_statsForwarded := v_statsForwarded\<rparr>) = closed_at s"
  "closed_at (s\<lparr>se_statsDroppedFull := v_statsDroppedFull\<rparr>) = closed_at s"
  "closed_at (s\<lparr>se_statsPingIn := v_statsPingIn\<rparr>) = closed_at s"
  "closed_at (s\<lparr>se_statsOpenFailed := v_statsOpenFailed\<rparr>) = closed_at s"
  "closed_at (s\<lparr>se_statsStrayHandshake := v_statsStrayHandshake\<rparr>) = closed_at s"
  "closed_at (s\<lparr>se_statsHardResetIn := v_statsHardResetIn\<rparr>) = closed_at s"
  "closed_at (s\<lparr>se_statsOutboundOK := v_statsOutboundOK\<rparr>) = closed_at s"
  "closed_at (s\<lparr>se_statsOutboundErr := v_statsOutboundErr\<rparr>) = closed_at s"
  "closed_at (s\<lparr>se_lastOutboundErrNs := v_lastOutboundErrNs\<rparr>) = closed_at s"
  "closed_at (s\<lparr>se_ingressCh := v_ingressCh\<rparr>) = closed_at s"
  "closed_at (s\<lparr>se_handler := v_handler\<rparr>) = closed_at s"
  "closed_at (s\<lparr>se_handled := v_handled\<rparr>) = closed_at s"
  "closed_at (s\<lparr>se_workers := v_workers\<rparr>) = closed_at s"
  "closed_at (s\<lparr>se_closed := v_closed\<rparr>) = closed_at s"
  "closed_at (s\<lparr>se_closePhase := v_closePhase\<rparr>) = closed_at s"
  "closed_at (s\<lparr>se_closing := v_closing\<rparr>) = closed_at s"
  "closed_at (s\<lparr>se_transportClosed := v_transportClosed\<rparr>) = closed_at s"
  "closed_at (s\<lparr>se_wire := v_wire\<rparr>) = closed_at s"
  by (simp_all add: closed_at_def fun_eq_iff)

lemma conn_layer_fields [simp]:
  "conn_layer (s\<lparr>se_cfg := v_cfg\<rparr>) = conn_layer s"
  "conn_layer (s\<lparr>se_wrapper := v_wrapper\<rparr>) = conn_layer s"
  "conn_layer (s\<lparr>se_localSID := v_localSID\<rparr>) = conn_layer s"
  "conn_layer (s\<lparr>se_slots := v_slots\<rparr>) = conn_layer s"
  "conn_layer (s\<lparr>se_layers := v_layers\<rparr>) = conn_layer s"
  "conn_layer (s\<lparr>se_slotAt := v_slotAt\<rparr>) = conn_layer s"
  "conn_layer (s\<lparr>se_layerAt := v_layerAt\<rparr>) = conn_layer s"
  "conn_layer (s\<lparr>se_nextRef := v_nextRef\<rparr>) = conn_layer s"
  "conn_layer (s\<lparr>se_cipher := v_cipher\<rparr>) = conn_layer s"
  "conn_layer (s\<lparr>se_peerID := v_peerID\<rparr>) = conn_layer s"
  "conn_layer (s\<lparr>se_PingInterval := v_PingInterval\<rparr>) = conn_layer s"
  "conn_layer (s\<lparr>se_PingRestart := v_PingRestart\<rparr>) = conn_layer s"
  "conn_layer (s\<lparr>se_rekeyMgr := v_rekeyMgr\<rparr>) = conn_layer s"
  "conn_layer (s\<lparr>se_rekeyPhase := v_rekeyPhase\<rparr>) = conn_layer s"
  "conn_layer (s\<lparr>se_retireTimers := v_retireTimers\<rparr>) = conn_layer s"
  "conn_layer (s\<lparr>se_tlsConn := v_tlsConn\<rparr>) = conn_layer s"
  "conn_layer (s\<lparr>se_closeErr := v_closeErr\<rparr>) = conn_layer s"
  "conn_layer (s\<lparr>se_lastInbound := v_lastInbound\<rparr>) = conn_layer s"
  "conn_layer (s\<lparr>se_lastDataInbound := v_lastDataInbound\<rparr>) = conn_layer s"
  "conn_layer (s\<lparr>se_lastUserOutbound := v_lastUserOutbound\<rparr>) = conn_layer s"
  "conn_layer (s\<lparr>se_lastDataInboundTCP := v_lastDataInboundTCP\<rparr>) = conn_layer s"
  "conn_layer (s\<lparr>se_lastDataInboundUDP := v_lastDataInboundUDP\<rparr>) = conn_layer s"
  "conn_layer (s\<lparr>se_lastUserOutboundTCP := v_lastUserOutboundTCP\<rparr>) = conn_layer s"
  "conn_layer (s\<lparr>se_lastUserOutboundUDP := v_lastUserOutboundUDP\<rparr>) = conn_layer s"
  "conn_layer (s\<lparr>se_statsForwarded := v_statsForwarded\<rparr>) = conn_layer s"
  "conn_layer (s\<lparr>se_statsDroppedFull := v_statsDroppedFull\<rparr>) = conn_layer s"
  "conn_layer (s\<lparr>se_statsPingIn := v_statsPingIn\<rparr>) = conn_layer s"
  "conn_layer (s\<lparr>se_statsOpenFailed := v_statsOpenFailed\<rparr>) = conn_layer s"
  "conn_layer (s\<lparr>se_statsStrayHandshake := v_statsStrayHandshake\<rparr>) = conn_layer s"
  "conn_layer (s\<lparr>se_statsHardResetIn := v_statsHardResetIn\<rparr>) = conn_layer s"
  "conn_layer (s\<lparr>se_statsOutboundOK := v_statsOutboundOK\<rparr>) = conn_layer s"
  "conn_layer (s\<lparr>se_statsOutboundErr := v_statsOutboundErr\<rparr>) = conn_layer s"
  "conn_layer (s\<lparr>se_lastOutboundErrNs := v_lastOutboundErrNs\<rparr>) = conn_layer s"
  "conn_layer (s\<lparr>se_ingressCh := v_ingressCh\<rparr>) = conn_layer s"
  "conn_layer (s\<lparr>se_handler := v_handler\<rparr>) = conn_layer s"
  "conn_layer (s\<lparr>se_handled := v_handled\<rparr>) = conn_layer s"
  "conn_layer (s\<lparr>se_workers := v_workers\<rparr>) = conn_layer s"
  "conn_layer (s\<lparr>se_closed := v_closed\<rparr>) = conn_layer s"
  "conn_layer (s\<lparr>se_closePhase := v_closePhase\<rparr>) = conn_layer s"
  "conn_layer (s\<lparr>se_closing := v_closing\<rparr>) = conn_layer s"
  "conn_layer (s\<lparr>se_transportClosed := v_transportClosed\<rparr>) = conn_layer s"
  "conn_layer (s\<lparr>se_wire := v_wire\<rparr>) = conn_layer s"
  by (simp_all add: conn_layer_def fun_eq_iff)

lemma views_put [simp]:
  "kid_at (put_slot p x s) = (kid_at s)(p := Some (sl_KeyID x))" "kid_at (put_layer r l s) = kid_at s" "kid_at (put_conn c y s) = kid_at s"
  "closed_at (put_layer r l s) = (closed_at s)(r := Some (ly_closed l))" "closed_at (put_slot p x s) = closed_at s" "closed_at (put_conn c y s) = closed_at s"
  "conn_layer (put_conn c y s) = (conn_layer s)(c := Some (tc_layer y))" "conn_layer (put_slot p x s) = conn_layer s" "conn_layer (put_layer r l s) = conn_layer s"
  by (simp_all add: put_slot_def put_layer_def put_conn_def) (simp_all add: kid_at_def closed_at_def conn_layer_def fun_eq_iff)

lemma put_slot_frame [simp]:
  "se_cfg (put_slot p x s) = se_cfg s"
  "se_wrapper (put_slot p x s) = se_wrapper s"
  "se_localSID (put_slot p x s) = se_localSID s"
  "se_slots (put_slot p x s) = se_slots s"
  "se_layers (put_slot p x s) = se_layers s"
  "se_layerAt (put_slot p x s) = se_layerAt s"
  "se_connAt (put_slot p x s) = se_connAt s"
  "se_nextRef (put_slot p x s) = se_nextRef s"
  "se_cipher (put_slot p x s) = se_cipher s"
  "se_peerID (put_slot p x s) = se_peerID s"
  "se_PingInterval (put_slot p x s) = se_PingInterval s"
  "se_PingRestart (put_slot p x s) = se_PingRestart s"
  "se_rekeyMgr (put_slot p x s) = se_rekeyMgr s"
  "se_rekeyPhase (put_slot p x s) = se_rekeyPhase s"
  "se_retireTimers (put_slot p x s) = se_retireTimers s"
  "se_tlsConn (put_slot p x s) = se_tlsConn s"
  "se_closeErr (put_slot p x s) = se_closeErr s"
  "se_lastInbound (put_slot p x s) = se_lastInbound s"
  "se_lastDataInbound (put_slot p x s) = se_lastDataInbound s"
  "se_lastUserOutbound (put_slot p x s) = se_lastUserOutbound s"
  "se_lastDataInboundTCP (put_slot p x s) = se_lastDataInboundTCP s"
  "se_lastDataInboundUDP (put_slot p x s) = se_lastDataInboundUDP s"
  "se_lastUserOutboundTCP (put_slot p x s) = se_lastUserOutboundTCP s"
  "se_lastUserOutboundUDP (put_slot p x s) = se_lastUserOutboundUDP s"
  "se_statsForwarded (put_slot p x s) = se_statsForwarded s"
  "se_statsDroppedFull (put_slot p x s) = se_statsDroppedFull s"
  "se_statsPingIn (put_slot p x s) = se_statsPingIn s"
  "se_statsOpenFailed (put_slot p x s) = se_statsOpenFailed s"
  "se_statsStrayHandshake (put_slot p x s) = se_statsStrayHandshake s"
  "se_statsHardResetIn (put_slot p x s) = se_statsHardResetIn s"
  "se_statsOutboundOK (put_slot p x s) = se_statsOutboundOK s"
  "se_statsOutboundErr (put_slot p x s) = se_statsOutboundErr s"
  "se_lastOutboundErrNs (put_slot p x s) = se_lastOutboundErrNs s"
  "se_ingressCh (put_slot p x s) = se_ingressCh s"
  "se_handler (put_slot p x s) = se_handler s"
  "se_handled (put_slot p x s) = se_handled s"
  "se_workers (put_slot p x s) = se_workers s"
  "se_closed (put_slot p x s) = se_closed s"
  "se_closePhase (put_slot p x s) = se_closePhase s"
  "se_closing (put_slot p x s) = se_closing s"
  "se_transportClosed (put_slot p x s) = se_transportClosed s"
  "se_wire (put_slot p x s) = se_wire s"
  by (simp_all add: put_slot_def)

lemma put_layer_frame [simp]:
  "se_cfg (put_layer r l s) = se_cfg s"
  "se_wrapper (put_layer r l s) = se_wrapper s"
  "se_localSID (put_layer r l s) = se_localSID s"
  "se_slots (put_layer r l s) = se_slots s"
  "se_layers (put_layer r l s) = se_layers s"
  "se_slotAt (put_layer r l s) = se_slotAt s"
  "se_connAt (put_layer r l s) = se_connAt s"
  "se_nextRef (put_layer r l s) = se_nextRef s"
  "se_cipher (put_layer r l s) = se_cipher s"
  "se_peerID (put_layer r l s) = se_peerID s"
  "se_PingInterval (put_layer r l s) = se_PingInterval s"
  "se_PingRestart (put_layer r l s) = se_PingRestart s"
  "se_rekeyMgr (put_layer r l s) = se_rekeyMgr s"
  "se_rekeyPhase (put_layer r l s) = se_rekeyPhase s"
  "se_retireTimers (put_layer r l s) = se_retireTimers s"
  "se_tlsConn (put_layer r l s) = se_tlsConn s"
  "se_closeErr (put_layer r l s) = se_closeErr s"
  "se_lastInbound (put_layer r l s) = se_lastInbound s"
  "se_lastDataInbound (put_layer r l s) = se_lastDataInbound s"
  "se_lastUserOutbound (put_layer r l s) = se_lastUserOutbound s"
  "se_lastDataInboundTCP (put_layer r l s) = se_lastDataInboundTCP s"
  "se_lastDataInboundUDP (put_layer r l s) = se_lastDataInboundUDP s"
  "se_lastUserOutboundTCP (put_layer r l s) = se_lastUserOutboundTCP s"
  "se_lastUserOutboundUDP (put_layer r l s) = se_lastUserOutboundUDP s"
  "se_statsForwarded (put_layer r l s) = se_statsForwarded s"
  "se_statsDroppedFull (put_layer r l s) = se_statsDroppedFull s"
  "se_statsPingIn (put_layer r l s) = se_statsPingIn s"
  "se_statsOpenFailed (put_layer r l s) = se_statsOpenFailed s"
  "se_statsStrayHandshake (put_layer r l s) = se_statsStrayHandshake s"
  "se_statsHardResetIn (put_layer r l s) = se_statsHardResetIn s"
  "se_statsOutboundOK (put_layer r l s) = se_statsOutboundOK s"
  "se_statsOutboundErr (put_layer r l s) = se_statsOutboundErr s"
  "se_lastOutboundErrNs (put_layer r l s) = se_lastOutboundErrNs s"
  "se_ingressCh (put_layer r l s) = se_ingressCh s"
  "se_handler (put_layer r l s) = se_handler s"
  "se_handled (put_layer r l s) = se_handled s"
  "se_workers (put_layer r l s) = se_workers s"
  "se_closed (put_layer r l s) = se_closed s"
  "se_closePhase (put_layer r l s) = se_closePhase s"
  "se_closing (put_layer r l s) = se_closing s"
  "se_transportClosed (put_layer r l s) = se_transportClosed s"
  "se_wire (put_layer r l s) = se_wire s"
  by (simp_all add: put_layer_def)

lemma put_conn_frame [simp]:
  "se_cfg (put_conn c y s) = se_cfg s"
  "se_wrapper (put_conn c y s) = se_wrapper s"
  "se_localSID (put_conn c y s) = se_localSID s"
  "se_slots (put_conn c y s) = se_slots s"
  "se_layers (put_conn c y s) = se_layers s"
  "se_slotAt (put_conn c y s) = se_slotAt s"
  "se_layerAt (put_conn c y s) = se_layerAt s"
  "se_nextRef (put_conn c y s) = se_nextRef s"
  "se_cipher (put_conn c y s) = se_cipher s"
  "se_peerID (put_conn c y s) = se_peerID s"
  "se_PingInterval (put_conn c y s) = se_PingInterval s"
  "se_PingRestart (put_conn c y s) = se_PingRestart s"
  "se_rekeyMgr (put_conn c y s) = se_rekeyMgr s"
  "se_rekeyPhase (put_conn c y s) = se_rekeyPhase s"
  "se_retireTimers (put_conn c y s) = se_retireTimers s"
  "se_tlsConn (put_conn c y s) = se_tlsConn s"
  "se_closeErr (put_conn c y s) = se_closeErr s"
  "se_lastInbound (put_conn c y s) = se_lastInbound s"
  "se_lastDataInbound (put_conn c y s) = se_lastDataInbound s"
  "se_lastUserOutbound (put_conn c y s) = se_lastUserOutbound s"
  "se_lastDataInboundTCP (put_conn c y s) = se_lastDataInboundTCP s"
  "se_lastDataInboundUDP (put_conn c y s) = se_lastDataInboundUDP s"
  "se_lastUserOutboundTCP (put_conn c y s) = se_lastUserOutboundTCP s"
  "se_lastUserOutboundUDP (put_conn c y s) = se_lastUserOutboundUDP s"
  "se_statsForwarded (put_conn c y s) = se_statsForwarded s"
  "se_statsDroppedFull (put_conn c y s) = se_statsDroppedFull s"
  "se_statsPingIn (put_conn c y s) = se_statsPingIn s"
  "se_statsOpenFailed (put_conn c y s) = se_statsOpenFailed s"
  "se_statsStrayHandshake (put_conn c y s) = se_statsStrayHandshake s"
  "se_statsHardResetIn (put_conn c y s) = se_statsHardResetIn s"
  "se_statsOutboundOK (put_conn c y s) = se_statsOutboundOK s"
  "se_statsOutboundErr (put_conn c y s) = se_statsOutboundErr s"
  "se_lastOutboundErrNs (put_conn c y s) = se_lastOutboundErrNs s"
  "se_ingressCh (put_conn c y s) = se_ingressCh s"
  "se_handler (put_conn c y s) = se_handler s"
  "se_handled (put_conn c y s) = se_handled s"
  "se_workers (put_conn c y s) = se_workers s"
  "se_closed (put_conn c y s) = se_closed s"
  "se_closePhase (put_conn c y s) = se_closePhase s"
  "se_closing (put_conn c y s) = se_closing s"
  "se_transportClosed (put_conn c y s) = se_transportClosed s"
  "se_wire (put_conn c y s) = se_wire s"
  by (simp_all add: put_conn_def)

end
