(* ===== verification/Interleaving.thy ===== *)
theory Interleaving
  imports SessionDial SessionFrame
begin

text \<open>
  A live session as a state machine: a rekey in progress, closing, the retirement timers of
  earlier rekeys, inbound packets, the pumps of every layer, TLS reading and writing its layer,
  and users writing, all interleaved in any order (\<open>session_step\<close>).

  The invariant \<open>session_inv\<close> says that the session always has a sending key and, while it is
  open, an open control layer for it; that a timer never names the current key's objects; and
  that no layer is lost: each is closed, or is in the table where \<^verbatim>\<open>shutdown\<close> will find it, or
  belongs to the rekey that is just installing it.
\<close>

section \<open>What layer operations leave alone\<close>

lemma emitLocked_closed [simp]: "ly_closed (emitLocked now opc pid body l) = ly_closed l"
  by (simp add: emitLocked_def drainAcksLocked_def Let_def split: prod.splits)

lemma enqueue_closed [simp]: "ly_closed (snd (enqueueAndEmitLocked now opc body l)) = ly_closed l"
  by (simp add: enqueueAndEmitLocked_def Let_def)

lemma SendHardReset_closed [simp]: "ly_closed (snd (SendHardReset now opc l)) = ly_closed l"
  by (simp add: SendHardReset_def)

lemma SendSoftReset_closed [simp]: "ly_closed (snd (SendSoftReset now k l)) = ly_closed l"
  using enqueue_closed [of now PControlSoftResetV1 "[]" "l\<lparr>ly_keyID := k\<rparr>"]
  by (auto simp: SendSoftReset_def Let_def simp del: enqueue_closed split: prod.splits)

lemma drain_rx_closed [simp]: "ly_closed (drain_rx l) = ly_closed l"
proof (induction l rule: drain_rx.induct)
  case (1 l)
  then show ?case by (subst drain_rx.simps) (auto simp: appendReadLocked_def split: option.splits)
qed

lemma receive_closed [simp]: "ly_closed (receive now pid body l) = ly_closed l"
  by (simp add: receive_def)

lemma handle_acks_closed [simp]: "ly_closed (handle_acks acks l) = ly_closed l"
  by (simp add: handle_acks_eq)

lemma HandleInbound_closed [simp]: "ly_closed (snd (HandleInbound now p l)) = ly_closed l"
  by (simp add: HandleInbound_eq learn_remote_def)

lemma Read_closed [simp]: "ly_closed (snd (Read n l)) = ly_closed l"
  by (auto simp: Read_def Let_def split: option.splits)

lemma write_loop_closed [simp]: "ly_closed (snd (write_loop now w p l)) = ly_closed l"
proof (induction now w p l rule: write_loop.induct)
  case (1 now w p l)
  define chunk where "chunk = (if length p > TLSChunkSize then take TLSChunkSize p else p)"
  obtain e l' where enq: "enqueueAndEmitLocked now PControlV1 chunk l = (e, l')"
    by (cases "enqueueAndEmitLocked now PControlV1 chunk l")
  have "ly_closed l' = ly_closed l" using enqueue_closed [of now PControlV1 chunk l] enq by simp
  with 1 enq show ?case
    by (subst write_loop.simps) (auto simp: chunk_def [symmetric] Let_def split: option.splits)
qed

lemma Write_closed [simp]: "ly_closed (snd (Write now p l)) = ly_closed l"
  by (simp add: Write_def)

lemma tick_loop_closed [simp]: "ly_closed (snd (tick_loop now ks l)) = ly_closed l"
  by (induction now ks l rule: tick_loop.induct) (auto simp: Let_def split: option.splits)

lemma Tick_closed [simp]: "ly_closed (snd (Tick now ks l)) = ly_closed l"
proof -
  obtain e l' where t: "tick_loop now ks l = (e, l')" by (cases "tick_loop now ks l")
  have "ly_closed l' = ly_closed l" using tick_loop_closed [of now ks l] t by simp
  moreover have "ly_closed (emitStandaloneAckLocked now l') = ly_closed l'"
    by (simp add: emitStandaloneAckLocked_def drainAcksLocked_def Let_def)
  ultimately show ?thesis by (cases e) (auto simp: Tick_def t)
qed

lemma take_outbound_closed [simp]: "ly_closed (snd (take_outbound l)) = ly_closed l"
  by (simp add: take_outbound_def split: list.splits)

lemma layer_step_closed: "ev \<noteq> OpClose \<Longrightarrow> ly_closed (layer_step ev l) = ly_closed l"
  by (cases ev) (simp_all add: SetKeyID_def SetRemoteSessionID_def CloseRead_def Let_def split: option.splits)

lemma Close_closed [simp]: "ly_closed (Close l)"
  by (simp add: Close_def)

section \<open>What the invariant looks at\<close>

abbreviation slot_at :: "Session \<Rightarrow> u8 \<Rightarrow> ref option" where
  "slot_at s k \<equiv> slots_Get (se_slots s) k"

abbreviation layer_at :: "Session \<Rightarrow> u8 \<Rightarrow> ref option" where
  "layer_at s k \<equiv> layers_Get (se_layers s) k"

abbreviation active_kid :: "Session \<Rightarrow> u8" where
  "active_kid s \<equiv> slots_ActiveKID (se_slots s)"

fun phase_kids :: "rekey_phase \<Rightarrow> (u8 \<times> u8) option" where
  "phase_kids RekeyIdle = None"
| "phase_kids (RekeyEntered old new) = Some (old, new)"
| "phase_kids (RekeyInstalled old new r) = Some (old, new)"
| "phase_kids (RekeyPumping old new r) = Some (old, new)"
| "phase_kids (RekeyHandshaking old new r c) = Some (old, new)"

fun phase_layer :: "rekey_phase \<Rightarrow> (u8 \<times> ref) option" where
  "phase_layer (RekeyInstalled old new r) = Some (new, r)"
| "phase_layer (RekeyPumping old new r) = Some (new, r)"
| "phase_layer (RekeyHandshaking old new r c) = Some (new, r)"
| "phase_layer _ = None"

fun phase_conn :: "rekey_phase \<Rightarrow> ref option" where
  "phase_conn (RekeyHandshaking old new r c) = Some c"
| "phase_conn _ = None"

text \<open>The key-ids that \<^verbatim>\<open>shutdown\<close> has been through.\<close>

fun retired_below :: "close_phase \<Rightarrow> nat" where
  "retired_below (ShutdownFrom n) = n"
| "retired_below ShutdownDone = 8"
| "retired_below _ = 0"

fun workers_down :: "close_phase \<Rightarrow> bool" where
  "workers_down (ShutdownFrom n) = True"
| "workers_down ShutdownDone = True"
| "workers_down _ = False"

section \<open>The invariant\<close>

definition store_ok :: "Session \<Rightarrow> bool" where
  "store_ok s \<longleftrightarrow>
     (\<forall>k p. slot_at s k = Some p \<longrightarrow> kid_at s p = Some k) \<and>
     (\<forall>k r. layer_at s k = Some r \<longrightarrow> closed_at s r \<noteq> None \<and> unat k < 8) \<and>
     (\<forall>k k' r. layer_at s k = Some r \<longrightarrow> layer_at s k' = Some r \<longrightarrow> k' = k) \<and>
     (\<forall>r. se_nextRef s \<le> r \<longrightarrow> kid_at s r = None \<and> closed_at s r = None \<and> conn_layer s r = None) \<and>
     (\<forall>c r. conn_layer s c = Some r \<longrightarrow> closed_at s r \<noteq> None)"

definition active_ok :: "Session \<Rightarrow> bool" where
  "active_ok s \<longleftrightarrow>
     unat (active_kid s) < 8 \<and> slot_at s (active_kid s) \<noteq> None \<and>
     (\<forall>c. se_tlsConn s = Some c \<longrightarrow> conn_layer s c \<noteq> None) \<and>
     (\<not> se_closed s \<longrightarrow> (\<exists>r. layer_at s (active_kid s) = Some r \<and> closed_at s r = Some False \<and>
        (\<forall>c. se_tlsConn s = Some c \<longrightarrow> conn_layer s c = Some r)))"

definition timer_ok :: "Session \<Rightarrow> u8 \<times> ref option \<times> ref option \<Rightarrow> bool" where
  "timer_ok s t \<longleftrightarrow> (case t of (k, w, lw) \<Rightarrow>
     w \<noteq> slot_at s (active_kid s) \<and> (\<forall>p. w = Some p \<longrightarrow> kid_at s p \<noteq> None) \<and>
     (\<forall>r. lw = Some r \<longrightarrow> closed_at s r \<noteq> None \<and> layer_at s (active_kid s) \<noteq> Some r \<and>
        (\<forall>new. phase_layer (se_rekeyPhase s) \<noteq> Some (new, r))))"

definition phase_ok :: "Session \<Rightarrow> bool" where
  "phase_ok s \<longleftrightarrow>
     (case se_rekeyMgr s of None \<Rightarrow> se_rekeyPhase s = RekeyIdle
      | Some m \<Rightarrow> rm_inProgress m = (se_rekeyPhase s \<noteq> RekeyIdle)) \<and>
     (\<forall>old new. phase_kids (se_rekeyPhase s) = Some (old, new) \<longrightarrow> old = active_kid s \<and> new = nextKeyID old) \<and>
     (\<forall>new r. phase_layer (se_rekeyPhase s) = Some (new, r) \<longrightarrow>
        closed_at s r \<noteq> None \<and> (\<forall>k. layer_at s k = Some r \<longrightarrow> k = new) \<and>
        (\<forall>r'. layer_at s new = Some r' \<longrightarrow> r' = r) \<and>
        (\<not> se_closed s \<longrightarrow> layer_at s new = Some r \<and> closed_at s r = Some False) \<and>
        (\<forall>c. conn_layer s c = Some r \<longrightarrow> phase_conn (se_rekeyPhase s) = Some c)) \<and>
     (\<forall>c. phase_conn (se_rekeyPhase s) = Some c \<longrightarrow> se_tlsConn s \<noteq> Some c \<and>
        (\<exists>new r. phase_layer (se_rekeyPhase s) = Some (new, r) \<and> conn_layer s c = Some r))"

definition no_leak :: "Session \<Rightarrow> bool" where
  "no_leak s \<longleftrightarrow> (\<forall>r. closed_at s r = Some False \<longrightarrow> (\<exists>k. layer_at s k = Some r))"

definition shutdown_ok :: "Session \<Rightarrow> bool" where
  "shutdown_ok s \<longleftrightarrow>
     se_closed s = (se_closePhase s \<noteq> NotClosing) \<and>
     (workers_down (se_closePhase s) \<longrightarrow> wm_shutdown (se_workers s)) \<and> retired_below (se_closePhase s) \<le> 8 \<and>
     (\<forall>k r. unat k < retired_below (se_closePhase s) \<longrightarrow> layer_at s k = Some r \<longrightarrow>
        (\<exists>old. se_rekeyPhase s = RekeyInstalled old k r))"

definition session_inv :: "Session \<Rightarrow> bool" where
  "session_inv s \<longleftrightarrow> store_ok s \<and> active_ok s \<and> (\<forall>t\<in>set (se_retireTimers s). timer_ok s t) \<and>
     phase_ok s \<and> no_leak s \<and> shutdown_ok s"

text \<open>Two states that agree on all the invariant looks at.\<close>

definition same_shape :: "Session \<Rightarrow> Session \<Rightarrow> bool" where
  "same_shape s s' \<longleftrightarrow>
     se_slots s' = se_slots s \<and> se_layers s' = se_layers s \<and> se_nextRef s' = se_nextRef s \<and>
     kid_at s' = kid_at s \<and> closed_at s' = closed_at s \<and> conn_layer s' = conn_layer s \<and>
     se_rekeyMgr s' = se_rekeyMgr s \<and> se_rekeyPhase s' = se_rekeyPhase s \<and>
     se_retireTimers s' = se_retireTimers s \<and> se_tlsConn s' = se_tlsConn s \<and>
     se_closed s' = se_closed s \<and> se_closePhase s' = se_closePhase s \<and>
     wm_shutdown (se_workers s') = wm_shutdown (se_workers s)"

lemma same_shape_inv:
  assumes "same_shape s s'" and "session_inv s"
  shows "session_inv s'"
proof -
  note eqs = assms(1) [unfolded same_shape_def]
  have "store_ok s' = store_ok s" unfolding store_ok_def by (simp only: eqs)
  moreover have "active_ok s' = active_ok s" unfolding active_ok_def by (simp only: eqs)
  moreover have "timer_ok s' = timer_ok s" unfolding timer_ok_def fun_eq_iff by (simp only: eqs simp_thms)
  moreover have "phase_ok s' = phase_ok s" unfolding phase_ok_def by (simp only: eqs)
  moreover have "no_leak s' = no_leak s" unfolding no_leak_def by (simp only: eqs)
  moreover have "shutdown_ok s' = shutdown_ok s" unfolding shutdown_ok_def by (simp only: eqs)
  ultimately show ?thesis using assms(2) unfolding session_inv_def by (simp add: eqs)
qed

lemma same_shape_refl [simp]: "same_shape s s"
  by (simp add: same_shape_def)

lemma same_shape_trans: "same_shape s t \<Longrightarrow> same_shape t u \<Longrightarrow> same_shape s u"
  by (simp add: same_shape_def)

lemma same_shape_fields [simp]:
  "same_shape s (t\<lparr>se_wrapper := v_wrapper\<rparr>) = same_shape s t"
  "same_shape s (t\<lparr>se_lastInbound := v_lastInbound\<rparr>) = same_shape s t"
  "same_shape s (t\<lparr>se_lastDataInbound := v_lastDataInbound\<rparr>) = same_shape s t"
  "same_shape s (t\<lparr>se_lastUserOutbound := v_lastUserOutbound\<rparr>) = same_shape s t"
  "same_shape s (t\<lparr>se_lastDataInboundTCP := v_lastDataInboundTCP\<rparr>) = same_shape s t"
  "same_shape s (t\<lparr>se_lastDataInboundUDP := v_lastDataInboundUDP\<rparr>) = same_shape s t"
  "same_shape s (t\<lparr>se_lastUserOutboundTCP := v_lastUserOutboundTCP\<rparr>) = same_shape s t"
  "same_shape s (t\<lparr>se_lastUserOutboundUDP := v_lastUserOutboundUDP\<rparr>) = same_shape s t"
  "same_shape s (t\<lparr>se_statsForwarded := v_statsForwarded\<rparr>) = same_shape s t"
  "same_shape s (t\<lparr>se_statsDroppedFull := v_statsDroppedFull\<rparr>) = same_shape s t"
  "same_shape s (t\<lparr>se_statsPingIn := v_statsPingIn\<rparr>) = same_shape s t"
  "same_shape s (t\<lparr>se_statsOpenFailed := v_statsOpenFailed\<rparr>) = same_shape s t"
  "same_shape s (t\<lparr>se_statsStrayHandshake := v_statsStrayHandshake\<rparr>) = same_shape s t"
  "same_shape s (t\<lparr>se_statsHardResetIn := v_statsHardResetIn\<rparr>) = same_shape s t"
  "same_shape s (t\<lparr>se_statsOutboundOK := v_statsOutboundOK\<rparr>) = same_shape s t"
  "same_shape s (t\<lparr>se_statsOutboundErr := v_statsOutboundErr\<rparr>) = same_shape s t"
  "same_shape s (t\<lparr>se_lastOutboundErrNs := v_lastOutboundErrNs\<rparr>) = same_shape s t"
  "same_shape s (t\<lparr>se_ingressCh := v_ingressCh\<rparr>) = same_shape s t"
  "same_shape s (t\<lparr>se_handler := v_handler\<rparr>) = same_shape s t"
  "same_shape s (t\<lparr>se_handled := v_handled\<rparr>) = same_shape s t"
  "same_shape s (t\<lparr>se_closing := v_closing\<rparr>) = same_shape s t"
  "same_shape s (t\<lparr>se_closeErr := v_closeErr\<rparr>) = same_shape s t"
  "same_shape s (t\<lparr>se_wire := v_wire\<rparr>) = same_shape s t"
  "same_shape s (t\<lparr>se_transportClosed := v_transportClosed\<rparr>) = same_shape s t"
  by (simp_all add: same_shape_def)

lemma same_shape_put_slot [simp]: "kid_at t p = Some (sl_KeyID x) \<Longrightarrow> same_shape s (put_slot p x t) = same_shape s t"
  by (simp add: same_shape_def fun_upd_idem)

lemma same_shape_put_layer [simp]: "closed_at t r = Some (ly_closed x) \<Longrightarrow> same_shape s (put_layer r x t) = same_shape s t"
  by (simp add: same_shape_def fun_upd_idem)

lemma same_shape_put_conn [simp]: "conn_layer t c = Some (tc_layer x) \<Longrightarrow> same_shape s (put_conn c x t) = same_shape s t"
  by (simp add: same_shape_def fun_upd_idem)

lemma same_shape_Go [simp]: "same_shape s (snd (workers_Go w t)) = same_shape s t"
  by (simp add: same_shape_def workers_Go_def Manager_Go_def)

lemma same_shape_setCloseErr [simp]: "same_shape s (setCloseErr e t) = same_shape s t"
  by (simp add: setCloseErr_def split: option.splits)

lemma same_shape_closeAsync [simp]: "same_shape s (closeAsync why t) = same_shape s t"
  by (simp add: closeAsync_def)

section \<open>Traffic does not disturb the shape\<close>

lemma OpenInto_KeyID: "sl_KeyID (snd (OpenInto s dst p)) = sl_KeyID s"
  by (auto simp: OpenInto_def Let_def split: sum.splits prod.splits)

lemma Seal_KeyID: "sl_KeyID (snd (Seal stale s p)) = sl_KeyID s"
  by (simp add: Seal_def Let_def)

lemma kid_at_SomeD: "kid_at s p = Some k \<Longrightarrow> \<exists>x. se_slotAt s p = Some x \<and> sl_KeyID x = k"
  by (auto simp: kid_at_def)

lemma closed_at_SomeD: "closed_at s r = Some b \<Longrightarrow> \<exists>l. se_layerAt s r = Some l \<and> ly_closed l = b"
  by (auto simp: closed_at_def)

lemma handleDataIn_shape: "store_ok s \<Longrightarrow> same_shape s (handleDataIn now pkt kid s)"
proof -
  assume "store_ok s"
  show ?thesis
  proof (cases "slot_at s kid")
    case None
    then show ?thesis by (simp add: handleDataIn_def)
  next
    case (Some p)
    then have "kid_at s p = Some kid" using \<open>store_ok s\<close> by (simp add: store_ok_def)
    then obtain x where x: "se_slotAt s p = Some x" using kid_at_SomeD by blast
    obtain res x' where o: "OpenInto x [] pkt = (res, x')" by (cases "OpenInto x [] pkt")
    then have "kid_at s p = Some (sl_KeyID x')" using x OpenInto_KeyID [of x "[]" pkt] by (simp add: kid_at_def)
    then show ?thesis using Some x o by (cases res) (simp_all add: handleDataIn_def Let_def)
  qed
qed

lemma closed_at_layer: "layer_at s k = Some r \<Longrightarrow> store_ok s \<Longrightarrow> \<exists>l. se_layerAt s r = Some l"
  by (auto simp: store_ok_def closed_at_def)

lemma put_layer_op_shape:
  "closed_at s r \<noteq> None \<Longrightarrow> ly_closed l = ly_closed (layer_of s r) \<Longrightarrow> same_shape s (put_layer r l s)"
  by (auto simp: closed_at_def)

lemma handleControlIn_shape: "store_ok s \<Longrightarrow> same_shape s (handleControlIn h now pkt opc kid s)"
proof -
  assume ok: "store_ok s"
  show ?thesis
  proof (cases "layer_at s kid")
    case None
    then show ?thesis by (simp add: handleControlIn_def)
  next
    case (Some r)
    then obtain l where l: "se_layerAt s r = Some l" using closed_at_layer ok by blast
    then have c: "closed_at s r = Some (ly_closed (snd (HandleInbound now pk l)))" for pk
      by (simp add: closed_at_def)
    obtain res w where u: "wrapper_Unwrap h (se_wrapper s) pkt = (res, w)"
      by (cases "wrapper_Unwrap h (se_wrapper s) pkt")
    show ?thesis
      using Some l c u by (cases res) (auto simp: handleControlIn_def Let_def split: sum.splits)
  qed
qed

lemma readLoop_turn_shape: "store_ok s \<Longrightarrow> same_shape s (snd (readLoop_turn h now got s))"
  using handleDataIn_shape handleControlIn_shape
  by (auto simp: readLoop_turn_def split: sum.splits prod.splits)

lemma writeLoop_turn_shape: "closed_at s r \<noteq> None \<Longrightarrow> same_shape s (snd (writeLoop_turn h nt now outcome r s))"
proof -
  assume r: "closed_at s r \<noteq> None"
  obtain out l where t: "take_outbound (layer_of s r) = (out, l)" by (cases "take_outbound (layer_of s r)")
  have "same_shape s (put_layer r l s)"
    using put_layer_op_shape [OF r, of l] take_outbound_closed [of "layer_of s r"] t by simp
  then show ?thesis
    using t by (cases out) (auto simp: writeLoop_turn_def Let_def split: sum.splits prod.splits option.splits)
qed

lemma tickLoop_turn_shape: "closed_at s r \<noteq> None \<Longrightarrow> same_shape s (snd (tickLoop_turn now order r s))"
proof -
  assume r: "closed_at s r \<noteq> None"
  obtain e l where t: "Tick now order (layer_of s r) = (e, l)" by (cases "Tick now order (layer_of s r)")
  have "same_shape s (put_layer r l s)"
    using put_layer_op_shape [OF r, of l] Tick_closed [of now order "layer_of s r"] t by simp
  then show ?thesis
    using t by (cases e) (auto simp: tickLoop_turn_def Let_def split: option.splits)
qed

lemma seal_shape: "kid_at s p \<noteq> None \<Longrightarrow> same_shape s (put_slot p (snd (Seal stale (slot_of s p) pt)) s)"
  by (auto simp: kid_at_def Seal_KeyID)

lemma write_wire_shape: "same_shape s (snd (write_wire now outcome p wire s))"
  by (simp add: write_wire_def Let_def split: option.splits)

lemma message_shape: "same_shape s (snd (controlChannelReader_msg msg s))"
  by (simp add: controlChannelReader_msg_def Let_def)

lemma RequestRestart_shape: "same_shape s (RequestRestart why s)"
  by (simp add: RequestRestart_def Let_def)

lemma ReadCtx_shape: "ReadCtx branch done n s = Some (res, s') \<Longrightarrow> same_shape s s'"
  by (auto simp: ReadCtx_def Let_def split: read_branch.splits list.splits if_splits)

section \<open>Interleaved runs\<close>

inductive session_step :: "Session \<Rightarrow> Session \<Rightarrow> bool" where
  \<comment> \<open>the rekey that holds the guard\<close>
  enter: "rekey_enter s = (None, s') \<Longrightarrow> session_step s s'"
| install: "se_rekeyPhase s = RekeyEntered old new \<Longrightarrow> session_step s (rekey_install old new s)"
| pumps: "se_rekeyPhase s = RekeyInstalled old new r \<Longrightarrow> session_step s (snd (rekey_pumps old new r s))"
| send: "se_rekeyPhase s = RekeyPumping old new r \<Longrightarrow> session_step s (snd (rekey_send now old new r s))"
| finish: "se_rekeyPhase s = RekeyHandshaking old new r c \<Longrightarrow> session_step s (snd (rekey_finish env old new r c s))"
  \<comment> \<open>a retirement timer runs out, or ends with the session\<close>
| timer: "(k, w, lw) \<in> set (se_retireTimers s) \<Longrightarrow>
    session_step s (retireAfter k w lw (s\<lparr>se_retireTimers := remove1 (k, w, lw) (se_retireTimers s)\<rparr>))"
| timer_dropped: "ctx_done s \<Longrightarrow> session_step s (s\<lparr>se_retireTimers := remove1 t (se_retireTimers s)\<rparr>)"
  \<comment> \<open>closing, one atomic piece at a time\<close>
| close_enter: "\<not> se_closed s \<Longrightarrow> session_step s (Session_Close_enter written s)"
| close_workers: "se_closePhase s = CloseEntered \<Longrightarrow> session_step s (shutdown_workers s)"
| close_kid: "se_closePhase s = ShutdownFrom n \<Longrightarrow> n < 8 \<Longrightarrow> session_step s (shutdown_kid n s)"
| close_conn: "se_closePhase s = ShutdownFrom 8 \<Longrightarrow> session_step s (shutdown_conn s)"
  \<comment> \<open>traffic\<close>
| read_turn: "session_step s (snd (readLoop_turn h now got s))"
| write_turn: "closed_at s r \<noteq> None \<Longrightarrow> session_step s (snd (writeLoop_turn h nt now outcome r s))"
| tick_turn: "closed_at s r \<noteq> None \<Longrightarrow> session_step s (snd (tickLoop_turn now order r s))"
| tls_io: "closed_at s r \<noteq> None \<Longrightarrow> ev \<noteq> OpClose \<Longrightarrow> session_step s (put_layer r (layer_step ev (layer_of s r)) s)"
| seal: "kid_at s p \<noteq> None \<Longrightarrow> session_step s (put_slot p (snd (Seal stale (slot_of s p) pt)) s)"
| sent: "session_step s (snd (write_wire now outcome pt wire s))"
| message: "session_step s (snd (controlChannelReader_msg msg s))"
| restart: "session_step s (RequestRestart why s)"
| read_call: "ReadCtx branch done n s = Some (res, s') \<Longrightarrow> session_step s s'"
| handler: "session_step s (SetIngressHandler h' s)"

inductive_cases session_stepE: "session_step s s'"

section \<open>What closing does to the views\<close>

definition mark_closed :: "ref option \<Rightarrow> (ref \<Rightarrow> bool option) \<Rightarrow> ref \<Rightarrow> bool option" where
  "mark_closed d f r = (if d = Some r then Some True else f r)"

lemma mark_closed_simps [simp]:
  "mark_closed None f = f" "mark_closed (Some d) f r = (if r = d then Some True else f r)"
  by (auto simp: mark_closed_def)

lemma mark_closed_iff: "mark_closed d f r = Some False \<longleftrightarrow> d \<noteq> Some r \<and> f r = Some False"
  "mark_closed d f r = None \<longleftrightarrow> d \<noteq> Some r \<and> f r = None"
  by (auto simp: mark_closed_def)

lemma close_layer_frame [simp]:
  "se_slots (close_layer r s) = se_slots s"
  "se_nextRef (close_layer r s) = se_nextRef s"
  "se_rekeyMgr (close_layer r s) = se_rekeyMgr s"
  "se_rekeyPhase (close_layer r s) = se_rekeyPhase s"
  "se_retireTimers (close_layer r s) = se_retireTimers s"
  "se_tlsConn (close_layer r s) = se_tlsConn s"
  "se_closed (close_layer r s) = se_closed s"
  "se_closePhase (close_layer r s) = se_closePhase s"
  "se_workers (close_layer r s) = se_workers s"
  "se_slotAt (close_layer r s) = se_slotAt s"
  "se_cipher (close_layer r s) = se_cipher s"
  "se_peerID (close_layer r s) = se_peerID s"
  "se_cfg (close_layer r s) = se_cfg s"
  "se_layers (close_layer r s) = se_layers s"
  "conn_layer (close_layer r s) = conn_layer s"
  "kid_at (close_layer r s) = kid_at s"
  "closed_at (close_layer r s) = mark_closed (Some r) (closed_at s)"
  by (simp_all add: close_layer_def fun_eq_iff)

lemma close_conn_frame [simp]:
  "se_slots (close_conn c s) = se_slots s"
  "se_nextRef (close_conn c s) = se_nextRef s"
  "se_rekeyMgr (close_conn c s) = se_rekeyMgr s"
  "se_rekeyPhase (close_conn c s) = se_rekeyPhase s"
  "se_retireTimers (close_conn c s) = se_retireTimers s"
  "se_tlsConn (close_conn c s) = se_tlsConn s"
  "se_closed (close_conn c s) = se_closed s"
  "se_closePhase (close_conn c s) = se_closePhase s"
  "se_workers (close_conn c s) = se_workers s"
  "se_slotAt (close_conn c s) = se_slotAt s"
  "se_cipher (close_conn c s) = se_cipher s"
  "se_peerID (close_conn c s) = se_peerID s"
  "se_cfg (close_conn c s) = se_cfg s"
  "se_layers (close_conn c s) = se_layers s"
  "kid_at (close_conn c s) = kid_at s"
  by (simp_all add: close_conn_def Let_def)

lemma close_conn_views [simp]:
  "conn_layer s c \<noteq> None \<Longrightarrow> conn_layer (close_conn c s) = conn_layer s"
  "conn_layer s c \<noteq> None \<Longrightarrow> closed_at (close_conn c s) = mark_closed (conn_layer s c) (closed_at s)"
  by (auto simp: close_conn_def Let_def conn_layer_def fun_eq_iff mark_closed_def)

lemma retireLayer_frame [simp]:
  "se_slots (retireLayer k s) = se_slots s"
  "se_nextRef (retireLayer k s) = se_nextRef s"
  "se_rekeyMgr (retireLayer k s) = se_rekeyMgr s"
  "se_rekeyPhase (retireLayer k s) = se_rekeyPhase s"
  "se_retireTimers (retireLayer k s) = se_retireTimers s"
  "se_tlsConn (retireLayer k s) = se_tlsConn s"
  "se_closed (retireLayer k s) = se_closed s"
  "se_closePhase (retireLayer k s) = se_closePhase s"
  "se_workers (retireLayer k s) = se_workers s"
  "se_slotAt (retireLayer k s) = se_slotAt s"
  "se_cipher (retireLayer k s) = se_cipher s"
  "se_peerID (retireLayer k s) = se_peerID s"
  "se_cfg (retireLayer k s) = se_cfg s"
  "conn_layer (retireLayer k s) = conn_layer s"
  "kid_at (retireLayer k s) = kid_at s"
  by (auto simp: retireLayer_def split: prod.splits option.splits)

lemma retireLayer_views [simp]:
  "layer_at (retireLayer k s) k' = (if k' = k then None else layer_at s k')"
  "closed_at (retireLayer k s) = mark_closed (layer_at s k) (closed_at s)"
proof -
  obtain d t where r: "layers_Retire (se_layers s) k = (d, t)" by (cases "layers_Retire (se_layers s) k")
  then have "d = layer_at s k" "layers_Get t k' = (if k' = k then None else layer_at s k')"
    using layers_Retire_fst [of "se_layers s" k] layer_table.get_retire [of "se_layers s" k k'] by simp_all
  then show "layer_at (retireLayer k s) k' = (if k' = k then None else layer_at s k')"
    "closed_at (retireLayer k s) = mark_closed (layer_at s k) (closed_at s)"
    using r by (auto simp: retireLayer_def split: option.splits)
qed

lemma retireLayerIf_frame [simp]:
  "se_slots (retireLayerIf k w s) = se_slots s"
  "se_nextRef (retireLayerIf k w s) = se_nextRef s"
  "se_rekeyMgr (retireLayerIf k w s) = se_rekeyMgr s"
  "se_rekeyPhase (retireLayerIf k w s) = se_rekeyPhase s"
  "se_retireTimers (retireLayerIf k w s) = se_retireTimers s"
  "se_tlsConn (retireLayerIf k w s) = se_tlsConn s"
  "se_closed (retireLayerIf k w s) = se_closed s"
  "se_closePhase (retireLayerIf k w s) = se_closePhase s"
  "se_workers (retireLayerIf k w s) = se_workers s"
  "se_slotAt (retireLayerIf k w s) = se_slotAt s"
  "se_cipher (retireLayerIf k w s) = se_cipher s"
  "se_peerID (retireLayerIf k w s) = se_peerID s"
  "se_cfg (retireLayerIf k w s) = se_cfg s"
  "conn_layer (retireLayerIf k w s) = conn_layer s"
  "kid_at (retireLayerIf k w s) = kid_at s"
  by (auto simp: retireLayerIf_def split: prod.splits option.splits)

lemma retireLayerIf_views [simp]:
  "layer_at (retireLayerIf k w s) k' = (if k' = k \<and> layer_at s k = w then None else layer_at s k')"
  "closed_at (retireLayerIf k w s) = (if layer_at s k = w then mark_closed w (closed_at s) else closed_at s)"
proof -
  obtain d t where r: "layers_RetireIf (se_layers s) k w = (d, t)" by (cases "layers_RetireIf (se_layers s) k w")
  then have "d = (if layer_at s k = w then w else None)"
    "layers_Get t k' = (if k' = k \<and> layer_at s k = w then None else layer_at s k')"
    using layers_RetireIf_fst [of "se_layers s" k w] layer_table.get_retire_if [of "se_layers s" k w k'] by simp_all
  then show "layer_at (retireLayerIf k w s) k' = (if k' = k \<and> layer_at s k = w then None else layer_at s k')"
    "closed_at (retireLayerIf k w s) = (if layer_at s k = w then mark_closed w (closed_at s) else closed_at s)"
    using r by (auto simp: retireLayerIf_def split: option.splits)
qed

section \<open>The invariant is kept\<close>

lemmas inv_defs = session_inv_def store_ok_def active_ok_def phase_ok_def no_leak_def shutdown_ok_def

lemma enter_inv:
  assumes inv: "session_inv s" and enter: "rekey_enter s = (None, s')"
  shows "session_inv s'"
proof -
  obtain m where m: "se_rekeyMgr s = Some m" "\<not> rm_inProgress m" and
    s': "s' = s\<lparr>se_rekeyMgr := Some (m\<lparr>rm_inProgress := True\<rparr>),
      se_rekeyPhase := RekeyEntered (active_kid s) (nextKeyID (active_kid s))\<rparr>"
    using enter by (auto simp: rekey_enter_def Let_def split: if_splits option.splits)
  then have idle: "se_rekeyPhase s = RekeyIdle" using inv by (simp add: session_inv_def phase_ok_def)
  have "store_ok s'" "active_ok s'" "no_leak s'" "shutdown_ok s'"
    using inv idle by (simp_all add: inv_defs s')
  moreover have "timer_ok s' t" if "timer_ok s t" for t
    using that idle by (auto simp: timer_ok_def s')
  moreover have "phase_ok s'" by (simp add: phase_ok_def s')
  ultimately show ?thesis using inv by (simp add: session_inv_def s')
qed

lemma new_layer_open [simp]: "\<not> ly_closed (rekey_new_layer old new s)"
  by (auto simp: rekey_new_layer_def New_def RemoteSessionID_def SetRemoteSessionID_def Let_def split: option.splits)

lemma rekey_install_frame [simp]:
  "se_slots (rekey_install old new s) = se_slots s"
  "se_rekeyMgr (rekey_install old new s) = se_rekeyMgr s"
  "se_retireTimers (rekey_install old new s) = se_retireTimers s"
  "se_tlsConn (rekey_install old new s) = se_tlsConn s"
  "se_closed (rekey_install old new s) = se_closed s"
  "se_closePhase (rekey_install old new s) = se_closePhase s"
  "se_workers (rekey_install old new s) = se_workers s"
  "se_slotAt (rekey_install old new s) = se_slotAt s"
  "se_cipher (rekey_install old new s) = se_cipher s"
  "se_peerID (rekey_install old new s) = se_peerID s"
  "se_cfg (rekey_install old new s) = se_cfg s"
  "kid_at (rekey_install old new s) = kid_at s" "conn_layer (rekey_install old new s) = conn_layer s"
  "se_nextRef (rekey_install old new s) = Suc (se_nextRef s)"
  "se_rekeyPhase (rekey_install old new s) = RekeyInstalled old new (se_nextRef s)"
  by (auto simp: rekey_install_def Let_def split: prod.splits option.splits)

lemma rekey_install_views:
  assumes "layer_at s new \<noteq> Some (se_nextRef s)"
  shows "layer_at (rekey_install old new s) k = (if k = new then Some (se_nextRef s) else layer_at s k)"
    "closed_at (rekey_install old new s) = mark_closed (layer_at s new) ((closed_at s)(se_nextRef s := Some False))"
proof -
  define s1 where "s1 = put_layer (se_nextRef s) (rekey_new_layer old new s) (s\<lparr>se_nextRef := se_nextRef s + 1\<rparr>)"
  obtain d t where i: "layers_Install (se_layers s) new (se_nextRef s) = (d, t)"
    by (cases "layers_Install (se_layers s) new (se_nextRef s)")
  have "d = layer_at s new" "layers_Get t k = (if k = new then Some (se_nextRef s) else layer_at s k)"
    using assms i layers_Install_displaced [of "se_layers s" new "se_nextRef s"]
      layer_table.get_install [of "se_layers s" new "se_nextRef s" k] by simp_all
  moreover have "rekey_install old new s =
      (let s2 = s1\<lparr>se_layers := t, se_rekeyPhase := RekeyInstalled old new (se_nextRef s)\<rparr>
       in case d of None \<Rightarrow> s2 | Some x \<Rightarrow> close_layer x s2)"
    using i by (simp add: rekey_install_def s1_def Let_def)
  ultimately show "layer_at (rekey_install old new s) k = (if k = new then Some (se_nextRef s) else layer_at s k)"
    "closed_at (rekey_install old new s) = mark_closed (layer_at s new) ((closed_at s)(se_nextRef s := Some False))"
    by (auto simp: s1_def Let_def split: option.splits)
qed

lemma other_layer: "store_ok s \<Longrightarrow> k \<noteq> k' \<Longrightarrow> layer_at s k' = Some x \<Longrightarrow> layer_at s k \<noteq> Some x"
  unfolding store_ok_def by metis

lemma install_inv:
  assumes inv: "session_inv s" and ph: "se_rekeyPhase s = RekeyEntered old new"
  shows "session_inv (rekey_install old new s)"
proof -
  let ?s = "rekey_install old new s" and ?r = "se_nextRef s"
  have store: "store_ok s" and act: "active_ok s" and sh: "shutdown_ok s" and leak: "no_leak s"
    and tim: "\<forall>t\<in>set (se_retireTimers s). timer_ok s t" and po: "phase_ok s"
    using inv by (simp_all add: session_inv_def)
  have kids: "old = active_kid s" "new = nextKeyID old" using po ph by (simp_all add: phase_ok_def)
  then have ne: "new \<noteq> active_kid s" and new8: "unat new < 8"
    using act nextKeyID_ne nextKeyID_range by (auto simp: active_ok_def)
  have fresh: "closed_at s ?r = None" "kid_at s ?r = None" "\<And>c. conn_layer s c \<noteq> Some ?r" "\<And>k. layer_at s k \<noteq> Some ?r"
    using store unfolding store_ok_def by (blast, blast, metis le_refl, metis le_refl)
  have lt: "\<And>k x. layer_at s k = Some x \<Longrightarrow> x < ?r"
    using store unfolding store_ok_def by (metis not_less)
  note v = rekey_install_views [OF fresh(4)]
  have "store_ok ?s"
    using store fresh new8 lt [of new] unfolding store_ok_def v by (auto simp: mark_closed_def split: if_splits)
  moreover have "\<exists>r. layer_at s (active_kid s) = Some r \<and> r \<noteq> ?r \<and> layer_at s new \<noteq> Some r \<and> closed_at s r = Some False \<and>
      (\<forall>c. se_tlsConn s = Some c \<longrightarrow> conn_layer s c = Some r)" if "\<not> se_closed s"
    using act that fresh(4) other_layer [OF store ne] unfolding active_ok_def by metis
  then have "active_ok ?s"
    using act ne unfolding active_ok_def v by (auto simp: mark_closed_def)
  moreover have "timer_ok ?s t" if "timer_ok s t" for t
    using that ne fresh ph unfolding timer_ok_def v by (auto simp: mark_closed_def split: prod.splits)
  moreover have "phase_ok ?s"
    using po ph kids fresh unfolding phase_ok_def v by (auto simp: mark_closed_def split: option.splits)
  moreover have "\<exists>k. k \<noteq> new \<and> layer_at s k = Some x" if "closed_at s x = Some False" "layer_at s new \<noteq> Some x" for x
    using that leak unfolding no_leak_def by metis
  then have "no_leak ?s"
    unfolding no_leak_def v by (auto simp: mark_closed_def)
  moreover have "shutdown_ok ?s"
    using sh ph unfolding shutdown_ok_def v by auto
  ultimately show ?thesis using tim by (simp add: session_inv_def)
qed

lemma startLayerPumps_frame [simp]:
  "se_slots (snd (startLayerPumps r s)) = se_slots s"
  "se_rekeyMgr (snd (startLayerPumps r s)) = se_rekeyMgr s"
  "se_retireTimers (snd (startLayerPumps r s)) = se_retireTimers s"
  "se_tlsConn (snd (startLayerPumps r s)) = se_tlsConn s"
  "se_closed (snd (startLayerPumps r s)) = se_closed s"
  "se_closePhase (snd (startLayerPumps r s)) = se_closePhase s"
  "se_slotAt (snd (startLayerPumps r s)) = se_slotAt s"
  "se_layers (snd (startLayerPumps r s)) = se_layers s"
  "se_layerAt (snd (startLayerPumps r s)) = se_layerAt s"
  "se_connAt (snd (startLayerPumps r s)) = se_connAt s"
  "se_nextRef (snd (startLayerPumps r s)) = se_nextRef s"
  "se_rekeyPhase (snd (startLayerPumps r s)) = se_rekeyPhase s"
  "se_cipher (snd (startLayerPumps r s)) = se_cipher s"
  "se_peerID (snd (startLayerPumps r s)) = se_peerID s"
  "se_cfg (snd (startLayerPumps r s)) = se_cfg s"
  "wm_shutdown (se_workers (snd (startLayerPumps r s))) = wm_shutdown (se_workers s)"
  by (simp_all add: startLayerPumps_def workers_Go_def Manager_Go_def)

lemma startLayerPumps_views [simp]:
  "kid_at (snd (startLayerPumps r s)) = kid_at s" "closed_at (snd (startLayerPumps r s)) = closed_at s"
  "conn_layer (snd (startLayerPumps r s)) = conn_layer s"
  by (simp_all add: kid_at_def closed_at_def conn_layer_def fun_eq_iff)

lemma startLayerPumps_fst: "fst (startLayerPumps r s) \<longleftrightarrow> \<not> wm_shutdown (se_workers s)"
  by (simp add: startLayerPumps_def workers_Go_def Manager_Go_def)

text \<open>Giving up a rekey: its layer is retired (or already was), and the guard is released.\<close>

lemma rekey_release_frame [simp]:
  "se_slots (rekey_release s) = se_slots s" "se_layers (rekey_release s) = se_layers s"
  "se_retireTimers (rekey_release s) = se_retireTimers s" "se_tlsConn (rekey_release s) = se_tlsConn s"
  "se_closed (rekey_release s) = se_closed s" "se_closePhase (rekey_release s) = se_closePhase s"
  "se_workers (rekey_release s) = se_workers s" "se_nextRef (rekey_release s) = se_nextRef s"
  "kid_at (rekey_release s) = kid_at s" "closed_at (rekey_release s) = closed_at s"
  "conn_layer (rekey_release s) = conn_layer s" "se_rekeyPhase (rekey_release s) = RekeyIdle"
  by (simp_all add: rekey_release_def)

lemma release_inv:
  assumes "store_ok s" and "active_ok s" and "\<forall>t\<in>set (se_retireTimers s). timer_ok s t" and "no_leak s"
    and "shutdown_ok s" and "\<And>old k r. se_rekeyPhase s = RekeyInstalled old k r \<Longrightarrow> layer_at s k = None"
  shows "session_inv (rekey_release s)"
proof -
  have "phase_ok (rekey_release s)"
    by (simp add: phase_ok_def rekey_release_def split: option.splits)
  moreover have "layer_at s k = None" if "unat k < retired_below (se_closePhase s)" for k
    using that assms(5,6) unfolding shutdown_ok_def by (metis not_None_eq)
  then have "shutdown_ok (rekey_release s)"
    using assms(5) unfolding shutdown_ok_def by simp
  moreover have "timer_ok (rekey_release s) t" if "timer_ok s t" for t
    using that by (auto simp: timer_ok_def)
  ultimately show ?thesis using assms(1-4) by (simp add: session_inv_def store_ok_def active_ok_def no_leak_def)
qed

lemma store_retire: "store_ok s \<Longrightarrow> store_ok (retireLayer k s)"
proof -
  assume store: "store_ok s"
  have "closed_at s r = None \<Longrightarrow> layer_at s k \<noteq> Some r" for r
    using store unfolding store_ok_def by blast
  then have "mark_closed (layer_at s k) (closed_at s) r = None \<longleftrightarrow> closed_at s r = None" for r
    by (auto simp: mark_closed_iff)
  then show ?thesis using store unfolding store_ok_def by simp
qed

lemma timer_retire: "timer_ok s t \<Longrightarrow> timer_ok (retireLayer k s) t"
  unfolding timer_ok_def by (auto simp: mark_closed_def split: prod.splits)

lemma abandon_parts:
  assumes "store_ok s" and "active_ok s" and "\<forall>t\<in>set (se_retireTimers s). timer_ok s t" and "no_leak s"
    and "shutdown_ok s" and "new \<noteq> active_kid s"
    and "\<And>old k r. se_rekeyPhase s = RekeyInstalled old k r \<Longrightarrow> k = new"
  shows "session_inv (rekey_release (retireLayer new s))"
proof (rule release_inv)
  let ?s = "retireLayer new s"
  show "store_ok ?s" by (rule store_retire [OF assms(1)])
  show "active_ok ?s"
    using assms(2,6) other_layer [OF assms(1,6)] unfolding active_ok_def by (auto simp: mark_closed_def)
  show "\<forall>t\<in>set (se_retireTimers ?s). timer_ok ?s t" using assms(3) timer_retire by simp
  show "no_leak ?s" using assms(4) unfolding no_leak_def by (auto simp: mark_closed_iff)
  show "shutdown_ok ?s" using assms(5) unfolding shutdown_ok_def by auto
  show "layer_at ?s k = None" if "se_rekeyPhase ?s = RekeyInstalled old k r" for old k r
    using that assms(7) by auto
qed

lemma phase_kids_ne:
  assumes "session_inv s" and "phase_kids (se_rekeyPhase s) = Some (old, new)"
  shows "new \<noteq> active_kid s" and "unat new < 8" and "old = active_kid s"
  using assms nextKeyID_ne nextKeyID_range(2) by (auto simp: session_inv_def phase_ok_def active_ok_def)

lemma abandon_inv:
  assumes inv: "session_inv s" and ph: "phase_layer (se_rekeyPhase s) = Some (new, r)"
    and old: "phase_kids (se_rekeyPhase s) = Some (old, new)"
  shows "session_inv (rekey_release (retireLayer new s))"
  using inv ph phase_kids_ne(1) [OF inv old] by (intro abandon_parts) (auto simp: session_inv_def)

lemma pumps_inv:
  assumes inv: "session_inv s" and ph: "se_rekeyPhase s = RekeyInstalled old new r"
  shows "session_inv (snd (rekey_pumps old new r s))"
proof (cases "wm_shutdown (se_workers s)")
  case False
  let ?s = "(snd (startLayerPumps r s))\<lparr>se_rekeyPhase := RekeyPumping old new r\<rparr>"
  have "store_ok ?s" "active_ok ?s" "no_leak ?s"
    using inv by (simp_all add: inv_defs)
  moreover have "phase_ok ?s"
    using inv ph by (cases "se_rekeyMgr s") (auto simp: session_inv_def phase_ok_def)
  moreover have "timer_ok ?s t" if "timer_ok s t" for t
    using that ph by (simp add: timer_ok_def)
  moreover have "retired_below (se_closePhase s) = 0"
    using inv False by (cases "se_closePhase s") (simp_all add: session_inv_def shutdown_ok_def)
  then have "shutdown_ok ?s"
    using inv by (simp add: session_inv_def shutdown_ok_def)
  ultimately have "session_inv ?s"
    using inv by (simp add: session_inv_def)
  then show ?thesis using False
    by (simp add: rekey_pumps_def case_prod_beta startLayerPumps_fst)
next
  case True
  let ?s = "snd (startLayerPumps r s)"
  have same: "same_shape s ?s" by (simp add: same_shape_def)
  then have inv': "session_inv ?s" using inv same_shape_inv by blast
  have "layer_at ?s new = Some r \<or> layer_at ?s new = None"
    using inv ph unfolding session_inv_def phase_ok_def by (cases "layer_at s new") auto
  then have "session_inv (rekey_release (retireLayerIf new (Some r) ?s))"
  proof
    assume "layer_at ?s new = Some r"
    then have "retireLayerIf new (Some r) ?s = retireLayer new ?s"
      by (auto simp: retireLayerIf_def retireLayer_def layers_RetireIf_def layers_Retire_def layers_Get_def)
    then show ?thesis using abandon_inv [OF inv', of new r] ph by simp
  next
    assume none: "layer_at ?s new = None"
    then have "retireLayerIf new (Some r) ?s = ?s"
      by (simp add: retireLayerIf_def layers_RetireIf_def layers_Get_def)
    then show ?thesis using release_inv [of ?s] inv' none ph by (auto simp: session_inv_def)
  qed
  then show ?thesis using True by (simp add: rekey_pumps_def case_prod_beta startLayerPumps_fst)
qed

lemma send_inv:
  assumes inv: "session_inv s" and ph: "se_rekeyPhase s = RekeyPumping old new r"
  shows "session_inv (snd (rekey_send now old new r s))"
proof -
  have r: "closed_at s r \<noteq> None" using inv ph by (simp add: session_inv_def phase_ok_def)
  obtain e l where t: "SendHardReset now PControlSoftResetV1 (layer_of s r) = (e, l)"
    by (cases "SendHardReset now PControlSoftResetV1 (layer_of s r)")
  have same: "same_shape s (put_layer r l s)"
    using put_layer_op_shape [OF r, of l] SendHardReset_closed [of now PControlSoftResetV1 "layer_of s r"] t by simp
  then have inv': "session_inv (put_layer r l s)" using inv same_shape_inv by blast
  show ?thesis
  proof (cases e)
    case (Some err)
    then show ?thesis using abandon_inv [OF inv', of new r] t ph by (simp add: rekey_send_def)
  next
    case None
    define s1 where "s1 = put_layer r l s"
    let ?c = "se_nextRef s1"
    define s2 where "s2 = (put_conn ?c \<lparr>tc_layer = r, tc_closed = False, tc_sent = []\<rparr>
        (s1\<lparr>se_nextRef := ?c + 1\<rparr>))\<lparr>se_rekeyPhase := RekeyHandshaking old new r ?c\<rparr>"
    have inv1: "session_inv s1" and ph1: "se_rekeyPhase s1 = RekeyPumping old new r"
      using inv' ph by (simp_all add: s1_def)
    have fresh: "kid_at s1 ?c = None" "closed_at s1 ?c = None" "conn_layer s1 ?c = None"
      using inv1 by (simp_all add: session_inv_def store_ok_def)
    have r1: "closed_at s1 r \<noteq> None" using inv1 ph1 by (simp add: session_inv_def phase_ok_def)
    have "store_ok s2" using inv1 r1 by (auto simp: session_inv_def store_ok_def s2_def split: if_splits)
    moreover have "active_ok s2" using inv1 fresh by (auto simp: session_inv_def active_ok_def s2_def)
    moreover have "timer_ok s2 t" if "timer_ok s1 t" for t
      using that ph1 by (simp add: timer_ok_def s2_def)
    moreover have "se_tlsConn s1 \<noteq> Some ?c"
      using inv1 fresh by (auto simp: session_inv_def active_ok_def)
    then have "phase_ok s2"
      using inv1 ph1 by (cases "se_rekeyMgr s1") (auto simp: session_inv_def phase_ok_def s2_def split: if_splits)
    moreover have "no_leak s2" using inv1 by (simp add: session_inv_def no_leak_def s2_def)
    moreover have "shutdown_ok s2" using inv1 ph1 by (simp add: session_inv_def shutdown_ok_def s2_def)
    ultimately have "session_inv s2" using inv1 by (simp add: session_inv_def s2_def)
    then show ?thesis using None t by (simp add: rekey_send_def s2_def s1_def Let_def)
  qed
qed

lemma rekey_exchange_kid: "rekey_exchange env new s = Inr sl \<Longrightarrow> sl_KeyID sl = new"
  by (auto simp: rekey_exchange_def rekey_slot_def NewSlot_def rbind_eq_Inr map_sum_def
      split: if_splits option.splits sum.splits)

lemma mark_closed_same: "f r \<noteq> None \<Longrightarrow> (mark_closed (Some r) f x = None) = (f x = None)"
  by auto

lemma close_phase_conn:
  assumes inv: "session_inv s" and ph: "se_rekeyPhase s = RekeyHandshaking old new r c"
  shows "store_ok (close_conn c s)" "active_ok (close_conn c s)" "no_leak (close_conn c s)"
    "shutdown_ok (close_conn c s)" "timer_ok s t \<Longrightarrow> timer_ok (close_conn c s) t"
proof -
  have r: "closed_at s r \<noteq> None" "conn_layer s c = Some r" "\<And>k. layer_at s k = Some r \<Longrightarrow> k = new"
    using inv ph by (auto simp: session_inv_def phase_ok_def)
  have ne: "new \<noteq> active_kid s" using phase_kids_ne(1) [OF inv] ph by simp
  have v: "closed_at (close_conn c s) = mark_closed (Some r) (closed_at s)" "conn_layer (close_conn c s) = conn_layer s"
    using r(2) by simp_all
  show "store_ok (close_conn c s)"
    using inv r(1) unfolding session_inv_def store_ok_def v by (auto simp: mark_closed_same)
  have "layer_at s (active_kid s) \<noteq> Some r" using r(3) ne by blast
  then show "active_ok (close_conn c s)"
    using inv unfolding session_inv_def active_ok_def v by auto
  show "no_leak (close_conn c s)" using inv unfolding session_inv_def no_leak_def v by auto
  show "shutdown_ok (close_conn c s)" using inv by (simp add: session_inv_def shutdown_ok_def)
  show "timer_ok (close_conn c s) t" if "timer_ok s t"
    using that unfolding timer_ok_def v by auto
qed

lemma finish_failed_inv:
  assumes inv: "session_inv s" and ph: "se_rekeyPhase s = RekeyHandshaking old new r c"
  shows "session_inv (rekey_release (retireLayer new (if e = RekeyHandshake then s else close_conn c s)))"
proof (cases "e = RekeyHandshake")
  case True
  then show ?thesis using abandon_inv [OF inv] ph by simp
next
  case False
  have "session_inv (rekey_release (retireLayer new (close_conn c s)))"
    using inv close_phase_conn [OF inv ph] phase_kids_ne(1) [OF inv] ph
    by (intro abandon_parts) (auto simp: session_inv_def)
  then show ?thesis using False by simp
qed

text \<open>
  A successful rekey, in two stages: the new slot becomes the active one, then the new TLS
  connection takes over.
\<close>

definition switch_slot :: "u8 \<Rightarrow> Slot \<Rightarrow> Session \<Rightarrow> Session" where
  "switch_slot new sl s =
     (let p = se_nextRef s
      in (put_slot p sl (s\<lparr>se_nextRef := p + 1\<rparr>))\<lparr>se_slots := slots_Install (se_slots s) new p True\<rparr>)"

lemma rekey_finish_success:
  "rekey_exchange env new s = Inr sl \<Longrightarrow> snd (rekey_finish env old new r c s) =
     (let t = installTLSConn (Some c) (switch_slot new sl s)
      in rekey_release (t\<lparr>se_retireTimers := (old, slot_at t old, layer_at t old) # se_retireTimers t\<rparr>))"
  by (simp add: rekey_finish_def switch_slot_def Let_def)

lemma switch_slot_views [simp]:
  "slot_at (switch_slot new sl s) k = (if k = new then Some (se_nextRef s) else slot_at s k)"
  "active_kid (switch_slot new sl s) = new"
  "kid_at (switch_slot new sl s) = (kid_at s)(se_nextRef s := Some (sl_KeyID sl))"
  "closed_at (switch_slot new sl s) = closed_at s" "conn_layer (switch_slot new sl s) = conn_layer s"
  "se_layers (switch_slot new sl s) = se_layers s" "se_nextRef (switch_slot new sl s) = Suc (se_nextRef s)"
  "se_rekeyMgr (switch_slot new sl s) = se_rekeyMgr s" "se_rekeyPhase (switch_slot new sl s) = se_rekeyPhase s"
  "se_retireTimers (switch_slot new sl s) = se_retireTimers s" "se_tlsConn (switch_slot new sl s) = se_tlsConn s"
  "se_closed (switch_slot new sl s) = se_closed s" "se_closePhase (switch_slot new sl s) = se_closePhase s"
  "se_workers (switch_slot new sl s) = se_workers s"
  by (simp_all add: switch_slot_def Let_def slot_table.get_install)

lemma installTLSConn_frame [simp]:
  "se_slots (installTLSConn (Some c) s) = se_slots s" "se_layers (installTLSConn (Some c) s) = se_layers s"
  "kid_at (installTLSConn (Some c) s) = kid_at s" "se_nextRef (installTLSConn (Some c) s) = se_nextRef s"
  "se_rekeyMgr (installTLSConn (Some c) s) = se_rekeyMgr s" "se_rekeyPhase (installTLSConn (Some c) s) = se_rekeyPhase s"
  "se_retireTimers (installTLSConn (Some c) s) = se_retireTimers s" "se_closed (installTLSConn (Some c) s) = se_closed s"
  "se_closePhase (installTLSConn (Some c) s) = se_closePhase s"
  "wm_shutdown (se_workers (installTLSConn (Some c) s)) = wm_shutdown (se_workers s)"
  "se_tlsConn (installTLSConn (Some c) s) = (if se_closed s then se_tlsConn s else Some c)"
  by (auto simp: installTLSConn_def Let_def workers_Go_def Manager_Go_def split: option.splits)

lemma installTLSConn_views:
  assumes "conn_layer s c \<noteq> None" and "\<And>p. se_tlsConn s = Some p \<Longrightarrow> conn_layer s p \<noteq> None"
  shows "conn_layer (installTLSConn (Some c) s) = conn_layer s"
    "closed_at (installTLSConn (Some c) s) =
       (if se_closed s then mark_closed (conn_layer s c) (closed_at s)
        else mark_closed (case se_tlsConn s of None \<Rightarrow> None | Some p \<Rightarrow> conn_layer s p) (closed_at s))"
  using assms by (auto simp: installTLSConn_def Let_def workers_Go_def Manager_Go_def split: option.splits)

lemma finish_success_inv:
  assumes inv: "session_inv s" and ph: "se_rekeyPhase s = RekeyHandshaking old new r c"
    and ex: "rekey_exchange env new s = Inr sl"
  shows "session_inv (snd (rekey_finish env old new r c s))"
proof -
  have store: "store_ok s" and act: "active_ok s" and sh: "shutdown_ok s" and leak: "no_leak s"
    and tim: "\<And>t. t \<in> set (se_retireTimers s) \<Longrightarrow> timer_ok s t" and po: "phase_ok s"
    using inv by (simp_all add: session_inv_def)
  have r: "closed_at s r \<noteq> None" "conn_layer s c = Some r" "\<And>k. layer_at s k = Some r \<Longrightarrow> k = new"
    "\<And>x. layer_at s new = Some x \<Longrightarrow> x = r" "\<not> se_closed s \<Longrightarrow> layer_at s new = Some r \<and> closed_at s r = Some False"
    using po ph by (auto simp: phase_ok_def)
  have kids: "new \<noteq> active_kid s" "unat new < 8" "old = active_kid s" using phase_kids_ne [OF inv] ph by auto
  have fresh: "kid_at s (se_nextRef s) = None" "\<And>k. slot_at s k \<noteq> Some (se_nextRef s)"
    using store unfolding store_ok_def by (blast, metis le_refl option.distinct(1))
  define s1 where "s1 = switch_slot new sl s"
  define t where "t = installTLSConn (Some c) s1"
  define u where "u = t\<lparr>se_retireTimers := (old, slot_at t old, layer_at t old) # se_retireTimers t\<rparr>"
  define d where "d = (if se_closed s then Some r else case se_tlsConn s of None \<Rightarrow> None | Some p \<Rightarrow> conn_layer s p)"
  have connlayer: "conn_layer t = conn_layer s" and closedat: "closed_at t = mark_closed d (closed_at s)"
    using installTLSConn_views [of s1 c] r(2) act unfolding t_def s1_def d_def active_ok_def by (auto split: option.splits)
  have d: "closed_at s x \<noteq> None" if "d = Some x" for x
    using that r(1) store by (auto simp: d_def store_ok_def split: if_splits option.splits)
  have dr: "d \<noteq> Some r" if "\<not> se_closed s"
    using that act r(3) kids(1) by (auto simp: d_def active_ok_def split: option.splits)
  note v = connlayer closedat
  have slots: "slot_at t k = (if k = new then Some (se_nextRef s) else slot_at s k)" "active_kid t = new" for k
    by (simp_all add: t_def s1_def)
  have proj: "se_layers t = se_layers s" "kid_at t = (kid_at s)(se_nextRef s := Some (sl_KeyID sl))"
    "se_nextRef t = Suc (se_nextRef s)" "se_rekeyPhase t = se_rekeyPhase s" "se_retireTimers t = se_retireTimers s"
    "se_closed t = se_closed s" "se_closePhase t = se_closePhase s" "wm_shutdown (se_workers t) = wm_shutdown (se_workers s)"
    "se_tlsConn t = (if se_closed s then se_tlsConn s else Some c)"
    by (simp_all add: t_def s1_def)
  have none: "mark_closed d (closed_at s) x = None \<longleftrightarrow> closed_at s x = None" for x
    using d by (auto simp: mark_closed_iff)
  have "store_ok u"
    using store rekey_exchange_kid [OF ex] fresh unfolding store_ok_def u_def
    by (simp add: v slots proj none)
  moreover have "active_ok u"
  proof -
    have "mark_closed d (closed_at s) r = Some False" if "\<not> se_closed s"
      using that r(5) dr by (auto simp: mark_closed_iff)
    then show ?thesis
      using act kids(2) r(2,5) unfolding active_ok_def u_def by (simp add: v slots proj)
  qed
  moreover have "timer_ok u x" if xin: "x \<in> set (se_retireTimers u)" for x
  proof -
    have "layer_at t old = layer_at s old" "slot_at t old = slot_at s old" using kids by (simp_all add: proj slots)
    then consider "x = (old, slot_at s old, layer_at s old)" | "timer_ok s x" "x \<in> set (se_retireTimers s)"
      using xin tim by (auto simp: u_def proj)
    then show ?thesis
    proof cases
      case 1
      have "slot_at s old = Some p \<Longrightarrow> kid_at s p = Some old" "layer_at s old = Some x \<Longrightarrow> closed_at s x \<noteq> None"
        "layer_at s old = Some x \<Longrightarrow> layer_at s new \<noteq> Some x \<and> x \<noteq> r" for p x
        using store other_layer [OF store, of new old] kids r(3) by (auto simp: store_ok_def)
      then show ?thesis
        using 1 fresh(2) kids ph unfolding timer_ok_def u_def
        by (auto simp: v slots proj mark_closed_iff)
    next
      case 2
      then show ?thesis
        using fresh(1) ph r(4) unfolding timer_ok_def u_def
        by (auto simp: v slots proj mark_closed_iff split: prod.splits)
    qed
  qed
  moreover have "no_leak u"
    using leak unfolding no_leak_def u_def by (auto simp: v proj mark_closed_iff)
  moreover have "shutdown_ok u"
    using sh unfolding shutdown_ok_def u_def by (auto simp: proj)
  ultimately have "session_inv (rekey_release u)"
    using ph by (intro release_inv) (auto simp: u_def proj)
  then show ?thesis by (simp add: rekey_finish_success [OF ex] u_def t_def s1_def Let_def)
qed

lemma slots_RetireIf_views [simp]:
  "slots_Get (slots_RetireIf t k w) k' = (if k' = k \<and> slots_Get t k = w then None else slots_Get t k')"
  by (rule slot_table.get_retire_if)

text \<open>Retiring and closing layers other than the one of a running rekey, or closing the session.\<close>

lemma phase_transfer:
  assumes po: "phase_ok s"
    and "se_rekeyMgr s' = se_rekeyMgr s" "se_rekeyPhase s' = se_rekeyPhase s" "active_kid s' = active_kid s"
    and "se_tlsConn s' = se_tlsConn s \<or> se_tlsConn s' = None" "conn_layer s' = conn_layer s"
    and none: "\<And>x. closed_at s' x = None \<Longrightarrow> closed_at s x = None"
    and sub: "\<And>k x. layer_at s' k = Some x \<Longrightarrow> layer_at s k = Some x"
    and cl: "\<not> se_closed s' \<Longrightarrow> \<not> se_closed s"
    and keep: "\<And>new r. \<not> se_closed s' \<Longrightarrow> phase_layer (se_rekeyPhase s) = Some (new, r) \<Longrightarrow>
      layer_at s new = Some r \<Longrightarrow> closed_at s r = Some False \<Longrightarrow> layer_at s' new = Some r \<and> closed_at s' r = Some False"
  shows "phase_ok s'"
proof -
  have "closed_at s' r \<noteq> None \<and> (\<forall>k. layer_at s' k = Some r \<longrightarrow> k = new) \<and>
        (\<forall>r'. layer_at s' new = Some r' \<longrightarrow> r' = r) \<and>
        (\<not> se_closed s' \<longrightarrow> layer_at s' new = Some r \<and> closed_at s' r = Some False) \<and>
        (\<forall>c. conn_layer s c = Some r \<longrightarrow> phase_conn (se_rekeyPhase s) = Some c)"
    if ph: "phase_layer (se_rekeyPhase s) = Some (new, r)" for new r
  proof -
    have p: "closed_at s r \<noteq> None" "\<And>k. layer_at s k = Some r \<Longrightarrow> k = new" "\<And>r'. layer_at s new = Some r' \<Longrightarrow> r' = r"
      "\<not> se_closed s \<Longrightarrow> layer_at s new = Some r \<and> closed_at s r = Some False"
      "\<And>c. conn_layer s c = Some r \<Longrightarrow> phase_conn (se_rekeyPhase s) = Some c"
      using po [unfolded phase_ok_def, THEN conjunct2, THEN conjunct2, THEN conjunct1] ph by blast+
    show ?thesis
    proof (intro conjI allI impI)
      show "closed_at s' r \<noteq> None" by (rule notI) (rule notE [OF p(1) none])
      show "k = new" if "layer_at s' k = Some r" for k by (rule p(2) [OF sub [OF that]])
      show "r' = r" if "layer_at s' new = Some r'" for r' by (rule p(3) [OF sub [OF that]])
      show "layer_at s' new = Some r" "closed_at s' r = Some False" if "\<not> se_closed s'"
        using keep [OF that ph] p(4) [OF cl [OF that]] by blast+
      show "phase_conn (se_rekeyPhase s) = Some c" if "conn_layer s c = Some r" for c using p(5) that .
    qed
  qed
  moreover have "se_tlsConn s' \<noteq> Some c \<and> (\<exists>new r. phase_layer (se_rekeyPhase s) = Some (new, r) \<and> conn_layer s c = Some r)"
    if "phase_conn (se_rekeyPhase s) = Some c" for c
    using po [unfolded phase_ok_def, THEN conjunct2, THEN conjunct2, THEN conjunct2] that assms(5) by auto
  moreover have "old = active_kid s \<and> new = nextKeyID old" if "phase_kids (se_rekeyPhase s) = Some (old, new)" for old new
    using po [unfolded phase_ok_def, THEN conjunct2, THEN conjunct1] that by blast
  ultimately show ?thesis
    using po [unfolded phase_ok_def, THEN conjunct1] unfolding phase_ok_def assms(2,3,4,6) by blast
qed

lemma timer_inv:
  assumes inv: "session_inv s" and timer: "(k, w, lw) \<in> set (se_retireTimers s)"
  shows "session_inv (retireAfter k w lw (s\<lparr>se_retireTimers := remove1 (k, w, lw) (se_retireTimers s)\<rparr>))"
    (is "session_inv ?s")
proof -
  have store: "store_ok s" and act: "active_ok s" and sh: "shutdown_ok s" and leak: "no_leak s"
    and tim: "\<And>t. t \<in> set (se_retireTimers s) \<Longrightarrow> timer_ok s t" and po: "phase_ok s"
    using inv by (simp_all add: session_inv_def)
  have w: "w \<noteq> slot_at s (active_kid s)" and lw: "lw = Some x \<Longrightarrow> layer_at s (active_kid s) \<noteq> Some x"
    "lw = Some x \<Longrightarrow> phase_layer (se_rekeyPhase s) \<noteq> Some (new, x)" for x new
    using tim [OF timer] by (auto simp: timer_ok_def)
  define d where "d = (if layer_at s k = lw then lw else None)"
  have d: "d = Some x \<Longrightarrow> closed_at s x \<noteq> None" "d = Some x \<Longrightarrow> layer_at s (active_kid s) \<noteq> Some x"
    "d = Some x \<Longrightarrow> phase_layer (se_rekeyPhase s) \<noteq> Some (new, x)" "d = Some x \<Longrightarrow> layer_at s k' = Some x \<Longrightarrow> k' = k"
    for x new k'
    using store lw by (auto simp: d_def store_ok_def split: if_splits)
  have v: "closed_at ?s = mark_closed d (closed_at s)"
    "layer_at ?s k' = (if k' = k \<and> layer_at s k = lw then None else layer_at s k')"
    "slot_at ?s k' = (if k' = k \<and> slot_at s k = w then None else slot_at s k')" "active_kid ?s = active_kid s"
    "kid_at ?s = kid_at s" "conn_layer ?s = conn_layer s" "se_nextRef ?s = se_nextRef s" "se_tlsConn ?s = se_tlsConn s"
    "se_closed ?s = se_closed s" "se_rekeyPhase ?s = se_rekeyPhase s" "se_rekeyMgr ?s = se_rekeyMgr s"
    "se_closePhase ?s = se_closePhase s" "se_workers ?s = se_workers s"
    "se_retireTimers ?s = remove1 (k, w, lw) (se_retireTimers s)" for k'
    by (simp_all add: retireAfter_def d_def)
  have none: "mark_closed d (closed_at s) x = None \<longleftrightarrow> closed_at s x = None" for x
    using d(1) by (auto simp: mark_closed_iff)
  have "store_ok ?s" using store unfolding store_ok_def v none by simp
  moreover have "active_ok ?s"
    using act w lw(1) d(2) unfolding active_ok_def v by (auto simp: mark_closed_iff)
  moreover have "phase_ok ?s"
    by (rule phase_transfer [OF po]) (use lw(2) d(3) in \<open>auto simp: v none mark_closed_iff split: if_splits\<close>)
  moreover have "timer_ok ?s x" if "timer_ok s x" for x
    using that w unfolding timer_ok_def v none by (auto split: prod.splits)
  moreover have "no_leak ?s"
    using leak unfolding no_leak_def v by (auto simp: mark_closed_iff d_def)
  moreover have "shutdown_ok ?s" using sh unfolding shutdown_ok_def v by auto
  moreover have "set (remove1 (k, w, lw) (se_retireTimers s)) \<subseteq> set (se_retireTimers s)"
    by (rule set_remove1_subset)
  ultimately show ?thesis using tim unfolding session_inv_def v by blast
qed

lemma exit_shape: "active_ok s \<Longrightarrow> same_shape s (sendExitNotifyBestEffort written s)"
  by (auto simp: sendExitNotifyBestEffort_def Let_def active_ok_def conn_layer_def split: option.splits)

lemma close_enter_inv:
  assumes inv: "session_inv s" and "\<not> se_closed s"
  shows "session_inv (Session_Close_enter written s)"
proof -
  let ?s = "s\<lparr>se_closed := True, se_closePhase := CloseEntered\<rparr>"
  have "store_ok ?s" "active_ok ?s" "no_leak ?s" "shutdown_ok ?s"
    using inv by (simp_all add: inv_defs)
  moreover have "timer_ok ?s t" if "timer_ok s t" for t using that by (simp add: timer_ok_def)
  moreover have "phase_ok ?s"
    by (rule phase_transfer [of s]) (use inv in \<open>simp_all add: session_inv_def\<close>)
  ultimately have "session_inv ?s" using inv by (simp add: session_inv_def)
  then show ?thesis
    using exit_shape [of ?s written] same_shape_inv unfolding Session_Close_enter_def session_inv_def by blast
qed

lemma close_workers_inv:
  assumes inv: "session_inv s" and "se_closePhase s = CloseEntered"
  shows "session_inv (shutdown_workers s)"
proof -
  have "store_ok (shutdown_workers s)" "active_ok (shutdown_workers s)" "no_leak (shutdown_workers s)"
    "shutdown_ok (shutdown_workers s)"
    using inv assms(2) by (simp_all add: inv_defs shutdown_workers_def Manager_Shutdown_def)
  moreover have "phase_ok (shutdown_workers s)"
    by (rule phase_transfer [of s]) (use inv in \<open>simp_all add: session_inv_def shutdown_workers_def\<close>)
  moreover have "timer_ok (shutdown_workers s) t" if "timer_ok s t" for t
    using that by (simp add: timer_ok_def shutdown_workers_def)
  ultimately show ?thesis using inv by (simp add: session_inv_def shutdown_workers_def)
qed

lemma close_kid_inv:
  assumes inv: "session_inv s" and ph: "se_closePhase s = ShutdownFrom n" and n: "n < 8"
  shows "session_inv (shutdown_kid n s)"
proof -
  let ?s = "shutdown_kid n s" and ?k = "of_nat n :: u8"
  have store: "store_ok s" and act: "active_ok s" and sh: "shutdown_ok s" and leak: "no_leak s"
    and tim: "\<And>t. t \<in> set (se_retireTimers s) \<Longrightarrow> timer_ok s t" and po: "phase_ok s"
    using inv by (simp_all add: session_inv_def)
  have closed: "se_closed s" using sh ph by (simp add: shutdown_ok_def)
  have nk: "unat ?k = n" using n by simp
  have "store_ok ?s" using store_retire [OF store, of ?k] by (simp add: store_ok_def shutdown_kid_def)
  moreover have "active_ok ?s" using act closed by (auto simp: active_ok_def shutdown_kid_def)
  moreover have "timer_ok ?s t" if "timer_ok s t" for t
    using timer_retire [OF that, of ?k] by (simp add: timer_ok_def shutdown_kid_def)
  moreover have "phase_ok ?s"
    by (rule phase_transfer [OF po]) (use closed in \<open>auto simp: shutdown_kid_def mark_closed_iff split: if_splits\<close>)
  moreover have "no_leak ?s"
    using leak unfolding no_leak_def by (auto simp: shutdown_kid_def mark_closed_iff) metis
  moreover have "k = ?k" if "unat k < Suc n" "\<not> unat k < n" for k :: u8
    using that nk by (simp add: word_unat_eq_iff)
  then have "shutdown_ok ?s"
    using sh ph n unfolding shutdown_ok_def by (auto simp: shutdown_kid_def)
  ultimately show ?thesis using tim by (auto simp: session_inv_def shutdown_kid_def)
qed

lemma close_conn_inv:
  assumes inv: "session_inv s" and ph: "se_closePhase s = ShutdownFrom 8"
  shows "session_inv (shutdown_conn s)"
proof -
  let ?s = "shutdown_conn s"
  have store: "store_ok s" and act: "active_ok s" and sh: "shutdown_ok s" and leak: "no_leak s"
    and tim: "\<And>t. t \<in> set (se_retireTimers s) \<Longrightarrow> timer_ok s t" and po: "phase_ok s"
    using inv by (simp_all add: session_inv_def)
  have closed: "se_closed s" using sh ph by (simp add: shutdown_ok_def)
  define d where "d = (case se_tlsConn s of None \<Rightarrow> None | Some c \<Rightarrow> conn_layer s c)"
  have conn: "\<And>c. se_tlsConn s = Some c \<Longrightarrow> conn_layer s c \<noteq> None" using act by (simp add: active_ok_def)
  have v: "closed_at ?s = mark_closed d (closed_at s)" "conn_layer ?s = conn_layer s" "se_layers ?s = se_layers s"
    "se_slots ?s = se_slots s" "kid_at ?s = kid_at s" "se_nextRef ?s = se_nextRef s" "se_tlsConn ?s = None"
    "se_closed ?s = se_closed s" "se_rekeyPhase ?s = se_rekeyPhase s" "se_rekeyMgr ?s = se_rekeyMgr s"
    "se_closePhase ?s = ShutdownDone" "se_workers ?s = se_workers s" "se_retireTimers ?s = se_retireTimers s"
    using conn by (auto simp: shutdown_conn_def d_def Let_def split: option.splits)
  have "closed_at s x \<noteq> None" if "d = Some x" for x
    using that store by (auto simp: d_def store_ok_def split: option.splits)
  then have none: "mark_closed d (closed_at s) x = None \<longleftrightarrow> closed_at s x = None" for x
    by (auto simp: mark_closed_iff)
  have "store_ok ?s" using store unfolding store_ok_def v none by simp
  moreover have "active_ok ?s" using act closed unfolding active_ok_def v by simp
  moreover have "timer_ok ?s t" if "timer_ok s t" for t using that unfolding timer_ok_def v none by simp
  moreover have "phase_ok ?s" by (rule phase_transfer [OF po]) (use closed in \<open>simp_all add: v none\<close>)
  moreover have "no_leak ?s" using leak unfolding no_leak_def v by (auto simp: mark_closed_iff)
  moreover have "shutdown_ok ?s" using sh ph unfolding shutdown_ok_def v by simp
  ultimately show ?thesis using tim unfolding session_inv_def v by blast
qed

lemma timers_dropped_inv: "session_inv s \<Longrightarrow> session_inv (s\<lparr>se_retireTimers := remove1 t (se_retireTimers s)\<rparr>)"
proof -
  assume inv: "session_inv s"
  let ?s = "s\<lparr>se_retireTimers := remove1 t (se_retireTimers s)\<rparr>"
  have "store_ok ?s" "active_ok ?s" "no_leak ?s" "shutdown_ok ?s" using inv by (simp_all add: inv_defs)
  moreover have "phase_ok ?s" by (rule phase_transfer [of s]) (use inv in \<open>simp_all add: session_inv_def\<close>)
  moreover have "timer_ok ?s = timer_ok s" by (simp add: timer_ok_def fun_eq_iff)
  moreover have "set (remove1 t (se_retireTimers s)) \<subseteq> set (se_retireTimers s)" by (rule set_remove1_subset)
  ultimately show ?thesis using inv unfolding session_inv_def by auto
qed

lemma finish_inv: "session_inv s \<Longrightarrow> se_rekeyPhase s = RekeyHandshaking old new r c \<Longrightarrow>
    session_inv (snd (rekey_finish env old new r c s))"
  using finish_success_inv finish_failed_inv
  by (cases "rekey_exchange env new s") (auto simp: rekey_finish_def Let_def)

lemma tls_io_shape:
  "closed_at s r \<noteq> None \<Longrightarrow> ev \<noteq> OpClose \<Longrightarrow> same_shape s (put_layer r (layer_step ev (layer_of s r)) s)"
  by (intro put_layer_op_shape layer_step_closed)

lemma handler_shape: "same_shape s (SetIngressHandler h s)"
  by (simp add: SetIngressHandler_def)

lemmas traffic_shapes = readLoop_turn_shape writeLoop_turn_shape tickLoop_turn_shape tls_io_shape seal_shape
  write_wire_shape message_shape RequestRestart_shape ReadCtx_shape handler_shape

lemma session_step_inv: "session_step s s' \<Longrightarrow> session_inv s \<Longrightarrow> session_inv s'"
proof (induction rule: session_step.induct)
  case (read_turn s h now got)
  then have "store_ok s" by (simp add: session_inv_def)
  with read_turn show ?case using readLoop_turn_shape same_shape_inv by blast
qed (auto intro: enter_inv install_inv pumps_inv send_inv finish_inv timer_inv timers_dropped_inv close_enter_inv
    close_workers_inv close_kid_inv close_conn_inv same_shape_inv traffic_shapes)

lemma session_steps_inv: "session_step\<^sup>*\<^sup>* s s' \<Longrightarrow> session_inv s \<Longrightarrow> session_inv s'"
  by (induction rule: rtranclp_induct) (auto intro: session_step_inv)

section \<open>A session that is up\<close>

lemma applyKeepaliveDefaults_shape [simp]: "same_shape s (applyKeepaliveDefaults t) = same_shape s t"
  by (simp add: applyKeepaliveDefaults_def Let_def same_shape_def)

lemma newSession_views:
  "slot_at (newSession cfg w sid) k = None" "layer_at (newSession cfg w sid) k = (if k = 0 then Some 0 else None)"
  "closed_at (newSession cfg w sid) = [0 \<mapsto> False]" "kid_at (newSession cfg w sid) = Map.empty"
  "conn_layer (newSession cfg w sid) = Map.empty" "se_nextRef (newSession cfg w sid) = 1"
  "se_closed (newSession cfg w sid) = False" "se_closePhase (newSession cfg w sid) = NotClosing"
  "se_tlsConn (newSession cfg w sid) = None" "se_rekeyPhase (newSession cfg w sid) = RekeyIdle"
  "se_retireTimers (newSession cfg w sid) = []" "wm_shutdown (se_workers (newSession cfg w sid)) = False"
  "se_rekeyMgr (newSession cfg w sid) = None"
  by (simp_all add: newSession_def Let_def workers_Go_def Manager_Go_def NewManager_def slots_Get_def newSlotTable_def
      layers_Get_def layers_Install_def newLayerTable_def New_def)
     (simp_all add: kid_at_def closed_at_def conn_layer_def fun_eq_iff)

lemma established_inv_open:
  assumes shape: "same_shape (newSession cfg w sid) s0" and est: "session_established lib now hr s0 = (Inr (), s)"
  shows "session_inv s \<and> \<not> se_closed s"
proof -
  obtain slot where slot: "fst (buildSlot lib 0 (hr_Cipher hr) (hr_PeerID hr) (hr_KeyMaterial hr)) = Inr slot"
    using est by (auto simp: session_established_def split: sum.splits)
  then have kid: "sl_KeyID slot = 0" by (auto simp: buildSlot_def NewSlot_def split: sum.splits if_splits)
  define a where "a = (switch_slot 0 slot s0)\<lparr>se_PingInterval := hr_PingInterval hr, se_PingRestart := hr_PingRestart hr,
    se_cipher := hr_Cipher hr, se_peerID := hr_PeerID hr\<rparr>"
  define b where "b = put_conn (se_nextRef a) \<lparr>tc_layer = the (layer_at a 0), tc_closed = False, tc_sent = []\<rparr>
    (a\<lparr>se_nextRef := se_nextRef a + 1\<rparr>)"
  define c where "c = (installTLSConn (Some (se_nextRef a)) b)\<lparr>se_rekeyMgr := Some (newRekeyManager (cfg_TransitionWindow
    (se_cfg (installTLSConn (Some (se_nextRef a)) b))))\<rparr>"
  note s0 = shape [unfolded same_shape_def, simplified newSession_views]
  have "same_shape c s"
    using est slot by (auto simp: session_established_def switch_slot_def a_def b_def c_def Let_def)
  moreover have "session_inv c \<and> \<not> se_closed c"
  proof -
    have views: "slot_at c k = (if k = 0 then Some 1 else None)" "layer_at c k = (if k = 0 then Some 0 else None)"
      "active_kid c = 0" "kid_at c = [1 \<mapsto> 0]" "se_nextRef c = 3" "se_closed c = False" "se_closePhase c = NotClosing"
      "se_tlsConn c = Some 2" "se_rekeyPhase c = RekeyIdle" "se_retireTimers c = []"
      "se_rekeyMgr c = Some (newRekeyManager (cfg_TransitionWindow (se_cfg (installTLSConn (Some (se_nextRef a)) b))))" for k
      using s0 newSession_views [of cfg w sid] kid by (auto simp: a_def b_def c_def)
    have conn: "conn_layer b = [2 \<mapsto> 0]" "se_tlsConn b = None" "closed_at b = [0 \<mapsto> False]" "se_closed b = False" "se_nextRef a = 2"
      using s0 newSession_views [of cfg w sid] by (auto simp: a_def b_def fun_eq_iff)
    then have "conn_layer c = [2 \<mapsto> 0]" "closed_at c = [0 \<mapsto> False]"
      using installTLSConn_views [of b "se_nextRef a"] by (auto simp: c_def)
    then show ?thesis
      by (simp add: inv_defs timer_ok_def views newRekeyManager_def) (rule exI [of _ False], simp)
  qed
  ultimately show ?thesis using same_shape_inv [of c s] by (simp add: same_shape_def)
qed

lemmas established_inv = established_inv_open [THEN conjunct1]

section \<open>The calls as runs\<close>

text \<open>\<open>PerformSoftReset\<close> and \<open>Session_Close\<close>, run without interruption, are paths of the state machine.\<close>

lemma PerformSoftReset_steps:
  assumes "PerformSoftReset env now s = (err, s')"
  shows "session_step\<^sup>*\<^sup>* s s' \<or> (s' = s \<and> err \<noteq> None)"
proof -
  obtain e s1 where enter: "rekey_enter s = (e, s1)" by (cases "rekey_enter s")
  show ?thesis
  proof (cases e)
    case (Some x)
    then have "s1 = s" using enter by (auto simp: rekey_enter_def Let_def split: if_splits option.splits)
    then show ?thesis using assms enter Some by (simp add: PerformSoftReset_def)
  next
    case None
    then obtain old new where ph1: "se_rekeyPhase s1 = RekeyEntered old new"
      using enter by (auto simp: rekey_enter_def Let_def split: if_splits option.splits)
    let ?r = "se_nextRef s1" and ?s2 = "rekey_install old new s1"
    obtain e3 s3 where p: "rekey_pumps old new ?r ?s2 = (e3, s3)" by (cases "rekey_pumps old new ?r ?s2")
    obtain e4 s4 where q: "rekey_send now old new ?r s3 = (e4, s4)" by (cases "rekey_send now old new ?r s3")
    have run3: "session_step\<^sup>*\<^sup>* s s3"
    proof -
      have "session_step s s1" using enter None by (auto intro: session_step.enter)
      moreover have "session_step s1 ?s2" using ph1 by (rule session_step.install)
      moreover have "session_step ?s2 s3" using session_step.pumps [of ?s2 old new ?r] p by simp
      ultimately show ?thesis by (meson converse_rtranclp_into_rtranclp rtranclp.rtrancl_refl)
    qed
    have ph3: "se_rekeyPhase s3 = RekeyPumping old new ?r" if "e3 = None"
      using p that by (auto simp: rekey_pumps_def split: if_splits prod.splits)
    have run4: "session_step\<^sup>*\<^sup>* s s4" if "e3 = None"
      using run3 session_step.send [OF ph3 [OF that], of now] q by (simp add: rtranclp.rtrancl_into_rtrancl)
    have ph4: "se_rekeyPhase s4 = RekeyHandshaking old new ?r (se_nextRef s3)" if "e3 = None" "e4 = None"
      using q that by (auto simp: rekey_send_def Let_def split: prod.splits option.splits)
    have run5: "session_step\<^sup>*\<^sup>* s (snd (rekey_finish env old new ?r (se_nextRef s3) s4))" if "e3 = None" "e4 = None"
      using run4 [OF that(1)] session_step.finish [OF ph4 [OF that], of env] by (rule rtranclp.rtrancl_into_rtrancl)
    have "PerformSoftReset env now s =
        (case e3 of Some x \<Rightarrow> (Some x, s3)
         | None \<Rightarrow> (case e4 of Some x \<Rightarrow> (Some x, s4) | None \<Rightarrow> rekey_finish env old new ?r (se_nextRef s3) s4))"
      using enter None ph1 p q by (simp add: PerformSoftReset_def Let_def split: option.splits)
    then consider "s' = s3" | "e3 = None" "s' = s4" | "e3 = None" "e4 = None" "s' = snd (rekey_finish env old new ?r (se_nextRef s3) s4)"
      using assms by (cases e3; cases e4) (simp_all, metis snd_conv)
    then show ?thesis using run3 run4 run5 by cases simp_all
  qed
qed

lemma shutdown_kids_steps:
  "se_closePhase s = ShutdownFrom n \<Longrightarrow> n \<le> 8 \<Longrightarrow>
   session_step\<^sup>*\<^sup>* s (foldl (\<lambda>s n. shutdown_kid n s) s [n..<8]) \<and>
   se_closePhase (foldl (\<lambda>s n. shutdown_kid n s) s [n..<8]) = ShutdownFrom 8"
proof (induction "8 - n" arbitrary: n s)
  case 0
  then show ?case by simp
next
  case (Suc m)
  then have n: "n < 8" by simp
  have "se_closePhase (shutdown_kid n s) = ShutdownFrom (Suc n)" by (simp add: shutdown_kid_def)
  moreover have "session_step s (shutdown_kid n s)" using Suc.prems(1) n by (rule session_step.close_kid)
  moreover have "[n..<8] = n # [Suc n..<8]" using n by (rule upt_conv_Cons)
  ultimately show ?case
    using Suc.hyps(1) [of "Suc n" "shutdown_kid n s"] Suc.hyps(2) n by (simp add: converse_rtranclp_into_rtranclp)
qed

lemma Session_Close_steps:
  assumes "\<not> se_closed s" and "active_ok s"
  shows "session_step\<^sup>*\<^sup>* s (Session_Close written s) \<and> se_closePhase (Session_Close written s) = ShutdownDone"
proof -
  let ?s1 = "Session_Close_enter written s"
  let ?s2 = "shutdown_workers ?s1"
  let ?s3 = "foldl (\<lambda>s n. shutdown_kid n s) ?s2 [0..<8]"
  have "active_ok (s\<lparr>se_closed := True, se_closePhase := CloseEntered\<rparr>)" using assms(2) by (simp add: active_ok_def)
  then have ph1: "se_closePhase ?s1 = CloseEntered"
    using exit_shape unfolding Session_Close_enter_def same_shape_def by fastforce
  have "session_step s ?s1" using assms(1) by (rule session_step.close_enter)
  moreover have "session_step ?s1 ?s2" using ph1 by (rule session_step.close_workers)
  moreover have "session_step\<^sup>*\<^sup>* ?s2 ?s3" and ph3: "se_closePhase ?s3 = ShutdownFrom 8"
    using shutdown_kids_steps [of ?s2 0] by (simp_all add: shutdown_workers_def)
  moreover have "session_step ?s3 (shutdown_conn ?s3)" using ph3 by (rule session_step.close_conn)
  ultimately have "session_step\<^sup>*\<^sup>* s (shutdown_conn ?s3)"
    by (meson converse_rtranclp_into_rtranclp rtranclp.rtrancl_into_rtrancl)
  moreover have "Session_Close written s = shutdown_conn ?s3"
    using assms(1) by (simp add: Session_Close_def shutdown_def)
  moreover have "se_closePhase (shutdown_conn ?s3) = ShutdownDone"
    by (auto simp: shutdown_conn_def Let_def split: option.splits)
  ultimately show ?thesis by simp
qed

end
