(* ===== verification/SessionProperties.thy ===== *)
theory SessionProperties
  imports Interleaving
begin

text \<open>
  What a user of a session gets, whatever the interleaving of \<^verbatim>\<open>Interleaving\<close>: a sending key at
  every moment, no control layer left open behind a closed session, and a soft reset that either
  switches to the next key or leaves the current one in place.
\<close>

section \<open>The handshake\<close>

text \<open>
  While \<^verbatim>\<open>control.Run\<close> works, between \<open>newSession\<close> and \<open>session_established\<close>, the read loop, the
  pumps of the initial layer and the TLS library use the session. (A session that is closed
  meanwhile never gets to \<open>session_established\<close>: the handshake's context is done.)
\<close>

inductive handshake_step :: "Session \<Rightarrow> Session \<Rightarrow> bool" where
  hs_read: "handshake_step s (snd (readLoop_turn h now got s))"
| hs_write: "closed_at s r \<noteq> None \<Longrightarrow> handshake_step s (snd (writeLoop_turn h nt now outcome r s))"
| hs_tick: "closed_at s r \<noteq> None \<Longrightarrow> handshake_step s (snd (tickLoop_turn now order r s))"
| hs_tls: "closed_at s r \<noteq> None \<Longrightarrow> ev \<noteq> OpClose \<Longrightarrow> handshake_step s (put_layer r (layer_step ev (layer_of s r)) s)"

lemma store_ok_shape: "same_shape s s' \<Longrightarrow> store_ok s' = store_ok s"
  unfolding same_shape_def store_ok_def by simp

lemma newSession_store: "store_ok (newSession cfg w sid)"
  by (simp add: store_ok_def newSession_views) (rule exI [of _ False], simp)

lemma handshake_step_shape: "handshake_step s s' \<Longrightarrow> store_ok s \<Longrightarrow> same_shape s s'"
  by (induction rule: handshake_step.induct) (auto intro: traffic_shapes)

lemma handshake_steps_shape: "handshake_step\<^sup>*\<^sup>* s s' \<Longrightarrow> store_ok s \<Longrightarrow> same_shape s s'"
proof (induction rule: rtranclp_induct)
  case (step t u)
  then have "same_shape s t" by simp
  moreover have "same_shape t u" using step handshake_step_shape store_ok_shape [OF \<open>same_shape s t\<close>] by simp
  ultimately show ?case by (rule same_shape_trans)
qed simp

text \<open>A session that came up and has run since.\<close>

lemma live_session_inv:
  assumes "handshake_step\<^sup>*\<^sup>* (newSession cfg w sid) s0" and "session_established lib now hr s0 = (Inr (), s)"
    and "session_step\<^sup>*\<^sup>* s s'"
  shows "session_inv s'"
  using assms handshake_steps_shape [OF _ newSession_store] established_inv session_steps_inv by blast

section \<open>A key at every moment\<close>

lemma closed_at_Some: "closed_at s r = Some b \<longleftrightarrow> (\<exists>l. se_layerAt s r = Some l \<and> ly_closed l = b)"
  by (auto simp: closed_at_def)

lemma inv_key:
  assumes "session_inv s"
  shows "\<exists>p sl. slots_Active (se_slots s) = Some p \<and> se_slotAt s p = Some sl \<and> sl_KeyID sl = active_kid s"
proof -
  obtain p where p: "slot_at s (active_kid s) = Some p" using assms by (auto simp: session_inv_def active_ok_def)
  then have "kid_at s p = Some (active_kid s)" using assms by (auto simp: session_inv_def store_ok_def)
  then show ?thesis using p kid_at_SomeD by (auto simp: slots_Active_Get)
qed

lemma inv_layer:
  assumes "session_inv s" and "\<not> se_closed s"
  shows "\<exists>r l. layer_at s (active_kid s) = Some r \<and> se_layerAt s r = Some l \<and> \<not> ly_closed l"
proof -
  obtain r where "layer_at s (active_kid s) = Some r" "closed_at s r = Some False"
    using assms by (auto simp: session_inv_def active_ok_def)
  then show ?thesis by (auto simp: closed_at_Some)
qed

text \<open>
  C3. A session that has come up is never without a key: after any interleaving of rekeys (also
  failing ones), retirement timers of earlier rekeys, inbound and outbound traffic, and closing,
  the slot table has a slot for sending, and it is the slot of the key-id in use. As long as the
  session is not closed, the control layer of that key-id is in the layer table and open; in
  particular a retirement timer never takes away a key that came to be current after it was set.
\<close>

theorem session_keeps_key:
  assumes "handshake_step\<^sup>*\<^sup>* (newSession cfg w sid) s0" and "session_established lib now hr s0 = (Inr (), s)"
    and "session_step\<^sup>*\<^sup>* s s'"
  shows "(\<exists>p sl. slots_Active (se_slots s') = Some p \<and> se_slotAt s' p = Some sl \<and>
            sl_KeyID sl = slots_ActiveKID (se_slots s')) \<and>
         (\<not> se_closed s' \<longrightarrow> (\<exists>r l. layers_Get (se_layers s') (slots_ActiveKID (se_slots s')) = Some r \<and>
            se_layerAt s' r = Some l \<and> \<not> ly_closed l))"
  using inv_key inv_layer live_session_inv [OF assms] by blast

definition demo_cfg :: Config where
  "demo_cfg = \<lparr>cfg_Network = ''udp'', cfg_RemoteAddr = ''192.0.2.1:1194'', cfg_TLSConfig = True, cfg_Username = '''',
     cfg_Password = '''', cfg_TLSCryptV1 = [], cfg_TLSCryptV2 = [], cfg_TLSAuth = [], cfg_Auth = ''SHA1'', cfg_KeyDirection = 0,
     cfg_PeerInfoExtra = [], cfg_Ciphers = [''AES-256-GCM''], cfg_Reneg = 3600 * sec, cfg_TransitionWindow = 0,
     cfg_IngressBuffer = 0, cfg_activity = \<lparr>cf_Warmup = 0, cf_StuckThreshold = 0, cf_WarmupFast = 0,
       cf_StuckThresholdFast = 0, cf_FastWindow = 0\<rparr>,
     cfg_PeerInfoVersion = ''''\<rparr>"

definition demo_result :: handshake_result where
  "demo_result = \<lparr>hr_KeyMaterial = demo_material, hr_Cipher = ''AES-256-GCM'', hr_PeerID = 7, hr_PingInterval = 0,
     hr_PingRestart = 60 * sec\<rparr>"

definition demo_new :: Session where
  "demo_new = newSession demo_cfg (CryptWrapper demo_wrapper) 42"

definition demo_session :: Session where
  "demo_session = snd (session_established demo_lib 0 demo_result demo_new)"

lemma demo_established: "session_established demo_lib 0 demo_result demo_new = (Inr (), demo_session)"
proof -
  obtain c where "fst (buildSlot demo_lib 0 ''AES-256-GCM'' 7 demo_material) = Inr c"
    by (auto simp: buildSlot_def AEADKeyLen_def NewSlot_def NewAEAD_def demo_lib_def demo_material_def
        ClientToServerCipherKey_def ServerToClientCipherKey_def)
  then have "fst (session_established demo_lib 0 demo_result demo_new) = Inr ()"
    by (simp add: session_established_def demo_result_def Let_def)
  then show ?thesis unfolding demo_session_def by (metis prod.collapse)
qed

lemma demo_session_inv: "session_inv demo_session"
  by (rule established_inv [OF same_shape_refl demo_established [unfolded demo_new_def]])

lemma demo_handshake: "handshake_step\<^sup>*\<^sup>* (newSession demo_cfg (CryptWrapper demo_wrapper) 42) demo_new"
  by (simp add: demo_new_def)

lemma demo_session_open: "\<not> se_closed demo_session"
  using established_inv_open [OF same_shape_refl demo_established [unfolded demo_new_def]] by (rule conjunct2)

lemma demo_session_closes:
  "session_step\<^sup>*\<^sup>* demo_session (Session_Close True demo_session)"
  "se_closePhase (Session_Close True demo_session) = ShutdownDone"
  using Session_Close_steps [OF demo_session_open, of True] demo_session_inv by (simp_all add: session_inv_def)

theorem session_keeps_key_witness:
  "\<exists>p. slots_Active (se_slots (Session_Close True demo_session)) = Some p"
  using session_keeps_key [OF demo_handshake demo_established demo_session_closes(1)] by blast

section \<open>Closing\<close>

lemma closed_down:
  assumes inv: "session_inv s" and "se_closePhase s = ShutdownDone"
  shows "layer_at s k = Some r \<Longrightarrow> \<exists>old. se_rekeyPhase s = RekeyInstalled old k r"
    and "se_layerAt s r = Some l \<Longrightarrow> ly_closed l \<or> (\<exists>old k. se_rekeyPhase s = RekeyInstalled old k r)"
proof -
  show installed: "\<exists>old. se_rekeyPhase s = RekeyInstalled old k r" if "layer_at s k = Some r" for k r
  proof -
    have "unat k < 8" using inv that by (auto simp: session_inv_def store_ok_def)
    then show ?thesis using inv assms(2) that by (auto simp: session_inv_def shutdown_ok_def)
  qed
  show "ly_closed l \<or> (\<exists>old k. se_rekeyPhase s = RekeyInstalled old k r)" if "se_layerAt s r = Some l"
  proof (cases "ly_closed l")
    case False
    then have "closed_at s r = Some False" using that by (simp add: closed_at_Some)
    then obtain k where "layer_at s k = Some r" using inv unfolding session_inv_def no_leak_def by blast
    from installed [OF this] show ?thesis by blast
  qed simp
qed

lemma rekey_pumps_shut:
  assumes "wm_shutdown (se_workers s)"
  shows "se_rekeyPhase (snd (rekey_pumps old k r s)) = RekeyIdle \<and>
         se_closePhase (snd (rekey_pumps old k r s)) = se_closePhase s"
proof -
  obtain ok t where t: "startLayerPumps r s = (ok, t)" by (cases "startLayerPumps r s")
  then have "\<not> ok" "se_closePhase t = se_closePhase s"
    using assms by (auto simp: startLayerPumps_def workers_Go_def Manager_Go_def Let_def split: prod.splits)
  then show ?thesis
    by (auto simp: t rekey_pumps_def rekey_release_def retireLayerIf_def Let_def split: prod.splits option.splits)
qed

text \<open>
  C8. Closing leaks no control layer, whenever it comes: once \<open>shutdown\<close> has finished, every layer
  the session ever made is closed and out of the table, except one that a concurrent rekey has just
  installed; and the next step of that rekey finds the workers shut down, takes the layer out again
  and closes it, after which no layer is open.
\<close>

theorem session_close_leaks_nothing:
  assumes "handshake_step\<^sup>*\<^sup>* (newSession cfg w sid) s0" and "session_established lib now hr s0 = (Inr (), s)"
    and "session_step\<^sup>*\<^sup>* s s'" and "se_closePhase s' = ShutdownDone"
  shows "(\<forall>r l. se_layerAt s' r = Some l \<longrightarrow> ly_closed l \<or> (\<exists>old k. se_rekeyPhase s' = RekeyInstalled old k r)) \<and>
    (\<forall>k r. layers_Get (se_layers s') k = Some r \<longrightarrow> (\<exists>old. se_rekeyPhase s' = RekeyInstalled old k r)) \<and>
    (\<forall>old k r. se_rekeyPhase s' = RekeyInstalled old k r \<longrightarrow>
       (let t = snd (rekey_pumps old k r s')
        in (\<forall>r l. se_layerAt t r = Some l \<longrightarrow> ly_closed l) \<and> (\<forall>k. layers_Get (se_layers t) k = None)))"
proof -
  have inv: "session_inv s'" using live_session_inv [OF assms(1-3)] .
  then have shut: "wm_shutdown (se_workers s')" using assms(4) by (simp add: session_inv_def shutdown_ok_def)
  have "(\<forall>r l. se_layerAt t r = Some l \<longrightarrow> ly_closed l) \<and> (\<forall>k. layers_Get (se_layers t) k = None)"
    if "se_rekeyPhase s' = RekeyInstalled old k r" and t: "t = snd (rekey_pumps old k r s')" for old k r t
  proof -
    have "session_inv t" unfolding t using pumps_inv [OF inv that(1)] .
    moreover have "se_closePhase t = ShutdownDone" "se_rekeyPhase t = RekeyIdle"
      unfolding t using rekey_pumps_shut [OF shut] assms(4) by simp_all
    ultimately show ?thesis using closed_down [of t] by (metis not_None_eq rekey_phase.distinct(3))
  qed
  then show ?thesis using closed_down [OF inv assms(4)] by (simp add: Let_def)
qed

theorem session_close_leaks_nothing_witness:
  "layers_Get (se_layers (Session_Close True demo_session)) 0 = None \<or>
     (\<exists>old r. se_rekeyPhase (Session_Close True demo_session) = RekeyInstalled old 0 r)"
  using session_close_leaks_nothing [OF demo_handshake demo_established demo_session_closes]
  by (cases "layers_Get (se_layers (Session_Close True demo_session)) 0") blast+

section \<open>A soft reset\<close>

definition same_keys :: "Session \<Rightarrow> Session \<Rightarrow> bool" where
  "same_keys s t \<longleftrightarrow> se_slots t = se_slots s \<and> se_slotAt t = se_slotAt s \<and> se_cipher t = se_cipher s \<and> se_peerID t = se_peerID s \<and>
     (se_rekeyMgr t = None \<longleftrightarrow> se_rekeyMgr s = None)"

lemma same_keys_trans: "same_keys s t \<Longrightarrow> same_keys t u \<Longrightarrow> same_keys s u"
  by (simp add: same_keys_def)

lemma startLayerPumps_keys: "same_keys s (snd (startLayerPumps r s))"
  by (simp add: same_keys_def startLayerPumps_def workers_Go_def Let_def split: prod.splits)

lemma install_keys: "same_keys s (rekey_install old new s)"
  by (simp add: same_keys_def rekey_install_def Let_def split: option.splits prod.splits)

lemma pumps_keys: "same_keys s (snd (rekey_pumps old new r s))"
proof -
  obtain ok t where t: "startLayerPumps r s = (ok, t)" by (cases "startLayerPumps r s")
  then have "same_keys s t" using startLayerPumps_keys [of s r] by simp
  then show ?thesis by (auto simp: same_keys_def rekey_pumps_def rekey_release_def t)
qed

lemma send_keys: "same_keys s (snd (rekey_send now old new r s))"
  by (simp add: same_keys_def rekey_send_def rekey_release_def Let_def split: prod.splits option.splits)

lemma finish_failed_keys: "rekey_exchange env new s = Inl e \<Longrightarrow> same_keys s (snd (rekey_finish env old new r c s))"
  by (simp add: same_keys_def rekey_finish_def rekey_release_def Let_def)

lemma rekey_exchange_slot:
  assumes "rekey_exchange env new s = Inr sl"
  obtains mat keyLen where "rk_ekm env ExportLabel DataKeyMaterialLen = Some mat" "AEADKeyLen (se_cipher s) = Inr keyLen"
    "rekey_slot (rk_lib env) new (se_cipher s) (se_peerID s) mat keyLen = Inr sl"
  using assms
  by (auto simp: rekey_exchange_def rbind_def map_sum_def split: if_splits sum.splits option.splits)

lemma soft_reset_run [consumes 2, case_names refused failed switched]:
  assumes run: "PerformSoftReset env now s = (err, t)" and inv: "session_inv s"
  obtains (refused) e where "err = Some e" "t = s"
  | (failed) e where "err = Some e" "same_keys s t" "se_rekeyPhase t = RekeyIdle" "se_rekeyMgr s \<noteq> None"
  | (switched) s4 sl r c where "err = None" "same_keys s s4" "layer_at s4 (active_kid s) = layer_at s (active_kid s)"
      "rekey_exchange env (nextKeyID (active_kid s)) s4 = Inr sl" "se_rekeyMgr s \<noteq> None"
      "t = snd (rekey_finish env (active_kid s) (nextKeyID (active_kid s)) r c s4)"
proof (cases "rekey_enter s")
  case (Pair e1 s1)
  show thesis
  proof (cases e1)
    case (Some e)
    then have "s1 = s" using Pair by (auto simp: rekey_enter_def Let_def split: if_splits option.splits)
    then show thesis using run Pair Some by (intro refused [of e]) (simp_all add: PerformSoftReset_def)
  next
    case None
    let ?old = "active_kid s" and ?new = "nextKeyID (active_kid s)"
    have mgr: "se_rekeyMgr s \<noteq> None" and ph1: "se_rekeyPhase s1 = RekeyEntered ?old ?new"
      and k1: "same_keys s s1" and l1: "se_layers s1 = se_layers s"
      using Pair None by (auto simp: rekey_enter_def same_keys_def Let_def split: if_splits option.splits)
    have inv1: "session_inv s1" using session_step_inv [OF session_step.enter inv] Pair None by simp
    define r where "r = se_nextRef s1"
    define s2 where "s2 = rekey_install ?old ?new s1"
    have k2: "same_keys s s2" unfolding s2_def using k1 install_keys by (rule same_keys_trans)
    have "layer_at s1 k \<noteq> Some (se_nextRef s1)" for k using inv1 unfolding session_inv_def store_ok_def by (metis le_refl)
    then have l2: "layer_at s2 ?old = layer_at s ?old"
      using nextKeyID_ne [of ?old] inv l1 by (simp add: s2_def rekey_install_views(1) session_inv_def active_ok_def)
    obtain e3 s3 where p: "rekey_pumps ?old ?new r s2 = (e3, s3)" by (cases "rekey_pumps ?old ?new r s2")
    have k3: "same_keys s s3" using same_keys_trans [OF k2] pumps_keys p by (metis snd_conv)
    obtain e4 s4 where q: "rekey_send now ?old ?new r s3 = (e4, s4)" by (cases "rekey_send now ?old ?new r s3")
    have k4: "same_keys s s4" using same_keys_trans [OF k3] send_keys q by (metis snd_conv)
    have res: "PerformSoftReset env now s = (case e3 of Some x \<Rightarrow> (Some x, s3)
         | None \<Rightarrow> (case e4 of Some x \<Rightarrow> (Some x, s4) | None \<Rightarrow> rekey_finish env ?old ?new r (se_nextRef s3) s4))"
      using Pair None ph1 p q by (simp add: PerformSoftReset_def r_def s2_def Let_def split: option.splits)
    have i3: "se_rekeyPhase s3 = RekeyIdle" if "e3 = Some x" for x
      using p that by (auto simp: rekey_pumps_def split: prod.splits if_splits)
    have i4: "se_rekeyPhase s4 = RekeyIdle" if "e4 = Some x" for x
      using q that by (auto simp: rekey_send_def Let_def split: prod.splits option.splits)
    have l3: "se_layers s3 = se_layers s2" if "e3 = None"
      using p that startLayerPumps_frame(8) [of r s2]
      by (cases "startLayerPumps r s2") (auto simp: rekey_pumps_def split: if_splits)
    have l4: "se_layers s4 = se_layers s3" if "e4 = None"
      using q that by (auto simp: rekey_send_def Let_def split: prod.splits option.splits)
    consider x where "e3 = Some x" | x where "e3 = None" "e4 = Some x"
      | x where "e3 = None" "e4 = None" "rekey_exchange env ?new s4 = Inl x"
      | sl where "e3 = None" "e4 = None" "rekey_exchange env ?new s4 = Inr sl"
      by (metis not_None_eq sum.exhaust)
    then show thesis
    proof cases
      case (1 x)
      then show thesis using res run k3 i3 mgr by (intro failed [of x]) simp_all
    next
      case (2 x)
      then show thesis using res run k4 i4 mgr by (intro failed [of x]) simp_all
    next
      case (3 x)
      let ?f = "rekey_finish env ?old ?new r (se_nextRef s3) s4"
      have "?f = (err, t)" using res run 3 by simp
      then have "t = snd ?f" "err = fst ?f" by simp_all
      moreover have "fst ?f = Some x" "se_rekeyPhase (snd ?f) = RekeyIdle" using 3 by (simp_all add: rekey_finish_def Let_def)
      ultimately show thesis
        using same_keys_trans [OF k4 finish_failed_keys [OF 3(3)]] mgr by (intro failed [of x]) simp_all
    next
      case (4 sl)
      let ?f = "rekey_finish env ?old ?new r (se_nextRef s3) s4"
      have "?f = (err, t)" using res run 4 by simp
      then have "t = snd ?f" "err = fst ?f" by simp_all
      moreover have "fst ?f = None" using 4 by (simp add: rekey_finish_def Let_def)
      ultimately show thesis using k4 l2 l3 l4 4 mgr by (intro switched [of s4 sl r "se_nextRef s3"]) simp_all
    qed
  qed
qed

lemma switched_state:
  assumes "rekey_exchange env new s = Inr sl" and "new \<noteq> old"
  shows "slots_ActiveKID (se_slots (snd (rekey_finish env old new r c s))) = new"
    and "slots_Active (se_slots (snd (rekey_finish env old new r c s))) = Some (se_nextRef s)"
    and "se_slotAt (snd (rekey_finish env old new r c s)) (se_nextRef s) = Some sl"
    and "slot_at (snd (rekey_finish env old new r c s)) old = slot_at s old"
    and "(old, slot_at s old, layer_at s old) \<in> set (se_retireTimers (snd (rekey_finish env old new r c s)))"
proof -
  have "se_slotAt (installTLSConn (Some c) x) = se_slotAt x" for x
    by (simp add: installTLSConn_def Let_def workers_Go_def split: option.splits prod.splits)
  then show "se_slotAt (snd (rekey_finish env old new r c s)) (se_nextRef s) = Some sl"
    by (simp add: rekey_finish_success [OF assms(1)] rekey_release_def switch_slot_def Let_def put_slot_def)
qed (use assms(2) in \<open>simp_all add: rekey_finish_success [OF assms(1)] slots_Active_Get Let_def\<close>)

text \<open>
  C10. What a soft reset does to the keys of a live session. If it fails (refused, the session
  closing, the send or the TLS handshake failing, a bad reply, an unusable key), the slots are
  exactly those from before, and the guard is free again for the next attempt unless another rekey
  held it all along. If it succeeds, the session sends under the next key-id with the slot built
  from the material the new TLS session exported, the old key is still there to receive with, and
  the timer that will retire it names its slot and its layer.
\<close>

theorem PerformSoftReset_outcome:
  assumes "handshake_step\<^sup>*\<^sup>* (newSession cfg w sid) s0" and "session_established lib now hr s0 = (Inr (), s1)"
    and "session_step\<^sup>*\<^sup>* s1 s" and "PerformSoftReset env later s = (err, t)" and "old = slots_ActiveKID (se_slots s)"
  shows "case err of
      Some e \<Rightarrow> se_slots t = se_slots s \<and> se_slotAt t = se_slotAt s \<and>
        (t = s \<or> (\<exists>m. se_rekeyMgr t = Some m \<and> \<not> rm_inProgress m))
    | None \<Rightarrow> (\<exists>p sl mat keyLen. slots_ActiveKID (se_slots t) = nextKeyID old \<and> slots_Active (se_slots t) = Some p \<and>
        se_slotAt t p = Some sl \<and> rk_ekm env ExportLabel DataKeyMaterialLen = Some mat \<and>
        AEADKeyLen (se_cipher s) = Inr keyLen \<and>
        rekey_slot (rk_lib env) (nextKeyID old) (se_cipher s) (se_peerID s) mat keyLen = Inr sl \<and>
        slots_Get (se_slots t) old = slots_Get (se_slots s) old \<and>
        (old, slots_Get (se_slots s) old, layers_Get (se_layers s) old) \<in> set (se_retireTimers t))"
proof -
  have inv: "session_inv s" using live_session_inv [OF assms(1-3)] .
  from assms(4) inv show ?thesis
  proof (cases rule: soft_reset_run)
    case (refused e)
    then show ?thesis by simp
  next
    case (failed e)
    have "session_inv t" using PerformSoftReset_steps [OF assms(4)] session_steps_inv inv by blast
    then show ?thesis using failed by (auto simp: session_inv_def phase_ok_def same_keys_def split: option.splits)
  next
    case (switched s4 sl r c)
    have ne: "nextKeyID old \<noteq> old" using inv nextKeyID_ne assms(5) by (simp add: session_inv_def active_ok_def)
    obtain mat keyLen where "rk_ekm env ExportLabel DataKeyMaterialLen = Some mat" "AEADKeyLen (se_cipher s) = Inr keyLen"
      "rekey_slot (rk_lib env) (nextKeyID old) (se_cipher s) (se_peerID s) mat keyLen = Inr sl"
      using rekey_exchange_slot [OF switched(4)] switched(2) assms(5) by (auto simp: same_keys_def)
    then show ?thesis
      using switched_state [OF switched(4), of old r c] ne switched assms(5) by (auto simp: same_keys_def)
  qed
qed

definition demo_env :: rekey_env where
  "demo_env = \<lparr>rk_handshake = False, rk_rand = None, rk_write = True, rk_stream = [], rk_ekm = (\<lambda>label n. None),
     rk_lib = demo_lib, rk_goos = ''linux''\<rparr>"

theorem PerformSoftReset_outcome_witness:
  "\<exists>err t. PerformSoftReset demo_env 5 demo_session = (err, t) \<and>
     slots_ActiveKID (se_slots t) = (case err of
        Some e \<Rightarrow> slots_ActiveKID (se_slots demo_session)
      | None \<Rightarrow> nextKeyID (slots_ActiveKID (se_slots demo_session)))"
proof -
  obtain err t where t: "PerformSoftReset demo_env 5 demo_session = (err, t)"
    by (cases "PerformSoftReset demo_env 5 demo_session")
  from PerformSoftReset_outcome [OF demo_handshake demo_established _ t refl] show ?thesis
    using t by (cases err) auto
qed

end
