(* ===== verification/Watchdogs.thy ===== *)
theory Watchdogs
  imports SessionDial
begin

text \<open>
  The periodic workers of a session (\<^verbatim>\<open>internal/session/keepalive.go\<close>): the keepalive sender, the
  four watchdogs that turn silence, a stalled data path, a server that forgot the session or a
  suspended host into a restart, and the statistics logger. Each is a loop over a ticker; the
  definitions are one tick, on the session and the loop's own variables. The first component of a
  result says whether the loop goes on.
\<close>

section \<open>Keepalive\<close>

text \<open>
  \<open>now\<close> is the tick's time, \<open>wnow\<close> the clock after a failed write, \<open>outcome\<close> the transport's answer,
  \<open>lastPing\<close> the loop's \<^verbatim>\<open>lastPingSent\<close>. The loop does not start when no interval is set.
\<close>

definition keepaliveLoop_tick :: "(nat \<Rightarrow> byte) \<Rightarrow> int \<Rightarrow> int \<Rightarrow> transport_error option \<Rightarrow> int \<Rightarrow> Session \<Rightarrow> bool \<times> int \<times> Session" where
  "keepaliveLoop_tick stale now wnow outcome lastPing s =
     (if se_closed s then (False, lastPing, s)
      else
        let interval = se_PingInterval s;
            lastOut = se_lastUserOutbound s;
            lastOut = (if lastPing > lastOut then lastPing else lastOut)
        in if now - lastOut < interval then (True, lastPing, s)
           else case slots_Active (se_slots s) of
             None \<Rightarrow> (True, lastPing, s)
           | Some r \<Rightarrow>
             (case Seal stale (slot_of s r) PingMagic of
                (Inl e, slot) \<Rightarrow> (True, lastPing, put_slot r slot s)
              | (Inr wire, slot) \<Rightarrow>
                let s = put_slot r slot s
                in (case outcome of
                      Some e \<Rightarrow> (True, lastPing,
                        s\<lparr>se_statsOutboundErr := se_statsOutboundErr s + 1, se_lastOutboundErrNs := wnow\<rparr>)
                    | None \<Rightarrow> (True, now,
                        s\<lparr>se_wire := se_wire s @ [wire], se_statsOutboundOK := se_statsOutboundOK s + 1\<rparr>))))"

section \<open>Watchdogs\<close>

text \<open>
  A watchdog that fires records its reason, hands \<^verbatim>\<open>Close\<close> to a goroutine of its own (the string
  names it) and ends.
\<close>

definition watchdog_fires :: "string \<Rightarrow> Session \<Rightarrow> Session" where
  "watchdog_fires why s = closeAsync why (setCloseErr (RestartError 0 why) s)"

definition activity_of :: "Session \<Rightarrow> activity" where
  "activity_of s = \<lparr>ac_lastOut = se_lastUserOutbound s, ac_lastIn = se_lastDataInbound s,
     ac_lastTCPOut = se_lastUserOutboundTCP s, ac_lastTCPIn = se_lastDataInboundTCP s,
     ac_lastUDPOut = se_lastUserOutboundUDP s, ac_lastUDPIn = se_lastDataInboundUDP s\<rparr>"

definition dataActivityWatch_tick :: "int \<Rightarrow> int \<Rightarrow> Session \<Rightarrow> bool \<times> Session" where
  "dataActivityWatch_tick start now s =
     (case activity_tick (activity_setup (cfg_activity (se_cfg s))) start now (activity_of s) of
        None \<Rightarrow> (True, s)
      | Some d \<Rightarrow> (False, watchdog_fires ''data-activity stuck'' s))"

definition pingRestartWatch_tick :: "int \<Rightarrow> Session \<Rightarrow> bool \<times> Session" where
  "pingRestartWatch_tick now s =
     (let restart = se_PingRestart s;
          idle = now - se_lastInbound s
      in if idle < restart then (True, s) else (False, watchdog_fires ''ping-restart timeout'' s))"

text \<open>\<^verbatim>\<open>baseline\<close> is never assigned: it keeps its zero value.\<close>

definition hardResetWatch_tick :: "Session \<Rightarrow> bool \<times> Session" where
  "hardResetWatch_tick s =
     (let baseline = 0; current = se_statsHardResetIn s
      in if current - baseline < hardResetThreshold then (True, s) else (False, watchdog_fires ''server hard-reset'' s))"

definition wakeDetectorWatch_tick :: "int \<Rightarrow> int \<Rightarrow> Session \<Rightarrow> bool \<times> int \<times> Session" where
  "wakeDetectorWatch_tick lastTick now s =
     (let gap = now - lastTick
      in if gap < wakeDetectGapThreshold then (True, now, s) else (False, now, watchdog_fires ''wake from sleep'' s))"

section \<open>Statistics\<close>

record Stats =
  st_Forwarded :: u64
  st_DroppedFull :: u64
  st_PingIn :: u64
  st_OpenFailed :: u64
  st_StrayHandshake :: u64
  st_HardResetIn :: u64
  st_LastInbound :: "int option"
  st_LastDataInbound :: "int option"
  st_LastUserOutbound :: "int option"

text \<open>\<^const>\<open>None\<close> is the zero \<^verbatim>\<open>time.Time\<close>.\<close>

definition Session_Stats :: "Session \<Rightarrow> Stats" where
  "Session_Stats s =
     (let nsToTime = (\<lambda>ns. if ns = 0 then None else Some ns)
      in \<lparr>st_Forwarded = se_statsForwarded s, st_DroppedFull = se_statsDroppedFull s, st_PingIn = se_statsPingIn s,
          st_OpenFailed = se_statsOpenFailed s, st_StrayHandshake = se_statsStrayHandshake s,
          st_HardResetIn = se_statsHardResetIn s, st_LastInbound = nsToTime (se_lastInbound s),
          st_LastDataInbound = nsToTime (se_lastDataInbound s), st_LastUserOutbound = nsToTime (se_lastUserOutbound s)\<rparr>)"

record stats_counters =
  sn_forwarded :: u64
  sn_dropped :: u64
  sn_pingIn :: u64
  sn_openFailed :: u64
  sn_stray :: u64
  sn_hardReset :: u64
  sn_outOK :: u64
  sn_outErr :: u64
  sn_enobufs :: u64

datatype log_level = LevelDebug | LevelWarn

definition stats_now :: "u64 \<Rightarrow> Session \<Rightarrow> stats_counters" where
  "stats_now enobufs s =
     \<lparr>sn_forwarded = se_statsForwarded s, sn_dropped = se_statsDroppedFull s, sn_pingIn = se_statsPingIn s,
      sn_openFailed = se_statsOpenFailed s, sn_stray = se_statsStrayHandshake s, sn_hardReset = se_statsHardResetIn s,
      sn_outOK = se_statsOutboundOK s, sn_outErr = se_statsOutboundErr s, sn_enobufs = enobufs\<rparr>"

definition stats_delta :: "stats_counters \<Rightarrow> stats_counters \<Rightarrow> stats_counters" where
  "stats_delta cur prev =
     \<lparr>sn_forwarded = sn_forwarded cur - sn_forwarded prev, sn_dropped = sn_dropped cur - sn_dropped prev,
      sn_pingIn = sn_pingIn cur - sn_pingIn prev, sn_openFailed = sn_openFailed cur - sn_openFailed prev,
      sn_stray = sn_stray cur - sn_stray prev, sn_hardReset = sn_hardReset cur - sn_hardReset prev,
      sn_outOK = sn_outOK cur - sn_outOK prev, sn_outErr = sn_outErr cur - sn_outErr prev,
      sn_enobufs = sn_enobufs cur - sn_enobufs prev\<rparr>"

text \<open>One tick: the level and the deltas it logs, and the counters it remembers.\<close>

definition statsLogger_tick :: "int \<Rightarrow> u64 \<Rightarrow> stats_counters \<Rightarrow> Session \<Rightarrow> (log_level \<times> stats_counters) \<times> stats_counters" where
  "statsLogger_tick now enobufs prev s =
     (let cur = stats_now enobufs s;
          d = stats_delta cur prev;
          sinceLastIn = now - se_lastDataInbound s;
          level = (if sn_dropped d > 0 \<or> sn_openFailed d > 0 \<or> sn_hardReset d > 0 \<or> sn_outErr d > 0 \<or>
                      sn_enobufs d > 10 \<or> (sn_forwarded d = 0 \<and> sinceLastIn > statsLogPeriod)
                   then LevelWarn else LevelDebug)
      in ((level, d), cur))"

section \<open>Properties\<close>

definition watchdog_outcome :: "bool \<Rightarrow> string \<Rightarrow> Session \<Rightarrow> bool \<times> Session \<Rightarrow> bool" where
  "watchdog_outcome fires why s res \<longleftrightarrow>
     (if fires then \<not> fst res \<and> se_closing (snd res) = se_closing s @ [why] \<and>
        CloseErr (snd res) = (if CloseErr s = None then Some (RestartError 0 why) else CloseErr s)
      else res = (True, s))"

definition data_path_stuck :: "int \<Rightarrow> int \<Rightarrow> Session \<Rightarrow> bool" where
  "data_path_stuck start now s \<longleftrightarrow>
     (let p = activity_setup (cfg_activity (se_cfg s)); age = now - start; fast = age < ap_fastWindow p;
          th = (if fast then ap_thresholdFast p else ap_thresholdSteady p)
      in age \<ge> (if fast then ap_warmupFast p else ap_warmupSteady p) \<and>
         (stalled now age th (se_lastUserOutboundTCP s) (se_lastDataInboundTCP s) \<or>
          stalled now age th (se_lastUserOutboundUDP s) (se_lastDataInboundUDP s) \<or>
          se_lastUserOutbound s > 0 \<and> se_lastDataInbound s > 0 \<and>
            stalled now age th (se_lastUserOutbound s) (se_lastDataInbound s)))"

lemma fires_outcome: "watchdog_outcome True why s (False, watchdog_fires why s)"
  by (simp add: watchdog_outcome_def watchdog_fires_def closeAsync_def setCloseErr_def CloseErr_def split: option.splits)

lemma idle_outcome: "watchdog_outcome False why s (True, s)"
  by (simp add: watchdog_outcome_def)

lemma activity_tick_iff:
  "activity_tick (activity_setup (cfg_activity (se_cfg s))) start now (activity_of s) \<noteq> None \<longleftrightarrow> data_path_stuck start now s"
  unfolding activity_tick_def data_path_stuck_def Let_def
  by (simp add: decide_reason activity_of_def split: prod.splits)


end
