(* ===== verification/Tunnel.thy ===== *)
theory Tunnel
  imports Watchdogs SessionProperties
begin

text \<open>
  The components composed: what one end of a session hands to its transport, and what the other
  end makes of it. A user's packet goes through \<open>WriteCtx\<close>, \<open>Seal\<close>, the wire, \<open>readLoop_turn\<close>, \<open>Open\<close>
  to the handler or the reader's channel; a keepalive goes the same way and stops short of the
  user; a control packet goes from the outbound channel of a layer through the codec and the
  wrapper to \<open>HandleInbound\<close> of the layer at the other end.
\<close>

section \<open>The control wrapper of a session\<close>

fun wrapper_win :: "controlWrapper \<Rightarrow> pidWindow" where
  "wrapper_win (CryptWrapper w) = wr_recvWin w"
| "wrapper_win (AuthWrapper a) = au_recvWin a"

fun wrapper_pid :: "controlWrapper \<Rightarrow> u32" where
  "wrapper_pid (CryptWrapper w) = wr_sendPID w"
| "wrapper_pid (AuthWrapper a) = au_sendPID a"

fun wrapper_can_send :: "controlWrapper \<Rightarrow> bool" where
  "wrapper_can_send (CryptWrapper w) = wrapper_ready w"
| "wrapper_can_send (AuthWrapper a) = auth_ready a"

fun wrapper_pair :: "controlWrapper \<Rightarrow> controlWrapper \<Rightarrow> bool" where
  "wrapper_pair (CryptWrapper w) (CryptWrapper r) = wrapper_peers w r"
| "wrapper_pair (AuthWrapper a) (AuthWrapper b) = auth_peers a b"
| "wrapper_pair _ _ = False"

fun wrapper_replay :: "controlWrapper \<Rightarrow> u32 \<Rightarrow> wrap_error" where
  "wrapper_replay (CryptWrapper w) pid = CryptError (ReplayedPID pid)"
| "wrapper_replay (AuthWrapper a) pid = AuthError (AuthReplay pid)"

text \<open>The dynamic dispatch keeps the contract of its two implementations.\<close>

interpretation wrapped: control_wrapper "wrapper_Wrap h" "wrapper_Unwrap h" wrapper_win wrapper_pid wrapper_can_send
  wrapper_pair wrapper_replay
  for h
proof unfold_locales
  show "wrapper_pid (snd (wrapper_Wrap h t w opk sid pt)) = wrapper_pid w + 1" for t w opk sid pt
    using crypt.wrap_pid [of h t] auth.wrap_pid [of h t] by (cases w) (simp_all add: case_prod_beta)
  show "wrapper_can_send (snd (wrapper_Wrap h t w opk sid pt))" if "wrapper_can_send w" for t w opk sid pt
    using that crypt.wrap_ready [of _ h t] auth.wrap_ready [of _ h t] by (cases w) (simp_all add: case_prod_beta)
  show "wrapper_pair (snd (wrapper_Wrap h t w opk sid pt)) r" if "wrapper_pair w r" for t w r opk sid pt
    using that crypt.wrap_peers [of _ _ h t] auth.wrap_peers [of _ _ h t]
    by (cases w; cases r) (simp_all add: case_prod_beta)
  show "fst (wrapper_Unwrap h r (fst (wrapper_Wrap h t w opk sid pt))) =
      (if pidWindow_Test (wrapper_win r) (wrapper_pid w + 1) then Inr (opk, sid, wrapper_pid w + 1, pt)
       else Inl (wrapper_replay r (wrapper_pid w + 1)))"
    if "wrapper_can_send w" "wrapper_pair w r" for t w r opk sid pt
    using that crypt.unwrap_wrap [of _ _ h t opk sid pt] auth.unwrap_wrap [of _ _ h t opk sid pt]
    by (cases w; cases r) (simp_all add: case_prod_beta)
  show "wrapper_win (snd (wrapper_Unwrap h r p)) = (case fst (wrapper_Unwrap h r p) of
      Inl e \<Rightarrow> wrapper_win r | Inr (opk, sid, pid, pt) \<Rightarrow> snd (pidWindow_Accept (wrapper_win r) pid))" for r p
    using crypt.unwrap_win [of h _ p] auth.unwrap_win [of h _ p]
    by (cases r) (auto simp: case_prod_beta split: sum.splits)
  show "pidWindow_Test (wrapper_win r) pid" if "fst (wrapper_Unwrap h r p) = Inr (opk, sid, pid, pt)" for r p opk sid pid pt
    using that crypt.unwrap_fresh [of h _ p opk sid pid pt] auth.unwrap_fresh [of h _ p opk sid pid pt]
    by (cases r) (auto simp: case_prod_beta map_sum_def split: sum.splits)
  show "wrapper_pair w (snd (wrapper_Unwrap h r p))" if "wrapper_pair w r" for w r p
    using that crypt.unwrap_peers [of _ _ h p] auth.unwrap_peers [of _ _ h p]
    by (cases w; cases r) (simp_all add: case_prod_beta)
qed

lemma wrapped_opcode:
  assumes "wrapper_can_send w"
  shows "\<exists>rest. fst (wrapper_Wrap h t w opk sid pt) = opk # rest"
  using assms by (cases w) (simp_all add: Wrap_eq crypt_packet_def crypt_ad_def Auth_Wrap_eq auth_packet_def Let_def)

section \<open>A control packet\<close>

text \<open>What a layer sees of a packet survives the codec.\<close>

lemma HandleInbound_cong:
  assumes "ip_Opcode a = ip_Opcode b" and "ip_SessionID a = ip_SessionID b"
    and "ip_Opcode b = PAckV1 \<Longrightarrow> ap_Acks (ip_Ack a) = ap_Acks (ip_Ack b)"
    and "ip_Opcode b \<noteq> PAckV1 \<Longrightarrow> cp_Acks (ip_Payload a) = cp_Acks (ip_Payload b) \<and>
      cp_MessagePID (ip_Payload a) = cp_MessagePID (ip_Payload b) \<and> cp_Body (ip_Payload a) = cp_Body (ip_Payload b)"
  shows "HandleInbound now a l = HandleInbound now b l"
proof (cases "ip_Opcode b = PAckV1")
  case True
  with assms(3) show ?thesis unfolding HandleInbound_def assms(1,2) by simp
next
  case False
  then have eqs: "cp_Acks (ip_Payload a) = cp_Acks (ip_Payload b)" "cp_Body (ip_Payload a) = cp_Body (ip_Payload b)"
    "cp_MessagePID (ip_Payload a) = cp_MessagePID (ip_Payload b)" using assms(4) by simp_all
  show ?thesis unfolding HandleInbound_def assms(1,2) eqs using False by simp
qed

lemma inbound_packet_marshalled:
  assumes "marshal_out out = Inr body"
  obtains pk where "inbound_packet (op_Opcode out) kid (op_SessionID out) body = Inr pk"
    "\<And>now l. HandleInbound now pk l = HandleInbound now (as_inbound out) l"
proof (cases "op_Opcode out = PAckV1")
  case True
  then have "ParseAckPayload body = Inr (op_Ack out)"
    using assms ParseAckPayload_MarshalAckPayload [of "op_Ack out" body "[]"] by (simp add: marshal_out_def IsAck_def)
  then show thesis
    by (intro that [of "\<lparr>ip_Opcode = PAckV1, ip_KeyID = kid, ip_SessionID = op_SessionID out, ip_Payload = zero_payload,
          ip_Ack = op_Ack out\<rparr>"]) (simp_all add: inbound_packet_def True HandleInbound_def as_inbound_def)
next
  case False
  then have "MarshalControlPayload (op_Payload out) = Inr body" using assms by (simp add: marshal_out_def IsAck_def)
  from ParseControlPayload_MarshalControlPayload [OF this] False show thesis
    by (intro that [of "\<lparr>ip_Opcode = op_Opcode out, ip_KeyID = kid, ip_SessionID = op_SessionID out,
          ip_Payload = (op_Payload out)\<lparr>cp_RemoteSessionID :=
            if cp_Acks (op_Payload out) = [] then 0 else cp_RemoteSessionID (op_Payload out)\<rparr>, ip_Ack = zero_ack\<rparr>"])
       (simp add: inbound_packet_def, rule HandleInbound_cong, simp_all add: as_inbound_def)
qed

lemma kid_and_7: "unat (k :: u8) < 8 \<Longrightarrow> k AND 7 = k"
  using take_bit_small [of k 3] by simp

lemma IsControl_5bit: "IsControl opc \<Longrightarrow> opc < 32"
  by (auto simp: IsControl_def opcode_defs)

text \<open>
  C11. A control packet crosses from one session to the other unchanged. When the pump of a layer
  takes a packet from its outbound channel and the transport accepts it, then the read loop of the
  other end, on what was put on the wire, hands the layer of that key-id exactly that packet (as
  the reliability layer's own model of the network has it), provided the two wrappers hold matching
  keys and the receiver has not seen the packet-id. This holds for tls-crypt and tls-auth alike.
\<close>

theorem control_packet_travels:
  assumes "take_outbound (layer_of s r) = (Some out, l)" and "marshal_out out = Inr body"
    and "IsControl (op_Opcode out)" and "unat (op_KeyID out) < 8"
    and "wrapper_can_send (se_wrapper s)" and "wrapper_pair (se_wrapper s) (se_wrapper t)"
    and "pidWindow_Test (wrapper_win (se_wrapper t)) (wrapper_pid (se_wrapper s) + 1)"
    and "layers_Get (se_layers t) (op_KeyID out) = Some q"
  shows "\<exists>pkt. se_wire (snd (writeLoop_turn h netTime now None r s)) = se_wire s @ [pkt] \<and>
    (\<exists>w. readLoop_turn h later (Inr pkt) t =
       (True, put_layer q (snd (HandleInbound later (as_inbound out) (layer_of t q))) (t\<lparr>se_wrapper := w\<rparr>)))"
proof -
  let ?opk = "PackOpcodeKID (op_Opcode out) (op_KeyID out)"
  define pkt where "pkt = fst (wrapper_Wrap h netTime (se_wrapper s) ?opk (op_SessionID out) body)"
  have "se_wire (snd (writeLoop_turn h netTime now None r s)) = se_wire s @ [pkt]"
    using assms(1,2) by (simp add: writeLoop_turn_def pkt_def case_prod_beta Let_def)
  moreover obtain rest where rest: "pkt = ?opk # rest" using wrapped_opcode [OF assms(5)] unfolding pkt_def by blast
  moreover have un: "UnpackOpcodeKID ?opk = (op_Opcode out, op_KeyID out)"
    using Unpack_Pack [OF IsControl_5bit [OF assms(3)]] kid_and_7 [OF assms(4)] by metis
  moreover have "fst (wrapper_Unwrap h (se_wrapper t) pkt) = Inr (?opk, op_SessionID out, wrapper_pid (se_wrapper s) + 1, body)"
    using wrapped.unwrap_wrap [OF assms(5,6)] assms(7) by (simp add: pkt_def)
  then obtain w where "wrapper_Unwrap h (se_wrapper t) pkt = (Inr (?opk, op_SessionID out, wrapper_pid (se_wrapper s) + 1, body), w)"
    by (metis prod.collapse)
  moreover obtain pk where "inbound_packet (op_Opcode out) (op_KeyID out) (op_SessionID out) body = Inr pk"
    "\<And>now l. HandleInbound now pk l = HandleInbound now (as_inbound out) l"
    using inbound_packet_marshalled [OF assms(2)] by blast
  moreover have "\<not> IsData (op_Opcode out)" using assms(3) by (auto simp: IsControl_def IsData_def opcode_defs)
  ultimately show ?thesis using assms(3,8) by (auto simp: readLoop_turn_def handleControlIn_def Let_def)
qed

definition demo_out :: OutPacket where
  "demo_out = \<lparr>op_Opcode = PControlV1, op_KeyID = 0, op_SessionID = 42,
     op_Payload = \<lparr>cp_Acks = [], cp_RemoteSessionID = 0, cp_MessagePID = 0, cp_Body = [65]\<rparr>, op_Ack = zero_ack\<rparr>"

definition demo_sending :: Session where
  "demo_sending = (put_layer 0 ((New \<lparr>lc_LocalSessionID = 42, lc_InitialKeyID = 0, lc_OutboundBuffer = 0\<rparr>)
     \<lparr>ly_outbound := [demo_out]\<rparr>) demo_new)\<lparr>se_wrapper := CryptWrapper demo_wrapper\<rparr>"

definition demo_receiving :: Session where
  "demo_receiving = demo_new\<lparr>se_wrapper := CryptWrapper
     (demo_wrapper\<lparr>wr_keys := \<lparr>SendHMAC = [2], SendCipher = [], RecvHMAC = [1], RecvCipher = []\<rparr>\<rparr>)\<rparr>"

lemma demo_wrappers: "se_wrapper demo_sending = CryptWrapper demo_wrapper"
  "se_wrapper demo_receiving = CryptWrapper
     (demo_wrapper\<lparr>wr_keys := \<lparr>SendHMAC = [2], SendCipher = [], RecvHMAC = [1], RecvCipher = []\<rparr>\<rparr>)"
  by (simp_all add: demo_sending_def demo_receiving_def)

theorem control_packet_travels_witness:
  "\<exists>pkt. se_wire (snd (writeLoop_turn (\<lambda>d k m. 0) 0 0 None 0 demo_sending)) = se_wire demo_sending @ [pkt] \<and>
    (\<exists>w. readLoop_turn (\<lambda>d k m. 0) 1 (Inr pkt) demo_receiving =
       (True, put_layer 0 (snd (HandleInbound 1 (as_inbound demo_out) (layer_of demo_receiving 0))) (demo_receiving\<lparr>se_wrapper := w\<rparr>)))"
proof (rule control_packet_travels)
  show "take_outbound (layer_of demo_sending 0) =
      (Some demo_out, New \<lparr>lc_LocalSessionID = 42, lc_InitialKeyID = 0, lc_OutboundBuffer = 0\<rparr>)"
    by (simp add: demo_sending_def put_layer_def take_outbound_def New_def)
  show "marshal_out demo_out = Inr [0, 0, 0, 0, 0, 65]" unfolding demo_out_def by code_simp
  show "IsControl (op_Opcode demo_out)" "unat (op_KeyID demo_out) < 8" by (simp_all add: demo_out_def IsControl_def)
  show "wrapper_can_send (se_wrapper demo_sending)" "wrapper_pair (se_wrapper demo_sending) (se_wrapper demo_receiving)"
    by (simp_all add: demo_wrappers demo_wrapper_def wrapper_ready_def wrapper_peers_def)
  show "pidWindow_Test (wrapper_win (se_wrapper demo_receiving)) (wrapper_pid (se_wrapper demo_sending) + 1)"
    by (simp add: demo_wrappers demo_wrapper_def pidWindow_Test_def zero_window_def)
  show "layers_Get (se_layers demo_receiving) (op_KeyID demo_out) = Some 0"
    using newSession_views(2) [of demo_cfg "CryptWrapper demo_wrapper" 42 0]
    by (simp add: demo_receiving_def demo_new_def demo_out_def)
qed

section \<open>A user's packet\<close>

lemma data_packet_opcode: "slot_wf x \<Longrightarrow> \<exists>rest. data_packet x pid p = PackOpcodeKID PDataV2 (sl_KeyID x) # rest"
  by (simp add: data_packet_def DataV2Header_AppendBinary_def Let_def)

text \<open>What the read loop makes of a sealed packet of the matching slot.\<close>

lemma data_packet_received:
  assumes "slot_wf x" and "slot_wf y" and "slots_agree x y" and "slots_Get (se_slots t) (sl_KeyID x) = Some q"
    and "slot_of t q = y"
  shows "readLoop_turn h now (Inr (data_packet x pid p)) t = (True, handleDataIn now (data_packet x pid p) (sl_KeyID x) t)"
    and "OpenInto (slot_of t q) [] (data_packet x pid p) =
      (if Test (sl_recvWin y) pid then (Inr p, y\<lparr>sl_recvWin := snd (Accept (sl_recvWin y) pid)\<rparr>) else (Inl (Replay pid), y))"
proof -
  obtain rest where rest: "data_packet x pid p = PackOpcodeKID PDataV2 (sl_KeyID x) # rest"
    using data_packet_opcode [OF assms(1)] by blast
  have "UnpackOpcodeKID (PackOpcodeKID PDataV2 (sl_KeyID x)) = (PDataV2, sl_KeyID x)"
    using Unpack_Pack [of PDataV2 "sl_KeyID x"] kid_and_7 [of "sl_KeyID x"] assms(1) by (simp add: opcode_defs slot_wf_def)
  then show "readLoop_turn h now (Inr (data_packet x pid p)) t = (True, handleDataIn now (data_packet x pid p) (sl_KeyID x) t)"
    by (simp add: readLoop_turn_def rest IsData_def)
  show "OpenInto (slot_of t q) [] (data_packet x pid p) =
      (if Test (sl_recvWin y) pid then (Inr p, y\<lparr>sl_recvWin := snd (Accept (sl_recvWin y) pid)\<rparr>) else (Inl (Replay pid), y))"
    using Open_data_packet [OF assms(1-3), of pid p] assms(5) by (simp add: OpenInto_Open)
qed

text \<open>
  Two sessions that share a data key: the sender's active slot and the slot of the same key-id at
  the receiver agree, and the receiver has not yet seen the packet-id the sender will use next.
\<close>

definition data_linked :: "Session \<Rightarrow> Session \<Rightarrow> bool" where
  "data_linked s t \<longleftrightarrow> (\<exists>r x q y. slots_Active (se_slots s) = Some r \<and> se_slotAt s r = Some x \<and> slot_wf x \<and>
     slots_Get (se_slots t) (sl_KeyID x) = Some q \<and> se_slotAt t q = Some y \<and> slot_wf y \<and> slots_agree x y \<and>
     sl_sendPID x + 1 < PacketIDRekeyThreshold \<and> Test (sl_recvWin y) (sl_sendPID x + 1))"

lemma data_linkedE:
  assumes "data_linked s t"
  obtains r x q y where "slots_Active (se_slots s) = Some r" "se_slotAt s r = Some x" "slot_wf x"
    "slots_Get (se_slots t) (sl_KeyID x) = Some q" "se_slotAt t q = Some y" "slot_wf y" "slots_agree x y"
    "\<And>stale p. Seal stale x p = (Inr (data_packet x (sl_sendPID x + 1) p), x\<lparr>sl_sendPID := sl_sendPID x + 1\<rparr>)"
    "Test (sl_recvWin y) (sl_sendPID x + 1)"
proof -
  obtain r x q y where *: "slots_Active (se_slots s) = Some r" "se_slotAt s r = Some x" "slot_wf x"
    "slots_Get (se_slots t) (sl_KeyID x) = Some q" "se_slotAt t q = Some y" "slot_wf y" "slots_agree x y"
    "sl_sendPID x + 1 < PacketIDRekeyThreshold" "Test (sl_recvWin y) (sl_sendPID x + 1)"
    using assms unfolding data_linked_def by blast
  have "Seal stale x p = (Inr (data_packet x (sl_sendPID x + 1) p), x\<lparr>sl_sendPID := sl_sendPID x + 1\<rparr>)" for stale p
    using *(3,8) by (subst Seal_eq) (simp_all add: slot_wf_def Let_def not_le)
  with * show thesis by (intro that) 
qed

text \<open>The session after a packet arrived: its slot, the inbound clocks, then the delivery.\<close>

lemma sniff_frame [simp]:
  fixes t now ip
  defines "u \<equiv> (if sniffL4 ip = l4ProtoTCP then t\<lparr>se_lastDataInboundTCP := now\<rparr>
     else if sniffL4 ip = l4ProtoUDP then t\<lparr>se_lastDataInboundUDP := now\<rparr> else t)"
  shows "se_handler u = se_handler t" "se_handled u = se_handled t" "se_ingressCh u = se_ingressCh t" "se_cfg u = se_cfg t"
    "se_statsDroppedFull u = se_statsDroppedFull t" "se_statsForwarded u = se_statsForwarded t"
    "se_lastDataInbound u = se_lastDataInbound t" "se_lastInbound u = se_lastInbound t"
  by (simp_all add: u_def)

definition delivered :: "bytes \<Rightarrow> Session \<Rightarrow> Session \<Rightarrow> bool" where
  "delivered p t t' \<longleftrightarrow>
     (if se_handler t then se_handled t' = se_handled t @ [p] \<and> se_ingressCh t' = se_ingressCh t
      else se_handled t' = se_handled t \<and>
        (if length (se_ingressCh t) < cfgIngressBuffer (se_cfg t)
         then se_ingressCh t' = se_ingressCh t @ [p] \<and> se_statsDroppedFull t' = se_statsDroppedFull t
         else se_ingressCh t' = se_ingressCh t \<and> se_statsDroppedFull t' = se_statsDroppedFull t + 1))"

lemma handleDataIn_delivers:
  assumes "slots_Get (se_slots t) kid = Some q" and "OpenInto (slot_of t q) [] pkt = (Inr p, y)" and "\<not> IsPing p"
  shows "delivered p t (handleDataIn now pkt kid t)" and "se_lastDataInbound (handleDataIn now pkt kid t) = now"
  using assms by (simp_all add: handleDataIn_def delivered_def Let_def)

text \<open>
  C1. The tunnel delivers. A packet that a user writes to a session whose data key the other end
  shares is sealed, put on the wire and reported as written in full; the read loop of the other end
  opens it and passes on exactly those bytes: to the ingress handler if one is set, else into the
  channel of the reader, or, when that is full, nowhere, which is counted and blocks nothing. A
  reader whose buffer is large enough then gets the bytes.
\<close>

theorem tunnel_delivers:
  assumes "data_linked s t" and "\<not> se_closed s" and "p \<noteq> PingMagic"
  shows "\<exists>s' pkt t'. WriteCtx env stale now others None p s = (Inr (length p), s') \<and> se_wire s' = se_wire s @ [pkt] \<and>
    readLoop_turn h later (Inr pkt) t = (True, t') \<and> delivered p t t' \<and> se_lastDataInbound t' = later \<and>
    (\<not> se_handler t \<and> se_ingressCh t = [] \<and> length p \<le> n \<longrightarrow>
       (\<exists>t''. ReadCtx TakePacket c n t' = Some (Inr p, t'') \<and> se_ingressCh t'' = []))"
proof -
  obtain r x q y where l: "slots_Active (se_slots s) = Some r" "se_slotAt s r = Some x" "slot_wf x"
    "slots_Get (se_slots t) (sl_KeyID x) = Some q" "se_slotAt t q = Some y" "slot_wf y" "slots_agree x y"
    and seal: "Seal stale x p = (Inr (data_packet x (sl_sendPID x + 1) p), x\<lparr>sl_sendPID := sl_sendPID x + 1\<rparr>)"
    and fresh: "Test (sl_recvWin y) (sl_sendPID x + 1)"
    by (rule data_linkedE [OF assms(1)]) blast
  define pkt where "pkt = data_packet x (sl_sendPID x + 1) p"
  define t' where "t' = handleDataIn later pkt (sl_KeyID x) t"
  obtain s' where s': "WriteCtx env stale now others None p s = (Inr (length p), s')" "se_wire s' = se_wire s @ [pkt]"
    using assms(2) l(1,2) seal by (simp add: WriteCtx_def write_wire_def pkt_def Let_def)
  have y: "slot_of t q = y" using l(5) by simp
  note rec = data_packet_received [OF l(3,6,7,4) y]
  have turn: "readLoop_turn h later (Inr pkt) t = (True, t')" using rec(1) by (simp add: pkt_def t'_def)
  have "OpenInto (slot_of t q) [] pkt = (Inr p, y\<lparr>sl_recvWin := snd (Accept (sl_recvWin y) (sl_sendPID x + 1))\<rparr>)"
    using rec(2) fresh by (simp add: pkt_def)
  moreover have "\<not> IsPing p" using assms(3) by (simp add: IsPing_iff)
  ultimately have d: "delivered p t t'" "se_lastDataInbound t' = later"
    using handleDataIn_delivers [OF l(4)] by (simp_all add: t'_def)
  moreover have "\<exists>t''. ReadCtx TakePacket c n t' = Some (Inr p, t'') \<and> se_ingressCh t'' = []"
    if "\<not> se_handler t" "se_ingressCh t = []" "length p \<le> n"
  proof -
    have "cfgIngressBuffer (se_cfg t) > 0" by (simp add: cfgIngressBuffer_def)
    then have "se_ingressCh t' = [p]" using d(1) that by (simp add: delivered_def)
    then show ?thesis using that(3) by (simp add: ReadCtx_def Let_def)
  qed
  ultimately show ?thesis using s' turn by blast
qed

definition demo_linked :: Session where
  "demo_linked = (put_slot 5 demo_slot demo_new)\<lparr>se_slots := slots_Install newSlotTable 1 5 True, se_closed := False,
     se_handler := False, se_ingressCh := [], se_PingInterval := 15 * sec, se_PingRestart := 60 * sec\<rparr>"

lemma demo_data_linked: "data_linked demo_linked demo_linked"
proof -
  have "\<not> PacketIDRekeyThreshold \<le> 1" by code_simp
  moreover have "Test (sl_recvWin demo_slot) (sl_sendPID demo_slot + 1)"
    by (simp add: Test_def demo_slot_def NewReplayWindow_def Let_def)
  moreover have "slots_Get (se_slots demo_linked) 1 = Some 5" "slots_ActiveKID (se_slots demo_linked) = 1"
    "se_slotAt demo_linked 5 = Some demo_slot" "sl_KeyID demo_slot = 1"
    by (simp_all add: demo_linked_def put_slot_def slot_table.get_install demo_slot_def)
  ultimately show ?thesis
    using demo_slot_wf demo_slot_agree unfolding data_linked_def slots_Active_Get
    by (intro exI [of _ 5] exI [of _ demo_slot]) (simp add: demo_slot_def not_le)
qed

theorem tunnel_delivers_witness:
  "\<exists>s' pkt t'. WriteCtx demo_env (\<lambda>_. 0) 0 (\<lambda>s. s) None [1, 2, 3] demo_linked = (Inr 3, s') \<and>
     se_wire s' = se_wire demo_linked @ [pkt] \<and> readLoop_turn (\<lambda>d k m. 0) 1 (Inr pkt) demo_linked = (True, t') \<and>
     (\<exists>t''. ReadCtx TakePacket False 1500 t' = Some (Inr [1, 2, 3], t''))"
proof -
  have "\<not> se_closed demo_linked" "[1, 2, 3] \<noteq> PingMagic" "\<not> se_handler demo_linked" "se_ingressCh demo_linked = []"
    by (simp_all add: demo_linked_def PingMagic_def)
  moreover obtain s' pkt t' where "WriteCtx demo_env (\<lambda>_. 0) 0 (\<lambda>s. s) None [1, 2, 3] demo_linked = (Inr (length [1, 2, 3 :: byte]), s')"
    "se_wire s' = se_wire demo_linked @ [pkt]" "readLoop_turn (\<lambda>d k m. 0) 1 (Inr pkt) demo_linked = (True, t')"
    "\<not> se_handler demo_linked \<and> se_ingressCh demo_linked = [] \<and> length [1, 2, 3 :: byte] \<le> 1500 \<longrightarrow>
       (\<exists>t''. ReadCtx TakePacket False 1500 t' = Some (Inr [1, 2, 3], t'') \<and> se_ingressCh t'' = [])"
    using tunnel_delivers [OF demo_data_linked calculation(1,2), where env = demo_env and stale = "\<lambda>_. 0" and now = 0 and
      others = "\<lambda>s. s" and h = "\<lambda>d k m. 0" and later = 1 and n = 1500 and c = False]
    by blast
  ultimately show ?thesis by auto
qed

section \<open>A keepalive\<close>

lemma handleDataIn_ping:
  assumes "slots_Get (se_slots t) kid = Some q" and "OpenInto (slot_of t q) [] pkt = (Inr PingMagic, y)"
  shows "handleDataIn now pkt kid t =
    (put_slot q y t)\<lparr>se_lastInbound := now, se_statsPingIn := se_statsPingIn t + 1\<rparr>"
  using assms by (simp add: handleDataIn_def IsPing_iff Let_def)

text \<open>
  C34. Keepalives keep the other end from restarting. On a tick, the sender has been silent for less
  than the ping interval afterwards, whether it was already or a PING has just gone out; user
  packets count as well as PINGs. The PING opens at the other end, is counted, refreshes the time
  of the last inbound packet, and is neither handed to the user nor taken for user data; from then
  on the other end's ping-restart watch stays quiet for its whole time.
\<close>

theorem keepalive_works:
  assumes "data_linked s t" and "\<not> se_closed s" and "0 < se_PingInterval s"
  shows "\<exists>lastPing' s'. keepaliveLoop_tick stale now wnow None lastPing s = (True, lastPing', s') \<and>
    now - max lastPing' (se_lastUserOutbound s') < se_PingInterval s \<and>
    (if now - max lastPing (se_lastUserOutbound s) < se_PingInterval s then s' = s \<and> lastPing' = lastPing
     else \<exists>pkt t'. se_wire s' = se_wire s @ [pkt] \<and> readLoop_turn h later (Inr pkt) t = (True, t') \<and>
       se_lastInbound t' = later \<and> se_statsPingIn t' = se_statsPingIn t + 1 \<and> se_handled t' = se_handled t \<and>
       se_ingressCh t' = se_ingressCh t \<and> se_lastDataInbound t' = se_lastDataInbound t \<and>
       (\<forall>d. d < se_PingRestart t \<longrightarrow> pingRestartWatch_tick (later + d) t' = (True, t')))"
proof -
  obtain r x q y where l: "slots_Active (se_slots s) = Some r" "se_slotAt s r = Some x" "slot_wf x"
    "slots_Get (se_slots t) (sl_KeyID x) = Some q" "se_slotAt t q = Some y" "slot_wf y" "slots_agree x y"
    and seal: "Seal stale x PingMagic = (Inr (data_packet x (sl_sendPID x + 1) PingMagic), x\<lparr>sl_sendPID := sl_sendPID x + 1\<rparr>)"
    and fresh: "Test (sl_recvWin y) (sl_sendPID x + 1)"
    by (rule data_linkedE [OF assms(1)]) blast
  have mx: "(if lastPing > se_lastUserOutbound s then lastPing else se_lastUserOutbound s) = max lastPing (se_lastUserOutbound s)"
    by (simp add: max_def)
  show ?thesis
  proof (cases "now - max lastPing (se_lastUserOutbound s) < se_PingInterval s")
    case True
    then show ?thesis using assms(2) by (simp add: keepaliveLoop_tick_def mx Let_def)
  next
    case False
    define pkt where "pkt = data_packet x (sl_sendPID x + 1) PingMagic"
    define s' where "s' = (put_slot r (x\<lparr>sl_sendPID := sl_sendPID x + 1\<rparr>) s)\<lparr>se_wire := se_wire s @ [pkt],
      se_statsOutboundOK := se_statsOutboundOK s + 1\<rparr>"
    define t' where "t' = handleDataIn later pkt (sl_KeyID x) t"
    have tick: "keepaliveLoop_tick stale now wnow None lastPing s = (True, now, s')"
      using False assms(2) l(1,2) seal by (simp add: keepaliveLoop_tick_def mx s'_def pkt_def Let_def)
    have y: "slot_of t q = y" using l(5) by simp
    note rec = data_packet_received [OF l(3,6,7,4) y]
    have turn: "readLoop_turn h later (Inr pkt) t = (True, t')" using rec(1) by (simp add: pkt_def t'_def)
    have "t' = (put_slot q (y\<lparr>sl_recvWin := snd (Accept (sl_recvWin y) (sl_sendPID x + 1))\<rparr>) t)
        \<lparr>se_lastInbound := later, se_statsPingIn := se_statsPingIn t + 1\<rparr>"
      unfolding t'_def by (rule handleDataIn_ping [OF l(4)]) (use rec(2) fresh in \<open>simp add: pkt_def\<close>)
    then have t': "se_lastInbound t' = later" "se_statsPingIn t' = se_statsPingIn t + 1" "se_handled t' = se_handled t"
      "se_ingressCh t' = se_ingressCh t" "se_lastDataInbound t' = se_lastDataInbound t" "se_PingRestart t' = se_PingRestart t"
      by simp_all
    moreover have "se_wire s' = se_wire s @ [pkt]" by (simp add: s'_def)
    ultimately show ?thesis using tick turn False assms(3) by (auto simp: pingRestartWatch_tick_def Let_def)
  qed
qed

theorem keepalive_works_witness:
  "\<exists>lastPing' s'. keepaliveLoop_tick (\<lambda>_. 0) (20 * sec) 0 None 0 demo_linked = (True, lastPing', s') \<and>
     20 * sec - max lastPing' (se_lastUserOutbound s') < 15 * sec"
proof -
  have "\<not> se_closed demo_linked" "0 < se_PingInterval demo_linked" "se_PingInterval demo_linked = 15 * sec"
    by (simp_all add: demo_linked_def sec_def)
  with keepalive_works [OF demo_data_linked this(1,2), where stale = "\<lambda>_. 0" and now = "20 * sec" and wnow = 0 and lastPing = 0
      and h = "\<lambda>d k m. 0" and later = 0]
  show ?thesis by metis
qed

end
