(* ===== verification/Netip.thy ===== *)
theory Netip
  imports Prelude GoStrings
begin

text \<open>
  What the program uses of \<^verbatim>\<open>net/netip\<close>: parsing IPv4 and IPv6 addresses and prefixes as the
  standard library does it (no leading zeros in an IPv4 octet, one \<open>::\<close>, an embedded IPv4 tail,
  zones), and masking an address to a prefix.
\<close>

section \<open>Addresses\<close>

text \<open>The zero \<^verbatim>\<open>Addr\<close>, an IPv4 address (4 bytes), an IPv6 address (16 bytes) with its zone.\<close>

datatype Addr = NoAddr | Addr4 bytes | Addr6 bytes string

fun Addr_IsValid :: "Addr \<Rightarrow> bool" where
  "Addr_IsValid NoAddr = False"
| "Addr_IsValid _ = True"

fun Addr_Is4 :: "Addr \<Rightarrow> bool" where
  "Addr_Is4 (Addr4 _) = True"
| "Addr_Is4 _ = False"

fun Addr_AsSlice :: "Addr \<Rightarrow> bytes" where
  "Addr_AsSlice NoAddr = []"
| "Addr_AsSlice (Addr4 b) = b"
| "Addr_AsSlice (Addr6 b zone) = b"

fun Addr_As16 :: "Addr \<Rightarrow> bytes" where
  "Addr_As16 NoAddr = replicate 16 0"
| "Addr_As16 (Addr4 b) = replicate 10 0 @ [255, 255] @ b"
| "Addr_As16 (Addr6 b zone) = b"

text \<open>The number of bits of an address: \<^verbatim>\<open>BitLen\<close>.\<close>

fun Addr_BitLen :: "Addr \<Rightarrow> nat" where
  "Addr_BitLen NoAddr = 0"
| "Addr_BitLen (Addr4 _) = 32"
| "Addr_BitLen (Addr6 _ _) = 128"

definition addr_wf :: "Addr \<Rightarrow> bool" where
  "addr_wf a = (case a of NoAddr \<Rightarrow> True | Addr4 b \<Rightarrow> length b = 4 | Addr6 b zone \<Rightarrow> length b = 16)"

datatype netip_error =
    MissingIPv6 | UnableToParse
  | OctetLeadingZero | OctetTooBig | OctetEmpty | IPv4TooLong | IPv4TooShort | UnexpectedChar
  | ZoneEmpty | GroupTooLong | FieldTooBig | FieldEmpty | IPv4Misplaced | IPv4NoRoom
  | WantColon | ColonAtEnd | MultipleEllipsis | TrailingGarbage | IPv6TooShort | EllipsisEmpty
  | NoSlash | ZoneInPrefix | BadBits | BitsOutOfRange

section \<open>Parsing addresses\<close>

text \<open>
  The loop of \<^verbatim>\<open>parseIPv4Fields\<close>: the character before, what is left, the value and the number of
  digits of the current octet, the octets so far.
\<close>

fun v4_loop :: "char option \<Rightarrow> string \<Rightarrow> nat \<Rightarrow> nat \<Rightarrow> bytes \<Rightarrow> (netip_error, bytes) result" where
  "v4_loop prev [] val digLen fields =
     (if length fields < 3 then Inl IPv4TooShort else Inr (fields @ [of_nat val]))"
| "v4_loop prev (c # cs) val digLen fields =
     (case char_digit c of
        Some d \<Rightarrow>
          if digLen = 1 \<and> val = 0 then Inl OctetLeadingZero
          else
            let val = val * 10 + d
            in if val > 255 then Inl OctetTooBig else v4_loop (Some c) cs val (digLen + 1) fields
      | None \<Rightarrow>
          if c = CHR ''.'' then
            if prev = None \<or> cs = [] \<or> prev = Some CHR ''.'' then Inl OctetEmpty
            else if length fields = 3 then Inl IPv4TooLong
            else v4_loop (Some c) cs 0 0 (fields @ [of_nat val])
          else Inl UnexpectedChar)"

definition parseIPv4Fields :: "string \<Rightarrow> (netip_error, bytes) result" where
  "parseIPv4Fields s = v4_loop None s 0 0 []"

definition hex_digit :: "char \<Rightarrow> nat option" where
  "hex_digit c =
     (let n = of_char c :: nat
      in if 48 \<le> n \<and> n \<le> 57 then Some (n - 48)
         else if 97 \<le> n \<and> n \<le> 102 then Some (n - 97 + 10)
         else if 65 \<le> n \<and> n \<le> 70 then Some (n - 65 + 10)
         else None)"

text \<open>One group of hex digits: how many there were, their value, what follows.\<close>

fun hex_group :: "nat \<Rightarrow> nat \<Rightarrow> string \<Rightarrow> (netip_error, nat \<times> nat \<times> string) result" where
  "hex_group off acc [] = Inr (off, acc, [])"
| "hex_group off acc (c # cs) =
     (case hex_digit c of
        None \<Rightarrow> Inr (off, acc, c # cs)
      | Some d \<Rightarrow>
          let acc = acc * 16 + d
          in if off > 3 then Inl GroupTooLong
             else if acc > 65535 then Inl FieldTooBig
             else hex_group (off + 1) acc cs)"

lemma hex_group_shorter: "hex_group off acc s = Inr (off', acc', rest) \<Longrightarrow> length s = length rest + (off' - off) \<and> off \<le> off'"
proof (induction off acc s rule: hex_group.induct)
  case (2 off acc c cs)
  show ?case
  proof (cases "hex_digit c")
    case None
    then show ?thesis using "2.prems" by auto
  next
    case (Some d)
    then have "hex_group (off + 1) (acc * 16 + d) cs = Inr (off', acc', rest)" "\<not> 3 < off" "\<not> 65535 < acc * 16 + d"
      using "2.prems" by (auto simp: Let_def split: if_splits)
    then show ?thesis using "2.IH" [OF Some refl] by auto
  qed
qed simp

text \<open>
  The loop of \<^verbatim>\<open>parseIPv6\<close>: the bytes so far (the code's index \<open>i\<close> is their number), where the
  ellipsis was, what is left of the string.
\<close>

function v6_loop :: "bytes \<Rightarrow> nat option \<Rightarrow> string \<Rightarrow> (netip_error, bytes \<times> nat option \<times> string) result" where
  "v6_loop ip ellipsis s =
     (if length ip \<ge> 16 then Inr (ip, ellipsis, s)
      else case hex_group 0 0 s of
        Inl e \<Rightarrow> Inl e
      | Inr (off, acc, rest) \<Rightarrow>
          if off = 0 then Inl FieldEmpty
          else if (case rest of c # _ \<Rightarrow> c = CHR ''.'' | [] \<Rightarrow> False) then
            if ellipsis = None \<and> length ip \<noteq> 12 then Inl IPv4Misplaced
            else if length ip + 4 > 16 then Inl IPv4NoRoom
            else (case parseIPv4Fields s of Inl e \<Rightarrow> Inl e | Inr fields \<Rightarrow> Inr (ip @ fields, ellipsis, []))
          else
            let ip = ip @ [of_nat (acc div 256), of_nat acc]
            in (case rest of
                  [] \<Rightarrow> Inr (ip, ellipsis, [])
                | c # cs \<Rightarrow>
                    if c \<noteq> CHR '':'' then Inl WantColon
                    else (case cs of
                        [] \<Rightarrow> Inl ColonAtEnd
                      | c' # cs' \<Rightarrow>
                          if c' = CHR '':'' then
                            if ellipsis \<noteq> None then Inl MultipleEllipsis
                            else if cs' = [] then Inr (ip, Some (length ip), [])
                            else v6_loop ip (Some (length ip)) cs'
                          else v6_loop ip ellipsis (c' # cs'))))"
  by pat_completeness auto
termination
  by (relation "measure (\<lambda>(ip, ellipsis, s). length s)") (auto dest: hex_group_shorter)

declare v6_loop.simps [simp del]

definition v6_finish :: "string \<Rightarrow> bytes \<times> nat option \<times> string \<Rightarrow> (netip_error, Addr) result" where
  "v6_finish zone r =
     (case r of (ip, ellipsis, s) \<Rightarrow>
        if s \<noteq> [] then Inl TrailingGarbage
        else if length ip < 16 then
          (case ellipsis of
             None \<Rightarrow> Inl IPv6TooShort
           | Some e \<Rightarrow> Inr (Addr6 (take e ip @ replicate (16 - length ip) 0 @ drop e ip) zone))
        else if ellipsis \<noteq> None then Inl EllipsisEmpty
        else Inr (Addr6 ip zone))"

definition parseIPv6 :: "string \<Rightarrow> (netip_error, Addr) result" where
  "parseIPv6 input =
     (let (s, zone, hasZone) = Cut CHR ''%'' input
      in if hasZone \<and> zone = [] then Inl ZoneEmpty
         else if HasPrefix s ''::'' then
           let s = drop 2 s
           in if s = [] then Inr (Addr6 (replicate 16 0) zone)
              else rbind (v6_loop [] (Some 0) s) (v6_finish zone)
         else rbind (v6_loop [] None s) (v6_finish zone))"

fun addr_kind :: "string \<Rightarrow> char option" where
  "addr_kind [] = None"
| "addr_kind (c # cs) = (if c \<in> {CHR ''.'', CHR '':'', CHR ''%''} then Some c else addr_kind cs)"

definition ParseAddr :: "string \<Rightarrow> (netip_error, Addr) result" where
  "ParseAddr s =
     (case addr_kind s of
        Some c \<Rightarrow>
          if c = CHR ''.'' then map_sum id Addr4 (parseIPv4Fields s)
          else if c = CHR '':'' then parseIPv6 s
          else Inl MissingIPv6
      | None \<Rightarrow> Inl UnableToParse)"

section \<open>Prefixes\<close>

record Prefix =
  pf_ip :: Addr
  pf_bits :: nat

text \<open>The zero \<^verbatim>\<open>Prefix\<close> is not valid.\<close>

definition NoPrefix :: Prefix where "NoPrefix = \<lparr>pf_ip = NoAddr, pf_bits = 0\<rparr>"

definition Prefix_IsValid :: "Prefix \<Rightarrow> bool" where
  "Prefix_IsValid p = Addr_IsValid (pf_ip p)"

fun withoutZone :: "Addr \<Rightarrow> Addr" where
  "withoutZone (Addr6 b zone) = Addr6 b []"
| "withoutZone a = a"

text \<open>Everything after the last slash; \<^const>\<open>None\<close> if there is none.\<close>

definition last_slash :: "string \<Rightarrow> (string \<times> string) option" where
  "last_slash s =
     (case Cut CHR ''/'' (rev s) of (after, before, found) \<Rightarrow> if found then Some (rev before, rev after) else None)"

definition ParsePrefix :: "string \<Rightarrow> (netip_error, Prefix) result" where
  "ParsePrefix s =
     (case last_slash s of
        None \<Rightarrow> Inl NoSlash
      | Some (addr, bitsStr) \<Rightarrow>
          rbind (ParseAddr addr) (\<lambda>ip.
            if (case ip of Addr6 b zone \<Rightarrow> zone \<noteq> [] | _ \<Rightarrow> False) then Inl ZoneInPrefix
            else if length bitsStr > 1 \<and> char_digit (hd bitsStr) \<in> {None, Some 0} then Inl BadBits
            else case Atoi bitsStr of
              None \<Rightarrow> Inl BadBits
            | Some bits \<Rightarrow>
                if bits < 0 \<or> bits > int (Addr_BitLen ip) then Inl BitsOutOfRange
                else Inr \<lparr>pf_ip = withoutZone ip, pf_bits = nat bits\<rparr>))"

text \<open>The first \<open>n\<close> bits of a byte string, the rest cleared.\<close>

fun mask_bytes :: "nat \<Rightarrow> bytes \<Rightarrow> bytes" where
  "mask_bytes n [] = []"
| "mask_bytes n (b # bs) =
     (if n \<ge> 8 then b # mask_bytes (n - 8) bs else (b AND NOT (mask (8 - n))) # mask_bytes 0 bs)"

definition Addr_Prefix :: "Addr \<Rightarrow> nat \<Rightarrow> (netip_error, Prefix) result" where
  "Addr_Prefix ip b =
     (case ip of
        NoAddr \<Rightarrow> Inr NoPrefix
      | Addr4 bs \<Rightarrow> if b > 32 then Inl BitsOutOfRange else Inr \<lparr>pf_ip = Addr4 (mask_bytes b bs), pf_bits = b\<rparr>
      | Addr6 bs zone \<Rightarrow> if b > 128 then Inl BitsOutOfRange else Inr \<lparr>pf_ip = Addr6 (mask_bytes b bs) [], pf_bits = b\<rparr>)"

section \<open>Well-formed results\<close>

lemma v4_loop_length: "v4_loop prev s val n fs = Inr r \<Longrightarrow> length fs \<le> 3 \<Longrightarrow> length r = 4"
  by (induction prev s val n fs rule: v4_loop.induct) (auto simp: Let_def split: if_splits option.splits)

lemma parseIPv4Fields_length: "parseIPv4Fields s = Inr r \<Longrightarrow> length r = 4"
  using v4_loop_length by (fastforce simp: parseIPv4Fields_def)

lemma v6_loop_length:
  "v6_loop ip ell s = Inr (ip', ell', s') \<Longrightarrow> length ip \<le> 16 \<Longrightarrow> even (length ip) \<Longrightarrow> (\<forall>e. ell = Some e \<longrightarrow> e \<le> length ip) \<Longrightarrow>
     length ip' \<le> 16 \<and> (\<forall>e. ell' = Some e \<longrightarrow> e \<le> length ip')"
proof (induction ip ell s rule: v6_loop.induct)
  case (1 ip ell s)
  show ?case
  proof (cases "length ip \<ge> 16")
    case True
    then show ?thesis using "1.prems" by (simp add: v6_loop.simps [of ip])
  next
    case False
    then have small: "length ip + 2 \<le> 16" using "1.prems"(3) by presburger
    obtain off acc rest where g: "hex_group 0 0 s = Inr (off, acc, rest)" "off \<noteq> 0"
      using False "1.prems"(1) by (auto simp: v6_loop.simps [of ip] split: sum.splits if_splits)
    let ?ip = "ip @ [of_nat (acc div 256), of_nat acc]"
    show ?thesis
    proof (cases "case rest of c # _ \<Rightarrow> c = CHR ''.'' | [] \<Rightarrow> False")
      case True
      then show ?thesis using "1.prems" False g parseIPv4Fields_length
        by (fastforce simp: v6_loop.simps [of ip] split: sum.splits if_splits)
    next
      case nodot: False
      note IH = "1.IH" [OF False g(1) refl refl g(2) nodot refl]
      show ?thesis
      proof (cases rest)
        case Nil
        then show ?thesis using "1.prems" False g nodot small by (auto simp: v6_loop.simps [of ip] Let_def)
      next
        case (Cons c cs)
        then obtain c' cs' where cs: "c = CHR '':''" "cs = c' # cs'"
          using "1.prems"(1) False g nodot
          by (auto simp: v6_loop.simps [of ip] Let_def split: if_splits list.splits)
        moreover have "\<forall>e. ell = Some e \<longrightarrow> e \<le> Suc (Suc (length ip))" using "1.prems"(4) by auto
        ultimately show ?thesis
          using "1.prems" False g nodot small Cons IH(1) [OF Cons _ cs(2)] IH(2) [OF Cons _ cs(2)]
          by (auto simp: v6_loop.simps [of ip] Let_def split: if_splits)
      qed
    qed
  qed
qed

lemma v6_finish_wf:
  "v6_finish zone (ip, ell, s) = Inr a \<Longrightarrow> length ip \<le> 16 \<Longrightarrow> (\<forall>e. ell = Some e \<longrightarrow> e \<le> length ip) \<Longrightarrow>
     addr_wf a \<and> Addr_IsValid a"
  by (auto simp: v6_finish_def addr_wf_def split: if_splits option.splits)

lemma parseIPv6_wf: "parseIPv6 s = Inr a \<Longrightarrow> addr_wf a \<and> Addr_IsValid a"
proof -
  assume p: "parseIPv6 s = Inr a"
  have from_loop: "addr_wf a \<and> Addr_IsValid a" if loop: "rbind (v6_loop [] ell t) (v6_finish z) = Inr a" and "ell \<in> {None, Some 0}" for ell t z
  proof -
    obtain ip ell' s' where "v6_loop [] ell t = Inr (ip, ell', s')" "v6_finish z (ip, ell', s') = Inr a"
      using loop unfolding rbind_eq_Inr by auto
    then show ?thesis using v6_loop_length [of "[]" ell t ip ell' s'] v6_finish_wf that(2) by auto
  qed
  obtain t zone found where "Cut CHR ''%'' s = (t, zone, found)" by (cases "Cut CHR ''%'' s")
  then show ?thesis
    using p from_loop by (auto simp: parseIPv6_def Let_def addr_wf_def split: if_splits)
qed

lemma ParseAddr_wf:
  assumes "ParseAddr s = Inr a"
  shows "addr_wf a \<and> Addr_IsValid a"
proof -
  consider f where "parseIPv4Fields s = Inr f" "a = Addr4 f" | "parseIPv6 s = Inr a"
    using assms by (cases "parseIPv4Fields s") (auto simp: ParseAddr_def split: option.splits if_splits)
  then show ?thesis
  proof cases
    case 1
    then show ?thesis using parseIPv4Fields_length by (simp add: addr_wf_def)
  qed (rule parseIPv6_wf)
qed

definition prefix_wf :: "Prefix \<Rightarrow> bool" where
  "prefix_wf p \<longleftrightarrow> addr_wf (pf_ip p) \<and> pf_bits p \<le> Addr_BitLen (pf_ip p)"

lemma withoutZone_simps [simp]:
  "addr_wf (withoutZone a) = addr_wf a" "Addr_BitLen (withoutZone a) = Addr_BitLen a" "Addr_IsValid (withoutZone a) = Addr_IsValid a"
  by (cases a; simp add: addr_wf_def)+

lemma ParsePrefix_wf: "ParsePrefix s = Inr p \<Longrightarrow> prefix_wf p \<and> Prefix_IsValid p"
  using ParseAddr_wf
  by (fastforce simp: ParsePrefix_def rbind_eq_Inr prefix_wf_def Prefix_IsValid_def split: option.splits prod.splits if_splits)

lemma length_mask_bytes [simp]: "length (mask_bytes n bs) = length bs"
  by (induction n bs rule: mask_bytes.induct) auto

lemma Addr_Prefix_wf: "Addr_Prefix a n = Inr p \<Longrightarrow> addr_wf a \<Longrightarrow> Addr_IsValid a \<Longrightarrow> prefix_wf p \<and> Prefix_IsValid p \<and> pf_bits p = n"
  by (cases a) (auto simp: Addr_Prefix_def prefix_wf_def addr_wf_def Prefix_IsValid_def split: if_splits)

section \<open>IPv4 text\<close>

definition addr4_text :: "bytes \<Rightarrow> string" where
  "addr4_text b = Join (map (nat_decimal \<circ> unat) b) ''.''"

lemma nat_decimal_octet:
  assumes "n < 256"
  shows "nat_decimal n = (if n < 10 then [digit_char n] else if n < 100 then [digit_char (n div 10), digit_char (n mod 10)]
    else [digit_char (n div 100), digit_char (n div 10 mod 10), digit_char (n mod 10)])"
proof -
  have "n div 10 < 100 \<longrightarrow> nat_decimal (n div 10) = (if n div 10 < 10 then [digit_char (n div 10)]
      else [digit_char (n div 10 div 10), digit_char (n div 10 mod 10)])"
    using nat_decimal.simps [of "n div 10"] nat_decimal.simps [of "n div 10 div 10"] by auto
  moreover have "n div 10 div 10 = n div 100" by (simp add: div_mult2_eq [symmetric])
  ultimately show ?thesis using assms nat_decimal.simps [of n] by auto
qed

lemma v4_loop_octet:
  assumes "n < 256"
  shows "\<exists>c k. c \<noteq> CHR ''.'' \<and> v4_loop prev (nat_decimal n @ s) 0 0 fs = v4_loop (Some c) s n k fs"
proof -
  have digits: "char_digit (digit_char d) = Some d \<and> digit_char d \<noteq> CHR ''.''" if "d < 10" for d
    using that char_digit_digit [OF that] by (auto simp: char_digit_def)
  have "n div 100 = n div 10 div 10" by (simp add: div_mult2_eq [symmetric])
  then have arith: "n div 100 * 10 + n div 10 mod 10 = n div 10" "n div 10 * 10 + n mod 10 = n"
    by (simp_all add: div_mult_mod_eq)
  consider "n < 10" | "\<not> n < 10" "n < 100" | "\<not> n < 100" by linarith
  then show ?thesis
  proof cases
    case 1
    then have "v4_loop prev (nat_decimal n @ s) 0 0 fs = v4_loop (Some (digit_char n)) s n 1 fs"
      using digits [of n] assms by (simp add: nat_decimal_octet)
    then show ?thesis using digits [OF 1] by blast
  next
    case 2
    then have d: "n div 10 < 10" "n div 10 \<noteq> 0" "n mod 10 < 10" "\<not> 255 < n div 10" "\<not> 255 < n" by auto
    have "nat_decimal n = [digit_char (n div 10), digit_char (n mod 10)]" using nat_decimal_octet [OF assms] 2 by simp
    then have "v4_loop prev (nat_decimal n @ s) 0 0 fs = v4_loop (Some (digit_char (n mod 10))) s n 2 fs"
      using digits [OF d(1)] digits [OF d(3)] d(2) arith(2)
      by (simp add: numeral_2_eq_2 Let_def d(4,5))
    then show ?thesis using digits [OF d(3)] by blast
  next
    case 3
    then have d: "n div 100 < 10" "n div 100 \<noteq> 0" "n mod 10 < 10" "n div 10 mod 10 < 10" "\<not> 255 < n div 10"
      "\<not> 255 < n div 100" "\<not> 255 < n"
      using assms by auto
    have "nat_decimal n = [digit_char (n div 100), digit_char (n div 10 mod 10), digit_char (n mod 10)]"
      using nat_decimal_octet [OF assms] 3 by simp
    then have "v4_loop prev (nat_decimal n @ s) 0 0 fs = v4_loop (Some (digit_char (n mod 10))) s n 3 fs"
      using digits [OF d(1)] digits [OF d(3)] digits [OF d(4)] d(2) arith
      by (simp add: numeral_3_eq_3 Let_def d(5-7))
    then show ?thesis using digits [OF d(3)] by blast
  qed
qed

lemma v4_loop_dot:
  "c \<noteq> CHR ''.'' \<Longrightarrow> s \<noteq> [] \<Longrightarrow> length fs < 3 \<Longrightarrow>
   v4_loop (Some c) (CHR ''.'' # s) n k fs = v4_loop (Some CHR ''.'') s 0 0 (fs @ [of_nat n])"
  by (simp add: char_digit_def)

lemma v4_loop_text:
  "bs \<noteq> [] \<Longrightarrow> length fs + length bs = 4 \<Longrightarrow> v4_loop prev (Join (map (nat_decimal \<circ> unat) bs) ''.'') 0 0 fs = Inr (fs @ bs)"
proof (induction bs arbitrary: fs prev)
  case (Cons b bs)
  note IH = Cons.IH and prems = Cons.prems
  have b: "unat b < 256" using unsigned_less [where ?'a = nat, of b] by simp
  show ?case
  proof (cases bs)
    case Nil
    then show ?thesis using v4_loop_octet [OF b, of prev "[]" fs] prems by auto
  next
    case (Cons b' bs')
    let ?rest = "Join (map (nat_decimal \<circ> unat) bs) ''.''"
    have rest: "?rest \<noteq> []" using Cons by (cases bs') auto
    obtain c k where c: "c \<noteq> CHR ''.''" and octet:
      "v4_loop prev (nat_decimal (unat b) @ CHR ''.'' # ?rest) 0 0 fs = v4_loop (Some c) (CHR ''.'' # ?rest) (unat b) k fs"
      using v4_loop_octet [OF b, of prev "CHR ''.'' # ?rest" fs] by (elim exE conjE)
    have few: "length fs < 3" using prems(2) Cons by simp
    have "v4_loop (Some CHR ''.'') ?rest 0 0 (fs @ [b]) = Inr ((fs @ [b]) @ bs)"
      by (rule IH) (use prems(2) Cons in simp_all)
    then have "v4_loop prev (nat_decimal (unat b) @ CHR ''.'' # ?rest) 0 0 fs = Inr ((fs @ [b]) @ bs)"
      unfolding octet v4_loop_dot [OF c rest few] by simp
    then show ?thesis using Cons by (simp add: comp_def)
  qed
qed simp

lemma addr_kind_decimal: "addr_kind (nat_decimal n @ CHR ''.'' # s) = Some CHR ''.''"
proof -
  have "addr_kind (w @ CHR ''.'' # s) = Some CHR ''.''" if "\<forall>c \<in> set w. \<exists>d < 10. c = digit_char d" for w
    using that
  proof (induction w)
    case (Cons c w)
    then obtain d where "d < 10" "c = digit_char d" by auto
    then have "char_digit c \<noteq> None" by simp
    then have "c \<notin> {CHR ''.'', CHR '':'', CHR ''%''}" by (auto simp: char_digit_def)
    then show ?case using Cons by simp
  qed simp
  then show ?thesis using set_nat_decimal by blast
qed

lemma ParseAddr_addr4_text:
  assumes "length b = 4"
  shows "ParseAddr (addr4_text b) = Inr (Addr4 b)"
proof -
  obtain x y zs where b: "b = x # y # zs" using assms by (cases b; cases "tl b") auto
  then have "addr_kind (addr4_text b) = Some CHR ''.''" using addr_kind_decimal by (simp add: addr4_text_def)
  moreover have "parseIPv4Fields (addr4_text b) = Inr b"
    using v4_loop_text [of b "[]"] assms b by (simp add: parseIPv4Fields_def addr4_text_def)
  ultimately show ?thesis by (simp add: ParseAddr_def)
qed

section \<open>The bits of an address\<close>

text \<open>Most significant bit first.\<close>

definition byte_bits :: "byte \<Rightarrow> bool list" where
  "byte_bits b = map (bit b) [7, 6, 5, 4, 3, 2, 1, 0]"

definition bits_of :: "bytes \<Rightarrow> bool list" where
  "bits_of bs = concat (map byte_bits bs)"

lemma length_byte_bits [simp]: "length (byte_bits b) = 8"
  by (simp add: byte_bits_def)

lemma bits_of_simps [simp]: "bits_of [] = []" "bits_of (b # bs) = byte_bits b @ bits_of bs" "bits_of (as @ bs) = bits_of as @ bits_of bs"
  by (simp_all add: bits_of_def)

lemma length_bits_of [simp]: "length (bits_of bs) = 8 * length bs"
  by (induction bs) auto

lemma byte_bits_masked:
  assumes "n < 8"
  shows "byte_bits (b AND NOT (mask (8 - n))) = take n (byte_bits b) @ replicate (8 - n) False"
proof (rule nth_equalityI)
  fix i
  assume "i < length (byte_bits (b AND NOT (mask (8 - n))))"
  then have "i < 8" by simp
  moreover from this have "byte_bits x ! i = bit x (7 - i)" for x
    by (auto simp: byte_bits_def nth_Cons' less_Suc_eq numeral_eq_Suc)
  ultimately show "byte_bits (b AND NOT (mask (8 - n))) ! i = (take n (byte_bits b) @ replicate (8 - n) False) ! i"
    using assms by (auto simp: nth_append bit_simps)
qed (use assms in simp)

lemma bits_of_zeros: "bits_of (mask_bytes 0 bs) = replicate (8 * length bs) False"
  using byte_bits_masked [of 0] by (induction bs) (simp_all add: replicate_add [symmetric])

lemma bits_of_mask_bytes: "n \<le> 8 * length bs \<Longrightarrow> bits_of (mask_bytes n bs) = take n (bits_of bs) @ replicate (8 * length bs - n) False"
proof (induction n bs rule: mask_bytes.induct)
  case (2 n b bs)
  show ?case
  proof (cases "n \<ge> 8")
    case True
    then show ?thesis using 2 by simp
  next
    case False
    then show ?thesis
      using byte_bits_masked [of n b] by (simp add: bits_of_zeros replicate_add [symmetric])
  qed
qed simp

end
