(* ===== verification/PushReply.thy ===== *)
theory PushReply
  imports Netip Session
begin

text \<open>
  The server's answer to \<^verbatim>\<open>PUSH_REQUEST\<close> (\<^verbatim>\<open>internal/proto/pushreply.go\<close>): a comma-separated list of
  options, folded into a record; the netmask conversion; and what the tunnel reports as its own
  and its peer's address (\<^verbatim>\<open>conn.go\<close>).
\<close>

record PushReply =
  pr_LocalIP :: Addr
  pr_RemoteIP :: Addr
  pr_Netmask :: Addr
  pr_LocalIP6 :: Prefix
  pr_RemoteIP6 :: Addr
  pr_Routes :: "Prefix list"
  pr_Routes6 :: "Prefix list"
  pr_Gateway :: Addr
  pr_DNS :: "Addr list"
  pr_MTU :: int
  pr_Cipher :: string
  pr_PeerID :: u32
  pr_PingInterval :: int
  pr_PingRestart :: int
  pr_Topology :: string
  pr_Raw :: string

definition zero_PushReply :: PushReply where
  "zero_PushReply = \<lparr>pr_LocalIP = NoAddr, pr_RemoteIP = NoAddr, pr_Netmask = NoAddr, pr_LocalIP6 = NoPrefix,
     pr_RemoteIP6 = NoAddr, pr_Routes = [], pr_Routes6 = [], pr_Gateway = NoAddr, pr_DNS = [], pr_MTU = 0, pr_Cipher = '''',
     pr_PeerID = 0, pr_PingInterval = 0, pr_PingRestart = 0, pr_Topology = '''', pr_Raw = ''''\<rparr>"

definition PushReplyPrefix :: string where "PushReplyPrefix = ''PUSH_REPLY,''"

text \<open>What is wrong with an option: too few arguments, a bad address, a bad number, a bad mask.\<close>

datatype push_error =
    NotPushReply string
  | NeedsArgs string
  | BadAddr string netip_error
  | BadNumber string
  | MaskNotContiguous
  | RoutePrefix netip_error
  | InOption string push_error

section \<open>Netmasks\<close>

text \<open>
  The two nested loops of \<^verbatim>\<open>maskToPrefixLen\<close>: over the bits 7 to 0 of one byte, and over the bytes.
  The state is the number of ones so far and whether a zero has been seen.
\<close>

fun mask_bit_loop :: "byte \<Rightarrow> nat list \<Rightarrow> nat \<times> bool \<Rightarrow> (nat \<times> bool) option" where
  "mask_bit_loop b [] st = Some st"
| "mask_bit_loop b (k # ks) (pfx, seenZero) =
     (if b AND push_bit k 1 \<noteq> 0
      then if seenZero then None else mask_bit_loop b ks (pfx + 1, seenZero)
      else mask_bit_loop b ks (pfx, True))"

fun mask_byte_loop :: "bytes \<Rightarrow> nat \<times> bool \<Rightarrow> (nat \<times> bool) option" where
  "mask_byte_loop [] st = Some st"
| "mask_byte_loop (b # bs) st =
     (case mask_bit_loop b [7, 6, 5, 4, 3, 2, 1, 0] st of None \<Rightarrow> None | Some st \<Rightarrow> mask_byte_loop bs st)"

definition maskToPrefixLen :: "Addr \<Rightarrow> nat \<times> bool" where
  "maskToPrefixLen m =
     (let bs = (if Addr_Is4 m then copy_at 0 (Addr_AsSlice m) (replicate 16 0) else Addr_As16 m)
      in case mask_byte_loop bs (0, False) of None \<Rightarrow> (0, False) | Some (pfx, _) \<Rightarrow> (pfx, True))"

definition routeToPrefix :: "string list \<Rightarrow> (push_error, Prefix) result" where
  "routeToPrefix args =
     (case args of
        [] \<Rightarrow> Inl (NeedsArgs ''route'')
      | a # rest \<Rightarrow>
          rbind (map_sum (BadAddr ''route net'') id (ParseAddr a)) (\<lambda>net.
            let prefixLen = (if Addr_Is4 net then 32 else 128)
            in rbind (case rest of
                 [] \<Rightarrow> Inr prefixLen
               | m # _ \<Rightarrow>
                   rbind (map_sum (BadAddr ''route mask'') id (ParseAddr m)) (\<lambda>msk.
                     case maskToPrefixLen msk of (pl, ok) \<Rightarrow> if ok then Inr pl else Inl MaskNotContiguous))
               (\<lambda>prefixLen. map_sum RoutePrefix id (Addr_Prefix net prefixLen))))"

section \<open>Options\<close>

definition parse_at :: "string \<Rightarrow> string \<Rightarrow> (push_error, Addr) result" where
  "parse_at what s = map_sum (BadAddr what) id (ParseAddr s)"

definition prefix_at :: "string \<Rightarrow> string \<Rightarrow> (push_error, Prefix) result" where
  "prefix_at what s = map_sum (BadAddr what) id (ParsePrefix s)"

definition number_at :: "string \<Rightarrow> string \<Rightarrow> (push_error, int) result" where
  "number_at what s = (case Atoi s of None \<Rightarrow> Inl (BadNumber what) | Some v \<Rightarrow> Inr v)"

text \<open>\<open>fs\<close> are the white-space separated words of the option; the first one selects.\<close>

definition apply_fields :: "string list \<Rightarrow> PushReply \<Rightarrow> (push_error, PushReply) result" where
  "apply_fields fs pr =
     (let key = fs ! 0
      in if key = ''ifconfig'' then
           if length fs < 3 then Inl (NeedsArgs key)
           else rbind (parse_at ''ifconfig local'' (fs ! 1)) (\<lambda>a.
                rbind (parse_at ''ifconfig peer/mask'' (fs ! 2)) (\<lambda>b.
                Inr (pr\<lparr>pr_LocalIP := a, pr_RemoteIP := b, pr_Netmask := b\<rparr>)))
         else if key = ''ifconfig-ipv6'' then
           if length fs < 3 then Inl (NeedsArgs key)
           else rbind (prefix_at ''ifconfig-ipv6 local'' (fs ! 1)) (\<lambda>p.
                rbind (parse_at ''ifconfig-ipv6 remote'' (fs ! 2)) (\<lambda>r.
                Inr (pr\<lparr>pr_LocalIP6 := p, pr_RemoteIP6 := r\<rparr>)))
         else if key = ''route'' then
           if length fs < 2 then Inl (NeedsArgs key)
           else rbind (routeToPrefix (drop 1 fs)) (\<lambda>p. Inr (pr\<lparr>pr_Routes := pr_Routes pr @ [p]\<rparr>))
         else if key = ''route-ipv6'' then
           if length fs < 2 then Inl (NeedsArgs key)
           else rbind (prefix_at ''route-ipv6'' (fs ! 1)) (\<lambda>p. Inr (pr\<lparr>pr_Routes6 := pr_Routes6 pr @ [p]\<rparr>))
         else if key = ''route-gateway'' then
           if length fs < 2 then Inl (NeedsArgs key)
           else rbind (parse_at ''route-gateway'' (fs ! 1)) (\<lambda>gw. Inr (pr\<lparr>pr_Gateway := gw\<rparr>))
         else if key = ''dhcp-option'' then
           if length fs \<ge> 3 \<and> EqualFold (fs ! 1) ''DNS''
           then rbind (parse_at ''dhcp-option DNS'' (fs ! 2)) (\<lambda>a. Inr (pr\<lparr>pr_DNS := pr_DNS pr @ [a]\<rparr>))
           else Inr pr
         else if key = ''tun-mtu'' then
           if length fs < 2 then Inl (NeedsArgs key)
           else rbind (number_at key (fs ! 1)) (\<lambda>v. Inr (pr\<lparr>pr_MTU := v\<rparr>))
         else if key = ''cipher'' then
           if length fs < 2 then Inl (NeedsArgs key) else Inr (pr\<lparr>pr_Cipher := fs ! 1\<rparr>)
         else if key = ''peer-id'' then
           if length fs < 2 then Inl (NeedsArgs key)
           else (case ParseUint 24 (fs ! 1) of
                   None \<Rightarrow> Inl (BadNumber key) | Some v \<Rightarrow> Inr (pr\<lparr>pr_PeerID := of_nat v\<rparr>))
         else if key = ''ping'' then
           if length fs < 2 then Inl (NeedsArgs key)
           else rbind (number_at key (fs ! 1)) (\<lambda>v. Inr (pr\<lparr>pr_PingInterval := int64 (v * sec)\<rparr>))
         else if key = ''ping-restart'' then
           if length fs < 2 then Inl (NeedsArgs key)
           else rbind (number_at key (fs ! 1)) (\<lambda>v. Inr (pr\<lparr>pr_PingRestart := int64 (v * sec)\<rparr>))
         else if key = ''topology'' then
           if length fs < 2 then Inl (NeedsArgs key) else Inr (pr\<lparr>pr_Topology := fs ! 1\<rparr>)
         else Inr pr)"

definition applyOption :: "string \<Rightarrow> PushReply \<Rightarrow> (push_error, PushReply) result" where
  "applyOption opt pr = (let fs = Fields opt in if fs = [] then Inr pr else apply_fields fs pr)"

fun apply_options :: "string list \<Rightarrow> PushReply \<Rightarrow> (push_error, PushReply) result" where
  "apply_options [] pr = Inr pr"
| "apply_options (opt # opts) pr =
     (let opt = TrimSpace opt
      in if opt = '''' then apply_options opts pr
         else case applyOption opt pr of
           Inl e \<Rightarrow> Inl (InOption opt e)
         | Inr pr \<Rightarrow> apply_options opts pr)"

definition ParsePushReply :: "string \<Rightarrow> (push_error, PushReply) result" where
  "ParsePushReply s =
     (if \<not> HasPrefix s PushReplyPrefix
      then Inl (NotPushReply (if length s > 80 then take 80 s @ ''...'' else s))
      else
        let body = drop (length PushReplyPrefix) s
        in apply_options (Split CHR '','' body) (zero_PushReply\<lparr>pr_Raw := body, pr_Topology := ''net30''\<rparr>))"

section \<open>Netmasks are exact\<close>

text \<open>The loops, on the bits in the order they are visited.\<close>

fun ones_then_zeros :: "bool list \<Rightarrow> nat \<times> bool \<Rightarrow> (nat \<times> bool) option" where
  "ones_then_zeros [] st = Some st"
| "ones_then_zeros (b # bs) (n, z) =
     (if b then if z then None else ones_then_zeros bs (n + 1, z) else ones_then_zeros bs (n, True))"

lemma ones_then_zeros_append:
  "ones_then_zeros (as @ bs) st = (case ones_then_zeros as st of None \<Rightarrow> None | Some st \<Rightarrow> ones_then_zeros bs st)"
  by (induction as st rule: ones_then_zeros.induct) auto

lemma and_push_bit_1: "(b :: byte) AND push_bit k 1 \<noteq> 0 \<longleftrightarrow> bit b k"
proof -
  have "b AND push_bit k 1 = (if bit b k then push_bit k 1 else 0)"
    by (rule bit_word_eqI) (auto simp: bit_simps)
  moreover have "push_bit k 1 \<noteq> (0 :: byte)" if "bit b k"
    using bit_imp_le_length [OF that] by (simp add: push_bit_eq_mult)
  ultimately show ?thesis by auto
qed

lemma mask_bit_loop_eq: "mask_bit_loop b ks st = ones_then_zeros (map (bit b) ks) st"
  by (induction b ks st rule: mask_bit_loop.induct) (simp_all add: and_push_bit_1 [simplified])

lemma mask_byte_step: "mask_bit_loop b [7, 6, 5, 4, 3, 2, 1, 0] st = ones_then_zeros (byte_bits b) st"
  unfolding mask_bit_loop_eq byte_bits_def by (rule refl)

lemma mask_byte_loop_eq: "mask_byte_loop bs st = ones_then_zeros (bits_of bs) st"
proof (induction bs arbitrary: st)
  case (Cons b bs)
  show ?case
    unfolding mask_byte_loop.simps mask_byte_step bits_of_simps ones_then_zeros_append by (simp add: Cons split: option.split)
qed simp

lemma ones_then_zeros_tail: "ones_then_zeros bs (k, True) = (if True \<in> set bs then None else Some (k, True))"
  by (induction bs) auto

text \<open>\<open>n\<close> ones, then zeros.\<close>

definition contiguous :: "nat \<Rightarrow> bool list \<Rightarrow> bool" where
  "contiguous n bs \<longleftrightarrow> n \<le> length bs \<and> bs = replicate n True @ replicate (length bs - n) False"

lemma all_False_replicate: "True \<notin> set bs \<longleftrightarrow> bs = replicate (length bs) False"
  by (induction bs) auto

lemma contiguous_Cons:
  "contiguous n (b # bs) \<longleftrightarrow> (if b then \<exists>n'. n = Suc n' \<and> contiguous n' bs else n = 0 \<and> True \<notin> set bs)"
  using all_False_replicate [of bs] by (cases n) (auto simp: contiguous_def)

lemma ones_then_zeros_iff:
  "ones_then_zeros bs (k, False) = Some (m, z) \<longleftrightarrow> (\<exists>n. m = k + n \<and> contiguous n bs \<and> z = (n < length bs))"
proof (induction bs arbitrary: k)
  case Nil
  then show ?case by (auto simp: contiguous_def)
next
  case (Cons b bs)
  show ?case
  proof (cases b)
    case True
    have "(\<exists>n. m = k + 1 + n \<and> contiguous n bs \<and> z = (n < length bs)) \<longleftrightarrow>
        (\<exists>n. m = k + n \<and> contiguous n (b # bs) \<and> z = (n < length (b # bs)))"
      using True by (auto simp: contiguous_Cons)
    then show ?thesis using Cons.IH [of "k + 1"] True by simp
  next
    case False
    then show ?thesis by (auto simp: contiguous_Cons ones_then_zeros_tail)
  qed
qed

definition mask_bits :: "Addr \<Rightarrow> bool list" where
  "mask_bits m = bits_of (Addr_AsSlice m)"

lemma contiguous_unique: "contiguous n bs \<Longrightarrow> contiguous m bs \<Longrightarrow> n = m"
proof -
  assume "contiguous n bs" and "contiguous m bs"
  then have "length (filter id bs) = n" "length (filter id bs) = m" by (auto simp: contiguous_def dest: arg_cong [of _ _ "\<lambda>l. length (filter id l)"])
  then show ?thesis by simp
qed

lemma contiguous_pad: "n \<le> length bs \<Longrightarrow> contiguous n (bs @ replicate k False) \<longleftrightarrow> contiguous n bs"
proof -
  assume n: "n \<le> length bs"
  have "replicate (length bs + k - n) False = replicate (length bs - n) False @ replicate k False"
    using n by (simp add: replicate_add [symmetric])
  then show ?thesis using n by (simp add: contiguous_def)
qed

lemma contiguous_pad_bound: "contiguous n (bs @ replicate k False) \<Longrightarrow> n \<le> length bs"
proof (rule ccontr)
  assume c: "contiguous n (bs @ replicate k False)" and "\<not> n \<le> length bs"
  then have "length bs < n" "n \<le> length bs + k" by (simp_all add: contiguous_def)
  moreover from this c have "(bs @ replicate k False) ! length bs = True"
    unfolding contiguous_def by (metis nth_append length_replicate nth_replicate)
  ultimately show False by (simp add: nth_append)
qed

lemma maskToPrefixLen_cases:
  assumes "addr_wf m" and "Addr_IsValid m"
  shows "maskToPrefixLen m = (n, True) \<longleftrightarrow> contiguous n (mask_bits m)"
    and "(\<forall>n. \<not> contiguous n (mask_bits m)) \<longleftrightarrow> maskToPrefixLen m = (0, False)"
proof -
  define bs where "bs = (if Addr_Is4 m then copy_at 0 (Addr_AsSlice m) (replicate 16 0) else Addr_As16 m)"
  have pad: "\<exists>k. bits_of bs = mask_bits m @ replicate k False"
  proof (cases m)
    case (Addr4 b)
    then have "bs = b @ replicate 12 0" using assms(1) by (simp add: bs_def addr_wf_def copy_at_def)
    moreover have "bits_of (replicate j 0) = replicate (8 * j) False" for j
      by (induction j) (simp_all add: byte_bits_def replicate_add numeral_eq_Suc)
    ultimately have "bits_of bs = mask_bits m @ replicate (8 * 12) False" using Addr4 by (simp add: mask_bits_def)
    then show ?thesis by blast
  next
    case (Addr6 b z)
    then show ?thesis by (intro exI [of _ 0]) (simp add: bs_def mask_bits_def)
  qed (use assms in simp)
  then obtain k where k: "bits_of bs = mask_bits m @ replicate k False" by blast
  have loop: "ones_then_zeros (bits_of bs) (0, False) = Some (j, z) \<Longrightarrow> contiguous j (mask_bits m)" for j z
    using ones_then_zeros_iff [of "bits_of bs" 0 j z] contiguous_pad contiguous_pad_bound k by (metis add_0)
  have conv: "\<exists>z. ones_then_zeros (bits_of bs) (0, False) = Some (j, z)" if "contiguous j (mask_bits m)" for j
    using that ones_then_zeros_iff [of "bits_of bs" 0 j] contiguous_pad [of j "mask_bits m" k] k
    by (metis add_0 contiguous_def)
  have eq: "maskToPrefixLen m = (case ones_then_zeros (bits_of bs) (0, False) of None \<Rightarrow> (0, False) | Some (j, _) \<Rightarrow> (j, True))"
    by (simp add: maskToPrefixLen_def bs_def mask_byte_loop_eq)
  show "maskToPrefixLen m = (n, True) \<longleftrightarrow> contiguous n (mask_bits m)"
    using eq loop conv by (auto split: option.splits)
  show "(\<forall>n. \<not> contiguous n (mask_bits m)) \<longleftrightarrow> maskToPrefixLen m = (0, False)"
    using eq loop conv by (auto split: option.splits)
qed

section \<open>Routes\<close>

lemma byte_bits_inject: "byte_bits a = byte_bits b \<Longrightarrow> a = b"
proof (rule bit_word_eqI)
  fix n
  assume "byte_bits a = byte_bits b" and "n < LENGTH(8)"
  then show "bit a n = bit b n" by (auto simp: byte_bits_def less_Suc_eq numeral_eq_Suc)
qed

lemma bits_of_inject: "length as = length bs \<Longrightarrow> bits_of as = bits_of bs \<Longrightarrow> as = bs"
  by (induction as bs rule: list_induct2) (auto dest: byte_bits_inject)

lemma bits_of_and: "length as = length bs \<Longrightarrow> bits_of (map2 (AND) as bs) = map2 (\<and>) (bits_of as) (bits_of bs)"
proof (induction as bs rule: list_induct2)
  case (Cons a as b bs)
  have "byte_bits (a AND b) = map2 (\<and>) (byte_bits a) (byte_bits b)" by (simp add: byte_bits_def bit_simps)
  then show ?case using Cons by simp
qed simp

lemma map2_and_mask: "map2 (\<and>) bs (replicate n True @ replicate (length bs - n) False) = take n bs @ replicate (length bs - n) False"
proof (induction bs arbitrary: n)
  case (Cons b bs)
  then show ?case by (cases n) (simp_all add: Cons [of 0, simplified])
qed simp

text \<open>Masking to the length of a netmask is a bitwise conjunction with it.\<close>

lemma mask_bytes_and:
  assumes "length net = length m" and "contiguous n (bits_of m)"
  shows "mask_bytes n net = map2 (AND) net m"
proof (rule bits_of_inject)
  have n: "n \<le> 8 * length net" and m: "bits_of m = replicate n True @ replicate (length (bits_of net) - n) False"
    using assms by (simp_all add: contiguous_def)
  have "bits_of (map2 (AND) net m) = take n (bits_of net) @ replicate (length (bits_of net) - n) False"
    unfolding bits_of_and [OF assms(1)] m by (rule map2_and_mask)
  then show "bits_of (mask_bytes n net) = bits_of (map2 (AND) net m)" using bits_of_mask_bytes [OF n] by simp
qed (use assms in simp)

lemma route_exact:
  assumes "length net = 4" and "length m = 4"
  shows "(\<forall>n. contiguous n (bits_of m) \<longrightarrow>
      routeToPrefix [addr4_text net, addr4_text m] = Inr \<lparr>pf_ip = Addr4 (map2 (AND) net m), pf_bits = n\<rparr>) \<and>
    ((\<forall>n. \<not> contiguous n (bits_of m)) \<longrightarrow> routeToPrefix [addr4_text net, addr4_text m] = Inl MaskNotContiguous)"
proof -
  have parse: "ParseAddr (addr4_text net) = Inr (Addr4 net)" "ParseAddr (addr4_text m) = Inr (Addr4 m)"
    using ParseAddr_addr4_text assms by simp_all
  have wf: "addr_wf (Addr4 m)" "Addr_IsValid (Addr4 m)" "mask_bits (Addr4 m) = bits_of m"
    using assms by (simp_all add: addr_wf_def mask_bits_def)
  note cases = maskToPrefixLen_cases [OF wf(1,2), unfolded wf(3)]
  have "routeToPrefix [addr4_text net, addr4_text m] = Inr \<lparr>pf_ip = Addr4 (map2 (AND) net m), pf_bits = n\<rparr>"
    if c: "contiguous n (bits_of m)" for n
  proof -
    have "n \<le> 32" using c assms by (simp add: contiguous_def)
    moreover have "maskToPrefixLen (Addr4 m) = (n, True)" using cases(1) c by simp
    moreover have "mask_bytes n net = map2 (AND) net m" using mask_bytes_and [OF _ c] assms by simp
    ultimately show ?thesis by (simp add: routeToPrefix_def parse Addr_Prefix_def)
  qed
  moreover have "routeToPrefix [addr4_text net, addr4_text m] = Inl MaskNotContiguous" if "\<forall>n. \<not> contiguous n (bits_of m)"
    using cases(2) that by (simp add: routeToPrefix_def parse Let_def)
  ultimately show ?thesis by blast
qed

text \<open>
  A pushed IPv4 route becomes the prefix it denotes: for a network and a mask in dotted-quad
  form, if the mask is \<open>n\<close> ones followed by zeros, the route is the network with every bit outside
  the mask cleared (its bitwise conjunction with the mask) and length \<open>n\<close>; if the mask is of no
  such form, the option is refused as not contiguous.
\<close>

lemma pushed_route_exact:
  assumes "length net = 4" and "length m = 4"
  shows "(\<forall>n. contiguous n (bits_of m) \<longrightarrow>
      routeToPrefix [addr4_text net, addr4_text m] = Inr \<lparr>pf_ip = Addr4 (map2 (AND) net m), pf_bits = n\<rparr>) \<and>
    ((\<forall>n. \<not> contiguous n (bits_of m)) \<longrightarrow> routeToPrefix [addr4_text net, addr4_text m] = Inl MaskNotContiguous)"
  using route_exact [OF assms] by blast

lemma pushed_route_exact_witness:
  "routeToPrefix [addr4_text [10, 8, 3, 7], addr4_text [255, 255, 0, 0]] = Inr \<lparr>pf_ip = Addr4 [10, 8, 0, 0], pf_bits = 16\<rparr>"
proof -
  have "contiguous 16 (bits_of [255, 255, 0, 0])" by (simp add: contiguous_def bits_of_def byte_bits_def numeral_eq_Suc)
  moreover have "map2 (AND) [10, 8, 3, 7] [255, 255, 0, 0] = ([10, 8, 0, 0] :: bytes)" by simp
  ultimately show ?thesis
    using pushed_route_exact [of "[10, 8, 3, 7]" "[255, 255, 0, 0]"] by simp
qed

section \<open>What a parsed reply looks like\<close>

definition push_wf :: "PushReply \<Rightarrow> bool" where
  "push_wf pr \<longleftrightarrow> addr_wf (pr_LocalIP pr) \<and> addr_wf (pr_RemoteIP pr) \<and> addr_wf (pr_Netmask pr) \<and>
     prefix_wf (pr_LocalIP6 pr) \<and> addr_wf (pr_RemoteIP6 pr) \<and> addr_wf (pr_Gateway pr) \<and>
     (\<forall>p \<in> set (pr_Routes pr). prefix_wf p \<and> Prefix_IsValid p) \<and>
     (\<forall>p \<in> set (pr_Routes6 pr). prefix_wf p \<and> Prefix_IsValid p) \<and>
     (\<forall>a \<in> set (pr_DNS pr). addr_wf a \<and> Addr_IsValid a) \<and>
     pr_Netmask pr = pr_RemoteIP pr \<and> (Addr_IsValid (pr_LocalIP pr) \<longleftrightarrow> Addr_IsValid (pr_RemoteIP pr)) \<and>
     unat (pr_PeerID pr) < 2 ^ 24"

lemma parse_at_wf: "parse_at what s = Inr a \<Longrightarrow> addr_wf a \<and> Addr_IsValid a"
  using ParseAddr_wf [of s] by (cases "ParseAddr s") (auto simp: parse_at_def)

lemma prefix_at_wf: "prefix_at what s = Inr p \<Longrightarrow> prefix_wf p \<and> Prefix_IsValid p"
  using ParsePrefix_wf [of s] by (cases "ParsePrefix s") (auto simp: prefix_at_def)

lemma routeToPrefix_wf:
  assumes "routeToPrefix args = Inr p"
  shows "prefix_wf p \<and> Prefix_IsValid p"
proof -
  obtain a net n where "ParseAddr a = Inr net" "Addr_Prefix net n = Inr p"
    using assms
    by (cases args; cases "tl args") (auto simp: routeToPrefix_def Let_def rbind_eq_Inr map_sum_eq_Inr)
  then show ?thesis using ParseAddr_wf Addr_Prefix_wf by blast
qed

lemma unat_of_nat_small: "n < 2 ^ 24 \<Longrightarrow> unat (of_nat n :: u32) = n"
  by (simp add: unat_of_nat)

lemma apply_fields_wf:
  assumes "push_wf pr"
  shows "result_ok push_wf (apply_fields fs pr)"
proof -
  note wf = assms [unfolded push_wf_def] parse_at_wf prefix_at_wf routeToPrefix_wf
  have pid: "unat (of_nat n :: u32) < 2 ^ 24" if "ParseUint 24 s = Some n" for n s
    using ParseUint_range [OF that] unat_of_nat_small by simp
  show ?thesis
    unfolding apply_fields_def Let_def
    by (intro result_intros result_ok_Inr) (use assms in \<open>auto simp: push_wf_def intro: pid [simplified] dest!: wf(2-)\<close>)
qed

lemma apply_options_keeps:
  assumes "\<And>fs pr. P pr \<Longrightarrow> result_ok P (apply_fields fs pr)"
  shows "P pr \<Longrightarrow> result_ok P (apply_options opts pr)"
proof (induction opts pr rule: apply_options.induct)
  case (2 opt opts pr)
  show ?case
  proof (cases "applyOption (TrimSpace opt) pr")
    case (Inr pr')
    then have "P pr'"
      using assms [OF "2.prems", of "Fields (TrimSpace opt)"] "2.prems"
      by (auto simp: applyOption_def result_ok_def Let_def split: if_splits)
    then show ?thesis using 2 Inr by (auto simp: Let_def)
  qed (use 2 in \<open>auto simp: Let_def intro: result_intros\<close>)
qed (simp add: result_ok_Inr)

lemma apply_fields_Raw: "pr_Raw pr = r \<Longrightarrow> result_ok (\<lambda>pr'. pr_Raw pr' = r) (apply_fields fs pr)"
  unfolding apply_fields_def Let_def by (intro result_intros result_ok_Inr) auto

lemma ParsePushReply_wf:
  assumes "ParsePushReply s = Inr pr"
  shows "push_wf pr \<and> s = ''PUSH_REPLY,'' @ pr_Raw pr"
proof -
  obtain body where s: "s = PushReplyPrefix @ body"
    using assms by (auto simp: ParsePushReply_def HasPrefix_iff split: if_splits)
  have "push_wf (zero_PushReply\<lparr>pr_Raw := body, pr_Topology := ''net30''\<rparr>)"
    by (simp add: push_wf_def zero_PushReply_def addr_wf_def prefix_wf_def NoPrefix_def)
  moreover have "apply_options (Split CHR '','' body) (zero_PushReply\<lparr>pr_Raw := body, pr_Topology := ''net30''\<rparr>) = Inr pr"
    using assms by (simp add: ParsePushReply_def s)
  moreover have "pr_Raw (zero_PushReply\<lparr>pr_Raw := body, pr_Topology := ''net30''\<rparr>) = body" by simp
  ultimately have "push_wf pr" "pr_Raw pr = body"
    using apply_options_keeps [of push_wf, OF apply_fields_wf] apply_options_keeps [of "\<lambda>p. pr_Raw p = body", OF apply_fields_Raw]
    by (blast dest: result_okD)+
  then show ?thesis using s by (simp add: PushReplyPrefix_def)
qed

text \<open>
  C32. Every parsed \<^verbatim>\<open>PUSH_REPLY\<close> is well formed, whatever the server sends: each address field is
  absent or a real IPv4 or IPv6 address, the second \<^verbatim>\<open>ifconfig\<close> argument is the peer and the netmask
  alike and is there exactly when the local address is, every route and IPv6 route is a valid prefix
  with a length its address family allows, every DNS server is a valid address, the peer-id fits in
  the 24 bits of the data header, and the raw text kept is the message after its prefix.
\<close>

theorem ParsePushReply_wellformed:
  assumes "ParsePushReply s = Inr pr"
  shows "push_wf pr \<and> s = ''PUSH_REPLY,'' @ pr_Raw pr"
  by (rule ParsePushReply_wf [OF assms])

section \<open>What the server pushes is what the client gets\<close>

text \<open>A server's options, the words each is sent as, and what it means.\<close>

datatype server_option =
    SIfconfig bytes bytes
  | SRoute bytes bytes nat  \<comment> \<open>with the length of the mask\<close>
  | SGateway bytes
  | SDNS bytes
  | SMTU nat
  | SCipher string
  | SPeerID nat
  | SPing nat
  | SPingRestart nat
  | STopology string
  | SOther string "string list"

fun words_of :: "server_option \<Rightarrow> string list" where
  "words_of (SIfconfig a b) = [''ifconfig'', addr4_text a, addr4_text b]"
| "words_of (SRoute a m n) = [''route'', addr4_text a, addr4_text m]"
| "words_of (SGateway a) = [''route-gateway'', addr4_text a]"
| "words_of (SDNS a) = [''dhcp-option'', ''DNS'', addr4_text a]"
| "words_of (SMTU n) = [''tun-mtu'', nat_decimal n]"
| "words_of (SCipher c) = [''cipher'', c]"
| "words_of (SPeerID n) = [''peer-id'', nat_decimal n]"
| "words_of (SPing n) = [''ping'', nat_decimal n]"
| "words_of (SPingRestart n) = [''ping-restart'', nat_decimal n]"
| "words_of (STopology t) = [''topology'', t]"
| "words_of (SOther w ws) = w # ws"

fun meaning :: "server_option \<Rightarrow> PushReply \<Rightarrow> PushReply" where
  "meaning (SIfconfig a b) pr = pr\<lparr>pr_LocalIP := Addr4 a, pr_RemoteIP := Addr4 b, pr_Netmask := Addr4 b\<rparr>"
| "meaning (SRoute a m n) pr = pr\<lparr>pr_Routes := pr_Routes pr @ [\<lparr>pf_ip = Addr4 (map2 (AND) a m), pf_bits = n\<rparr>]\<rparr>"
| "meaning (SGateway a) pr = pr\<lparr>pr_Gateway := Addr4 a\<rparr>"
| "meaning (SDNS a) pr = pr\<lparr>pr_DNS := pr_DNS pr @ [Addr4 a]\<rparr>"
| "meaning (SMTU n) pr = pr\<lparr>pr_MTU := int n\<rparr>"
| "meaning (SCipher c) pr = pr\<lparr>pr_Cipher := c\<rparr>"
| "meaning (SPeerID n) pr = pr\<lparr>pr_PeerID := of_nat n\<rparr>"
| "meaning (SPing n) pr = pr\<lparr>pr_PingInterval := int n * sec\<rparr>"
| "meaning (SPingRestart n) pr = pr\<lparr>pr_PingRestart := int n * sec\<rparr>"
| "meaning (STopology t) pr = pr\<lparr>pr_Topology := t\<rparr>"
| "meaning (SOther w ws) pr = pr"

definition word_ok :: "string \<Rightarrow> bool" where
  "word_ok w \<longleftrightarrow> w \<noteq> [] \<and> list_all plain_char w \<and> CHR '','' \<notin> set w"

definition known_options :: "string list" where
  "known_options = [''ifconfig'', ''ifconfig-ipv6'', ''route'', ''route-ipv6'', ''route-gateway'', ''dhcp-option'', ''tun-mtu'',
     ''cipher'', ''peer-id'', ''ping'', ''ping-restart'', ''topology'']"

fun option_ok :: "server_option \<Rightarrow> bool" where
  "option_ok (SIfconfig a b) = (length a = 4 \<and> length b = 4)"
| "option_ok (SRoute a m n) = (length a = 4 \<and> length m = 4 \<and> contiguous n (bits_of m))"
| "option_ok (SGateway a) = (length a = 4)"
| "option_ok (SDNS a) = (length a = 4)"
| "option_ok (SMTU n) = (n < 2 ^ 63)"
| "option_ok (SCipher c) = word_ok c"
| "option_ok (SPeerID n) = (n < 2 ^ 24)"
| "option_ok (SPing n) = (n < 2 ^ 33)"
| "option_ok (SPingRestart n) = (n < 2 ^ 33)"
| "option_ok (STopology t) = word_ok t"
| "option_ok (SOther w ws) = (w \<notin> set known_options \<and> list_all word_ok (w # ws))"

lemma plain_digit: "d < 10 \<Longrightarrow> plain_char (digit_char d) \<and> digit_char d \<noteq> CHR '',''"
  by (auto simp: plain_char_def digit_char_def Let_def) (metis char_digit_digit char_digit_sign(3) digit_char_def option.distinct(1))

lemma word_ok_decimal: "word_ok (nat_decimal n)"
  using set_nat_decimal plain_digit by (fastforce simp: word_ok_def list_all_iff)

lemma word_ok_append_dot: "word_ok v \<Longrightarrow> word_ok w \<Longrightarrow> word_ok (v @ CHR ''.'' # w)"
  by (auto simp: word_ok_def plain_char_def Let_def)

lemma word_ok_addr4_text:
  assumes "length a = 4"
  shows "word_ok (addr4_text a)"
proof -
  obtain b1 b2 b3 b4 where "a = [b1, b2, b3, b4]"
    using assms by (auto simp: length_Suc_conv numeral_eq_Suc)
  then show ?thesis by (simp add: addr4_text_def word_ok_append_dot word_ok_decimal)
qed

lemma word_ok_literals:
  "word_ok ''ifconfig''" "word_ok ''route''" "word_ok ''route-gateway''" "word_ok ''dhcp-option''" "word_ok ''DNS''"
  "word_ok ''tun-mtu''" "word_ok ''cipher''" "word_ok ''peer-id''" "word_ok ''ping''" "word_ok ''ping-restart''" "word_ok ''topology''"
  by (simp_all add: word_ok_def plain_char_def)

lemma words_ok: "option_ok o' \<Longrightarrow> words_of o' \<noteq> [] \<and> list_all word_ok (words_of o')"
  by (cases o') (auto simp: word_ok_literals word_ok_addr4_text word_ok_decimal)

lemma int64_id: "0 \<le> i \<Longrightarrow> i < 2 ^ 63 \<Longrightarrow> int64 i = i"
  by (simp add: int64_def signed_of_int signed_take_bit_int_eq_self)

lemma Atoi_decimal: "n < 2 ^ 63 \<Longrightarrow> Atoi (nat_decimal n) = Some (int n)"
  using Atoi_sprintf_d [of "int n"] by (simp add: sprintf_d_def)

lemma int64_seconds: "n < 2 ^ 33 \<Longrightarrow> int64 (int n * sec) = int n * sec"
  by (rule int64_id) (simp_all add: sec_def)

lemma EqualFold_DNS: "EqualFold ''DNS'' ''DNS''"
  by simp

lemma apply_fields_meaning: "option_ok o' \<Longrightarrow> apply_fields (words_of o') pr = Inr (meaning o' pr)"
proof (cases o')
  case (SRoute a m n)
  assume "option_ok o'"
  then have "routeToPrefix [addr4_text a, addr4_text m] = Inr \<lparr>pf_ip = Addr4 (map2 (AND) a m), pf_bits = n\<rparr>"
    using route_exact SRoute by simp
  then show ?thesis using SRoute by (simp add: apply_fields_def)
next
  case (SOther w ws)
  assume "option_ok o'"
  then show ?thesis using SOther by (simp add: apply_fields_def known_options_def)
qed (simp_all add: apply_fields_def parse_at_def number_at_def ParseAddr_addr4_text Atoi_decimal int64_seconds ParseUint_nat_decimal EqualFold_DNS
    del: EqualFold.simps)

text \<open>The text of an option: its words survive trimming and splitting, and it contains no comma.\<close>

lemma Join_ends:
  assumes "ws \<noteq> []" and "list_all word_ok ws"
  obtains c r where "Join ws '' '' = c # r" "plain_char c" "plain_char (last (Join ws '' ''))" "CHR '','' \<notin> set (Join ws '' '')"
proof -
  have "\<exists>c r. Join ws '' '' = c # r \<and> plain_char c \<and> plain_char (last (Join ws '' '')) \<and> CHR '','' \<notin> set (Join ws '' '')"
    using assms
  proof (induction ws rule: induct_list012)
    case (2 w)
    then show ?case by (cases w) (auto simp: word_ok_def list_all_iff)
  next
    case (3 w v ws)
    then obtain c r where j: "Join (v # ws) '' '' = c # r" "plain_char (last (Join (v # ws) '' ''))" "CHR '','' \<notin> set (Join (v # ws) '' '')"
      by auto
    then show ?case using 3 by (cases w) (auto simp: word_ok_def)
  qed simp
  then show thesis using that by blast
qed

lemma apply_option_text:
  assumes "option_ok o'"
  shows "apply_options (Join (words_of o') '' '' # opts) pr = apply_options opts (meaning o' pr)"
proof -
  have ws: "words_of o' \<noteq> []" "list_all word_ok (words_of o')" using words_ok [OF assms] by simp_all
  obtain c r where j: "Join (words_of o') '' '' = c # r" "plain_char c" "plain_char (last (Join (words_of o') '' ''))"
    by (rule Join_ends [OF ws])
  have trim: "TrimSpace (Join (words_of o') '' '') = Join (words_of o') '' ''" using TrimSpace_plain [OF j] .
  have "Fields (Join (words_of o') '' '') = words_of o'"
    by (rule Fields_join) (use ws in \<open>auto simp: word_ok_def list_all_iff\<close>)
  then have "applyOption (Join (words_of o') '' '') pr = Inr (meaning o' pr)"
    using ws apply_fields_meaning [OF assms] by (simp add: applyOption_def)
  moreover have "Join (words_of o') '' '' \<noteq> []" using j(1) by simp
  ultimately show ?thesis by (simp add: trim Let_def del: Join.simps)
qed

text \<open>The whole message: the texts of the options, separated by commas.\<close>

definition options_text :: "server_option list \<Rightarrow> string" where
  "options_text os = Join (map (\<lambda>o'. Join (words_of o') '' '') os) '',''"

lemma ParsePushReply_options:
  assumes "list_all option_ok os"
  shows "ParsePushReply (''PUSH_REPLY,'' @ options_text os) =
    Inr (fold meaning os (zero_PushReply\<lparr>pr_Raw := options_text os, pr_Topology := ''net30''\<rparr>))"
proof -
  let ?texts = "map (\<lambda>o'. Join (words_of o') '' '') os"
  have run: "apply_options ?texts pr = Inr (fold meaning os pr)" for pr
    using assms
  proof (induction os arbitrary: pr)
    case (Cons o' os)
    then show ?case using apply_option_text [of o'] by simp
  qed simp
  have "apply_options (Split CHR '','' (Join ?texts '','')) pr = apply_options ?texts pr" for pr
  proof (cases "os = []")
    case True
    then show ?thesis by (simp add: TrimSpace_def trim_left.simps trim_right.simps space_suffix_len_def)
  next
    case False
    have "CHR '','' \<notin> set t" if t: "t \<in> set ?texts" for t
    proof -
      obtain o' where "o' \<in> set os" "t = Join (words_of o') '' ''" using t unfolding set_map by (elim imageE)
      moreover from this have "words_of o' \<noteq> []" "list_all word_ok (words_of o')" using words_ok assms by (auto simp: list_all_iff)
      ultimately show ?thesis using Join_ends by metis
    qed
    then show ?thesis using Split_join [of ?texts] False by simp
  qed
  then show ?thesis using run by (simp add: ParsePushReply_def PushReplyPrefix_def HasPrefix_iff options_text_def)
qed

theorem ParsePushReply_wellformed_witness:
  "\<exists>pr. ParsePushReply ''PUSH_REPLY,peer-id 7,route-gateway 10.8.0.1'' = Inr pr \<and> push_wf pr \<and>
     pr_Raw pr = ''peer-id 7,route-gateway 10.8.0.1'' \<and> pr_PeerID pr = 7 \<and> pr_Gateway pr = Addr4 [10, 8, 0, 1]"
proof -
  have texts: "Split CHR '','' ''peer-id 7,route-gateway 10.8.0.1'' =
      [Join (words_of (SPeerID 7)) '' '', Join (words_of (SGateway [10, 8, 0, 1])) '' '']"
    by (simp add: nat_decimal.simps digit_char_def addr4_text_def char_of_def bit_0 bit_numeral_rec)
  obtain pr where pr: "ParsePushReply ''PUSH_REPLY,peer-id 7,route-gateway 10.8.0.1'' = Inr pr"
      "pr_PeerID pr = 7" "pr_Gateway pr = Addr4 [10, 8, 0, 1]"
    unfolding ParsePushReply_def PushReplyPrefix_def 
    by (simp add: texts Let_def apply_option_text del: words_of.simps Split.simps apply_options.simps(2))
  moreover note ParsePushReply_wellformed [OF pr(1)]
  ultimately show ?thesis by auto
qed

text \<open>
  What the server pushes is what the client gets: for every list of options of the kinds this
  client honours (addresses in dotted-quad form, contiguous masks, numbers in range), in any order
  and with any number of options it does not know in between, parsing the message gives the record
  in which each option has its meaning, later ones overriding or extending earlier ones; no option
  makes the reply unreadable. Pings are seconds, and the numbers are never changed by 64-bit
  arithmetic.
\<close>

lemma push_reply_roundtrip:
  assumes "list_all option_ok os"
  shows "ParsePushReply (''PUSH_REPLY,'' @ options_text os) =
    Inr (fold meaning os (zero_PushReply\<lparr>pr_Raw := options_text os, pr_Topology := ''net30''\<rparr>))"
  by (rule ParsePushReply_options [OF assms])

lemma push_reply_roundtrip_witness:
  "\<exists>pr. ParsePushReply (''PUSH_REPLY,'' @ options_text
      [SCipher ''AES-256-GCM'', SOther ''compress'' [], SPing 10, SIfconfig [10, 8, 0, 2] [255, 255, 255, 0]]) = Inr pr \<and>
     pr_Cipher pr = ''AES-256-GCM'' \<and> pr_PingInterval pr = 10 * sec \<and> pr_LocalIP pr = Addr4 [10, 8, 0, 2]"
  by (subst push_reply_roundtrip) (simp_all add: word_ok_def plain_char_def known_options_def)

end
