(* ===== verification/Handshake.thy ===== *)
theory Handshake
  imports SessionProperties PushReply
begin

text \<open>
  The client's handshake (\<^verbatim>\<open>Run\<close> in \<^verbatim>\<open>internal/control/handshake.go\<close>) with the events it reports to a
  tracer (\<^verbatim>\<open>internal/trace/trace.go\<close>), and the dialling of a session around it
  (\<^verbatim>\<open>DialWithTransport\<close> and \<^verbatim>\<open>Dial\<close> in \<^verbatim>\<open>internal/session/session.go\<close>).

  \<^verbatim>\<open>crypto/tls\<close> is outside: whether its handshake and its writes succeed, the plaintext the server
  sends through it and its key exporter are arguments (\<open>handshake_env\<close>), like the random source.
  Events are modelled without their time stamps.
\<close>

section \<open>Events\<close>

datatype HandshakeStage =
    StageHardReset | StageTLSHandshake | StageKeyMethod2Send | StageKeyMethod2Recv
  | StagePushRequest | StagePushReply | StageDataKeys | StageComplete

fun stage_String :: "HandshakeStage \<Rightarrow> string" where
  "stage_String StageHardReset = ''hard-reset''"
| "stage_String StageTLSHandshake = ''tls''"
| "stage_String StageKeyMethod2Send = ''km2-send''"
| "stage_String StageKeyMethod2Recv = ''km2-recv''"
| "stage_String StagePushRequest = ''push-request''"
| "stage_String StagePushReply = ''push-reply''"
| "stage_String StageDataKeys = ''data-keys''"
| "stage_String StageComplete = ''complete''"

datatype handshake_error =
    NoTLSConfig
  | HardResetFailed rel_error
  | TLSFailed
  | GenPreMaster
  | GenRandom1
  | GenRandom2
  | KMMarshal proto_error
  | KMWrite
  | KMRead control_error
  | PushRequestWrite
  | ResponseRead control_error
  | AuthFailed string
  | PushParse push_error
  | MissingCipher
  | CipherError keys_error
  | KeysError keys_error

record HandshakeEvent =
  ev_Stage :: HandshakeStage
  ev_Err :: "handshake_error option"

section \<open>Run\<close>

record RunConfig =
  rc_TLSConfig :: bool  \<comment> \<open>not \<^verbatim>\<open>nil\<close>\<close>
  rc_Username :: string
  rc_Password :: string
  rc_Ciphers :: "string list"
  rc_PeerInfoExtra :: peer_info
  rc_Proto :: string
  rc_HardResetOpcode :: opcode
  rc_PeerInfoVersion :: string

record HandshakeResult =
  rs_KeyMaterial :: DataKeyMaterial
  rs_PushReply :: PushReply
  rs_Cipher :: string
  rs_PeerID :: u32
  rs_RemoteSID :: u64
  rs_ServerKM2 :: KeyMethod2

text \<open>
  \<open>he_meanwhile\<close> is what the pumps and the TLS library make of the layer between the hard reset
  and the end of the handshake.
\<close>

record handshake_env =
  he_now :: int
  he_goos :: string
  he_tls :: bool
  he_preMaster :: "bytes option"
  he_random1 :: "bytes option"
  he_random2 :: "bytes option"
  he_kmWrite :: bool
  he_pushWrite :: bool
  he_stream :: bytes
  he_ekm :: exporter
  he_meanwhile :: "Layer \<Rightarrow> Layer"

definition with_defaults :: "RunConfig \<Rightarrow> RunConfig" where
  "with_defaults cfg =
     (let cfg = (if rc_HardResetOpcode cfg = 0 then cfg\<lparr>rc_HardResetOpcode := PControlHardResetClientV2\<rparr> else cfg);
          cfg = (if rc_Ciphers cfg = []
                 then cfg\<lparr>rc_Ciphers := [''AES-256-GCM'', ''CHACHA20-POLY1305'', ''AES-128-GCM'']\<rparr> else cfg)
      in if rc_Proto cfg = '''' then cfg\<lparr>rc_Proto := ''UDPv4''\<rparr> else cfg)"

text \<open>
  One stage: its event at the start, and on failure one more with the error, after which nothing
  happens any more. Beside the events, \<open>Run\<close> returns the plaintext it has written to the TLS
  connection.
\<close>

type_synonym 'a traced_run = "HandshakeEvent list \<times> bytes \<times> (handshake_error, 'a) result"

definition emit :: "HandshakeStage \<Rightarrow> handshake_error option \<Rightarrow> HandshakeEvent" where
  "emit stage err = \<lparr>ev_Stage = stage, ev_Err = err\<rparr>"

definition in_stage :: "HandshakeStage \<Rightarrow> bytes \<Rightarrow> (handshake_error, 'a) result \<Rightarrow> ('a \<Rightarrow> 'b traced_run) \<Rightarrow> 'b traced_run" where
  "in_stage stage out r k =
     (case r of
        Inl e \<Rightarrow> ([emit stage None, emit stage (Some e)], out, Inl e)
      | Inr x \<Rightarrow> (case k x of (evs, w, res) \<Rightarrow> (emit stage None # evs, out @ w, res)))"

definition need :: "'e \<Rightarrow> 'a option \<Rightarrow> ('e, 'a) result" where
  "need e v = (case v of None \<Rightarrow> Inl e | Some x \<Rightarrow> Inr x)"

definition succeeds :: "'e \<Rightarrow> bool \<Rightarrow> ('e, unit) result" where
  "succeeds e ok = (if ok then Inr () else Inl e)"

definition clientKM :: "string \<Rightarrow> RunConfig \<Rightarrow> bytes \<Rightarrow> bytes \<Rightarrow> bytes \<Rightarrow> KeyMethod2" where
  "clientKM goos cfg preMaster random1 random2 =
     (let authUserPass = (rc_Username cfg \<noteq> '''' \<or> rc_Password cfg \<noteq> '''');
          ciphersStr = Join (rc_Ciphers cfg) '':''
      in \<lparr>km_IsServer = False, km_PreMaster = preMaster, km_Random1 = random1, km_Random2 = random2,
          km_Options = buildOptionsString ciphersStr (rc_Proto cfg),
          km_Username = rc_Username cfg, km_Password = rc_Password cfg, km_AuthUserPass = authUserPass,
          km_PeerInfo = buildPeerInfo goos ciphersStr (rc_PeerInfoVersion cfg) (rc_PeerInfoExtra cfg)\<rparr>)"

text \<open>Stage 3 up to the write.\<close>

definition km2_send :: "handshake_env \<Rightarrow> RunConfig \<Rightarrow> (handshake_error, bytes) result" where
  "km2_send env cfg =
     rbind (need GenPreMaster (he_preMaster env)) (\<lambda>preMaster.
     rbind (need GenRandom1 (he_random1 env)) (\<lambda>random1.
     rbind (need GenRandom2 (he_random2 env)) (\<lambda>random2.
     map_sum KMMarshal id (MarshalKeyMethod2 (clientKM (he_goos env) cfg preMaster random1 random2)))))"

text \<open>Stage 6: the server's answer to the push request.\<close>

definition push_response :: "bytes \<Rightarrow> (handshake_error, PushReply) result" where
  "push_response r =
     rbind (map_sum ResponseRead id (ReadControlMessage r)) (\<lambda>(msg, r).
     if HasPrefix msg ''AUTH_FAILED'' then Inl (AuthFailed msg)
     else rbind (map_sum PushParse id (ParsePushReply msg)) (\<lambda>pushReply.
       if pr_Cipher pushReply = '''' then Inl MissingCipher
       else rbind (map_sum CipherError id (AEADKeyLen (pr_Cipher pushReply))) (\<lambda>_. Inr pushReply)))"

definition Run :: "handshake_env \<Rightarrow> RunConfig \<Rightarrow> Layer \<Rightarrow> HandshakeResult traced_run \<times> Layer" where
  "Run env cfg layer =
     (if \<not> rc_TLSConfig cfg then (([], [], Inl NoTLSConfig), layer)
      else
        let cfg = with_defaults cfg;
            (err, layer) = SendHardReset (he_now env) (rc_HardResetOpcode cfg) layer
        in (in_stage StageHardReset [] (case err of Some e \<Rightarrow> Inl (HardResetFailed e) | None \<Rightarrow> Inr ()) (\<lambda>_.
            in_stage StageTLSHandshake [] (succeeds TLSFailed (he_tls env)) (\<lambda>_.
            let km = km2_send env cfg;
                out = (case km of Inr kmBytes \<Rightarrow> if he_kmWrite env then kmBytes else [] | Inl _ \<Rightarrow> [])
            in in_stage StageKeyMethod2Send out (rbind km (\<lambda>_. succeeds KMWrite (he_kmWrite env))) (\<lambda>_.
            in_stage StageKeyMethod2Recv [] (map_sum KMRead id (ReadKeyMethod2 (he_stream env) True False)) (\<lambda>(serverKM, r).
            in_stage StagePushRequest (if he_pushWrite env then WriteControlMessage [] ''PUSH_REQUEST'' else [])
              (succeeds PushRequestWrite (he_pushWrite env)) (\<lambda>_.
            in_stage StagePushReply [] (push_response r) (\<lambda>pushReply.
            in_stage StageDataKeys [] (map_sum KeysError id (DeriveDataKeys (he_ekm env))) (\<lambda>keys.
            ([emit StageComplete None], [],
             Inr \<lparr>rs_KeyMaterial = keys, rs_PushReply = pushReply, rs_Cipher = pr_Cipher pushReply,
                  rs_PeerID = pr_PeerID pushReply,
                  rs_RemoteSID = fst (RemoteSessionID (he_meanwhile env layer)),
                  rs_ServerKM2 = serverKM\<rparr>)))))))), layer))"

section \<open>Dialling a session\<close>

datatype dial_error =
    DialSession session_error
  | DialGenSID
  | DialHandshake handshake_error
  | DialSlot slot_error
  | DialNetwork
  | DialRemoteAddr
  | DialTransportFailed

text \<open>
  \<open>de_during\<close> is what the read loop, the pumps and the TLS library do to the session while \<^verbatim>\<open>Run\<close>
  is at work; \<open>de_sid\<close> are the bytes of the random session id.
\<close>

record dial_env =
  de_sid :: "bytes option"
  de_aes :: aes_fn
  de_pem :: pem_codec
  de_uni :: "string \<Rightarrow> string"
  de_run :: handshake_env
  de_during :: "Session \<Rightarrow> Session"
  de_lib :: aead_lib
  de_up :: int

definition run_config :: "Config \<Rightarrow> opcode \<Rightarrow> RunConfig" where
  "run_config cfg hardResetOp =
     \<lparr>rc_TLSConfig = cfg_TLSConfig cfg, rc_Username = cfg_Username cfg, rc_Password = cfg_Password cfg,
      rc_Ciphers = cfg_Ciphers cfg, rc_PeerInfoExtra = cfg_PeerInfoExtra cfg, rc_Proto = '''',
      rc_HardResetOpcode = hardResetOp, rc_PeerInfoVersion = cfg_PeerInfoVersion cfg\<rparr>"

definition session_result :: "HandshakeResult \<Rightarrow> handshake_result" where
  "session_result r =
     \<lparr>hr_KeyMaterial = rs_KeyMaterial r, hr_Cipher = rs_Cipher r, hr_PeerID = rs_PeerID r,
      hr_PingInterval = pr_PingInterval (rs_PushReply r), hr_PingRestart = pr_PingRestart (rs_PushReply r)\<rparr>"

text \<open>
  The result: an error with the session that was given up (if there was one) and whether the
  transport is closed, or the session with the push reply; beside it the trace.
\<close>

record dial_failure =
  df_error :: dial_error
  df_session :: "Session option"
  df_transportClosed :: bool

definition DialWithTransport ::
  "dial_env \<Rightarrow> Config \<Rightarrow> HandshakeEvent list \<times> (dial_failure, Session \<times> PushReply) result" where
  "DialWithTransport env cfg =
     (case validateConfig cfg of
        Some e \<Rightarrow> ([], Inl \<lparr>df_error = DialSession e, df_session = None, df_transportClosed = False\<rparr>)
      | None \<Rightarrow>
     (case de_sid env of
        None \<Rightarrow> ([], Inl \<lparr>df_error = DialGenSID, df_session = None, df_transportClosed = False\<rparr>)
      | Some sidBytes \<Rightarrow>
     (case buildWrapper (de_aes env) (de_pem env) (de_uni env) cfg of
        Inl e \<Rightarrow> ([], Inl \<lparr>df_error = DialSession e, df_session = None, df_transportClosed = True\<rparr>)
      | Inr (wrapper, hardResetOp) \<Rightarrow>
          let s = newSession cfg wrapper (uint64_of sidBytes);
              r = the (layers_Get (se_layers s) 0);
              renv = (de_run env)\<lparr>he_meanwhile := (\<lambda>l. layer_of (de_during env (put_layer r l s)) r)\<rparr>;
              ((evs, _, res), layer) = Run renv (run_config cfg hardResetOp) (layer_of s r);
              s = de_during env (put_layer r layer s)
          in (evs, case res of
                Inl e \<Rightarrow> Inl \<lparr>df_error = DialHandshake e, df_session = Some (shutdown s), df_transportClosed = True\<rparr>
              | Inr result \<Rightarrow>
                  (case session_established (de_lib env) (de_up env) (session_result result) s of
                     (Inl e, s) \<Rightarrow> Inl \<lparr>df_error = DialSlot e, df_session = Some s, df_transportClosed = True\<rparr>
                   | (Inr _, s) \<Rightarrow> Inr (s, rs_PushReply result))))))"

text \<open>\<^verbatim>\<open>Dial\<close>: \<open>transport\<close> is the outcome of \<^verbatim>\<open>transport.Dial\<close>.\<close>

definition Session_Dial :: "bool \<Rightarrow> dial_env \<Rightarrow> Config \<Rightarrow> HandshakeEvent list \<times> (dial_failure, Session \<times> PushReply) result" where
  "Session_Dial transport env cfg =
     (if cfg_Network cfg = ''''
      then ([], Inl \<lparr>df_error = DialNetwork, df_session = None, df_transportClosed = True\<rparr>)
      else if cfg_RemoteAddr cfg = ''''
      then ([], Inl \<lparr>df_error = DialRemoteAddr, df_session = None, df_transportClosed = True\<rparr>)
      else if \<not> transport
      then ([], Inl \<lparr>df_error = DialTransportFailed, df_session = None, df_transportClosed = True\<rparr>)
      else DialWithTransport env cfg)"


section \<open>The trace\<close>

text \<open>
  A run over the stages \<open>ss\<close>: all of them reported and then completion, or an initial part of them
  with the error reported once more for the last.
\<close>

definition started :: "HandshakeStage list \<Rightarrow> HandshakeEvent list" where
  "started ss = map (\<lambda>s. emit s None) ss"

definition traced :: "HandshakeStage list \<Rightarrow> 'a traced_run \<Rightarrow> bool" where
  "traced ss run =
     (case run of (evs, w, r) \<Rightarrow>
        (case r of
           Inr x \<Rightarrow> evs = started (ss @ [StageComplete])
         | Inl e \<Rightarrow> \<exists>k < length ss. evs = started (take (Suc k) ss) @ [emit (ss ! k) (Some e)]))"

lemma traced_done: "traced [] ([emit StageComplete None], w, Inr x)"
  by (simp add: traced_def started_def)

lemma traced_in_stage:
  assumes "\<And>x. r = Inr x \<Longrightarrow> traced ss (k x)"
  shows "traced (s # ss) (in_stage s out r k)"
proof (cases r)
  case (Inl e)
  then show ?thesis by (auto simp: traced_def in_stage_def started_def intro!: exI [of _ 0])
next
  case (Inr x)
  obtain evs w res where k: "k x = (evs, w, res)" by (cases "k x")
  have "traced ss (evs, w, res)" using assms [OF Inr] k by simp
  then show ?thesis
  proof (cases res)
    case (Inl e)
    with \<open>traced ss (evs, w, res)\<close> obtain n where "n < length ss" "evs = started (take (Suc n) ss) @ [emit (ss ! n) (Some e)]"
      by (auto simp: traced_def)
    then show ?thesis
      using Inr k Inl by (auto simp: traced_def in_stage_def started_def intro!: exI [of _ "Suc n"])
  qed (use Inr k in \<open>auto simp: traced_def in_stage_def started_def\<close>)
qed

definition handshake_stages :: "HandshakeStage list" where
  "handshake_stages = [StageHardReset, StageTLSHandshake, StageKeyMethod2Send, StageKeyMethod2Recv,
     StagePushRequest, StagePushReply, StageDataKeys]"

lemma Run_traced: "rc_TLSConfig cfg \<Longrightarrow> traced handshake_stages (fst (Run env cfg layer))"
  unfolding Run_def handshake_stages_def
  by (auto simp: Let_def split: prod.splits intro!: traced_in_stage traced_done)

text \<open>
  What a tracer sees of a handshake is what happened: the stages are reported in protocol
  order, each once when it starts; a handshake that succeeds reports all seven and then completion,
  and no error; a handshake that fails reports the stages up to the failing one, that one a second
  time with the very error \<open>Run\<close> returns, and nothing after it, in particular never completion.
\<close>

lemma handshake_trace:
  assumes "rc_TLSConfig cfg" and "Run env cfg layer = ((evs, w, r), layer')"
  shows "case r of
      Inr res \<Rightarrow> map ev_Stage evs = handshake_stages @ [StageComplete] \<and> (\<forall>ev \<in> set evs. ev_Err ev = None)
    | Inl e \<Rightarrow> \<exists>k < length handshake_stages.
        map ev_Stage evs = take (Suc k) handshake_stages @ [handshake_stages ! k] \<and>
        map ev_Err evs = replicate (Suc k) None @ [Some e]"
proof -
  have tr: "traced handshake_stages (evs, w, r)" using Run_traced [OF assms(1), of env layer] assms(2) by simp
  have st: "map ev_Stage (started ss) = ss" "map ev_Err (started ss) = replicate (length ss) None"
    "\<forall>ev \<in> set (started ss). ev_Err ev = None" for ss
    by (induction ss) (auto simp: started_def emit_def)
  show ?thesis
  proof (cases r)
    case (Inl e)
    then obtain k where k: "k < length handshake_stages"
        "evs = started (take (Suc k) handshake_stages) @ [emit (handshake_stages ! k) (Some e)]"
      using tr by (auto simp: traced_def)
    then show ?thesis unfolding Inl by (auto simp: st emit_def intro!: exI [of _ k])
  next
    case (Inr res)
    then have "evs = started (handshake_stages @ [StageComplete])" using tr by (simp add: traced_def)
    then show ?thesis unfolding Inr by (simp add: st)
  qed
qed

section \<open>What the two ends exchange\<close>

lemma in_stage_Inr:
  "in_stage s out r k = (evs, w, Inr y) \<longleftrightarrow>
     (\<exists>x evs' w'. r = Inr x \<and> k x = (evs', w', Inr y) \<and> evs = emit s None # evs' \<and> w = out @ w')"
  by (auto simp: in_stage_def split: sum.splits prod.splits)

lemma succeeds_Inr [simp]: "succeeds e ok = Inr u \<longleftrightarrow> ok"
  by (auto simp: succeeds_def)

lemma need_Inr [simp]: "need e v = Inr x \<longleftrightarrow> v = Some x"
  by (auto simp: need_def split: option.splits)

lemma Run_Inr:
  assumes "Run env cfg layer = ((evs, w, Inr res), layer')"
  obtains pre r1 r2 serverKM r pr keys where
    "he_preMaster env = Some pre" "he_random1 env = Some r1" "he_random2 env = Some r2"
    "km_valid (clientKM (he_goos env) (with_defaults cfg) pre r1 r2)"
    "w = km_wire (clientKM (he_goos env) (with_defaults cfg) pre r1 r2) @ WriteControlMessage [] ''PUSH_REQUEST''"
    "ReadKeyMethod2 (he_stream env) True False = Inr (serverKM, r)" "push_response r = Inr pr"
    "DeriveDataKeys (he_ekm env) = Inr keys"
    "res = \<lparr>rs_KeyMaterial = keys, rs_PushReply = pr, rs_Cipher = pr_Cipher pr, rs_PeerID = pr_PeerID pr,
       rs_RemoteSID = fst (RemoteSessionID (he_meanwhile env layer')), rs_ServerKM2 = serverKM\<rparr>"
proof (cases "km2_send env (with_defaults cfg)")
  case (Inl e)
  then show thesis using assms by (auto simp: Run_def Let_def in_stage_Inr split: prod.splits if_splits)
next
  case (Inr kmBytes)
  moreover from this obtain pre r1 r2 where "he_preMaster env = Some pre" "he_random1 env = Some r1" "he_random2 env = Some r2"
    "km_valid (clientKM (he_goos env) (with_defaults cfg) pre r1 r2)"
    "kmBytes = km_wire (clientKM (he_goos env) (with_defaults cfg) pre r1 r2)"
    by (auto simp: km2_send_def rbind_eq_Inr map_sum_eq_Inr MarshalKeyMethod2_eq)
  ultimately show thesis
    using assms that by (auto simp: Run_def Let_def in_stage_Inr map_sum_eq_Inr split: prod.splits if_splits)
qed


text \<open>A server: its own key-method message, then its options as a push reply.\<close>

definition server_answer :: "KeyMethod2 \<Rightarrow> server_option list \<Rightarrow> bytes" where
  "server_answer km os = km_wire km @ WriteControlMessage [] (''PUSH_REPLY,'' @ options_text os)"

definition pushed :: "server_option list \<Rightarrow> PushReply" where
  "pushed os = fold meaning os (zero_PushReply\<lparr>pr_Raw := options_text os, pr_Topology := ''net30''\<rparr>)"

lemma Join_set: "set (Join ws sep) \<subseteq> (\<Union>w \<in> set ws. set w) \<union> set sep"
  by (induction ws sep rule: Join.induct) auto

lemma byte_of_char_zero: "byte_of_char c = 0 \<longleftrightarrow> c = CHR 0x00"
proof -
  have "char_of_byte (byte_of_char c) = c" by simp
  moreover have "char_of_byte 0 = CHR 0x00" "byte_of_char CHR 0x00 = 0" by code_simp+
  ultimately show ?thesis by metis
qed

lemma options_text_nul_free:
  assumes "list_all option_ok os"
  shows "nul_free (''PUSH_REPLY,'' @ options_text os)"
proof -
  have "CHR 0x00 \<notin> set w" if "o' \<in> set os" "w \<in> set (words_of o')" for o' w
  proof -
    have "word_ok w" using words_ok [of o'] that assms by (auto simp: list_all_iff)
    then show ?thesis by (auto simp: word_ok_def list_all_iff plain_char_def)
  qed
  then have "CHR 0x00 \<notin> set (Join (words_of o') '' '')" if "o' \<in> set os" for o'
    using Join_set [of "words_of o'" "'' ''"] that by auto
  then have "CHR 0x00 \<notin> set (options_text os)"
    unfolding options_text_def using Join_set [of "map (\<lambda>o'. Join (words_of o') '' '') os" "'',''"] by auto
  then show ?thesis by (auto simp: nul_free_def byte_of_char_zero)
qed

lemma push_response_answer:
  assumes "list_all option_ok os" and "length (options_text os) + 11 \<le> MaxControlMessageLen"
    and "AEADKeyLen (pr_Cipher (pushed os)) = Inr keyLen"
  shows "push_response (WriteControlMessage [] (''PUSH_REPLY,'' @ options_text os)) = Inr (pushed os)"
proof -
  have "ReadControlMessage (WriteControlMessage [] (''PUSH_REPLY,'' @ options_text os)) = Inr (''PUSH_REPLY,'' @ options_text os, [])"
    unfolding ReadControlMessage_def WriteControlMessage_def append_Nil
    using read_message_loop_nul [of "[]" "''PUSH_REPLY,'' @ options_text os" "[]"] options_text_nul_free [OF assms(1)] assms(2)
    by simp
  moreover have "pr_Cipher (pushed os) \<noteq> ''''" using assms(3) by (auto simp: AEADKeyLen_def)
  moreover have "\<not> HasPrefix (''PUSH_REPLY,'' @ options_text os) ''AUTH_FAILED''" by (simp add: HasPrefix_iff)
  ultimately show ?thesis
    using ParsePushReply_options [OF assms(1), folded pushed_def] assms(3) by (simp add: push_response_def)
qed


lemma SendHardReset_ok:
  "\<not> ly_closed l \<Longrightarrow> IsControl opc \<Longrightarrow> length (ly_txQueue l) < MaxQueueSize \<Longrightarrow> fst (SendHardReset now opc l) = None"
  by (simp add: SendHardReset_def enqueueAndEmitLocked_def Let_def)

lemma PUSH_REQUEST_read: "ReadControlMessage (WriteControlMessage [] ''PUSH_REQUEST'') = Inr (''PUSH_REQUEST'', [])"
  unfolding ReadControlMessage_def WriteControlMessage_def append_Nil
  using read_message_loop_nul [of "[]" "''PUSH_REQUEST''" "[]"]
  by (simp add: nul_free_def byte_of_char_zero MaxControlMessageLen_def)

lemma Run_completes:
  assumes "rc_TLSConfig cfg" "\<not> ly_closed layer" "length (ly_txQueue layer) < MaxQueueSize"
      "IsControl (rc_HardResetOpcode (with_defaults cfg))"
    and "he_tls env" "he_kmWrite env" "he_pushWrite env"
      "he_preMaster env = Some pre" "he_random1 env = Some r1" "he_random2 env = Some r2"
    and "km = clientKM (he_goos env) (with_defaults cfg) pre r1 r2" "km_arrays km" "km_valid km" "km_streamable km"
    and "he_stream env = server_answer skm os" "km_IsServer skm" "\<not> km_AuthUserPass skm" "km_arrays skm" "km_streamable skm"
    and "list_all option_ok os" "length (options_text os) + 11 \<le> MaxControlMessageLen"
      "AEADKeyLen (pr_Cipher (pushed os)) = Inr keyLen"
    and "he_ekm env ExportLabel DataKeyMaterialLen = Some mat" "length mat = DataKeyMaterialLen"
  shows "\<exists>evs w res layer' rest. Run env cfg layer = ((evs, w, Inr res), layer') \<and>
    rs_PushReply res = pushed os \<and> rs_ServerKM2 res = km_received skm \<and> rs_KeyMaterial res = mat \<and>
    ReadKeyMethod2 w False (km_AuthUserPass km) = Inr (km_received km, rest) \<and>
    ReadControlMessage rest = Inr (''PUSH_REQUEST'', [])"
proof -
  let ?cfg = "with_defaults cfg" and ?push = "WriteControlMessage [] ''PUSH_REQUEST''"
  obtain layer' where hr: "SendHardReset (he_now env) (rc_HardResetOpcode ?cfg) layer = (None, layer')"
    using SendHardReset_ok [OF assms(2,4,3), of "he_now env"] by (metis prod.collapse)
  have marshal: "MarshalKeyMethod2 km = Inr (km_wire km)" using MarshalKeyMethod2_eq assms(13) by blast
  have send: "km2_send env ?cfg = Inr (km_wire km)"
    using marshal assms(8-11) by (simp add: km2_send_def need_def)
  have recv: "ReadKeyMethod2 (he_stream env) True False
      = Inr (km_received skm, WriteControlMessage [] (''PUSH_REPLY,'' @ options_text os))"
    using ReadKeyMethod2_wire [OF assms(18,19)] assms(15-17) by (simp add: server_answer_def)
  define reply where "reply = WriteControlMessage [] (''PUSH_REPLY,'' @ options_text os)"
  have push: "push_response reply = Inr (pushed os)" unfolding reply_def by (rule push_response_answer [OF assms(20-22)])
  have keys: "DeriveDataKeys (he_ekm env) = Inr mat" using assms(23,24) by (simp add: DeriveDataKeys_def)
  define res where "res = \<lparr>rs_KeyMaterial = mat, rs_PushReply = pushed os, rs_Cipher = pr_Cipher (pushed os),
    rs_PeerID = pr_PeerID (pushed os), rs_RemoteSID = fst (RemoteSessionID (he_meanwhile env layer')), rs_ServerKM2 = km_received skm\<rparr>"
  have "Run env cfg layer = ((started (handshake_stages @ [StageComplete]), km_wire km @ ?push, Inr res), layer')"
    unfolding Run_def Let_def hr using assms(1,5-7)
    by (simp add: in_stage_def send recv [folded reply_def] push keys succeeds_def started_def handshake_stages_def res_def)
  moreover have "ReadKeyMethod2 (km_wire km @ ?push) False (km_AuthUserPass km) = Inr (km_received km, ?push)"
    using ReadKeyMethod2_wire [OF assms(12,14), of ?push] assms(11) by (simp add: clientKM_def Let_def)
  ultimately show ?thesis using PUSH_REQUEST_read by (auto simp: res_def)
qed

text \<open>
  C12. The handshake completes, and both ends have the same view of it. Take an open layer with room
  in its queue, a TLS connection that comes up, client strings that fit the message, and any server
  that answers with a key-method message and a push reply made of options this client honours,
  naming a supported cipher: then \<open>Run\<close> succeeds; the push reply it returns has every option's
  meaning, the server's randoms are the server's, the key material is what TLS exports; and a
  server reading what the client wrote gets exactly the client's randoms, options, credentials and
  peer info, followed by the push request and nothing else.
\<close>

theorem handshake_completes:
  assumes "rc_TLSConfig cfg" "\<not> ly_closed layer" "length (ly_txQueue layer) < MaxQueueSize"
      "IsControl (rc_HardResetOpcode (with_defaults cfg))"
    and "he_tls env" "he_kmWrite env" "he_pushWrite env"
      "he_preMaster env = Some pre" "he_random1 env = Some r1" "he_random2 env = Some r2"
    and "km = clientKM (he_goos env) (with_defaults cfg) pre r1 r2" "km_arrays km" "km_valid km" "km_streamable km"
    and "he_stream env = server_answer skm os" "km_IsServer skm" "\<not> km_AuthUserPass skm" "km_arrays skm" "km_streamable skm"
    and "list_all option_ok os" "length (options_text os) + 11 \<le> MaxControlMessageLen"
      "AEADKeyLen (pr_Cipher (pushed os)) = Inr keyLen"
    and "he_ekm env ExportLabel DataKeyMaterialLen = Some mat" "length mat = DataKeyMaterialLen"
  shows "\<exists>evs w res layer' rest. Run env cfg layer = ((evs, w, Inr res), layer') \<and>
    rs_PushReply res = pushed os \<and> rs_ServerKM2 res = km_received skm \<and> rs_KeyMaterial res = mat \<and>
    ReadKeyMethod2 w False (km_AuthUserPass km) = Inr (km_received km, rest) \<and>
    ReadControlMessage rest = Inr (''PUSH_REQUEST'', [])"
  by (rule Run_completes [OF assms])


definition demo_run_cfg :: RunConfig where
  "demo_run_cfg = \<lparr>rc_TLSConfig = True, rc_Username = '''', rc_Password = '''', rc_Ciphers = [''AES-256-GCM''],
     rc_PeerInfoExtra = [], rc_Proto = '''', rc_HardResetOpcode = 0, rc_PeerInfoVersion = ''''\<rparr>"

definition demo_server_km :: KeyMethod2 where
  "demo_server_km = \<lparr>km_IsServer = True, km_PreMaster = replicate 48 0, km_Random1 = replicate 32 1, km_Random2 = replicate 32 2,
     km_Options = ''V4'', km_Username = '''', km_Password = '''', km_AuthUserPass = False, km_PeerInfo = ''''\<rparr>"

definition demo_options :: "server_option list" where
  "demo_options = [SCipher ''AES-256-GCM'', SPeerID 7, SPing 10]"

definition demo_run_env :: handshake_env where
  "demo_run_env = \<lparr>he_now = 0, he_goos = ''linux'', he_tls = True, he_preMaster = Some (replicate 48 3),
     he_random1 = Some (replicate 32 4), he_random2 = Some (replicate 32 5), he_kmWrite = True, he_pushWrite = True,
     he_stream = server_answer demo_server_km demo_options, he_ekm = (\<lambda>label n. if n = 256 then Some demo_material else None),
     he_meanwhile = id\<rparr>"

definition demo_client_km :: KeyMethod2 where
  "demo_client_km = clientKM ''linux'' (with_defaults demo_run_cfg) (replicate 48 3) (replicate 32 4) (replicate 32 5)"

lemma length_PeerInfo_Encode:
  assumes "distinct (map fst pi)"
  shows "length (PeerInfo_Encode pi) = (\<Sum>(k, v) \<leftarrow> pi. length k + length v + 2)"
proof -
  let ?f = "\<lambda>k. length k + length (the (map_of pi k)) + 2"
  have "length (PeerInfo_Encode pi) = sum_list (map ?f (sort (map fst pi)))"
    by (simp add: PeerInfo_Encode_def length_concat comp_def)
  also have "\<dots> = sum_list (map ?f (map fst pi))"
    unfolding sum_mset_sum_list [symmetric] mset_map mset_sort by (rule refl)
  also have "map ?f (map fst pi) = map (\<lambda>(k, v). length k + length v + 2) pi"
    using assms by auto
  finally show ?thesis .
qed

lemma nul_free_PeerInfo_Encode:
  assumes "\<forall>(k, v) \<in> set pi. nul_free k \<and> nul_free v"
  shows "nul_free (PeerInfo_Encode pi)"
proof -
  have "nul_free k \<and> nul_free (the (map_of pi k))" if "k \<in> set (map fst pi)" for k
    using that assms map_of_SomeD [of pi k] by (cases "map_of pi k") (auto simp: map_of_eq_None_iff)
  then show ?thesis by (auto simp: PeerInfo_Encode_def nul_free_def byte_of_char_zero)
qed

lemma demo_client_km_ok: "km_arrays demo_client_km" "km_valid demo_client_km" "km_streamable demo_client_km"
proof -
  let ?pi = "DefaultPeerInfo ''linux'' ''AES-256-GCM''"
  have pi: "km_PeerInfo demo_client_km = PeerInfo_Encode ?pi"
    by (simp add: demo_client_km_def clientKM_def with_defaults_def demo_run_cfg_def buildPeerInfo_def Let_def)
  have len: "length (km_PeerInfo demo_client_km) < 200"
    unfolding pi length_PeerInfo_Encode [OF distinct_DefaultPeerInfo] by code_simp
  have nul: "nul_free (km_PeerInfo demo_client_km)"
    unfolding pi by (rule nul_free_PeerInfo_Encode) code_simp
  have opts: "length (km_Options demo_client_km) < 200" "nul_free (km_Options demo_client_km)"
    "km_AuthUserPass demo_client_km = False" by code_simp+
  show "km_valid demo_client_km" using len nul opts by (simp add: km_valid_def)
  show "km_streamable demo_client_km" using len opts by (simp add: km_streamable_def MaxControlMessageLen_def)
  show "km_arrays demo_client_km"
    by (simp add: km_arrays_def demo_client_km_def clientKM_def Let_def PreMasterLen_def RandomLen_def)
qed

lemma demo_server_km_ok: "km_arrays demo_server_km" "km_streamable demo_server_km"
  by code_simp+


lemma demo_options_ok: "list_all option_ok demo_options" "length (options_text demo_options) + 11 \<le> MaxControlMessageLen"
  "pr_Cipher (pushed demo_options) = ''AES-256-GCM''" "pr_PeerID (pushed demo_options) = 7"
  by (simp_all add: demo_options_def word_ok_def plain_char_def options_text_def nat_decimal.simps MaxControlMessageLen_def
      pushed_def)

lemma demo_layer_new:
  "\<not> ly_closed (New \<lparr>lc_LocalSessionID = 42, lc_InitialKeyID = 0, lc_OutboundBuffer = 0\<rparr>)"
  "length (ly_txQueue (New \<lparr>lc_LocalSessionID = 42, lc_InitialKeyID = 0, lc_OutboundBuffer = 0\<rparr>)) < MaxQueueSize"
  by (simp_all add: New_def MaxQueueSize_def)

lemma demo_run_opcode: "IsControl (rc_HardResetOpcode (with_defaults demo_run_cfg))"
  by code_simp

theorem handshake_completes_witness:
  "\<exists>evs w res layer'. Run demo_run_env demo_run_cfg (New \<lparr>lc_LocalSessionID = 42, lc_InitialKeyID = 0, lc_OutboundBuffer = 0\<rparr>)
      = ((evs, w, Inr res), layer') \<and> pr_PeerID (rs_PushReply res) = 7 \<and> rs_KeyMaterial res = demo_material"
proof -
  have "demo_client_km = clientKM (he_goos demo_run_env) (with_defaults demo_run_cfg) (replicate 48 3) (replicate 32 4) (replicate 32 5)"
    by (simp add: demo_client_km_def demo_run_env_def)
  note run = handshake_completes [OF _ demo_layer_new demo_run_opcode _ _ _ _ _ _ this demo_client_km_ok _ _ _ demo_server_km_ok
    demo_options_ok(1,2), of 32 demo_material]
  show ?thesis
    using run by (auto simp: demo_run_cfg_def demo_run_env_def demo_server_km_def demo_options_ok AEADKeyLen_def
        DataKeyMaterialLen_def demo_material_def)
qed

lemma handshake_trace_witness:
  "\<exists>evs w r layer'. Run (demo_run_env\<lparr>he_tls := False\<rparr>) demo_run_cfg demo_layer = ((evs, w, Inl r), layer') \<and>
     length evs \<ge> 2 \<and> map ev_Err evs = replicate (length evs - 1) None @ [Some r]"
proof -
  obtain evs w r layer' where run: "Run (demo_run_env\<lparr>he_tls := False\<rparr>) demo_run_cfg demo_layer = ((evs, w, r), layer')"
    by (metis prod.exhaust)
  have cfg: "rc_TLSConfig demo_run_cfg" by (simp add: demo_run_cfg_def)
  obtain e where "r = Inl e"
    using run by (auto simp: Run_def Let_def cfg in_stage_def succeeds_def split: prod.splits sum.splits option.splits)
  with handshake_trace [OF cfg run] obtain k where
    k: "map ev_Stage evs = take (Suc k) handshake_stages @ [handshake_stages ! k]" "map ev_Err evs = replicate (Suc k) None @ [Some e]"
    by auto
  from arg_cong [OF k(2), of length] have "length evs = Suc (Suc k)" by simp
  then show ?thesis using run k(2) \<open>r = Inl e\<close> by simp
qed

section \<open>A session out of a handshake\<close>

text \<open>The ciphers take every key of their length.\<close>

definition lib_accepts :: "aead_lib \<Rightarrow> bool" where
  "lib_accepts lib \<longleftrightarrow> (\<forall>key. length key = 16 \<or> length key = 32 \<longrightarrow> lib_GCM lib key \<noteq> None) \<and>
     (\<forall>key. length key = 32 \<longrightarrow> lib_ChaCha lib key \<noteq> None)"

lemma buildSlot_accepts:
  assumes "lib_accepts lib" and "AEADKeyLen cipher = Inr keyLen" and "unat peerID < 2 ^ 24" and "length mat = DataKeyMaterialLen"
  shows "\<exists>slot. fst (buildSlot lib kid cipher peerID mat) = Inr slot"
proof -
  have m: "(0x00FFFFFF :: u32) = mask 24" by (simp add: mask_eq_exp_minus_1)
  have "take_bit 24 peerID = peerID" using assms(3) by (simp add: word_unat_eq_iff unsigned_take_bit_eq take_bit_nat_eq_self)
  then have "peerID AND mask 24 = peerID" by (simp only: take_bit_eq_mask)
  then have "peerID AND NOT (mask 24) = peerID AND (mask 24 AND NOT (mask 24))" by (metis and.assoc)
  then have "peerID AND NOT 0x00FFFFFF = 0" unfolding m by (simp only: bit.conj_cancel_right and_zero_eq)
  moreover have "length (ClientToServerCipherKey mat keyLen) = keyLen" "length (ServerToClientCipherKey mat keyLen) = keyLen"
    using assms(4) AEADKeyLen_cases [OF assms(2)]
    by (auto simp: ClientToServerCipherKey_def ServerToClientCipherKey_def DataKeyMaterialLen_def)
  moreover have "\<exists>a. NewAEAD lib cipher key = Inr a" if "length key = keyLen" for key
    using assms(1,2) that unfolding NewAEAD_def lib_accepts_def AEADKeyLen_def by (auto split: option.split if_splits)
  ultimately show ?thesis
    unfolding buildSlot_def NewSlot_def assms(2) by (fastforce split: sum.split)
qed


text \<open>Giving up: \<open>shutdown\<close> on a session that has only its initial layer.\<close>

lemma shutdown_kid_views:
  "layer_at (shutdown_kid n s) k = (if k = of_nat n then None else layer_at s k)"
  "closed_at (shutdown_kid n s) r = (if layer_at s (of_nat n) = Some r then Some True else closed_at s r)"
  "se_workers (shutdown_kid n s) = se_workers s" "se_tlsConn (shutdown_kid n s) = se_tlsConn s"
  by (simp_all add: shutdown_kid_def mark_closed_def)

lemma shutdown_kids:
  assumes "n \<le> 8"
  shows "layer_at (foldl (\<lambda>s n. shutdown_kid n s) s [0..<n]) k = (if unat k < n then None else layer_at s k) \<and>
    closed_at (foldl (\<lambda>s n. shutdown_kid n s) s [0..<n]) r =
      (if \<exists>k. unat k < n \<and> layer_at s k = Some r then Some True else closed_at s r) \<and>
    se_workers (foldl (\<lambda>s n. shutdown_kid n s) s [0..<n]) = se_workers s \<and>
    se_tlsConn (foldl (\<lambda>s n. shutdown_kid n s) s [0..<n]) = se_tlsConn s"
  using assms
proof (induction n arbitrary: k r)
  case (Suc n)
  define t where "t = foldl (\<lambda>s n. shutdown_kid n s) s [0..<n]"
  have n: "unat (of_nat n :: u8) = n" using Suc.prems by (simp add: unat_of_nat)
  then have lt: "unat k < Suc n \<longleftrightarrow> unat k < n \<or> k = of_nat n" for k :: u8
    by (metis less_Suc_eq word_unat_eq_iff)
  have IH: "layer_at t k = (if unat k < n then None else layer_at s k)"
    "closed_at t r = (if \<exists>k. unat k < n \<and> layer_at s k = Some r then Some True else closed_at s r)"
    "se_workers t = se_workers s" "se_tlsConn t = se_tlsConn s" for k r
    using Suc.IH [of k r] Suc.prems unfolding t_def by auto
  have "(\<exists>k. unat k < Suc n \<and> layer_at s k = Some r) \<longleftrightarrow>
      layer_at s (of_nat n) = Some r \<or> (\<exists>k. unat k < n \<and> layer_at s k = Some r)"
    unfolding lt by auto
  then show ?case
    by (auto simp: shutdown_kid_views t_def [symmetric] IH n lt)
qed simp

lemma shutdown_views:
  assumes "store_ok s" and "se_tlsConn s = None"
  shows "layer_at (shutdown s) k = None"
    "closed_at (shutdown s) r = Some False \<Longrightarrow> closed_at s r = Some False \<and> (\<forall>k. layer_at s k \<noteq> Some r)"
    "wm_shutdown (se_workers (shutdown s))" "se_transportClosed (shutdown s)"
proof -
  let ?s = "foldl (\<lambda>s n. shutdown_kid n s) (shutdown_workers s) [0..<8]"
  note kids = shutdown_kids [of 8 "shutdown_workers s", OF order_refl]
  have w: "se_tlsConn (shutdown_workers s) = None" "closed_at (shutdown_workers s) = closed_at s"
    "layer_at (shutdown_workers s) = layer_at s" "wm_shutdown (se_workers (shutdown_workers s))"
    using assms(2) by (simp_all add: shutdown_workers_def closed_at_def Manager_Shutdown_def fun_eq_iff)
  have eq: "shutdown s = ?s\<lparr>se_tlsConn := None, se_transportClosed := True, se_closePhase := ShutdownDone\<rparr>"
    using kids w by (simp add: shutdown_def shutdown_conn_def Let_def)
  have low: "unat k < 8" if "layer_at s k = Some r" for k r using that assms(1) by (auto simp: store_ok_def)
  show "layer_at (shutdown s) k = None"
    unfolding eq using kids low [of k] w by (cases "layer_at s k") auto
  show "closed_at (shutdown s) r = Some False \<Longrightarrow> closed_at s r = Some False \<and> (\<forall>k. layer_at s k \<noteq> Some r)"
  proof -
    have "closed_at ?s r = (if \<exists>k. layer_at s k = Some r then Some True else closed_at s r)"
      using kids [of _ r] low [of _ r] w by metis
    then show "closed_at (shutdown s) r = Some False \<Longrightarrow> closed_at s r = Some False \<and> (\<forall>k. layer_at s k \<noteq> Some r)"
      unfolding eq by (auto simp: closed_at_def split: if_splits) (metis map_option_eq_Some)
  qed
  show "wm_shutdown (se_workers (shutdown s))" "se_transportClosed (shutdown s)"
    unfolding eq using kids w by auto
qed


section \<open>Dialling\<close>

lemma Run_layer: "rc_TLSConfig cfg \<Longrightarrow>
    snd (Run env cfg l) = layer_step (OpHardReset (he_now env) (rc_HardResetOpcode (with_defaults cfg))) l"
  by (simp add: Run_def Let_def split: prod.splits)

lemma push_response_Inr:
  assumes "push_response r = Inr pr"
  shows "push_wf pr" and "\<exists>keyLen. AEADKeyLen (pr_Cipher pr) = Inr keyLen"
  using assms ParsePushReply_wf
  by (auto simp: push_response_def rbind_eq_Inr map_sum_eq_Inr split: prod.splits if_splits)

lemma workers_Go_fields [simp]:
  "se_peerID (snd (workers_Go w s)) = se_peerID s" "se_cipher (snd (workers_Go w s)) = se_cipher s"
  "se_PingInterval (snd (workers_Go w s)) = se_PingInterval s" "se_PingRestart (snd (workers_Go w s)) = se_PingRestart s"
  by (simp_all add: workers_Go_def case_prod_unfold)

lemma installTLSConn_fields [simp]:
  "se_peerID (installTLSConn c s) = se_peerID s" "se_cipher (installTLSConn c s) = se_cipher s"
  "se_PingInterval (installTLSConn c s) = se_PingInterval s" "se_PingRestart (installTLSConn c s) = se_PingRestart s"
  by (simp_all add: installTLSConn_def close_conn_def close_layer_def Let_def split: option.splits)

lemma applyKeepaliveDefaults_fields [simp]:
  "se_peerID (applyKeepaliveDefaults s) = se_peerID s" "se_cipher (applyKeepaliveDefaults s) = se_cipher s"
  "se_PingInterval (applyKeepaliveDefaults s) = (if se_PingInterval s \<le> 0 then defaultPingInterval else se_PingInterval s)"
  "se_PingRestart (applyKeepaliveDefaults s) = (if se_PingRestart s \<le> 0 then defaultPingRestart else se_PingRestart s)"
  by (simp_all add: applyKeepaliveDefaults_def Let_def)

lemma established_fields:
  assumes "session_established lib now hr s = (Inr (), t)"
  shows "se_peerID t = hr_PeerID hr" "se_cipher t = hr_Cipher hr"
    "se_PingInterval t = (if hr_PingInterval hr \<le> 0 then defaultPingInterval else hr_PingInterval hr)"
    "se_PingRestart t = (if hr_PingRestart hr \<le> 0 then defaultPingRestart else hr_PingRestart hr)"
proof -
  obtain slot where "fst (buildSlot lib 0 (hr_Cipher hr) (hr_PeerID hr) (hr_KeyMaterial hr)) = Inr slot"
    using assms by (auto simp: session_established_def split: sum.splits)
  note t = assms [unfolded session_established_def this sum.case Let_def prod.inject, THEN conjunct2, symmetric]
  show "se_peerID t = hr_PeerID hr" unfolding t by simp
  show "se_cipher t = hr_Cipher hr" unfolding t by simp
  show "se_PingInterval t = (if hr_PingInterval hr \<le> 0 then defaultPingInterval else hr_PingInterval hr)" unfolding t by simp
  show "se_PingRestart t = (if hr_PingRestart hr \<le> 0 then defaultPingRestart else hr_PingRestart hr)" unfolding t by simp
qed


text \<open>The handshake of a dial, from the new session on.\<close>

lemma dial_handshake:
  assumes "\<And>s. handshake_step\<^sup>*\<^sup>* s (de_during env s)" and "s = newSession cfg w sid" and "rc_TLSConfig rcfg"
    and "Run renv rcfg (layer_of s 0) = (run, layer)"
  shows "handshake_step\<^sup>*\<^sup>* s (de_during env (put_layer 0 layer s))"
proof -
  have "layer = layer_step (OpHardReset (he_now renv) (rc_HardResetOpcode (with_defaults rcfg))) (layer_of s 0)"
    using Run_layer [OF assms(3), of renv "layer_of s 0"] assms(4) by simp
  moreover have "closed_at s 0 \<noteq> None" by (simp add: assms(2) newSession_views)
  ultimately have "handshake_step s (put_layer 0 layer s)" using handshake_step.hs_tls by blast
  then show ?thesis using assms(1) by (meson converse_rtranclp_into_rtranclp)
qed

lemma given_up:
  assumes "handshake_step\<^sup>*\<^sup>* (newSession cfg w sid) s" and "t = shutdown s"
  shows "(\<forall>k. layers_Get (se_layers t) k = None) \<and> (\<forall>r l. se_layerAt t r = Some l \<longrightarrow> ly_closed l) \<and>
    wm_shutdown (se_workers t) \<and> se_transportClosed t"
proof -
  have shape: "same_shape (newSession cfg w sid) s" using handshake_steps_shape [OF assms(1) newSession_store] .
  then have st: "store_ok s" "se_tlsConn s = None" "closed_at s = [0 \<mapsto> False]" "layer_at s 0 = Some 0"
    using store_ok_shape [OF shape] newSession_store by (simp_all add: same_shape_def newSession_views)
  have "closed_at t r \<noteq> Some False" for r
    using shutdown_views(2) [OF st(1,2), of r] st(3,4) unfolding assms(2) by (auto split: if_splits)
  then show ?thesis
    using shutdown_views(1,3,4) [OF st(1,2)] unfolding assms(2) closed_at_Some by blast
qed

lemma validateConfig_TLS: "validateConfig cfg = None \<Longrightarrow> cfg_TLSConfig cfg"
  by (simp add: validateConfig_def split: if_splits)

lemma Run_result_ok:
  assumes "Run env cfg layer = ((evs, w, Inr res), layer')"
  shows "push_wf (rs_PushReply res) \<and> rs_Cipher res = pr_Cipher (rs_PushReply res) \<and> rs_PeerID res = pr_PeerID (rs_PushReply res) \<and>
    (\<exists>keyLen. AEADKeyLen (rs_Cipher res) = Inr keyLen) \<and> length (rs_KeyMaterial res) = DataKeyMaterialLen"
proof (rule Run_Inr [OF assms])
  fix r pr keys serverKM
  assume "push_response r = Inr pr" and keys: "DeriveDataKeys (he_ekm env) = Inr keys"
    and res: "res = \<lparr>rs_KeyMaterial = keys, rs_PushReply = pr, rs_Cipher = pr_Cipher pr, rs_PeerID = pr_PeerID pr,
       rs_RemoteSID = fst (RemoteSessionID (he_meanwhile env layer')), rs_ServerKM2 = serverKM\<rparr>"
  note push_response_Inr [OF this(1)]
  moreover have "length keys = DataKeyMaterialLen" using keys by (auto simp: DeriveDataKeys_def split: option.splits if_splits)
  ultimately show ?thesis by (simp add: res)
qed

lemma handshake_gives_slot:
  assumes "Run env cfg layer = ((evs, w, Inr res), layer')" and "lib_accepts lib"
  shows "\<exists>t. session_established lib now (session_result res) s = (Inr (), t)"
proof -
  obtain keyLen where res: "push_wf (rs_PushReply res)" "rs_PeerID res = pr_PeerID (rs_PushReply res)"
    "AEADKeyLen (rs_Cipher res) = Inr keyLen" "length (rs_KeyMaterial res) = DataKeyMaterialLen"
    using Run_result_ok [OF assms(1)] by blast
  then have "unat (rs_PeerID res) < 2 ^ 24" unfolding push_wf_def by metis
  then obtain slot where "fst (buildSlot lib 0 (rs_Cipher res) (rs_PeerID res) (rs_KeyMaterial res)) = Inr slot"
    using buildSlot_accepts [OF assms(2) res(3) _ res(4)] by blast
  then show ?thesis by (simp add: session_established_def session_result_def Let_def)
qed

text \<open>A dial that gets to the handshake.\<close>

lemma DialWithTransport_run:
  assumes "\<And>s. handshake_step\<^sup>*\<^sup>* s (de_during env s)" and "validateConfig cfg = None" and "de_sid env = Some sidBytes"
    and "buildWrapper (de_aes env) (de_pem env) (de_uni env) cfg = Inr (w, op)"
  obtains renv g layer evs out res layer' s0 where
    "renv = (de_run env)\<lparr>he_meanwhile := g\<rparr>" "layer = layer_of (newSession cfg w (uint64_of sidBytes)) 0"
    "Run renv (run_config cfg op) layer = ((evs, out, res), layer')"
    "handshake_step\<^sup>*\<^sup>* (newSession cfg w (uint64_of sidBytes)) s0"
    "DialWithTransport env cfg = (evs, case res of
      Inl e \<Rightarrow> Inl \<lparr>df_error = DialHandshake e, df_session = Some (shutdown s0), df_transportClosed = True\<rparr>
    | Inr result \<Rightarrow> (case session_established (de_lib env) (de_up env) (session_result result) s0 of
         (Inl e, s) \<Rightarrow> Inl \<lparr>df_error = DialSlot e, df_session = Some s, df_transportClosed = True\<rparr>
       | (Inr _, s) \<Rightarrow> Inr (s, rs_PushReply result)))"
proof -
  define s where "s = newSession cfg w (uint64_of sidBytes)"
  have r0: "layers_Get (se_layers s) 0 = Some 0" by (simp add: s_def newSession_views)
  have tls: "rc_TLSConfig (run_config cfg op)" using validateConfig_TLS [OF assms(2)] by (simp add: run_config_def)
  define renv where "renv = (de_run env)\<lparr>he_meanwhile := (\<lambda>l. layer_of (de_during env (put_layer 0 l s)) 0)\<rparr>"
  obtain evs out res layer where run: "Run renv (run_config cfg op) (layer_of s 0) = ((evs, out, res), layer)"
    by (metis prod.exhaust)
  define s0 where "s0 = de_during env (put_layer 0 layer s)"
  have "handshake_step\<^sup>*\<^sup>* (newSession cfg w (uint64_of sidBytes)) s0"
    using dial_handshake [OF assms(1) s_def tls run] by (simp add: s_def s0_def)
  with renv_def s_def [THEN arg_cong, of "\<lambda>s. layer_of s 0"] run show thesis
    by (rule that)
       (unfold DialWithTransport_def assms(2-4) option.case sum.case prod.case Let_def s_def [symmetric] r0 option.sel
         renv_def [symmetric] run s0_def [symmetric], rule refl)
qed

lemma dial_session_inv:
  assumes "\<And>s. handshake_step\<^sup>*\<^sup>* s (de_during env s)" and "DialWithTransport env cfg = (evs, Inr (s, pr))"
  shows "session_inv s \<and> \<not> se_closed s"
proof -
  from assms(2) obtain sidBytes w op where v: "validateConfig cfg = None" "de_sid env = Some sidBytes"
    "buildWrapper (de_aes env) (de_pem env) (de_uni env) cfg = Inr (w, op)"
    by (auto simp: DialWithTransport_def split: option.splits sum.splits)
  show ?thesis
  proof (rule DialWithTransport_run [OF assms(1) v])
    fix s0 evs' res
    assume steps: "handshake_step\<^sup>*\<^sup>* (newSession cfg w (uint64_of sidBytes)) s0"
      and dial: "DialWithTransport env cfg = (evs', case res of
      Inl e \<Rightarrow> Inl \<lparr>df_error = DialHandshake e, df_session = Some (shutdown s0), df_transportClosed = True\<rparr>
    | Inr result \<Rightarrow> (case session_established (de_lib env) (de_up env) (session_result result) s0 of
         (Inl e, s) \<Rightarrow> Inl \<lparr>df_error = DialSlot e, df_session = Some s, df_transportClosed = True\<rparr>
       | (Inr _, s) \<Rightarrow> Inr (s, rs_PushReply result)))"
    then obtain result where "session_established (de_lib env) (de_up env) (session_result result) s0 = (Inr (), s)"
      using assms(2) by (auto split: sum.splits prod.splits)
    then show ?thesis
      using established_inv_open [OF handshake_steps_shape [OF steps newSession_store]] by blast
  qed
qed



definition demo_dial :: dial_env where
  "demo_dial = \<lparr>de_sid = Some [0, 0, 0, 0, 0, 0, 0, 42], de_aes = (\<lambda>key b. b),
     de_pem = \<lparr>pem_Decode = (\<lambda>b. None), pem_Encode = (\<lambda>t b. b)\<rparr>, de_uni = id,
     de_run = demo_run_env, de_during = id, de_lib = demo_lib, de_up = 0\<rparr>"

definition demo_dial_cfg :: Config where
  "demo_dial_cfg = demo_cfg\<lparr>cfg_TLSCryptV1 := replicate 256 0\<rparr>"

lemma demo_key_parses: "ParseStaticKey (replicate 256 0) = Inr (replicate 256 0)"
proof -
  have "findMarker (replicate 256 0) ''-----BEGIN OpenVPN Static '' '' V1-----'' = None" by code_simp
  then show ?thesis by (simp add: ParseStaticKey_def StaticKeyLen_def)
qed

lemma demo_dial_during: "handshake_step\<^sup>*\<^sup>* s (de_during demo_dial s)"
  by (simp add: demo_dial_def)

lemma demo_dial_lib: "lib_accepts (de_lib demo_dial)"
  by (simp add: lib_accepts_def demo_dial_def demo_lib_def)

lemma newSession_layer:
  "layer_of (newSession cfg w sid) 0 = New \<lparr>lc_LocalSessionID = sid, lc_InitialKeyID = 0, lc_OutboundBuffer = 0\<rparr>"
  by (simp add: newSession_def startLayerPumps_def workers_Go_def put_layer_def Let_def split: prod.splits)

text \<open>The digest of the control channel and the rekey interval do not matter for the dial.\<close>

definition demo_dial_as :: "string \<Rightarrow> int \<Rightarrow> Config" where
  "demo_dial_as au reneg = demo_dial_cfg\<lparr>cfg_Auth := au, cfg_Reneg := reneg\<rparr>"

lemma demo_run_completes:
  "\<exists>evs out res layer'. Run (demo_run_env\<lparr>he_meanwhile := g\<rparr>) (run_config (demo_dial_as au reneg) PControlHardResetClientV2)
     (New \<lparr>lc_LocalSessionID = sid, lc_InitialKeyID = 0, lc_OutboundBuffer = 0\<rparr>) = ((evs, out, Inr res), layer') \<and>
     rs_PushReply res = pushed demo_options"
proof -
  let ?cfg = "run_config (demo_dial_as au reneg) PControlHardResetClientV2"
  have cfg: "with_defaults ?cfg = with_defaults demo_run_cfg"
    by (simp add: with_defaults_def run_config_def demo_dial_as_def demo_dial_cfg_def demo_cfg_def demo_run_cfg_def PControlHardResetClientV2_def)
  have tls: "rc_TLSConfig ?cfg" by (simp add: run_config_def demo_dial_as_def demo_dial_cfg_def demo_cfg_def)
  have new: "\<not> ly_closed (New \<lparr>lc_LocalSessionID = sid, lc_InitialKeyID = 0, lc_OutboundBuffer = 0\<rparr>)"
    "length (ly_txQueue (New \<lparr>lc_LocalSessionID = sid, lc_InitialKeyID = 0, lc_OutboundBuffer = 0\<rparr>)) < MaxQueueSize"
    by (simp_all add: New_def MaxQueueSize_def)
  have "demo_client_km = clientKM (he_goos (demo_run_env\<lparr>he_meanwhile := g\<rparr>)) (with_defaults ?cfg) (replicate 48 3) (replicate 32 4) (replicate 32 5)"
    unfolding cfg by (simp add: demo_client_km_def demo_run_env_def)
  note run = Run_completes [OF tls new _ _ _ _ _ _ _ this demo_client_km_ok _ _ _ demo_server_km_ok demo_options_ok(1,2), of 32 demo_material]
  have "length demo_material = 256" by (simp add: demo_material_def)
  then show ?thesis
    using run demo_run_opcode cfg
    by (auto simp: demo_run_env_def demo_server_km_def demo_options_ok(3) AEADKeyLen_def DataKeyMaterialLen_def)
qed

lemma demo_dials_as: "\<exists>evs s pr. DialWithTransport demo_dial (demo_dial_as au reneg) = (evs, Inr (s, pr)) \<and> pr_PeerID pr = 7"
proof -
  have v: "validateConfig (demo_dial_as au reneg) = None" by (simp add: validateConfig_def demo_dial_as_def demo_dial_cfg_def demo_cfg_def)
  have sid: "de_sid demo_dial = Some [0, 0, 0, 0, 0, 0, 0, 42]" by (simp add: demo_dial_def)
  obtain w where w: "buildWrapper (de_aes demo_dial) (de_pem demo_dial) (de_uni demo_dial) (demo_dial_as au reneg) = Inr (w, PControlHardResetClientV2)"
    by (simp add: buildWrapper_def demo_dial_as_def demo_dial_cfg_def demo_cfg_def demo_key_parses demo_dial_def Wrapper_New_def Let_def
        DeriveKeys_def DirectionInverse_def slotLen_def hmacKeyLen_def cipherKeyLen_def aes_NewCipher_def)
  show ?thesis
  proof (rule DialWithTransport_run [OF demo_dial_during v sid w])
    fix renv g layer evs out res layer' s0
    assume renv: "renv = (de_run demo_dial)\<lparr>he_meanwhile := g\<rparr>"
      and layer: "layer = layer_of (newSession (demo_dial_as au reneg) w (uint64_of [0, 0, 0, 0, 0, 0, 0, 42])) 0"
      and run: "Run renv (run_config (demo_dial_as au reneg) PControlHardResetClientV2) layer = ((evs, out, res), layer')"
      and dial: "DialWithTransport demo_dial (demo_dial_as au reneg) = (evs, case res of
      Inl e \<Rightarrow> Inl \<lparr>df_error = DialHandshake e, df_session = Some (shutdown s0), df_transportClosed = True\<rparr>
    | Inr result \<Rightarrow> (case session_established (de_lib demo_dial) (de_up demo_dial) (session_result result) s0 of
         (Inl e, s) \<Rightarrow> Inl \<lparr>df_error = DialSlot e, df_session = Some s, df_transportClosed = True\<rparr>
       | (Inr _, s) \<Rightarrow> Inr (s, rs_PushReply result)))"
    have env: "de_run demo_dial = demo_run_env" by (simp add: demo_dial_def)
    obtain r where r: "res = Inr r" "rs_PushReply r = pushed demo_options"
      using demo_run_completes [of g au reneg "uint64_of [0, 0, 0, 0, 0, 0, 0, 42]"] run
      unfolding renv env layer newSession_layer by (elim exE conjE) simp
    obtain t where "session_established (de_lib demo_dial) (de_up demo_dial) (session_result r) s0 = (Inr (), t)"
      using handshake_gives_slot [OF run [unfolded r(1)] demo_dial_lib] by blast
    then show ?thesis using dial r demo_options_ok(4) by simp
  qed
qed

lemma demo_dials: "\<exists>evs s pr. DialWithTransport demo_dial demo_dial_cfg = (evs, Inr (s, pr)) \<and> pr_PeerID pr = 7"
proof -
  have "demo_dial_as (cfg_Auth demo_dial_cfg) (cfg_Reneg demo_dial_cfg) = demo_dial_cfg" by (simp add: demo_dial_as_def)
  then show ?thesis using demo_dials_as [of "cfg_Auth demo_dial_cfg" "cfg_Reneg demo_dial_cfg"] by simp
qed


end
