(* ===== verification/VpnClient.thy ===== *)
theory VpnClient
  imports Handshake Watchdogs Transport
begin

text \<open>
  The public client (\<^verbatim>\<open>openvpn.go\<close>): configuration checks, dialling, automatic reconnects with
  backoff and surrender, statistics across sessions, reconnect hooks, the ingress handler, the
  background watcher and closing.

  Sessions are objects of a store, named by references, because the client compares session
  pointers. Methods that hold a mutex throughout are atomic; \<^verbatim>\<open>closed\<close> is read several times during
  a reconnect while \<^verbatim>\<open>Close\<close> may set it at any moment, so each reading is an argument
  (\<open>observe\<close>). Times are wall-clock nanoseconds.
\<close>

section \<open>Configuration\<close>

record ScrambleConfig =
  sc_Mode :: ScrambleMode
  sc_Key :: bytes

record ClientConfig =
  cc_Network :: string
  cc_RemoteAddr :: string
  cc_DialTransport :: bool  \<comment> \<open>not \<^verbatim>\<open>nil\<close>\<close>
  cc_Scramble :: "ScrambleConfig option"
  cc_TLSConfig :: bool  \<comment> \<open>not \<^verbatim>\<open>nil\<close>\<close>
  cc_Username :: string
  cc_Password :: string
  cc_TLSCryptV1 :: bytes
  cc_TLSCryptV2 :: bytes
  cc_TLSAuth :: bytes
  cc_Auth :: string
  cc_KeyDirection :: int
  cc_PeerInfoExtra :: peer_info
  cc_Ciphers :: "string list"
  cc_Reneg :: int
  cc_AutoReconnect :: bool
  cc_ReconnectMaxAttempts :: int
  cc_ReconnectMaxInterval :: int
  cc_MaxConsecutiveStalls :: int
  cc_StableSessionThreshold :: int
  cc_PeerInfoVersion :: string

datatype ctx_error = Canceled | DeadlineExceeded

datatype client_error =
    NilConfig
  | ScrambleKeyRequired
  | ScrambleModeInvalid
  | ControlKeyRequired
  | OnlyOneControlKey
  | CustomDialFailed
  | CustomDialNil
  | NetworkRequired
  | RemoteAddrRequired
  | TransportDialFailed transport_error
  | SessionDialFailed dial_error
  | ErrClientClosed
  | CtxErr ctx_error
  | GaveUpLatched
  | GaveUpStalls "32 word"
  | GaveUpAttempts client_error
  | AuthFailedOnReconnect client_error
  | TunnelError session_error
  | OsErrDeadlineExceeded

definition validateControlChannel :: "ClientConfig \<Rightarrow> client_error option" where
  "validateControlChannel cfg =
     (let set = (0 :: int);
          set = (if length (cc_TLSCryptV1 cfg) > 0 then set + 1 else set);
          set = (if length (cc_TLSCryptV2 cfg) > 0 then set + 1 else set);
          set = (if length (cc_TLSAuth cfg) > 0 then set + 1 else set)
      in if set = 0 then Some ControlKeyRequired else if set > 1 then Some OnlyOneControlKey else None)"

definition validateScramble :: "ScrambleConfig option \<Rightarrow> client_error option" where
  "validateScramble sc =
     (case sc of
        None \<Rightarrow> None
      | Some sc \<Rightarrow>
          (case sc_Mode sc of
             ScrambleXorMask \<Rightarrow> if length (sc_Key sc) = 0 then Some ScrambleKeyRequired else None
           | ScrambleObfuscate \<Rightarrow> if length (sc_Key sc) = 0 then Some ScrambleKeyRequired else None
           | ScrambleXorPtrPos \<Rightarrow> None
           | ScrambleReverse \<Rightarrow> None
           | ScrambleNone \<Rightarrow> Some ScrambleModeInvalid))"

definition sessionCfg :: "ClientConfig \<Rightarrow> Config" where
  "sessionCfg cfg =
     \<lparr>cfg_Network = cc_Network cfg, cfg_RemoteAddr = cc_RemoteAddr cfg, cfg_TLSConfig = cc_TLSConfig cfg,
      cfg_Username = cc_Username cfg, cfg_Password = cc_Password cfg, cfg_TLSCryptV1 = cc_TLSCryptV1 cfg,
      cfg_TLSCryptV2 = cc_TLSCryptV2 cfg, cfg_TLSAuth = cc_TLSAuth cfg, cfg_Auth = cc_Auth cfg,
      cfg_KeyDirection = cc_KeyDirection cfg,
      cfg_PeerInfoExtra = cc_PeerInfoExtra cfg, cfg_Ciphers = cc_Ciphers cfg, cfg_Reneg = cc_Reneg cfg,
      cfg_TransitionWindow = 0, cfg_IngressBuffer = 0,
      cfg_activity = \<lparr>cf_Warmup = 0, cf_StuckThreshold = 0, cf_WarmupFast = 0, cf_StuckThresholdFast = 0, cf_FastWindow = 0\<rparr>,
      cfg_PeerInfoVersion = cc_PeerInfoVersion cfg\<rparr>"

section \<open>Dialling one session\<close>

datatype custom_dial = CustomError | CustomNil | CustomTransport

text \<open>What the outside contributes to one dial: the custom dialler's answer, the sockets, the handshake.\<close>

record session_env =
  sv_custom :: custom_dial
  sv_udp :: "string \<Rightarrow> string \<Rightarrow> (transport_error, unit) result"
  sv_tcp :: "string \<Rightarrow> string \<Rightarrow> (transport_error, unit) result"
  sv_session :: dial_env

text \<open>A session as the client holds it, with the scrambling its transport is wrapped in.\<close>

record client_session =
  cs_session :: Session
  cs_push :: PushReply
  cs_scramble :: "(ScrambleMode \<times> bytes) option"

definition dialTransport :: "session_env \<Rightarrow> ClientConfig \<Rightarrow> (client_error, unit) result" where
  "dialTransport env cfg =
     (if cc_DialTransport cfg then
        (case sv_custom env of
           CustomError \<Rightarrow> Inl CustomDialFailed
         | CustomNil \<Rightarrow> Inl CustomDialNil
         | CustomTransport \<Rightarrow> Inr ())
      else if cc_Network cfg = '''' then Inl NetworkRequired
      else if cc_RemoteAddr cfg = '''' then Inl RemoteAddrRequired
      else map_sum TransportDialFailed id (Dial (sv_udp env) (sv_tcp env) (cc_Network cfg) (cc_RemoteAddr cfg)))"

definition dialSession :: "session_env \<Rightarrow> ClientConfig \<Rightarrow> (client_error, client_session) result" where
  "dialSession env cfg =
     (let scfg = sessionCfg cfg
      in rbind (dialTransport env cfg) (\<lambda>_.
         let scramble = (case cc_Scramble cfg of None \<Rightarrow> None | Some sc \<Rightarrow> NewScramble (sc_Mode sc) (sc_Key sc))
         in case snd (DialWithTransport (sv_session env) scfg) of
              Inl f \<Rightarrow> Inl (SessionDialFailed (df_error f))
            | Inr (s, pr) \<Rightarrow> Inr \<lparr>cs_session = s, cs_push = pr, cs_scramble = scramble\<rparr>))"

text \<open>\<^verbatim>\<open>errors.Is(err, ErrAuthFailed)\<close> and \<^verbatim>\<open>errors.Is(err, ErrReconnectGaveUp)\<close>.\<close>

fun is_auth_failed :: "client_error \<Rightarrow> bool" where
  "is_auth_failed (SessionDialFailed (DialHandshake (AuthFailed _))) = True"
| "is_auth_failed (AuthFailedOnReconnect e) = is_auth_failed e"
| "is_auth_failed _ = False"

fun is_gave_up :: "client_error \<Rightarrow> bool" where
  "is_gave_up GaveUpLatched = True"
| "is_gave_up (GaveUpStalls _) = True"
| "is_gave_up (GaveUpAttempts _) = True"
| "is_gave_up _ = False"

section \<open>State\<close>

record PublicPushReply =
  pp_LocalIP :: Addr
  pp_Netmask :: Addr
  pp_Gateway :: Addr
  pp_LocalIP6 :: Prefix
  pp_RemoteIP6 :: Addr
  pp_Routes :: "Prefix list"
  pp_Routes6 :: "Prefix list"
  pp_DNS :: "Addr list"
  pp_MTU :: int
  pp_Cipher :: string
  pp_PeerID :: u32
  pp_PingInterval :: int
  pp_PingRestart :: int
  pp_Topology :: string

record ClientStats = Stats +
  st_Reconnects :: u64

text \<open>
  A hook and an ingress handler are identified by the address of their registration. \<open>cl_log\<close>,
  \<open>cl_fired\<close> and \<open>cl_dispatched\<close> record what the client did: the waits and dials of its
  reconnects, the hook calls, and the sessions hooks were dispatched for.
\<close>

datatype reconnect_event = Waited int | Dialled

record Client =
  cl_cfg :: ClientConfig
  cl_at :: "ref \<Rightarrow> client_session option"
  cl_next :: ref
  cl_s :: "ref option"
  cl_closed :: bool
  cl_onReconnect :: "ref list"
  cl_ingressHandler :: "ref option"
  cl_cumStats :: ClientStats
  cl_sessionUp :: "int option"
  cl_consecutiveStalls :: "32 word"
  cl_gaveUp :: bool
  cl_unrecoverable :: bool
  cl_watching :: bool
  cl_log :: "reconnect_event list"
  cl_fired :: "(ref \<times> PublicPushReply) list"
  cl_dispatched :: "ref list"

definition session_of :: "Client \<Rightarrow> ref \<Rightarrow> client_session" where
  "session_of c r = the (cl_at c r)"

definition put_session :: "ref \<Rightarrow> Session \<Rightarrow> Client \<Rightarrow> Client" where
  "put_session r s c = c\<lparr>cl_at := (cl_at c)(r \<mapsto> (session_of c r)\<lparr>cs_session := s\<rparr>)\<rparr>"

text \<open>\<^verbatim>\<open>s.Close()\<close> on a session object; \<open>written\<close> as for the exit notification.\<close>

definition close_session :: "bool \<Rightarrow> ref \<Rightarrow> Client \<Rightarrow> Client" where
  "close_session written r c = put_session r (Session_Close written (cs_session (session_of c r))) c"

definition zero_stats :: ClientStats where
  "zero_stats = \<lparr>st_Forwarded = 0, st_DroppedFull = 0, st_PingIn = 0, st_OpenFailed = 0, st_StrayHandshake = 0, st_HardResetIn = 0,
     st_LastInbound = None, st_LastDataInbound = None, st_LastUserOutbound = None, st_Reconnects = 0\<rparr>"

definition Client_Dial :: "session_env \<Rightarrow> int \<Rightarrow> ClientConfig option \<Rightarrow> (client_error, Client) result" where
  "Client_Dial env now cfg =
     (case cfg of
        None \<Rightarrow> Inl NilConfig
      | Some cfg \<Rightarrow>
        (case validateScramble (cc_Scramble cfg) of
           Some e \<Rightarrow> Inl e
         | None \<Rightarrow>
        (case validateControlChannel cfg of
           Some e \<Rightarrow> Inl e
         | None \<Rightarrow>
           rbind (dialSession env cfg) (\<lambda>cs.
             Inr \<lparr>cl_cfg = cfg, cl_at = [0 \<mapsto> cs], cl_next = 1, cl_s = Some 0, cl_closed = False, cl_onReconnect = [],
                  cl_ingressHandler = None, cl_cumStats = zero_stats, cl_sessionUp = Some now, cl_consecutiveStalls = 0,
                  cl_gaveUp = False, cl_unrecoverable = False, cl_watching = cc_AutoReconnect cfg, cl_log = [],
                  cl_fired = [], cl_dispatched = []\<rparr>))))"


section \<open>Statistics\<close>

definition foldStatsLocked :: "Stats \<Rightarrow> Client \<Rightarrow> Client" where
  "foldStatsLocked st c =
     c\<lparr>cl_cumStats := (cl_cumStats c)\<lparr>
         st_Forwarded := st_Forwarded (cl_cumStats c) + st_Forwarded st,
         st_DroppedFull := st_DroppedFull (cl_cumStats c) + st_DroppedFull st,
         st_PingIn := st_PingIn (cl_cumStats c) + st_PingIn st,
         st_OpenFailed := st_OpenFailed (cl_cumStats c) + st_OpenFailed st,
         st_StrayHandshake := st_StrayHandshake (cl_cumStats c) + st_StrayHandshake st,
         st_HardResetIn := st_HardResetIn (cl_cumStats c) + st_HardResetIn st\<rparr>\<rparr>"

definition absorbStatsLocked :: "ref option \<Rightarrow> Client \<Rightarrow> Client" where
  "absorbStatsLocked s c =
     (case s of None \<Rightarrow> c | Some r \<Rightarrow> foldStatsLocked (Session_Stats (cs_session (session_of c r))) c)"

definition Client_Stats :: "Client \<Rightarrow> ClientStats" where
  "Client_Stats c =
     (let out = cl_cumStats c
      in case cl_s c of
           None \<Rightarrow> out
         | Some r \<Rightarrow>
             let cur = Session_Stats (cs_session (session_of c r))
             in out\<lparr>st_Forwarded := st_Forwarded out + st_Forwarded cur,
                    st_DroppedFull := st_DroppedFull out + st_DroppedFull cur,
                    st_PingIn := st_PingIn out + st_PingIn cur,
                    st_OpenFailed := st_OpenFailed out + st_OpenFailed cur,
                    st_StrayHandshake := st_StrayHandshake out + st_StrayHandshake cur,
                    st_HardResetIn := st_HardResetIn out + st_HardResetIn cur,
                    st_LastInbound := st_LastInbound cur,
                    st_LastDataInbound := st_LastDataInbound cur,
                    st_LastUserOutbound := st_LastUserOutbound cur\<rparr>)"

section \<open>Hooks and the ingress handler\<close>

text \<open>The registration is named by a fresh reference, which the detach function keeps.\<close>

definition OnReconnect :: "Client \<Rightarrow> ref \<times> Client" where
  "OnReconnect c = (let hook = cl_next c in (hook, c\<lparr>cl_next := hook + 1, cl_onReconnect := cl_onReconnect c @ [hook]\<rparr>))"

definition detach_hook :: "ref \<Rightarrow> Client \<Rightarrow> Client" where
  "detach_hook hook c = c\<lparr>cl_onReconnect := remove1 hook (cl_onReconnect c)\<rparr>"

definition pushReplyFrom :: "client_session \<Rightarrow> PublicPushReply" where
  "pushReplyFrom s =
     (let pr = cs_push s
      in \<lparr>pp_LocalIP = pr_LocalIP pr, pp_Netmask = pr_Netmask pr, pp_Gateway = pr_Gateway pr, pp_LocalIP6 = pr_LocalIP6 pr,
          pp_RemoteIP6 = pr_RemoteIP6 pr, pp_Routes = pr_Routes pr, pp_Routes6 = pr_Routes6 pr, pp_DNS = pr_DNS pr,
          pp_MTU = pr_MTU pr, pp_Cipher = pr_Cipher pr, pp_PeerID = pr_PeerID pr, pp_PingInterval = pr_PingInterval pr,
          pp_PingRestart = pr_PingRestart pr, pp_Topology = pr_Topology pr\<rparr>)"

text \<open>A hook's own effect is its business; a panic in one does not keep the next from running.\<close>

definition FireOnReconnect :: "PublicPushReply \<Rightarrow> Client \<Rightarrow> Client" where
  "FireOnReconnect pr c = c\<lparr>cl_fired := cl_fired c @ map (\<lambda>h. (h, pr)) (cl_onReconnect c)\<rparr>"

definition fireHooksFor :: "ref \<Rightarrow> Client \<Rightarrow> Client" where
  "fireHooksFor s c =
     (if cl_closed c \<or> cl_s c \<noteq> Some s then c
      else (FireOnReconnect (pushReplyFrom (session_of c s)) c)\<lparr>cl_dispatched := cl_dispatched c @ [s]\<rparr>)"

definition apply_handler :: "bool \<Rightarrow> Client \<Rightarrow> Client" where
  "apply_handler h c =
     (case cl_s c of None \<Rightarrow> c | Some r \<Rightarrow> put_session r (SetIngressHandler h (cs_session (session_of c r))) c)"

text \<open>
  \<^verbatim>\<open>SetIngressHandler\<close> and its detach function: first the token of the client, then the session.
  With a handler the token's address is the result.
\<close>

definition store_handler :: "Client \<Rightarrow> ref \<times> Client" where
  "store_handler c = (let token = cl_next c in (token, c\<lparr>cl_next := token + 1, cl_ingressHandler := Some token\<rparr>))"

definition Client_SetIngressHandler :: "bool \<Rightarrow> Client \<Rightarrow> ref option \<times> Client" where
  "Client_SetIngressHandler h c =
     (if \<not> h then (None, apply_handler False (c\<lparr>cl_ingressHandler := None\<rparr>))
      else case store_handler c of (token, c) \<Rightarrow> (Some token, apply_handler True c))"

definition detach_cas :: "ref \<Rightarrow> Client \<Rightarrow> bool \<times> Client" where
  "detach_cas token c =
     (if cl_ingressHandler c = Some token then (True, c\<lparr>cl_ingressHandler := None\<rparr>) else (False, c))"

definition detach_handler :: "ref \<Rightarrow> Client \<Rightarrow> Client" where
  "detach_handler token c = (case detach_cas token c of (ok, c) \<Rightarrow> if ok then apply_handler False c else c)"

section \<open>Reconnecting\<close>

definition defaultStableSessionThreshold :: int where "defaultStableSessionThreshold = 60 * sec"
definition stallRestartReason :: string where "stallRestartReason = ''data-activity stuck''"

definition decideStallSurrender :: "int \<Rightarrow> session_error option \<Rightarrow> 32 word \<Rightarrow> int \<Rightarrow> int \<Rightarrow> 32 word \<times> bool" where
  "decideStallSurrender lifetime closeErr counter maxStalls stableThreshold =
     (if maxStalls \<le> 0 then (0, False)
      else
        let stableThreshold = (if stableThreshold \<le> 0 then defaultStableSessionThreshold else stableThreshold);
            isStall = (case closeErr of Some (RestartError _ why) \<Rightarrow> why = stallRestartReason | _ \<Rightarrow> False)
        in if \<not> isStall then (0, False)
           else if lifetime \<ge> stableThreshold then (0, False)
           else
             let n = counter + 1
             in if sint n \<ge> maxStalls then (n, True) else (n, False))"

definition backoffDelay :: "int \<Rightarrow> int \<Rightarrow> int" where
  "backoffDelay attempt maxInterval =
     (let attempt = (if attempt < 1 then 1 else attempt);
          shift = min (attempt - 1) 30;
          d = int64 (push_bit (nat shift) sec)
      in if d \<le> 0 then maxInterval else min d maxInterval)"

text \<open>
  What one attempt meets: whether \<^verbatim>\<open>Close\<close> has begun at each of the three checks, what
  \<^verbatim>\<open>callCtx.Err()\<close> says at each of its three, how the wait ends, the dial, the clock after it.
\<close>

datatype wait_end = Elapsed | CallDone ctx_error | ClientDone

record attempt_env =
  ae_closed1 :: bool
  ae_call1 :: "ctx_error option"
  ae_wait :: wait_end
  ae_closed2 :: bool
  ae_dial :: session_env
  ae_closed3 :: bool
  ae_call3 :: "ctx_error option"
  ae_written :: bool
  ae_now :: int

definition observe :: "bool \<Rightarrow> Client \<Rightarrow> Client" where
  "observe closed c = c\<lparr>cl_closed := cl_closed c \<or> closed\<rparr>"

definition log_event :: "reconnect_event \<Rightarrow> Client \<Rightarrow> Client" where
  "log_event e c = c\<lparr>cl_log := cl_log c @ [e]\<rparr>"

definition new_session :: "client_session \<Rightarrow> Client \<Rightarrow> ref \<times> Client" where
  "new_session cs c = (let r = cl_next c in (r, c\<lparr>cl_next := r + 1, cl_at := (cl_at c)(r \<mapsto> cs)\<rparr>))"

text \<open>The swap under \<^verbatim>\<open>statsMu\<close> and \<^verbatim>\<open>mu\<close>, and the clock.\<close>

definition install_session :: "int \<Rightarrow> ref option \<Rightarrow> ref \<Rightarrow> Client \<Rightarrow> Client" where
  "install_session now failed r c =
     (let c = absorbStatsLocked failed c;
          c = c\<lparr>cl_cumStats := (cl_cumStats c)\<lparr>st_Reconnects := st_Reconnects (cl_cumStats c) + 1\<rparr>\<rparr>;
          c = c\<lparr>cl_s := Some r\<rparr>;
          c = (if cl_ingressHandler c \<noteq> None then put_session r (SetIngressHandler True (cs_session (session_of c r))) c else c)
      in c\<lparr>cl_sessionUp := Some now\<rparr>)"

text \<open>
  The attempts, one environment each; \<^const>\<open>None\<close>: the loop is still running when they are used up.
\<close>

fun reconnect_loop :: "attempt_env list \<Rightarrow> int \<Rightarrow> int \<Rightarrow> int \<Rightarrow> ref option \<Rightarrow> Client \<Rightarrow>
    ((client_error, ref) result \<times> Client) option" where
  "reconnect_loop [] attempt wait maxInterval failed c = None"
| "reconnect_loop (e # es) attempt wait maxInterval failed c =
     (let c = observe (ae_closed1 e) c
      in if cl_closed c then Some (Inl ErrClientClosed, c)
         else case ae_call1 e of
           Some err \<Rightarrow> Some (Inl (CtxErr err), c)
         | None \<Rightarrow>
      (case (if wait > 0 then ae_wait e else Elapsed) of
         CallDone err \<Rightarrow> Some (Inl (CtxErr err), c)
       | ClientDone \<Rightarrow> Some (Inl (CtxErr Canceled), observe True c)
       | Elapsed \<Rightarrow>
         let c = observe (ae_closed2 e) (if wait > 0 then log_event (Waited wait) c else c)
         in if cl_closed c then Some (Inl ErrClientClosed, c)
            else
              let c = log_event Dialled c
              in (case dialSession (ae_dial e) (cl_cfg c) of
                    Inl err \<Rightarrow>
                      if is_auth_failed err then Some (Inl (AuthFailedOnReconnect err), c)
                      else (case ae_call3 e of
                        Some err' \<Rightarrow> Some (Inl (CtxErr err'), c)
                      | None \<Rightarrow>
                        if cc_ReconnectMaxAttempts (cl_cfg c) > 0 \<and> attempt \<ge> cc_ReconnectMaxAttempts (cl_cfg c)
                        then Some (Inl (GaveUpAttempts err), c)
                        else reconnect_loop es (attempt + 1) (backoffDelay attempt maxInterval) maxInterval failed c)
                  | Inr cs \<Rightarrow>
                      (case new_session cs (observe (ae_closed3 e) c) of (r, c) \<Rightarrow>
                        if cl_closed c then Some (Inl ErrClientClosed, close_session (ae_written e) r c)
                        else (case ae_call3 e of
                          Some err' \<Rightarrow> Some (Inl (CtxErr err'), close_session (ae_written e) r c)
                        | None \<Rightarrow> Some (Inr r, install_session (ae_now e) failed r c))))))"

text \<open>The consecutive-stall check: the error to return, if the client surrenders.\<close>

definition check_surrender :: "int \<Rightarrow> ref option \<Rightarrow> Client \<Rightarrow> client_error option \<times> Client" where
  "check_surrender now failed c =
     (case failed of
        Some f \<Rightarrow>
          if cc_MaxConsecutiveStalls (cl_cfg c) > 0 then
            let lifetime = (case cl_sessionUp c of Some t \<Rightarrow> now - t | None \<Rightarrow> 0);
                (newCounter, surrender) = decideStallSurrender lifetime (CloseErr (cs_session (session_of c f)))
                   (cl_consecutiveStalls c) (cc_MaxConsecutiveStalls (cl_cfg c)) (cc_StableSessionThreshold (cl_cfg c));
                c = c\<lparr>cl_consecutiveStalls := newCounter\<rparr>
            in if surrender then (Some (GaveUpStalls newCounter), c\<lparr>cl_gaveUp := True, cl_unrecoverable := True\<rparr>) else (None, c)
          else (None, c)
      | None \<Rightarrow> (None, c))"

definition reconnectInstall :: "attempt_env list \<Rightarrow> int \<Rightarrow> bool \<Rightarrow> ref option \<Rightarrow> int \<Rightarrow> Client \<Rightarrow>
    ((client_error, ref option) result \<times> Client) option" where
  "reconnectInstall es now written failed initialDelay c =
     (if cl_closed c then Some (Inl ErrClientClosed, c)
      else if cl_s c \<noteq> None \<and> cl_s c \<noteq> failed then Some (Inr None, c)
      else if cl_gaveUp c then Some (Inl GaveUpLatched, c)
      else case check_surrender now failed c of
        (Some e, c) \<Rightarrow> Some (Inl e, c)
      | (None, c) \<Rightarrow>
        let maxInterval = (if cc_ReconnectMaxInterval (cl_cfg c) \<le> 0 then 60 * sec else cc_ReconnectMaxInterval (cl_cfg c));
            c = (case failed of None \<Rightarrow> c | Some f \<Rightarrow> close_session written f c)
        in (case reconnect_loop es 1 initialDelay maxInterval failed c of
              None \<Rightarrow> None
            | Some (Inl e, c) \<Rightarrow> Some (Inl e, c)
            | Some (Inr r, c) \<Rightarrow> Some (Inr (Some r), c)))"

definition reconnect :: "attempt_env list \<Rightarrow> int \<Rightarrow> bool \<Rightarrow> ref option \<Rightarrow> int \<Rightarrow> Client \<Rightarrow> (client_error option \<times> Client) option" where
  "reconnect es now written failed initialDelay c =
     (case reconnectInstall es now written failed initialDelay c of
        None \<Rightarrow> None
      | Some (Inl e, c) \<Rightarrow> Some (Some e, c)
      | Some (Inr None, c) \<Rightarrow> Some (None, c)
      | Some (Inr (Some r), c) \<Rightarrow> Some (None, fireHooksFor r c))"

section \<open>The watcher, and closing\<close>

definition sessionWatchPeriod :: int where "sessionWatchPeriod = 500 * msec"
definition sessionWatchWakeGapThreshold :: int where "sessionWatchWakeGapThreshold = 10 * sec"

text \<open>
  One tick of \<^verbatim>\<open>sessionWatcher\<close>: whether it goes on, the time of the tick, the client. A call that
  has not come back is \<^const>\<open>None\<close>. When \<^verbatim>\<open>Close\<close> begins while the hooks run (\<open>closedMeanwhile\<close>) the
  watcher leaves at once.
\<close>

definition sessionWatcher_tick :: "attempt_env list \<Rightarrow> bool \<Rightarrow> bool \<Rightarrow> int \<Rightarrow> int \<Rightarrow> Client \<Rightarrow> (bool \<times> int \<times> Client) option" where
  "sessionWatcher_tick es written closedMeanwhile now lastWallTick c =
     (if cl_closed c then Some (False, lastWallTick, c)
      else case cl_s c of
        None \<Rightarrow> Some (False, lastWallTick, c)
      | Some s \<Rightarrow>
        let gap = now - lastWallTick;
            c = (if gap > sessionWatchWakeGapThreshold
                 then put_session s (RequestRestart ''wake from sleep (client watcher)'' (cs_session (session_of c s))) c else c)
        in (case CloseErr (cs_session (session_of c s)) of
              None \<Rightarrow> Some (\<not> IsClosed (cs_session (session_of c s)), now, c)
            | Some (RestartError delay why) \<Rightarrow>
                (case reconnectInstall es now written (Some s) delay c of
                   None \<Rightarrow> None
                 | Some (Inr None, c) \<Rightarrow> Some (True, now, c)
                 | Some (Inr (Some r), c) \<Rightarrow>
                     let c = fireHooksFor r c
                     in if closedMeanwhile then Some (False, now, observe True c) else Some (True, now, c)
                 | Some (Inl e, c) \<Rightarrow>
                     Some (\<not> (is_auth_failed e \<or> is_gave_up e \<or> e = ErrClientClosed \<or> e = CtxErr Canceled), now, c))
            | Some _ \<Rightarrow> Some (False, now, c)))"

definition Client_RequestRestart :: "string \<Rightarrow> Client \<Rightarrow> Client" where
  "Client_RequestRestart why c =
     (if cl_closed c then c
      else case cl_s c of
        None \<Rightarrow> c
      | Some s \<Rightarrow> put_session s (RequestRestart why (cs_session (session_of c s))) c)"

text \<open>\<^verbatim>\<open>Close\<close>: up to the cancellation; then, once no reconnect holds the lock, the session.\<close>

definition Close_begin :: "Client \<Rightarrow> bool \<times> Client" where
  "Close_begin c = (if cl_closed c then (False, c) else (True, c\<lparr>cl_closed := True\<rparr>))"

definition Close_finish :: "bool \<Rightarrow> Client \<Rightarrow> Client" where
  "Close_finish written c = (case cl_s c of None \<Rightarrow> c | Some s \<Rightarrow> close_session written s c)"

definition Client_Close :: "bool \<Rightarrow> Client \<Rightarrow> Client" where
  "Client_Close written c = (case Close_begin c of (first, c) \<Rightarrow> if first then Close_finish written c else c)"

definition PushedOptions :: "Client \<Rightarrow> PublicPushReply" where
  "PushedOptions c = pushReplyFrom (session_of c (the (cl_s c)))"

definition TunnelMTU :: "Client \<Rightarrow> int" where
  "TunnelMTU c = (let mtu = pr_MTU (cs_push (session_of c (the (cl_s c)))) in if mtu \<le> 0 then 1500 else mtu)"

definition Client_Rekey :: "rekey_env \<Rightarrow> int \<Rightarrow> Client \<Rightarrow> session_error option \<times> Client" where
  "Client_Rekey env now c =
     (let r = the (cl_s c)
      in case Session_Rekey env now (cs_session (session_of c r)) of (err, s) \<Rightarrow> (err, put_session r s c))"

end
