(* ===== verification/ClientProperties.thy ===== *)
theory ClientProperties
  imports VpnClient
begin

text \<open>
  Properties of the reconnecting client: no session is orphaned, closing is final, reconnects are
  bounded and backed off, statistics continue, the client gives up exactly when it should, and
  hooks and handler follow the current session.
\<close>

section \<open>Views\<close>

lemma put_session_frame [simp]:
  "cl_s (put_session r s c) = cl_s c" "cl_next (put_session r s c) = cl_next c" "cl_closed (put_session r s c) = cl_closed c"
  "cl_cfg (put_session r s c) = cl_cfg c" "cl_ingressHandler (put_session r s c) = cl_ingressHandler c"
  "cl_cumStats (put_session r s c) = cl_cumStats c" "cl_dispatched (put_session r s c) = cl_dispatched c"
  "cl_log (put_session r s c) = cl_log c" "cl_gaveUp (put_session r s c) = cl_gaveUp c"
  "cl_onReconnect (put_session r s c) = cl_onReconnect c" "cl_fired (put_session r s c) = cl_fired c"
  by (simp_all add: put_session_def)

lemma session_of_put [simp]:
  "session_of (put_session r s c) r' = (if r' = r then (session_of c r)\<lparr>cs_session := s\<rparr> else session_of c r')"
  by (simp add: put_session_def session_of_def)

lemma cl_at_put [simp]:
  "cl_at (put_session r s c) r' = (if r' = r then Some ((session_of c r)\<lparr>cs_session := s\<rparr>) else cl_at c r')"
  by (simp add: put_session_def)

lemma Session_Close_closed [simp]: "se_closed (Session_Close written s)"
proof (cases "se_closed s")
  case False
  have kids: "se_closed (foldl (\<lambda>s n. shutdown_kid n s) t ns) = se_closed t" for t ns
    by (induction ns arbitrary: t) (simp_all add: shutdown_kid_def)
  have "se_closed (shutdown t) = se_closed t" for t
    by (simp add: shutdown_def shutdown_conn_def shutdown_workers_def kids Let_def split: option.splits)
  moreover have "se_closed (Session_Close_enter written s)"
    by (simp add: Session_Close_enter_def sendExitNotifyBestEffort_def Let_def split: option.splits)
  ultimately show ?thesis using False by (simp add: Session_Close_def)
qed (simp add: Session_Close_def)

lemma session_step_closed:
  assumes "session_step s t" and "session_inv s" and "se_closed s"
  shows "se_closed t"
proof -
  have shape: "se_closed t" if "same_shape s t" using that assms(3) by (simp add: same_shape_def)
  have store: "store_ok s" using assms(2) by (simp add: session_inv_def)
  show ?thesis
    using assms(1)
  proof (cases rule: session_step.cases)
    case enter
    then show ?thesis using assms(3) by (simp add: rekey_enter_def)
  next
    case (pumps old new r)
    then show ?thesis using assms(3)
      by (auto simp: rekey_pumps_def startLayerPumps_def workers_Go_def Let_def split: prod.splits)
  next
    case (send old new r now)
    then show ?thesis using assms(3) by (auto simp: rekey_send_def Let_def split: prod.splits option.splits)
  next
    case (finish old new r c env)
    then show ?thesis using assms(3)
      by (auto simp: rekey_finish_def Let_def installTLSConn_def workers_Go_def split: prod.splits sum.splits option.splits)
  next
    case (timer k w lw)
    then show ?thesis using assms(3) by (simp add: retireAfter_def)
  next
    case (close_kid n)
    then show ?thesis using assms(3) by (simp add: shutdown_kid_def)
  next
    case close_conn
    then show ?thesis using assms(3) by (simp add: shutdown_conn_def Let_def split: option.splits)
  qed (use assms(3) store shape in \<open>auto simp: shutdown_workers_def intro: traffic_shapes\<close>)
qed


section \<open>The steps of a client\<close>

text \<open>
  Everything that goes on around a client: its sessions run by themselves, any caller may ask for a
  reconnect with any session it has seen fail, hooks and handlers come and go, and closing may begin
  and finish at any time.
\<close>

definition dials_ok :: "attempt_env list \<Rightarrow> bool" where
  "dials_ok es \<longleftrightarrow> (\<forall>e \<in> set es. \<forall>s. handshake_step\<^sup>*\<^sup>* s (de_during (sv_session (ae_dial e)) s))"

inductive client_step :: "Client \<Rightarrow> Client \<Rightarrow> bool" where
  session: "cl_at c r = Some cs \<Longrightarrow> session_step (cs_session cs) t \<Longrightarrow> se_handler t = se_handler (cs_session cs) \<Longrightarrow>
    client_step c (put_session r t c)"
| reconnect: "dials_ok es \<Longrightarrow> reconnectInstall es now written failed delay c = Some (res, c') \<Longrightarrow> client_step c c'"
| hooks: "client_step c (fireHooksFor r c)"
| hook_on: "client_step c (snd (OnReconnect c))"
| hook_off: "client_step c (detach_hook h c)"
| handler_on: "client_step c (snd (Client_SetIngressHandler h c))"
| handler_off: "client_step c (detach_handler token c)"
| restart: "client_step c (Client_RequestRestart why c)"
| close_begin: "client_step c (snd (Close_begin c))"
| close_finish: "cl_closed c \<Longrightarrow> client_step c (Close_finish written c)"

inductive_cases client_stepE: "client_step c c'"

section \<open>The invariant\<close>

definition client_inv :: "Client \<Rightarrow> bool" where
  "client_inv c \<longleftrightarrow>
     (\<exists>r cs. cl_s c = Some r \<and> cl_at c r = Some cs \<and> (cl_ingressHandler c \<noteq> None \<longrightarrow> se_handler (cs_session cs)) \<and>
        (\<forall>d \<in> set (cl_dispatched c). d \<le> r)) \<and>
     (\<forall>r cs. cl_at c r = Some cs \<longrightarrow> r < cl_next c \<and> session_inv (cs_session cs) \<and>
        (cl_s c \<noteq> Some r \<longrightarrow> se_closed (cs_session cs))) \<and>
     sorted (cl_dispatched c)"

text \<open>Replacing a session's state by a later one of the same session.\<close>

definition later :: "Session \<Rightarrow> Session \<Rightarrow> bool" where
  "later s t \<longleftrightarrow> (session_inv s \<longrightarrow> session_inv t) \<and> (session_inv s \<and> se_closed s \<longrightarrow> se_closed t)"

lemma later_step: "session_step s t \<Longrightarrow> later s t"
  using session_step_inv session_step_closed by (auto simp: later_def)

lemma later_Close: "later s (Session_Close written s)"
proof (cases "se_closed s")
  case False
  then show ?thesis
    using Session_Close_steps [OF False, of written] session_steps_inv by (auto simp: later_def session_inv_def)
qed (simp add: later_def Session_Close_def)

lemma put_session_inv:
  assumes "client_inv c" and "cl_at c r = Some cs" and "later (cs_session cs) t"
    and "cl_ingressHandler c \<noteq> None \<Longrightarrow> cl_s c = Some r \<Longrightarrow> se_handler (cs_session cs) \<Longrightarrow> se_handler t"
  shows "client_inv (put_session r t c)"
  using assms unfolding client_inv_def later_def by (auto simp: session_of_def)

lemma Session_Close_handler: "se_handler (Session_Close written s) = se_handler s"
proof -
  have kids: "se_handler (foldl (\<lambda>s n. shutdown_kid n s) t ns) = se_handler t" for t ns
    by (induction ns arbitrary: t) (simp_all add: shutdown_kid_def retireLayer_def close_layer_def put_layer_def split: prod.splits option.splits)
  show ?thesis
    by (simp add: Session_Close_def shutdown_def shutdown_conn_def shutdown_workers_def kids Session_Close_enter_def close_conn_def
        close_layer_def put_layer_def put_conn_def sendExitNotifyBestEffort_def Let_def split: option.splits)
qed

lemma close_session_inv: "client_inv c \<Longrightarrow> cl_at c r = Some cs \<Longrightarrow> client_inv (close_session written r c)"
  unfolding close_session_def by (rule put_session_inv) (auto simp: session_of_def later_Close Session_Close_handler)


definition all_closed :: "Client \<Rightarrow> bool" where
  "all_closed c \<longleftrightarrow> (\<forall>r cs. cl_at c r = Some cs \<longrightarrow> se_closed (cs_session cs))"

lemma observe_views [simp]:
  "client_inv (observe b c) = client_inv c" "all_closed (observe b c) = all_closed c" "cl_s (observe b c) = cl_s c"
  "cl_cfg (observe b c) = cl_cfg c" "cl_log (observe b c) = cl_log c" "cl_next (observe b c) = cl_next c"
  "cl_closed (observe b c) \<longleftrightarrow> cl_closed c \<or> b" "cl_cumStats (observe b c) = cl_cumStats c" "session_of (observe b c) = session_of c"
  "cl_at (observe b c) = cl_at c"
  by (simp_all add: observe_def client_inv_def all_closed_def session_of_def fun_eq_iff)

lemma log_event_views [simp]:
  "client_inv (log_event e c) = client_inv c" "all_closed (log_event e c) = all_closed c" "cl_s (log_event e c) = cl_s c"
  "cl_cfg (log_event e c) = cl_cfg c" "cl_log (log_event e c) = cl_log c @ [e]" "cl_next (log_event e c) = cl_next c"
  "cl_closed (log_event e c) = cl_closed c" "cl_cumStats (log_event e c) = cl_cumStats c" "session_of (log_event e c) = session_of c"
  "cl_at (log_event e c) = cl_at c"
  by (simp_all add: log_event_def client_inv_def all_closed_def session_of_def fun_eq_iff)

lemma dialSession_inv:
  assumes "\<forall>s. handshake_step\<^sup>*\<^sup>* s (de_during (sv_session env) s)" and "dialSession env cfg = Inr cs"
  shows "session_inv (cs_session cs) \<and> \<not> se_closed (cs_session cs)"
proof -
  obtain pr where "snd (DialWithTransport (sv_session env) (sessionCfg cfg)) = Inr (cs_session cs, pr)"
    using assms(2) by (auto simp: dialSession_def Let_def rbind_eq_Inr split: sum.splits)
  then obtain evs where "DialWithTransport (sv_session env) (sessionCfg cfg) = (evs, Inr (cs_session cs, pr))"
    by (metis prod.collapse)
  then show ?thesis using dial_session_inv assms(1) by blast
qed

text \<open>A session that was dialled but is not wanted any more.\<close>

lemma discard_inv:
  assumes "client_inv c" and "all_closed c" and "session_inv (cs_session cs)" and "new_session cs c = (r, c1)"
  shows "client_inv (close_session written r c1) \<and> all_closed (close_session written r c1) \<and> cl_s (close_session written r c1) = cl_s c"
proof -
  have "session_inv (Session_Close written (cs_session cs))" using later_Close assms(3) by (auto simp: later_def)
  moreover have "cl_s c \<noteq> Some (cl_next c)" using assms(1) by (fastforce simp: client_inv_def)
  ultimately show ?thesis
    using assms unfolding client_inv_def all_closed_def new_session_def close_session_def
    by (auto simp: Let_def session_of_def less_Suc_eq)
qed

lemma install_session_views:
  "cl_s (install_session now failed r c) = Some r" "cl_next (install_session now failed r c) = cl_next c"
  "cl_dispatched (install_session now failed r c) = cl_dispatched c"
  "cl_ingressHandler (install_session now failed r c) = cl_ingressHandler c" "cl_cfg (install_session now failed r c) = cl_cfg c"
  "cl_log (install_session now failed r c) = cl_log c"
  "cl_at (install_session now failed r c) r' =
     (if r' = r \<and> cl_ingressHandler c \<noteq> None then Some ((session_of c r)\<lparr>cs_session := SetIngressHandler True (cs_session (session_of c r))\<rparr>)
      else cl_at c r')"
  by (auto simp: install_session_def absorbStatsLocked_def foldStatsLocked_def Let_def session_of_def split: option.splits)

lemma install_session_inv:
  assumes "client_inv c" and "all_closed c" and "session_inv (cs_session cs)" and "new_session cs c = (r, c1)"
  shows "client_inv (install_session now failed r c1) \<and> cl_s (install_session now failed r c1) = Some r"
proof -
  have "session_inv (SetIngressHandler True (cs_session cs))"
    using later_step [OF session_step.handler] assms(3) by (auto simp: later_def)
  moreover have "d \<le> cl_next c" if "d \<in> set (cl_dispatched c)" for d
    using that assms(1) by (fastforce simp: client_inv_def)
  ultimately show ?thesis
    using assms unfolding client_inv_def all_closed_def new_session_def
    by (auto simp: Let_def install_session_views session_of_def SetIngressHandler_def less_Suc_eq split: if_splits)
qed

text \<open>What one attempt can come to; it logs at most its wait and its dial.\<close>

definition dial_log :: "int \<Rightarrow> reconnect_event list" where
  "dial_log wait = (if wait > 0 then [Waited wait] else []) @ [Dialled]"

definition seen :: "bool \<Rightarrow> reconnect_event list \<Rightarrow> Client \<Rightarrow> Client" where
  "seen b l c = c\<lparr>cl_closed := b, cl_log := cl_log c @ l\<rparr>"

lemma seen_views [simp]:
  "client_inv (seen b l c) = client_inv c" "all_closed (seen b l c) = all_closed c" "cl_s (seen b l c) = cl_s c"
  "cl_cfg (seen b l c) = cl_cfg c" "cl_log (seen b l c) = cl_log c @ l" "cl_next (seen b l c) = cl_next c"
  "cl_closed (seen b l c) = b" "cl_cumStats (seen b l c) = cl_cumStats c" "session_of (seen b l c) = session_of c"
  "cl_at (seen b l c) = cl_at c"
  by (simp_all add: seen_def client_inv_def all_closed_def session_of_def fun_eq_iff)

lemma attempt_cases [consumes 1, case_names stopped discarded installed again]:
  assumes "reconnect_loop (e # es) attempt wait maxInterval failed c = Some (res, c')"
  obtains (stopped) b l err where "res = Inl err" "c' = seen b l c" "l = [] \<or> l = [Waited wait] \<or> l = dial_log wait"
  | (discarded) b cs r c1 err where "res = Inl err" "dialSession (ae_dial e) (cl_cfg c) = Inr cs"
      "new_session cs (seen b (dial_log wait) c) = (r, c1)" "c' = close_session (ae_written e) r c1"
  | (installed) b cs r c1 where "res = Inr r" "dialSession (ae_dial e) (cl_cfg c) = Inr cs"
      "new_session cs (seen b (dial_log wait) c) = (r, c1)" "\<not> cl_closed c1" "c' = install_session (ae_now e) failed r c1"
  | (again) err where "dialSession (ae_dial e) (cl_cfg c) = Inl err" "\<not> is_auth_failed err"
      "\<not> (cc_ReconnectMaxAttempts (cl_cfg c) > 0 \<and> attempt \<ge> cc_ReconnectMaxAttempts (cl_cfg c))"
      "reconnect_loop es (attempt + 1) (backoffDelay attempt maxInterval) maxInterval failed (seen False (dial_log wait) c) = Some (res, c')"
proof -
  have obs: "observe b c = seen (cl_closed c \<or> b) [] c" for b by (simp add: observe_def seen_def)
  have obs': "observe b (seen b' l c) = seen (b' \<or> b) l c" "log_event ev (seen b' l c) = seen b' (l @ [ev]) c" for b b' l ev
    by (simp_all add: observe_def seen_def log_event_def)
  show thesis
    using assms that
    by (auto simp: Let_def obs obs' dial_log_def split: if_splits option.splits wait_end.splits sum.splits prod.splits)
qed

lemma reconnect_loop_inv:
  assumes "reconnect_loop es attempt wait maxInterval failed c = Some (res, c')" and "dials_ok es"
    and "client_inv c" and "all_closed c"
  shows "client_inv c' \<and> (case res of Inl e \<Rightarrow> cl_s c' = cl_s c \<and> all_closed c' | Inr r \<Rightarrow> cl_s c' = Some r)"
  using assms
proof (induction es arbitrary: attempt wait c)
  case (Cons e es)
  have "\<forall>s. handshake_step\<^sup>*\<^sup>* s (de_during (sv_session (ae_dial e)) s)" and es: "dials_ok es"
    using Cons.prems(2) by (auto simp: dials_ok_def)
  note dial = dialSession_inv [OF this(1), THEN conjunct1]
  from Cons.prems(1) show ?case
  proof (cases rule: attempt_cases)
    case (stopped b l err)
    then show ?thesis using Cons.prems by simp
  next
    case (discarded b cs r c1 err)
    then show ?thesis using discard_inv [OF _ _ dial, of "seen b (dial_log wait) c"] Cons.prems by simp
  next
    case (installed b cs r c1)
    then show ?thesis using install_session_inv [OF _ _ dial, of "seen b (dial_log wait) c"] Cons.prems by simp
  next
    case (again err)
    from Cons.IH [OF again(4) es] show ?thesis using Cons.prems(3,4) by (cases res) simp_all
  qed
qed simp

lemma check_surrender_views:
  assumes "check_surrender now failed c = (err, c')"
  shows "cl_at c' = cl_at c" "cl_s c' = cl_s c" "cl_next c' = cl_next c" "cl_ingressHandler c' = cl_ingressHandler c"
    "cl_dispatched c' = cl_dispatched c" "cl_closed c' = cl_closed c" "cl_cfg c' = cl_cfg c" "cl_log c' = cl_log c"
    "cl_cumStats c' = cl_cumStats c" "client_inv c' = client_inv c"
proof -
  show v: "cl_at c' = cl_at c" "cl_s c' = cl_s c" "cl_next c' = cl_next c" "cl_ingressHandler c' = cl_ingressHandler c"
    "cl_dispatched c' = cl_dispatched c" "cl_closed c' = cl_closed c" "cl_cfg c' = cl_cfg c" "cl_log c' = cl_log c"
    "cl_cumStats c' = cl_cumStats c"
    using assms by (auto simp: check_surrender_def Let_def split: option.splits if_splits prod.splits)
  show "client_inv c' = client_inv c" by (simp add: client_inv_def v)
qed

text \<open>A reconnect that gets past its checks runs the loop on a client whose sessions are all closed.\<close>

lemma reconnectInstall_cases [consumes 2, case_names refused stale surrendered looped]:
  assumes "reconnectInstall es now written failed delay c = Some (res, c')" and "client_inv c"
  obtains (refused) e where "res = Inl e" "c' = c"
  | (stale) "res = Inr None" "c' = c"
  | (surrendered) e where "res = Inl e" "check_surrender now failed c = (Some e, c')"
  | (looped) f c1 c2 m lres where "failed = Some f" "cl_s c = Some f" "check_surrender now failed c = (None, c1)"
      "c2 = close_session written f c1" "client_inv c2" "all_closed c2" "cl_s c2 = Some f" "\<not> cl_closed c"
      "m = (if cc_ReconnectMaxInterval (cl_cfg c) \<le> 0 then 60 * sec else cc_ReconnectMaxInterval (cl_cfg c))"
      "reconnect_loop es 1 delay m failed c2 = Some (lres, c')" "res = map_sum id Some lres"
proof -
  have loop: thesis
    if ok: "\<not> cl_closed c" "\<not> (cl_s c \<noteq> None \<and> cl_s c \<noteq> failed)" and c1: "check_surrender now failed c = (None, c1)"
      and run: "reconnect_loop es 1 delay (if cc_ReconnectMaxInterval (cl_cfg c1) \<le> 0 then 60 * sec else cc_ReconnectMaxInterval (cl_cfg c1))
        failed (case failed of None \<Rightarrow> c1 | Some f \<Rightarrow> close_session written f c1) = Some (lres, c')"
      and res: "res = map_sum id Some lres" for c1 lres
  proof -
    obtain f cs where f: "failed = Some f" "cl_s c = Some f" "cl_at c f = Some cs"
      using assms(2) ok(2) by (auto simp: client_inv_def)
    note v = check_surrender_views [OF c1]
    have "client_inv (close_session written f c1)"
      using close_session_inv [of c1 f cs written] v assms(2) f(3) by simp
    moreover have "all_closed (close_session written f c1)"
      using assms(2) f v unfolding all_closed_def client_inv_def close_session_def by auto
    moreover have "cl_s (close_session written f c1) = Some f" using v f by (simp add: close_session_def)
    ultimately show thesis using looped [OF f(1,2) c1 refl _ _ _ ok(1) refl _ res] run [unfolded v(7)] f(1) by simp
  qed
  show thesis
    using assms(1) refused stale surrendered loop
    by (auto simp: reconnectInstall_def Let_def split: if_splits prod.splits option.splits sum.splits)
qed

lemma reconnectInstall_inv:
  assumes "reconnectInstall es now written failed delay c = Some (res, c')" and "client_inv c" and "dials_ok es"
  shows "client_inv c'"
  using assms(1,2)
proof (cases rule: reconnectInstall_cases)
  case (surrendered e)
  then show ?thesis using check_surrender_views(10) assms(2) by blast
next
  case (looped f c1 c2 m lres)
  then show ?thesis using reconnect_loop_inv [OF looped(10) assms(3)] by simp
qed (use assms in simp_all)

lemma apply_handler_inv:
  assumes "client_inv (c\<lparr>cl_ingressHandler := None\<rparr>)" and "h \<or> cl_ingressHandler c = None"
  shows "client_inv (apply_handler h c)"
proof -
  obtain r cs where r: "cl_s c = Some r" "cl_at c r = Some cs" using assms(1) by (auto simp: client_inv_def)
  have "session_inv (SetIngressHandler h (cs_session cs))" "se_closed (SetIngressHandler h (cs_session cs)) = se_closed (cs_session cs)"
    using assms(1) r later_step [OF session_step.handler, of "cs_session cs" h] by (auto simp: client_inv_def later_def SetIngressHandler_def)
  moreover have "se_handler (SetIngressHandler h (cs_session cs)) = h" by (simp add: SetIngressHandler_def)
  ultimately show ?thesis
    using assms r unfolding client_inv_def apply_handler_def by (auto simp: session_of_def)
qed

lemma client_inv_no_handler: "client_inv c \<Longrightarrow> client_inv (c\<lparr>cl_ingressHandler := None\<rparr>)"
  by (auto simp: client_inv_def)

lemma client_step_inv:
  assumes "client_step c c'" and "client_inv c"
  shows "client_inv c'"
  using assms
proof (induction rule: client_step.induct)
  case (session c r cs t)
  then show ?case by (intro put_session_inv [of _ r cs] later_step) auto
next
  case (reconnect es now written failed delay c res c')
  then show ?case using reconnectInstall_inv by blast
next
  case (hooks c r)
  then show ?case
    by (auto simp: fireHooksFor_def FireOnReconnect_def client_inv_def sorted_append)
next
  case (hook_on c)
  then show ?case by (fastforce simp: OnReconnect_def client_inv_def Let_def)
next
  case (hook_off c h)
  then show ?case by (simp add: detach_hook_def client_inv_def)
next
  case (handler_on c h)
  have "client_inv (c\<lparr>cl_next := Suc (cl_next c), cl_ingressHandler := None\<rparr>)"
    using handler_on by (fastforce simp: client_inv_def)
  then show ?case
    using apply_handler_inv [of "c\<lparr>cl_ingressHandler := None\<rparr>" False] client_inv_no_handler [OF handler_on]
      apply_handler_inv [of "c\<lparr>cl_next := Suc (cl_next c), cl_ingressHandler := Some (cl_next c)\<rparr>" True]
    by (simp add: Client_SetIngressHandler_def store_handler_def Let_def)
next
  case (handler_off c token)
  then show ?case
    using apply_handler_inv [of "c\<lparr>cl_ingressHandler := None\<rparr>" False] client_inv_no_handler [OF handler_off]
    by (simp add: detach_handler_def detach_cas_def)
next
  case (restart c why)
  then obtain r cs where r: "cl_s c = Some r" "cl_at c r = Some cs" by (auto simp: client_inv_def)
  have "later (cs_session cs) (RequestRestart why (cs_session cs))" by (rule later_step [OF session_step.restart])
  moreover have "se_handler (RequestRestart why s) = se_handler s" for s
    by (simp add: RequestRestart_def closeAsync_def setCloseErr_def Let_def split: option.splits)
  ultimately show ?case
    using put_session_inv [OF restart r(2), of "RequestRestart why (cs_session cs)"] restart r
    by (simp add: Client_RequestRestart_def session_of_def)
next
  case (close_begin c)
  then show ?case by (simp add: Close_begin_def client_inv_def)
next
  case (close_finish c written)
  then obtain r cs where "cl_s c = Some r" "cl_at c r = Some cs" by (auto simp: client_inv_def)
  then show ?case using close_session_inv close_finish by (simp add: Close_finish_def)
qed

lemma client_steps_inv: "client_step\<^sup>*\<^sup>* c c' \<Longrightarrow> client_inv c \<Longrightarrow> client_inv c'"
  by (induction rule: rtranclp_induct) (auto intro: client_step_inv)

lemma Client_Dial_inv:
  assumes "Client_Dial env now cfg = Inr c" and "\<forall>s. handshake_step\<^sup>*\<^sup>* s (de_during (sv_session env) s)"
  shows "client_inv c"
proof -
  obtain cs cfg' where "dialSession env cfg' = Inr cs" and c: "cl_at c = [0 \<mapsto> cs]" "cl_s c = Some 0" "cl_next c = 1"
    "cl_ingressHandler c = None" "cl_dispatched c = []"
    using assms(1) by (auto simp: Client_Dial_def rbind_eq_Inr split: option.splits)
  then show ?thesis using dialSession_inv [OF assms(2)] by (auto simp: client_inv_def)
qed


section \<open>No orphans, and closing is final\<close>

lemma closed_for_good:
  assumes "client_step c c'" and "client_inv c" "cl_closed c" "all_closed c"
  shows "client_inv c' \<and> cl_closed c' \<and> all_closed c'"
proof -
  have "cl_closed c' \<and> all_closed c'"
    using assms
  proof (induction rule: client_step.induct)
    case (session c r cs t)
    then have "se_closed t" using session_step_closed by (fastforce simp: client_inv_def all_closed_def)
    with session show ?case by (simp add: all_closed_def)
  next
    case (handler_on c h)
    then show ?case
      by (auto simp: Client_SetIngressHandler_def store_handler_def apply_handler_def all_closed_def Let_def session_of_def
          SetIngressHandler_def client_inv_def split: option.splits if_splits)
  next
    case (handler_off c token)
    then show ?case
      by (auto simp: detach_handler_def detach_cas_def apply_handler_def all_closed_def session_of_def
          SetIngressHandler_def client_inv_def split: option.splits if_splits)
  next
    case (close_finish c written)
    then show ?case by (auto simp: Close_finish_def close_session_def all_closed_def split: option.splits)
  qed (auto simp: reconnectInstall_def fireHooksFor_def OnReconnect_def detach_hook_def Client_RequestRestart_def Close_begin_def
      all_closed_def Let_def)
  then show ?thesis using client_step_inv [OF assms(1,2)] by simp
qed

lemma closed_steps:
  assumes "client_step\<^sup>*\<^sup>* c c'" and "client_inv c" "cl_closed c" "all_closed c"
  shows "client_inv c' \<and> cl_closed c' \<and> all_closed c'"
  using assms by (induction rule: rtranclp_induct) (auto dest: closed_for_good)

lemma close_finish_all:
  assumes "client_inv c" and "cl_closed c"
  shows "client_inv (Close_finish written c)" and "cl_closed (Close_finish written c)" and "all_closed (Close_finish written c)"
proof -
  show "client_inv (Close_finish written c)" using client_step_inv [OF client_step.close_finish [OF assms(2)] assms(1)] .
  from assms(1) obtain r cs where "cl_s c = Some r" "cl_at c r = Some cs"
      "\<forall>r' cs'. cl_at c r' = Some cs' \<longrightarrow> r' \<noteq> r \<longrightarrow> se_closed (cs_session cs')"
    by (auto simp: client_inv_def)
  then show "cl_closed (Close_finish written c)" "all_closed (Close_finish written c)"
    using assms(2) by (auto simp: Close_finish_def close_session_def all_closed_def)
qed

text \<open>The clients there can be: dialled, and run since.\<close>

definition client_reach :: "Client \<Rightarrow> bool" where
  "client_reach c \<longleftrightarrow> (\<exists>env now cfg c0. Client_Dial env now cfg = Inr c0 \<and>
     (\<forall>s. handshake_step\<^sup>*\<^sup>* s (de_during (sv_session env) s)) \<and> client_step\<^sup>*\<^sup>* c0 c)"

lemma client_reach_inv: "client_reach c \<Longrightarrow> client_inv c"
  using client_steps_inv Client_Dial_inv by (auto simp: client_reach_def)


section \<open>Bounded, backed-off reconnects\<close>

lemma backoffDelay_value:
  assumes "1 \<le> attempt" and "0 < m"
  shows "backoffDelay attempt m = min (2 ^ nat (min (attempt - 1) 30) * sec) m"
proof -
  let ?k = "nat (min (attempt - 1) 30)"
  have "(2 :: int) ^ ?k \<le> 2 ^ 30" by (rule power_increasing) auto
  then have "2 ^ ?k * sec \<le> 2 ^ 30 * sec" by (simp add: sec_def)
  then have "2 ^ ?k * sec < 2 ^ 63" by (simp add: sec_def)
  moreover have "0 < 2 ^ ?k * sec" by (simp add: sec_def)
  ultimately have "int64 (2 ^ ?k * sec) = 2 ^ ?k * sec" by (intro int64_id) simp_all
  then show ?thesis
    using assms \<open>0 < 2 ^ ?k * sec\<close> by (simp add: backoffDelay_def Let_def push_bit_eq_mult mult.commute)
qed

definition waits_ok :: "int \<Rightarrow> int \<Rightarrow> reconnect_event list \<Rightarrow> bool" where
  "waits_ok first m l \<longleftrightarrow> (\<forall>w. Waited w \<in> set l \<longrightarrow> w = first \<or> sec \<le> w \<and> w \<le> m \<or> w = m)"

definition dials :: "reconnect_event list \<Rightarrow> nat" where
  "dials l = length (filter (\<lambda>e. e = Dialled) l)"

lemma dial_log_simps: "dials (dial_log w) = 1" "waits_ok first m (dial_log w) \<longleftrightarrow> w \<le> 0 \<or> w = first \<or> sec \<le> w \<and> w \<le> m \<or> w = m"
  by (auto simp: dials_def dial_log_def waits_ok_def)

lemma dials_append [simp]: "dials (k @ l) = dials k + dials l" by (simp add: dials_def)

lemma waits_ok_append [simp]: "waits_ok f m (k @ l) \<longleftrightarrow> waits_ok f m k \<and> waits_ok f m l" by (auto simp: waits_ok_def)

lemma reconnect_wait_bounds: "1 \<le> attempt \<Longrightarrow> 0 < m \<Longrightarrow> sec \<le> backoffDelay attempt m \<and> backoffDelay attempt m \<le> m \<or> backoffDelay attempt m = m"
proof -
  assume a: "1 \<le> attempt" "0 < m"
  have "1 * sec \<le> 2 ^ nat (min (attempt - 1) 30) * sec" by (rule mult_right_mono) (simp_all add: sec_def)
  then show ?thesis using backoffDelay_value [OF a] by (simp add: min_def)
qed

lemma reconnect_loop_log:
  assumes "reconnect_loop es attempt wait m failed c = Some (res, c')" and "1 \<le> attempt" and "0 < m"
  shows "\<exists>l. cl_log c' = cl_log c @ l \<and> waits_ok wait m l \<and>
    (0 < cc_ReconnectMaxAttempts (cl_cfg c) \<longrightarrow> attempt \<le> cc_ReconnectMaxAttempts (cl_cfg c) \<longrightarrow>
      int (dials l) \<le> cc_ReconnectMaxAttempts (cl_cfg c) - attempt + 1)"
  using assms
proof (induction es arbitrary: attempt wait c)
  case (Cons e es)
  note new = new_session_def Let_def
  have one: "\<exists>l. cl_log c' = cl_log c @ l \<and> waits_ok wait m l \<and> dials l \<le> 1"
    if "cl_log c' = cl_log c @ l" "l = [] \<or> l = [Waited wait] \<or> l = dial_log wait" for l
    using that by (intro exI [of _ l]) (auto simp: dial_log_simps waits_ok_def dials_def dial_log_def)
  from Cons.prems(1) show ?case
  proof (cases rule: attempt_cases)
    case (stopped b l err)
    then show ?thesis using one [of l] Cons.prems(2) by fastforce
  next
    case (discarded b cs r c1 err)
    then have "cl_log c' = cl_log c @ dial_log wait" by (auto simp: new close_session_def)
    then show ?thesis using one [of "dial_log wait"] Cons.prems(2) by fastforce
  next
    case (installed b cs r c1)
    then have "cl_log c' = cl_log c @ dial_log wait" by (auto simp: new install_session_views)
    then show ?thesis using one [of "dial_log wait"] Cons.prems(2) by fastforce
  next
    case (again err)
    let ?c = "seen False (dial_log wait) c"
    obtain l where l: "cl_log c' = cl_log ?c @ l" "waits_ok (backoffDelay attempt m) m l"
      "0 < cc_ReconnectMaxAttempts (cl_cfg c) \<Longrightarrow> attempt + 1 \<le> cc_ReconnectMaxAttempts (cl_cfg c) \<Longrightarrow>
        int (dials l) \<le> cc_ReconnectMaxAttempts (cl_cfg c) - (attempt + 1) + 1"
      using Cons.IH [OF again(4)] Cons.prems(2,3) by auto
    have "waits_ok wait m (dial_log wait @ l)"
      using l(2) reconnect_wait_bounds [OF Cons.prems(2,3)] by (auto simp: waits_ok_def dial_log_def)
    then show ?thesis
      using l again(3) by (intro exI [of _ "dial_log wait @ l"]) (auto simp: dial_log_simps)
  qed
qed simp


lemma reconnect_loop_returns:
  assumes "0 < cc_ReconnectMaxAttempts (cl_cfg c)" and "attempt \<le> cc_ReconnectMaxAttempts (cl_cfg c)"
    and "int (length es) \<ge> cc_ReconnectMaxAttempts (cl_cfg c) - attempt + 1"
  shows "reconnect_loop es attempt wait m failed c \<noteq> None"
  using assms
proof (induction es arbitrary: attempt wait c)
  case (Cons e es)
  then have "reconnect_loop es (attempt + 1) w m failed c' \<noteq> None"
    if "attempt < cc_ReconnectMaxAttempts (cl_cfg c)" "cl_cfg c' = cl_cfg c" for w c'
    using that Cons.IH [of c' "attempt + 1"] by simp
  then show ?case
    using Cons.prems(1)
    by (auto simp: Let_def log_event_def observe_def split: option.splits wait_end.splits sum.splits prod.splits)
qed simp

lemma reconnectInstall_eq:
  assumes "\<And>c2 m. cl_cfg c2 = cl_cfg c \<Longrightarrow> reconnect_loop es 1 delay m failed c2 = reconnect_loop es' 1 delay m failed c2"
  shows "reconnectInstall es now written failed delay c = reconnectInstall es' now written failed delay c"
proof (cases "check_surrender now failed c")
  case (Pair x c1)
  have "cl_cfg (case failed of None \<Rightarrow> c1 | Some f \<Rightarrow> close_session written f c1) = cl_cfg c"
    using check_surrender_views(7) [OF Pair] by (simp add: close_session_def split: option.split)
  note eq = assms [OF this]
  show ?thesis unfolding reconnectInstall_def Pair prod.case Let_def eq by (rule refl)
qed

lemma reconnectInstall_returns:
  assumes "\<And>c2 m. cl_cfg c2 = cl_cfg c \<Longrightarrow> reconnect_loop es 1 delay m failed c2 \<noteq> None"
  shows "reconnectInstall es now written failed delay c \<noteq> None"
proof (cases "check_surrender now failed c")
  case (Pair x c1)
  have "cl_cfg (case failed of None \<Rightarrow> c1 | Some f \<Rightarrow> close_session written f c1) = cl_cfg c"
    using check_surrender_views(7) [OF Pair] by (simp add: close_session_def split: option.split)
  note ret = assms [OF this]
  obtain lr c' where L: "reconnect_loop es 1 delay (if cc_ReconnectMaxInterval (cl_cfg c1) \<le> 0 then 60 * sec else cc_ReconnectMaxInterval (cl_cfg c1))
      failed (case failed of None \<Rightarrow> c1 | Some f \<Rightarrow> close_session written f c1) = Some (lr, c')"
    using ret by (metis not_None_eq prod.exhaust)
  show ?thesis
    unfolding reconnectInstall_def Pair prod.case Let_def L by (cases x; cases lr) simp_all
qed

lemma auth_failure_stops:
  fixes e :: attempt_env
  assumes "dialSession (ae_dial e) (cl_cfg c) = Inl err" and "is_auth_failed err"
  shows "reconnect_loop (e # es) attempt wait m failed c = reconnect_loop [e] attempt wait m failed c \<and>
    reconnect_loop [e] attempt wait m failed c \<noteq> None"
  using assms by (auto simp: Let_def observe_def log_event_def split: option.split wait_end.split)

text \<open>
  C15. Reconnecting is bounded and backed off. With a limit of \<open>n\<close> attempts, \<open>reconnectInstall\<close> always
  returns - within \<open>n\<close> attempts, whatever they meet - and dials at most \<open>n\<close> times. With or without a
  limit, each wait is either the delay the server asked for or lies between one second and the
  configured cap (or is the cap). An authentication failure ends the reconnect at once: whatever
  would come after it is never tried.
\<close>

theorem reconnect_bounded:
  assumes "client_reach c"
    and "m = (if cc_ReconnectMaxInterval (cl_cfg c) \<le> 0 then 60 * sec else cc_ReconnectMaxInterval (cl_cfg c))"
  shows "(0 < cc_ReconnectMaxAttempts (cl_cfg c) \<and> cc_ReconnectMaxAttempts (cl_cfg c) \<le> int (length es) \<longrightarrow>
      reconnectInstall es now written failed delay c \<noteq> None) \<and>
    (\<forall>res c'. reconnectInstall es now written failed delay c = Some (res, c') \<longrightarrow>
      (\<exists>l. cl_log c' = cl_log c @ l \<and> waits_ok delay m l \<and>
        (0 < cc_ReconnectMaxAttempts (cl_cfg c) \<longrightarrow> int (dials l) \<le> cc_ReconnectMaxAttempts (cl_cfg c)))) \<and>
    (\<forall>e :: attempt_env. \<forall>err. dialSession (ae_dial e) (cl_cfg c) = Inl err \<longrightarrow> is_auth_failed err \<longrightarrow>
      reconnectInstall (e # es) now written failed delay c = reconnectInstall [e] now written failed delay c \<and>
      reconnectInstall [e] now written failed delay c \<noteq> None)"
proof (intro conjI allI impI)
  assume lim: "0 < cc_ReconnectMaxAttempts (cl_cfg c) \<and> cc_ReconnectMaxAttempts (cl_cfg c) \<le> int (length es)"
  show "reconnectInstall es now written failed delay c \<noteq> None"
    by (rule reconnectInstall_returns) (use lim reconnect_loop_returns [where es = es and attempt = 1] in simp)
next
  fix res c' assume "reconnectInstall es now written failed delay c = Some (res, c')"
  then show "\<exists>l. cl_log c' = cl_log c @ l \<and> waits_ok delay m l \<and>
      (0 < cc_ReconnectMaxAttempts (cl_cfg c) \<longrightarrow> int (dials l) \<le> cc_ReconnectMaxAttempts (cl_cfg c))"
    using client_reach_inv [OF assms(1)]
  proof (cases rule: reconnectInstall_cases)
    case (surrendered e)
    then show ?thesis using check_surrender_views(8) by (auto simp: waits_ok_def dials_def)
  next
    case (looped f c1 c2 m' lres)
    then have "cl_cfg c2 = cl_cfg c" "cl_log c2 = cl_log c" "0 < m'"
      using check_surrender_views [OF looped(3)] by (auto simp: close_session_def sec_def)
    then show ?thesis using reconnect_loop_log [OF looped(10)] looped(9) assms(2) by auto
  qed (auto simp: waits_ok_def dials_def)
next
  fix e :: attempt_env and err assume "dialSession (ae_dial e) (cl_cfg c) = Inl err" "is_auth_failed err"
  then have *: "reconnect_loop (e # es) 1 delay m failed c2 = reconnect_loop [e] 1 delay m failed c2"
    "reconnect_loop [e] 1 delay m failed c2 \<noteq> None" if "cl_cfg c2 = cl_cfg c" for c2 m
    using auth_failure_stops [of e c2 err] that by simp_all
  show "reconnectInstall (e # es) now written failed delay c = reconnectInstall [e] now written failed delay c"
    by (rule reconnectInstall_eq) (rule *(1))
  show "reconnectInstall [e] now written failed delay c \<noteq> None"
    by (rule reconnectInstall_returns) (rule *(2))
qed

section \<open>Statistics\<close>

lemma Session_Stats_frame [simp]:
  "Session_Stats (put_layer r l s) = Session_Stats s" "Session_Stats (put_conn k y s) = Session_Stats s"
  "Session_Stats (s\<lparr>se_layers := v1\<rparr>) = Session_Stats s" "Session_Stats (s\<lparr>se_closePhase := v2\<rparr>) = Session_Stats s"
  "Session_Stats (s\<lparr>se_workers := v3\<rparr>) = Session_Stats s" "Session_Stats (s\<lparr>se_tlsConn := v4\<rparr>) = Session_Stats s"
  "Session_Stats (s\<lparr>se_transportClosed := v5\<rparr>) = Session_Stats s" "Session_Stats (s\<lparr>se_closed := v6\<rparr>) = Session_Stats s"
  "Session_Stats (s\<lparr>se_handler := v7\<rparr>) = Session_Stats s"
  by (simp_all add: Session_Stats_def put_layer_def put_conn_def)

lemma Session_Stats_closes [simp]:
  "Session_Stats (close_layer r s) = Session_Stats s" "Session_Stats (close_conn k s) = Session_Stats s"
  "Session_Stats (retireLayer kid s) = Session_Stats s" "Session_Stats (shutdown_workers s) = Session_Stats s"
  "Session_Stats (shutdown_kid n s) = Session_Stats s" "Session_Stats (shutdown_conn s) = Session_Stats s"
  "Session_Stats (sendExitNotifyBestEffort written s) = Session_Stats s"
proof -
  show cl: "Session_Stats (close_layer r s) = Session_Stats s" for r s by (simp add: close_layer_def Let_def)
  show cc: "Session_Stats (close_conn k s) = Session_Stats s" for k s by (simp add: close_conn_def Let_def cl)
  show rl: "Session_Stats (retireLayer kid s) = Session_Stats s" by (simp add: retireLayer_def cl split: prod.splits option.splits)
  show "Session_Stats (shutdown_workers s) = Session_Stats s" by (simp add: shutdown_workers_def)
  show "Session_Stats (shutdown_kid n s) = Session_Stats s"
    by (simp add: shutdown_kid_def retireLayer_def cl split: prod.splits option.splits)
  show "Session_Stats (shutdown_conn s) = Session_Stats s" by (simp add: shutdown_conn_def cc Let_def split: option.splits)
  show "Session_Stats (sendExitNotifyBestEffort written s) = Session_Stats s"
    by (simp add: sendExitNotifyBestEffort_def Let_def split: option.splits)
qed

lemma Session_Close_stats [simp]: "Session_Stats (Session_Close written s) = Session_Stats s"
proof -
  have "Session_Stats (foldl (\<lambda>s n. shutdown_kid n s) t ns) = Session_Stats t" for t ns
    by (induction ns arbitrary: t) simp_all
  then show ?thesis by (simp add: Session_Close_def shutdown_def Session_Close_enter_def)
qed

definition counters :: "('a) Stats_scheme \<Rightarrow> u64 list" where
  "counters st = [st_Forwarded st, st_DroppedFull st, st_PingIn st, st_OpenFailed st, st_StrayHandshake st, st_HardResetIn st]"

text \<open>What the client's statistics add up to, over the sessions absorbed and the current one.\<close>

lemma counters_Client_Stats:
  "cl_s c = Some r \<Longrightarrow>
   counters (Client_Stats c) = map2 (+) (counters (cl_cumStats c)) (counters (Session_Stats (cs_session (session_of c r))))"
  by (simp add: Client_Stats_def counters_def Let_def)

lemma counters_install:
  "counters (cl_cumStats (install_session now (Some f) r c)) =
     map2 (+) (counters (cl_cumStats c)) (counters (Session_Stats (cs_session (session_of c f))))"
  "st_Reconnects (cl_cumStats (install_session now (Some f) r c)) = st_Reconnects (cl_cumStats c) + 1"
  by (simp_all add: install_session_def absorbStatsLocked_def foldStatsLocked_def counters_def Let_def)

lemma reconnect_loop_stats:
  assumes "reconnect_loop es attempt wait m (Some f) c = Some (Inr r, c')" and "client_inv c" and "cl_at c f \<noteq> None"
  shows "counters (cl_cumStats c') = map2 (+) (counters (cl_cumStats c)) (counters (Session_Stats (cs_session (session_of c f)))) \<and>
    st_Reconnects (cl_cumStats c') = st_Reconnects (cl_cumStats c) + 1 \<and> cl_s c' = Some r"
  using assms
proof (induction es arbitrary: attempt wait c)
  case (Cons e es)
  from Cons.prems(1) show ?case
  proof (cases rule: attempt_cases)
    case (installed b cs r' c1)
    have "f < cl_next c" using Cons.prems(2,3) by (auto simp: client_inv_def)
    then show ?thesis
      using installed counters_install [of "ae_now e" f r' c1] install_session_views(1)
      by (auto simp: new_session_def Let_def session_of_def)
  next
    case (again err)
    then show ?thesis using Cons.IH [OF again(4)] Cons.prems by simp
  qed auto
qed simp

text \<open>
  Statistics survive reconnects: right after a reconnect every packet counter of the client is
  what it was before plus what the new session has counted so far (modulo \<open>2^64\<close>, the width of the
  counters), so that nothing the failed session counted is lost or counted twice, and the number of
  reconnects has gone up by one.
\<close>

lemma stats_continue:
  assumes "reconnectInstall es now written failed delay c = Some (Inr (Some r), c')" and "client_reach c"
  shows "counters (Client_Stats c') = map2 (+) (counters (Client_Stats c)) (counters (Session_Stats (cs_session (session_of c' r)))) \<and>
    st_Reconnects (Client_Stats c') = st_Reconnects (Client_Stats c) + 1"
  using assms(1) client_reach_inv [OF assms(2)]
proof (cases rule: reconnectInstall_cases)
  case (looped f c1 c2 m lres)
  note v = check_surrender_views [OF looped(3)]
  have lr: "lres = Inr r" using looped(11) by (cases lres) simp_all
  have at: "cl_at c2 f \<noteq> None" using looped(4) by (simp add: close_session_def)
  have run: "reconnect_loop es 1 delay m (Some f) c2 = Some (Inr r, c')" using looped(1,10) lr by simp
  have c2: "cl_cumStats c2 = cl_cumStats c" "Session_Stats (cs_session (session_of c2 f)) = Session_Stats (cs_session (session_of c f))"
    using looped(4) v by (simp_all add: close_session_def session_of_def)
  have rec: "st_Reconnects (Client_Stats x) = st_Reconnects (cl_cumStats x)" for x
    by (simp add: Client_Stats_def Let_def split: option.split)
  show ?thesis
    using reconnect_loop_stats [OF run looped(5) at] counters_Client_Stats [OF looped(2)] counters_Client_Stats [of c' r]
    unfolding c2 rec by simp
qed simp_all

section \<open>Surrender\<close>

text \<open>A session that died of a data stall before it was stable.\<close>

fun short_stall :: "int \<Rightarrow> int \<times> session_error option \<Rightarrow> bool" where
  "short_stall threshold (lifetime, closeErr) \<longleftrightarrow>
     (\<exists>delay. closeErr = Some (RestartError delay ''data-activity stuck'')) \<and>
     lifetime < (if threshold \<le> 0 then 60 * sec else threshold)"

definition stall_run :: "int \<Rightarrow> (int \<times> session_error option) list \<Rightarrow> nat" where
  "stall_run threshold history = length (takeWhile (short_stall threshold) (rev history))"

lemma decideStallSurrender_eq:
  "0 < maxStalls \<Longrightarrow> decideStallSurrender lifetime closeErr n maxStalls threshold =
     (if short_stall threshold (lifetime, closeErr) then (n + 1, maxStalls \<le> sint (n + 1)) else (0, False))"
  by (auto simp: decideStallSurrender_def stallRestartReason_def defaultStableSessionThreshold_def Let_def
      split: option.splits session_error.splits)

lemma sint_of_nat_small: "n < 2 ^ 31 \<Longrightarrow> sint (of_nat n :: 32 word) = int n"
  by (simp add: signed_of_nat signed_take_bit_int_eq_self)

text \<open>
  C16. The client gives up exactly when it should: over any history of failed sessions (each with its
  lifetime and the error that closed it), the counter \<open>decideStallSurrender\<close> hands from one failure to
  the next is the number of failures at the end of the history that are short-lived data stalls
  without any other failure in between, and it asks for surrender after the last failure if and
  only if that number has reached the limit. A stable session, or a failure of any other kind,
  starts the count anew.
\<close>

theorem surrender_exact:
  assumes "0 < maxStalls" and "length history < 2 ^ 31"
  shows "foldl (\<lambda>(n, _) (lifetime, closeErr). decideStallSurrender lifetime closeErr n maxStalls threshold) (0, False) history =
    (of_nat (stall_run threshold history), maxStalls \<le> int (stall_run threshold history))"
  using assms(2)
proof (induction history rule: rev_induct)
  case Nil
  then show ?case using assms(1) by (simp add: stall_run_def)
next
  case (snoc x history)
  obtain lifetime closeErr where x: "x = (lifetime, closeErr)" by (cases x)
  have "stall_run threshold history \<le> length history" unfolding stall_run_def by (metis length_rev length_takeWhile_le)
  then have "sint (of_nat (Suc (stall_run threshold history)) :: 32 word) = int (Suc (stall_run threshold history))"
    using snoc.prems by (intro sint_of_nat_small) simp
  moreover have "stall_run threshold (history @ [x]) = (if short_stall threshold x then Suc (stall_run threshold history) else 0)"
    by (simp add: stall_run_def)
  ultimately show ?case
    using snoc assms(1) by (auto simp: x decideStallSurrender_eq add.commute)
qed

theorem surrender_exact_witness:
  "foldl (\<lambda>(n, _) (lifetime, closeErr). decideStallSurrender lifetime closeErr n 2 0) (0, False)
     [(20 * sec, Some (RestartError 0 ''data-activity stuck'')), (70 * sec, Some (RestartError 0 ''data-activity stuck'')),
      (20 * sec, Some (RestartError 5 ''data-activity stuck'')), (25 * sec, Some (RestartError 0 ''data-activity stuck''))] = (2, True)"
  by (subst surrender_exact) (simp_all add: stall_run_def sec_def)

section \<open>Hooks\<close>

text \<open>
  Reconnect hooks never see stale options: the sessions hooks were ever dispatched for come in the
  order they were installed and none is newer than the current one; and a dispatch either calls
  every registered hook once, in registration order, with the options of the current session, or,
  when the client is closed or its session has been superseded meanwhile, calls none.
\<close>

lemma hooks_in_order:
  assumes "client_reach c"
  shows "sorted (cl_dispatched c) \<and> (\<forall>d \<in> set (cl_dispatched c). \<exists>r. cl_s c = Some r \<and> d \<le> r) \<and>
    cl_fired (fireHooksFor s c) = cl_fired c @
      (if \<not> cl_closed c \<and> cl_s c = Some s then map (\<lambda>h. (h, PushedOptions c)) (cl_onReconnect c) else [])"
  using client_reach_inv [OF assms]
  by (auto simp: client_inv_def fireHooksFor_def FireOnReconnect_def PushedOptions_def)

text \<open>
  A detach that is overtaken between its compare-and-swap and the call on the session takes the
  handler away from the consumer that registered in between: the client holds its token, the
  session does not call it.
\<close>

lemma detach_overtaken:
  assumes "cl_ingressHandler c = Some token" and "cl_s c = Some r" and "cl_at c r = Some cs"
    and "detach_cas token c = (ok, c1)" and "Client_SetIngressHandler True c1 = (token', c2)"
  shows "ok \<and> token' \<noteq> None \<and> cl_ingressHandler (apply_handler False c2) = token' \<and>
    \<not> se_handler (cs_session (session_of (apply_handler False c2) r))"
  using assms
  by (auto simp: detach_cas_def Client_SetIngressHandler_def store_handler_def apply_handler_def SetIngressHandler_def Let_def)

section \<open>A client to try these on\<close>

definition demo_client_cfg :: ClientConfig where
  "demo_client_cfg = \<lparr>cc_Network = ''udp'', cc_RemoteAddr = ''192.0.2.1:1194'', cc_DialTransport = False, cc_Scramble = None,
     cc_TLSConfig = True, cc_Username = '''', cc_Password = '''', cc_TLSCryptV1 = replicate 256 0, cc_TLSCryptV2 = [],
     cc_TLSAuth = [], cc_Auth = ''SHA1'', cc_KeyDirection = 0, cc_PeerInfoExtra = [], cc_Ciphers = [''AES-256-GCM''], cc_Reneg = 3600 * sec,
     cc_AutoReconnect = True, cc_ReconnectMaxAttempts = 1, cc_ReconnectMaxInterval = 0, cc_MaxConsecutiveStalls = 0,
     cc_StableSessionThreshold = 0, cc_PeerInfoVersion = ''''\<rparr>"

definition demo_session_env :: session_env where
  "demo_session_env = \<lparr>sv_custom = CustomNil, sv_udp = (\<lambda>n a. Inr ()), sv_tcp = (\<lambda>n a. Inr ()), sv_session = demo_dial\<rparr>"

definition demo_attempt :: attempt_env where
  "demo_attempt = \<lparr>ae_closed1 = False, ae_call1 = None, ae_wait = Elapsed, ae_closed2 = False, ae_dial = demo_session_env,
     ae_closed3 = False, ae_call3 = None, ae_written = True, ae_now = 7\<rparr>"

lemma demo_dialSession: "\<exists>cs. dialSession demo_session_env demo_client_cfg = Inr cs"
proof -
  have cfg: "sessionCfg demo_client_cfg = demo_dial_cfg"
    by (simp add: sessionCfg_def demo_client_cfg_def demo_dial_cfg_def demo_cfg_def)
  obtain evs s pr where d: "DialWithTransport demo_dial demo_dial_cfg = (evs, Inr (s, pr))" using demo_dials by blast
  have "dialTransport demo_session_env demo_client_cfg = Inr ()"
    by (simp add: dialTransport_def demo_client_cfg_def demo_session_env_def Dial_def)
  moreover have "sv_session demo_session_env = demo_dial" by (simp add: demo_session_env_def)
  ultimately show ?thesis by (simp add: dialSession_def Let_def cfg d)
qed

lemma demo_client:
  obtains c where "Client_Dial demo_session_env 0 (Some demo_client_cfg) = Inr c" "client_reach c" "cl_cfg c = demo_client_cfg"
    "cl_s c = Some 0" "\<not> cl_closed c" "\<not> cl_gaveUp c" "cl_log c = []"
proof -
  obtain cs where "dialSession demo_session_env demo_client_cfg = Inr cs" using demo_dialSession by blast
  moreover have "validateScramble (cc_Scramble demo_client_cfg) = None" "validateControlChannel demo_client_cfg = None"
    by (simp_all add: validateScramble_def validateControlChannel_def demo_client_cfg_def)
  ultimately obtain c where c: "Client_Dial demo_session_env 0 (Some demo_client_cfg) = Inr c" "cl_cfg c = demo_client_cfg"
    "cl_s c = Some 0" "\<not> cl_closed c" "\<not> cl_gaveUp c" "cl_log c = []"
    by (simp add: Client_Dial_def)
  moreover have "\<forall>s. handshake_step\<^sup>*\<^sup>* s (de_during (sv_session demo_session_env) s)"
    using demo_dial_during by (simp add: demo_session_env_def)
  ultimately have "client_reach c" unfolding client_reach_def by blast
  with c show thesis using that by blast
qed


lemma hooks_in_order_witness:
  "\<exists>c. Client_Dial demo_session_env 0 (Some demo_client_cfg) = Inr c \<and> sorted (cl_dispatched c)"
proof -
  obtain c where c: "Client_Dial demo_session_env 0 (Some demo_client_cfg) = Inr c" "client_reach c" by (rule demo_client)
  from hooks_in_order [OF c(2)] c(1) show ?thesis by blast
qed

theorem reconnect_bounded_witness:
  "\<exists>c res. Client_Dial demo_session_env 0 (Some demo_client_cfg) = Inr c \<and>
     reconnectInstall [demo_attempt] 9 True (cl_s c) (5 * sec) c = Some res"
proof -
  obtain c where c: "Client_Dial demo_session_env 0 (Some demo_client_cfg) = Inr c" "client_reach c" "cl_cfg c = demo_client_cfg"
    by (rule demo_client)
  from reconnect_bounded [OF c(2) refl, of "[demo_attempt]" 9 True "cl_s c" "5 * sec"] c show ?thesis
    by (auto simp: demo_client_cfg_def)
qed

lemma demo_reconnects:
  assumes "cl_cfg c = demo_client_cfg" "cl_s c = Some 0" "\<not> cl_closed c" "\<not> cl_gaveUp c"
  shows "\<exists>r c'. reconnectInstall [demo_attempt] 9 True (cl_s c) (5 * sec) c = Some (Inr (Some r), c')"
proof -
  obtain cs where cs: "dialSession (ae_dial demo_attempt) demo_client_cfg = Inr cs"
    using demo_dialSession by (auto simp: demo_attempt_def)
  have e: "\<not> ae_closed1 demo_attempt" "ae_call1 demo_attempt = None" "ae_wait demo_attempt = Elapsed" "\<not> ae_closed2 demo_attempt"
    "\<not> ae_closed3 demo_attempt" "ae_call3 demo_attempt = None" by (simp_all add: demo_attempt_def)
  have "check_surrender 9 (Some 0) c = (None, c)" using assms(1) by (simp add: check_surrender_def demo_client_cfg_def)
  then show ?thesis
    using assms cs e
    by (simp add: reconnectInstall_def Let_def close_session_def observe_def log_event_def new_session_def)
qed

lemma stats_continue_witness:
  "\<exists>c r c'. Client_Dial demo_session_env 0 (Some demo_client_cfg) = Inr c \<and>
     reconnectInstall [demo_attempt] 9 True (cl_s c) (5 * sec) c = Some (Inr (Some r), c') \<and>
     st_Reconnects (Client_Stats c') = st_Reconnects (Client_Stats c) + 1"
proof -
  obtain c where c: "Client_Dial demo_session_env 0 (Some demo_client_cfg) = Inr c" "client_reach c" "cl_cfg c = demo_client_cfg"
    "cl_s c = Some 0" "\<not> cl_closed c" "\<not> cl_gaveUp c" by (rule demo_client)
  obtain r c' where "reconnectInstall [demo_attempt] 9 True (cl_s c) (5 * sec) c = Some (Inr (Some r), c')"
    using demo_reconnects [OF c(3-6)] by blast
  with stats_continue [OF this c(2)] c(1) show ?thesis by blast
qed

end
