(* ===== verification/VpnConn.thy ===== *)
theory VpnConn
  imports ClientProperties
begin

text \<open>
  The tunnel handle of a client (\<^verbatim>\<open>conn.go\<close>): reads and writes that follow the client from session to
  session, deadlines, and the addresses it shows.

  A read or write turns round once per session it meets; each turn has its own environment, and
  \<^const>\<open>None\<close> is a call that has not returned yet.
\<close>

record tunnel =
  tn_readDeadlineNs :: int
  tn_writeDeadlineNs :: int

section \<open>Deadlines\<close>

text \<open>\<^const>\<open>None\<close> is the zero \<^verbatim>\<open>time.Time\<close>.\<close>

definition storeDeadline :: "int option \<Rightarrow> int" where
  "storeDeadline d = (case d of None \<Rightarrow> 0 | Some ns \<Rightarrow> ns)"

definition Tunnel_SetDeadline :: "int option \<Rightarrow> tunnel \<Rightarrow> tunnel" where
  "Tunnel_SetDeadline d t = t\<lparr>tn_readDeadlineNs := storeDeadline d, tn_writeDeadlineNs := storeDeadline d\<rparr>"

definition Tunnel_SetReadDeadline :: "int option \<Rightarrow> tunnel \<Rightarrow> tunnel" where
  "Tunnel_SetReadDeadline d t = t\<lparr>tn_readDeadlineNs := storeDeadline d\<rparr>"

definition Tunnel_SetWriteDeadline :: "int option \<Rightarrow> tunnel \<Rightarrow> tunnel" where
  "Tunnel_SetWriteDeadline d t = t\<lparr>tn_writeDeadlineNs := storeDeadline d\<rparr>"

text \<open>The contexts of a call: whether it is done at the time \<open>now\<close>.\<close>

definition readCtx :: "tunnel \<Rightarrow> int \<Rightarrow> bool" where
  "readCtx t now = (tn_readDeadlineNs t \<noteq> 0 \<and> tn_readDeadlineNs t \<le> now)"

definition writeCtx :: "tunnel \<Rightarrow> int \<Rightarrow> bool" where
  "writeCtx t now = (tn_writeDeadlineNs t \<noteq> 0 \<and> tn_writeDeadlineNs t \<le> now)"

text \<open>
  \<open>ctxDone\<close>: the call's own context has run out. The session returns that context's error as
  \<open>CtxError\<close>; a transport write that was cut off by it as \<open>ContextDone\<close>.
\<close>

definition isDeadlineErr :: "client_error \<Rightarrow> bool \<Rightarrow> bool" where
  "isDeadlineErr err ctxDone \<longleftrightarrow>
     err = CtxErr DeadlineExceeded \<or> err = TunnelError CtxError \<or>
     ctxDone \<and> (err = CtxErr Canceled \<or> err = TunnelError (WriteFailed ContextDone))"

section \<open>Reading and writing\<close>

text \<open>What the outside contributes to a reconnect started from here.\<close>

record reconnect_env =
  re_attempts :: "attempt_env list"
  re_now :: int
  re_written :: bool

definition maybeReconnect :: "reconnect_env \<Rightarrow> ref \<Rightarrow> session_error \<Rightarrow> Client \<Rightarrow> ((client_error option \<times> bool) \<times> Client) option" where
  "maybeReconnect env failed err c =
     (if \<not> cc_AutoReconnect (cl_cfg c) then Some ((None, False), c)
      else case err of
        RestartError delay why \<Rightarrow>
          (case reconnect (re_attempts env) (re_now env) (re_written env) (Some failed) delay c of
             None \<Rightarrow> None
           | Some (Some rcErr, c) \<Rightarrow> Some ((Some rcErr, False), c)
           | Some (None, c) \<Rightarrow> Some ((None, True), c))
      | _ \<Rightarrow> Some ((None, False), c))"

text \<open>After a failed call: the result, or another turn.\<close>

datatype 'a turn = Return "(client_error, 'a) result" | Again

definition after_error :: "reconnect_env \<Rightarrow> bool \<Rightarrow> ref \<Rightarrow> session_error \<Rightarrow> Client \<Rightarrow> ('a turn \<times> Client) option" where
  "after_error env ctxDone s err c =
     (if isDeadlineErr (TunnelError err) ctxDone then Some (Return (Inl OsErrDeadlineExceeded), c)
      else case maybeReconnect env s err c of
        None \<Rightarrow> None
      | Some ((next, retry), c) \<Rightarrow>
          if retry then Some (Again, c)
          else case next of
            Some e \<Rightarrow> Some (Return (Inl (if isDeadlineErr e ctxDone then OsErrDeadlineExceeded else e)), c)
          | None \<Rightarrow> Some (Return (Inl (TunnelError err)), c))"

record read_turn = reconnect_env +
  rt_closed :: bool
  rt_branch :: read_branch
  rt_time :: int

fun Tunnel_Read :: "read_turn list \<Rightarrow> nat \<Rightarrow> tunnel \<Rightarrow> Client \<Rightarrow> ((client_error, bytes) result \<times> Client) option" where
  "Tunnel_Read [] plen t c = None"
| "Tunnel_Read (e # es) plen t c =
     (let c = observe (rt_closed e) c
      in if cl_closed c then Some (Inl ErrClientClosed, c)
         else
           let s = the (cl_s c)
           in case ReadCtx (rt_branch e) (readCtx t (rt_time e)) plen (cs_session (session_of c s)) of
                None \<Rightarrow> None
              | Some (Inr pkt, s') \<Rightarrow> Some (Inr pkt, put_session s s' c)
              | Some (Inl err, s') \<Rightarrow>
                  (case after_error (reconnect_env.truncate e) (readCtx t (rt_time e)) s err (put_session s s' c) of
                     None \<Rightarrow> None
                   | Some (Return r, c) \<Rightarrow> Some (r, c)
                   | Some (Again, c) \<Rightarrow> Tunnel_Read es plen t c))"

record write_turn = reconnect_env +
  wt_closed :: bool
  wt_rekey :: rekey_env
  wt_stale :: "nat \<Rightarrow> byte"
  wt_others :: "Session \<Rightarrow> Session"
  wt_outcome :: "transport_error option"
  wt_time :: int

fun Tunnel_Write :: "write_turn list \<Rightarrow> bytes \<Rightarrow> tunnel \<Rightarrow> Client \<Rightarrow> ((client_error, nat) result \<times> Client) option" where
  "Tunnel_Write [] p t c = None"
| "Tunnel_Write (e # es) p t c =
     (let c = observe (wt_closed e) c
      in if cl_closed c then Some (Inl ErrClientClosed, c)
         else
           let s = the (cl_s c)
           in case WriteCtx (wt_rekey e) (wt_stale e) (wt_time e) (wt_others e) (wt_outcome e) p (cs_session (session_of c s)) of
                (Inr n, s') \<Rightarrow> Some (Inr n, put_session s s' c)
              | (Inl err, s') \<Rightarrow>
                  (case after_error (reconnect_env.truncate e) (writeCtx t (wt_time e)) s err (put_session s s' c) of
                     None \<Rightarrow> None
                   | Some (Return r, c) \<Rightarrow> Some (r, c)
                   | Some (Again, c) \<Rightarrow> Tunnel_Write es p t c))"

section \<open>Addresses\<close>

text \<open>An \<^verbatim>\<open>ipAddr\<close> is its bytes, none for the empty one.\<close>

definition Tunnel_LocalAddr :: "Client \<Rightarrow> bytes" where
  "Tunnel_LocalAddr c =
     (let pr = cs_push (session_of c (the (cl_s c)))
      in if Addr_IsValid (pr_LocalIP pr) then Addr_AsSlice (pr_LocalIP pr)
         else if Prefix_IsValid (pr_LocalIP6 pr) then Addr_AsSlice (pf_ip (pr_LocalIP6 pr))
         else [])"

definition peerForRemote :: "PushReply \<Rightarrow> Addr" where
  "peerForRemote pr =
     (if Addr_IsValid (pr_Gateway pr) then pr_Gateway pr
      else if Addr_IsValid (pr_RemoteIP pr) then pr_RemoteIP pr
      else if Addr_IsValid (pr_LocalIP pr) then pr_LocalIP pr
      else pr_RemoteIP6 pr)"

definition Tunnel_RemoteAddr :: "Client \<Rightarrow> bytes" where
  "Tunnel_RemoteAddr c =
     (let peer = peerForRemote (cs_push (session_of c (the (cl_s c))))
      in if Addr_IsValid peer then Addr_AsSlice peer else [])"


section \<open>Restarts stay hidden\<close>

definition tunnel_error :: "client_error \<Rightarrow> bool" where
  "tunnel_error e \<longleftrightarrow> (\<exists>err. e = TunnelError err)"

lemma reconnect_loop_error: "reconnect_loop es attempt wait m failed c = Some (Inl e, c') \<Longrightarrow> \<not> tunnel_error e"
  by (induction es attempt wait m failed c rule: reconnect_loop.induct)
     (auto simp: Let_def tunnel_error_def split: if_splits option.splits wait_end.splits sum.splits prod.splits)

lemma reconnect_loop_cfg: "reconnect_loop es attempt wait m failed c = Some (res, c') \<Longrightarrow> cl_cfg c' = cl_cfg c"
proof (induction es arbitrary: attempt wait c)
  case (Cons e es)
  from Cons.prems show ?case
  proof (cases rule: attempt_cases)
    case (discarded b cs r c1 err)
    then show ?thesis by (auto simp: new_session_def Let_def close_session_def)
  next
    case (installed b cs r c1)
    then show ?thesis by (auto simp: new_session_def Let_def install_session_views)
  next
    case (again err)
    then show ?thesis using Cons.IH [OF again(4)] by simp
  qed simp
qed simp

lemma reconnect_loop_outcome:
  "reconnect_loop es attempt wait m failed c = Some (res, c') \<Longrightarrow> cl_cfg c' = cl_cfg c \<and> (\<forall>e. res = Inl e \<longrightarrow> \<not> tunnel_error e)"
  using reconnect_loop_cfg reconnect_loop_error by fastforce

lemma reconnectInstall_outcome:
  assumes "reconnectInstall es now written failed delay c = Some (res, c')"
  shows "cl_cfg c' = cl_cfg c \<and> (\<forall>e. res = Inl e \<longrightarrow> \<not> tunnel_error e)"
proof (cases "check_surrender now failed c")
  case (Pair x c1)
  have cfg: "cl_cfg c1 = cl_cfg c" "cl_cfg (close_session written f c1) = cl_cfg c" for f
    using check_surrender_views(7) [OF Pair] by (simp_all add: close_session_def)
  have err: "\<not> tunnel_error e" if "x = Some e" for e
    using Pair that by (auto simp: check_surrender_def tunnel_error_def Let_def split: option.splits if_splits prod.splits)
  show ?thesis
    using assms cfg err unfolding reconnectInstall_def Pair Let_def
    by (auto simp: tunnel_error_def split: if_splits option.splits sum.splits prod.splits
        dest!: reconnect_loop_outcome [unfolded tunnel_error_def])
qed

lemma fireHooksFor_frame [simp]:
  "cl_cfg (fireHooksFor r c) = cl_cfg c" "cl_s (fireHooksFor r c) = cl_s c" "cl_closed (fireHooksFor r c) = cl_closed c"
  by (simp_all add: fireHooksFor_def FireOnReconnect_def)

lemma after_error_outcome:
  assumes "after_error env done s err c = Some (turn, c')" and "cc_AutoReconnect (cl_cfg c)"
  shows "cl_cfg c' = cl_cfg c \<and> (\<forall>e. turn = Return (Inl e) \<longrightarrow> (\<forall>delay why. e \<noteq> TunnelError (RestartError delay why)))"
  using assms
  by (auto simp: after_error_def maybeReconnect_def reconnect_def tunnel_error_def
      split: if_splits option.splits prod.splits session_error.splits sum.splits dest!: reconnectInstall_outcome)


lemma Read_no_restart:
  "Tunnel_Read es plen t c = Some (Inl (TunnelError (RestartError delay why)), c') \<Longrightarrow> \<not> cc_AutoReconnect (cl_cfg c)"
proof (induction es arbitrary: c)
  case (Cons ev es)
  note IH = Cons.IH
  from Cons.prems show ?case
    by (auto simp: Let_def split: if_splits option.splits prod.splits sum.splits turn.splits dest!: after_error_outcome dest: IH)
qed simp

lemma Write_no_restart:
  "Tunnel_Write es p t c = Some (Inl (TunnelError (RestartError delay why)), c') \<Longrightarrow> \<not> cc_AutoReconnect (cl_cfg c)"
proof (induction es arbitrary: c)
  case (Cons ev es)
  note IH = Cons.IH
  from Cons.prems show ?case
    by (auto simp: Let_def split: if_splits option.splits prod.splits sum.splits turn.splits dest!: after_error_outcome dest: IH)
qed simp

lemma after_error_again:
  assumes "cc_AutoReconnect (cl_cfg c)"
    and "reconnectInstall (re_attempts env) (re_now env) (re_written env) (Some s) delay c = Some (Inr (Some r), c1)"
  shows "after_error env done s (RestartError delay why) c = Some (Again, fireHooksFor r c1)"
  using assms by (simp add: after_error_def isDeadlineErr_def maybeReconnect_def reconnect_def)

lemma reconnectInstall_current:
  assumes "reconnectInstall es now written failed delay c = Some (Inr (Some r), c')" and "client_inv c" and "dials_ok es"
  shows "cl_s c' = Some r"
  using assms(1,2)
proof (cases rule: reconnectInstall_cases)
  case (looped f c1 c2 m lres)
  then have "lres = Inr r" by (cases lres) simp_all
  then show ?thesis using reconnect_loop_inv [OF looped(10) assms(3) looped(5,6)] by simp
qed simp_all

text \<open>
  C14. With automatic reconnects on, users of the tunnel never see a restart: no read and no write
  returns the restart error of a session, however many sessions it goes through; and when a blocked
  read meets the restart of its session and the reconnect succeeds, the same call goes on with the
  new session, which is then the current one.
\<close>

theorem tunnel_survives_restart:
  assumes "client_inv c" and "cc_AutoReconnect (cl_cfg c)"
  shows "(\<forall>es plen t e c' delay why. Tunnel_Read es plen t c = Some (Inl e, c') \<longrightarrow> e \<noteq> TunnelError (RestartError delay why)) \<and>
    (\<forall>es p t e c' delay why. Tunnel_Write es p t c = Some (Inl e, c') \<longrightarrow> e \<noteq> TunnelError (RestartError delay why)) \<and>
    (\<forall>e :: read_turn. \<forall>es plen t s s' delay why r c1. \<not> cl_closed c \<longrightarrow> \<not> rt_closed e \<longrightarrow> cl_s c = Some s \<longrightarrow>
      ReadCtx (rt_branch e) (readCtx t (rt_time e)) plen (cs_session (session_of c s)) = Some (Inl (RestartError delay why), s') \<longrightarrow>
      dials_ok (re_attempts e) \<longrightarrow>
      reconnectInstall (re_attempts e) (re_now e) (re_written e) (Some s) delay (put_session s s' c) = Some (Inr (Some r), c1) \<longrightarrow>
      Tunnel_Read (e # es) plen t c = Tunnel_Read es plen t (fireHooksFor r c1) \<and> cl_s (fireHooksFor r c1) = Some r)"
proof (intro conjI allI impI)
  fix e :: read_turn and es plen t s s' delay why r c1
  assume c: "\<not> cl_closed c" "\<not> rt_closed e" "cl_s c = Some s"
    and read: "ReadCtx (rt_branch e) (readCtx t (rt_time e)) plen (cs_session (session_of c s)) = Some (Inl (RestartError delay why), s')"
    and ok: "dials_ok (re_attempts e)"
    and re: "reconnectInstall (re_attempts e) (re_now e) (re_written e) (Some s) delay (put_session s s' c) = Some (Inr (Some r), c1)"
  have obs: "observe False c = c" using c(1) by (simp add: observe_def)
  have env: "re_attempts (reconnect_env.truncate e) = re_attempts e" "re_now (reconnect_env.truncate e) = re_now e"
    "re_written (reconnect_env.truncate e) = re_written e" by (simp_all add: reconnect_env.defs)
  have "after_error (reconnect_env.truncate e) (readCtx t (rt_time e)) s (RestartError delay why) (put_session s s' c)
      = Some (Again :: bytes turn, fireHooksFor r c1)"
    by (rule after_error_again) (use assms(2) re env in simp_all)
  then show "Tunnel_Read (e # es) plen t c = Tunnel_Read es plen t (fireHooksFor r c1)"
    using c read obs by simp
  obtain cs where cs: "cl_at c s = Some cs" using assms(1) c(3) by (auto simp: client_inv_def)
  have "later (cs_session cs) s'" using read cs by (auto simp: session_of_def intro: later_step session_step.read_call)
  moreover have "se_handler s' = se_handler (cs_session cs)"
    using read cs by (auto simp: session_of_def ReadCtx_def Let_def split: read_branch.splits list.splits if_splits)
  ultimately have "client_inv (put_session s s' c)" using put_session_inv [OF assms(1) cs] by simp
  from reconnectInstall_current [OF re this ok] show "cl_s (fireHooksFor r c1) = Some r" by simp
qed (use assms(2) Read_no_restart Write_no_restart in blast)+

definition demo_turn :: read_turn where
  "demo_turn = \<lparr>re_attempts = [], re_now = 3, re_written = True, rt_closed = True, rt_branch = TakePacket, rt_time = 3\<rparr>"

theorem tunnel_survives_restart_witness:
  "\<exists>c e c'. Client_Dial demo_session_env 0 (Some demo_client_cfg) = Inr c \<and>
     Tunnel_Read [demo_turn] 1500 \<lparr>tn_readDeadlineNs = 0, tn_writeDeadlineNs = 0\<rparr> c = Some (Inl e, c') \<and>
     e \<noteq> TunnelError (RestartError 0 ''restart'')"
proof -
  obtain c where c: "Client_Dial demo_session_env 0 (Some demo_client_cfg) = Inr c" "client_reach c" "cl_cfg c = demo_client_cfg"
    by (rule demo_client)
  have auto: "cc_AutoReconnect (cl_cfg c)" using c(3) by (simp add: demo_client_cfg_def)
  obtain e c' where "Tunnel_Read [demo_turn] 1500 \<lparr>tn_readDeadlineNs = 0, tn_writeDeadlineNs = 0\<rparr> c = Some (Inl e, c')"
    by (simp add: demo_turn_def)
  with tunnel_survives_restart [OF client_reach_inv [OF c(2)] auto, THEN conjunct1] c(1) show ?thesis by blast
qed

end
