(* ===== verification/OvpnLexer.thy ===== *)
theory OvpnLexer
  imports GoStrings
begin

text \<open>
  The lexical layer of the profile parser \<^verbatim>\<open>pkg/ovpn/parse.go\<close>: lines as \<^verbatim>\<open>bufio.Scanner\<close> delivers them,
  comments, quoting and escapes, inline blocks.

  \<^verbatim>\<open>stripComment\<close> and \<^verbatim>\<open>tokenize\<close> walk over a line independently of each other. The lemmas show
  that they agree on what is quoted (together they are the one-pass reader \<open>read_line\<close>), and that
  every list of arguments has a line that is read back as exactly these arguments.
\<close>

abbreviation backslash :: char where "backslash \<equiv> CHR 0x5C"
abbreviation dquote :: char where "dquote \<equiv> CHR 0x22"
abbreviation squote :: char where "squote \<equiv> CHR 0x27"
abbreviation tabulator :: char where "tabulator \<equiv> CHR 0x09"
abbreviation newline :: char where "newline \<equiv> CHR 0x0A"
abbreviation return :: char where "return \<equiv> CHR 0x0D"

section \<open>Lines\<close>

text \<open>
  \<^verbatim>\<open>bufio.ScanLines\<close>: a line ends at a newline or at the end of the input, one carriage return
  before that is dropped, and nothing after the last newline is no line. A line that does not fit
  with its newline in the scanner's buffer of \<open>limit\<close> bytes ends the scan with an error, as does a
  failing reader once what it has delivered is used up.
\<close>

datatype scan_error = ErrTooLong | ErrRead

definition dropCR :: "string \<Rightarrow> string" where
  "dropCR l = (if l \<noteq> [] \<and> last l = return then butlast l else l)"

definition scan_lines :: "nat \<Rightarrow> bool \<Rightarrow> string \<Rightarrow> string list \<times> scan_error option" where
  "scan_lines limit readError text =
     (let segs = Split newline text;
          segs = (if last segs = [] then butlast segs else segs);
          good = takeWhile (\<lambda>l. length l < limit) segs
      in (map dropCR good,
          if length good < length segs then Some ErrTooLong else if readError then Some ErrRead else None))"

section \<open>Comments, quotes and escapes\<close>

definition isEscapable :: "char \<Rightarrow> bool" where
  "isEscapable c \<longleftrightarrow> c \<in> set [backslash, dquote, squote, CHR '' '', tabulator, CHR ''#'', CHR '';'']"

definition escape_at :: "bool \<Rightarrow> string \<Rightarrow> bool" where
  "escape_at inSingle s \<longleftrightarrow> s \<noteq> [] \<and> hd s = backslash \<and> \<not> inSingle \<and> length s > 1 \<and> isEscapable (s ! 1)"

function strip_loop :: "bool \<Rightarrow> bool \<Rightarrow> string \<Rightarrow> string" where
  "strip_loop inDouble inSingle [] = []"
| "strip_loop inDouble inSingle (c # cs) =
     (if escape_at inSingle (c # cs) then c # hd cs # strip_loop inDouble inSingle (tl cs)
      else if c = dquote \<and> \<not> inSingle then c # strip_loop (\<not> inDouble) inSingle cs
      else if c = squote \<and> \<not> inDouble then c # strip_loop inDouble (\<not> inSingle) cs
      else if \<not> inDouble \<and> \<not> inSingle \<and> (c = CHR ''#'' \<or> c = CHR '';'') then []
      else c # strip_loop inDouble inSingle cs)"
  by pat_completeness auto
termination by (relation "measure (\<lambda>(_, _, s). length s)") auto

definition stripComment :: "string \<Rightarrow> string" where
  "stripComment s = strip_loop False False s"

datatype lex_error = UnterminatedQuote

function token_loop :: "string list \<Rightarrow> string \<Rightarrow> bool \<Rightarrow> bool \<Rightarrow> bool \<Rightarrow> string \<Rightarrow> (lex_error, string list) result" where
  "token_loop out cur started inDouble inSingle [] =
     (if inDouble \<or> inSingle then Inl UnterminatedQuote
      else Inr (if started then out @ [cur] else out))"
| "token_loop out cur started inDouble inSingle (c # cs) =
     (if escape_at inSingle (c # cs) then token_loop out (cur @ [hd cs]) True inDouble inSingle (tl cs)
      else if c = dquote \<and> \<not> inSingle then token_loop out cur True (\<not> inDouble) inSingle cs
      else if c = squote \<and> \<not> inDouble then token_loop out cur True inDouble (\<not> inSingle) cs
      else if \<not> inDouble \<and> \<not> inSingle \<and> (c = CHR '' '' \<or> c = tabulator) then
        if started then token_loop (out @ [cur]) [] False inDouble inSingle cs
        else token_loop out cur started inDouble inSingle cs
      else token_loop out (cur @ [c]) True inDouble inSingle cs)"
  by pat_completeness auto
termination by (relation "measure (\<lambda>(_, _, _, _, _, s). length s)") auto

definition tokenize :: "string \<Rightarrow> (lex_error, string list) result" where
  "tokenize s = token_loop [] [] False False False s"

section \<open>Inline blocks\<close>

fun IndexByte :: "string \<Rightarrow> char \<Rightarrow> nat option" where
  "IndexByte [] c = None"
| "IndexByte (x # xs) c = (if x = c then Some 0 else map_option Suc (IndexByte xs c))"

definition openTag :: "string \<Rightarrow> string option" where
  "openTag line =
     (if length line < 3 \<or> line ! 0 \<noteq> CHR ''<'' then None
      else if line ! 1 = CHR ''/'' then None
      else case IndexByte line CHR ''>'' of
        None \<Rightarrow> None
      | Some e \<Rightarrow>
          if e + 1 \<noteq> length line then None
          else let name = subslice line 1 e in if name = [] then None else Some name)"

text \<open>
  The lines up to the closing tag: the content, the number of the closing line and the lines after
  it. The content of a block without lines is the \<^verbatim>\<open>nil\<close> slice, \<^const>\<open>None\<close>.
\<close>

datatype block_error = BlockScan string scan_error | BlockUnterminated string nat

fun block_loop :: "string \<Rightarrow> string \<Rightarrow> nat \<Rightarrow> string list \<Rightarrow> (string \<times> nat \<times> string list) option" where
  "block_loop closing out line [] = None"
| "block_loop closing out line (raw # ls) =
     (if TrimSpace raw = closing then Some (out, line + 1, ls)
      else block_loop closing (out @ raw @ [newline]) (line + 1) ls)"

definition readInlineBlock :: "string \<Rightarrow> nat \<Rightarrow> string list \<times> scan_error option \<Rightarrow>
    (block_error, bytes option \<times> nat \<times> string list) result" where
  "readInlineBlock name startLine sc =
     (case block_loop (''</'' @ name @ ''>'') [] startLine (fst sc) of
        Some (out, line, ls) \<Rightarrow> Inr (if out = [] then None else Some (bytes_of_string out), line, ls)
      | None \<Rightarrow> (case snd sc of
            Some e \<Rightarrow> Inl (BlockScan name e)
          | None \<Rightarrow> Inl (BlockUnterminated name startLine)))"

lemma block_loop_shorter: "block_loop closing out line ls = Some (out', line', ls') \<Longrightarrow> length ls' < length ls"
  by (induction ls arbitrary: out line) (fastforce split: if_splits)+

lemma readInlineBlock_shorter: "readInlineBlock name n (ls, err) = Inr (content, line', ls') \<Longrightarrow> length ls' < length ls"
  by (auto simp: readInlineBlock_def split: option.splits prod.splits dest!: block_loop_shorter)

section \<open>Both passes agree\<close>

text \<open>A reader that does both jobs in one pass: at an unquoted comment leader it stops.\<close>

function read_loop :: "string list \<Rightarrow> string \<Rightarrow> bool \<Rightarrow> bool \<Rightarrow> bool \<Rightarrow> string \<Rightarrow> (lex_error, string list) result" where
  "read_loop out cur started inDouble inSingle [] =
     (if inDouble \<or> inSingle then Inl UnterminatedQuote
      else Inr (if started then out @ [cur] else out))"
| "read_loop out cur started inDouble inSingle (c # cs) =
     (if escape_at inSingle (c # cs) then read_loop out (cur @ [hd cs]) True inDouble inSingle (tl cs)
      else if c = dquote \<and> \<not> inSingle then read_loop out cur True (\<not> inDouble) inSingle cs
      else if c = squote \<and> \<not> inDouble then read_loop out cur True inDouble (\<not> inSingle) cs
      else if inDouble \<or> inSingle then read_loop out (cur @ [c]) True inDouble inSingle cs
      else if c = CHR ''#'' \<or> c = CHR '';'' then Inr (if started then out @ [cur] else out)
      else if c = CHR '' '' \<or> c = tabulator then
        read_loop (if started then out @ [cur] else out) (if started then [] else cur) False inDouble inSingle cs
      else read_loop out (cur @ [c]) True inDouble inSingle cs)"
  by pat_completeness auto
termination by (relation "measure (\<lambda>(_, _, _, _, _, s). length s)") auto

definition read_line :: "string \<Rightarrow> (lex_error, string list) result" where
  "read_line s = read_loop [] [] False False False s"

lemma strip_loop_hd: "strip_loop inDouble inSingle s = [] \<or> (s \<noteq> [] \<and> hd (strip_loop inDouble inSingle s) = hd s)"
  by (cases s) auto

lemma escape_at_strip:
  assumes "\<not> escape_at inSingle (c # cs)"
  shows "\<not> escape_at inSingle (c # strip_loop d e cs)"
  using assms strip_loop_hd [of d e cs]
  by (cases cs; cases "strip_loop d e cs") (auto simp: escape_at_def)

lemma token_loop_strip:
  "token_loop out cur started inDouble inSingle (strip_loop inDouble inSingle s) = read_loop out cur started inDouble inSingle s"
proof (induction out cur started inDouble inSingle s rule: read_loop.induct)
  case (2 out cur started inDouble inSingle c cs)
  show ?case
  proof (cases "escape_at inSingle (c # cs)")
    case True
    then have "escape_at inSingle (c # hd cs # strip_loop inDouble inSingle (tl cs))"
      by (cases cs) (auto simp: escape_at_def)
    then show ?thesis using True "2.IH"(1) by simp
  next
    case False
    note no = False escape_at_strip [OF False]
    consider "c = dquote \<and> \<not> inSingle" | "\<not> (c = dquote \<and> \<not> inSingle)" "c = squote \<and> \<not> inDouble"
      | "\<not> (c = dquote \<and> \<not> inSingle)" "\<not> (c = squote \<and> \<not> inDouble)" by blast
    then show ?thesis
    proof cases
      case 1
      then show ?thesis using "2.IH"(2) no by simp
    next
      case 2
      then show ?thesis using "2.IH"(3) no by simp
    next
      case 3
      show ?thesis
      proof (cases "inDouble \<or> inSingle")
        case True
        then show ?thesis using "2.IH"(4) no 3 by (cases inDouble; cases inSingle; simp)
      next
        case outside: False
        then show ?thesis using "2.IH"(5,6) no 3 by (cases "c = CHR ''#'' \<or> c = CHR '';''"; cases started) simp_all
      qed
    qed
  qed
qed simp

text \<open>
  Comments and quotes never contradict each other: dropping the comment of a line and then
  splitting the rest into arguments gives, on every line, what one pass over the line gives that
  keeps quoted and escaped comment signs and stops at the first other one. In particular a comment
  sign inside quotes or after a backslash is data, and cutting a comment off never leaves a quote
  open.
\<close>

lemma comments_and_quotes_agree:
  "tokenize (stripComment s) = read_line s"
  by (simp add: tokenize_def stripComment_def read_line_def token_loop_strip)

text \<open>Between the two passes the parser trims the line, which can take away an escaped blank at its end.\<close>

lemma escaped_blank_trimmed:
  "tokenize (TrimSpace (stripComment (''ca a'' @ [backslash, CHR '' '']))) = Inr [''ca'', ''a'' @ [backslash]]"
  "tokenize (stripComment (''ca a'' @ [backslash, CHR '' ''])) = Inr [''ca'', ''a '']"
  by (simp_all add: tokenize_def stripComment_def escape_at_def isEscapable_def TrimSpace_def trim_left.simps trim_right.simps
      space_len_def space_suffix_len_def)

section \<open>Writing arguments\<close>

definition bare_char :: "char \<Rightarrow> bool" where
  "bare_char c \<longleftrightarrow> plain_char c \<and> \<not> isEscapable c"

definition bare :: "string \<Rightarrow> bool" where
  "bare w \<longleftrightarrow> w \<noteq> [] \<and> list_all bare_char w \<and> hd w \<noteq> CHR ''<''"

fun escape :: "string \<Rightarrow> string" where
  "escape [] = []"
| "escape (c # cs) = (if c = backslash \<or> c = dquote then [backslash, c] else [c]) @ escape cs"

text \<open>An argument as it is if that is safe, otherwise in double quotes.\<close>

definition quote_arg :: "string \<Rightarrow> string" where
  "quote_arg w = (if bare w then w else dquote # escape w @ [dquote])"

lemma escapable_chars [simp]:
  "isEscapable backslash" "isEscapable dquote" "isEscapable squote" "isEscapable CHR '' ''" "isEscapable tabulator"
  "isEscapable CHR ''#''" "isEscapable CHR '';''"
  by (simp_all add: isEscapable_def)

lemma no_escape [simp]: "c \<noteq> backslash \<Longrightarrow> \<not> escape_at b (c # cs)"
  by (simp add: escape_at_def)

lemma escape_at_here [simp]: "escape_at False (backslash # c # cs) \<longleftrightarrow> isEscapable c"
  by (simp add: escape_at_def)

lemma bare_char_facts:
  "bare_char c \<Longrightarrow> c \<noteq> backslash \<and> c \<noteq> dquote \<and> c \<noteq> squote \<and> c \<noteq> CHR '' '' \<and> c \<noteq> tabulator \<and> c \<noteq> CHR ''#'' \<and> c \<noteq> CHR '';''"
  by (auto simp: bare_char_def)

lemma read_bare:
  assumes "list_all bare_char w"
  shows "read_loop out cur started False False (w @ rest) = read_loop out (cur @ w) (started \<or> w \<noteq> []) False False rest"
    and "strip_loop False False (w @ rest) = w @ strip_loop False False rest"
  using assms by (induction w arbitrary: cur started) (auto dest!: bare_char_facts)

lemma read_escaped:
  "read_loop out cur True True False (escape w @ dquote # rest) = read_loop out (cur @ w) True False False rest"
  "strip_loop True False (escape w @ dquote # rest) = escape w @ dquote # strip_loop False False rest"
  by (induction w arbitrary: cur) auto

lemma read_quote_arg:
  "read_loop out cur started False False (quote_arg w @ rest) = read_loop out (cur @ w) True False False rest"
  "strip_loop False False (quote_arg w @ rest) = quote_arg w @ strip_loop False False rest"
  by (auto simp: quote_arg_def bare_def read_bare read_escaped)

definition words_text :: "string list \<Rightarrow> string" where
  "words_text ws = Join (map quote_arg ws) '' ''"

lemma strip_words: "strip_loop False False (words_text ws @ rest) = words_text ws @ strip_loop False False rest"
  unfolding words_text_def by (induction ws rule: induct_list012) (simp_all add: read_quote_arg)

lemma read_words: "ws \<noteq> [] \<Longrightarrow> read_loop out [] False False False (words_text ws) = Inr (out @ ws)"
  unfolding words_text_def
proof (induction ws arbitrary: out rule: induct_list012)
  case (2 w)
  then show ?case using read_quote_arg(1) [of out "[]" False w "[]"] by simp
next
  case (3 w v ws)
  then show ?case by (simp add: read_quote_arg)
qed simp

lemma tokenize_words: "ws \<noteq> [] \<Longrightarrow> tokenize (words_text ws) = Inr ws"
  using token_loop_strip [of "[]" "[]" False False False "words_text ws"] read_words [of ws "[]"] strip_words [of ws "[]"]
  by (simp add: tokenize_def)

lemma words_text_ends:
  assumes "ws \<noteq> []"
  shows "words_text ws \<noteq> []" and "plain_char (hd (words_text ws))" and "plain_char (last (words_text ws))" and "hd (words_text ws) \<noteq> CHR ''<''"
proof -
  have q: "quote_arg w \<noteq> [] \<and> plain_char (hd (quote_arg w)) \<and> plain_char (last (quote_arg w)) \<and> hd (quote_arg w) \<noteq> CHR ''<''" for w
    by (cases w) (auto simp: quote_arg_def bare_def bare_char_def plain_char_def list_all_iff)
  have "words_text ws \<noteq> [] \<and> plain_char (hd (words_text ws)) \<and> plain_char (last (words_text ws)) \<and> hd (words_text ws) \<noteq> CHR ''<''"
    using assms unfolding words_text_def by (induction ws rule: induct_list012) (auto simp: q hd_append)
  then show "words_text ws \<noteq> []" "plain_char (hd (words_text ws))" "plain_char (last (words_text ws))" "hd (words_text ws) \<noteq> CHR ''<''" by auto
qed

section \<open>Trimming\<close>

lemma trim_left_blanks: "trim_left (replicate n CHR '' '' @ s) = trim_left s"
  by (induction n) (simp, subst trim_left.simps, simp)

lemma trim_right_blanks: "trim_right (s @ replicate n CHR '' '') = trim_right s"
proof (induction n)
  case (Suc n)
  have "trim_right ((s @ replicate n CHR '' '') @ [CHR '' '']) = trim_right (s @ replicate n CHR '' '')"
    by (subst trim_right.simps) (simp add: space_suffix_len_def)
  then show ?case using Suc by (simp add: replicate_append_same)
qed simp

lemma TrimSpace_blanks [simp]: "TrimSpace (replicate n CHR '' '') = []"
  using trim_left_blanks [of n "[]"] by (simp add: TrimSpace_def trim_left.simps trim_right.simps space_suffix_len_def)

lemma TrimSpace_pad:
  assumes "s \<noteq> []" and "plain_char (hd s)" and "plain_char (last s)"
  shows "TrimSpace (replicate n CHR '' '' @ s @ replicate m CHR '' '') = s"
proof -
  obtain c r where s: "s = c # r" using assms(1) by (cases s) auto
  have "trim_left (s @ replicate m CHR '' '') = s @ replicate m CHR '' ''"
    using trim_left_plain [of c] assms(2) s by simp
  moreover have "trim_right s = s" "trim_left s = s"
    using TrimSpace_plain [OF s _ assms(3)] trim_left_plain [of c] assms(2) s by (auto simp: TrimSpace_def)
  ultimately show ?thesis by (simp add: TrimSpace_def trim_left_blanks trim_right_blanks)
qed

lemma strip_blanks: "strip_loop False False (replicate n CHR '' '' @ s) = replicate n CHR '' '' @ strip_loop False False s"
  by (induction n) auto

section \<open>Writing blocks\<close>

definition tag_ok :: "string \<Rightarrow> bool" where
  "tag_ok name \<longleftrightarrow> name \<noteq> [] \<and> list_all bare_char name \<and> CHR ''>'' \<notin> set name \<and> hd name \<noteq> CHR ''/''"

definition open_tag :: "string \<Rightarrow> string" where "open_tag name = ''<'' @ name @ ''>''"
definition close_tag :: "string \<Rightarrow> string" where "close_tag name = ''</'' @ name @ ''>''"

lemma angle_chars [simp]: "bare_char CHR ''<''" "bare_char CHR ''>''" "plain_char CHR ''<''" "plain_char CHR ''>''" "plain_char CHR ''/''"
  by (simp_all add: bare_char_def plain_char_def isEscapable_def)

lemma strip_open_tag: "tag_ok name \<Longrightarrow> stripComment (open_tag name) = open_tag name"
  using read_bare(2) [of "open_tag name" "[]"] by (simp add: tag_ok_def open_tag_def stripComment_def)

lemma trim_tags [simp]: "TrimSpace (open_tag name) = open_tag name" "TrimSpace (close_tag name) = close_tag name"
  using TrimSpace_pad [of "open_tag name" 0 0] TrimSpace_pad [of "close_tag name" 0 0]
  by (simp_all add: open_tag_def close_tag_def)

lemma IndexByte_append: "c \<notin> set a \<Longrightarrow> IndexByte (a @ c # b) c = Some (length a)"
  by (induction a) auto

lemma openTag_open_tag: "tag_ok name \<Longrightarrow> openTag (open_tag name) = Some name"
  using IndexByte_append [of "CHR ''>''" "CHR ''<'' # name" "[]"]
  by (cases name) (auto simp: openTag_def open_tag_def tag_ok_def subslice_def)

lemma openTag_words: "ws \<noteq> [] \<Longrightarrow> openTag (words_text ws) = None"
  using words_text_ends [of ws] by (auto simp: openTag_def hd_conv_nth)

definition joined :: "string list \<Rightarrow> string" where
  "joined ls = concat (map (\<lambda>l. l @ [newline]) ls)"

lemma block_loop_closed:
  assumes "\<And>l. l \<in> set ls \<Longrightarrow> TrimSpace l \<noteq> close_tag name"
  shows "block_loop (close_tag name) out line (ls @ close_tag name # rest) = Some (out @ joined ls, line + length ls + 1, rest)"
  using assms by (induction ls arbitrary: out line) (auto simp: joined_def)

lemma read_block:
  assumes "\<And>l. l \<in> set ls \<Longrightarrow> TrimSpace l \<noteq> close_tag name"
  shows "readInlineBlock name n (ls @ close_tag name # rest, err) =
    Inr (if ls = [] then None else Some (bytes_of_string (joined ls)), n + length ls + 1, rest)"
proof -
  have closing: "''</'' @ name @ ''>'' = close_tag name" by (simp add: close_tag_def)
  have "joined ls = [] \<longleftrightarrow> ls = []" by (cases ls) (auto simp: joined_def)
  then show ?thesis
    unfolding readInlineBlock_def closing using block_loop_closed [of ls name "[]" n rest] assms by simp
qed

section \<open>Writing lines\<close>

lemma Split_lines: "(\<And>l. l \<in> set ls \<Longrightarrow> newline \<notin> set l) \<Longrightarrow> Split newline (joined ls) = ls @ [[]]"
  by (induction ls) (auto simp: joined_def Split_append)

text \<open>Lines with either kind of end, as the scanner reads them.\<close>

definition eol :: "bool \<Rightarrow> string" where
  "eol crlf = (if crlf then [return, newline] else [newline])"

definition text_of :: "bool \<Rightarrow> string list \<Rightarrow> string" where
  "text_of crlf ls = concat (map (\<lambda>l. l @ eol crlf) ls)"

lemma scan_text:
  assumes "\<And>l. l \<in> set ls \<Longrightarrow> newline \<notin> set l \<and> (l \<noteq> [] \<longrightarrow> last l \<noteq> return) \<and> length l + 1 < limit"
  shows "scan_lines limit False (text_of crlf ls) = (ls, None)"
proof -
  define ls' where "ls' = map (\<lambda>l. l @ (if crlf then [return] else [])) ls"
  have "text_of crlf ls = joined ls'" by (simp add: text_of_def joined_def ls'_def eol_def comp_def)
  moreover have "Split newline (joined ls') = ls' @ [[]]" using assms by (intro Split_lines) (auto simp: ls'_def)
  moreover have "takeWhile (\<lambda>l. length l < limit) ls' = ls'" using assms by (fastforce simp: ls'_def takeWhile_eq_all_conv)
  moreover have "map dropCR ls' = ls"
    using assms by (auto simp: ls'_def dropCR_def intro!: map_idI)
  ultimately show ?thesis by (simp add: scan_lines_def Let_def del: takeWhile_eq_all_conv)
qed

end
