(* ===== verification/NetipText.thy ===== *)
theory NetipText
  imports Netip
begin

text \<open>
  The text of an address as \<^verbatim>\<open>netip.Addr.String\<close> writes it: dotted IPv4, IPv6 in lower-case hex with
  the first longest run of two or more zero groups written \<open>::\<close>, an IPv4 address in IPv6 form with
  its dotted tail, a zone behind \<open>%\<close>. \<^verbatim>\<open>ParseAddr\<close> reads every such text back.
\<close>

section \<open>Writing addresses\<close>

fun groups :: "bytes \<Rightarrow> nat list" where
  "groups (a # b # bs) = (unat a * 256 + unat b) # groups bs"
| "groups _ = []"

definition hex_char :: "nat \<Rightarrow> char" where
  "hex_char d = ''0123456789abcdef'' ! d"

definition appendHex :: "nat \<Rightarrow> string" where
  "appendHex x =
     (if x \<ge> 4096 then [hex_char (x div 4096)] else []) @ (if x \<ge> 256 then [hex_char (x div 256 mod 16)] else []) @
     (if x \<ge> 16 then [hex_char (x div 16 mod 16)] else []) @ [hex_char (x mod 16)]"

fun zero_run :: "nat list \<Rightarrow> nat list \<Rightarrow> nat \<times> nat \<Rightarrow> nat \<times> nat" where
  "zero_run gs [] r = r"
| "zero_run gs (i # is) (zeroStart, zeroEnd) =
     (let j = i + length (takeWhile ((=) 0) (drop i gs))
      in zero_run gs is (if j - i \<ge> 2 \<and> j - i > zeroEnd - zeroStart then (i, j) else (zeroStart, zeroEnd)))"

definition hex_groups :: "nat list \<Rightarrow> string" where
  "hex_groups gs = Join (map appendHex gs) '':''"

definition addr6_text :: "bytes \<Rightarrow> string" where
  "addr6_text b =
     (let gs = groups b; (zeroStart, zeroEnd) = zero_run gs [0..<8] (255, 255)
      in if zeroStart = 255 then hex_groups gs
         else hex_groups (take zeroStart gs) @ ''::'' @ hex_groups (drop zeroEnd gs))"

definition Is4In6_bytes :: "bytes \<Rightarrow> bool" where
  "Is4In6_bytes b \<longleftrightarrow> take 12 b = replicate 10 0 @ [255, 255]"

fun Addr_String :: "Addr \<Rightarrow> string" where
  "Addr_String NoAddr = ''invalid IP''"
| "Addr_String (Addr4 b) = addr4_text b"
| "Addr_String (Addr6 b zone) =
     (if Is4In6_bytes b then ''::ffff:'' @ addr4_text (drop 12 b) else addr6_text b) @ (if zone = [] then [] else CHR ''%'' # zone)"

section \<open>Reading them back\<close>

definition group_bytes :: "nat list \<Rightarrow> bytes" where
  "group_bytes gs = concat (map (\<lambda>g. [of_nat (g div 256), of_nat g]) gs)"

lemma group_bytes_simps [simp]:
  "group_bytes [] = []" "group_bytes (g # gs) = of_nat (g div 256) # of_nat g # group_bytes gs"
  "group_bytes (as @ bs) = group_bytes as @ group_bytes bs" "length (group_bytes gs) = 2 * length gs"
  by (simp_all add: group_bytes_def length_concat comp_def sum_list_triv)

lemma group_bytes_groups: "even (length b) \<Longrightarrow> group_bytes (groups b) = b"
proof (induction b rule: groups.induct)
  case (1 a b bs)
  have b: "unat b < 256" using unsigned_less [where ?'a = nat, of b] by simp
  have "(of_nat ((unat a * 256 + unat b) div 256) :: byte) = a" using b by simp
  moreover have "(of_nat (unat a * 256 + unat b) :: byte) = b"
  proof -
    have "(of_nat (unat a * 256 + unat b) :: byte) = a * of_nat 256 + b" by simp
    also have "(of_nat 256 :: byte) = 0" by simp
    finally show ?thesis by simp
  qed
  ultimately show ?case using 1 by simp
qed auto

lemma length_groups: "length (groups b) = length b div 2"
  by (induction b rule: groups.induct) auto

lemma groups_bound: "g \<in> set (groups b) \<Longrightarrow> g < 65536"
proof (induction b rule: groups.induct)
  case (1 a b bs)
  have "unat a < 256" "unat b < 256" using unsigned_less [where ?'a = nat, of a] unsigned_less [where ?'a = nat, of b] by simp_all
  then show ?case using 1 by auto
qed auto

lemma less_16: "d < (16 :: nat) \<Longrightarrow> d \<in> {0, 1, 2, 3, 4, 5, 6, 7, 8, 9, 10, 11, 12, 13, 14, 15}"
  by (simp add: numeral_eq_Suc less_Suc_eq disj_ac)

lemma hex_digit_char [simp]: "d < 16 \<Longrightarrow> hex_digit (hex_char d) = Some d"
  by (drule less_16) (auto simp: hex_digit_def hex_char_def nth_Cons' Let_def)

lemma hex_char_plain: "d < 16 \<Longrightarrow> hex_char d \<notin> {CHR ''.'', CHR '':'', CHR ''%''}"
  by (drule less_16) (auto simp: hex_char_def nth_Cons')

definition no_hex :: "string \<Rightarrow> bool" where
  "no_hex s = (case s of [] \<Rightarrow> True | c # _ \<Rightarrow> hex_digit c = None)"

lemma hex_group_stop: "no_hex rest \<Longrightarrow> hex_group off acc rest = Inr (off, acc, rest)"
  by (cases rest) (auto simp: no_hex_def)

lemma hex_group_digit:
  "d < 16 \<Longrightarrow> off \<le> 3 \<Longrightarrow> acc * 16 + d < 65536 \<Longrightarrow> hex_group off acc (hex_char d # s) = hex_group (off + 1) (acc * 16 + d) s"
  by (simp add: Let_def)

lemma nibbles: "(x :: nat) div 4096 * 16 + x div 256 mod 16 = x div 256" "x div 256 * 16 + x div 16 mod 16 = x div 16" "x div 16 * 16 + x mod 16 = x"
proof -
  show "x div 4096 * 16 + x div 256 mod 16 = x div 256"
    using div_mult_mod_eq [of "x div 256" 16] by (simp add: div_mult2_eq [symmetric])
  show "x div 256 * 16 + x div 16 mod 16 = x div 16"
    using div_mult_mod_eq [of "x div 16" 16] by (simp add: div_mult2_eq [symmetric])
qed simp

lemma hex_group_appendHex:
  assumes "x < 65536" and "no_hex rest"
  shows "\<exists>k. hex_group 0 0 (appendHex x @ rest) = Inr (Suc k, x, rest)"
proof -
  note step = hex_group_digit hex_group_stop [OF assms(2)] nibbles
  consider "x < 16" | "16 \<le> x" "x < 256" | "256 \<le> x" "x < 4096" | "4096 \<le> x" by linarith
  then show ?thesis
  proof cases
    case 1
    then show ?thesis by (auto simp: appendHex_def step)
  next
    case 2
    then have "x div 16 < 16" "x div 16 mod 16 = x div 16" by auto
    then show ?thesis using 2 by (auto simp: appendHex_def step)
  next
    case 3
    then have "x div 256 < 16" "x div 256 mod 16 = x div 256" "x div 16 < 65536" by auto
    then show ?thesis using 3 by (auto simp: appendHex_def step)
  next
    case 4
    then have "x div 4096 < 16" "x div 256 < 65536" "x div 16 < 65536" using assms(1) by auto
    then show ?thesis using 4 assms(1) by (auto simp: appendHex_def step)
  qed
qed


lemma appendHex_nonempty [simp]: "appendHex x \<noteq> []"
  by (simp add: appendHex_def)

lemma appendHex_plain: "x < 65536 \<Longrightarrow> c \<in> set (appendHex x) \<Longrightarrow> c \<notin> {CHR ''.'', CHR '':'', CHR ''%''}"
  using hex_char_plain [OF less_mult_imp_div_less, of x 4096] hex_char_plain [of "x div 256 mod 16"] hex_char_plain [of "x div 16 mod 16"] hex_char_plain [of "x mod 16"]
  by (auto simp: appendHex_def split: if_splits)

lemma no_hex_colon [simp]: "no_hex (CHR '':'' # s)" "no_hex []"
  by (simp_all add: no_hex_def hex_digit_def)

lemma v6_step_end:
  assumes "x < 65536" and "length ip < 16"
  shows "v6_loop ip el (appendHex x) = Inr (ip @ group_bytes [x], el, [])"
  using hex_group_appendHex [OF assms(1), of "[]"] assms(2) by (subst v6_loop.simps) auto

lemma v6_step_colon:
  assumes "x < 65536" and "length ip < 16" and "s \<noteq> []" and "hd s \<noteq> CHR '':''"
  shows "v6_loop ip el (appendHex x @ CHR '':'' # s) = v6_loop (ip @ group_bytes [x]) el s"
  using hex_group_appendHex [OF assms(1), of "CHR '':'' # s"] assms(2-) by (subst v6_loop.simps) (cases s; auto)

lemma v6_step_ellipsis:
  assumes "x < 65536" and "length ip < 16"
  shows "v6_loop ip None (appendHex x @ ''::'' @ s) =
    (let ip = ip @ group_bytes [x] in if s = [] then Inr (ip, Some (length ip), []) else v6_loop ip (Some (length ip)) s)"
  using hex_group_appendHex [OF assms(1), of "''::'' @ s"] assms(2) by (subst v6_loop.simps) (cases s; auto)

lemma hex_groups_simps:
  "hex_groups [] = []" "hex_groups [g] = appendHex g" "hex_groups (g # h # gs) = appendHex g @ CHR '':'' # hex_groups (h # gs)"
  by (simp_all add: hex_groups_def)

lemma hex_groups_head: "g < 65536 \<Longrightarrow> hex_groups (g # gs) @ s \<noteq> [] \<and> hd (hex_groups (g # gs) @ s) \<noteq> CHR '':''"
proof -
  assume g: "g < 65536"
  obtain c cs where c: "appendHex g = c # cs" by (cases "appendHex g") auto
  then have "c \<noteq> CHR '':''" using appendHex_plain [OF g, of c] by auto
  then show ?thesis using c by (cases gs) (auto simp: hex_groups_simps)
qed

lemma v6_loop_groups:
  "gs \<noteq> [] \<Longrightarrow> (\<And>g. g \<in> set gs \<Longrightarrow> g < 65536) \<Longrightarrow> length ip + 2 * length gs \<le> 16 \<Longrightarrow>
   v6_loop ip el (hex_groups gs) = Inr (ip @ group_bytes gs, el, [])"
proof (induction gs arbitrary: ip rule: induct_list012)
  case (3 g h gs)
  then show ?case using v6_step_colon [of g ip "hex_groups (h # gs)" el] hex_groups_head [of h gs "[]"] by (simp add: hex_groups_simps)
qed (simp_all add: hex_groups_simps v6_step_end)

lemma v6_loop_groups_ellipsis:
  "gs \<noteq> [] \<Longrightarrow> (\<And>g. g \<in> set gs \<Longrightarrow> g < 65536) \<Longrightarrow> length ip + 2 * length gs \<le> 16 \<Longrightarrow>
   v6_loop ip None (hex_groups gs @ ''::'' @ s) =
     (let ip = ip @ group_bytes gs in if s = [] then Inr (ip, Some (length ip), []) else v6_loop ip (Some (length ip)) s)"
proof (induction gs arbitrary: ip rule: induct_list012)
  case (2 g)
  then show ?case using v6_step_ellipsis [of g ip s] by (simp add: hex_groups_simps)
next
  case (3 g h gs)
  have "v6_loop ip None (appendHex g @ CHR '':'' # hex_groups (h # gs) @ ''::'' @ s) =
      v6_loop (ip @ group_bytes [g]) None (hex_groups (h # gs) @ ''::'' @ s)"
    using v6_step_colon [of g ip "hex_groups (h # gs) @ ''::'' @ s" None] hex_groups_head [of h gs "''::'' @ s"] 3 by simp
  moreover have "v6_loop (ip @ group_bytes [g]) None (hex_groups (h # gs) @ ''::'' @ s) =
     (let ip = (ip @ group_bytes [g]) @ group_bytes (h # gs) in if s = [] then Inr (ip, Some (length ip), []) else v6_loop ip (Some (length ip)) s)"
    using 3 by (intro "3.IH"(2)) auto
  ultimately show ?case by (simp add: hex_groups_simps Let_def)
qed simp

section \<open>The run of zeros\<close>

definition run_ok :: "nat list \<Rightarrow> nat \<times> nat \<Rightarrow> bool" where
  "run_ok gs r \<longleftrightarrow> r = (255, 255) \<or>
     (case r of (s, e) \<Rightarrow> s + 2 \<le> e \<and> e \<le> length gs \<and> gs = take s gs @ replicate (e - s) 0 @ drop e gs)"

lemma takeWhile_zeros: "gs = take i gs @ replicate (length (takeWhile ((=) 0) (drop i gs))) 0 @ drop (i + length (takeWhile ((=) 0) (drop i gs))) gs"
proof -
  let ?z = "takeWhile ((=) 0) (drop i gs)"
  have "replicate (length ?z) 0 = ?z" by (rule sym, intro replicate_eqI) (auto dest: set_takeWhileD)
  moreover have "drop i gs = ?z @ drop (length ?z) (drop i gs)" by (metis dropWhile_eq_drop takeWhile_dropWhile_id)
  ultimately have "drop i gs = replicate (length ?z) 0 @ drop (i + length ?z) gs" by (simp add: add.commute)
  then show ?thesis using append_take_drop_id [of i gs] by simp
qed

lemma zero_run_ok: "run_ok gs r \<Longrightarrow> run_ok gs (zero_run gs is r)"
proof (induction "is" arbitrary: r)
  case (Cons i "is")
  obtain s e where r: "r = (s, e)" by (cases r)
  let ?n = "length (takeWhile ((=) 0) (drop i gs))"
  have "?n \<le> length gs - i" using length_takeWhile_le [of "(=) 0" "drop i gs"] by simp
  then have "2 \<le> ?n \<Longrightarrow> i + ?n \<le> length gs" by linarith
  then have "2 \<le> ?n \<Longrightarrow> run_ok gs (i, i + ?n)" using takeWhile_zeros [of gs i] by (simp add: run_ok_def)
  then show ?case using Cons by (simp add: r Let_def)
qed simp


section \<open>Round trip\<close>

lemma hex_groups_no_percent:
  assumes "\<And>g. g \<in> set gs \<Longrightarrow> g < 65536"
  shows "CHR ''%'' \<notin> set (hex_groups gs)"
  using assms
proof (induction gs rule: induct_list012)
  case (2 g)
  then show ?case using appendHex_plain [of g] by (auto simp: hex_groups_simps)
next
  case (3 g h gs)
  then show ?case using appendHex_plain [of g] by (auto simp: hex_groups_simps)
qed (simp add: hex_groups_simps)

lemma addr_kind_colon: "(\<And>c. c \<in> set w \<Longrightarrow> c \<notin> {CHR ''.'', CHR '':'', CHR ''%''}) \<Longrightarrow> addr_kind (w @ CHR '':'' # s) = Some CHR '':''"
  by (induction w) auto

lemma parseIPv6_zone:
  assumes "CHR ''%'' \<notin> set s"
  shows "parseIPv6 (s @ (if zone = [] then [] else CHR ''%'' # zone)) =
    (if HasPrefix s ''::'' then
       if drop 2 s = [] then Inr (Addr6 (replicate 16 0) zone) else rbind (v6_loop [] (Some 0) (drop 2 s)) (v6_finish zone)
     else rbind (v6_loop [] None s) (v6_finish zone))"
  using assms by (simp add: parseIPv6_def Cut_absent Let_def)

lemma hex_groups_not_prefix: "g < 65536 \<Longrightarrow> \<not> HasPrefix (hex_groups (g # gs) @ s) ''::''"
  using hex_groups_head [of g gs s] by (auto simp: HasPrefix_iff)

lemma v6_finish_ellipsis:
  assumes "gs = take s gs @ replicate (e - s) 0 @ drop e gs" and "length gs = 8" and "s + 2 \<le> e" and "e \<le> 8"
  shows "v6_finish zone (group_bytes (take s gs) @ group_bytes (drop e gs), Some (2 * s), []) = Inr (Addr6 (group_bytes gs) zone)"
proof -
  have "length (take s gs) = s" "length (drop e gs) = 8 - e" using assms by auto
  then have len: "length (group_bytes (take s gs)) = 2 * s" "length (group_bytes (drop e gs)) = 2 * (8 - e)" by simp_all
  have zeros: "group_bytes (replicate n 0) = replicate (2 * n) 0" for n by (induction n) simp_all
  have "group_bytes gs = group_bytes (take s gs) @ replicate (2 * (e - s)) 0 @ group_bytes (drop e gs)"
    using arg_cong [OF assms(1), of group_bytes] by (simp add: zeros)
  moreover have "16 - (2 * s + 2 * (8 - e)) = 2 * (e - s)" using assms(3,4) by linarith
  moreover have "2 * s + 2 * (8 - e) < 16" using assms(3,4) by linarith
  ultimately show ?thesis using len by (simp add: v6_finish_def)
qed

lemma hex_groups_empty: "(\<And>g. g \<in> set gs \<Longrightarrow> g < 65536) \<Longrightarrow> hex_groups gs = [] \<longleftrightarrow> gs = []"
  using hex_groups_head [of "hd gs" "tl gs" "[]"] by (cases gs) (auto simp: hex_groups_simps)

lemma addr_kind_groups:
  assumes "\<And>g. g \<in> set gs \<Longrightarrow> g < 65536"
  shows "addr_kind (hex_groups gs @ CHR '':'' # z) = Some CHR '':''"
proof (cases gs)
  case (Cons g hs)
  then have "addr_kind (appendHex g @ CHR '':'' # x) = Some CHR '':''" for x
    using addr_kind_colon [of "appendHex g" x] appendHex_plain [of g] assms by auto
  then show ?thesis by (cases hs) (simp_all add: Cons hex_groups_simps)
qed (simp add: hex_groups_simps)

lemma v6_loop_leading_run:
  assumes bounds: "\<And>g. g \<in> set gs \<Longrightarrow> g < 65536" and "length gs \<le> 6"
  shows "(if hex_groups gs = [] then Inr (Addr6 (replicate 16 0) zone) else rbind (v6_loop [] (Some 0) (hex_groups gs)) (v6_finish zone)) =
    v6_finish zone (group_bytes gs, Some 0, [])"
proof (cases "gs = []")
  case True
  then show ?thesis by (simp add: hex_groups_simps v6_finish_def)
next
  case False
  then show ?thesis using v6_loop_groups [OF False bounds, of "[]" "Some 0"] hex_groups_empty [OF bounds] assms(2) by simp
qed

lemma v6_loop_inner_run:
  assumes bounds: "\<And>g. g \<in> set gs \<union> set hs \<Longrightarrow> g < 65536" and "length gs + length hs \<le> 6" and "gs \<noteq> []"
  shows "v6_loop [] None (hex_groups gs @ ''::'' @ hex_groups hs) = Inr (group_bytes gs @ group_bytes hs, Some (2 * length gs), [])"
proof -
  have "v6_loop [] None (hex_groups gs @ ''::'' @ hex_groups hs) = (let ip = group_bytes gs
      in if hex_groups hs = [] then Inr (ip, Some (2 * length gs), []) else v6_loop ip (Some (2 * length gs)) (hex_groups hs))"
    using v6_loop_groups_ellipsis [OF assms(3), of "[]" "hex_groups hs"] bounds assms(2) by (simp add: Let_def)
  moreover have "hs \<noteq> [] \<Longrightarrow> v6_loop (group_bytes gs) (Some (2 * length gs)) (hex_groups hs) =
      Inr (group_bytes gs @ group_bytes hs, Some (2 * length gs), [])"
    using bounds assms(2) by (intro v6_loop_groups) auto
  ultimately show ?thesis using hex_groups_empty [of hs] bounds by (cases "hs = []") simp_all
qed

lemma parse_run:
  assumes bounds: "\<And>g. g \<in> set gs \<union> set hs \<Longrightarrow> g < 65536" and "length gs + length hs \<le> 6"
  shows "parseIPv6 ((hex_groups gs @ ''::'' @ hex_groups hs) @ (if zone = [] then [] else CHR ''%'' # zone)) =
    v6_finish zone (group_bytes gs @ group_bytes hs, Some (2 * length gs), [])"
proof -
  have nopct: "CHR ''%'' \<notin> set (hex_groups gs @ ''::'' @ hex_groups hs)"
    using hex_groups_no_percent [of gs] hex_groups_no_percent [of hs] bounds by simp
  show ?thesis
  proof (cases gs)
    case Nil
    then show ?thesis
      unfolding parseIPv6_zone [OF nopct, of zone] using v6_loop_leading_run [of hs zone] bounds assms(2) by (simp add: hex_groups_simps split: if_splits)
  next
    case (Cons g gs')
    then have "\<not> HasPrefix (hex_groups gs @ ''::'' @ hex_groups hs) ''::''"
      using hex_groups_not_prefix [of g gs' "''::'' @ hex_groups hs"] bounds by simp
    moreover have "v6_loop [] None (hex_groups gs @ ''::'' @ hex_groups hs) = Inr (group_bytes gs @ group_bytes hs, Some (2 * length gs), [])"
      using Cons bounds assms(2) by (intro v6_loop_inner_run) simp_all
    ultimately show ?thesis unfolding parseIPv6_zone [OF nopct, of zone] by simp
  qed
qed

lemma parse_addr6_text:
  assumes "length b = 16"
  shows "addr_kind (addr6_text b @ z) = Some CHR '':'' \<and>
    parseIPv6 (addr6_text b @ (if zone = [] then [] else CHR ''%'' # zone)) = Inr (Addr6 b zone)"
proof -
  define gs where "gs = groups b"
  have gs: "length gs = 8" "\<And>g. g \<in> set gs \<Longrightarrow> g < 65536" "group_bytes gs = b"
    using assms groups_bound by (auto simp: gs_def length_groups group_bytes_groups)
  obtain s e where r: "zero_run gs [0..<8] (255, 255) = (s, e)" by (cases "zero_run gs [0..<8] (255, 255)")
  have ok: "run_ok gs (s, e)" using zero_run_ok [of gs "(255, 255)" "[0..<8]"] r by (simp add: run_ok_def)
  show ?thesis
  proof (cases "s = 255")
    case True
    then have t: "addr6_text b = hex_groups gs" using r by (simp add: addr6_text_def gs_def)
    obtain g0 g1 gs' where g: "gs = g0 # g1 # gs'" using gs(1) by (cases gs; cases "tl gs") auto
    have "\<not> HasPrefix (hex_groups gs) ''::''" using hex_groups_not_prefix [of g0 "g1 # gs'" "[]"] gs(2) by (simp add: g)
    moreover have "v6_loop [] None (hex_groups gs) = Inr (b, None, [])"
      using v6_loop_groups [of gs "[]" None] gs g by simp
    ultimately have "parseIPv6 (hex_groups gs @ (if zone = [] then [] else CHR ''%'' # zone)) = Inr (Addr6 b zone)"
      using parseIPv6_zone [of "hex_groups gs" zone] hex_groups_no_percent [of gs] gs(2) assms by (simp add: v6_finish_def del: append_Nil2)
    then show ?thesis
      using addr_kind_groups [of "[g0]" "hex_groups (g1 # gs') @ z"] gs(2) by (simp add: t g hex_groups_simps)
  next
    case False
    then have t: "addr6_text b = hex_groups (take s gs) @ ''::'' @ hex_groups (drop e gs)" using r by (simp add: addr6_text_def gs_def Let_def)
    have run: "gs = take s gs @ replicate (e - s) 0 @ drop e gs" "s + 2 \<le> e" "e \<le> 8" using ok False gs(1) by (auto simp: run_ok_def)
    have bounds: "g < 65536" if "g \<in> set (take s gs) \<union> set (drop e gs)" for g
      using that gs(2) set_take_subset [of s gs] set_drop_subset [of e gs] by blast
    have "length (take s gs) = s" "length (drop e gs) = 8 - e" using gs(1) run(2,3) by auto
    then have "parseIPv6 (addr6_text b @ (if zone = [] then [] else CHR ''%'' # zone)) = Inr (Addr6 b zone)"
      unfolding t using parse_run [of "take s gs" "drop e gs" zone] bounds v6_finish_ellipsis [OF run(1) gs(1) run(2,3), of zone] gs(3) run(2,3) by simp
    then show ?thesis using addr_kind_groups [of "take s gs" "CHR '':'' # hex_groups (drop e gs) @ z"] bounds by (simp add: t)
  qed
qed

lemma hex_group_decimal:
  "(\<And>c. c \<in> set w \<Longrightarrow> \<exists>d < 10. c = digit_char d) \<Longrightarrow> off + length w \<le> 4 \<Longrightarrow> acc < 16 ^ off \<Longrightarrow>
   \<exists>acc'. hex_group off acc (w @ CHR ''.'' # s) = Inr (off + length w, acc', CHR ''.'' # s)"
proof (induction w arbitrary: off acc)
  case Nil
  show ?case by (simp add: hex_digit_def)
next
  case (Cons c w)
  obtain d where d: "d < 10" "c = digit_char d" using Cons.prems(1) by auto
  then have "hex_digit c = Some d" using char_digit_digit [OF d(1)] by (auto simp: hex_digit_def char_digit_def Let_def split: if_splits)
  moreover have "acc * 16 + d < 16 ^ (off + 1)" using Cons.prems(3) d(1) by simp
  moreover from this have "acc * 16 + d < 65536"
    using power_increasing [of "off + 1" 4 "16 :: nat"] Cons.prems(2) by simp
  ultimately show ?case using Cons.IH [of "off + 1" "acc * 16 + d"] Cons.prems by (auto simp: Let_def)
qed

lemma digit_char_plain: "d < 10 \<Longrightarrow> digit_char d \<noteq> CHR ''%'' \<and> digit_char d \<noteq> CHR '':''"
  using char_digit_digit [of d] by (auto simp: char_digit_def)

lemma addr4_text_no_percent: "CHR ''%'' \<notin> set (addr4_text b)"
proof (induction b rule: induct_list012)
  case (2 x)
  show ?case using set_nat_decimal [of "CHR ''%''" "unat x"] digit_char_plain by (force simp: addr4_text_def)
next
  case (3 x y b)
  then show ?case using set_nat_decimal [of "CHR ''%''" "unat x"] digit_char_plain by (force simp: addr4_text_def)
qed (simp add: addr4_text_def)

lemma parse_4in6:
  assumes "length b = 16" and "Is4In6_bytes b"
  shows "parseIPv6 (''::ffff:'' @ addr4_text (drop 12 b) @ (if zone = [] then [] else CHR ''%'' # zone)) = Inr (Addr6 b zone)"
proof -
  define t where "t = drop 12 b"
  have b: "b = replicate 10 0 @ [255, 255] @ t"
    using append_take_drop_id [of 12 b] unfolding t_def assms(2) [unfolded Is4In6_bytes_def] by simp
  have "length t = 4" using assms(1) by (simp add: t_def)
  then obtain x y ys where t: "t = x # y # ys" by (cases t; cases "tl t") auto
  have x: "unat x < 256" using unsigned_less [where ?'a = nat, of x] by simp
  have v4: "addr4_text t = nat_decimal (unat x) @ CHR ''.'' # Join (map (nat_decimal \<circ> unat) (y # ys)) ''.''" by (simp add: addr4_text_def t)
  have fields: "parseIPv4Fields (addr4_text t) = Inr t"
    using v4_loop_text [of t "[]"] \<open>length t = 4\<close> by (simp add: parseIPv4Fields_def addr4_text_def t)
  have digits: "\<And>c. c \<in> set (nat_decimal (unat x)) \<Longrightarrow> \<exists>d < 10. c = digit_char d" using set_nat_decimal by blast
  obtain k acc where "hex_group 0 0 (addr4_text t) = Inr (Suc k, acc, CHR ''.'' # Join (map (nat_decimal \<circ> unat) (y # ys)) ''.'')"
  proof -
    have "length (nat_decimal (unat x)) \<le> 4" "nat_decimal (unat x) \<noteq> []" using nat_decimal_octet [OF x] by simp_all
    then obtain k where k: "length (nat_decimal (unat x)) = Suc k" "0 + Suc k \<le> 4" by (cases "nat_decimal (unat x)") auto
    have "\<exists>acc. hex_group 0 0 (addr4_text t) = Inr (0 + length (nat_decimal (unat x)), acc, CHR ''.'' # Join (map (nat_decimal \<circ> unat) (y # ys)) ''.'')"
      unfolding v4 by (rule hex_group_decimal) (use digits k in simp_all)
    then show thesis using that unfolding k(1) by (elim exE) simp
  qed
  then have loop: "v6_loop [255, 255] (Some 0) (addr4_text t) = Inr ([255, 255] @ t, Some 0, [])"
    using fields by (subst v6_loop.simps) simp
  have hd: "hd (addr4_text t) \<noteq> CHR '':''"
    using digits nat_decimal_nonempty [of "unat x"] unfolding v4 by (cases "nat_decimal (unat x)") (fastforce dest!: digit_char_plain)+
  have "appendHex 65535 = ''ffff''" by (simp add: appendHex_def hex_char_def)
  moreover have "(of_nat 65535 :: byte) = of_nat 255" unfolding word_of_nat_eq_iff by (simp add: take_bit_eq_mod)
  then have "group_bytes [65535] = [255, 255]" by (simp add: group_bytes_def)
  ultimately have "v6_loop [] (Some 0) (''ffff:'' @ addr4_text t) = Inr ([255, 255] @ t, Some 0, [])"
    using v6_step_colon [of 65535 "[]" "addr4_text t" "Some 0"] hd loop v4 by (simp del: group_bytes_simps)
  moreover have "CHR ''%'' \<notin> set (''::ffff:'' @ addr4_text t)" using addr4_text_no_percent by simp
  ultimately show ?thesis
    unfolding t_def [symmetric] using parseIPv6_zone [of "''::ffff:'' @ addr4_text t" zone] \<open>length t = 4\<close> by (simp add: v6_finish_def b)
qed

lemma ParseAddr_String:
  assumes "addr_wf a" and "Addr_IsValid a"
  shows "ParseAddr (Addr_String a) = Inr a"
proof (cases a)
  case (Addr4 b)
  then show ?thesis using assms ParseAddr_addr4_text by (simp add: addr_wf_def)
next
  case (Addr6 b zone)
  then have b: "length b = 16" using assms by (simp add: addr_wf_def)
  show ?thesis
  proof (cases "Is4In6_bytes b")
    case True
    then show ?thesis using parse_4in6 [OF b, of zone] by (simp add: Addr6 ParseAddr_def)
  next
    case False
    then show ?thesis
      using parse_addr6_text [OF b, where z = "if zone = [] then [] else CHR ''%'' # zone" and zone = zone]
      by (simp add: Addr6 ParseAddr_def del: append_Nil2)
  qed
qed (use assms in simp)


section \<open>Hosts and ports\<close>

text \<open>\<^verbatim>\<open>net.JoinHostPort\<close>, \<^verbatim>\<open>net.SplitHostPort\<close> and \<^verbatim>\<open>netip.ParseAddrPort\<close>.\<close>

definition JoinHostPort :: "string \<Rightarrow> string \<Rightarrow> string" where
  "JoinHostPort host port = (if CHR '':'' \<in> set host then ''['' @ host @ '']:'' @ port else host @ '':'' @ port)"

definition cut_last :: "char \<Rightarrow> string \<Rightarrow> (string \<times> string) option" where
  "cut_last c s = (case Cut c (rev s) of (after, before, found) \<Rightarrow> if found then Some (rev before, rev after) else None)"

definition SplitHostPort :: "string \<Rightarrow> (string \<times> string) option" where
  "SplitHostPort hostport =
     (case cut_last CHR '':'' hostport of
        None \<Rightarrow> None
      | Some (before, port) \<Rightarrow>
          if HasPrefix hostport ''['' then
            case Cut CHR '']'' hostport of (inside, rest, found) \<Rightarrow>
              if \<not> found \<or> before \<noteq> inside @ '']'' then None
              else if CHR ''['' \<in> set (drop 1 hostport) \<or> CHR '']'' \<in> set rest then None
              else Some (drop 1 inside, port)
          else if CHR '':'' \<in> set before \<or> CHR ''['' \<in> set hostport \<or> CHR '']'' \<in> set hostport then None
          else Some (before, port))"

datatype addrport_error = NotIPPort | NoIP | NoPort | MissingBracket | BadPort | BadIP netip_error | BracketsOn4 | NoBracketsOn6

definition ParseAddrPort :: "string \<Rightarrow> (addrport_error, Addr \<times> u16) result" where
  "ParseAddrPort s =
     (case cut_last CHR '':'' s of
        None \<Rightarrow> Inl NotIPPort
      | Some (ip, port) \<Rightarrow>
          if ip = [] then Inl NoIP
          else if port = [] then Inl NoPort
          else if ip ! 0 = CHR ''['' \<and> (length ip < 2 \<or> last ip \<noteq> CHR '']'') then Inl MissingBracket
          else
            let v6 = (ip ! 0 = CHR ''[''); ip = (if v6 then butlast (tl ip) else ip)
            in (case ParseUint 16 port of
                  None \<Rightarrow> Inl BadPort
                | Some n \<Rightarrow>
                    (case ParseAddr ip of
                       Inl e \<Rightarrow> Inl (BadIP e)
                     | Inr a \<Rightarrow>
                         if v6 \<and> Addr_Is4 a then Inl BracketsOn4
                         else if \<not> v6 \<and> (case a of Addr6 _ _ \<Rightarrow> True | _ \<Rightarrow> False) then Inl NoBracketsOn6
                         else Inr (a, of_nat n))))"

lemma cut_last_append: "c \<notin> set b \<Longrightarrow> cut_last c (a @ c # b) = Some (a, b)"
  by (simp add: cut_last_def)

lemma nat_decimal_no_colon: "CHR '':'' \<notin> set (nat_decimal n)"
  using set_nat_decimal [of "CHR '':''" n] digit_char_plain by force

lemma addr_kind_in_set: "addr_kind s = Some c \<Longrightarrow> c \<in> set s"
  by (induction s) (auto split: if_splits)

lemma Addr6_text_colon: "addr_wf (Addr6 b zone) \<Longrightarrow> CHR '':'' \<in> set (Addr_String (Addr6 b zone))"
  using addr_kind_in_set [of "addr6_text b @ []" "CHR '':''"] parse_addr6_text [of b "[]"] by (auto simp: addr_wf_def)

lemma addr4_text_chars: "c \<in> set (addr4_text b) \<Longrightarrow> c = CHR ''.'' \<or> (\<exists>d < 10. c = digit_char d)"
proof (induction b rule: induct_list012)
  case (2 x)
  then show ?case using set_nat_decimal [of c "unat x"] by (auto simp: addr4_text_def)
next
  case (3 x y b)
  then show ?case using set_nat_decimal [of c "unat x"] by (auto simp: addr4_text_def)
qed (simp add: addr4_text_def)

lemma digit_char_no_bracket: "d < 10 \<Longrightarrow> digit_char d \<noteq> CHR ''[''"
  using char_digit_digit [of d] by (auto simp: char_digit_def)

lemma ParseAddrPort_JoinHostPort:
  assumes "addr_wf a" and "Addr_IsValid a"
  shows "ParseAddrPort (JoinHostPort (Addr_String a) (nat_decimal (unat (port :: u16)))) = Inr (a, port)"
proof -
  let ?p = "nat_decimal (unat port)"
  have p: "?p \<noteq> []" "ParseUint 16 ?p = Some (unat port)"
    using unsigned_less [where ?'a = nat, of port] by (simp_all add: ParseUint_nat_decimal)
  note parse = ParseAddr_String [OF assms]
  show ?thesis
  proof (cases a)
    case (Addr4 b)
    have ne: "addr4_text b \<noteq> []" using parse Addr4 by (auto simp: ParseAddr_def)
    then have hd: "addr4_text b ! 0 \<noteq> CHR ''[''" using addr4_text_chars [OF nth_mem, of 0 b] digit_char_no_bracket by force
    have "CHR '':'' \<notin> set (addr4_text b)" using addr4_text_chars digit_char_plain by force
    then have "JoinHostPort (Addr_String a) ?p = addr4_text b @ CHR '':'' # ?p" by (simp add: JoinHostPort_def Addr4)
    then show ?thesis
      using ne hd p parse by (simp add: ParseAddrPort_def cut_last_append nat_decimal_no_colon Addr4 Let_def)
  next
    case (Addr6 b zone)
    then have "JoinHostPort (Addr_String a) ?p = (CHR ''['' # Addr_String a @ '']'') @ CHR '':'' # ?p"
      using Addr6_text_colon [of b zone] assms(1) by (simp add: JoinHostPort_def)
    moreover have "cut_last CHR '':'' ((CHR ''['' # Addr_String a @ '']'') @ CHR '':'' # ?p) = Some (CHR ''['' # Addr_String a @ '']'', ?p)"
      by (rule cut_last_append) (rule nat_decimal_no_colon)
    ultimately show ?thesis using p parse by (simp add: ParseAddrPort_def Let_def Addr6 del: Addr_String.simps)
  qed (use assms in simp)
qed

end
