(* ===== verification/OvpnProfile.thy ===== *)
theory OvpnProfile
  imports VpnClient OvpnLexer NetipText
begin

text \<open>
  The profile parser \<^verbatim>\<open>pkg/ovpn/parse.go\<close> above its lexical layer: directives, inline blocks, the loop
  over the lines, and \<^verbatim>\<open>finalize\<close>, which turns what was collected into a \<^verbatim>\<open>Config\<close> for
  \<^verbatim>\<open>openvpn.Dial\<close>.

  Outside are the file system, \<^verbatim>\<open>crypto/x509\<close> and \<^verbatim>\<open>crypto/tls\<close> (whether certificates and key pairs parse),
  the random source and upper-casing of text that is not ASCII: \<open>parse_env\<close>. The options are
  a pointer in the code and \<^verbatim>\<open>Parse\<close> writes to them, so they are part of the state here.
\<close>

section \<open>Paths\<close>

text \<open>\<^verbatim>\<open>path/filepath\<close> on Unix: the elements of a path, with \<open>..\<close> resolved where there is something to go back to.\<close>

fun clean_elems :: "bool \<Rightarrow> string list \<Rightarrow> string list \<Rightarrow> string list" where
  "clean_elems rooted out [] = out"
| "clean_elems rooted out (e # es) =
     (if e = '''' \<or> e = ''.'' then clean_elems rooted out es
      else if e = ''..'' then
        if out \<noteq> [] \<and> last out \<noteq> ''..'' then clean_elems rooted (butlast out) es
        else if rooted then clean_elems rooted out es
        else clean_elems rooted (out @ [e]) es
      else clean_elems rooted (out @ [e]) es)"

definition IsAbs :: "string \<Rightarrow> bool" where
  "IsAbs p = HasPrefix p ''/''"

definition Clean :: "string \<Rightarrow> string" where
  "Clean p =
     (let out = Join (clean_elems (IsAbs p) [] (Split CHR ''/'' p)) ''/''
      in if IsAbs p then ''/'' @ out else if out = [] then ''.'' else out)"

definition Join_path :: "string \<Rightarrow> string \<Rightarrow> string" where
  "Join_path a b = (if a = [] then if b = [] then [] else Clean b else Clean (a @ ''/'' @ b))"

definition Dir :: "string \<Rightarrow> string" where
  "Dir p = Clean (rev (dropWhile (\<lambda>c. c \<noteq> CHR ''/'') (rev p)))"

section \<open>Data\<close>

record Remote =
  rm_Host :: string
  rm_Port :: string
  rm_Proto :: string

definition strip_brackets :: "string \<Rightarrow> string" where
  "strip_brackets h = (if length h \<ge> 2 \<and> h ! 0 = CHR ''['' \<and> h ! (length h - 1) = CHR '']'' then subslice h 1 (length h - 1) else h)"

definition Remote_Addr :: "Remote \<Rightarrow> string" where
  "Remote_Addr r = JoinHostPort (strip_brackets (rm_Host r)) (rm_Port r)"

definition normalizeProto :: "string \<Rightarrow> string" where
  "normalizeProto p =
     (if p \<in> set [''udp'', ''udp4'', ''udp6''] then ''udp''
      else if p \<in> set [''tcp'', ''tcp-client'', ''tcp4-client'', ''tcp6-client'', ''tcp4'', ''tcp6''] then ''tcp''
      else '''')"

record ParseOptions =
  po_BaseDir :: string
  po_Username :: string
  po_Password :: string
  po_ServerNameOverride :: string
  po_AllowNoServerIdentity :: bool
  po_PickRemote :: "(Remote list \<Rightarrow> Remote) option"

definition zero_options :: ParseOptions where
  "zero_options = \<lparr>po_BaseDir = '''', po_Username = '''', po_Password = '''', po_ServerNameOverride = '''',
     po_AllowNoServerIdentity = False, po_PickRemote = None\<rparr>"

definition VersionTLS12 :: u16 where "VersionTLS12 = 0x0303"
definition VersionTLS13 :: u16 where "VersionTLS13 = 0x0304"
definition MaxInlineBytesTotal :: nat where "MaxInlineBytesTotal = 16 * 1024 * 1024"

text \<open>A byte slice that may be \<^verbatim>\<open>nil\<close> is an option; \<open>ps_warnings\<close> are the calls of the \<^verbatim>\<open>Warn\<close> callback.\<close>

record parseState =
  ps_opt :: ParseOptions
  ps_proto :: string
  ps_remotes :: "Remote list"
  ps_remoteRand :: bool
  ps_cipher :: string
  ps_dataCiphers :: "string list"
  ps_reneg :: int
  ps_tlsMinVer :: u16
  ps_tlsMaxVer :: u16
  ps_serverName :: string
  ps_authUserPass :: bool
  ps_caPEMs :: "bytes list"
  ps_certPEM :: "bytes option"
  ps_keyPEM :: "bytes option"
  ps_tlsCrypt :: "bytes option"
  ps_tlsCV2 :: "bytes option"
  ps_tlsAuth :: "bytes option"
  ps_tlsAuthKeyDir :: int
  ps_authDigest :: string
  ps_peerInfoExtra :: peer_info
  ps_scramble :: "ScrambleConfig option"
  ps_inlineBytesTotal :: nat
  ps_warnings :: "(nat \<times> string \<times> string) list"

definition newState :: "ParseOptions \<Rightarrow> parseState" where
  "newState opt =
     \<lparr>ps_opt = opt, ps_proto = '''', ps_remotes = [], ps_remoteRand = False, ps_cipher = '''', ps_dataCiphers = [],
      ps_reneg = 0, ps_tlsMinVer = 0, ps_tlsMaxVer = 0, ps_serverName = '''', ps_authUserPass = False,
      ps_caPEMs = [], ps_certPEM = None, ps_keyPEM = None, ps_tlsCrypt = None, ps_tlsCV2 = None, ps_tlsAuth = None,
      ps_tlsAuthKeyDir = -1, ps_authDigest = '''', ps_peerInfoExtra = [], ps_scramble = None,
      ps_inlineBytesTotal = 0, ps_warnings = []\<rparr>"

text \<open>
  \<^verbatim>\<open>os.ReadFile\<close> by path; for the file of credentials its content by path, and whether reading has
  failed by the time the scanner has delivered the lines it is asked for.
\<close>

record parse_env =
  pe_readFile :: "string \<Rightarrow> bytes option"
  pe_open :: "string \<Rightarrow> (string \<times> bool) option"
  pe_uni :: "string \<Rightarrow> string"
  pe_rand :: nat
  pe_certs :: "bytes \<Rightarrow> bool"
  pe_keyPair :: "bytes \<Rightarrow> bytes \<Rightarrow> bool"

datatype directive_error =
    ExpectedArgument string
  | ProtoServer
  | UnsupportedProto string
  | InvalidPort string
  | InvalidNumber string
  | NegativeReneg int
  | OldTLSVersion string
  | UnsupportedTLSVersion string
  | UnsupportedNameType string
  | FileError string scan_error
  | CannotOpen string
  | EmptyKeyFile string string
  | AuthFileIncomplete
  | BadKeyDirection string
  | ScrambleModeRequired
  | ScrambleSecretRequired string
  | ScrambleUnknownMode string
  | StaticKeyUnsupported
  | CompLzoUnsupported
  | CompressUnsupported string
  | DevTapUnsupported
  | BlockError block_error
  | InlineTooBig
  | Quoting lex_error

section \<open>Directives\<close>

definition warn :: "nat \<Rightarrow> string \<Rightarrow> string \<Rightarrow> parseState \<Rightarrow> parseState" where
  "warn line directive why s = s\<lparr>ps_warnings := ps_warnings s @ [(line, directive, why)]\<rparr>"

definition handleInline :: "string \<Rightarrow> bytes option \<Rightarrow> nat \<Rightarrow> parseState \<Rightarrow> (directive_error, parseState) result" where
  "handleInline name content line s =
     (if name = ''ca'' then Inr (s\<lparr>ps_caPEMs := ps_caPEMs s @ [case content of None \<Rightarrow> [] | Some b \<Rightarrow> b]\<rparr>)
      else if name = ''cert'' then Inr (s\<lparr>ps_certPEM := content\<rparr>)
      else if name = ''key'' then Inr (s\<lparr>ps_keyPEM := content\<rparr>)
      else if name = ''tls-crypt'' then Inr (s\<lparr>ps_tlsCrypt := content\<rparr>)
      else if name = ''tls-crypt-v2'' then Inr (s\<lparr>ps_tlsCV2 := content\<rparr>)
      else if name = ''tls-auth'' then Inr (s\<lparr>ps_tlsAuth := content\<rparr>)
      else if name = ''secret'' then Inl StaticKeyUnsupported
      else if name = ''connection'' then Inr (warn line name ''ignored inline <connection> block'' s)
      else Inr (warn line name ''ignored unknown inline block'' s))"

definition setProto :: "string list \<Rightarrow> parseState \<Rightarrow> (directive_error, parseState) result" where
  "setProto args s =
     (if length args \<noteq> 1 then Inl (ExpectedArgument ''proto'')
      else if args ! 0 = ''tcp-server'' then Inl ProtoServer
      else
        let n = normalizeProto (args ! 0)
        in if n = '''' then Inl (UnsupportedProto (args ! 0)) else Inr (s\<lparr>ps_proto := n\<rparr>))"

definition addRemote :: "string list \<Rightarrow> parseState \<Rightarrow> (directive_error, parseState) result" where
  "addRemote args s =
     (if args = [] then Inl (ExpectedArgument ''remote'')
      else if length args \<ge> 2 \<and> Atoi (args ! 1) = None then Inl (InvalidPort (args ! 1))
      else
        let r = \<lparr>rm_Host = args ! 0, rm_Port = (if length args \<ge> 2 then args ! 1 else ''1194''),
                 rm_Proto = (if length args \<ge> 3 then args ! 2 else '''')\<rparr>
        in Inr (s\<lparr>ps_remotes := ps_remotes s @ [r]\<rparr>))"

definition setRenegSec :: "string list \<Rightarrow> parseState \<Rightarrow> (directive_error, parseState) result" where
  "setRenegSec args s =
     (if length args \<noteq> 1 then Inl (ExpectedArgument ''reneg-sec'')
      else case Atoi (args ! 0) of
        None \<Rightarrow> Inl (InvalidNumber (args ! 0))
      | Some n \<Rightarrow> if n < 0 then Inl (NegativeReneg n) else Inr (s\<lparr>ps_reneg := int64 (n * sec)\<rparr>))"

definition tlsVersionFromString :: "string \<Rightarrow> (directive_error, u16) result" where
  "tlsVersionFromString v =
     (if v = ''1.0'' \<or> v = ''1.1'' then Inl (OldTLSVersion v)
      else if v = ''1.2'' then Inr VersionTLS12
      else if v = ''1.3'' then Inr VersionTLS13
      else Inl (UnsupportedTLSVersion v))"

definition setTLSMin :: "string list \<Rightarrow> parseState \<Rightarrow> (directive_error, parseState) result" where
  "setTLSMin args s =
     (if args = [] then Inl (ExpectedArgument ''tls-version-min'')
      else rbind (tlsVersionFromString (args ! 0)) (\<lambda>v. Inr (s\<lparr>ps_tlsMinVer := v\<rparr>)))"

definition setTLSMax :: "string list \<Rightarrow> parseState \<Rightarrow> (directive_error, parseState) result" where
  "setTLSMax args s =
     (if args = [] then Inl (ExpectedArgument ''tls-version-max'')
      else rbind (tlsVersionFromString (args ! 0)) (\<lambda>v. Inr (s\<lparr>ps_tlsMaxVer := v\<rparr>)))"

definition setVerifyName :: "string list \<Rightarrow> parseState \<Rightarrow> (directive_error, parseState) result" where
  "setVerifyName args s =
     (if args = [] then Inl (ExpectedArgument ''verify-x509-name'')
      else if length args \<ge> 2 \<and> args ! 1 \<noteq> ''name'' then Inl (UnsupportedNameType (args ! 1))
      else Inr (s\<lparr>ps_serverName := args ! 0\<rparr>))"

definition resolvePath :: "parseState \<Rightarrow> string \<Rightarrow> string" where
  "resolvePath s p = (if IsAbs p then p else Join_path (po_BaseDir (ps_opt s)) p)"

text \<open>\<^verbatim>\<open>strings.TrimRight(s, "\r")\<close>; the scanner's default limit is 64 KiB.\<close>

definition TrimRightCR :: "string \<Rightarrow> string" where
  "TrimRightCR s = rev (dropWhile (\<lambda>c. c = return) (rev s))"

definition readAuthFile :: "parse_env \<Rightarrow> string \<Rightarrow> parseState \<Rightarrow> (directive_error, parseState) result" where
  "readAuthFile env rel s =
     (case pe_open env (resolvePath s rel) of
        None \<Rightarrow> Inl (CannotOpen ''auth-user-pass'')
      | Some (text, readError) \<Rightarrow>
          (case scan_lines (64 * 1024) readError text of (ls, err) \<Rightarrow>
            let user = (if length ls \<ge> 1 then TrimRightCR (ls ! 0) else '''');
                pass = (if length ls \<ge> 2 then TrimRightCR (ls ! 1) else '''')
            in case (if length ls < 2 then err else if readError then Some ErrRead else None) of
                 Some e \<Rightarrow> Inl (FileError ''auth-user-pass'' e)
               | None \<Rightarrow>
                   if user = '''' \<or> pass = '''' then Inl AuthFileIncomplete
                   else Inr (s\<lparr>ps_opt := (ps_opt s)\<lparr>po_Username := user, po_Password := pass\<rparr>\<rparr>)))"

definition read_key :: "parse_env \<Rightarrow> string \<Rightarrow> parseState \<Rightarrow> string \<Rightarrow> (directive_error, bytes) result" where
  "read_key env what s arg =
     (case pe_readFile env (resolvePath s arg) of None \<Rightarrow> Inl (CannotOpen what) | Some b \<Rightarrow> Inr b)"

definition loadCAFile :: "parse_env \<Rightarrow> string list \<Rightarrow> parseState \<Rightarrow> (directive_error, parseState) result" where
  "loadCAFile env args s =
     (if length args \<noteq> 1 then Inl (ExpectedArgument ''ca'')
      else rbind (read_key env ''ca'' s (args ! 0)) (\<lambda>b. Inr (s\<lparr>ps_caPEMs := ps_caPEMs s @ [b]\<rparr>)))"

definition loadCertFile :: "parse_env \<Rightarrow> string list \<Rightarrow> parseState \<Rightarrow> (directive_error, parseState) result" where
  "loadCertFile env args s =
     (if length args \<noteq> 1 then Inl (ExpectedArgument ''cert'')
      else rbind (read_key env ''cert'' s (args ! 0)) (\<lambda>b. Inr (s\<lparr>ps_certPEM := Some b\<rparr>)))"

definition loadKeyFile :: "parse_env \<Rightarrow> string list \<Rightarrow> parseState \<Rightarrow> (directive_error, parseState) result" where
  "loadKeyFile env args s =
     (if length args \<noteq> 1 then Inl (ExpectedArgument ''key'')
      else rbind (read_key env ''key'' s (args ! 0)) (\<lambda>b. Inr (s\<lparr>ps_keyPEM := Some b\<rparr>)))"

definition loadTLSCryptFile :: "parse_env \<Rightarrow> string list \<Rightarrow> bool \<Rightarrow> parseState \<Rightarrow> (directive_error, parseState) result" where
  "loadTLSCryptFile env args v2 s =
     (if length args < 1 then Inl (ExpectedArgument ''tls-crypt'')
      else rbind (read_key env ''tls-crypt'' s (args ! 0)) (\<lambda>b.
        if length b = 0 then Inl (EmptyKeyFile ''tls-crypt'' (args ! 0))
        else if v2 then Inr (s\<lparr>ps_tlsCV2 := Some b\<rparr>) else Inr (s\<lparr>ps_tlsCrypt := Some b\<rparr>)))"

definition setKeyDirection :: "string list \<Rightarrow> parseState \<Rightarrow> (directive_error, parseState) result" where
  "setKeyDirection args s =
     (if length args \<noteq> 1 then Inl (ExpectedArgument ''key-direction'')
      else case Atoi (args ! 0) of
        None \<Rightarrow> Inl (BadKeyDirection (args ! 0))
      | Some n \<Rightarrow> if n \<noteq> 0 \<and> n \<noteq> 1 then Inl (BadKeyDirection (args ! 0)) else Inr (s\<lparr>ps_tlsAuthKeyDir := n\<rparr>))"

definition loadTLSAuthFile :: "parse_env \<Rightarrow> string list \<Rightarrow> parseState \<Rightarrow> (directive_error, parseState) result" where
  "loadTLSAuthFile env args s =
     (if length args < 1 then Inl (ExpectedArgument ''tls-auth'')
      else rbind (read_key env ''tls-auth'' s (args ! 0)) (\<lambda>b.
        if length b = 0 then Inl (EmptyKeyFile ''tls-auth'' (args ! 0))
        else
          let s = s\<lparr>ps_tlsAuth := Some b\<rparr>
          in if length args \<ge> 2 then setKeyDirection (subslice args 1 2) s else Inr s))"

definition addSetenv :: "string list \<Rightarrow> parseState \<Rightarrow> parseState" where
  "addSetenv args s =
     (if length args < 2 \<or> \<not> HasPrefix (args ! 0) ''UV_'' then s
      else s\<lparr>ps_peerInfoExtra := AList.update (args ! 0) (args ! 1) (ps_peerInfoExtra s)\<rparr>)"

definition setScramble :: "string list \<Rightarrow> parseState \<Rightarrow> (directive_error, parseState) result" where
  "setScramble args s =
     (if args = [] then Inl ScrambleModeRequired
      else
        let mode = args ! 0;
            secret = (if length args < 2 then '''' else args ! 1)
        in if mode = ''xormask'' then
             if secret = '''' then Inl (ScrambleSecretRequired mode)
             else Inr (s\<lparr>ps_scramble := Some \<lparr>sc_Mode = ScrambleXorMask, sc_Key = bytes_of_string secret\<rparr>\<rparr>)
           else if mode = ''obfuscate'' then
             if secret = '''' then Inl (ScrambleSecretRequired mode)
             else Inr (s\<lparr>ps_scramble := Some \<lparr>sc_Mode = ScrambleObfuscate, sc_Key = bytes_of_string secret\<rparr>\<rparr>)
           else if mode = ''xorptrpos'' then Inr (s\<lparr>ps_scramble := Some \<lparr>sc_Mode = ScrambleXorPtrPos, sc_Key = []\<rparr>\<rparr>)
           else if mode = ''reverse'' then Inr (s\<lparr>ps_scramble := Some \<lparr>sc_Mode = ScrambleReverse, sc_Key = []\<rparr>\<rparr>)
           else Inl (ScrambleUnknownMode mode))"

text \<open>\<^verbatim>\<open>strings.ToUpper\<close>\<close>

definition ToUpper_uni :: "(string \<Rightarrow> string) \<Rightarrow> string \<Rightarrow> string" where
  "ToUpper_uni uni s = (if is_ascii s then ToUpper s else uni s)"

definition split_ciphers :: "string \<Rightarrow> string list" where
  "split_ciphers a = filter (\<lambda>c. c \<noteq> '''') (map TrimSpace (Split CHR '':'' a))"

definition noise_directives :: "string list" where
  "noise_directives =
     [''client'', ''tls-client'', ''pull'', ''nopull'', ''persist-key'', ''persist-tun'', ''resolv-retry'',
      ''script-security'', ''mute'', ''mute-replay-warnings'', ''verb'', ''auth-nocache'',
      ''tun-mtu'', ''tun-mtu-extra'', ''link-mtu'', ''fragment'', ''mssfix'',
      ''route'', ''route-gateway'', ''route-metric'', ''route-delay'',
      ''route-noexec'', ''redirect-gateway'', ''redirect-private'',
      ''dhcp-option'', ''register-dns'', ''sndbuf'', ''rcvbuf'', ''fast-io'',
      ''connect-retry'', ''connect-retry-max'', ''connect-timeout'',
      ''replay-window'', ''key-method'', ''tls-cipher'', ''tls-ciphersuites'']"

definition handleDirective :: "parse_env \<Rightarrow> string \<Rightarrow> string list \<Rightarrow> nat \<Rightarrow> parseState \<Rightarrow> (directive_error, parseState) result" where
  "handleDirective env name args line s =
     (if name = ''proto'' then setProto args s
      else if name = ''remote'' then addRemote args s
      else if name = ''remote-random'' then Inr (s\<lparr>ps_remoteRand := True\<rparr>)
      else if name \<in> set [''rport'', ''lport'', ''local'', ''nobind''] then Inr s
      else if name = ''cipher'' then
        if length args \<noteq> 1 then Inl (ExpectedArgument name) else Inr (s\<lparr>ps_cipher := args ! 0\<rparr>)
      else if name = ''data-ciphers'' \<or> name = ''ncp-ciphers'' then
        if length args \<noteq> 1 then Inl (ExpectedArgument name)
        else Inr (s\<lparr>ps_dataCiphers := ps_dataCiphers s @ split_ciphers (args ! 0)\<rparr>)
      else if name = ''auth'' then
        Inr (if length args = 1 then s\<lparr>ps_authDigest := ToUpper_uni (pe_uni env) (args ! 0)\<rparr> else s)
      else if name = ''ca'' then loadCAFile env args s
      else if name = ''cert'' then loadCertFile env args s
      else if name = ''key'' then loadKeyFile env args s
      else if name = ''tls-crypt'' then loadTLSCryptFile env args False s
      else if name = ''tls-crypt-v2'' then loadTLSCryptFile env args True s
      else if name = ''tls-auth'' then loadTLSAuthFile env args s
      else if name = ''tls-version-min'' then setTLSMin args s
      else if name = ''tls-version-max'' then setTLSMax args s
      else if name = ''verify-x509-name'' then setVerifyName args s
      else if name = ''remote-cert-tls'' then Inr s
      else if name \<in> set [''reneg-sec'', ''reneg-bytes'', ''reneg-pkts''] then
        if name = ''reneg-sec'' then setRenegSec args s else Inr (warn line name ''ignored (use --reneg-sec)'' s)
      else if name \<in> set [''keepalive'', ''ping'', ''ping-restart'', ''ping-exit'', ''hand-window'', ''tran-window'',
                          ''explicit-exit-notify''] then Inr s
      else if name = ''scramble'' then setScramble args s
      else if name = ''key-direction'' then setKeyDirection args s
      else if name = ''setenv'' then Inr (addSetenv args s)
      else if name = ''auth-user-pass'' then
        let s = s\<lparr>ps_authUserPass := True\<rparr>
        in if length args = 1 then readAuthFile env (args ! 0) s
           else if length args > 1 then Inl (ExpectedArgument name)
           else Inr s
      else if name = ''auth-retry'' then Inr s
      else if name = ''comp-lzo'' then
        if length args = 1 \<and> (args ! 0 = ''no'' \<or> args ! 0 = ''off'') then Inr s else Inl CompLzoUnsupported
      else if name = ''compress'' then
        if args = [] \<or> args ! 0 = ''stub-v2'' \<or> args ! 0 = '''' then Inr s else Inl (CompressUnsupported (args ! 0))
      else if name = ''dev'' then
        if length args = 1 \<and> HasPrefix (args ! 0) ''tap'' then Inl DevTapUnsupported else Inr s
      else if name = ''dev-type'' then
        if length args = 1 \<and> args ! 0 = ''tap'' then Inl DevTapUnsupported else Inr s
      else if name = ''topology'' then Inr s
      else if name \<in> set noise_directives then Inr s
      else Inr (warn line name ''ignored unknown directive'' s))"

section \<open>The lines of a profile\<close>

datatype final_error =
    NoRemote
  | NoControlKey
  | ManyControlKeys
  | BadCA nat
  | ErrNoServerIdentity
  | KeyPairIncomplete
  | BadKeyPair
  | UnsupportedCipher string

datatype parse_error =
    AtLine nat directive_error
  | AtDirective nat string directive_error
  | ScanFailed scan_error
  | Finalize final_error
  | OpenFailed

definition UTF8_BOM :: string where
  "UTF8_BOM = [CHR 0xEF, CHR 0xBB, CHR 0xBF]"

text \<open>A line without byte order mark, comment and surrounding space.\<close>

definition bare_line :: "nat \<Rightarrow> string \<Rightarrow> string" where
  "bare_line lineNo raw = TrimSpace (stripComment (if lineNo = 1 then TrimPrefix raw UTF8_BOM else raw))"

text \<open>What the loop does with the content of a block it has read.\<close>

definition add_block :: "string \<Rightarrow> bytes option \<Rightarrow> nat \<Rightarrow> parseState \<Rightarrow> (parse_error, parseState) result" where
  "add_block name content lineNo s =
     (let s = s\<lparr>ps_inlineBytesTotal := ps_inlineBytesTotal s + (case content of None \<Rightarrow> 0 | Some b \<Rightarrow> length b)\<rparr>
      in if ps_inlineBytesTotal s > MaxInlineBytesTotal then Inl (AtLine lineNo InlineTooBig)
         else map_sum (AtLine lineNo) id (handleInline name content lineNo s))"

definition add_line :: "parse_env \<Rightarrow> string \<Rightarrow> nat \<Rightarrow> parseState \<Rightarrow> (parse_error, parseState) result" where
  "add_line env line lineNo s =
     (case tokenize line of
        Inl e \<Rightarrow> Inl (AtLine lineNo (Quoting e))
      | Inr [] \<Rightarrow> Inr s
      | Inr (name # args) \<Rightarrow> map_sum (AtDirective lineNo name) id (handleDirective env name args lineNo s))"

text \<open>\<open>lineNo\<close> is the number of lines read before the list.\<close>

function run_lines :: "parse_env \<Rightarrow> nat \<Rightarrow> string list \<times> scan_error option \<Rightarrow> parseState \<Rightarrow> (parse_error, parseState) result" where
  "run_lines env lineNo ([], err) s = (case err of Some e \<Rightarrow> Inl (ScanFailed e) | None \<Rightarrow> Inr s)"
| "run_lines env lineNo (raw # ls, err) s =
     (let lineNo = lineNo + 1;
          line = bare_line lineNo raw
      in if line = '''' then run_lines env lineNo (ls, err) s
         else case openTag line of
           Some name \<Rightarrow>
             (case readInlineBlock name lineNo (ls, err) of
                Inl e \<Rightarrow> Inl (AtLine lineNo (BlockError e))
              | Inr (content, endLine, ls') \<Rightarrow>
                  (case add_block name content lineNo s of Inl e \<Rightarrow> Inl e | Inr s \<Rightarrow> run_lines env endLine (ls', err) s))
         | None \<Rightarrow>
             (case add_line env line lineNo s of Inl e \<Rightarrow> Inl e | Inr s \<Rightarrow> run_lines env lineNo (ls, err) s))"
  by pat_completeness auto
termination
  by (relation "measure (\<lambda>(_, _, (ls, _), _). length ls)") (auto dest!: readInlineBlock_shorter)

definition run :: "parse_env \<Rightarrow> string \<Rightarrow> bool \<Rightarrow> parseState \<Rightarrow> (parse_error, parseState) result" where
  "run env text readError s = run_lines env 0 (scan_lines (8 * 1024 * 1024) readError text) s"

section \<open>Finalize\<close>

record tls_config =
  tc_MinVersion :: u16
  tc_MaxVersion :: u16
  tc_ServerName :: string
  tc_RootCAs :: "bytes list option"
  tc_InsecureSkipVerify :: bool
  tc_VerifyConnection :: bool  \<comment> \<open>the callback below is installed\<close>
  tc_Certificates :: "(bytes \<times> bytes) list"

record Parsed =
  pd_Config :: ClientConfig
  pd_TLS :: tls_config
  pd_Remotes :: "Remote list"
  pd_AuthUserPass :: bool
  pd_SourcePath :: string

text \<open>\<^verbatim>\<open>rand.IntN(n)\<close> is a number below \<open>n\<close>: that of the environment, reduced.\<close>

definition pickRemote :: "parse_env \<Rightarrow> parseState \<Rightarrow> Remote" where
  "pickRemote env s =
     (case po_PickRemote (ps_opt s) of
        Some pick \<Rightarrow> pick (ps_remotes s)
      | None \<Rightarrow>
          if ps_remoteRand s \<and> length (ps_remotes s) > 1 then ps_remotes s ! (pe_rand env mod length (ps_remotes s))
          else ps_remotes s ! 0)"

definition isHostname :: "string \<Rightarrow> bool" where
  "isHostname h =
     (if h = '''' then False else case ParseAddr (strip_brackets h) of Inl _ \<Rightarrow> True | Inr _ \<Rightarrow> False)"

fun validateCiphers :: "string list \<Rightarrow> string option" where
  "validateCiphers [] = None"
| "validateCiphers (c # cs) =
     (if c \<in> set [''AES-256-GCM'', ''AES-128-GCM'', ''CHACHA20-POLY1305''] then validateCiphers cs else Some c)"

fun append_certs :: "parse_env \<Rightarrow> nat \<Rightarrow> bytes list \<Rightarrow> nat option" where
  "append_certs env i [] = None"
| "append_certs env i (pem # pems) = (if pe_certs env pem then append_certs env (i + 1) pems else Some i)"

text \<open>
  The callback installed when there is no server name to match. \<open>x509_verify\<close> is the verification
  of a certificate for server authentication with given roots and intermediates.
\<close>

datatype verify_error = NoPeerCertificate | CertVerifyFailed

definition VerifyConnection :: "(bytes list option \<Rightarrow> 'cert list \<Rightarrow> 'cert \<Rightarrow> bool) \<Rightarrow> bytes list option \<Rightarrow> 'cert list \<Rightarrow> verify_error option" where
  "VerifyConnection x509_verify roots peerCerts =
     (case peerCerts of
        [] \<Rightarrow> Some NoPeerCertificate
      | c # intermediates \<Rightarrow> if x509_verify roots intermediates c then None else Some CertVerifyFailed)"

definition control_keys :: "parseState \<Rightarrow> nat" where
  "control_keys s = length (filter (\<lambda>k. case k of None \<Rightarrow> False | Some b \<Rightarrow> length b > 0) [ps_tlsCrypt s, ps_tlsCV2 s, ps_tlsAuth s])"

definition chosen_name :: "parseState \<Rightarrow> Remote \<Rightarrow> string" where
  "chosen_name s picked =
     (if po_ServerNameOverride (ps_opt s) \<noteq> '''' then po_ServerNameOverride (ps_opt s)
      else if ps_serverName s \<noteq> '''' then ps_serverName s
      else if isHostname (rm_Host picked) then rm_Host picked
      else '''')"

definition chosen_ciphers :: "parseState \<Rightarrow> string list" where
  "chosen_ciphers s =
     (let ciphers = filter (\<lambda>c. \<not> EqualFold c ''none'') (ps_dataCiphers s)
      in if ciphers = [] \<and> ps_cipher s \<noteq> '''' \<and> \<not> EqualFold (ps_cipher s) ''none'' then [ps_cipher s] else ciphers)"

definition em_dash :: string where
  "em_dash = [CHR 0xE2, CHR 0x80, CHR 0x94]"

definition identity_warnings :: "parseState \<Rightarrow> parseState" where
  "identity_warnings s =
     warn 0 ''tls''
       (''AllowNoServerIdentity=true '' @ em_dash @ '' server certificate identity will NOT be checked; '' @
        ''any valid cert from the same CA passes verification'')
       (if ps_caPEMs s = []
        then warn 0 ''ca''
          (''no <ca> in config and no verify-x509-name; server cert will be verified against the system CA pool '' @
           ''(set verify-x509-name or provide a <ca> block to be explicit)'') s
        else s)"

definition tls_part :: "parse_env \<Rightarrow> Remote \<Rightarrow> parseState \<Rightarrow> (final_error, tls_config \<times> parseState) result" where
  "tls_part env picked s =
     (let name = chosen_name s picked;
          roots = (if ps_caPEMs s = [] then None else Some (ps_caPEMs s));
          tlsCfg = \<lparr>tc_MinVersion = (if ps_tlsMinVer s \<noteq> 0 then ps_tlsMinVer s else VersionTLS12),
                    tc_MaxVersion = ps_tlsMaxVer s, tc_ServerName = name, tc_RootCAs = roots,
                    tc_InsecureSkipVerify = False, tc_VerifyConnection = False, tc_Certificates = []\<rparr>
      in case append_certs env 0 (ps_caPEMs s) of
           Some i \<Rightarrow> Inl (BadCA i)
         | None \<Rightarrow>
             if name = '''' \<and> \<not> po_AllowNoServerIdentity (ps_opt s) then Inl ErrNoServerIdentity
             else
               let (tlsCfg, s) = (if name = '''' then (tlsCfg\<lparr>tc_InsecureSkipVerify := True, tc_VerifyConnection := True\<rparr>, identity_warnings s)
                                  else (tlsCfg, s))
               in (case (ps_certPEM s, ps_keyPEM s) of
                     (None, None) \<Rightarrow> Inr (tlsCfg, s)
                   | (Some cert, Some key) \<Rightarrow>
                       if pe_keyPair env cert key then Inr (tlsCfg\<lparr>tc_Certificates := [(cert, key)]\<rparr>, s) else Inl BadKeyPair
                   | _ \<Rightarrow> Inl KeyPairIncomplete))"

definition slice_bytes :: "bytes option \<Rightarrow> bytes" where
  "slice_bytes b = (case b of None \<Rightarrow> [] | Some b \<Rightarrow> b)"

definition finalize :: "parse_env \<Rightarrow> parseState \<Rightarrow> (final_error, Parsed \<times> parseState) result" where
  "finalize env s =
     (if ps_remotes s = [] then Inl NoRemote
      else
        let s = (if ps_proto s = '''' then s\<lparr>ps_proto := ''udp''\<rparr> else s)
        in if control_keys s = 0 then Inl NoControlKey
           else if control_keys s > 1 then Inl ManyControlKeys
           else
             let picked = pickRemote env s
             in rbind (tls_part env picked s) (\<lambda>(tlsCfg, s).
                let ciphers = chosen_ciphers s
                in case validateCiphers ciphers of
                     Some c \<Rightarrow> Inl (UnsupportedCipher c)
                   | None \<Rightarrow>
                       let n = normalizeProto (rm_Proto picked);
                           network = (if n \<noteq> '''' then n else ps_proto s);
                           keyDir = (if ps_tlsAuthKeyDir s < 0 then if ps_tlsAuth s \<noteq> None then 1 else 0 else ps_tlsAuthKeyDir s);
                           cfg = \<lparr>cc_Network = network, cc_RemoteAddr = Remote_Addr picked, cc_DialTransport = False,
                                  cc_Scramble = ps_scramble s, cc_TLSConfig = True,
                                  cc_Username = po_Username (ps_opt s), cc_Password = po_Password (ps_opt s),
                                  cc_TLSCryptV1 = slice_bytes (ps_tlsCrypt s), cc_TLSCryptV2 = slice_bytes (ps_tlsCV2 s),
                                  cc_TLSAuth = slice_bytes (ps_tlsAuth s), cc_Auth = ps_authDigest s, cc_KeyDirection = keyDir,
                                  cc_PeerInfoExtra = ps_peerInfoExtra s, cc_Ciphers = ciphers, cc_Reneg = ps_reneg s,
                                  cc_AutoReconnect = False, cc_ReconnectMaxAttempts = 0, cc_ReconnectMaxInterval = 0,
                                  cc_MaxConsecutiveStalls = 0, cc_StableSessionThreshold = 0, cc_PeerInfoVersion = ''''\<rparr>
                       in Inr (\<lparr>pd_Config = cfg, pd_TLS = tlsCfg, pd_Remotes = ps_remotes s,
                                pd_AuthUserPass = ps_authUserPass s, pd_SourcePath = ''''\<rparr>, s)))"

section \<open>Parse\<close>

text \<open>
  The result with the options as they are afterwards: the caller passed a pointer to them. After an
  error they are left out.
\<close>

definition Parse :: "parse_env \<Rightarrow> string \<Rightarrow> bool \<Rightarrow> ParseOptions option \<Rightarrow> (parse_error, Parsed \<times> ParseOptions) result" where
  "Parse env text readError opt =
     (let opt = (case opt of None \<Rightarrow> zero_options | Some opt \<Rightarrow> opt);
          opt = (if po_BaseDir opt = '''' then opt\<lparr>po_BaseDir := ''.''\<rparr> else opt)
      in rbind (run env text readError (newState opt)) (\<lambda>s.
         map_sum Finalize (\<lambda>(p, s). (p, ps_opt s)) (finalize env s)))"

definition ParseFile :: "parse_env \<Rightarrow> (string \<Rightarrow> (string \<times> bool) option) \<Rightarrow> string \<Rightarrow> ParseOptions option \<Rightarrow> (parse_error, Parsed \<times> ParseOptions) result" where
  "ParseFile env fs path opt =
     (case fs path of
        None \<Rightarrow> Inl OpenFailed
      | Some (text, readError) \<Rightarrow>
          let opt = (case opt of None \<Rightarrow> zero_options | Some opt \<Rightarrow> opt);
              opt = (if po_BaseDir opt = '''' then opt\<lparr>po_BaseDir := Dir path\<rparr> else opt)
          in rbind (Parse env text readError (Some opt)) (\<lambda>(p, opt). Inr (p\<lparr>pd_SourcePath := path\<rparr>, opt)))"

end
