(* ===== verification/OvpnProperties.thy ===== *)
theory OvpnProperties
  imports OvpnProfile
begin

text \<open>
  What the profile parser guarantees: every profile it accepts is one the client can dial
  (\<open>profile_dialable\<close>), and every list of directives and blocks, written down with quoting,
  comments, indentation and either kind of line ends, is acted upon in order and nothing else
  (\<open>profile_text_roundtrip\<close>), errors naming the line they are on.
\<close>

section \<open>Accepted profiles\<close>

text \<open>What holds of the parser's state after any number of lines, started with the options \<open>opt\<close>.\<close>

definition profile_inv :: "ParseOptions \<Rightarrow> parseState \<Rightarrow> bool" where
  "profile_inv opt s \<longleftrightarrow>
     ps_proto s \<in> {'''', ''udp'', ''tcp''} \<and>
     ps_tlsMinVer s \<in> {0, VersionTLS12, VersionTLS13} \<and> ps_tlsMaxVer s \<in> {0, VersionTLS12, VersionTLS13} \<and>
     ps_tlsAuthKeyDir s \<in> {-1, 0, 1} \<and> validateScramble (ps_scramble s) = None \<and>
     (\<forall>r \<in> set (ps_remotes s). Atoi (rm_Port r) \<noteq> None) \<and> ps_inlineBytesTotal s \<le> MaxInlineBytesTotal \<and>
     po_ServerNameOverride (ps_opt s) = po_ServerNameOverride opt \<and>
     po_AllowNoServerIdentity (ps_opt s) = po_AllowNoServerIdentity opt \<and>
     po_PickRemote (ps_opt s) = po_PickRemote opt \<and> po_BaseDir (ps_opt s) = po_BaseDir opt"

lemma profile_inv_frame [simp]:
  "profile_inv opt (warn line d why s) \<longleftrightarrow> profile_inv opt s"
  "profile_inv opt (s\<lparr>ps_caPEMs := pems\<rparr>) \<longleftrightarrow> profile_inv opt s"
  "profile_inv opt (s\<lparr>ps_certPEM := b\<rparr>) \<longleftrightarrow> profile_inv opt s"
  "profile_inv opt (s\<lparr>ps_keyPEM := b\<rparr>) \<longleftrightarrow> profile_inv opt s"
  "profile_inv opt (s\<lparr>ps_tlsCrypt := b\<rparr>) \<longleftrightarrow> profile_inv opt s"
  "profile_inv opt (s\<lparr>ps_tlsCV2 := b\<rparr>) \<longleftrightarrow> profile_inv opt s"
  "profile_inv opt (s\<lparr>ps_tlsAuth := b\<rparr>) \<longleftrightarrow> profile_inv opt s"
  "profile_inv opt (s\<lparr>ps_authUserPass := yes\<rparr>) \<longleftrightarrow> profile_inv opt s"
  "profile_inv opt (s\<lparr>ps_remoteRand := yes\<rparr>) \<longleftrightarrow> profile_inv opt s"
  "profile_inv opt (s\<lparr>ps_cipher := c\<rparr>) \<longleftrightarrow> profile_inv opt s"
  "profile_inv opt (s\<lparr>ps_dataCiphers := cs\<rparr>) \<longleftrightarrow> profile_inv opt s"
  "profile_inv opt (s\<lparr>ps_authDigest := d\<rparr>) \<longleftrightarrow> profile_inv opt s"
  "profile_inv opt (s\<lparr>ps_reneg := i\<rparr>) \<longleftrightarrow> profile_inv opt s"
  "profile_inv opt (s\<lparr>ps_serverName := c\<rparr>) \<longleftrightarrow> profile_inv opt s"
  "profile_inv opt (s\<lparr>ps_peerInfoExtra := pie\<rparr>) \<longleftrightarrow> profile_inv opt s"
  by (simp_all add: profile_inv_def warn_def)

text \<open>The updates of fields the invariant speaks of.\<close>

lemma profile_inv_update:
  assumes "profile_inv opt s"
  shows "p \<in> {'''', ''udp'', ''tcp''} \<Longrightarrow> profile_inv opt (s\<lparr>ps_proto := p\<rparr>)"
    and "v \<in> {0, VersionTLS12, VersionTLS13} \<Longrightarrow> profile_inv opt (s\<lparr>ps_tlsMinVer := v\<rparr>)"
    and "v \<in> {0, VersionTLS12, VersionTLS13} \<Longrightarrow> profile_inv opt (s\<lparr>ps_tlsMaxVer := v\<rparr>)"
    and "d \<in> {-1, 0, 1} \<Longrightarrow> profile_inv opt (s\<lparr>ps_tlsAuthKeyDir := d\<rparr>)"
    and "validateScramble sc = None \<Longrightarrow> profile_inv opt (s\<lparr>ps_scramble := sc\<rparr>)"
    and "Atoi (rm_Port r) \<noteq> None \<Longrightarrow> profile_inv opt (s\<lparr>ps_remotes := ps_remotes s @ [r]\<rparr>)"
    and "n \<le> MaxInlineBytesTotal \<Longrightarrow> profile_inv opt (s\<lparr>ps_inlineBytesTotal := n\<rparr>)"
    and "profile_inv opt (s\<lparr>ps_opt := (ps_opt s)\<lparr>po_Username := u, po_Password := pw\<rparr>\<rparr>)"
  using assms by (simp_all add: profile_inv_def)

lemma profile_inv_new [simp]: "profile_inv opt (newState opt)"
  by (simp add: profile_inv_def newState_def validateScramble_def)

lemma handleInline_inv: "profile_inv opt s \<Longrightarrow> result_ok (profile_inv opt) (handleInline name content line s)"
  by (simp add: handleInline_def result_ok_def)

lemma setProto_inv: "profile_inv opt s \<Longrightarrow> result_ok (profile_inv opt) (setProto args s)"
  by (auto simp: setProto_def normalizeProto_def result_ok_def Let_def intro!: profile_inv_update split: if_splits)

lemma default_port: "Atoi ''1194'' = Some 1194"
  by (simp add: Atoi_def char_digit_def)

lemma addRemote_inv: "profile_inv opt s \<Longrightarrow> result_ok (profile_inv opt) (addRemote args s)"
  by (auto simp: addRemote_def result_ok_def Let_def default_port intro!: profile_inv_update split: if_splits)

lemma setTLS_inv:
  assumes "profile_inv opt s"
  shows "result_ok (profile_inv opt) (setTLSMin args s)" "result_ok (profile_inv opt) (setTLSMax args s)"
  using assms
  by (auto simp: setTLSMin_def setTLSMax_def tlsVersionFromString_def result_ok_def intro!: profile_inv_update split: if_splits)

lemma setKeyDirection_inv: "profile_inv opt s \<Longrightarrow> result_ok (profile_inv opt) (setKeyDirection args s)"
  by (auto simp: setKeyDirection_def result_ok_def intro!: profile_inv_update split: if_splits option.splits)

lemma setScramble_inv: "profile_inv opt s \<Longrightarrow> result_ok (profile_inv opt) (setScramble args s)"
  by (auto simp: setScramble_def result_ok_def validateScramble_def Let_def intro!: profile_inv_update split: if_splits)

lemma setters_inv:
  assumes "profile_inv opt s"
  shows "result_ok (profile_inv opt) (setRenegSec args s)" "result_ok (profile_inv opt) (setVerifyName args s)"
    "profile_inv opt (addSetenv args s)"
  using assms by (simp_all add: setRenegSec_def setVerifyName_def addSetenv_def result_ok_def split: option.split)

lemma readAuthFile_inv: "profile_inv opt s \<Longrightarrow> result_ok (profile_inv opt) (readAuthFile env rel s)"
  by (auto simp: readAuthFile_def result_ok_def Let_def intro!: profile_inv_update split: if_splits option.splits prod.splits)

lemma load_inv:
  assumes "profile_inv opt s"
  shows "result_ok (profile_inv opt) (loadCAFile env args s)" "result_ok (profile_inv opt) (loadCertFile env args s)"
    "result_ok (profile_inv opt) (loadKeyFile env args s)" "result_ok (profile_inv opt) (loadTLSCryptFile env args v2 s)"
    "result_ok (profile_inv opt) (loadTLSAuthFile env args s)"
  using assms
  by (auto simp: loadCAFile_def loadCertFile_def loadKeyFile_def loadTLSCryptFile_def loadTLSAuthFile_def Let_def
      intro!: result_ok_if result_ok_rbind result_ok_Inl result_ok_Inr setKeyDirection_inv)

lemmas directive_invs = setProto_inv addRemote_inv setTLS_inv setKeyDirection_inv setScramble_inv setters_inv readAuthFile_inv load_inv

lemma handleDirective_inv: "profile_inv opt s \<Longrightarrow> result_ok (profile_inv opt) (handleDirective env name args line s)"
  unfolding handleDirective_def Let_def
  by (intro result_ok_if directive_invs result_ok_Inl result_ok_Inr; simp add: setters_inv)

lemma add_block_inv: "profile_inv opt s \<Longrightarrow> result_ok (profile_inv opt) (add_block name content lineNo s)"
  by (auto simp: add_block_def result_ok_def Let_def map_sum_eq_Inr profile_inv_update
      dest!: result_okD [OF handleInline_inv, rotated] split: if_splits)

lemma add_line_inv: "profile_inv opt s \<Longrightarrow> result_ok (profile_inv opt) (add_line env line lineNo s)"
  by (auto simp: add_line_def result_ok_def map_sum_eq_Inr dest!: result_okD [OF handleDirective_inv, rotated] split: sum.splits list.splits)

lemma run_lines_inv: "profile_inv opt s \<Longrightarrow> result_ok (profile_inv opt) (run_lines env lineNo sc s)"
proof (induction env lineNo sc s rule: run_lines.induct)
  case (1 env lineNo err s)
  then show ?case by (simp add: result_ok_def split: option.split)
next
  case (2 env lineNo raw ls err s)
  note block = result_okD [OF add_block_inv [OF "2.prems"]] and line = result_okD [OF add_line_inv [OF "2.prems"]]
  let ?line = "bare_line (lineNo + 1) raw"
  consider "?line = []" | (tag) name where "?line \<noteq> []" "openTag ?line = Some name" | (dir) "?line \<noteq> []" "openTag ?line = None"
    by fastforce
  then show ?case
  proof cases
    case 1
    then show ?thesis using "2.IH"(1) [OF refl refl 1 "2.prems"] by simp
  next
    case tag
    show ?thesis
    proof (cases "readInlineBlock name (lineNo + 1) (ls, err)")
      case (Inr r)
      obtain content endLine ls' where r: "r = (content, endLine, ls')" by (cases r)
      show ?thesis
      proof (cases "add_block name content (lineNo + 1) s")
        case blk: (Inr s')
        show ?thesis using "2.IH"(3) [OF refl refl tag Inr r [symmetric] refl blk block [OF blk]] tag Inr r blk by simp
      qed (use tag Inr r in \<open>simp add: result_ok_Inl\<close>)
    qed (use tag in \<open>simp add: result_ok_Inl\<close>)
  next
    case dir
    show ?thesis
    proof (cases "add_line env ?line (lineNo + 1) s")
      case (Inr s')
      show ?thesis using "2.IH"(2) [OF refl refl dir Inr line [OF Inr]] dir Inr by simp
    qed (use dir in \<open>simp add: result_ok_Inl\<close>)
  qed
qed

section \<open>What is accepted can be dialled\<close>

lemma validateCiphers_None: "validateCiphers cs = None \<longleftrightarrow> set cs \<subseteq> {''AES-256-GCM'', ''AES-128-GCM'', ''CHACHA20-POLY1305''}"
  by (induction cs) auto

lemma Remote_Addr_nonempty [simp]: "Remote_Addr r \<noteq> []"
  by (simp add: Remote_Addr_def JoinHostPort_def)

lemma control_keys_one:
  assumes "control_keys s = 1" and "cc_TLSCryptV1 cfg = slice_bytes (ps_tlsCrypt s)" "cc_TLSCryptV2 cfg = slice_bytes (ps_tlsCV2 s)"
    "cc_TLSAuth cfg = slice_bytes (ps_tlsAuth s)"
  shows "validateControlChannel cfg = None" "cc_TLSConfig cfg \<Longrightarrow> validateConfig (sessionCfg cfg) = None"
  using assms
  by (auto simp: control_keys_def slice_bytes_def validateControlChannel_def validateConfig_def sessionCfg_def Let_def
      split: option.splits if_splits)

lemma pickRemote_mem: "po_PickRemote (ps_opt s) = None \<Longrightarrow> ps_remotes s \<noteq> [] \<Longrightarrow> pickRemote env s \<in> set (ps_remotes s)"
  by (simp add: pickRemote_def)

lemma identity_warnings_frame [simp]:
  "ps_certPEM (identity_warnings s) = ps_certPEM s" "ps_keyPEM (identity_warnings s) = ps_keyPEM s"
  by (simp_all add: identity_warnings_def warn_def)

lemma tls_part_Inr:
  assumes "tls_part env picked s = Inr (tls, s')"
  shows "s' = (if chosen_name s picked = '''' then identity_warnings s else s)"
    and "tc_ServerName tls = chosen_name s picked"
    and "tc_MinVersion tls = (if ps_tlsMinVer s \<noteq> 0 then ps_tlsMinVer s else VersionTLS12)" and "tc_MaxVersion tls = ps_tlsMaxVer s"
    and "chosen_name s picked = '''' \<Longrightarrow> po_AllowNoServerIdentity (ps_opt s)"
    and "tc_InsecureSkipVerify tls = (chosen_name s picked = '''')" and "tc_VerifyConnection tls = (chosen_name s picked = '''')"
  using assms by (auto simp: tls_part_def Let_def split: if_splits option.splits)

lemma finalize_Inr:
  assumes "finalize env s = Inr (p, s')" and s: "s1 = (if ps_proto s = '''' then s\<lparr>ps_proto := ''udp''\<rparr> else s)"
  shows "ps_remotes s \<noteq> []" and "control_keys s1 = 1"
    and "tls_part env (pickRemote env s1) s1 = Inr (pd_TLS p, s')"
    and "validateCiphers (cc_Ciphers (pd_Config p)) = None"
    and "cc_Network (pd_Config p) = (if normalizeProto (rm_Proto (pickRemote env s1)) \<noteq> '''' then normalizeProto (rm_Proto (pickRemote env s1)) else ps_proto s')"
    and "cc_RemoteAddr (pd_Config p) = Remote_Addr (pickRemote env s1)" and "\<not> cc_DialTransport (pd_Config p)" and "cc_TLSConfig (pd_Config p)"
    and "cc_Scramble (pd_Config p) = ps_scramble s'" and "pd_Remotes p = ps_remotes s'"
    and "cc_TLSCryptV1 (pd_Config p) = slice_bytes (ps_tlsCrypt s')" "cc_TLSCryptV2 (pd_Config p) = slice_bytes (ps_tlsCV2 s')"
      "cc_TLSAuth (pd_Config p) = slice_bytes (ps_tlsAuth s')"
    and "cc_KeyDirection (pd_Config p) = (if ps_tlsAuthKeyDir s' < 0 then if ps_tlsAuth s' \<noteq> None then 1 else 0 else ps_tlsAuthKeyDir s')"
  using assms(1) unfolding finalize_def s [symmetric] Let_def
  by (auto simp: rbind_eq_Inr split: if_splits option.splits prod.splits)

lemma identity_warnings_views [simp]:
  "ps_proto (identity_warnings s) = ps_proto s" "ps_scramble (identity_warnings s) = ps_scramble s"
  "ps_remotes (identity_warnings s) = ps_remotes s" "ps_tlsCrypt (identity_warnings s) = ps_tlsCrypt s"
  "ps_tlsCV2 (identity_warnings s) = ps_tlsCV2 s" "ps_tlsAuth (identity_warnings s) = ps_tlsAuth s"
  "ps_tlsAuthKeyDir (identity_warnings s) = ps_tlsAuthKeyDir s" "ps_opt (identity_warnings s) = ps_opt s"
  by (simp_all add: identity_warnings_def warn_def)

lemma finalize_dialable:
  assumes fin: "finalize env s = Inr (p, s')" and inv: "profile_inv opt s"
  shows "validateScramble (cc_Scramble (pd_Config p)) = None" and "validateControlChannel (pd_Config p) = None"
    and "validateConfig (sessionCfg (pd_Config p)) = None"
    and "cc_Network (pd_Config p) \<in> {''udp'', ''tcp''}"
    and "set (cc_Ciphers (pd_Config p)) \<subseteq> {''AES-256-GCM'', ''AES-128-GCM'', ''CHACHA20-POLY1305''}"
    and "cc_KeyDirection (pd_Config p) \<in> {0, 1}"
    and "tc_MinVersion (pd_TLS p) \<in> {VersionTLS12, VersionTLS13}" and "tc_MaxVersion (pd_TLS p) \<in> {0, VersionTLS12, VersionTLS13}"
    and "if tc_ServerName (pd_TLS p) = '''' then po_AllowNoServerIdentity opt \<and> tc_InsecureSkipVerify (pd_TLS p) \<and> tc_VerifyConnection (pd_TLS p)
         else \<not> tc_InsecureSkipVerify (pd_TLS p)"
    and "po_PickRemote opt = None \<Longrightarrow> \<exists>r \<in> set (pd_Remotes p). cc_RemoteAddr (pd_Config p) = Remote_Addr r"
    and "\<And>r. r \<in> set (pd_Remotes p) \<Longrightarrow> Atoi (rm_Port r) \<noteq> None"
proof -
  define s1 where "s1 = (if ps_proto s = '''' then s\<lparr>ps_proto := ''udp''\<rparr> else s)"
  note f = finalize_Inr [OF fin s1_def] and t = tls_part_Inr [OF finalize_Inr(3) [OF fin s1_def]]
  have i1: "profile_inv opt s1" and proto: "ps_proto s1 \<in> {''udp'', ''tcp''}"
    using inv by (auto simp: s1_def profile_inv_def)
  have views: "ps_proto s' = ps_proto s1" "ps_scramble s' = ps_scramble s1" "ps_remotes s' = ps_remotes s1" "ps_tlsCrypt s' = ps_tlsCrypt s1"
    "ps_tlsCV2 s' = ps_tlsCV2 s1" "ps_tlsAuth s' = ps_tlsAuth s1" "ps_tlsAuthKeyDir s' = ps_tlsAuthKeyDir s1"
    using t(1) by simp_all
  show "validateControlChannel (pd_Config p) = None" "validateConfig (sessionCfg (pd_Config p)) = None"
    using control_keys_one [OF f(2)] f(8,11-13) by (simp_all add: views)
  show "validateScramble (cc_Scramble (pd_Config p)) = None" using i1 f(9) by (simp add: views profile_inv_def)
  show "cc_Network (pd_Config p) \<in> {''udp'', ''tcp''}" using f(5) proto by (auto simp: views normalizeProto_def)
  show "set (cc_Ciphers (pd_Config p)) \<subseteq> {''AES-256-GCM'', ''AES-128-GCM'', ''CHACHA20-POLY1305''}"
    using f(4) by (simp add: validateCiphers_None)
  show "cc_KeyDirection (pd_Config p) \<in> {0, 1}" using f(14) i1 by (auto simp: views profile_inv_def)
  show "tc_MinVersion (pd_TLS p) \<in> {VersionTLS12, VersionTLS13}" "tc_MaxVersion (pd_TLS p) \<in> {0, VersionTLS12, VersionTLS13}"
    using t(3,4) i1 by (auto simp: profile_inv_def)
  show "if tc_ServerName (pd_TLS p) = '''' then po_AllowNoServerIdentity opt \<and> tc_InsecureSkipVerify (pd_TLS p) \<and> tc_VerifyConnection (pd_TLS p)
         else \<not> tc_InsecureSkipVerify (pd_TLS p)"
    using t(2,5-7) i1 by (simp add: profile_inv_def)
  have rem: "pd_Remotes p = ps_remotes s1" using f(10) views by simp
  show "\<And>r. r \<in> set (pd_Remotes p) \<Longrightarrow> Atoi (rm_Port r) \<noteq> None" using i1 by (auto simp: rem profile_inv_def)
  assume "po_PickRemote opt = None"
  then have "po_PickRemote (ps_opt s1) = None" and "ps_remotes s1 \<noteq> []" using i1 f(1) by (auto simp: profile_inv_def s1_def)
  from pickRemote_mem [OF this] show "\<exists>r \<in> set (pd_Remotes p). cc_RemoteAddr (pd_Config p) = Remote_Addr r" using f(6) rem by auto
qed

lemma Parse_Inr:
  assumes "Parse env text readError (Some opt) = Inr (p, opt')"
  obtains s s' where "finalize env s = Inr (p, s')" "profile_inv (if po_BaseDir opt = '''' then opt\<lparr>po_BaseDir := ''.''\<rparr> else opt) s"
proof -
  define o1 where "o1 = (if po_BaseDir opt = '''' then opt\<lparr>po_BaseDir := ''.''\<rparr> else opt)"
  obtain s where run: "run env text readError (newState o1) = Inr s" and fin: "map_sum Finalize (\<lambda>(p, s). (p, ps_opt s)) (finalize env s) = Inr (p, opt')"
    using assms by (auto simp: Parse_def Let_def rbind_eq_Inr o1_def)
  have "profile_inv o1 s" using result_okD [OF run_lines_inv [OF profile_inv_new]] run by (simp add: run_def)
  with fin that show ?thesis by (auto simp: map_sum_eq_Inr o1_def)
qed

text \<open>
  C18. Every profile the parser accepts is one the client can dial, whatever text it was given: the
  client's own checks of the scrambling, of the control-channel key and of the session's
  configuration all pass, the transport is known (UDP or TCP) and the dial goes to an address of
  the profile, every cipher offered is one the data channel has, the key direction is 0 or 1, TLS
  is 1.2 or later; and the server is checked: either its certificate is matched against a name, or
  the caller has waived that explicitly, and then the chain is still verified by the callback in
  place of the check that is switched off.
\<close>

theorem profile_dialable:
  assumes "Parse env text readError (Some opt) = Inr (p, opt')"
  shows "validateScramble (cc_Scramble (pd_Config p)) = None \<and> validateControlChannel (pd_Config p) = None \<and>
    validateConfig (sessionCfg (pd_Config p)) = None \<and>
    (\<forall>senv. dialTransport senv (pd_Config p) = map_sum TransportDialFailed id
       ((if cc_Network (pd_Config p) = ''udp'' then sv_udp senv else sv_tcp senv) (cc_Network (pd_Config p)) (cc_RemoteAddr (pd_Config p)))) \<and>
    (po_PickRemote opt = None \<longrightarrow> (\<exists>r \<in> set (pd_Remotes p). cc_RemoteAddr (pd_Config p) = Remote_Addr r)) \<and>
    (\<forall>c \<in> set (cc_Ciphers (pd_Config p)). \<exists>n. AEADKeyLen c = Inr n) \<and>
    cc_KeyDirection (pd_Config p) \<in> {0, 1} \<and>
    tc_MinVersion (pd_TLS p) \<in> {VersionTLS12, VersionTLS13} \<and> tc_MaxVersion (pd_TLS p) \<in> {0, VersionTLS12, VersionTLS13} \<and>
    (if tc_ServerName (pd_TLS p) = '''' then po_AllowNoServerIdentity opt \<and> tc_InsecureSkipVerify (pd_TLS p) \<and> tc_VerifyConnection (pd_TLS p)
     else \<not> tc_InsecureSkipVerify (pd_TLS p))"
proof -
  from assms obtain s s' where fin: "finalize env s = Inr (p, s')" and
    inv: "profile_inv (if po_BaseDir opt = '''' then opt\<lparr>po_BaseDir := ''.''\<rparr> else opt) s" by (rule Parse_Inr)
  note d = finalize_dialable [OF fin inv]
  have "dialTransport senv (pd_Config p) = map_sum TransportDialFailed id
       ((if cc_Network (pd_Config p) = ''udp'' then sv_udp senv else sv_tcp senv) (cc_Network (pd_Config p)) (cc_RemoteAddr (pd_Config p)))" for senv
    using d(4) finalize_Inr(6,7) [OF fin refl] by (auto simp: dialTransport_def Dial_def)
  moreover have "\<forall>c \<in> set (cc_Ciphers (pd_Config p)). \<exists>n. AEADKeyLen c = Inr n"
    using d(5) by (auto simp: AEADKeyLen_def)
  moreover have "po_PickRemote opt = None \<Longrightarrow> \<exists>r \<in> set (pd_Remotes p). cc_RemoteAddr (pd_Config p) = Remote_Addr r"
    using d(10) by simp
  moreover have "if tc_ServerName (pd_TLS p) = '''' then po_AllowNoServerIdentity opt \<and> tc_InsecureSkipVerify (pd_TLS p) \<and> tc_VerifyConnection (pd_TLS p)
     else \<not> tc_InsecureSkipVerify (pd_TLS p)"
    using d(9) by (simp split: if_splits)
  ultimately show ?thesis using d(1-3,6-8) by blast
qed

section \<open>What is written is what is read\<close>

text \<open>
  A profile as its author thinks of it: directives with their arguments, indented and with a comment
  if need be, blocks, and lines that say nothing.
\<close>

datatype item =
    Directive nat string "string list" "string option"
  | Block string "string list"
  | Remark nat "string option"

fun comment_text :: "string option \<Rightarrow> string" where
  "comment_text None = []"
| "comment_text (Some t) = '' #'' @ t"

fun item_lines :: "item \<Rightarrow> string list" where
  "item_lines (Directive n name args c) = [replicate n CHR '' '' @ words_text (name # args) @ comment_text c]"
| "item_lines (Block name ls) = open_tag name # ls @ [close_tag name]"
| "item_lines (Remark n c) = [replicate n CHR '' '' @ comment_text c]"

text \<open>What each of them does, when \<open>n\<close> lines come before it.\<close>

fun item_run :: "parse_env \<Rightarrow> nat \<Rightarrow> item \<Rightarrow> parseState \<Rightarrow> (parse_error, parseState) result" where
  "item_run env n (Directive _ name args _) s = map_sum (AtDirective (n + 1) name) id (handleDirective env name args (n + 1) s)"
| "item_run env n (Block name ls) s = add_block name (if ls = [] then None else Some (bytes_of_string (joined ls))) (n + 1) s"
| "item_run env n (Remark _ _) s = Inr s"

fun items_run :: "parse_env \<Rightarrow> nat \<Rightarrow> item list \<Rightarrow> parseState \<Rightarrow> (parse_error, parseState) result" where
  "items_run env n [] s = Inr s"
| "items_run env n (i # is) s = rbind (item_run env n i s) (items_run env (n + length (item_lines i)) is)"

text \<open>
  The text of an item must fit the format: tags are plain words, no line of a block is its closing
  tag, and lines hold no line ends and stay below the scanner's limit.
\<close>

definition item_ok :: "item \<Rightarrow> bool" where
  "item_ok i \<longleftrightarrow>
     (case i of Block name ls \<Rightarrow> tag_ok name \<and> (\<forall>l \<in> set ls. TrimSpace l \<noteq> close_tag name) | _ \<Rightarrow> True) \<and>
     (\<forall>l \<in> set (item_lines i). newline \<notin> set l \<and> (l \<noteq> [] \<longrightarrow> last l \<noteq> return) \<and> length l + 1 < 8 * 1024 * 1024)"

definition profile_text :: "bool \<Rightarrow> item list \<Rightarrow> string" where
  "profile_text crlf is = text_of crlf (concat (map item_lines is))"

lemma no_bom: "r = [] \<or> plain_char (hd r) \<or> hd r = CHR '' '' \<Longrightarrow> (if k = 1 then TrimPrefix r UTF8_BOM else r) = r"
  by (cases r) (auto simp: TrimPrefix_def UTF8_BOM_def plain_char_def)

lemma hd_padded: "s \<noteq> [] \<Longrightarrow> hd (replicate n CHR '' '' @ s) = (if n = 0 then hd s else CHR '' '')"
  by (cases n) auto

lemma strip_comment_text: "\<exists>m. strip_loop False False (comment_text c) = replicate m CHR '' ''"
  by (cases c) (auto intro: exI [of _ 0] exI [of _ 1])

lemma bare_line_directive: "bare_line k (replicate n CHR '' '' @ words_text (name # args) @ comment_text c) = words_text (name # args)"
proof -
  let ?w = "words_text (name # args)"
  note ends = words_text_ends [of "name # args", simplified]
  have "(if k = 1 then TrimPrefix (replicate n CHR '' '' @ ?w @ comment_text c) UTF8_BOM else replicate n CHR '' '' @ ?w @ comment_text c)
      = replicate n CHR '' '' @ ?w @ comment_text c"
    using ends by (intro no_bom) (simp add: hd_padded hd_append)
  moreover obtain m where "strip_loop False False (comment_text c) = replicate m CHR '' ''" using strip_comment_text by blast
  ultimately show ?thesis
    using TrimSpace_pad [OF ends(1-3), of n m] by (simp add: bare_line_def stripComment_def strip_blanks strip_words)
qed

lemma bare_line_remark: "bare_line k (replicate n CHR '' '' @ comment_text c) = []"
proof -
  have "(if k = 1 then TrimPrefix (replicate n CHR '' '' @ comment_text c) UTF8_BOM else replicate n CHR '' '' @ comment_text c)
      = replicate n CHR '' '' @ comment_text c"
    by (intro no_bom) (cases c; cases n; simp)
  moreover obtain m where "strip_loop False False (comment_text c) = replicate m CHR '' ''" using strip_comment_text by blast
  ultimately show ?thesis by (simp add: bare_line_def stripComment_def strip_blanks replicate_add [symmetric])
qed

lemma bare_line_tag: "tag_ok name \<Longrightarrow> bare_line k (open_tag name) = open_tag name"
proof -
  assume ok: "tag_ok name"
  have "(if k = 1 then TrimPrefix (open_tag name) UTF8_BOM else open_tag name) = open_tag name"
    by (intro no_bom) (simp add: open_tag_def)
  then show ?thesis by (simp add: bare_line_def strip_open_tag [OF ok])
qed

lemma run_item:
  assumes "item_ok i"
  shows "run_lines env n (item_lines i @ rest, None) s =
    rbind (item_run env n i s) (\<lambda>s. run_lines env (n + length (item_lines i)) (rest, None) s)"
proof (cases i)
  case (Directive k name args c)
  let ?h = "handleDirective env name args (n + 1) s"
  have "add_line env (words_text (name # args)) (n + 1) s = map_sum (AtDirective (n + 1) name) id ?h"
    by (simp add: add_line_def tokenize_words)
  then show ?thesis
    using Directive words_text_ends(1) [of "name # args"] openTag_words [of "name # args"]
    by (cases ?h) (simp_all add: bare_line_directive)
next
  case (Block name ls)
  then have ok: "tag_ok name" "\<And>l. l \<in> set ls \<Longrightarrow> TrimSpace l \<noteq> close_tag name" using assms by (auto simp: item_ok_def)
  have "open_tag name \<noteq> []" by (simp add: open_tag_def)
  then show ?thesis
    using Block read_block [OF ok(2), of ls "n + 1" rest None] bare_line_tag [OF ok(1)] openTag_open_tag [OF ok(1)]
    by (simp add: rbind_def split: sum.split)
next
  case (Remark k c)
  then show ?thesis by (simp add: bare_line_remark)
qed

lemma run_items: "list_all item_ok is \<Longrightarrow> run_lines env n (concat (map item_lines is), None) s = items_run env n is s"
proof (induction "is" arbitrary: n s)
  case (Cons i "is")
  then have "item_ok i" by simp
  from run_item [OF this] Cons show ?case by (simp add: rbind_def split: sum.split)
qed simp

lemma run_profile_text:
  assumes "list_all item_ok is"
  shows "run env (profile_text crlf is) False s = items_run env 0 is s"
proof -
  have "scan_lines (8 * 1024 * 1024) False (profile_text crlf is) = (concat (map item_lines is), None)"
    unfolding profile_text_def using assms by (intro scan_text) (auto simp: list_all_iff item_ok_def)
  then show ?thesis using run_items [OF assms] by (simp add: run_def)
qed

text \<open>
  C17. What is written in a profile is what is acted upon. Take any list of directives with any
  arguments (empty ones, ones with blanks, quotes, backslashes or comment signs in them), of blocks
  with any content, and of comments, and write it down as profiles are written, indented at will,
  with either kind of line ends: the parser carries out exactly these directives and blocks, with
  exactly these arguments and contents, in this order, stops at the first one that is refused, and
  names the line on which it stands.
\<close>

theorem profile_text_roundtrip:
  assumes "list_all item_ok items"
  shows "run env (profile_text crlf items) False s = items_run env 0 items s"
  by (rule run_profile_text [OF assms])

definition demo_parse_env :: parse_env where
  "demo_parse_env = \<lparr>pe_readFile = (\<lambda>_. None), pe_open = (\<lambda>_. None), pe_uni = id, pe_rand = 0, pe_certs = (\<lambda>_. True),
     pe_keyPair = (\<lambda>_ _. True)\<rparr>"

definition demo_items :: "item list" where
  "demo_items =
     [Remark 0 (Some '' demo''), Directive 0 ''remote'' [''vpn.example'', ''443'', ''tcp''] None,
      Directive 2 ''cipher'' [''AES-256-GCM''] (Some '' fine''), Directive 0 ''setenv'' [''UV_ID'', ''a b #1''] None,
      Block ''tls-crypt'' [''00 ff'', ''</ca>'']]"

lemma demo_items_ok: "list_all item_ok demo_items"
proof -
  have "TrimSpace ''00 ff'' = ''00 ff''" "TrimSpace ''</ca>'' = ''</ca>''"
    using TrimSpace_pad [of "''00 ff''" 0 0] TrimSpace_pad [of "''</ca>''" 0 0] by (simp_all add: plain_char_def)
  then show ?thesis
    by (simp add: demo_items_def item_ok_def words_text_def quote_arg_def bare_def bare_char_def plain_char_def isEscapable_def
        tag_ok_def close_tag_def open_tag_def)
qed

definition demo_parsed :: parseState where
  "demo_parsed = (newState (zero_options\<lparr>po_BaseDir := ''.''\<rparr>))
     \<lparr>ps_remotes := [\<lparr>rm_Host = ''vpn.example'', rm_Port = ''443'', rm_Proto = ''tcp''\<rparr>], ps_cipher := ''AES-256-GCM'',
      ps_peerInfoExtra := [(''UV_ID'', ''a b #1'')], ps_tlsCrypt := Some (bytes_of_string (joined [''00 ff'', ''</ca>''])),
      ps_inlineBytesTotal := 12\<rparr>"

lemma demo_items_run: "items_run demo_parse_env 0 demo_items (newState (zero_options\<lparr>po_BaseDir := ''.''\<rparr>)) = Inr demo_parsed"
  by (simp add: demo_items_def demo_parsed_def newState_def handleDirective_def addRemote_def Atoi_def char_digit_def addSetenv_def
      add_block_def handleInline_def joined_def MaxInlineBytesTotal_def)

theorem profile_text_roundtrip_witness:
  "list_all item_ok demo_items \<and>
   run demo_parse_env (profile_text True demo_items) False (newState (zero_options\<lparr>po_BaseDir := ''.''\<rparr>)) = Inr demo_parsed"
  using profile_text_roundtrip [OF demo_items_ok] demo_items_run demo_items_ok by simp

lemma demo_Parse:
  "case Parse demo_parse_env (profile_text False demo_items) False (Some zero_options) of
     Inr (p, opt') \<Rightarrow> cc_RemoteAddr (pd_Config p) = ''vpn.example:443'' \<and> tc_ServerName (pd_TLS p) = ''vpn.example''
   | Inl _ \<Rightarrow> False"
proof -
  have "run demo_parse_env (profile_text False demo_items) False (newState (zero_options\<lparr>po_BaseDir := ''.''\<rparr>)) = Inr demo_parsed"
    using run_profile_text [OF demo_items_ok] demo_items_run by simp
  moreover have "isHostname ''vpn.example''"
    by (simp add: isHostname_def strip_brackets_def ParseAddr_def parseIPv4Fields_def char_digit_def)
  moreover have "Remote_Addr \<lparr>rm_Host = ''vpn.example'', rm_Port = ''443'', rm_Proto = ''tcp''\<rparr> = ''vpn.example:443''"
    by (simp add: Remote_Addr_def JoinHostPort_def strip_brackets_def)
  ultimately show ?thesis
    by (simp add: Parse_def zero_options_def finalize_def demo_parsed_def newState_def control_keys_def joined_def pickRemote_def
        tls_part_def chosen_name_def chosen_ciphers_def Let_def)
qed

theorem profile_dialable_witness:
  "\<exists>p opt'. Parse demo_parse_env (profile_text False demo_items) False (Some zero_options) = Inr (p, opt') \<and>
     cc_RemoteAddr (pd_Config p) = ''vpn.example:443'' \<and> validateControlChannel (pd_Config p) = None \<and>
     tc_ServerName (pd_TLS p) = ''vpn.example'' \<and> \<not> tc_InsecureSkipVerify (pd_TLS p)"
proof -
  obtain p opt' where p: "Parse demo_parse_env (profile_text False demo_items) False (Some zero_options) = Inr (p, opt')"
    "cc_RemoteAddr (pd_Config p) = ''vpn.example:443''" "tc_ServerName (pd_TLS p) = ''vpn.example''"
    using demo_Parse by (auto split: sum.splits prod.splits)
  with profile_dialable [OF p(1)] show ?thesis by auto
qed

section \<open>Two surprises\<close>

text \<open>A large \<^verbatim>\<open>reneg-sec\<close> passes the check for negative values and becomes one.\<close>

lemma reneg_overflow: "setRenegSec [''9223372037''] s = Inr (s\<lparr>ps_reneg := - 9223372036709551616\<rparr>)"
  by (simp add: setRenegSec_def Atoi_def char_digit_def int64_def sec_def)

text \<open>
  \<^verbatim>\<open>ParseFile\<close> leaves the directory of the file in the caller's options: a second file read with the
  same options has its references resolved against the directory of the first.
\<close>

lemma Clean_nonempty [simp]: "Clean p \<noteq> []"
  by (simp add: Clean_def Let_def)

lemma ParseFile_remembers:
  assumes "ParseFile env fs path (Some opt) = Inr (p, opt')" and "po_BaseDir opt = ''''"
  shows "po_BaseDir opt' = Dir path"
proof -
  define o1 where "o1 = opt\<lparr>po_BaseDir := Dir path\<rparr>"
  from assms obtain t readError p' where "Parse env t readError (Some o1) = Inr (p', opt')"
    by (auto simp: ParseFile_def rbind_eq_Inr o1_def split: option.splits)
  moreover have "po_BaseDir o1 \<noteq> []" by (simp add: o1_def Dir_def)
  ultimately obtain s s' where run: "run env t readError (newState o1) = Inr s" and fin: "finalize env s = Inr (p', s')" and "opt' = ps_opt s'"
    by (auto simp: Parse_def rbind_eq_Inr map_sum_eq_Inr)
  moreover have "profile_inv o1 s" using result_okD [OF run_lines_inv [OF profile_inv_new]] run by (simp add: run_def)
  moreover have "ps_opt s' = ps_opt s"
    using tls_part_Inr(1) [OF finalize_Inr(3) [OF fin refl]] by simp
  ultimately show ?thesis by (simp add: profile_inv_def o1_def)
qed

end
