(* ===== verification/Dns.thy ===== *)
theory Dns
  imports Netip
begin

text \<open>
  The DNS codec of the SOCKS5 daemon (\<^verbatim>\<open>cmd/openvpn2socks/resolver.go\<close>): queries for one name, and the
  addresses of a response.

  The lemmas show that reading names always ends (compression pointers only go back, and there is a
  cap on them), that a response yields exactly the addresses of the records whose owner is the
  queried name or is linked to it by CNAME records, in whatever order these come, and that a server
  answering the client's own query is understood.
\<close>

section \<open>Names\<close>

definition asciiLower :: "byte \<Rightarrow> byte" where
  "asciiLower b = (if 65 \<le> b \<and> b \<le> 90 then b + 32 else b)"

definition lower_string :: "string \<Rightarrow> string" where
  "lower_string s = string_of_bytes (map asciiLower (bytes_of_string s))"

definition TrimSuffix :: "string \<Rightarrow> string \<Rightarrow> string" where
  "TrimSuffix s suf = (if HasPrefix (rev s) (rev suf) then take (length s - length suf) s else s)"

definition canonicalDNSName :: "string \<Rightarrow> string" where
  "canonicalDNSName name = lower_string (TrimSuffix name ''.'')"

datatype dns_error =
    InvalidName string
  | InvalidLabel string
  | GenTxID
  | TransportFailed
  | ResponseTooShort
  | IDMismatch u16 u16
  | NotAResponse
  | Truncated
  | AuthoritativeNoData
  | RCode u16
  | NameOverruns
  | TruncatedPointer
  | NonBackwardPointer
  | TooManyPointers
  | BadLabelLength
  | LabelOverruns
  | NameTooLong
  | TruncatedQuestion
  | TruncatedAnswerHeader
  | TruncatedRdata
  | OwnerMismatch

text \<open>The iterator \<^verbatim>\<open>labels\<close>; \<open>cur\<close> is the label being read.\<close>

fun labels_loop :: "string \<Rightarrow> string \<Rightarrow> string list" where
  "labels_loop cur [] = (if cur = [] then [] else [cur])"
| "labels_loop cur (c # cs) = (if c = CHR ''.'' then cur # labels_loop [] cs else labels_loop (cur @ [c]) cs)"

definition labels :: "string \<Rightarrow> string list" where
  "labels name = labels_loop [] name"

definition dnsTypeA :: u16 where "dnsTypeA = 1"
definition dnsTypeCNAME :: u16 where "dnsTypeCNAME = 5"
definition dnsTypeAAAA :: u16 where "dnsTypeAAAA = 28"

fun put_labels :: "string \<Rightarrow> string list \<Rightarrow> (dns_error, bytes) result" where
  "put_labels qname [] = Inr []"
| "put_labels qname (l # ls) =
     (if length l = 0 \<or> length l > 63 then Inl (InvalidLabel qname)
      else rbind (put_labels qname ls) (\<lambda>rest. Inr (of_nat (length l) # bytes_of_string l @ rest)))"

definition buildDNSQuery :: "u16 \<Rightarrow> string \<Rightarrow> u16 \<Rightarrow> (dns_error, bytes) result" where
  "buildDNSQuery ident qname qtype =
     (if length qname = 0 \<or> length qname > 253 then Inl (InvalidName qname)
      else
        let hdr = put_uint16 ident @ put_uint16 0x0100 @ put_uint16 1 @ replicate 6 0
        in rbind (put_labels qname (labels qname)) (\<lambda>ls.
             Inr (hdr @ ls @ [0] @ put_uint16 qtype @ put_uint16 1)))"

section \<open>Reading names\<close>

function skipName :: "bytes \<Rightarrow> nat \<Rightarrow> (dns_error, nat) result" where
  "skipName buf pos =
     (if pos \<ge> length buf then Inl NameOverruns
      else
        let c = buf ! pos
        in if c = 0 then Inr (pos + 1)
           else if c AND 0xC0 = 0xC0 then
             if pos + 1 \<ge> length buf then Inl TruncatedPointer else Inr (pos + 2)
           else skipName buf (pos + 1 + unat c))"
  by pat_completeness auto
termination by (relation "measure (\<lambda>(buf, pos). length buf - pos)") auto

declare skipName.simps [simp del]

text \<open>
  The loop of \<^verbatim>\<open>decodeName\<close>: the name so far, the position after the name if it is known already,
  the number of pointers followed, the position.
\<close>

function decode_loop :: "bytes \<Rightarrow> string \<Rightarrow> nat option \<Rightarrow> nat \<Rightarrow> nat \<Rightarrow> (dns_error, string \<times> nat) result" where
  "decode_loop buf sb nxt jumps p =
     (if p \<ge> length buf then Inl NameOverruns
      else
        let c = buf ! p
        in if c = 0 then Inr (sb, case nxt of None \<Rightarrow> p + 1 | Some n \<Rightarrow> n)
           else if c AND 0xC0 = 0xC0 then
             if p + 1 \<ge> length buf then Inl TruncatedPointer
             else
               let ptr = unat (c AND 0x3F) * 256 + unat (buf ! (p + 1));
                   nxt = (case nxt of None \<Rightarrow> Some (p + 2) | Some n \<Rightarrow> Some n)
               in if ptr \<ge> p then Inl NonBackwardPointer
                  else if jumps + 1 > 32 then Inl TooManyPointers
                  else decode_loop buf sb nxt (jumps + 1) ptr
           else if c AND 0xC0 \<noteq> 0 then Inl BadLabelLength
           else
             let ll = unat c;
                 p = p + 1
             in if p + ll > length buf then Inl LabelOverruns
                else
                  let sb = sb @ (if sb \<noteq> [] then ''.'' else []) @ string_of_bytes (map asciiLower (subslice buf p (p + ll)))
                  in if length sb > 253 then Inl NameTooLong else decode_loop buf sb nxt jumps (p + ll))"
  by pat_completeness auto
termination
  by (relation "measures [\<lambda>(buf, sb, nxt, jumps, p). 33 - jumps, \<lambda>(buf, sb, nxt, jumps, p). length buf - p]") auto

declare decode_loop.simps [simp del]

definition decodeName :: "bytes \<Rightarrow> nat \<Rightarrow> (dns_error, string \<times> nat) result" where
  "decodeName buf pos = decode_loop buf [] None 0 pos"

section \<open>Responses\<close>

fun skip_questions :: "bytes \<Rightarrow> nat \<Rightarrow> nat \<Rightarrow> (dns_error, nat) result" where
  "skip_questions resp 0 pos = Inr pos"
| "skip_questions resp (Suc n) pos =
     rbind (skipName resp pos) (\<lambda>pos.
       if pos + 4 > length resp then Inl TruncatedQuestion else skip_questions resp n (pos + 4))"

record answerRR =
  rr_owner :: string
  rr_typ :: u16
  rr_rdata :: bytes
  rr_target :: string

fun read_answers :: "bytes \<Rightarrow> nat \<Rightarrow> nat \<Rightarrow> answerRR list \<Rightarrow> (dns_error, answerRR list) result" where
  "read_answers resp 0 pos rrs = Inr rrs"
| "read_answers resp (Suc n) pos rrs =
     rbind (decodeName resp pos) (\<lambda>(owner, pos).
       if pos + 10 > length resp then Inl TruncatedAnswerHeader
       else
         let typ = uint16_of (subslice resp pos (pos + 2));
             rdlen = unat (uint16_of (subslice resp (pos + 8) (pos + 10)) :: u16);
             pos = pos + 10
         in if pos + rdlen > length resp then Inl TruncatedRdata
            else
              let rr = \<lparr>rr_owner = owner, rr_typ = typ, rr_rdata = subslice resp pos (pos + rdlen),
                        rr_target = (if typ = dnsTypeCNAME
                                     then case decodeName resp pos of Inr (target, _) \<Rightarrow> target | Inl _ \<Rightarrow> [] else [])\<rparr>
              in read_answers resp n (pos + rdlen) (rrs @ [rr]))"

text \<open>One round of the fixpoint over the CNAME records, and the rounds; the set of trusted names is a list.\<close>

fun accept_round :: "answerRR list \<Rightarrow> string list \<Rightarrow> bool \<Rightarrow> string list \<times> bool" where
  "accept_round [] accepted grew = (accepted, grew)"
| "accept_round (rr # rrs) accepted grew =
     (if rr_typ rr = dnsTypeCNAME \<and> rr_target rr \<noteq> '''' \<and> rr_owner rr \<in> set accepted \<and> rr_target rr \<notin> set accepted
      then accept_round rrs (rr_target rr # accepted) True
      else accept_round rrs accepted grew)"

lemma accept_round_props:
  assumes "accept_round rrs accepted grew = (accepted', grew')"
  shows "set accepted \<subseteq> set accepted'" and "set accepted' \<subseteq> set accepted \<union> rr_target ` set rrs"
    and "grew' \<longleftrightarrow> grew \<or> set accepted \<noteq> set accepted'"
  using assms by (induction rrs accepted grew rule: accept_round.induct) (force split: if_splits)+

lemma accept_round_card:
  assumes "accept_round rrs accepted False = (accepted', True)"
  shows "card (rr_target ` set rrs - set accepted') < card (rr_target ` set rrs - set accepted)"
proof -
  have "rr_target ` set rrs - set accepted' \<subset> rr_target ` set rrs - set accepted"
    using accept_round_props [OF assms] by blast
  then show ?thesis by (simp add: psubset_card_mono)
qed

function accept_loop :: "answerRR list \<Rightarrow> string list \<Rightarrow> string list" where
  "accept_loop rrs accepted =
     (case accept_round rrs accepted False of (accepted', grew) \<Rightarrow> if grew then accept_loop rrs accepted' else accepted')"
  by pat_completeness auto
termination
  by (relation "measure (\<lambda>(rrs, accepted). card (rr_target ` set rrs - set accepted))") (auto dest!: accept_round_card [OF sym])

declare accept_loop.simps [simp del]

text \<open>The last loop: the addresses, and whether a record was dropped for its owner.\<close>

fun collect :: "u16 \<Rightarrow> string list \<Rightarrow> answerRR list \<Rightarrow> Addr list \<times> bool" where
  "collect wantType accepted [] = ([], False)"
| "collect wantType accepted (rr # rrs) =
     (case collect wantType accepted rrs of (out, dropped) \<Rightarrow>
        if rr_typ rr \<noteq> wantType then (out, dropped)
        else if rr_owner rr \<notin> set accepted then (out, True)
        else if rr_typ rr = dnsTypeA \<and> length (rr_rdata rr) = 4 then (Addr4 (rr_rdata rr) # out, dropped)
        else if rr_typ rr = dnsTypeAAAA \<and> length (rr_rdata rr) = 16 then (Addr6 (rr_rdata rr) '''' # out, dropped)
        else (out, dropped))"

definition parseDNSAnswers :: "bytes \<Rightarrow> u16 \<Rightarrow> u16 \<Rightarrow> string \<Rightarrow> (dns_error, Addr list) result" where
  "parseDNSAnswers resp wantID wantType qname =
     (if length resp < 12 then Inl ResponseTooShort
      else
        let ident = uint16_of (subslice resp 0 2);
            flags = uint16_of (subslice resp 2 4) :: u16;
            rcode = flags AND 0x000F
        in if ident \<noteq> wantID then Inl (IDMismatch ident wantID)
           else if flags AND 0x8000 = 0 then Inl NotAResponse
           else if flags AND 0x0200 \<noteq> 0 then Inl Truncated
           else if rcode = 3 then Inl AuthoritativeNoData
           else if rcode \<noteq> 0 then Inl (RCode rcode)
           else
             let qdcount = unat (uint16_of (subslice resp 4 6) :: u16);
                 ancount = unat (uint16_of (subslice resp 6 8) :: u16)
             in rbind (skip_questions resp qdcount 12) (\<lambda>pos.
                rbind (read_answers resp ancount pos []) (\<lambda>rrs.
                let accepted = accept_loop rrs [canonicalDNSName qname]
                in case collect wantType accepted rrs of (out, dropped) \<Rightarrow>
                     if out = [] \<and> dropped then Inl OwnerMismatch
                     else if out = [] then Inl AuthoritativeNoData
                     else Inr out)))"

section \<open>Whose addresses a response yields\<close>

text \<open>The names a response ties to the queried one: itself, and what CNAME records lead to from there.\<close>

inductive tied :: "answerRR list \<Rightarrow> string \<Rightarrow> string \<Rightarrow> bool" for rrs q where
  "tied rrs q q"
| "tied rrs q (rr_owner rr) \<Longrightarrow> rr \<in> set rrs \<Longrightarrow> rr_typ rr = dnsTypeCNAME \<Longrightarrow> rr_target rr \<noteq> '''' \<Longrightarrow> tied rrs q (rr_target rr)"

lemma accept_round_sound:
  assumes "accept_round rrs' accepted grew = (accepted', grew')" and "set rrs' \<subseteq> set rrs" and "\<forall>n \<in> set accepted. tied rrs q n"
  shows "\<forall>n \<in> set accepted'. tied rrs q n"
  using assms by (induction rrs' accepted grew rule: accept_round.induct) (auto split: if_splits intro: tied.intros)

lemma accept_round_stable:
  "accept_round rrs accepted False = (accepted', False) \<Longrightarrow> accepted' = accepted \<and>
    (\<forall>rr \<in> set rrs. rr_typ rr = dnsTypeCNAME \<longrightarrow> rr_target rr \<noteq> '''' \<longrightarrow> rr_owner rr \<in> set accepted \<longrightarrow> rr_target rr \<in> set accepted)"
proof (induction rrs)
  case (Cons rr rrs)
  have "accept_round rrs acc True = (acc', g) \<Longrightarrow> g" for acc acc' g using accept_round_props(3) by blast
  with Cons show ?case by (auto split: if_splits)
qed simp

lemma accept_loop_tied:
  assumes "q \<in> set accepted" and "\<forall>n \<in> set accepted. tied rrs q n"
  shows "n \<in> set (accept_loop rrs accepted) \<longleftrightarrow> tied rrs q n"
  using assms
proof (induction rrs accepted rule: accept_loop.induct)
  case (1 rrs accepted)
  obtain accepted' grew where r: "accept_round rrs accepted False = (accepted', grew)" by fastforce
  have sound: "\<forall>n \<in> set accepted'. tied rrs q n" using accept_round_sound [OF r subset_refl "1.prems"(2)] .
  have q: "q \<in> set accepted'" using accept_round_props(1) [OF r] "1.prems"(1) by auto
  show ?case
  proof (cases grew)
    case True
    then show ?thesis using "1.IH" [OF r [symmetric] True q sound] r True by (simp add: accept_loop.simps [of rrs accepted])
  next
    case False
    then have st: "accepted' = accepted"
      "\<And>rr. rr \<in> set rrs \<Longrightarrow> rr_typ rr = dnsTypeCNAME \<Longrightarrow> rr_target rr \<noteq> '''' \<Longrightarrow> rr_owner rr \<in> set accepted \<Longrightarrow> rr_target rr \<in> set accepted"
      using accept_round_stable [of rrs accepted accepted'] r by auto
    have "m \<in> set accepted'" if "tied rrs q m" for m
      using that by induction (use q st in auto)
    then show ?thesis using False r sound by (auto simp: accept_loop.simps [of rrs accepted])
  qed
qed

fun rr_addr :: "answerRR \<Rightarrow> Addr option" where
  "rr_addr rr =
     (if rr_typ rr = dnsTypeA \<and> length (rr_rdata rr) = 4 then Some (Addr4 (rr_rdata rr))
      else if rr_typ rr = dnsTypeAAAA \<and> length (rr_rdata rr) = 16 then Some (Addr6 (rr_rdata rr) '''')
      else None)"

text \<open>The addresses of type \<open>typ\<close> that belong to \<open>qname\<close>, in the order of the records.\<close>

definition addresses_of :: "answerRR list \<Rightarrow> u16 \<Rightarrow> string \<Rightarrow> Addr list" where
  "addresses_of rrs typ qname =
     List.map_filter rr_addr (filter (\<lambda>rr. rr_typ rr = typ \<and> tied rrs (canonicalDNSName qname) (rr_owner rr)) rrs)"

lemma collect_eq:
  "collect typ accepted rrs =
    (List.map_filter rr_addr (filter (\<lambda>rr. rr_typ rr = typ \<and> rr_owner rr \<in> set accepted) rrs),
     \<exists>rr \<in> set rrs. rr_typ rr = typ \<and> rr_owner rr \<notin> set accepted)"
  by (induction rrs) (auto simp: List.map_filter_def)

text \<open>What a response without error says, given its records.\<close>

definition verdict :: "answerRR list \<Rightarrow> u16 \<Rightarrow> string \<Rightarrow> (dns_error, Addr list) result" where
  "verdict rrs typ qname =
     (let out = addresses_of rrs typ qname
      in if out \<noteq> [] then Inr out
         else if \<forall>rr \<in> set rrs. rr_typ rr = typ \<longrightarrow> tied rrs (canonicalDNSName qname) (rr_owner rr) then Inl AuthoritativeNoData
         else Inl OwnerMismatch)"

definition records_of :: "bytes \<Rightarrow> (dns_error, answerRR list) result" where
  "records_of resp =
     rbind (skip_questions resp (unat (uint16_of (subslice resp 4 6) :: u16)) 12) (\<lambda>pos.
       read_answers resp (unat (uint16_of (subslice resp 6 8) :: u16)) pos [])"

lemma verdict_eq:
  "(case collect typ (accept_loop rrs [canonicalDNSName qname]) rrs of (out, dropped) \<Rightarrow>
      if out = [] \<and> dropped then Inl OwnerMismatch else if out = [] then Inl AuthoritativeNoData else Inr out) = verdict rrs typ qname"
proof -
  have "n \<in> set (accept_loop rrs [canonicalDNSName qname]) \<longleftrightarrow> tied rrs (canonicalDNSName qname) n" for n
    by (rule accept_loop_tied) (auto intro: tied.intros)
  then show ?thesis by (auto simp: collect_eq verdict_def addresses_of_def Let_def)
qed

lemma parseDNSAnswers_eq:
  "parseDNSAnswers resp ident typ qname =
    (if length resp < 12 then Inl ResponseTooShort
     else if uint16_of (take 2 resp) \<noteq> ident then Inl (IDMismatch (uint16_of (take 2 resp)) ident)
     else let flags = uint16_of (subslice resp 2 4) :: u16
       in if flags AND 0x8000 = 0 then Inl NotAResponse
          else if flags AND 0x0200 \<noteq> 0 then Inl Truncated
          else if flags AND 0xF = 3 then Inl AuthoritativeNoData
          else if flags AND 0xF \<noteq> 0 then Inl (RCode (flags AND 0xF))
          else rbind (records_of resp) (\<lambda>rrs. verdict rrs typ qname))"
  unfolding parseDNSAnswers_def records_of_def Let_def verdict_eq by (simp add: subslice_def rbind_assoc)

text \<open>
  C21. A DNS response is believed only for what was asked. Whatever bytes arrive, addresses are
  returned only from an untruncated, error-free response with the identifier of the query, and they
  are exactly the addresses of the requested type whose owner is the queried name (up to letter case
  and a final dot) or is linked to it by a chain of CNAME records of the response, whatever their
  order. The definite answer "no such record" is given only for a name error, or when the response
  has no usable record of that type and none was left aside for its owner.
\<close>

theorem dns_answers_exact:
  "parseDNSAnswers resp ident typ qname =
    (if length resp < 12 then Inl ResponseTooShort
     else if uint16_of (take 2 resp) \<noteq> ident then Inl (IDMismatch (uint16_of (take 2 resp)) ident)
     else let flags = uint16_of (subslice resp 2 4) :: u16
       in if flags AND 0x8000 = 0 then Inl NotAResponse
          else if flags AND 0x0200 \<noteq> 0 then Inl Truncated
          else if flags AND 0xF = 3 then Inl AuthoritativeNoData
          else if flags AND 0xF \<noteq> 0 then Inl (RCode (flags AND 0xF))
          else rbind (records_of resp) (\<lambda>rrs. verdict rrs typ qname))"
  by (rule parseDNSAnswers_eq)

section \<open>An honest server is understood\<close>

text \<open>Names as lists of labels, and how they are written.\<close>

definition labels_ok :: "string list \<Rightarrow> bool" where
  "labels_ok ls \<longleftrightarrow> ls \<noteq> [] \<and> (\<forall>l \<in> set ls. l \<noteq> [] \<and> length l \<le> 63 \<and> CHR ''.'' \<notin> set l) \<and> length (Join ls ''.'') \<le> 253"

definition put_name :: "string list \<Rightarrow> bytes" where
  "put_name ls = concat (map (\<lambda>l. of_nat (length l) # bytes_of_string l) ls)"

definition name_of :: "string list \<Rightarrow> string" where
  "name_of ls = Join (map lower_string ls) ''.''"

lemma length_lower [simp]: "length (lower_string s) = length s" "lower_string s = [] \<longleftrightarrow> s = []"
  by (simp_all add: lower_string_def)

lemma labels_loop_append: "CHR ''.'' \<notin> set l \<Longrightarrow> labels_loop cur (l @ CHR ''.'' # s) = (cur @ l) # labels_loop [] s"
  by (induction l arbitrary: cur) auto

lemma labels_loop_end: "CHR ''.'' \<notin> set l \<Longrightarrow> cur @ l \<noteq> [] \<Longrightarrow> labels_loop cur l = [cur @ l]"
  by (induction l arbitrary: cur) auto

lemma labels_Join:
  assumes "\<And>l. l \<in> set ls \<Longrightarrow> l \<noteq> [] \<and> CHR ''.'' \<notin> set l"
  shows "labels (Join ls ''.'') = ls"
  using assms unfolding labels_def
  by (induction ls rule: induct_list012) (simp_all add: labels_loop_end labels_loop_append)

lemma put_labels_ok:
  assumes "\<And>l. l \<in> set ls \<Longrightarrow> l \<noteq> [] \<and> length l \<le> 63"
  shows "put_labels q ls = Inr (put_name ls)"
  using assms by (induction ls) (auto simp: put_name_def dest: leD)

lemma lower_Join: "lower_string (Join ls ''.'') = name_of ls"
  unfolding name_of_def
proof (induction ls rule: induct_list012)
  case (3 a b ls)
  have "lower_string (a @ ''.'' @ s) = lower_string a @ ''.'' @ lower_string s" for s
  proof -
    have "asciiLower (byte_of_char CHR ''.'') = byte_of_char CHR ''.''" by (simp add: asciiLower_def byte_of_char_def)
    then show ?thesis by (simp add: lower_string_def)
  qed
  with 3 show ?case by simp
qed (simp_all add: lower_string_def)

lemma Join_last: "ls \<noteq> [] \<Longrightarrow> (\<And>l. l \<in> set ls \<Longrightarrow> l \<noteq> []) \<Longrightarrow> Join ls ''.'' \<noteq> [] \<and> last (Join ls ''.'') = last (last ls)"
  by (induction ls rule: induct_list012) auto

lemma canonical_Join:
  assumes "labels_ok ls"
  shows "canonicalDNSName (Join ls ''.'') = name_of ls"
proof -
  have ne: "Join ls ''.'' \<noteq> []" and l: "last (Join ls ''.'') = last (last ls)"
    using Join_last [of ls] assms by (auto simp: labels_ok_def)
  have "last (last ls) \<in> set (last ls)" "last ls \<in> set ls" using assms by (auto simp: labels_ok_def)
  then have "last (Join ls ''.'') \<noteq> CHR ''.''" using assms l unfolding labels_ok_def by metis
  then have "\<not> HasPrefix (rev (Join ls ''.'')) ''.''"
    using ne by (cases "Join ls ''.''" rule: rev_cases) auto
  then show ?thesis by (simp add: canonicalDNSName_def TrimSuffix_def lower_Join)
qed

lemma buildDNSQuery_ok:
  assumes "labels_ok ls"
  shows "buildDNSQuery ident (Join ls ''.'') qtype =
    Inr (put_uint16 ident @ put_uint16 0x0100 @ put_uint16 1 @ replicate 6 0 @ put_name ls @ [0] @ put_uint16 qtype @ put_uint16 1)"
proof -
  have "labels (Join ls ''.'') = ls" using assms by (intro labels_Join) (auto simp: labels_ok_def)
  moreover have "put_labels q ls = Inr (put_name ls)" for q using assms by (intro put_labels_ok) (auto simp: labels_ok_def)
  moreover have "Join ls ''.'' \<noteq> []" using Join_last [of ls] assms by (auto simp: labels_ok_def)
  ultimately show ?thesis using assms by (auto simp: buildDNSQuery_def labels_ok_def)
qed

subsection \<open>Reading a written name\<close>

fun grow :: "string \<Rightarrow> string list \<Rightarrow> string" where
  "grow sb [] = sb"
| "grow sb (l # ls) = grow (sb @ (if sb \<noteq> [] then ''.'' else []) @ lower_string l) ls"

lemma grow_longer: "length sb \<le> length (grow sb ls)"
proof (induction ls arbitrary: sb)
  case (Cons l ls)
  show ?case using Cons [of "sb @ (if sb \<noteq> [] then ''.'' else []) @ lower_string l"] by simp
qed simp

lemma grow_Join: "sb \<noteq> [] \<Longrightarrow> ls \<noteq> [] \<Longrightarrow> (\<And>l. l \<in> set ls \<Longrightarrow> l \<noteq> []) \<Longrightarrow> grow sb ls = sb @ ''.'' @ name_of ls"
  unfolding name_of_def
proof (induction ls arbitrary: sb rule: induct_list012)
  case (3 a b ls)
  then show ?case using "3.IH"(2) [of "sb @ ''.'' @ lower_string a"] by simp
qed simp_all

lemma grow_name: "ls \<noteq> [] \<Longrightarrow> (\<And>l. l \<in> set ls \<Longrightarrow> l \<noteq> []) \<Longrightarrow> grow [] ls = name_of ls"
proof (cases ls)
  case (Cons l ls')
  assume ne: "\<And>l. l \<in> set ls \<Longrightarrow> l \<noteq> []"
  show ?thesis
  proof (cases "ls' = []")
    case False
    then obtain k ks where "ls' = k # ks" by (cases ls') auto
    then show ?thesis using grow_Join [of "lower_string l" ls'] ne Cons by (simp add: name_of_def)
  qed (simp add: Cons name_of_def)
qed simp

lemma label_byte: "0 < n \<Longrightarrow> n \<le> 63 \<Longrightarrow> (of_nat n :: byte) AND 0xC0 = 0 \<and> (of_nat n :: byte) \<noteq> 0 \<and> unat (of_nat n :: byte) = n"
proof -
  assume n: "0 < n" "n \<le> 63"
  then have u: "unat (of_nat n :: byte) = n" by (simp add: unat_of_nat)
  have "take_bit 6 (of_nat n :: byte) = of_nat n"
    by (intro take_bit_small) (use n u in simp)
  then have "(of_nat n :: byte) = of_nat n AND 0x3F" by (simp add: take_bit_eq_mask mask_eq_exp_minus_1)
  then have "(of_nat n :: byte) AND 0xC0 = (of_nat n AND 0x3F) AND 0xC0" by simp
  also have "\<dots> = of_nat n AND (0x3F AND 0xC0)" by (simp only: and.assoc)
  finally have "(of_nat n :: byte) AND 0xC0 = 0" by simp
  moreover have "(of_nat n :: byte) \<noteq> 0" using u n by (metis unat_0 not_gr0)
  ultimately show ?thesis using u by simp
qed

lemma decode_put_name:
  assumes "drop p buf = put_name ls @ 0 # rest" and "\<And>l. l \<in> set ls \<Longrightarrow> l \<noteq> [] \<and> length l \<le> 63" and "length (grow sb ls) \<le> 253"
  shows "decode_loop buf sb nxt jumps p = Inr (grow sb ls, case nxt of None \<Rightarrow> p + length (put_name ls) + 1 | Some n \<Rightarrow> n)"
  using assms
proof (induction ls arbitrary: sb p)
  case Nil
  then have "p < length buf" "buf ! p = 0" by (auto simp: put_name_def nth_via_drop intro: ccontr)
  then show ?case by (subst decode_loop.simps) (simp add: put_name_def split: option.split)
next
  case (Cons l ls)
  let ?sb = "sb @ (if sb \<noteq> [] then ''.'' else []) @ lower_string l"
  from Cons.prems(1) have d: "drop p buf = of_nat (length l) # bytes_of_string l @ put_name ls @ 0 # rest" by (simp add: put_name_def)
  then have p: "p < length buf" "buf ! p = of_nat (length l)" by (auto simp: nth_via_drop intro: ccontr)
  have dr: "drop (Suc p) buf = bytes_of_string l @ put_name ls @ 0 # rest" using d by (metis drop_Suc tl_drop list.sel(3))
  have len: "length buf = p + 1 + length l + length (put_name ls) + 1 + length rest"
    using arg_cong [OF dr, of length] p by simp
  have lab: "subslice buf (Suc p) (Suc p + length l) = bytes_of_string l"
    using dr by (simp add: subslice_def)
  have "drop (Suc p + length l) buf = put_name ls @ 0 # rest" using arg_cong [OF dr, of "drop (length l)"] by (simp add: add.commute)
  from Cons.IH [OF this, of ?sb] Cons.prems(2,3)
  have ih: "decode_loop buf ?sb nxt jumps (Suc p + length l) =
      Inr (grow ?sb ls, case nxt of None \<Rightarrow> Suc p + length l + length (put_name ls) + 1 | Some n \<Rightarrow> n)" by simp
  have short: "length ?sb \<le> 253" using grow_longer [of ?sb ls] Cons.prems(3) by simp
  have b: "(of_nat (length l) :: byte) AND 0xC0 = 0" "(of_nat (length l) :: byte) \<noteq> 0" "unat (of_nat (length l) :: byte) = length l"
    using label_byte [of "length l"] Cons.prems(2) by auto
  show ?case
    using p len lab ih short b
    by (subst decode_loop.simps) (simp add: Let_def lower_string_def put_name_def split: option.split)
qed

lemma decodeName_put_name:
  assumes "drop p buf = put_name ls @ 0 # rest" and "labels_ok ls"
  shows "decodeName buf p = Inr (name_of ls, p + length (put_name ls) + 1)"
    and "decode_loop buf [] (Some n) jumps p = Inr (name_of ls, n)"
proof -
  have g: "grow [] ls = name_of ls" using assms(2) by (intro grow_name) (auto simp: labels_ok_def)
  moreover have "length (name_of ls) = length (Join ls ''.'')" using lower_Join [of ls] by (metis length_lower(1))
  ultimately have "length (grow [] ls) \<le> 253" using assms(2) by (simp add: labels_ok_def)
  with decode_put_name [OF assms(1), of "[]"] assms(2) g
  show "decodeName buf p = Inr (name_of ls, p + length (put_name ls) + 1)" "decode_loop buf [] (Some n) jumps p = Inr (name_of ls, n)"
    by (auto simp: decodeName_def labels_ok_def)
qed

lemma skip_put_name:
  assumes "drop p buf = put_name ls @ 0 # rest" and "\<And>l. l \<in> set ls \<Longrightarrow> l \<noteq> [] \<and> length l \<le> 63"
  shows "skipName buf p = Inr (p + length (put_name ls) + 1)"
  using assms
proof (induction ls arbitrary: p)
  case Nil
  then have "p < length buf" "buf ! p = 0" by (auto simp: put_name_def nth_via_drop intro: ccontr)
  then show ?case by (subst skipName.simps) (simp add: put_name_def)
next
  case (Cons l ls)
  from Cons.prems(1) have d: "drop p buf = of_nat (length l) # bytes_of_string l @ put_name ls @ 0 # rest" by (simp add: put_name_def)
  then have p: "p < length buf" "buf ! p = of_nat (length l)" by (auto simp: nth_via_drop intro: ccontr)
  have "drop (Suc p) buf = bytes_of_string l @ put_name ls @ 0 # rest" using d by (metis drop_Suc tl_drop list.sel(3))
  from arg_cong [OF this, of "drop (length l)"] have "drop (Suc p + length l) buf = put_name ls @ 0 # rest" by (simp add: add.commute)
  from Cons.IH [OF this] Cons.prems(2)
  have "skipName buf (Suc p + length l) = Inr (Suc p + length l + length (put_name ls) + 1)" by simp
  moreover note label_byte [of "length l"]
  ultimately show ?case using p Cons.prems(2) by (subst skipName.simps) (simp add: Let_def put_name_def)
qed

subsection \<open>The server's reply\<close>

text \<open>
  Records as servers send them: the owner as a pointer to the question or written out, an address
  (of any type but CNAME) or an alias.
\<close>

datatype owner = Asked | Other "string list"
datatype rr_body = Address u16 bytes | Alias "string list"

record server_rr =
  sr_owner :: owner
  sr_ttl :: u32
  sr_body :: rr_body

fun owner_bytes :: "owner \<Rightarrow> bytes" where
  "owner_bytes Asked = [0xC0, 12]"
| "owner_bytes (Other ls) = put_name ls @ [0]"

fun owner_name :: "string list \<Rightarrow> owner \<Rightarrow> string" where
  "owner_name q Asked = name_of q"
| "owner_name q (Other ls) = name_of ls"

fun body_type :: "rr_body \<Rightarrow> u16" where
  "body_type (Address typ _) = typ"
| "body_type (Alias _) = dnsTypeCNAME"

fun body_data :: "rr_body \<Rightarrow> bytes" where
  "body_data (Address _ d) = d"
| "body_data (Alias ls) = put_name ls @ [0]"

fun body_target :: "rr_body \<Rightarrow> string" where
  "body_target (Address _ _) = []"
| "body_target (Alias ls) = name_of ls"

definition put_rr :: "server_rr \<Rightarrow> bytes" where
  "put_rr r = owner_bytes (sr_owner r) @ put_uint16 (body_type (sr_body r)) @ put_uint16 1 @ put_uint32 (sr_ttl r) @
     put_uint16 (of_nat (length (body_data (sr_body r)))) @ body_data (sr_body r)"

definition rr_of :: "string list \<Rightarrow> server_rr \<Rightarrow> answerRR" where
  "rr_of q r = \<lparr>rr_owner = owner_name q (sr_owner r), rr_typ = body_type (sr_body r), rr_rdata = body_data (sr_body r),
     rr_target = body_target (sr_body r)\<rparr>"

definition rr_ok :: "server_rr \<Rightarrow> bool" where
  "rr_ok r \<longleftrightarrow> (case sr_owner r of Asked \<Rightarrow> True | Other ls \<Rightarrow> labels_ok ls) \<and>
     (case sr_body r of Address typ d \<Rightarrow> typ \<noteq> dnsTypeCNAME \<and> length d < 2 ^ 16 | Alias ls \<Rightarrow> labels_ok ls)"

text \<open>The server sends the query back as a response, with its records.\<close>

definition server_reply :: "bytes \<Rightarrow> server_rr list \<Rightarrow> bytes" where
  "server_reply query rs =
     take 2 query @ put_uint16 0x8180 @ put_uint16 1 @ put_uint16 (of_nat (length rs)) @ replicate 4 0 @ drop 12 query @ concat (map put_rr rs)"

lemma length_put_name: "length (put_name ls) = length (concat ls) + length ls"
  by (induction ls) (auto simp: put_name_def)

lemma length_Join: "ls \<noteq> [] \<Longrightarrow> length (Join ls ''.'') + 1 = length (concat ls) + length ls"
  by (induction ls rule: induct_list012) auto

lemma length_put_name_ok: "labels_ok ls \<Longrightarrow> length (put_name ls) \<le> 254"
  using length_put_name [of ls] length_Join [of ls] by (auto simp: labels_ok_def)

lemma drop_step: "drop p buf = xs @ ys \<Longrightarrow> drop (p + length xs) buf = ys"
  by (metis append_eq_conv_conj drop_drop add.commute)

lemma drop_length: "drop p buf = xs \<Longrightarrow> xs \<noteq> [] \<Longrightarrow> length buf = p + length xs"
  using length_drop [of p buf] by (cases "length buf \<le> p") auto

lemma decode_owner:
  assumes "drop p buf = owner_bytes w @ rest" and "case w of Asked \<Rightarrow> True | Other ls \<Rightarrow> labels_ok ls"
    and "drop 12 buf = put_name q @ 0 # rest0" and "labels_ok q" and "12 < p"
  shows "decodeName buf p = Inr (owner_name q w, p + length (owner_bytes w))"
proof (cases w)
  case Asked
  then have d: "drop p buf = 0xC0 # 12 # rest" using assms(1) by simp
  then have b: "buf ! p = 0xC0" by (rule nth_via_drop)
  have d1: "drop (Suc p) buf = 12 # rest" using d by (metis drop_Suc tl_drop list.sel(3))
  then have b1: "buf ! Suc p = 12" by (rule nth_via_drop)
  have len: "Suc p < length buf" using d1 by (metis drop_all list.distinct(1) not_le)
  have "decode_loop buf [] (Some (p + 2)) 1 12 = Inr (name_of q, p + 2)"
    by (rule decodeName_put_name(2) [OF assms(3,4)])
  then show ?thesis
    using b b1 len assms(5) Asked unfolding decodeName_def by (subst decode_loop.simps) (simp add: Let_def)
next
  case (Other ls)
  then show ?thesis using decodeName_put_name(1) [of p buf ls rest] assms(1,2) by simp
qed

lemma read_server_rr:
  assumes d: "drop p buf = put_rr r @ rest" and "drop 12 buf = put_name q @ 0 # rest0" and "labels_ok q" and "12 < p" and ok: "rr_ok r"
  shows "read_answers buf (Suc n) p acc = read_answers buf n (p + length (put_rr r)) (acc @ [rr_of q r])"
proof -
  let ?data = "body_data (sr_body r)" and ?p = "p + length (owner_bytes (sr_owner r))"
  have owner: "decodeName buf p = Inr (owner_name q (sr_owner r), ?p)"
    by (rule decode_owner [OF _ _ assms(2-4)]) (use d ok in \<open>auto simp: put_rr_def rr_ok_def\<close>)
  have body: "drop ?p buf = put_uint16 (body_type (sr_body r)) @ put_uint16 1 @ put_uint32 (sr_ttl r) @ put_uint16 (of_nat (length ?data)) @ ?data @ rest"
    using drop_step [of p buf "owner_bytes (sr_owner r)"] d by (simp add: put_rr_def)
  then have len: "length buf = ?p + 10 + length ?data + length rest"
    using drop_length [OF body] by simp
  have dlen: "length ?data < 2 ^ 16"
    using ok length_put_name_ok by (cases "sr_body r") (fastforce simp: rr_ok_def)+
  have ty: "uint16_of (subslice buf ?p (?p + 2)) = body_type (sr_body r)" using body by (simp add: subslice_def)
  have rdl: "unat (uint16_of (subslice buf (?p + 8) (?p + 10)) :: u16) = length ?data"
  proof -
    have "drop (?p + 8) buf = put_uint16 (of_nat (length ?data)) @ ?data @ rest"
      using drop_step [of ?p buf "put_uint16 (body_type (sr_body r)) @ put_uint16 1 @ put_uint32 (sr_ttl r)"] body by simp
    then show ?thesis using dlen by (simp add: subslice_def)
  qed
  have after: "drop (?p + 10) buf = ?data @ rest" 
    using drop_step [of ?p buf "put_uint16 (body_type (sr_body r)) @ put_uint16 1 @ put_uint32 (sr_ttl r) @ put_uint16 (of_nat (length ?data))"] body by simp
  have target: "(if body_type (sr_body r) = dnsTypeCNAME then case decodeName buf (?p + 10) of Inr (t, _) \<Rightarrow> t | Inl _ \<Rightarrow> [] else [])
      = body_target (sr_body r)"
    using decodeName_put_name(1) [of "?p + 10" buf _ rest] after ok by (cases "sr_body r") (auto simp: rr_ok_def)
  have "subslice buf (?p + 10) (?p + 10 + length ?data) = ?data" using after by (simp add: subslice_def)
  moreover have "p + length (put_rr r) = ?p + 10 + length ?data" by (simp add: put_rr_def)
  moreover define P where "P = ?p"
  ultimately show ?thesis
    using owner len ty rdl target unfolding P_def [symmetric] by (simp add: Let_def rr_of_def split del: if_split)
qed

lemma read_server_rrs:
  assumes "drop p buf = concat (map put_rr rs) @ rest" and "drop 12 buf = put_name q @ 0 # rest0" and "labels_ok q" and "12 < p"
    and "list_all rr_ok rs"
  shows "read_answers buf (length rs) p acc = Inr (acc @ map (rr_of q) rs)"
  using assms
proof (induction rs arbitrary: p acc)
  case (Cons r rs)
  from Cons.prems(1) have d: "drop p buf = put_rr r @ concat (map put_rr rs) @ rest" by simp
  then have "drop (p + length (put_rr r)) buf = concat (map put_rr rs) @ rest"
    by (rule drop_step)
  with Cons read_server_rr [OF d Cons.prems(2-4)] show ?case by simp
qed simp

lemma server_reply_layout:
  assumes "labels_ok ls" and "buildDNSQuery ident (Join ls ''.'') qtype = Inr query"
  shows "server_reply query rs = put_uint16 ident @ put_uint16 0x8180 @ put_uint16 1 @ put_uint16 (of_nat (length rs)) @ replicate 4 0 @
    put_name ls @ [0] @ put_uint16 qtype @ put_uint16 1 @ concat (map put_rr rs)"
proof -
  have "query = (put_uint16 ident @ put_uint16 0x0100 @ put_uint16 1 @ replicate 6 0) @ put_name ls @ [0] @ put_uint16 qtype @ put_uint16 1"
    using assms by (simp add: buildDNSQuery_ok)
  moreover have "drop 12 ((put_uint16 ident @ put_uint16 0x0100 @ put_uint16 1 @ replicate 6 0) @ xs) = xs" for xs
    by simp
  ultimately show ?thesis by (simp add: server_reply_def)
qed

text \<open>
  C22. The client and an honest DNS server understand each other. For every name of non-empty labels
  within the limits of DNS the query is built, and when the server sends the question back with any
  address and alias records (their owners written out or as pointers into the question, in any
  order), what the client makes of the reply is what the records say: the addresses that belong to
  the name, or that there are none.
\<close>

theorem dns_exchange:
  assumes "labels_ok ls" and "list_all rr_ok rs" and "length rs < 2 ^ 16"
  shows "\<exists>query. buildDNSQuery ident (Join ls ''.'') qtype = Inr query \<and>
    parseDNSAnswers (server_reply query rs) ident qtype (Join ls ''.'') = verdict (map (rr_of ls) rs) qtype (Join ls ''.'')"
proof -
  obtain query where q: "buildDNSQuery ident (Join ls ''.'') qtype = Inr query" using buildDNSQuery_ok [OF assms(1)] by blast
  define tail where "tail = put_uint16 qtype @ put_uint16 1 @ concat (map put_rr rs)"
  define body where "body = put_name ls @ 0 # tail"
  define resp where "resp = server_reply query rs"
  have resp: "resp = put_uint16 ident @ put_uint16 0x8180 @ put_uint16 1 @ put_uint16 (of_nat (length rs)) @ replicate 4 0 @ body"
    using server_reply_layout [OF assms(1) q] by (simp add: resp_def body_def tail_def)
  then have at12: "drop 12 resp = put_name ls @ 0 # tail" by (simp add: body_def)
  have fields: "uint16_of (take 2 resp) = ident" "uint16_of (subslice resp 2 4) = 0x8180" "uint16_of (subslice resp 4 6) = 1"
    "unat (uint16_of (subslice resp 6 8) :: u16) = length rs" "12 \<le> length resp"
    using assms(3) unfolding resp by (simp_all add: subslice_def)
  define pos where "pos = 12 + length (put_name ls) + 1"
  have skip: "skipName resp 12 = Inr pos"
    unfolding pos_def using assms(1) by (intro skip_put_name [OF at12]) (auto simp: labels_ok_def)
  have at_pos: "drop pos resp = tail" using drop_step [of 12 resp "put_name ls @ [0]" tail] at12 by (simp add: pos_def)
  have rrs: "drop (pos + 4) resp = concat (map put_rr rs) @ []"
    using drop_step [of pos resp "put_uint16 qtype @ put_uint16 1"] at_pos by (simp add: tail_def)
  have len: "\<not> length resp < pos + 4" using drop_length [OF at_pos] by (simp add: tail_def)
  have "12 < pos + 4" by (simp add: pos_def)
  then have "records_of resp = Inr (map (rr_of ls) rs)"
    using skip len read_server_rrs [OF rrs at12 assms(1) _ assms(2), of "[]"] by (simp add: records_of_def fields)
  moreover have "(0x8180 :: u16) AND 0x8000 \<noteq> 0" "(0x8180 :: u16) AND 0x0200 = 0" "(0x8180 :: u16) AND 0xF = 0" by simp_all
  ultimately have "parseDNSAnswers resp ident qtype (Join ls ''.'') = verdict (map (rr_of ls) rs) qtype (Join ls ''.'')"
    using fields unfolding parseDNSAnswers_eq Let_def by simp
  with q show ?thesis by (auto simp: resp_def)
qed

definition demo_name :: "string list" where "demo_name = [''Example'', ''com'']"

definition demo_rrs :: "server_rr list" where
  "demo_rrs =
     [\<lparr>sr_owner = Other [''www'', ''example'', ''com''], sr_ttl = 60, sr_body = Address dnsTypeA [1, 2, 3, 4]\<rparr>,
      \<lparr>sr_owner = Other [''evil'', ''org''], sr_ttl = 60, sr_body = Address dnsTypeA [6, 6, 6, 6]\<rparr>,
      \<lparr>sr_owner = Asked, sr_ttl = 60, sr_body = Alias [''WWW'', ''example'', ''com'']\<rparr>]"

lemma demo_dns_ok: "labels_ok demo_name" "list_all rr_ok demo_rrs" "length demo_rrs < 2 ^ 16"
  by (simp_all add: demo_name_def demo_rrs_def labels_ok_def rr_ok_def dnsTypeA_def dnsTypeCNAME_def)

lemma demo_verdict: "verdict (map (rr_of demo_name) demo_rrs) dnsTypeA (Join demo_name ''.'') = Inr [Addr4 [1, 2, 3, 4]]"
proof -
  let ?rrs = "map (rr_of demo_name) demo_rrs"
  have rrs: "?rrs = [\<lparr>rr_owner = ''www.example.com'', rr_typ = 1, rr_rdata = [1, 2, 3, 4], rr_target = []\<rparr>,
      \<lparr>rr_owner = ''evil.org'', rr_typ = 1, rr_rdata = [6, 6, 6, 6], rr_target = []\<rparr>,
      \<lparr>rr_owner = ''example.com'', rr_typ = 5, rr_rdata = put_name [''WWW'', ''example'', ''com''] @ [0], rr_target = ''www.example.com''\<rparr>]"
    by (simp add: demo_name_def demo_rrs_def rr_of_def name_of_def lower_string_def asciiLower_def byte_of_char_def char_of_byte_def
        dnsTypeA_def dnsTypeCNAME_def, code_simp)
  have q: "canonicalDNSName (Join demo_name ''.'') = ''example.com''"
    using canonical_Join [OF demo_dns_ok(1)]
    by (simp add: demo_name_def name_of_def lower_string_def asciiLower_def byte_of_char_def char_of_byte_def, code_simp)
  have "tied ?rrs ''example.com'' n \<Longrightarrow> n = ''example.com'' \<or> n = ''www.example.com''" for n
    by (induction rule: tied.induct) (auto simp: rrs)
  moreover have "tied ?rrs ''example.com'' ''www.example.com''"
    using tied.intros(2) [of ?rrs "''example.com''" "?rrs ! 2"] tied.intros(1) [of ?rrs "''example.com''"] by (simp add: rrs dnsTypeCNAME_def)
  ultimately show ?thesis
    unfolding verdict_def addresses_of_def q by (auto simp: rrs dnsTypeA_def dnsTypeAAAA_def List.map_filter_def)
qed

theorem dns_exchange_witness:
  "\<exists>query. buildDNSQuery 7 ''Example.com'' dnsTypeA = Inr query \<and>
     parseDNSAnswers (server_reply query demo_rrs) 7 dnsTypeA ''Example.com'' = Inr [Addr4 [1, 2, 3, 4]]"
  using dns_exchange [OF demo_dns_ok, of 7 dnsTypeA] demo_verdict by (simp add: demo_name_def)

end
