(* ===== verification/Resolver.thy ===== *)
theory Resolver
  imports Dns "HOL-Library.Multiset"
begin

text \<open>
  The resolver of the SOCKS5 daemon (\<^verbatim>\<open>cmd/openvpn2socks/resolver.go\<close>): the cache, the chain of servers
  asked through the tunnel, and the system resolver behind them.

  Outside are the tunnel's network stack (\<^verbatim>\<open>pkg/netstack\<close> on gVisor: whether a socket is had, what comes
  back for a query), the system resolver, the random source, the clock, \<^verbatim>\<open>singleflight\<close> and the order in
  which Go visits a map; they are the arguments collected in \<open>lookup_env\<close>. \<open>rv_asked\<close> records the
  queries that are sent, which is what the properties are about.
\<close>

section \<open>Classes of addresses\<close>

text \<open>\<^verbatim>\<open>netip.Addr\<close>: an IPv4 address in IPv6 form counts as the IPv4 address, except in \<^verbatim>\<open>IsUnspecified\<close>.\<close>

fun Addr_Is6 :: "Addr \<Rightarrow> bool" where
  "Addr_Is6 (Addr6 _ _) = True"
| "Addr_Is6 _ = False"

fun Unmap :: "Addr \<Rightarrow> Addr" where
  "Unmap (Addr6 b zone) = (if take 12 b = replicate 10 0 @ [255, 255] then Addr4 (drop 12 b) else Addr6 b zone)"
| "Unmap a = a"

definition IsLoopback :: "Addr \<Rightarrow> bool" where
  "IsLoopback a = (case Unmap a of NoAddr \<Rightarrow> False | Addr4 b \<Rightarrow> b ! 0 = 127 | Addr6 b zone \<Rightarrow> b = replicate 15 0 @ [1])"

definition IsUnspecified :: "Addr \<Rightarrow> bool" where
  "IsUnspecified a \<longleftrightarrow> a = Addr4 (replicate 4 0) \<or> a = Addr6 (replicate 16 0) ''''"

definition IsMulticast :: "Addr \<Rightarrow> bool" where
  "IsMulticast a = (case Unmap a of NoAddr \<Rightarrow> False | Addr4 b \<Rightarrow> b ! 0 AND 0xF0 = 0xE0 | Addr6 b zone \<Rightarrow> b ! 0 = 0xFF)"

definition IsLinkLocalUnicast :: "Addr \<Rightarrow> bool" where
  "IsLinkLocalUnicast a = (case Unmap a of NoAddr \<Rightarrow> False | Addr4 b \<Rightarrow> b ! 0 = 169 \<and> b ! 1 = 254
     | Addr6 b zone \<Rightarrow> b ! 0 = 0xFE \<and> b ! 1 AND 0xC0 = 0x80)"

definition IsLinkLocalMulticast :: "Addr \<Rightarrow> bool" where
  "IsLinkLocalMulticast a = (case Unmap a of NoAddr \<Rightarrow> False | Addr4 b \<Rightarrow> b ! 0 = 224 \<and> b ! 1 = 0 \<and> b ! 2 = 0
     | Addr6 b zone \<Rightarrow> b ! 0 = 0xFF \<and> b ! 1 AND 0x0F = 0x02)"

definition isProxiableLiteral :: "Addr \<Rightarrow> bool" where
  "isProxiableLiteral a =
     (if \<not> Addr_IsValid a then False
      else if IsLoopback a \<or> IsUnspecified a \<or> IsMulticast a \<or> IsLinkLocalUnicast a \<or> IsLinkLocalMulticast a then False
      else True)"

fun filterUsableIPs :: "Addr list \<Rightarrow> bool \<Rightarrow> bool \<Rightarrow> Addr list" where
  "filterUsableIPs [] haveV4 haveV6 = []"
| "filterUsableIPs (a # as) haveV4 haveV6 =
     (if Addr_Is4 a \<and> haveV4 then a # filterUsableIPs as haveV4 haveV6
      else if Addr_Is6 a \<and> haveV6 then a # filterUsableIPs as haveV4 haveV6
      else filterUsableIPs as haveV4 haveV6)"

section \<open>State\<close>

type_synonym server = "Addr \<times> u16"

definition dnsCacheTTL :: int where "dnsCacheTTL = 60 * 1000000000"
definition systemWarnThrottle :: int where "systemWarnThrottle = 60 * 1000000000"
definition dnsCacheMaxEntries :: nat where "dnsCacheMaxEntries = 8192"
definition publicDNSFallback :: server where "publicDNSFallback = (Addr4 [1, 1, 1, 1], 53)"

record dnsCacheEntry =
  ce_ips :: "Addr list"
  ce_expires :: int

datatype asked = AskedServer server string | AskedSystem string | WarnedSystem string

record resolver =
  rv_pushed :: "Addr list"
  rv_override :: server
  rv_lastSystemWarnNs :: int
  rv_cache :: "(string \<times> dnsCacheEntry) list"
  rv_statsCacheHit :: u64
  rv_statsCacheMiss :: u64
  rv_asked :: "asked list"

definition newResolver :: "Addr list \<Rightarrow> server \<Rightarrow> resolver" where
  "newResolver pushed override =
     \<lparr>rv_pushed = pushed, rv_override = override, rv_lastSystemWarnNs = 0, rv_cache = [],
      rv_statsCacheHit = 0, rv_statsCacheMiss = 0, rv_asked = []\<rparr>"

text \<open>
  \<open>lk_reply\<close> is what is read back for a query (if it could be sent and anything came back in time);
  \<open>lk_done\<close>: the context of a query ends when that many of its results have come; \<open>lk_swap\<close>: they come
  in the other order; \<open>lk_warned\<close>: another goroutine wins the race for the warning.
\<close>

record lookup_env =
  lk_v4 :: bool
  lk_v6 :: bool
  lk_now :: int
  lk_txid :: "server \<Rightarrow> u16 \<Rightarrow> u16 option"
  lk_dial :: "server \<Rightarrow> u16 \<Rightarrow> bool"
  lk_reply :: "server \<Rightarrow> bytes \<Rightarrow> bytes option"
  lk_swap :: "server \<Rightarrow> bool"
  lk_done :: "server \<Rightarrow> nat option"
  lk_system :: "string \<Rightarrow> Addr list option"
  lk_order :: "(string \<times> dnsCacheEntry) list \<Rightarrow> (string \<times> dnsCacheEntry) list"
  lk_warned :: bool

section \<open>Cache\<close>

definition cacheGet :: "int \<Rightarrow> string \<Rightarrow> resolver \<Rightarrow> Addr list option \<times> resolver" where
  "cacheGet now host r =
     (case map_of (rv_cache r) host of
        None \<Rightarrow> (None, r)
      | Some e \<Rightarrow>
          if now > ce_expires e then (None, r\<lparr>rv_cache := AList.delete host (rv_cache r)\<rparr>)
          else (Some (ce_ips e), r))"

definition evictSample :: nat where "evictSample = 8"

text \<open>The loop that picks the entry to evict, over the entries in the order the map is visited.\<close>

fun evict_loop :: "string \<Rightarrow> int \<Rightarrow> nat \<Rightarrow> (string \<times> dnsCacheEntry) list \<Rightarrow> string" where
  "evict_loop evictKey evictAt seen [] = evictKey"
| "evict_loop evictKey evictAt seen ((k, e) # es) =
     (let (evictKey, evictAt) = (if evictKey = '''' \<or> ce_expires e < evictAt then (k, ce_expires e) else (evictKey, evictAt))
      in if seen + 1 \<ge> evictSample then evictKey else evict_loop evictKey evictAt (seen + 1) es)"

definition cacheSet :: "lookup_env \<Rightarrow> string \<Rightarrow> Addr list \<Rightarrow> resolver \<Rightarrow> resolver" where
  "cacheSet env host ips r =
     (if length ips = 0 then r
      else
        let r = (if map_of (rv_cache r) host = None \<and> length (rv_cache r) \<ge> dnsCacheMaxEntries then
                   let evictKey = evict_loop '''' 0 0 (lk_order env (rv_cache r))
                   in if evictKey \<noteq> '''' then r\<lparr>rv_cache := AList.delete evictKey (rv_cache r)\<rparr> else r
                 else r)
        in r\<lparr>rv_cache := AList.update host \<lparr>ce_ips = ips, ce_expires = lk_now env + dnsCacheTTL\<rparr> (rv_cache r)\<rparr>)"

definition cacheSweep :: "int \<Rightarrow> resolver \<Rightarrow> resolver" where
  "cacheSweep now r = r\<lparr>rv_cache := filter (\<lambda>(k, e). \<not> now > ce_expires e) (rv_cache r)\<rparr>"

section \<open>Queries through the tunnel\<close>

definition pickQueryTypes :: "bool \<Rightarrow> bool \<Rightarrow> u16 list" where
  "pickQueryTypes hasV4 hasV6 = (if hasV4 then [dnsTypeA] else []) @ (if hasV6 then [dnsTypeAAAA] else [])"

definition queryOne :: "lookup_env \<Rightarrow> server \<Rightarrow> string \<Rightarrow> u16 \<Rightarrow> (dns_error, Addr list) result" where
  "queryOne env server host qtype =
     (case lk_txid env server qtype of
        None \<Rightarrow> Inl GenTxID
      | Some ident \<Rightarrow>
          rbind (buildDNSQuery ident host qtype) (\<lambda>query.
            case lk_reply env server query of
              None \<Rightarrow> Inl TransportFailed
            | Some resp \<Rightarrow> parseDNSAnswers (take 1500 resp) ident qtype host))"

datatype tunnel_error = NoQueryFamily | QueryCtxDone | TunnelNoData | NoTunnelRecords

text \<open>The receive loop: the addresses, whether there was a definite negative, whether there was any other failure.\<close>

fun gather :: "(dns_error, Addr list) result list \<Rightarrow> Addr list \<times> nat \<times> bool \<Rightarrow> Addr list \<times> nat \<times> bool" where
  "gather [] st = st"
| "gather (Inr ips # rs) (out, negatives, failed) = gather rs (out @ ips, negatives, failed)"
| "gather (Inl e # rs) (out, negatives, failed) =
     (if e = AuthoritativeNoData then gather rs (out, negatives + 1, failed) else gather rs (out, negatives, True))"

definition queryOverTunnel :: "lookup_env \<Rightarrow> server \<Rightarrow> string \<Rightarrow> (tunnel_error, Addr list) result" where
  "queryOverTunnel env server host =
     (let qtypes = pickQueryTypes (lk_v4 env) (lk_v6 env)
      in if qtypes = [] then Inl NoQueryFamily
         else
           let results = map (\<lambda>qt. if lk_dial env server qt then queryOne env server host qt else Inl TransportFailed)
                 (if lk_swap env server then rev qtypes else qtypes)
           in if (case lk_done env server of None \<Rightarrow> False | Some n \<Rightarrow> n < length qtypes) then Inl QueryCtxDone
              else (case gather results ([], 0, False) of (out, negatives, failed) \<Rightarrow>
                if out \<noteq> [] then Inr out
                else if negatives > 0 \<and> \<not> failed then Inl TunnelNoData
                else Inl NoTunnelRecords))"

section \<open>Lookups\<close>

datatype lookup_error =
    DisallowedLiteral Addr
  | NoRecordsAuthoritative string
  | SystemFailed
  | NoUsableFamily string
  | LookupCtxDone

text \<open>One tunneled server: the addresses if it has any, and whether it has given a definite negative.\<close>

definition try_server :: "lookup_env \<Rightarrow> string \<Rightarrow> server \<Rightarrow> bool \<times> resolver \<Rightarrow> Addr list option \<times> bool \<times> resolver" where
  "try_server env host server st =
     (case st of (negative, r) \<Rightarrow>
       let r = r\<lparr>rv_asked := rv_asked r @ [AskedServer server host]\<rparr>
       in case queryOverTunnel env server host of
            Inr ips \<Rightarrow> if ips \<noteq> [] then (Some ips, negative, cacheSet env host ips r) else (None, negative, r)
          | Inl e \<Rightarrow> (None, negative \<or> e = TunnelNoData, r))"

fun pushed_loop :: "lookup_env \<Rightarrow> string \<Rightarrow> Addr list \<Rightarrow> bool \<times> resolver \<Rightarrow> Addr list option \<times> bool \<times> resolver" where
  "pushed_loop env host [] (negative, r) = (None, negative, r)"
| "pushed_loop env host (srv # srvs) (negative, r) =
     (if \<not> Addr_IsValid srv then pushed_loop env host srvs (negative, r)
      else case try_server env host (srv, 53) (negative, r) of
        (Some ips, st) \<Rightarrow> (Some ips, st)
      | (None, st) \<Rightarrow> pushed_loop env host srvs st)"

definition maybeWarnSystemFallback :: "lookup_env \<Rightarrow> string \<Rightarrow> resolver \<Rightarrow> resolver" where
  "maybeWarnSystemFallback env host r =
     (if lk_now env - rv_lastSystemWarnNs r < systemWarnThrottle then r
      else if lk_warned env then r
      else r\<lparr>rv_lastSystemWarnNs := lk_now env, rv_asked := rv_asked r @ [WarnedSystem host]\<rparr>)"

definition override_valid :: "resolver \<Rightarrow> bool" where
  "override_valid r = Addr_IsValid (fst (rv_override r))"

definition lookupIPUncached :: "lookup_env \<Rightarrow> string \<Rightarrow> resolver \<Rightarrow> (lookup_error, Addr list) result \<times> resolver" where
  "lookupIPUncached env host r =
     (case (if override_valid r then try_server env host (rv_override r) (False, r) else (None, False, r)) of
        (Some ips, _, r) \<Rightarrow> (Inr ips, r)
      | (None, st) \<Rightarrow>
     (case pushed_loop env host (rv_pushed r) st of
        (Some ips, _, r) \<Rightarrow> (Inr ips, r)
      | (None, st) \<Rightarrow>
     (case (if \<not> override_valid r then try_server env host publicDNSFallback st else (None, st)) of
        (Some ips, _, r) \<Rightarrow> (Inr ips, r)
      | (None, negative, r') \<Rightarrow>
          if negative then (Inl (NoRecordsAuthoritative host), r')
          else
            let tunnelAttempted = (override_valid r \<or> (\<exists>srv \<in> set (rv_pushed r). Addr_IsValid srv) \<or> \<not> override_valid r);
                r' = (if tunnelAttempted then maybeWarnSystemFallback env host r' else r');
                r' = r'\<lparr>rv_asked := rv_asked r' @ [AskedSystem host]\<rparr>
            in (case lk_system env host of
                  None \<Rightarrow> (Inl SystemFailed, r')
                | Some ips \<Rightarrow>
                    let ips = filterUsableIPs ips (lk_v4 env) (lk_v6 env)
                    in if length ips = 0 then (Inl (NoUsableFamily host), r') else (Inr ips, r')))))"

text \<open>
  \<^verbatim>\<open>LookupIP\<close>. The shared resolution behind \<^verbatim>\<open>singleflight\<close> is run by this call, or its result comes from
  the call that runs it, or the caller's context ends first.
\<close>

datatype flight = Leader | Follower "(lookup_error, Addr list) result" | CallerDone

definition LookupIP :: "lookup_env \<Rightarrow> flight \<Rightarrow> string \<Rightarrow> resolver \<Rightarrow> (lookup_error, Addr list) result \<times> resolver" where
  "LookupIP env fl host r =
     (case ParseAddr host of
        Inr ip \<Rightarrow> (if \<not> isProxiableLiteral ip then Inl (DisallowedLiteral ip) else Inr [ip], r)
      | Inl _ \<Rightarrow>
          (case cacheGet (lk_now env) host r of
             (Some ips, r) \<Rightarrow> (Inr ips, r\<lparr>rv_statsCacheHit := rv_statsCacheHit r + 1\<rparr>)
           | (None, r) \<Rightarrow>
               let r = r\<lparr>rv_statsCacheMiss := rv_statsCacheMiss r + 1\<rparr>
               in (case fl of
                     Leader \<Rightarrow> lookupIPUncached env host r
                   | Follower res \<Rightarrow> (res, r)
                   | CallerDone \<Rightarrow> (Inl LookupCtxDone, r))))"

section \<open>Who is asked\<close>

text \<open>The servers asked through the tunnel, in order, and the loop over them.\<close>

definition tunnel_servers :: "resolver \<Rightarrow> server list" where
  "tunnel_servers r =
     (if override_valid r then [rv_override r] else []) @
     map (\<lambda>a. (a, 53)) (filter Addr_IsValid (rv_pushed r)) @ (if override_valid r then [] else [publicDNSFallback])"

fun server_loop :: "lookup_env \<Rightarrow> string \<Rightarrow> server list \<Rightarrow> bool \<times> resolver \<Rightarrow> Addr list option \<times> bool \<times> resolver" where
  "server_loop env host [] st = (None, st)"
| "server_loop env host (s # ss) st =
     (case try_server env host s st of (Some ips, st) \<Rightarrow> (Some ips, st) | (None, st) \<Rightarrow> server_loop env host ss st)"

lemma server_loop_append:
  "server_loop env host (as @ bs) st =
     (case server_loop env host as st of (Some ips, st) \<Rightarrow> (Some ips, st) | (None, st) \<Rightarrow> server_loop env host bs st)"
  by (induction as arbitrary: st) (auto split: prod.splits option.splits)

lemma pushed_loop_eq: "pushed_loop env host srvs st = server_loop env host (map (\<lambda>a. (a, 53)) (filter Addr_IsValid srvs)) st"
proof (induction srvs arbitrary: st)
  case Nil
  show ?case by (cases st) simp
next
  case (Cons a srvs)
  obtain negative r where st: "st = (negative, r)" by (cases st)
  show ?case using Cons by (auto simp: st split: prod.splits option.splits)
qed

text \<open>The end of a lookup no server has answered.\<close>

definition without_answer :: "lookup_env \<Rightarrow> string \<Rightarrow> bool \<Rightarrow> resolver \<Rightarrow> (lookup_error, Addr list) result \<times> resolver" where
  "without_answer env host negative r =
     (if negative then (Inl (NoRecordsAuthoritative host), r)
      else
        let r = maybeWarnSystemFallback env host r;
            r = r\<lparr>rv_asked := rv_asked r @ [AskedSystem host]\<rparr>
        in (case lk_system env host of
              None \<Rightarrow> (Inl SystemFailed, r)
            | Some ips \<Rightarrow>
                let ips = filterUsableIPs ips (lk_v4 env) (lk_v6 env)
                in if ips = [] then (Inl (NoUsableFamily host), r) else (Inr ips, r)))"

lemma lookup_eq:
  "lookupIPUncached env host r =
    (case server_loop env host (tunnel_servers r) (False, r) of
       (Some ips, _, r') \<Rightarrow> (Inr ips, r')
     | (None, negative, r') \<Rightarrow> without_answer env host negative r')"
proof (cases "override_valid r")
  case True
  then show ?thesis
    by (auto simp: lookupIPUncached_def tunnel_servers_def server_loop_append pushed_loop_eq without_answer_def Let_def
        split: prod.splits option.splits)
next
  case False
  then show ?thesis
    by (auto simp: lookupIPUncached_def tunnel_servers_def server_loop_append pushed_loop_eq without_answer_def Let_def
        split: prod.splits option.splits)
qed

definition ask :: "string \<Rightarrow> server list \<Rightarrow> resolver \<Rightarrow> resolver" where
  "ask host ss r = r\<lparr>rv_asked := rv_asked r @ map (\<lambda>s. AskedServer s host) ss\<rparr>"

definition answers :: "lookup_env \<Rightarrow> string \<Rightarrow> server \<Rightarrow> bool" where
  "answers env host s \<longleftrightarrow> (case queryOverTunnel env s host of Inr _ \<Rightarrow> True | Inl _ \<Rightarrow> False)"

lemma queryOverTunnel_nonempty: "queryOverTunnel env s host = Inr ips \<Longrightarrow> ips \<noteq> []"
  by (auto simp: queryOverTunnel_def Let_def split: if_splits prod.splits)

lemma server_loop_silent:
  assumes "\<And>s. s \<in> set ss \<Longrightarrow> \<not> answers env host s"
  shows "server_loop env host ss (negative, r) = (None, negative \<or> (\<exists>s \<in> set ss. queryOverTunnel env s host = Inl TunnelNoData), ask host ss r)"
  using assms
proof (induction ss arbitrary: negative r)
  case (Cons s ss)
  then obtain e where "queryOverTunnel env s host = Inl e" by (fastforce simp: answers_def split: sum.splits)
  then show ?case using Cons.IH [of "negative \<or> e = TunnelNoData"] Cons.prems by (auto simp: try_server_def ask_def)
qed (simp add: ask_def)

lemma server_loop_answer:
  assumes "\<And>s. s \<in> set ss \<Longrightarrow> \<not> answers env host s" and "queryOverTunnel env s host = Inr ips"
  shows "\<exists>negative'. server_loop env host (ss @ s # rest) (negative, r) = (Some ips, negative', cacheSet env host ips (ask host (ss @ [s]) r))"
  using server_loop_silent [OF assms(1)] queryOverTunnel_nonempty [OF assms(2)] assms(2)
  by (simp add: server_loop_append try_server_def ask_def)


definition demo_lookup :: lookup_env where
  "demo_lookup = \<lparr>lk_v4 = True, lk_v6 = False, lk_now = 0, lk_txid = (\<lambda>_ _. Some 7), lk_dial = (\<lambda>_ _. False), lk_reply = (\<lambda>_ _. None),
     lk_swap = (\<lambda>_. False), lk_done = (\<lambda>_. None), lk_system = (\<lambda>_. Some [Addr4 [1, 2, 3, 4]]), lk_order = id, lk_warned = False\<rparr>"


section \<open>What is cached\<close>

text \<open>
  Each entry of the cache was answered by a server through the tunnel, at the time its life began;
  there are never more than the limit, and none twice.
\<close>

definition cache_inv :: "(lookup_env \<times> string) set \<Rightarrow> resolver \<Rightarrow> bool" where
  "cache_inv L r \<longleftrightarrow> distinct (map fst (rv_cache r)) \<and> length (rv_cache r) \<le> dnsCacheMaxEntries \<and>
     (\<forall>(host, e) \<in> set (rv_cache r). \<exists>env s. (env, host) \<in> L \<and> queryOverTunnel env s host = Inr (ce_ips e) \<and> ce_expires e = lk_now env + dnsCacheTTL)"

text \<open>A run of the resolver: lookups, here with the circumstances of each, and sweeps of the cache.\<close>

inductive resolver_run :: "resolver \<Rightarrow> (lookup_env \<times> string) list \<Rightarrow> resolver \<Rightarrow> bool" where
  start: "resolver_run r0 [] r0"
| lookup: "resolver_run r0 ls r \<Longrightarrow> (\<And>xs. mset (lk_order env xs) = mset xs) \<Longrightarrow>
     resolver_run r0 (ls @ [(env, host)]) (snd (LookupIP env fl host r))"
| sweep: "resolver_run r0 ls r \<Longrightarrow> resolver_run r0 ls (cacheSweep now r)"

lemma cache_inv_cong: "rv_cache r' = rv_cache r \<Longrightarrow> cache_inv L r' = cache_inv L r"
  by (simp add: cache_inv_def)

lemma gather_errors: "(\<And>r. r \<in> set rs \<Longrightarrow> \<exists>e. r = Inl e) \<Longrightarrow> fst (gather rs (out, n, failed)) = out"
proof (induction rs arbitrary: n failed)
  case (Cons r rs)
  from Cons.prems [of r] obtain e where "r = Inl e" by auto
  then show ?case using Cons by simp
qed simp

lemma queryOverTunnel_empty: "queryOverTunnel env s '''' \<noteq> Inr ips"
proof -
  define rs where "rs = map (\<lambda>qt. if lk_dial env s qt then queryOne env s '''' qt else Inl TransportFailed)
    (if lk_swap env s then rev (pickQueryTypes (lk_v4 env) (lk_v6 env)) else pickQueryTypes (lk_v4 env) (lk_v6 env))"
  have "\<exists>e. queryOne env s '''' qt = Inl e" for qt by (auto simp: queryOne_def buildDNSQuery_def split: option.split)
  then have "fst (gather rs ([], 0, False)) = []" unfolding rs_def by (intro gather_errors) auto
  then obtain n failed where "gather rs ([], 0, False) = ([], n, failed)" by (metis prod.exhaust_sel)
  then show ?thesis unfolding queryOverTunnel_def Let_def rs_def [symmetric] by simp
qed

lemma cache_hosts: "cache_inv L r \<Longrightarrow> (host, e) \<in> set (rv_cache r) \<Longrightarrow> host \<noteq> ''''"
  using queryOverTunnel_empty by (fastforce simp: cache_inv_def)

lemma cache_inv_filter: "cache_inv L r \<Longrightarrow> cache_inv L (r\<lparr>rv_cache := filter P (rv_cache r)\<rparr>)"
  by (auto simp: cache_inv_def distinct_map_filter intro: le_trans [OF length_filter_le])

lemma cache_inv_delete: "cache_inv L r \<Longrightarrow> cache_inv L (r\<lparr>rv_cache := AList.delete k (rv_cache r)\<rparr>)"
  using cache_inv_filter [of L r] by (simp add: AList.delete_eq)

lemma evict_loop_key: "evictKey \<noteq> '''' \<or> es \<noteq> [] \<Longrightarrow> '''' \<notin> fst ` set es \<Longrightarrow> evict_loop evictKey evictAt seen es \<in> insert evictKey (fst ` set es) - {''''}"
proof (induction es arbitrary: evictKey evictAt seen)
  case (Cons x es)
  obtain k e where x: "x = (k, e)" by (cases x)
  let ?k = "if evictKey = '''' \<or> ce_expires e < evictAt then k else evictKey"
  have "k \<noteq> ''''" using Cons.prems(2) x by auto
  then have ne: "?k \<noteq> ''''" by auto
  have "evict_loop ?k at seen' es \<in> insert ?k (fst ` set es) - {''''}" for at seen'
    using Cons.IH [of ?k] ne Cons.prems(2) by auto
  then have "evict_loop evictKey evictAt seen (x # es) \<in> insert ?k (fst ` set es) - {''''}"
    using ne by (cases "evictKey = '''' \<or> ce_expires e < evictAt") (auto simp: x Let_def)
  then show ?case by (auto simp: x split: if_splits)
qed auto

lemma cacheSet_inv:
  assumes inv: "cache_inv L r" and L: "(env, host) \<in> L" and q: "queryOverTunnel env s host = Inr ips" and order: "\<And>xs. mset (lk_order env xs) = mset xs"
  shows "cache_inv L (cacheSet env host ips r)"
proof -
  define full where "full \<longleftrightarrow> map_of (rv_cache r) host = None \<and> length (rv_cache r) \<ge> dnsCacheMaxEntries"
  define k where "k = evict_loop '''' 0 0 (lk_order env (rv_cache r))"
  define r1 where "r1 = (if full then r\<lparr>rv_cache := AList.delete k (rv_cache r)\<rparr> else r)"
  have keys: "fst ` set (lk_order env (rv_cache r)) = fst ` set (rv_cache r)" using mset_eq_setD [OF order] by simp
  have "full \<Longrightarrow> rv_cache r \<noteq> []" by (auto simp: full_def dnsCacheMaxEntries_def)
  then have "full \<Longrightarrow> lk_order env (rv_cache r) \<noteq> []" using order [of "rv_cache r"] by auto
  moreover have "'''' \<notin> fst ` set (rv_cache r)" using cache_hosts [OF inv] by force
  ultimately have "full \<Longrightarrow> k \<in> insert '''' (fst ` set (rv_cache r)) - {''''}"
    using evict_loop_key [of "''''" "lk_order env (rv_cache r)" 0 0] unfolding k_def keys by blast
  then have k: "full \<Longrightarrow> k \<noteq> '''' \<and> k \<in> fst ` set (rv_cache r)" by blast
  have set: "cacheSet env host ips r = r1\<lparr>rv_cache := AList.update host \<lparr>ce_ips = ips, ce_expires = lk_now env + dnsCacheTTL\<rparr> (rv_cache r1)\<rparr>"
  proof (cases full)
    case True
    then show ?thesis using queryOverTunnel_nonempty [OF q] k unfolding cacheSet_def Let_def k_def [symmetric] full_def [symmetric] by (simp add: r1_def)
  next
    case False
    then show ?thesis using queryOverTunnel_nonempty [OF q] unfolding cacheSet_def Let_def full_def [symmetric] by (simp add: r1_def)
  qed
  have i1: "cache_inv L r1" using inv cache_inv_delete by (simp add: r1_def)
  have "length (AList.update host x (rv_cache r1)) \<le> dnsCacheMaxEntries" for x
  proof (cases "map_of (rv_cache r) host = None")
    case True
    have "length (rv_cache r1) < dnsCacheMaxEntries"
    proof (cases full)
      case f: True
      then obtain v where "map_of (rv_cache r) k = Some v" using k map_of_None_keys [of "rv_cache r" k] by auto
      from length_delete_less [OF this] f inv show ?thesis by (simp add: r1_def cache_inv_def)
    qed (use True in \<open>auto simp: r1_def full_def\<close>)
    then show ?thesis using length_update_le [of host x "rv_cache r1"] by simp
  next
    case False
    then have "r1 = r" "host \<in> fst ` set (rv_cache r)" using map_of_None_keys [of "rv_cache r" host] by (auto simp: r1_def full_def)
    then show ?thesis using length_update_mem [of host "rv_cache r" x] inv by (simp add: cache_inv_def)
  qed
  moreover have d: "distinct (map fst (rv_cache r1))" using i1 by (simp add: cache_inv_def)
  moreover have "\<exists>env s. (env, h) \<in> L \<and> queryOverTunnel env s h = Inr (ce_ips e) \<and> ce_expires e = lk_now env + dnsCacheTTL"
    if "(h, e) \<in> set (AList.update host \<lparr>ce_ips = ips, ce_expires = lk_now env + dnsCacheTTL\<rparr> (rv_cache r1))" for h e
  proof (cases "(h, e) \<in> set (rv_cache r1)")
    case True
    then show ?thesis using i1 unfolding cache_inv_def by blast
  next
    case False
    then have "h = host" "e = \<lparr>ce_ips = ips, ce_expires = lk_now env + dnsCacheTTL\<rparr>"
      using that unfolding set_update_distinct [OF d] by auto
    then show ?thesis using q L by (intro exI [of _ env] exI [of _ s]) simp
  qed
  ultimately show ?thesis unfolding set cache_inv_def by (simp add: distinct_update) blast
qed


lemma cacheGet_cache: "set (rv_cache (snd (cacheGet now host r))) \<subseteq> set (rv_cache r)"
  by (auto simp: cacheGet_def AList.delete_eq split: option.split)

lemma cacheGet_inv: "cache_inv L r \<Longrightarrow> cache_inv L (snd (cacheGet now host r))"
  by (auto simp: cacheGet_def cache_inv_delete split: option.split)

lemma cacheSweep_inv: "cache_inv L r \<Longrightarrow> cache_inv L (cacheSweep now r)"
  by (simp add: cacheSweep_def cache_inv_filter)

lemma try_server_inv:
  assumes "cache_inv L r" and "(env, host) \<in> L" and "\<And>xs. mset (lk_order env xs) = mset xs"
  shows "cache_inv L (snd (snd (try_server env host s (negative, r))))"
proof -
  have "cache_inv L (r\<lparr>rv_asked := rv_asked r @ [AskedServer s host]\<rparr>)" using assms(1) by (simp add: cache_inv_def)
  then show ?thesis using cacheSet_inv [OF _ assms(2) _ assms(3)] by (cases "queryOverTunnel env s host") (simp_all add: try_server_def Let_def)
qed

lemma server_loop_inv:
  assumes "cache_inv L r" and "(env, host) \<in> L" and "\<And>xs. mset (lk_order env xs) = mset xs"
  shows "cache_inv L (snd (snd (server_loop env host ss (negative, r))))"
  using assms(1)
proof (induction ss arbitrary: negative r)
  case (Cons s ss)
  obtain res negative' r' where "try_server env host s (negative, r) = (res, negative', r')" by (cases "try_server env host s (negative, r)")
  moreover from this have "cache_inv L r'" using try_server_inv [OF Cons.prems assms(2,3), of s negative] by simp
  ultimately show ?case using Cons.IH by (simp split: option.split)
qed simp

lemma lookupIPUncached_inv:
  assumes "cache_inv L r" and "(env, host) \<in> L" and "\<And>xs. mset (lk_order env xs) = mset xs"
  shows "cache_inv L (snd (lookupIPUncached env host r))"
proof -
  obtain res negative r' where l: "server_loop env host (tunnel_servers r) (False, r) = (res, negative, r')"
    by (cases "server_loop env host (tunnel_servers r) (False, r)")
  then have "cache_inv L r'" using server_loop_inv [OF assms, of "tunnel_servers r" False] by simp
  moreover have "rv_cache (snd (without_answer env host negative r')) = rv_cache r'"
    by (simp add: without_answer_def maybeWarnSystemFallback_def Let_def split: option.split)
  ultimately show ?thesis using cache_inv_cong [of "snd (without_answer env host negative r')" r' L] by (cases res) (simp_all add: lookup_eq l)
qed

lemma LookupIP_inv:
  assumes "cache_inv L r" and "(env, host) \<in> L" and "\<And>xs. mset (lk_order env xs) = mset xs"
  shows "cache_inv L (snd (LookupIP env fl host r))"
proof -
  obtain hit r' where g: "cacheGet (lk_now env) host r = (hit, r')" by (cases "cacheGet (lk_now env) host r")
  then have "cache_inv L r'" using cacheGet_inv [OF assms(1), of "lk_now env" host] by simp
  then have "cache_inv L (r'\<lparr>rv_statsCacheMiss := x\<rparr>)" "cache_inv L (r'\<lparr>rv_statsCacheHit := x\<rparr>)" for x
    by (simp_all add: cache_inv_def)
  moreover have "cache_inv L (snd (lookupIPUncached env host (r'\<lparr>rv_statsCacheMiss := x\<rparr>)))" for x
    using lookupIPUncached_inv [OF _ assms(2,3)] calculation(1) by simp
  ultimately show ?thesis
    using assms(1) by (simp add: LookupIP_def g Let_def split: sum.split option.split flight.split)
qed

lemma cache_inv_mono: "cache_inv L r \<Longrightarrow> L \<subseteq> L' \<Longrightarrow> cache_inv L' r"
  unfolding cache_inv_def by blast

lemma resolver_run_inv: "resolver_run r0 ls r \<Longrightarrow> rv_cache r0 = [] \<Longrightarrow> cache_inv (set ls) r"
proof (induction rule: resolver_run.induct)
  case (start r0)
  then show ?case by (simp add: cache_inv_def)
next
  case (lookup r0 ls r env host fl)
  then have "cache_inv (set (ls @ [(env, host)])) r" by (auto intro: cache_inv_mono)
  then show ?case using lookup.hyps(2) by (intro LookupIP_inv) auto
qed (simp add: cacheSweep_inv)

text \<open>A lookup counted as served from the cache.\<close>

lemma LookupIP_hit:
  assumes "ParseAddr host = Inl err" and "map_of (rv_cache r) host = Some e" and "lk_now env \<le> ce_expires e"
  shows "LookupIP env fl host r = (Inr (ce_ips e), r\<lparr>rv_statsCacheHit := rv_statsCacheHit r + 1\<rparr>)"
  using assms by (simp add: LookupIP_def cacheGet_def)

text \<open>
  C20. What the cache serves is fresh and came through the tunnel. After any sequence of lookups and
  sweeps, from the empty cache on and whatever order the map is visited in, the cache holds at most
  8192 names, none twice; every entry is what some server answered through the tunnel in one of
  those lookups of that name, and its life ends a minute after. While it lasts a lookup of the name
  gives that answer and asks nobody; after it the entry is dropped and the lookup goes on as if
  there had been none.
\<close>

theorem dns_cache_sound:
  assumes "resolver_run (newResolver pushed override) ls r"
  shows "length (rv_cache r) \<le> 8192 \<and> distinct (map fst (rv_cache r)) \<and>
     (\<forall>(host, e) \<in> set (rv_cache r).
        (\<exists>env' s. (env', host) \<in> set ls \<and> queryOverTunnel env' s host = Inr (ce_ips e) \<and> ce_expires e = lk_now env' + 60 * 1000000000) \<and>
        (\<forall>env fl err. ParseAddr host = Inl err \<longrightarrow>
           LookupIP env fl host r =
             (if lk_now env \<le> ce_expires e then (Inr (ce_ips e), r\<lparr>rv_statsCacheHit := rv_statsCacheHit r + 1\<rparr>)
              else LookupIP env fl host (r\<lparr>rv_cache := AList.delete host (rv_cache r)\<rparr>))))"
proof -
  have inv: "cache_inv (set ls) r" using resolver_run_inv [OF assms] by (simp add: newResolver_def)
  then have d: "distinct (map fst (rv_cache r))" by (simp add: cache_inv_def)
  have "\<exists>env' s. (env', host) \<in> set ls \<and> queryOverTunnel env' s host = Inr (ce_ips e) \<and> ce_expires e = lk_now env' + 60 * 1000000000"
    if "(host, e) \<in> set (rv_cache r)" for host e
    using inv that unfolding cache_inv_def dnsCacheTTL_def by blast
  moreover have "LookupIP env fl host r =
      (if lk_now env \<le> ce_expires e then (Inr (ce_ips e), r\<lparr>rv_statsCacheHit := rv_statsCacheHit r + 1\<rparr>)
       else LookupIP env fl host (r\<lparr>rv_cache := AList.delete host (rv_cache r)\<rparr>))"
    if "(host, e) \<in> set (rv_cache r)" and "ParseAddr host = Inl err" for host e env fl err
  proof -
    have "map_of (rv_cache r) host = Some e" using that(1) d by simp
    then show ?thesis using LookupIP_hit [OF that(2)] that(2) by (simp add: LookupIP_def cacheGet_def delete_conv')
  qed
  ultimately show ?thesis using inv d unfolding cache_inv_def dnsCacheMaxEntries_def by blast
qed


definition demo_answering :: lookup_env where
  "demo_answering = demo_lookup\<lparr>lk_dial := (\<lambda>_ _. True), lk_reply := (\<lambda>_ _. Some
     [0, 7, 0x81, 0x80, 0, 1, 0, 1, 0, 0, 0, 0, 1, 97, 1, 98, 0, 0, 1, 0, 1,
      0xC0, 12, 0, 1, 0, 1, 0, 0, 0, 60, 0, 4, 5, 6, 7, 8])\<rparr>"

definition demo_cached :: resolver where
  "demo_cached = snd (LookupIP demo_answering Leader ''a.b'' (newResolver [] (NoAddr, 0)))"

lemma demo_cached_cache: "rv_cache demo_cached = [(''a.b'', \<lparr>ce_ips = [Addr4 [5, 6, 7, 8]], ce_expires = 60000000000\<rparr>)]"
  by code_simp

theorem dns_cache_sound_witness:
  "\<exists>ls. resolver_run (newResolver [] (NoAddr, 0)) ls demo_cached \<and> (''a.b'', \<lparr>ce_ips = [Addr4 [5, 6, 7, 8]], ce_expires = 60000000000\<rparr>) \<in> set (rv_cache demo_cached) \<and>
     length (rv_cache demo_cached) \<le> 8192"
proof -
  have "resolver_run (newResolver [] (NoAddr, 0)) ([] @ [(demo_answering, ''a.b'')]) demo_cached"
    unfolding demo_cached_def by (intro resolver_run.intros) (simp add: demo_answering_def demo_lookup_def)
  from dns_cache_sound [OF this] this show ?thesis by (intro exI [of _ "[] @ [(demo_answering, ''a.b'')]"]) (simp add: demo_cached_cache)
qed

end
