(* ===== verification/Float64.thy ===== *)
theory Float64
  imports Complex_Main
begin

text \<open>
  Go's \<^verbatim>\<open>float64\<close> as far as the program computes with it: rounding of an exact rational result to 53
  significant bits, to the nearest value and ties to even. The range of exponents is not limited,
  since the program stays far from both ends.
\<close>

section \<open>Rounding\<close>

definition round_even :: "rat \<Rightarrow> int" where
  "round_even x =
     (let f = \<lfloor>x\<rfloor>; d = x - of_int f
      in if d < 1 / 2 then f else if d > 1 / 2 then f + 1 else if even f then f else f + 1)"

lemma half_ceiling: "1 < z \<Longrightarrow> \<lceil>z / 2\<rceil> < \<lceil>z :: rat\<rceil>"
proof -
  assume z: "1 < z"
  have "z / 2 \<le> of_int (\<lceil>z\<rceil> - 1)"
  proof (cases "z \<le> 2")
    case True
    then have "\<lceil>z\<rceil> = 2" using z by (simp add: ceiling_eq_iff)
    then show ?thesis using True by simp
  next
    case False
    have "z \<le> of_int \<lceil>z\<rceil>" by (rule le_of_int_ceiling)
    then show ?thesis using False unfolding of_int_diff of_int_1 by linarith
  qed
  then have "\<lceil>z / 2\<rceil> \<le> \<lceil>z\<rceil> - 1" by (rule ceiling_le)
  then show ?thesis by simp
qed

function fl_pos :: "rat \<Rightarrow> rat" where
  "fl_pos x =
     (if x \<le> 0 then 0
      else if x < 1 then fl_pos (2 * x) / 2
      else if x \<ge> 2 then 2 * fl_pos (x / 2)
      else of_int (round_even (x * 2 ^ 52)) / 2 ^ 52)"
  by pat_completeness auto
termination
proof (relation "measure (\<lambda>x. if x < 1 then nat \<lceil>1 / x\<rceil> else if x \<ge> 2 then nat \<lceil>x\<rceil> else 0)")
  fix x :: rat
  assume x: "\<not> x \<le> 0" "x < 1"
  then have "1 < 1 / x" by simp
  then have "\<lceil>1 / x / 2\<rceil> < \<lceil>1 / x\<rceil>" by (rule half_ceiling)
  then have "\<lceil>1 / (2 * x)\<rceil> < \<lceil>1 / x\<rceil>" by (simp only: divide_divide_eq_left mult.commute [of x])
  moreover have "0 < \<lceil>1 / x\<rceil>" using x by simp
  ultimately have "nat \<lceil>1 / (2 * x)\<rceil> < nat \<lceil>1 / x\<rceil>" by simp
  then show "(2 * x, x) \<in> measure (\<lambda>x. if x < 1 then nat \<lceil>1 / x\<rceil> else if x \<ge> 2 then nat \<lceil>x\<rceil> else 0)"
    using x \<open>0 < \<lceil>1 / x\<rceil>\<close> by (simp del: nat_less_eq_zless zero_less_ceiling add: in_measure)
next
  fix x :: rat
  assume x: "\<not> x \<le> 0" "\<not> x < 1" "2 \<le> x"
  then have "\<lceil>x / 2\<rceil> < \<lceil>x\<rceil>" by (intro half_ceiling) simp
  then show "(x / 2, x) \<in> measure (\<lambda>x. if x < 1 then nat \<lceil>1 / x\<rceil> else if x \<ge> 2 then nat \<lceil>x\<rceil> else 0)" using x by simp
qed simp

declare fl_pos.simps [simp del]

definition fl64 :: "rat \<Rightarrow> rat" where
  "fl64 x = (if x < 0 then - fl_pos (- x) else fl_pos x)"

section \<open>Properties\<close>

lemma round_even_bounds: "of_int (round_even x) \<le> x + 1 / 2" "x - 1 / 2 \<le> of_int (round_even x)"
  using of_int_floor_le [of x] unfolding round_even_def Let_def by (simp_all split: if_splits) linarith+

lemma round_even_mono: "x \<le> y \<Longrightarrow> round_even x \<le> round_even y"
proof (cases "\<lfloor>x\<rfloor> = \<lfloor>y\<rfloor>")
  case True
  assume "x \<le> y"
  with True show ?thesis by (auto simp: round_even_def Let_def)
next
  case False
  assume xy: "x \<le> y"
  then have "\<lfloor>x\<rfloor> \<le> \<lfloor>y\<rfloor>" by (rule floor_mono)
  with False have "\<lfloor>x\<rfloor> + 1 \<le> \<lfloor>y\<rfloor>" by simp
  moreover have "round_even x \<le> \<lfloor>x\<rfloor> + 1" "\<lfloor>y\<rfloor> \<le> round_even y" by (simp_all add: round_even_def Let_def)
  ultimately show ?thesis by linarith
qed

lemma round_even_int [simp]: "round_even (of_int i) = i"
  by (simp add: round_even_def)

lemma fl_pos_double: "0 < x \<Longrightarrow> fl_pos (2 * x) = 2 * fl_pos x"
  using fl_pos.simps [of x] fl_pos.simps [of "2 * x"] by (cases "x < 1") auto

lemma fl_pos_scale: "0 < x \<Longrightarrow> fl_pos (2 ^ n * x) = 2 ^ n * fl_pos x"
proof (induction n)
  case (Suc n)
  then show ?case using fl_pos_double [of "2 ^ n * x"] by (simp add: mult.assoc)
qed simp

text \<open>Every positive number is in the binade of \<open>1\<close> up to a power of two.\<close>

lemma binade: "0 < x \<Longrightarrow> \<exists>m n y. 2 ^ m * x = 2 ^ n * y \<and> 1 \<le> y \<and> y < (2 :: rat)"
proof (induction x rule: fl_pos.induct)
  case (1 x)
  consider "x < 1" | "1 \<le> x" "x < 2" | "2 \<le> x" by linarith
  then show ?case
  proof cases
    case less: 1
    then obtain m n y where "2 ^ m * (2 * x) = 2 ^ n * y" "1 \<le> y" "y < 2" using "1.IH"(1) "1.prems" by auto
    then have "2 ^ Suc m * x = 2 ^ n * y" by simp
    then show ?thesis using \<open>1 \<le> y\<close> \<open>y < 2\<close> by blast
  next
    case 2
    then have "2 ^ 0 * x = 2 ^ 0 * x \<and> 1 \<le> x \<and> x < 2" by simp
    then show ?thesis by blast
  next
    case 3
    then obtain m n y where "2 ^ m * (x / 2) = 2 ^ n * y" "1 \<le> y" "y < 2" using "1.IH"(2) "1.prems" by auto
    then have "2 ^ m * x = 2 ^ Suc n * y" by simp
    then show ?thesis using \<open>1 \<le> y\<close> \<open>y < 2\<close> by blast
  qed
qed

lemma fl_pos_base: "1 \<le> y \<Longrightarrow> y < 2 \<Longrightarrow> fl_pos y = of_int (round_even (y * 2 ^ 52)) / 2 ^ 52"
  by (subst fl_pos.simps) simp

lemma fl_pos_base_range:
  assumes "1 \<le> y" and "y < 2"
  shows "1 \<le> fl_pos y" "fl_pos y \<le> 2"
proof -
  have "round_even (of_int (2 ^ 52)) \<le> round_even (y * 2 ^ 52)" "round_even (y * 2 ^ 52) \<le> round_even (of_int (2 ^ 53))"
    using assms by (intro round_even_mono; simp)+
  then have "of_int (2 ^ 52) \<le> (of_int (round_even (y * 2 ^ 52)) :: rat)" "(of_int (round_even (y * 2 ^ 52)) :: rat) \<le> of_int (2 ^ 53)"
    unfolding round_even_int of_int_le_iff .
  then show "1 \<le> fl_pos y" "fl_pos y \<le> 2" by (simp_all add: fl_pos_base [OF assms] field_simps)
qed

lemma fl_pos_base_error:
  assumes "1 \<le> y" and "y < 2"
  shows "\<bar>fl_pos y - y\<bar> \<le> y / 2 ^ 53"
proof -
  let ?r = "of_int (round_even (y * 2 ^ 52)) :: rat"
  have "\<bar>?r - y * 2 ^ 52\<bar> \<le> 1 / 2" using round_even_bounds [of "y * 2 ^ 52"] by linarith
  moreover have "fl_pos y - y = (?r - y * 2 ^ 52) / 2 ^ 52" by (simp add: fl_pos_base [OF assms] field_simps)
  ultimately have "\<bar>fl_pos y - y\<bar> \<le> 1 / 2 / 2 ^ 52" by (simp only: abs_divide) (simp add: divide_right_mono)
  also have "\<dots> \<le> y / 2 ^ 53" using assms(1) by simp
  finally show ?thesis .
qed

lemma fl_pos_error:
  assumes "0 < x"
  shows "\<bar>fl_pos x - x\<bar> \<le> x / 2 ^ 53"
proof -
  obtain m n y where b: "2 ^ m * x = 2 ^ n * y" "1 \<le> y" "y < 2" using binade [OF assms] by blast
  have s: "2 ^ m * fl_pos x = 2 ^ n * fl_pos y" using fl_pos_scale [OF assms, of m] fl_pos_scale [of y n] b by simp
  have "2 ^ m * \<bar>fl_pos x - x\<bar> = \<bar>2 ^ m * fl_pos x - 2 ^ m * x\<bar>"
    by (simp add: abs_mult right_diff_distrib [symmetric])
  also have "\<dots> = 2 ^ n * \<bar>fl_pos y - y\<bar>" unfolding s b(1) by (simp add: abs_mult right_diff_distrib [symmetric])
  also have "\<dots> \<le> 2 ^ n * (y / 2 ^ 53)" using fl_pos_base_error [OF b(2,3)] by (intro mult_left_mono) simp_all
  also have "\<dots> = 2 ^ m * (x / 2 ^ 53)" using b(1) by simp
  finally show ?thesis by (simp only: mult_le_cancel_left_pos zero_less_power zero_less_numeral)
qed

lemma fl_pos_ge_2: "2 \<le> y \<Longrightarrow> 2 \<le> fl_pos y"
proof (induction y rule: fl_pos.induct)
  case (1 y)
  then have e: "fl_pos y = 2 * fl_pos (y / 2)" by (subst fl_pos.simps) simp
  show ?case
  proof (cases "y / 2 < 2")
    case True
    then show ?thesis using fl_pos_base_range(1) [of "y / 2"] 1 e by simp
  next
    case False
    then show ?thesis using 1 e by simp
  qed
qed

lemma fl_pos_mono:
  assumes "0 < x" and "x \<le> y"
  shows "fl_pos x \<le> fl_pos y"
proof -
  obtain m n x' where b: "2 ^ m * x = 2 ^ n * x'" "1 \<le> x'" "x' < 2" using binade [OF assms(1)] by blast
  define y' where "y' = 2 ^ m * y / 2 ^ n"
  have y: "2 ^ m * y = 2 ^ n * y'" by (simp add: y'_def)
  have "2 ^ n * x' \<le> 2 ^ n * y'" using assms(2) unfolding b(1) [symmetric] y [symmetric] by simp
  then have xy: "x' \<le> y'" by simp
  have "fl_pos x' \<le> fl_pos y'"
  proof (cases "y' < 2")
    case True
    have "round_even (x' * 2 ^ 52) \<le> round_even (y' * 2 ^ 52)" using xy by (intro round_even_mono) simp
    then show ?thesis using b xy True by (simp add: fl_pos_base divide_right_mono)
  next
    case False
    then show ?thesis using fl_pos_base_range(2) [OF b(2,3)] fl_pos_ge_2 [of y'] by simp
  qed
  moreover have "2 ^ m * fl_pos x = 2 ^ n * fl_pos x'" "2 ^ m * fl_pos y = 2 ^ n * fl_pos y'"
    using fl_pos_scale [of x m] fl_pos_scale [of x' n] fl_pos_scale [of y m] fl_pos_scale [of y' n] assms b y xy by simp_all
  ultimately have "2 ^ m * fl_pos x \<le> 2 ^ m * fl_pos y" by simp
  then show ?thesis by simp
qed

lemma fl_pos_nonneg: "0 \<le> fl_pos x"
proof (cases "0 < x")
  case True
  then have "x / 2 ^ 53 \<le> x" by (simp add: field_simps)
  then show ?thesis using fl_pos_error [OF True] by linarith
qed (simp add: fl_pos.simps)

end
