(* ===== verification/ConnRate.thy ===== *)
theory ConnRate
  imports Netip Float64
begin

text \<open>
  The burst limiter of the SOCKS5 daemon (\<^verbatim>\<open>cmd/openvpn2socks/connrate.go\<close>): a token bucket per
  destination address, in \<^verbatim>\<open>float64\<close> arithmetic, with buckets dropped when idle. Times are
  nanoseconds of the monotonic clock; the mutex makes every operation atomic.
\<close>

section \<open>Limiter\<close>

definition connRateBurst :: rat where "connRateBurst = 8"
definition connRateRefillSec :: rat where "connRateRefillSec = 2"
definition connRateGCEvery :: int where "connRateGCEvery = 30 * 1000000000"
definition connRateMaxIdle :: int where "connRateMaxIdle = 5 * 60 * 1000000000"

record rateBucket =
  rb_tokens :: rat
  rb_last :: int
  rb_touched :: int

record connRateLimiter =
  rl_buckets :: "Addr \<rightharpoonup> rateBucket"
  rl_lastGC :: int

text \<open>\<^verbatim>\<open>Time.Sub\<close>, which saturates, and \<^verbatim>\<open>Duration.Seconds\<close>.\<close>

definition Time_Sub :: "int \<Rightarrow> int \<Rightarrow> int" where
  "Time_Sub t u = max (- (2 ^ 63)) (min (2 ^ 63 - 1) (t - u))"

definition Seconds :: "int \<Rightarrow> rat" where
  "Seconds d =
     (let sec = sgn d * (\<bar>d\<bar> div 1000000000); nsec = sgn d * (\<bar>d\<bar> mod 1000000000)
      in fl64 (fl64 (of_int sec) + fl64 (fl64 (of_int nsec) / 1000000000)))"

definition newConnRateLimiter :: "int \<Rightarrow> connRateLimiter" where
  "newConnRateLimiter now = \<lparr>rl_buckets = Map.empty, rl_lastGC = now\<rparr>"

definition gcLocked :: "int \<Rightarrow> connRateLimiter \<Rightarrow> connRateLimiter" where
  "gcLocked now l = l\<lparr>rl_buckets := (\<lambda>k. case rl_buckets l k of
     None \<Rightarrow> None | Some b \<Rightarrow> if Time_Sub now (rb_touched b) > connRateMaxIdle then None else Some b)\<rparr>"

definition refill :: "int \<Rightarrow> rateBucket \<Rightarrow> rateBucket" where
  "refill now b =
     (let elapsed = Seconds (Time_Sub now (rb_last b))
      in if elapsed > 0 then
           let tokens = fl64 (rb_tokens b + fl64 (elapsed * connRateRefillSec));
               tokens = (if tokens > connRateBurst then connRateBurst else tokens)
           in b\<lparr>rb_tokens := tokens, rb_last := now\<rparr>
         else b)"

definition allow :: "int \<Rightarrow> Addr \<Rightarrow> connRateLimiter \<Rightarrow> bool \<times> connRateLimiter" where
  "allow now target l =
     (let l = (if Time_Sub now (rl_lastGC l) > connRateGCEvery then (gcLocked now l)\<lparr>rl_lastGC := now\<rparr> else l);
          b = (case rl_buckets l target of
                 None \<Rightarrow> \<lparr>rb_tokens = connRateBurst, rb_last = now, rb_touched = now\<rparr>
               | Some b \<Rightarrow> refill now b);
          b = b\<lparr>rb_touched := now\<rparr>
      in if rb_tokens b \<ge> 1 then
           (True, l\<lparr>rl_buckets := (rl_buckets l)(target \<mapsto> b\<lparr>rb_tokens := fl64 (rb_tokens b - 1)\<rparr>)\<rparr>)
         else (False, l\<lparr>rl_buckets := (rl_buckets l)(target \<mapsto> b)\<rparr>))"

definition Limiter_Reset :: "int \<Rightarrow> connRateLimiter \<Rightarrow> connRateLimiter" where
  "Limiter_Reset now l = l\<lparr>rl_buckets := Map.empty, rl_lastGC := now\<rparr>"

section \<open>Rounding errors\<close>

lemma fl_upper:
  assumes "0 \<le> x"
  shows "fl64 x \<le> x * (1 + 1 / 2 ^ 53)"
proof (cases "x = 0")
  case False
  then have "fl_pos x - x \<le> x / 2 ^ 53" using fl_pos_error [of x] assms by linarith
  then show ?thesis using assms by (simp add: fl64_def distrib_left)
qed (simp add: fl64_def fl_pos.simps)

lemma fl_nonneg: "0 \<le> x \<Longrightarrow> 0 \<le> fl64 x"
  by (simp add: fl64_def fl_pos_nonneg)

lemma fl_nonpos: "x \<le> 0 \<Longrightarrow> fl64 x \<le> 0"
  using fl_pos_nonneg [of "- x"] by (cases "x = 0") (simp_all add: fl64_def fl_pos.simps [of 0])

lemma fl_positive:
  assumes "0 < x"
  shows "0 < fl64 x"
proof -
  have "x / 2 ^ 53 < x" using assms by simp
  then have "0 < fl_pos x" using fl_pos_error [OF assms] by linarith
  then show ?thesis using assms by (simp add: fl64_def)
qed

lemma Seconds_nonpos: "d \<le> 0 \<Longrightarrow> Seconds d \<le> 0"
  unfolding Seconds_def Let_def
  by (intro fl_nonpos add_nonpos_nonpos divide_nonpos_nonneg) (auto simp: sgn_if)

lemma Seconds_positive:
  assumes "0 < d"
  shows "0 < Seconds d"
proof -
  have "0 \<le> d div 1000000000" "0 \<le> d mod 1000000000" using assms by (simp_all add: pos_imp_zdiv_nonneg_iff)
  moreover have "d div 1000000000 \<noteq> 0 \<or> d mod 1000000000 \<noteq> 0" using div_mult_mod_eq [of d 1000000000] assms by auto
  ultimately consider "0 < d div 1000000000" "0 \<le> d mod 1000000000" | "0 \<le> d div 1000000000" "0 < d mod 1000000000" by linarith
  then have "0 < fl64 (of_int (d div 1000000000)) + fl64 (fl64 (of_int (d mod 1000000000)) / 1000000000)"
  proof cases
    case 1
    then show ?thesis by (intro add_pos_nonneg fl_positive fl_nonneg divide_nonneg_nonneg) simp_all
  next
    case 2
    then show ?thesis by (intro add_nonneg_pos fl_positive fl_nonneg divide_pos_pos) simp_all
  qed
  then show ?thesis using assms fl_positive by (simp add: Seconds_def)
qed

lemma Seconds_upper:
  assumes "0 \<le> d"
  shows "Seconds d \<le> of_int d / 1000000000 * (1 + 1 / 2 ^ 53) ^ 3"
proof -
  define c :: rat where "c = 1 + 1 / 2 ^ 53"
  have c: "1 \<le> c" "0 \<le> c" by (simp_all add: c_def)
  define sec nsec where "sec = (of_int (d div 1000000000) :: rat)" and "nsec = (of_int (d mod 1000000000) :: rat)"
  have pos: "0 \<le> sec" "0 \<le> nsec" using assms by (simp_all add: sec_def nsec_def pos_imp_zdiv_nonneg_iff)
  have d: "of_int d / 1000000000 = sec + nsec / 1000000000"
  proof -
    have "(of_int d :: rat) = of_int (d div 1000000000 * 1000000000 + d mod 1000000000)" by (simp only: div_mult_mod_eq)
    then have "(of_int d :: rat) = sec * 1000000000 + nsec" by (simp only: sec_def nsec_def of_int_add of_int_mult of_int_numeral)
    then show ?thesis by simp
  qed
  note up = fl_upper [folded c_def]
  have "fl64 sec \<le> sec * c" by (rule up [OF pos(1)])
  also have "\<dots> \<le> sec * c ^ 2" using pos(1) c by (intro mult_left_mono) (simp_all add: power2_eq_square)
  finally have "fl64 sec \<le> sec * c ^ 2" .
  moreover have "fl64 (fl64 nsec / 1000000000) \<le> nsec / 1000000000 * c ^ 2"
  proof -
    have "fl64 (fl64 nsec / 1000000000) \<le> fl64 nsec / 1000000000 * c" using fl_nonneg [OF pos(2)] by (intro up) simp
    also have "\<dots> \<le> nsec * c / 1000000000 * c" using up [OF pos(2)] c(2) by (intro mult_right_mono divide_right_mono) simp_all
    finally show ?thesis by (simp add: power2_eq_square)
  qed
  ultimately have "fl64 sec + fl64 (fl64 nsec / 1000000000) \<le> of_int d / 1000000000 * c ^ 2" by (simp add: d distrib_right)
  then have "(fl64 sec + fl64 (fl64 nsec / 1000000000)) * c \<le> of_int d / 1000000000 * c ^ 2 * c" using c(2) by (rule mult_right_mono)
  moreover have "fl64 (fl64 sec + fl64 (fl64 nsec / 1000000000)) \<le> (fl64 sec + fl64 (fl64 nsec / 1000000000)) * c"
    using pos by (intro up add_nonneg_nonneg fl_nonneg divide_nonneg_nonneg) simp_all
  moreover have "Seconds d = fl64 (fl64 sec + fl64 (fl64 nsec / 1000000000))"
    using assms by (cases "d = 0") (simp_all add: Seconds_def sec_def nsec_def)
  moreover have "of_int d / 1000000000 * c ^ 2 * c = of_int d / 1000000000 * c ^ 3" by (simp add: power3_eq_cube power2_eq_square)
  ultimately have "Seconds d \<le> of_int d / 1000000000 * c ^ 3" by linarith
  then show ?thesis unfolding c_def .
qed

lemma refill_upper:
  assumes "0 \<le> d"
  shows "fl64 (Seconds d * connRateRefillSec) \<le> 2 * (of_int d / 1000000000) * (1 + 1 / 2 ^ 50)"
proof -
  define c :: rat where "c = 1 + 1 / 2 ^ 53"
  have s: "0 \<le> Seconds d" using Seconds_positive [of d] Seconds_nonpos [of d] assms by (cases "d = 0") (auto simp: Seconds_def fl64_def fl_pos.simps)
  have "fl64 (Seconds d * 2) \<le> Seconds d * 2 * c" unfolding c_def using s by (intro fl_upper) simp
  also have "\<dots> \<le> (of_int d / 1000000000 * c ^ 3) * 2 * c"
    using Seconds_upper [OF assms, folded c_def] by (intro mult_right_mono) (simp_all add: c_def)
  also have "\<dots> = 2 * (of_int d / 1000000000) * c ^ 4" by (simp add: power_numeral_reduce)
  also have "\<dots> \<le> 2 * (of_int d / 1000000000) * (1 + 1 / 2 ^ 50)" using assms by (intro mult_left_mono) (simp_all add: c_def power_numeral_reduce)
  finally show ?thesis by (simp add: connRateRefillSec_def)
qed


section \<open>Admitted connections\<close>

text \<open>The buckets of every reachable limiter at a time \<open>t\<close>.\<close>

definition bucket_ok :: "int \<Rightarrow> rateBucket \<Rightarrow> bool" where
  "bucket_ok t b \<longleftrightarrow> 0 \<le> rb_tokens b \<and> rb_tokens b \<le> 8 \<and> rb_touched b = rb_last b \<and> rb_last b \<le> t"

definition limiter_ok :: "int \<Rightarrow> connRateLimiter \<Rightarrow> bool" where
  "limiter_ok t l \<longleftrightarrow> (\<forall>a b. rl_buckets l a = Some b \<longrightarrow> bucket_ok t b)"

text \<open>What a sequence of requests, each with its time and target, is told, and the limiter afterwards.\<close>

fun requests :: "(int \<times> Addr) list \<Rightarrow> connRateLimiter \<Rightarrow> bool list \<times> connRateLimiter" where
  "requests [] l = ([], l)"
| "requests ((now, target) # rs) l =
     (case allow now target l of (ok, l) \<Rightarrow> (case requests rs l of (oks, l) \<Rightarrow> (ok # oks, l)))"

definition admitted :: "Addr \<Rightarrow> (int \<times> Addr) list \<Rightarrow> bool list \<Rightarrow> nat" where
  "admitted a rs oks = length (filter (\<lambda>((t, target), ok). ok \<and> target = a) (zip rs oks))"

text \<open>The refill of a bucket, bounded; a bucket dropped for idleness would have been full.\<close>

lemma Time_Sub_le: "u \<le> t \<Longrightarrow> 0 \<le> Time_Sub t u \<and> Time_Sub t u \<le> t - u"
  by (simp add: Time_Sub_def)

lemma refill_ok:
  assumes "bucket_ok t b" and "t \<le> now"
  shows "bucket_ok now ((refill now b)\<lparr>rb_touched := now\<rparr>) \<and> rb_last (refill now b) = now \<and>
    rb_tokens (refill now b) \<le> rb_tokens b + 2 * (of_int (now - rb_last b) / 1000000000) * (1 + 1 / 2 ^ 50) + 1 / 2 ^ 49"
proof (cases "now = rb_last b")
  case True
  then have "Seconds (Time_Sub now (rb_last b)) \<le> 0" by (intro Seconds_nonpos) (simp add: Time_Sub_def)
  then show ?thesis using assms True by (simp add: refill_def bucket_ok_def)
next
  case False
  then have lt: "rb_last b < now" using assms by (simp add: bucket_ok_def)
  define d where "d = Time_Sub now (rb_last b)"
  have d: "0 < d" "d \<le> now - rb_last b" using lt by (simp_all add: d_def Time_Sub_def)
  define s where "s = rb_tokens b + fl64 (Seconds d * connRateRefillSec)"
  have s0: "0 \<le> s" using assms Seconds_positive [OF d(1)] by (auto simp: s_def bucket_ok_def connRateRefillSec_def intro!: add_nonneg_nonneg fl_nonneg)
  have tokens: "rb_tokens (refill now b) = min 8 (fl64 s)" "rb_last (refill now b) = now"
    using Seconds_positive [OF d(1)] by (simp_all add: refill_def d_def [symmetric] s_def Let_def connRateBurst_def)
  have "min 8 (fl64 s) \<le> s + 1 / 2 ^ 49"
  proof (cases "s \<le> 16")
    case True
    have "fl64 s \<le> s + s / 2 ^ 53" using fl_upper [OF s0] by (simp add: distrib_left)
    also have "\<dots> \<le> s + 1 / 2 ^ 49" using True by simp
    finally show ?thesis by simp
  qed simp
  moreover have "fl64 (Seconds d * connRateRefillSec) \<le> 2 * (of_int (now - rb_last b) / 1000000000) * (1 + 1 / 2 ^ 50)"
  proof -
    have "fl64 (Seconds d * connRateRefillSec) \<le> 2 * (of_int d / 1000000000) * (1 + 1 / 2 ^ 50)" using d by (intro refill_upper) simp
    also have "\<dots> \<le> 2 * (of_int (now - rb_last b) / 1000000000) * (1 + 1 / 2 ^ 50)"
      using d(2) by (intro mult_right_mono mult_left_mono divide_right_mono) (simp_all only: of_int_le_iff, simp_all)
    finally show ?thesis .
  qed
  moreover have "bucket_ok now ((refill now b)\<lparr>rb_touched := now\<rparr>)" using fl_nonneg [OF s0] tokens by (simp add: bucket_ok_def)
  ultimately show ?thesis unfolding tokens s_def by linarith
qed

definition budget :: "int \<Rightarrow> int \<Rightarrow> nat \<Rightarrow> rat" where
  "budget t1 t k = 8 + 2 * (of_int (t - t1) / 1000000000) * (1 + 1 / 2 ^ 50) + of_nat k / 2 ^ 48"

definition in_budget :: "int \<Rightarrow> Addr \<Rightarrow> int \<Rightarrow> nat \<Rightarrow> nat \<Rightarrow> connRateLimiter \<Rightarrow> bool" where
  "in_budget t1 a t k n l \<longleftrightarrow> limiter_ok t l \<and>
     (case rl_buckets l a of
        None \<Rightarrow> of_nat n + 8 \<le> budget t1 t k
      | Some b \<Rightarrow> n = 0 \<or> of_nat n + rb_tokens b \<le> budget t1 (rb_last b) k)"

lemma budget_mono: "t \<le> t' \<Longrightarrow> k \<le> k' \<Longrightarrow> budget t1 t k \<le> budget t1 t' k'"
  unfolding budget_def by (intro add_mono mult_right_mono mult_left_mono divide_right_mono) auto

lemma budget_diff: "budget t1 u k = budget t1 t k + 2 * (of_int (u - t) / 1000000000) * (1 + 1 / 2 ^ 50)"
proof -
  have "(of_int (u - t1) :: rat) = of_int (t - t1) + of_int (u - t)" by simp
  moreover have "8 + 2 * ((x + y) / c) * e + z = 8 + 2 * (x / c) * e + z + 2 * (y / c) * e" for x y c e z :: rat
    by (simp add: add_divide_distrib distrib_left distrib_right)
  ultimately show ?thesis by (simp only: budget_def)
qed

lemma budget_full: "t1 \<le> t \<Longrightarrow> 8 \<le> budget t1 t k"
  by (simp add: budget_def)

lemma budget_idle:
  assumes "300000000000 \<le> u - t"
  shows "budget t1 t k + 8 \<le> budget t1 u k"
proof -
  have "(300000000000 :: rat) \<le> of_int (u - t)" using of_int_le_iff [of 300000000000 "u - t", where ?'a = rat] assms by simp
  then have "8 * 1 \<le> 2 * (of_int (u - t) / 1000000000) * ((1 :: rat) + 1 / 2 ^ 50)" by (intro mult_mono) simp_all
  then show ?thesis unfolding budget_diff [of t1 u k t] by simp
qed

lemma gc_in_budget:
  assumes "in_budget t1 a t k n l" and "t \<le> now" and "t1 \<le> now"
  shows "in_budget t1 a now k n (gcLocked now l)"
proof -
  have ok: "limiter_ok now (gcLocked now l)"
    using assms by (fastforce simp: in_budget_def limiter_ok_def bucket_ok_def gcLocked_def split: option.splits if_splits)
  show ?thesis
  proof (cases "rl_buckets l a")
    case None
    then show ?thesis using assms(1) ok budget_mono [OF assms(2) order_refl, of t1 k] by (simp add: in_budget_def gcLocked_def)
  next
    case (Some b)
    then have b: "bucket_ok t b" and n: "n = 0 \<or> of_nat n + rb_tokens b \<le> budget t1 (rb_last b) k"
      using assms(1) by (auto simp: in_budget_def limiter_ok_def)
    have "of_nat n + 8 \<le> budget t1 now k" if "Time_Sub now (rb_touched b) > connRateMaxIdle"
    proof -
      have "300000000000 \<le> now - rb_last b" using that b by (simp add: Time_Sub_def connRateMaxIdle_def bucket_ok_def split: if_splits)
      then show ?thesis using n b budget_full [OF assms(3), of k] budget_idle [of now "rb_last b" t1 k] by (auto simp: bucket_ok_def)
    qed
    then show ?thesis using ok n Some by (simp add: in_budget_def gcLocked_def)
  qed
qed

lemma take_token:
  assumes "1 \<le> x" and "x \<le> 8"
  shows "0 \<le> fl64 (x - 1)" "fl64 (x - 1) \<le> x - 1 + 1 / 2 ^ 50" "fl64 (x - 1) \<le> 8"
proof -
  show "0 \<le> fl64 (x - 1)" using assms by (intro fl_nonneg) simp
  have "fl64 (x - 1) \<le> (x - 1) + (x - 1) / 2 ^ 53" using fl_upper [of "x - 1"] assms by (simp only: distrib_left mult_1_right times_divide_eq_right diff_ge_0_iff_ge)
  also have "\<dots> \<le> x - 1 + 7 / 2 ^ 53" using assms(2) by (intro add_left_mono divide_right_mono) simp_all
  also have "\<dots> \<le> x - 1 + 1 / 2 ^ 50" by simp
  finally show "fl64 (x - 1) \<le> x - 1 + 1 / 2 ^ 50" .
  then show "fl64 (x - 1) \<le> 8" using assms(2) by simp
qed

text \<open>The bucket charged by a request: full if there was none, refilled otherwise.\<close>

definition charged :: "int \<Rightarrow> rateBucket option \<Rightarrow> rateBucket" where
  "charged now ob = (case ob of None \<Rightarrow> \<lparr>rb_tokens = connRateBurst, rb_last = now, rb_touched = now\<rparr> | Some b \<Rightarrow> refill now b)\<lparr>rb_touched := now\<rparr>"

lemma charged_ok:
  assumes "limiter_ok now l"
  shows "bucket_ok now (charged now (rl_buckets l a)) \<and> rb_last (charged now (rl_buckets l a)) = now"
proof (cases "rl_buckets l a")
  case (Some b)
  then have "bucket_ok now b" using assms by (simp add: limiter_ok_def)
  then show ?thesis using refill_ok [of now b now] by (simp add: charged_def Some)
qed (simp add: charged_def bucket_ok_def connRateBurst_def)

lemma charged_in_budget:
  assumes "in_budget t1 a now k n l" and "t1 \<le> now"
  shows "of_nat n + rb_tokens (charged now (rl_buckets l a)) \<le> budget t1 now k + 1 / 2 ^ 49"
proof (cases "rl_buckets l a")
  case None
  then show ?thesis using assms(1) by (simp add: charged_def in_budget_def connRateBurst_def)
next
  case (Some b)
  then have b: "bucket_ok now b" and n: "n = 0 \<or> of_nat n + rb_tokens b \<le> budget t1 (rb_last b) k"
    using assms(1) by (auto simp: in_budget_def limiter_ok_def)
  note r = refill_ok [OF b order_refl]
  have "of_nat n + rb_tokens (refill now b) \<le> budget t1 now k + 1 / 2 ^ 49"
  proof (cases "n = 0")
    case True
    then show ?thesis using r budget_full [OF assms(2), of k] by (simp add: bucket_ok_def)
  next
    case False
    then show ?thesis using r n budget_diff [of t1 now k "rb_last b"] by linarith
  qed
  then show ?thesis by (simp add: charged_def Some)
qed

lemma in_budget_later:
  assumes "in_budget t1 a t k n l" and "t \<le> u" and "k \<le> k'"
  shows "in_budget t1 a u k' n l"
proof -
  have "limiter_ok u l" using assms(1,2) by (fastforce simp: in_budget_def limiter_ok_def bucket_ok_def)
  then show ?thesis
    using assms(1) budget_mono [OF assms(2,3), of t1] budget_mono [OF order_refl assms(3), of t1]
    by (cases "rl_buckets l a") (auto simp: in_budget_def intro: order_trans)
qed

lemma in_budget_update:
  assumes "in_budget t1 a now k n l" and "bucket_ok now b" and "target = a \<Longrightarrow> of_nat n' + rb_tokens b \<le> budget t1 (rb_last b) k"
    and "target \<noteq> a \<Longrightarrow> n' = n"
  shows "in_budget t1 a now k n' (l\<lparr>rl_buckets := (rl_buckets l)(target \<mapsto> b)\<rparr>)"
  using assms by (auto simp: in_budget_def limiter_ok_def)

lemma allow_in_budget:
  assumes "in_budget t1 a t k n l" and "t \<le> now" and "t1 \<le> now"
  shows "in_budget t1 a now (Suc k) (if fst (allow now target l) \<and> target = a then Suc n else n) (snd (allow now target l))"
proof -
  define l1 where "l1 = (if Time_Sub now (rl_lastGC l) > connRateGCEvery then (gcLocked now l)\<lparr>rl_lastGC := now\<rparr> else l)"
  have l1: "in_budget t1 a now k n l1"
    using gc_in_budget [OF assms] in_budget_later [OF assms(1,2) order_refl] by (simp add: l1_def in_budget_def limiter_ok_def)
  define b where "b = charged now (rl_buckets l1 target)"
  have allow: "allow now target l = (if rb_tokens b \<ge> 1
      then (True, l1\<lparr>rl_buckets := (rl_buckets l1)(target \<mapsto> b\<lparr>rb_tokens := fl64 (rb_tokens b - 1)\<rparr>)\<rparr>)
      else (False, l1\<lparr>rl_buckets := (rl_buckets l1)(target \<mapsto> b)\<rparr>))"
    by (simp add: allow_def l1_def b_def charged_def Let_def)
  have b: "bucket_ok now b" "rb_last b = now" using charged_ok [of now l1 target] l1 by (auto simp: b_def in_budget_def)
  have more: "budget t1 now k + 1 / 2 ^ 49 + 1 / 2 ^ 50 \<le> budget t1 now (Suc k)" by (simp add: budget_def add_divide_distrib)
  have budget: "of_nat n + rb_tokens b \<le> budget t1 now k + 1 / 2 ^ 49" if "target = a"
    using charged_in_budget [OF l1 assms(3)] that by (simp add: b_def)
  note l1' = in_budget_later [OF l1 order_refl, of "Suc k"]
  show ?thesis
  proof (cases "rb_tokens b \<ge> 1")
    case True
    have "rb_tokens b \<le> 8" using b by (simp add: bucket_ok_def)
    note t = take_token [OF True this]
    have "in_budget t1 a now (Suc k) (if target = a then Suc n else n) (l1\<lparr>rl_buckets := (rl_buckets l1)(target \<mapsto> b\<lparr>rb_tokens := fl64 (rb_tokens b - 1)\<rparr>)\<rparr>)"
      using l1' b t budget more by (intro in_budget_update [where n = n]) (auto simp: bucket_ok_def)
    then show ?thesis using True by (simp add: allow)
  next
    case False
    have "in_budget t1 a now (Suc k) n (l1\<lparr>rl_buckets := (rl_buckets l1)(target \<mapsto> b)\<rparr>)"
      using l1' b budget more by (intro in_budget_update [where n = n]) auto
    then show ?thesis using False by (simp add: allow)
  qed
qed


lemma requests_in_budget:
  "in_budget t1 a t k n l \<Longrightarrow> sorted (t # map fst rs) \<Longrightarrow> t1 \<le> t \<Longrightarrow> requests rs l = (oks, l') \<Longrightarrow>
   in_budget t1 a (last (t # map fst rs)) (k + length rs) (n + admitted a rs oks) l'"
proof (induction rs arbitrary: t k n l oks)
  case (Cons r rs)
  obtain now target where r: "r = (now, target)" by (cases r)
  obtain ok l1 where al: "allow now target l = (ok, l1)" by (cases "allow now target l")
  obtain oks1 where rest: "requests rs l1 = (oks1, l')" "oks = ok # oks1" using Cons.prems(4) by (auto simp: r al split: prod.splits)
  have "in_budget t1 a now (Suc k) (if ok \<and> target = a then Suc n else n) l1"
    using allow_in_budget [OF Cons.prems(1), of now target] Cons.prems(2,3) by (simp add: r al)
  then have "in_budget t1 a (last (now # map fst rs)) (Suc k + length rs) ((if ok \<and> target = a then Suc n else n) + admitted a rs oks1) l'"
    by (rule Cons.IH [OF _ _ _ rest(1)]) (use Cons.prems(2,3) in \<open>simp_all add: r\<close>)
  moreover have "(if ok \<and> target = a then Suc n else n) + admitted a rs oks1 = n + admitted a (r # rs) oks"
    by (simp add: admitted_def r rest(2))
  ultimately show ?case by (simp add: r)
qed (simp add: admitted_def)

lemma in_budget_start: "limiter_ok t l \<Longrightarrow> in_budget t a t 0 0 l"
  by (simp add: in_budget_def budget_def split: option.split)

lemma fl_small: "fl64 7 = 7" "fl64 6 = 6" "fl64 5 = 5" "fl64 4 = 4" "fl64 3 = 3" "fl64 2 = 2" "fl64 1 = 1" "fl64 0 = 0"
  by code_simp+

lemma in_budget_bound:
  assumes "in_budget t1 a t k n l" and "t1 \<le> t"
  shows "of_nat n \<le> budget t1 t k"
proof (cases "rl_buckets l a")
  case (Some b)
  then have b: "0 \<le> rb_tokens b" "rb_last b \<le> t" and n: "n = 0 \<or> of_nat n + rb_tokens b \<le> budget t1 (rb_last b) k"
    using assms(1) by (auto simp: in_budget_def limiter_ok_def bucket_ok_def)
  then show ?thesis using budget_mono [OF b(2) order_refl, of t1 k] budget_full [OF assms(2), of k] by auto
qed (use assms(1) in \<open>simp add: in_budget_def\<close>)

lemma requests_ok:
  assumes "requests rs (newConnRateLimiter t0) = (oks, l)" and "sorted (t0 # map fst rs)"
  shows "limiter_ok (last (t0 # map fst rs)) l"
proof -
  have "in_budget t0 NoAddr t0 0 0 (newConnRateLimiter t0)" by (intro in_budget_start) (simp add: limiter_ok_def newConnRateLimiter_def)
  from requests_in_budget [OF this assms(2) order_refl assms(1)] show ?thesis by (simp add: in_budget_def)
qed

lemma burst_admitted: "fst (requests (replicate 9 (t, a)) (newConnRateLimiter t0)) = replicate 8 True @ [False]"
proof -
  have same: "\<not> Time_Sub t t > connRateGCEvery" "Seconds (Time_Sub t t) = 0"
    by (simp_all add: Time_Sub_def connRateGCEvery_def Seconds_def fl_small)
  define lim where "lim g x = \<lparr>rl_buckets = [a \<mapsto> \<lparr>rb_tokens = x, rb_last = t, rb_touched = t\<rparr>], rl_lastGC = g\<rparr>" for g x
  define g where "g = (if Time_Sub t t0 > connRateGCEvery then t else t0)"
  have g: "allow t a (newConnRateLimiter t0) = (True, lim g 7)" "\<not> Time_Sub t g > connRateGCEvery"
    using same(1) by (simp_all add: g_def allow_def newConnRateLimiter_def gcLocked_def lim_def connRateBurst_def fl_small Let_def)
  have step: "allow t a (lim g x) = (if x \<ge> 1 then (True, lim g (fl64 (x - 1))) else (False, lim g x))" for x
    using g(2) same(2) by (simp add: allow_def lim_def refill_def Let_def)
  show ?thesis by (simp add: numeral_eq_Suc g(1) step fl_small)
qed

text \<open>
  C31. The limiter keeps its rate. In any stretch of requests, whatever came before it and whatever
  other targets are asked for in between, at most eight connections and two for every second of the
  stretch are admitted to a target, up to what the rounding of \<^verbatim>\<open>float64\<close> can add, which is less than one
  for any stretch of fewer than 2^40 requests and seconds; dropping idle buckets does not loosen
  it. And a target not seen before is allowed the full burst of eight at once, and no ninth.
\<close>

theorem connect_rate_bounded:
  assumes "sorted (t0 # map fst (before @ (t, b) # during))"
    and "requests before (newConnRateLimiter t0) = (oks0, l)" and "requests ((t, b) # during) l = (oks, l')"
  shows "of_nat (admitted a ((t, b) # during) oks) \<le>
      8 + 2 * (of_int (last (map fst ((t, b) # during)) - t) / 1000000000) * (1 + 1 / 2 ^ 50) + (of_nat (length during + 1) / 2 ^ 48 :: rat) \<and>
    fst (requests (replicate 9 (t, a)) (newConnRateLimiter t0)) = replicate 8 True @ [False]"
proof -
  have srt: "sorted (t0 # map fst before)" "sorted (t # map fst ((t, b) # during))" "\<forall>u \<in> set (t0 # map fst before). u \<le> t"
    using assms(1) by (auto simp: sorted_append)
  moreover have "last (t0 # map fst before) \<in> set (t0 # map fst before)" by (rule last_in_set) simp
  ultimately have "last (t0 # map fst before) \<le> t" by blast
  then have "limiter_ok t l" using requests_ok [OF assms(2) srt(1)] by (fastforce simp: limiter_ok_def bucket_ok_def)
  from requests_in_budget [OF in_budget_start [OF this, of a] srt(2) order_refl assms(3)]
  have "in_budget t a (last (map fst ((t, b) # during))) (length during + 1) (admitted a ((t, b) # during) oks) l'" by simp
  moreover have "t \<le> last (map fst ((t, b) # during))" using srt(2) by (cases during rule: rev_cases) auto
  ultimately show ?thesis using in_budget_bound burst_admitted unfolding budget_def by blast
qed


theorem connect_rate_bounded_witness:
  "\<exists>oks l'. requests [(0, Addr4 [1, 2, 3, 4]), (1000000000, Addr4 [1, 2, 3, 4])] (newConnRateLimiter 0) = (oks, l') \<and>
     of_nat (admitted (Addr4 [1, 2, 3, 4]) [(0, Addr4 [1, 2, 3, 4]), (1000000000, Addr4 [1, 2, 3, 4])] oks) \<le> (8 + 2 * (1 + 1 / 2 ^ 50) + 2 / 2 ^ 48 :: rat)"
proof -
  obtain oks l' where r: "requests [(0, Addr4 [1, 2, 3, 4]), (1000000000, Addr4 [1, 2, 3, 4])] (newConnRateLimiter 0) = (oks, l')"
    by (cases "requests [(0, Addr4 [1, 2, 3, 4]), (1000000000, Addr4 [1, 2, 3, 4])] (newConnRateLimiter 0)")
  have "requests [] (newConnRateLimiter 0) = ([], newConnRateLimiter 0)" by simp
  from connect_rate_bounded [OF _ this r, of "Addr4 [1, 2, 3, 4]"] r show ?thesis by simp
qed

end
