(* ===== verification/Socks5.thy ===== *)
theory Socks5
  imports Resolver NetipText ConnRate
begin

text \<open>
  The SOCKS5 side of the daemon (\<^verbatim>\<open>cmd/openvpn2socks/socks5.go\<close>, \<^verbatim>\<open>socks5_tcp.go\<close>): the greeting with its
  optional password, requests and replies, and what a CONNECT does up to the moment the proxy copies
  bytes.

  A client's connection is the bytes it still has to say, the bytes it was told, and how many writes
  to it still succeed. Outside are the network stack of the tunnel (the result of a dial) and the
  copying between the two connections.
\<close>

section \<open>Wire constants\<close>

definition socksVer :: u8 where "socksVer = 5"
definition authVer :: u8 where "authVer = 1"
definition authNone :: u8 where "authNone = 0"
definition authUser :: u8 where "authUser = 2"
definition authNoAcc :: u8 where "authNoAcc = 0xFF"
definition cmdConnect :: u8 where "cmdConnect = 1"
definition cmdBind :: u8 where "cmdBind = 2"
definition cmdAssociate :: u8 where "cmdAssociate = 3"
definition atypIPv4 :: u8 where "atypIPv4 = 1"
definition atypDomain :: u8 where "atypDomain = 3"
definition atypIPv6 :: u8 where "atypIPv6 = 4"
definition rsv :: u8 where "rsv = 0"
definition udpMaxPayload :: nat where "udpMaxPayload = 65507"

definition repSucceeded :: u8 where "repSucceeded = 0"
definition repGeneralFailure :: u8 where "repGeneralFailure = 1"
definition repNetworkUnreach :: u8 where "repNetworkUnreach = 3"
definition repHostUnreach :: u8 where "repHostUnreach = 4"
definition repConnRefused :: u8 where "repConnRefused = 5"
definition repTTLExpired :: u8 where "repTTLExpired = 6"
definition repCmdNotSupported :: u8 where "repCmdNotSupported = 7"

lemmas socks_constants = socksVer_def authVer_def authNone_def authUser_def authNoAcc_def cmdConnect_def cmdBind_def
  cmdAssociate_def atypIPv4_def atypDomain_def atypIPv6_def rsv_def

section \<open>Server and client\<close>

datatype socks_error =
    AuthSpecNoColon string | AuthSpecNoUser
  | ReadFailed | WriteFailed | BadVersion u8 | ZeroMethods | NoAcceptableMethod u8 | BadSubnegVer u8 | BadCredentials
  | UnsupportedATYP u8

record socks5Server =
  sv_listen :: string
  sv_authUser :: string
  sv_authPass :: string

record proxy_state =
  px_resolver :: resolver
  px_connRate :: connRateLimiter

definition newSOCKS5 :: "string \<Rightarrow> string \<Rightarrow> (socks_error, socks5Server) result" where
  "newSOCKS5 listen authSpec =
     (let s = \<lparr>sv_listen = listen, sv_authUser = '''', sv_authPass = ''''\<rparr>
      in if authSpec \<noteq> '''' then
           case Cut CHR '':'' authSpec of (u, p, ok) \<Rightarrow>
             if \<not> ok then Inl (AuthSpecNoColon authSpec)
             else if u = '''' then Inl AuthSpecNoUser
             else Inr (s\<lparr>sv_authUser := u, sv_authPass := p\<rparr>)
         else Inr s)"

record client_conn =
  cn_in :: bytes
  cn_out :: bytes
  cn_writes :: "nat option"

definition conn_read :: "nat \<Rightarrow> client_conn \<Rightarrow> (bytes \<times> client_conn) option" where
  "conn_read n c = (if length (cn_in c) < n then None else Some (take n (cn_in c), c\<lparr>cn_in := drop n (cn_in c)\<rparr>))"

definition conn_write :: "bytes \<Rightarrow> client_conn \<Rightarrow> bool \<times> client_conn" where
  "conn_write p c =
     (case cn_writes c of
        None \<Rightarrow> (True, c\<lparr>cn_out := cn_out c @ p\<rparr>)
      | Some 0 \<Rightarrow> (False, c)
      | Some (Suc n) \<Rightarrow> (True, c\<lparr>cn_out := cn_out c @ p, cn_writes := Some n\<rparr>))"

section \<open>Greeting\<close>

definition subnegUserPass :: "socks5Server \<Rightarrow> client_conn \<Rightarrow> socks_error option \<times> client_conn" where
  "subnegUserPass s c =
     (case conn_read 2 c of
        None \<Rightarrow> (Some ReadFailed, c)
      | Some (hdr, c) \<Rightarrow>
          if hdr ! 0 \<noteq> authVer then (Some (BadSubnegVer (hdr ! 0)), c)
          else (case conn_read (unat (hdr ! 1)) c of
            None \<Rightarrow> (Some ReadFailed, c)
          | Some (user, c) \<Rightarrow>
              (case conn_read 1 c of
                 None \<Rightarrow> (Some ReadFailed, c)
               | Some (plen, c) \<Rightarrow>
                   (case conn_read (unat (plen ! 0)) c of
                      None \<Rightarrow> (Some ReadFailed, c)
                    | Some (pass, c) \<Rightarrow>
                        let ok = (user = bytes_of_string (sv_authUser s) \<and> pass = bytes_of_string (sv_authPass s));
                            status = (if ok then 0 else 1)
                        in (case conn_write [authVer, status] c of
                              (False, c) \<Rightarrow> (Some WriteFailed, c)
                            | (True, c) \<Rightarrow> if \<not> ok then (Some BadCredentials, c) else (None, c))))))"

definition greet :: "socks5Server \<Rightarrow> client_conn \<Rightarrow> socks_error option \<times> client_conn" where
  "greet s c =
     (case conn_read 2 c of
        None \<Rightarrow> (Some ReadFailed, c)
      | Some (hdr, c) \<Rightarrow>
          if hdr ! 0 \<noteq> socksVer then (Some (BadVersion (hdr ! 0)), c)
          else
            let n = unat (hdr ! 1)
            in if n = 0 then (Some ZeroMethods, c)
               else (case conn_read n c of
                 None \<Rightarrow> (Some ReadFailed, c)
               | Some (methods, c) \<Rightarrow>
                   let want = (if sv_authUser s \<noteq> '''' then authUser else authNone)
                   in if want \<notin> set methods then (Some (NoAcceptableMethod want), snd (conn_write [socksVer, authNoAcc] c))
                      else (case conn_write [socksVer, want] c of
                        (False, c) \<Rightarrow> (Some WriteFailed, c)
                      | (True, c) \<Rightarrow> if want = authUser then subnegUserPass s c else (None, c))))"

section \<open>Requests and replies\<close>

record socksRequest =
  rq_cmd :: u8
  rq_atyp :: u8
  rq_host :: string
  rq_port :: u16

definition readRequest :: "client_conn \<Rightarrow> (socks_error, socksRequest) result \<times> client_conn" where
  "readRequest c =
     (case conn_read 4 c of
        None \<Rightarrow> (Inl ReadFailed, c)
      | Some (hdr, c) \<Rightarrow>
          if hdr ! 0 \<noteq> socksVer then (Inl (BadVersion (hdr ! 0)), c)
          else
            let atyp = hdr ! 3
            in (case (if atyp = atypIPv4 then
                        (case conn_read 4 c of None \<Rightarrow> Inl ReadFailed | Some (b, c) \<Rightarrow> Inr (Addr_String (Addr4 b), c))
                      else if atyp = atypIPv6 then
                        (case conn_read 16 c of None \<Rightarrow> Inl ReadFailed | Some (b, c) \<Rightarrow> Inr (Addr_String (Addr6 b ''''), c))
                      else if atyp = atypDomain then
                        (case conn_read 1 c of
                           None \<Rightarrow> Inl ReadFailed
                         | Some (l, c) \<Rightarrow>
                             (case conn_read (unat (l ! 0)) c of
                                None \<Rightarrow> Inl ReadFailed | Some (buf, c) \<Rightarrow> Inr (string_of_bytes buf, c)))
                      else Inl (UnsupportedATYP atyp)) of
                  Inl e \<Rightarrow> (Inl e, c)
                | Inr (host, c) \<Rightarrow>
                    (case conn_read 2 c of
                       None \<Rightarrow> (Inl ReadFailed, c)
                     | Some (p, c) \<Rightarrow> (Inr \<lparr>rq_cmd = hdr ! 1, rq_atyp = atyp, rq_host = host, rq_port = uint16_of p\<rparr>, c))))"

definition IPv4Unspecified :: Addr where "IPv4Unspecified = Addr4 [0, 0, 0, 0]"

definition reply_bytes :: "u8 \<Rightarrow> Addr \<times> u16 \<Rightarrow> bytes" where
  "reply_bytes rep bnd =
     (case fst bnd of
        Addr4 b \<Rightarrow> [socksVer, rep, rsv, atypIPv4] @ b
      | Addr6 b zone \<Rightarrow> [socksVer, rep, rsv, atypIPv6] @ b
      | NoAddr \<Rightarrow> [socksVer, rep, rsv, atypIPv4] @ [0, 0, 0, 0]) @ put_uint16 (snd bnd)"

definition writeReply :: "u8 \<Rightarrow> Addr \<times> u16 \<Rightarrow> client_conn \<Rightarrow> bool \<times> client_conn" where
  "writeReply rep bnd c = conn_write (reply_bytes rep bnd) c"

section \<open>CONNECT\<close>

text \<open>
  The error of a dial: what \<^verbatim>\<open>errors.Is\<close> and \<^verbatim>\<open>errors.As\<close> find in its chain, and its text.
  \<^verbatim>\<open>strings.ToLower\<close> matters for ASCII search patterns only: besides the ASCII capitals two characters become ASCII
  letters, the Kelvin sign (U+212A) and the dotted capital I (U+0130).
\<close>

record stack_error =
  de_tunnelIPChanged :: bool
  de_ctxDone :: bool
  de_osDeadline :: bool
  de_refused :: bool
  de_hostUnreach :: bool
  de_netUnreach :: bool
  de_opTimeout :: bool
  de_text :: string

fun ToLower_ascii :: "string \<Rightarrow> string" where
  "ToLower_ascii [] = []"
| "ToLower_ascii (c # cs) =
     (if HasPrefix (c # cs) [char_of (0xE2 :: nat), char_of (0x84 :: nat), char_of (0xAA :: nat)] then CHR ''k'' # ToLower_ascii (drop 2 cs)
      else if HasPrefix (c # cs) [char_of (0xC4 :: nat), char_of (0xB0 :: nat)] then CHR ''i'' # ToLower_ascii (drop 1 cs)
      else ascii_lower c # ToLower_ascii cs)"

fun Contains :: "string \<Rightarrow> string \<Rightarrow> bool" where
  "Contains [] sub = (sub = [])"
| "Contains (c # cs) sub = (HasPrefix (c # cs) sub \<or> Contains cs sub)"

definition mapDialError :: "stack_error option \<Rightarrow> u8" where
  "mapDialError err =
     (case err of
        None \<Rightarrow> repSucceeded
      | Some e \<Rightarrow>
          if de_tunnelIPChanged e then repHostUnreach
          else if de_ctxDone e then repTTLExpired
          else if de_osDeadline e then repTTLExpired
          else if de_refused e then repConnRefused
          else if de_hostUnreach e then repHostUnreach
          else if de_netUnreach e then repNetworkUnreach
          else if de_opTimeout e then repTTLExpired
          else
            let msg = ToLower_ascii (de_text e)
            in if Contains msg ''refused'' then repConnRefused
               else if Contains msg ''no route'' \<or> Contains msg ''host is unreachable'' \<or> Contains msg ''unreachable host'' \<or>
                       Contains msg ''no such host'' then repHostUnreach
               else if Contains msg ''network is unreachable'' \<or> Contains msg ''unreach'' then repNetworkUnreach
               else if Contains msg ''timed out'' \<or> Contains msg ''deadline exceeded'' \<or> Contains msg ''context canceled'' then repTTLExpired
               else repGeneralFailure)"

text \<open>The local address of a connection, if there is one, as text.\<close>

definition localAddrPort :: "string option \<Rightarrow> Addr \<times> u16" where
  "localAddrPort a =
     (case a of
        None \<Rightarrow> (IPv4Unspecified, 0)
      | Some t \<Rightarrow> (case ParseAddrPort t of Inr ap \<Rightarrow> ap | Inl _ \<Rightarrow> (IPv4Unspecified, 0)))"

datatype connect_end = Refused u8 | ReplyLost string | Proxied string

definition handleConnect ::
  "lookup_env \<Rightarrow> flight \<Rightarrow> (string \<Rightarrow> (stack_error, string option) result) \<Rightarrow> socksRequest \<Rightarrow> proxy_state \<Rightarrow> client_conn \<Rightarrow>
   connect_end \<times> proxy_state \<times> client_conn" where
  "handleConnect env fl dial req px c =
     (case LookupIP env fl (rq_host req) (px_resolver px) of (res, r) \<Rightarrow>
       let px = px\<lparr>px_resolver := r\<rparr>;
           refuse = (\<lambda>rep px. (Refused rep, px, snd (writeReply rep (IPv4Unspecified, 0) c)))
       in case res of
            Inl _ \<Rightarrow> refuse repHostUnreach px
          | Inr ips \<Rightarrow>
              if length ips = 0 then refuse repHostUnreach px
              else
                let usable = filterUsableIPs ips (lk_v4 env) (lk_v6 env)
                in if length usable = 0 then refuse repHostUnreach px
                   else
                     let target = usable ! 0
                     in (case allow (lk_now env) target (px_connRate px) of (ok, l) \<Rightarrow>
                       let px = px\<lparr>px_connRate := l\<rparr>
                       in if \<not> ok then refuse repConnRefused px
                          else
                            let addr = JoinHostPort (Addr_String target) (nat_decimal (unat (rq_port req)))
                            in (case dial addr of
                                  Inl e \<Rightarrow> refuse (mapDialError (Some e)) px
                                | Inr local \<Rightarrow>
                                    (case writeReply repSucceeded (localAddrPort local) c of
                                       (False, c) \<Rightarrow> (ReplyLost addr, px, c)
                                     | (True, c) \<Rightarrow> (Proxied addr, px, c)))))"


section \<open>Authentication\<close>

lemma conn_read_Some:
  "conn_read n c = Some (p, c') \<longleftrightarrow> (\<exists>rest. cn_in c = p @ rest \<and> length p = n \<and> c' = c\<lparr>cn_in := rest\<rparr>)"
  by (auto simp: conn_read_def intro: exI [of _ "drop n (cn_in c)"])

lemma conn_read_append [simp]: "cn_in c = p @ rest \<Longrightarrow> length p = n \<Longrightarrow> conn_read n c = Some (p, c\<lparr>cn_in := rest\<rparr>)"
  by (auto simp: conn_read_def)

definition can_write :: "nat \<Rightarrow> client_conn \<Rightarrow> bool" where
  "can_write k c = (case cn_writes c of None \<Rightarrow> True | Some n \<Rightarrow> k \<le> n)"

definition after :: "nat \<Rightarrow> bytes \<Rightarrow> bytes \<Rightarrow> client_conn \<Rightarrow> client_conn" where
  "after k told rest c = c\<lparr>cn_in := rest, cn_out := cn_out c @ told, cn_writes := map_option (\<lambda>n. n - k) (cn_writes c)\<rparr>"

lemma conn_write_True:
  "conn_write p (c\<lparr>cn_in := rest\<rparr>) = (True, c') \<longleftrightarrow> can_write 1 c \<and> c' = after 1 p rest c"
  by (auto simp: conn_write_def can_write_def after_def split: option.splits nat.splits)

lemma conn_write_fst: "fst (conn_write p c) \<longleftrightarrow> can_write 1 c"
  by (auto simp: conn_write_def can_write_def split: option.splits nat.splits)

lemma can_write_after [simp]: "can_write (Suc 0) c \<and> can_write (Suc 0) (after (Suc 0) p r c) \<longleftrightarrow> can_write 2 c"
  by (auto simp: can_write_def after_def split: option.splits)

lemma after_after [simp]: "after (Suc 0) q rest (after (Suc 0) p r c) = after 2 (p @ q) rest c"
  by (cases "cn_writes c") (simp_all add: after_def)

lemma cn_in_after [simp]: "cn_in (after k p rest c) = rest"
  by (simp add: after_def)

lemma byte_length: "(of_nat (unat (b :: u8)) :: u8) = b \<and> unat b \<le> 255"
  using unsigned_less [where ?'a = nat, of b] by simp

lemma subneg_ok:
  fixes s :: socks5Server
  defines "U \<equiv> bytes_of_string (sv_authUser s)" and "P \<equiv> bytes_of_string (sv_authPass s)"
  shows "subnegUserPass s c = (None, c') \<longleftrightarrow>
    (\<exists>rest. cn_in c = [authVer, of_nat (length U)] @ U @ [of_nat (length P)] @ P @ rest \<and> length U \<le> 255 \<and> length P \<le> 255 \<and>
       can_write 1 c \<and> c' = after 1 [authVer, 0] rest c)" (is "?l \<longleftrightarrow> ?r")
proof
  assume ?r
  then obtain rest where i: "cn_in c = [authVer, of_nat (length U)] @ U @ [of_nat (length P)] @ P @ rest"
    and len: "length U \<le> 255" "length P \<le> 255" and w: "can_write 1 c" "c' = after 1 [authVer, 0] rest c" by blast
  then show ?l using conn_write_True [of "[authVer, 0]" rest c c']
    by (simp add: subnegUserPass_def conn_read_def Let_def U_def P_def unat_of_nat_u8)
next
  assume l: ?l
  then obtain hdr c1 where 1: "conn_read 2 c = Some (hdr, c1)" "hdr ! 0 = authVer" by (auto simp: subnegUserPass_def split: option.splits if_splits)
  then obtain user c2 where 2: "conn_read (unat (hdr ! 1)) c1 = Some (user, c2)" using l by (auto simp: subnegUserPass_def split: option.splits)
  then obtain plen c3 where 3: "conn_read 1 c2 = Some (plen, c3)" using l 1 by (auto simp: subnegUserPass_def split: option.splits)
  then obtain pass c4 where 4: "conn_read (unat (plen ! 0)) c3 = Some (pass, c4)" using l 1 2 by (auto simp: subnegUserPass_def split: option.splits)
  then have ok: "user = U" "pass = P" "conn_write [authVer, 0] c4 = (True, c')"
    using l 1 2 3 by (auto simp: subnegUserPass_def U_def P_def Let_def split: prod.splits bool.splits if_splits)
  obtain r1 where r1: "cn_in c = hdr @ r1" "length hdr = 2" "c1 = c\<lparr>cn_in := r1\<rparr>" using 1 by (auto simp: conn_read_Some)
  obtain r2 where r2: "r1 = U @ r2" "length U = unat (hdr ! 1)" "c2 = c\<lparr>cn_in := r2\<rparr>" using 2 ok(1) r1(3) by (auto simp: conn_read_Some)
  obtain r3 where r3: "r2 = plen @ r3" "length plen = 1" "c3 = c\<lparr>cn_in := r3\<rparr>" using 3 r2(3) by (auto simp: conn_read_Some)
  obtain r4 where r4: "r3 = P @ r4" "length P = unat (plen ! 0)" "c4 = c\<lparr>cn_in := r4\<rparr>" using 4 ok(2) r3(3) by (auto simp: conn_read_Some)
  have "hdr = [authVer, of_nat (length U)]" using r1(2) 1(2) r2(2) byte_length [of "hdr ! 1"] by (cases hdr; cases "tl hdr") auto
  moreover have "plen = [of_nat (length P)]" using r3(2) r4(2) byte_length [of "plen ! 0"] by (cases plen) auto
  ultimately show ?r
    using ok(3) r1 r2 r3 r4 byte_length [of "hdr ! 1"] byte_length [of "plen ! 0"] by (auto simp: conn_write_True)
qed


lemma greet_ok:
  fixes s :: socks5Server
  defines "want \<equiv> if sv_authUser s \<noteq> '''' then authUser else authNone"
  shows "greet s c = (None, c') \<longleftrightarrow>
    (\<exists>methods rest. cn_in c = [socksVer, of_nat (length methods)] @ methods @ rest \<and> length methods \<le> 255 \<and> want \<in> set methods \<and> can_write 1 c \<and>
       (if want = authUser then subnegUserPass s (after 1 [socksVer, want] rest c) = (None, c') else c' = after 1 [socksVer, want] rest c))" (is "?l \<longleftrightarrow> ?r")
proof
  assume ?r
  then obtain methods rest where i: "cn_in c = [socksVer, of_nat (length methods)] @ methods @ rest" and len: "length methods \<le> 255"
    and want: "want \<in> set methods" and w: "can_write 1 c"
    and next': "if want = authUser then subnegUserPass s (after 1 [socksVer, want] rest c) = (None, c') else c' = after 1 [socksVer, want] rest c" by blast
  have "conn_write [socksVer, want] (c\<lparr>cn_in := rest\<rparr>) = (True, after 1 [socksVer, want] rest c)" using conn_write_True w by blast
  moreover have "methods \<noteq> []" using want by auto
  ultimately show ?l
    using i len want next' unfolding greet_def want_def [symmetric] by (simp add: conn_read_def Let_def unat_of_nat_u8 split: if_splits)
next
  assume l: ?l
  then obtain hdr c1 where 1: "conn_read 2 c = Some (hdr, c1)" "hdr ! 0 = socksVer" by (auto simp: greet_def split: option.splits if_splits)
  then obtain methods c2 where 2: "conn_read (unat (hdr ! 1)) c1 = Some (methods, c2)"
    using l by (auto simp: greet_def Let_def split: option.splits if_splits)
  then have want: "want \<in> set methods" using l 1 unfolding greet_def want_def [symmetric] by (auto simp: Let_def split: if_splits)
  then obtain c3 where 3: "conn_write [socksVer, want] c2 = (True, c3)" "if want = authUser then subnegUserPass s c3 = (None, c') else c' = c3"
    using l 1 2 unfolding greet_def want_def [symmetric] by (auto simp: Let_def split: if_splits prod.splits bool.splits)
  obtain r1 where r1: "cn_in c = hdr @ r1" "length hdr = 2" "c1 = c\<lparr>cn_in := r1\<rparr>" using 1 by (auto simp: conn_read_Some)
  obtain r2 where r2: "r1 = methods @ r2" "length methods = unat (hdr ! 1)" "c2 = c\<lparr>cn_in := r2\<rparr>" using 2 r1(3) by (auto simp: conn_read_Some)
  have "hdr = [socksVer, of_nat (length methods)]" using r1(2) 1(2) r2(2) byte_length [of "hdr ! 1"] by (cases hdr; cases "tl hdr") auto
  then have "cn_in c = [socksVer, of_nat (length methods)] @ methods @ r2" "length methods \<le> 255"
    using r1(1) r2(1,2) byte_length [of "hdr ! 1"] by simp_all
  moreover have c3: "can_write 1 c" "c3 = after 1 [socksVer, want] r2 c" using 3(1) r2(3) by (auto simp: conn_write_True)
  ultimately show ?r using want 3(2) [unfolded c3(2)] by blast
qed

text \<open>
  C24. The door opens for the credentials and nothing else. A server made from a non-empty
  credential setting always has a user name and a password, the two halves of the setting at its
  first colon (a setting without colon or without user is refused at the start); a client gets past
  its greeting exactly if it offers password authentication, sends exactly that name and password,
  and the two replies can be written; what it sends after them is left for the request. Without a
  setting, exactly the clients that offer no authentication get past.
\<close>

theorem socks_auth_exact:
  assumes "newSOCKS5 listen spec = Inr s"
  shows "(spec = '''' \<longrightarrow> (greet s c = (None, c') \<longleftrightarrow>
      (\<exists>methods rest. cn_in c = [5, of_nat (length methods)] @ methods @ rest \<and> length methods \<le> 255 \<and> 0 \<in> set methods \<and>
         can_write 1 c \<and> c' = after 1 [5, 0] rest c))) \<and>
    (spec \<noteq> '''' \<longrightarrow> (\<exists>user pass. spec = user @ CHR '':'' # pass \<and> CHR '':'' \<notin> set user \<and> user \<noteq> [] \<and> (greet s c = (None, c') \<longleftrightarrow>
      (\<exists>methods rest. cn_in c = [5, of_nat (length methods)] @ methods @
           [1, of_nat (length user)] @ bytes_of_string user @ [of_nat (length pass)] @ bytes_of_string pass @ rest \<and>
         length methods \<le> 255 \<and> 2 \<in> set methods \<and> length user \<le> 255 \<and> length pass \<le> 255 \<and>
         can_write 2 c \<and> c' = after 2 [5, 2, 1, 0] rest c))))"
proof (cases "spec = ''''")
  case True
  then have "sv_authUser s = ''''" using assms by (auto simp: newSOCKS5_def)
  then show ?thesis using True greet_ok [of s c c'] by (simp add: socks_constants)
next
  case False
  obtain user pass ok where cut: "Cut CHR '':'' spec = (user, pass, ok)" by (cases "Cut CHR '':'' spec")
  then have s: "ok" "user \<noteq> ''''" "sv_authUser s = user" "sv_authPass s = pass" using assms False by (auto simp: newSOCKS5_def split: if_splits)
  have spec: "spec = user @ CHR '':'' # pass" "CHR '':'' \<notin> set user"
    using Cut_rejoin [where c = "CHR '':''" and s = spec] Cut_head_free [where c = "CHR '':''" and s = spec] cut s(1) by auto
  have "greet s c = (None, c') \<longleftrightarrow>
      (\<exists>methods rest. cn_in c = [5, of_nat (length methods)] @ methods @
           [1, of_nat (length user)] @ bytes_of_string user @ [of_nat (length pass)] @ bytes_of_string pass @ rest \<and>
         length methods \<le> 255 \<and> 2 \<in> set methods \<and> length user \<le> 255 \<and> length pass \<le> 255 \<and>
         can_write 2 c \<and> c' = after 2 [5, 2, 1, 0] rest c)"
  proof -
    have "greet s c = (None, c') \<longleftrightarrow> (\<exists>methods rest0. cn_in c = [5, of_nat (length methods)] @ methods @ rest0 \<and> length methods \<le> 255 \<and>
        2 \<in> set methods \<and> can_write 1 c \<and> subnegUserPass s (after 1 [5, 2] rest0 c) = (None, c'))"
      using greet_ok [of s c c'] s(2,3) by (simp add: socks_constants)
    also have "\<dots> \<longleftrightarrow> (\<exists>methods rest0 rest. cn_in c = [5, of_nat (length methods)] @ methods @ rest0 \<and> length methods \<le> 255 \<and> 2 \<in> set methods \<and>
        rest0 = [1, of_nat (length user)] @ bytes_of_string user @ [of_nat (length pass)] @ bytes_of_string pass @ rest \<and> length user \<le> 255 \<and> length pass \<le> 255 \<and>
        (can_write (Suc 0) c \<and> can_write (Suc 0) (after (Suc 0) [5, 2] rest0 c)) \<and> c' = after 2 [5, 2, 1, 0] rest c)"
      unfolding subneg_ok s(3,4) by (fastforce simp: socks_constants)
    finally show ?thesis unfolding can_write_after by blast
  qed
  then show ?thesis using False spec s(2) by blast
qed


theorem socks_auth_exact_witness:
  "\<exists>s c'. newSOCKS5 ''127.0.0.1:1080'' ''me:x:y'' = Inr s \<and>
     greet s \<lparr>cn_in = [5, 2, 0, 2, 1, 2, 109, 101, 3, 120, 58, 121, 5], cn_out = [], cn_writes = None\<rparr> = (None, c') \<and> cn_in c' = [5]"
proof -
  let ?s = "\<lparr>sv_listen = ''127.0.0.1:1080'', sv_authUser = ''me'', sv_authPass = ''x:y''\<rparr>"
  let ?c = "\<lparr>cn_in = [5, 2, 0, 2, 1, 2, 109, 101, 3, 120, 58, 121, 5], cn_out = [], cn_writes = None\<rparr>"
  have new: "newSOCKS5 ''127.0.0.1:1080'' ''me:x:y'' = Inr ?s" by (simp add: newSOCKS5_def)
  have "greet ?s ?c = (None, \<lparr>cn_in = [5], cn_out = [5, 2, 1, 0], cn_writes = None\<rparr>)" by code_simp
  moreover have "\<exists>user pass. ''me:x:y'' = user @ CHR '':'' # pass \<and> user \<noteq> []"
    using socks_auth_exact [OF new, of ?c] by blast
  ultimately show ?thesis using new by force
qed

section \<open>Connections\<close>

datatype dest = ToAddr Addr | ToName string

fun dest_bytes :: "dest \<Rightarrow> bytes" where
  "dest_bytes (ToAddr (Addr6 b zone)) = atypIPv6 # b"
| "dest_bytes (ToAddr a) = atypIPv4 # Addr_AsSlice a"
| "dest_bytes (ToName n) = atypDomain # of_nat (length n) # bytes_of_string n"

fun dest_host :: "dest \<Rightarrow> string" where
  "dest_host (ToAddr a) = Addr_String a"
| "dest_host (ToName n) = n"

fun dest_ok :: "dest \<Rightarrow> bool" where
  "dest_ok (ToAddr a) \<longleftrightarrow> addr_wf a \<and> Addr_IsValid a \<and> withoutZone a = a"
| "dest_ok (ToName n) \<longleftrightarrow> length n \<le> 255"

lemma readRequest_dest:
  assumes "cn_in c = [socksVer, cmd, x] @ dest_bytes d @ put_uint16 port @ rest" and "dest_ok d"
  shows "readRequest c = (Inr \<lparr>rq_cmd = cmd, rq_atyp = dest_bytes d ! 0, rq_host = dest_host d, rq_port = port\<rparr>, c\<lparr>cn_in := rest\<rparr>)"
proof (cases d)
  case (ToAddr a)
  show ?thesis
  proof (cases a)
    case (Addr4 b)
    then show ?thesis using assms ToAddr by (simp add: readRequest_def conn_read_def Let_def addr_wf_def socks_constants)
  next
    case (Addr6 b zone)
    then have "zone = []" using assms ToAddr by (cases zone) auto
    then show ?thesis using assms ToAddr Addr6 by (simp add: readRequest_def conn_read_def Let_def addr_wf_def socks_constants)
  qed (use assms ToAddr in simp)
next
  case (ToName n)
  then show ?thesis using assms by (simp add: readRequest_def conn_read_def Let_def socks_constants unat_of_nat_u8)
qed

text \<open>The conditions under which an address is dialled for a host and a port.\<close>

definition dial_target :: "lookup_env \<Rightarrow> flight \<Rightarrow> string \<Rightarrow> u16 \<Rightarrow> proxy_state \<Rightarrow> Addr \<Rightarrow> string \<Rightarrow> bool" where
  "dial_target env fl host port px ip addr \<longleftrightarrow>
     (\<exists>ips rest. fst (LookupIP env fl host (px_resolver px)) = Inr ips \<and> filterUsableIPs ips (lk_v4 env) (lk_v6 env) = ip # rest) \<and>
     fst (allow (lk_now env) ip (px_connRate px)) \<and> addr = JoinHostPort (Addr_String ip) (nat_decimal (unat port))"

lemma handleConnect_end:
  assumes "handleConnect env fl dial req px c = (end, px', c')"
  shows "case end of
      Proxied addr \<Rightarrow> \<exists>ip local. dial_target env fl (rq_host req) (rq_port req) px ip addr \<and> dial addr = Inr local \<and>
        conn_write (reply_bytes repSucceeded (localAddrPort local)) c = (True, c')
    | ReplyLost addr \<Rightarrow> \<exists>ip local. dial_target env fl (rq_host req) (rq_port req) px ip addr \<and> dial addr = Inr local \<and>
        c' = snd (conn_write (reply_bytes repSucceeded (localAddrPort local)) c)
    | Refused rep \<Rightarrow> c' = snd (conn_write (reply_bytes rep (IPv4Unspecified, 0)) c)"
proof -
  obtain res r where l: "LookupIP env fl (rq_host req) (px_resolver px) = (res, r)" by (cases "LookupIP env fl (rq_host req) (px_resolver px)")
  show ?thesis
  proof (cases "\<exists>ips ip rest. res = Inr ips \<and> ips \<noteq> [] \<and> filterUsableIPs ips (lk_v4 env) (lk_v6 env) = ip # rest")
    case False
    then have "end = Refused repHostUnreach" "c' = snd (writeReply repHostUnreach (IPv4Unspecified, 0) c)"
      using assms unfolding handleConnect_def l
      by (auto simp: Let_def neq_Nil_conv split: sum.splits if_splits prod.splits)
    then show ?thesis by (simp add: writeReply_def)
  next
    case True
    then obtain ips ip rest where u: "res = Inr ips" "ips \<noteq> []" "filterUsableIPs ips (lk_v4 env) (lk_v6 env) = ip # rest" by blast
    obtain ok lim where al: "allow (lk_now env) ip (px_connRate px) = (ok, lim)" by (cases "allow (lk_now env) ip (px_connRate px)")
    let ?addr = "JoinHostPort (Addr_String ip) (nat_decimal (unat (rq_port req)))"
    have "dial_target env fl (rq_host req) (rq_port req) px ip ?addr" if ok using that l u al by (simp add: dial_target_def)
    then show ?thesis
      using assms unfolding handleConnect_def l
      by (cases "dial ?addr") (auto simp: u al Let_def writeReply_def split: if_splits prod.splits bool.splits)
  qed
qed


lemma filterUsableIPs_eq: "filterUsableIPs ips v4 v6 = filter (\<lambda>ip. Addr_Is4 ip \<and> v4 \<or> Addr_Is6 ip \<and> v6) ips"
  by (cases v4; cases v6; induction ips; simp)

lemma LookupIP_literal:
  "ParseAddr host = Inr ip \<Longrightarrow> LookupIP env fl host r = (if isProxiableLiteral ip then Inr [ip] else Inl (DisallowedLiteral ip), r)"
  by (simp add: LookupIP_def)

lemma dial_target_sound:
  assumes "dial_target env fl (dest_host d) port px ip addr" and "dest_ok d"
  shows "(Addr_Is4 ip \<and> lk_v4 env \<or> Addr_Is6 ip \<and> lk_v6 env) \<and>
    (addr_wf ip \<longrightarrow> ParseAddrPort addr = Inr (ip, port)) \<and> fst (allow (lk_now env) ip (px_connRate px)) \<and>
    (case d of ToAddr a \<Rightarrow> ip = a \<and> isProxiableLiteral a
     | ToName n \<Rightarrow> (\<exists>ips. fst (LookupIP env fl n (px_resolver px)) = Inr ips \<and> ip \<in> set ips))"
proof -
  obtain ips rest where l: "fst (LookupIP env fl (dest_host d) (px_resolver px)) = Inr ips"
      "filterUsableIPs ips (lk_v4 env) (lk_v6 env) = ip # rest" and al: "fst (allow (lk_now env) ip (px_connRate px))"
      and addr: "addr = JoinHostPort (Addr_String ip) (nat_decimal (unat port))"
    using assms(1) by (auto simp: dial_target_def)
  have ip: "ip \<in> set ips" "Addr_Is4 ip \<and> lk_v4 env \<or> Addr_Is6 ip \<and> lk_v6 env"
    using filter_eq_ConsD [OF l(2) [unfolded filterUsableIPs_eq]] by auto
  have "Addr_IsValid ip" using ip(2) by (cases ip) simp_all
  then have "addr_wf ip \<longrightarrow> ParseAddrPort addr = Inr (ip, port)" using ParseAddrPort_JoinHostPort addr by blast
  moreover have "case d of ToAddr a \<Rightarrow> ip = a \<and> isProxiableLiteral a
     | ToName n \<Rightarrow> (\<exists>ips. fst (LookupIP env fl n (px_resolver px)) = Inr ips \<and> ip \<in> set ips)"
  proof (cases d)
    case (ToAddr a)
    then have "ParseAddr (dest_host d) = Inr a" using assms(2) ParseAddr_String [of a] by simp
    then show ?thesis using l(1) ip(1) by (auto simp: ToAddr LookupIP_literal split: if_splits)
  qed (use l(1) ip(1) in auto)
  ultimately show ?thesis using ip(2) al by blast
qed



definition demo_proxy :: proxy_state where
  "demo_proxy = \<lparr>px_resolver = newResolver [] (NoAddr, 0), px_connRate = newConnRateLimiter 0\<rparr>"

definition demo_client :: client_conn where
  "demo_client = \<lparr>cn_in = [5, 1, 0, 1, 1, 2, 3, 4, 0, 80, 71], cn_out = [], cn_writes = None\<rparr>"

lemma demo_lookup_literal: "LookupIP demo_lookup Leader (Addr_String (Addr4 [1, 2, 3, 4])) r = (Inr [Addr4 [1, 2, 3, 4]], r)"
proof -
  have "isProxiableLiteral (Addr4 [1, 2, 3, 4])" by code_simp
  then show ?thesis using LookupIP_literal [OF ParseAddr_String [of "Addr4 [1, 2, 3, 4]"]] by (simp add: addr_wf_def)
qed

lemma demo_allowed: "fst (allow 0 a (newConnRateLimiter 0))"
  by (simp add: allow_def newConnRateLimiter_def Time_Sub_def connRateGCEvery_def connRateBurst_def)


end
