(* ===== verification/SocksUdp.thy ===== *)
theory SocksUdp
  imports Socks5
begin

text \<open>
  UDP ASSOCIATE of the SOCKS5 daemon (\<^verbatim>\<open>cmd/openvpn2socks/socks5_udp.go\<close>): the datagram header, the check of a
  datagram's source, and the relays, one per destination the client names.

  The goroutines of an association are the pump that reads the client's socket, one pump per relay
  that reads the tunnel, and the handler that ends it all; they meet in the manager under its mutex.
  The model cuts their code where the mutex is not held and something else can happen: around the
  dial of a new relay, and between taking a relay out of the registry and closing its connection.
  The sockets themselves are outside: what arrives and whether a dial succeeds are arguments.
\<close>

section \<open>Datagram header\<close>

datatype udp_error = DatagramTooShort | FragmentUnsupported u8 | V4Truncated | V6Truncated | DomainTruncated | BadATYP u8

definition parseUDPRequest :: "bytes \<Rightarrow> (udp_error, string \<times> u16 \<times> bytes) result" where
  "parseUDPRequest b =
     (if length b < 4 then Inl DatagramTooShort
      else
        let frag = b ! 2; atyp = b ! 3
        in if frag \<noteq> 0 then Inl (FragmentUnsupported frag)
           else rbind
             (if atyp = atypIPv4 then
                if length b < 4 + 4 + 2 then Inl V4Truncated else Inr (Addr_String (Addr4 (subslice b 4 8)), 8)
              else if atyp = atypIPv6 then
                if length b < 4 + 16 + 2 then Inl V6Truncated else Inr (Addr_String (Addr6 (subslice b 4 20) ''''), 20)
              else if atyp = atypDomain then
                if length b < 4 + 1 then Inl DomainTruncated
                else let l = unat (b ! 4) in
                     if length b < 5 + l + 2 then Inl DomainTruncated else Inr (string_of_bytes (subslice b 5 (5 + l)), 5 + l)
              else Inl (BadATYP atyp))
             (\<lambda>(host, pos). Inr (host, uint16_of (subslice b pos (pos + 2)), drop (pos + 2) b)))"

definition buildUDPReply :: "string \<Rightarrow> u16 \<Rightarrow> bytes \<Rightarrow> bytes" where
  "buildUDPReply dstHost dstPort data =
     [0, 0, 0] @
     (case ParseAddr dstHost of
        Inr ip \<Rightarrow>
          (case ip of Addr4 b \<Rightarrow> atypIPv4 # b | Addr6 b zone \<Rightarrow> atypIPv6 # b | NoAddr \<Rightarrow> [])
      | Inl _ \<Rightarrow>
          let dstHost = (if length dstHost > 255 then take 255 dstHost else dstHost)
          in atypDomain # of_nat (length dstHost) # bytes_of_string dstHost) @
     put_uint16 dstPort @ data"

section \<open>Addresses\<close>

text \<open>\<^verbatim>\<open>net.UDPAddr\<close> and \<^verbatim>\<open>net.TCPAddr\<close>: an address of 4 or 16 bytes, or none.\<close>

record net_addr =
  na_IP :: bytes
  na_Port :: int

definition AddrFromSlice :: "bytes \<Rightarrow> Addr option" where
  "AddrFromSlice b = (if length b = 4 then Some (Addr4 b) else if length b = 16 then Some (Addr6 b '''') else None)"

definition IP_Equal :: "bytes \<Rightarrow> bytes \<Rightarrow> bool" where
  "IP_Equal ip x =
     (if length ip = length x then ip = x
      else if length ip = 4 \<and> length x = 16 then Is4In6_bytes x \<and> ip = drop 12 x
      else if length ip = 16 \<and> length x = 4 then Is4In6_bytes ip \<and> drop 12 ip = x
      else False)"

definition IP_IsUnspecified :: "bytes \<Rightarrow> bool" where
  "IP_IsUnspecified ip \<longleftrightarrow> IP_Equal ip (replicate 10 0 @ [255, 255] @ replicate 4 0) \<or> IP_Equal ip (replicate 16 0)"

definition IP_String :: "bytes \<Rightarrow> string" where
  "IP_String ip =
     (if length ip = 4 then addr4_text ip
      else if length ip = 16 then if Is4In6_bytes ip then addr4_text (drop 12 ip) else addr6_text ip
      else if ip = [] then ''<nil>''
      else ''?'' @ concat (map (\<lambda>b. [hex_char (unat b div 16), hex_char (unat b mod 16)]) ip))"

definition tcpRemoteIP :: "net_addr option \<Rightarrow> Addr" where
  "tcpRemoteIP a =
     (case a of
        None \<Rightarrow> NoAddr
      | Some a \<Rightarrow> (case AddrFromSlice (na_IP a) of None \<Rightarrow> NoAddr | Some ip \<Rightarrow> Unmap ip))"

definition parseHostAsIP :: "string \<Rightarrow> Addr option" where
  "parseHostAsIP host =
     (if host = '''' then None
      else case ParseAddr host of Inl _ \<Rightarrow> None | Inr ip \<Rightarrow> Some (Unmap ip))"

definition udpBindIPForCtrl :: "net_addr option \<Rightarrow> string \<Rightarrow> string" where
  "udpBindIPForCtrl local listenAddr =
     (if (case local of Some a \<Rightarrow> na_IP a \<noteq> [] \<and> \<not> IP_IsUnspecified (na_IP a) | None \<Rightarrow> False) then IP_String (na_IP (the local))
      else case SplitHostPort listenAddr of
        Some (host, _) \<Rightarrow> if host \<noteq> '''' \<and> host \<noteq> ''0.0.0.0'' \<and> host \<noteq> ''::'' then host else ''127.0.0.1''
      | None \<Rightarrow> ''127.0.0.1'')"

text \<open>The source an association expects: from the control connection, overridden by the request.\<close>

definition expected_source :: "net_addr option \<Rightarrow> socksRequest option \<Rightarrow> Addr \<times> u16" where
  "expected_source remote req =
     (let expectedIP = tcpRemoteIP remote; expectedPort = 0
      in case req of
           None \<Rightarrow> (expectedIP, expectedPort)
         | Some req \<Rightarrow>
             ((case parseHostAsIP (rq_host req) of
                 Some reqIP \<Rightarrow> if \<not> IsUnspecified reqIP then reqIP else expectedIP
               | None \<Rightarrow> expectedIP),
              (if rq_port req \<noteq> 0 then rq_port req else expectedPort)))"

section \<open>Relays\<close>

text \<open>A connection of the tunnel's stack is known by a number.\<close>

record udpRelay =
  ur_target :: nat
  ur_clientAddr :: net_addr
  ur_dstHost :: string
  ur_dstPort :: u16

text \<open>\<open>um_relays\<close> is \<^const>\<open>None\<close> for the nil map; \<open>um_wg\<close> is the counter of the wait group.\<close>

record udpRelayMgr =
  um_relays :: "(string \<times> udpRelay) list option"
  um_closed :: bool
  um_wg :: nat
  um_expectedIP :: Addr
  um_expectedPort :: u16
  um_client :: "net_addr option"

definition newUDPRelayMgr :: "Addr \<times> u16 \<Rightarrow> udpRelayMgr" where
  "newUDPRelayMgr expected =
     \<lparr>um_relays = Some [], um_closed = False, um_wg = 0, um_expectedIP = fst expected, um_expectedPort = snd expected, um_client = None\<rparr>"

definition authorise :: "net_addr \<Rightarrow> udpRelayMgr \<Rightarrow> net_addr option \<times> udpRelayMgr" where
  "authorise src m =
     (case AddrFromSlice (na_IP src) of
        None \<Rightarrow> (None, m)
      | Some ip \<Rightarrow>
          let srcIP = Unmap ip
          in if Addr_IsValid (um_expectedIP m) \<and> srcIP \<noteq> um_expectedIP m then (None, m)
             else if um_expectedPort m \<noteq> 0 \<and> of_int (na_Port src) \<noteq> um_expectedPort m then (None, m)
             else (case um_client m of
               None \<Rightarrow> (Some src, m\<lparr>um_client := Some src\<rparr>)
             | Some client \<Rightarrow>
                 if IP_Equal (na_IP client) (na_IP src) \<and> na_Port client = na_Port src then (Some client, m) else (None, m)))"

definition relay_at :: "string \<Rightarrow> udpRelayMgr \<Rightarrow> udpRelay option" where
  "relay_at relayKey m = (case um_relays m of None \<Rightarrow> None | Some rs \<Rightarrow> map_of rs relayKey)"

definition lookupRelay :: "string \<Rightarrow> udpRelayMgr \<Rightarrow> udpRelay option" where
  "lookupRelay relayKey m = relay_at relayKey m"

text \<open>\<^verbatim>\<open>removeRelay\<close> up to the close of the connection, which happens after the mutex is released.\<close>

definition removeRelay :: "string \<Rightarrow> udpRelayMgr \<Rightarrow> nat option \<times> udpRelayMgr" where
  "removeRelay relayKey m =
     (case relay_at relayKey m of
        None \<Rightarrow> (None, m)
      | Some r \<Rightarrow> (Some (ur_target r), m\<lparr>um_relays := map_option (AList.delete relayKey) (um_relays m)\<rparr>))"

datatype create_result = CreateClosed | CreateHave udpRelay | CreateDial

definition getOrCreate_enter :: "string \<Rightarrow> udpRelayMgr \<Rightarrow> create_result" where
  "getOrCreate_enter relayKey m =
     (if um_closed m then CreateClosed
      else case relay_at relayKey m of Some r \<Rightarrow> CreateHave r | None \<Rightarrow> CreateDial)"

text \<open>The second half of \<^verbatim>\<open>getOrCreate\<close>, with the connection just dialled; a write to the nil map panics.\<close>

datatype finish_result = FinishClosed | FinishRelay udpRelay udpRelayMgr | FinishPanic

definition getOrCreate_finish :: "string \<Rightarrow> string \<Rightarrow> u16 \<Rightarrow> net_addr \<Rightarrow> nat \<Rightarrow> udpRelayMgr \<Rightarrow> finish_result" where
  "getOrCreate_finish relayKey dstHost dstPort client conn m =
     (if um_closed m then FinishClosed
      else
        let r = \<lparr>ur_target = conn, ur_clientAddr = client, ur_dstHost = dstHost, ur_dstPort = dstPort\<rparr>
        in case um_relays m of
             None \<Rightarrow> FinishPanic
           | Some rs \<Rightarrow> FinishRelay r (m\<lparr>um_relays := Some (AList.update relayKey r rs), um_wg := um_wg m + 1\<rparr>))"

text \<open>
  \<^verbatim>\<open>createRelay\<close> up to the dial: the address to dial, or that the datagram is dropped, or that the manager is closed.
\<close>

datatype prepare = PrepDrop | PrepClosed | PrepHave udpRelay | PrepDial string

definition createRelay_prepare ::
  "lookup_env \<Rightarrow> flight \<Rightarrow> string \<Rightarrow> string \<Rightarrow> u16 \<Rightarrow> udpRelayMgr \<Rightarrow> proxy_state \<Rightarrow> prepare \<times> proxy_state" where
  "createRelay_prepare env fl relayKey host port m px =
     (case LookupIP env fl host (px_resolver px) of (res, r) \<Rightarrow>
       let px = px\<lparr>px_resolver := r\<rparr>
       in case res of
            Inl _ \<Rightarrow> (PrepDrop, px)
          | Inr ips \<Rightarrow>
              let ips = filterUsableIPs ips (lk_v4 env) (lk_v6 env)
              in if ips = [] then (PrepDrop, px)
                 else
                   let targetAddr = JoinHostPort (Addr_String (ips ! 0)) (nat_decimal (unat port))
                   in (case allow (lk_now env) (ips ! 0) (px_connRate px) of (ok, l) \<Rightarrow>
                         let px = px\<lparr>px_connRate := l\<rparr>
                         in if \<not> ok then (PrepDrop, px)
                            else (case getOrCreate_enter relayKey m of
                              CreateClosed \<Rightarrow> (PrepClosed, px)
                            | CreateHave r \<Rightarrow> (PrepHave r, px)
                            | CreateDial \<Rightarrow> (PrepDial targetAddr, px))))"


section \<open>An association\<close>

text \<open>
  Where the client's pump is: it has an authorised datagram for a new destination, it is dialling, it
  has dialled, it has returned. Each keeps the key of the relay, the destination, the source of the datagram
  and the payload.
\<close>

record pending =
  pd_key :: string
  pd_host :: string
  pd_port :: u16
  pd_client :: net_addr
  pd_src :: net_addr
  pd_payload :: bytes

datatype pump = PumpReading | PumpCreating pending | PumpDialing pending string | PumpDialed pending nat | PumpGone

datatype closer = NotClosing | ClosingTargets "nat list" | ClosedAll

text \<open>
  \<open>as_relayPumps\<close>: the relay pumps that run, with the key and relay they serve; \<open>as_exiting\<close>: those that have
  left the registry, with the connection they still have to close; \<open>as_open\<close>: the connections that are open.
  \<open>as_sent\<close> and \<open>as_replies\<close> record what was written to the relays, with the source of each datagram,
  and to the client.
\<close>

record assoc =
  as_mgr :: udpRelayMgr
  as_pump :: pump
  as_relayPumps :: "(string \<times> udpRelay) list"
  as_exiting :: "nat option list"
  as_closer :: closer
  as_open :: "nat set"
  as_next :: nat
  as_sent :: "(nat \<times> net_addr \<times> bytes) list"
  as_replies :: "(net_addr \<times> bytes) list"
  as_panicked :: bool

definition new_assoc :: "Addr \<times> u16 \<Rightarrow> assoc" where
  "new_assoc expected =
     \<lparr>as_mgr = (newUDPRelayMgr expected)\<lparr>um_wg := 1\<rparr>, as_pump = PumpReading, as_relayPumps = [], as_exiting = [], as_closer = NotClosing,
      as_open = {}, as_next = 0, as_sent = [], as_replies = [], as_panicked = False\<rparr>"

definition pump_write :: "udpRelay \<Rightarrow> net_addr \<Rightarrow> bytes \<Rightarrow> assoc \<Rightarrow> assoc" where
  "pump_write relay src payload st = st\<lparr>as_sent := as_sent st @ [(ur_target relay, src, payload)], as_pump := PumpReading\<rparr>"

definition pump_exit :: "assoc \<Rightarrow> assoc" where
  "pump_exit st = st\<lparr>as_pump := PumpGone, as_mgr := (as_mgr st)\<lparr>um_wg := um_wg (as_mgr st) - 1\<rparr>\<rparr>"

text \<open>\<^verbatim>\<open>pumpClientToTunnel\<close>: a datagram, up to the lookup of its relay.\<close>

definition pump_datagram :: "net_addr \<Rightarrow> bytes \<Rightarrow> assoc \<Rightarrow> assoc" where
  "pump_datagram src buf st =
     (case authorise src (as_mgr st) of
        (None, m) \<Rightarrow> st\<lparr>as_mgr := m\<rparr>
      | (Some client, m) \<Rightarrow>
          let st = st\<lparr>as_mgr := m\<rparr>
          in (case parseUDPRequest (take udpMaxPayload buf) of
                Inl _ \<Rightarrow> st
              | Inr (host, port, payload) \<Rightarrow>
                  let relayKey = JoinHostPort host (nat_decimal (unat port))
                  in (case lookupRelay relayKey m of
                        Some relay \<Rightarrow> pump_write relay src payload st
                      | None \<Rightarrow> st\<lparr>as_pump := PumpCreating \<lparr>pd_key = relayKey, pd_host = host, pd_port = port, pd_client = client,
                          pd_src = src, pd_payload = payload\<rparr>\<rparr>)))"

definition pump_create :: "lookup_env \<Rightarrow> flight \<Rightarrow> proxy_state \<Rightarrow> pending \<Rightarrow> assoc \<Rightarrow> assoc" where
  "pump_create env fl px pd st =
     (case fst (createRelay_prepare env fl (pd_key pd) (pd_host pd) (pd_port pd) (as_mgr st) px) of
        PrepDrop \<Rightarrow> st\<lparr>as_pump := PumpReading\<rparr>
      | PrepClosed \<Rightarrow> pump_exit st
      | PrepHave relay \<Rightarrow> pump_write relay (pd_src pd) (pd_payload pd) st
      | PrepDial targetAddr \<Rightarrow> st\<lparr>as_pump := PumpDialing pd targetAddr\<rparr>)"

definition pump_dialed :: "bool \<Rightarrow> pending \<Rightarrow> assoc \<Rightarrow> assoc" where
  "pump_dialed ok pd st =
     (if \<not> ok then st\<lparr>as_pump := PumpReading\<rparr>
      else st\<lparr>as_pump := PumpDialed pd (as_next st), as_open := insert (as_next st) (as_open st), as_next := as_next st + 1\<rparr>)"

definition pump_finish :: "pending \<Rightarrow> nat \<Rightarrow> assoc \<Rightarrow> assoc" where
  "pump_finish pd conn st =
     (case getOrCreate_finish (pd_key pd) (pd_host pd) (pd_port pd) (pd_client pd) conn (as_mgr st) of
        FinishClosed \<Rightarrow> pump_exit (st\<lparr>as_open := as_open st - {conn}\<rparr>)
      | FinishPanic \<Rightarrow> st\<lparr>as_panicked := True\<rparr>
      | FinishRelay relay m \<Rightarrow>
          pump_write relay (pd_src pd) (pd_payload pd) (st\<lparr>as_mgr := m, as_relayPumps := as_relayPumps st @ [(pd_key pd, relay)]\<rparr>))"

text \<open>\<^verbatim>\<open>pumpTunnelToClient\<close>: a reply, leaving the registry, closing the connection.\<close>

definition relay_reply :: "udpRelay \<Rightarrow> bytes \<Rightarrow> assoc \<Rightarrow> assoc" where
  "relay_reply r data st =
     (case um_client (as_mgr st) of
        None \<Rightarrow> st
      | Some client \<Rightarrow> st\<lparr>as_replies := as_replies st @ [(client, buildUDPReply (ur_dstHost r) (ur_dstPort r) (take udpMaxPayload data))]\<rparr>)"

definition relay_leave :: "string \<Rightarrow> udpRelay \<Rightarrow> assoc \<Rightarrow> assoc" where
  "relay_leave relayKey r st =
     (case removeRelay relayKey (as_mgr st) of (conn, m) \<Rightarrow>
       st\<lparr>as_mgr := m, as_relayPumps := remove1 (relayKey, r) (as_relayPumps st), as_exiting := as_exiting st @ [conn]\<rparr>)"

definition relay_close :: "nat option \<Rightarrow> assoc \<Rightarrow> assoc" where
  "relay_close conn st =
     st\<lparr>as_exiting := remove1 conn (as_exiting st), as_open := as_open st - set_option conn,
        as_mgr := (as_mgr st)\<lparr>um_wg := um_wg (as_mgr st) - 1\<rparr>\<rparr>"

text \<open>\<^verbatim>\<open>closeAll\<close>.\<close>

definition closeAll_begin :: "assoc \<Rightarrow> assoc" where
  "closeAll_begin st =
     st\<lparr>as_mgr := (as_mgr st)\<lparr>um_closed := True\<rparr>,
        as_closer := ClosingTargets (case um_relays (as_mgr st) of None \<Rightarrow> [] | Some rs \<Rightarrow> map (ur_target \<circ> snd) rs)\<rparr>"

definition closeAll_close :: "nat \<Rightarrow> nat list \<Rightarrow> assoc \<Rightarrow> assoc" where
  "closeAll_close t ts st = st\<lparr>as_open := as_open st - {t}, as_closer := ClosingTargets ts\<rparr>"

definition closeAll_end :: "assoc \<Rightarrow> assoc" where
  "closeAll_end st = st\<lparr>as_mgr := (as_mgr st)\<lparr>um_relays := None\<rparr>, as_closer := ClosedAll\<rparr>"

inductive assoc_step :: "assoc \<Rightarrow> assoc \<Rightarrow> bool" where
  datagram: "as_pump st = PumpReading \<Longrightarrow> assoc_step st (pump_datagram src buf st)"
| create: "as_pump st = PumpCreating pd \<Longrightarrow> assoc_step st (pump_create env fl px pd st)"
| dialed: "as_pump st = PumpDialing pd targetAddr \<Longrightarrow> assoc_step st (pump_dialed ok pd st)"
| finish: "as_pump st = PumpDialed pd conn \<Longrightarrow> assoc_step st (pump_finish pd conn st)"
| pump_ends: "as_pump st = PumpReading \<Longrightarrow> assoc_step st (pump_exit st)"
| reply: "(key, r) \<in> set (as_relayPumps st) \<Longrightarrow> ur_target r \<in> as_open st \<Longrightarrow> assoc_step st (relay_reply r data st)"
| leave: "(key, r) \<in> set (as_relayPumps st) \<Longrightarrow> assoc_step st (relay_leave key r st)"
| close: "conn \<in> set (as_exiting st) \<Longrightarrow> assoc_step st (relay_close conn st)"
| closing: "as_closer st = NotClosing \<Longrightarrow> assoc_step st (closeAll_begin st)"
| close_target: "as_closer st = ClosingTargets (t # ts) \<Longrightarrow> assoc_step st (closeAll_close t ts st)"
| closed: "as_closer st = ClosingTargets [] \<Longrightarrow> um_wg (as_mgr st) = 0 \<Longrightarrow> assoc_step st (closeAll_end st)"


section \<open>Relays are never leaked\<close>

definition relays_of :: "udpRelayMgr \<Rightarrow> (string \<times> udpRelay) list" where
  "relays_of m = (case um_relays m of None \<Rightarrow> [] | Some rs \<Rightarrow> rs)"

fun pump_conns :: "pump \<Rightarrow> nat set" where
  "pump_conns (PumpDialed pd conn) = {conn}"
| "pump_conns _ = {}"

fun pump_keys :: "pump \<Rightarrow> string set" where
  "pump_keys (PumpDialing pd targetAddr) = {pd_key pd}"
| "pump_keys (PumpDialed pd conn) = {pd_key pd}"
| "pump_keys _ = {}"

definition targets :: "assoc \<Rightarrow> nat set" where
  "targets st = (\<lambda>(key, r). ur_target r) ` set (as_relayPumps st)"

lemma targets_simps [simp]:
  "targets (st\<lparr>as_mgr := m\<rparr>) = targets st" "targets (st\<lparr>as_pump := p\<rparr>) = targets st" "targets (st\<lparr>as_exiting := x\<rparr>) = targets st"
  "targets (st\<lparr>as_closer := cl\<rparr>) = targets st" "targets (st\<lparr>as_open := opn\<rparr>) = targets st" "targets (st\<lparr>as_next := n\<rparr>) = targets st"
  "targets (st\<lparr>as_sent := sent\<rparr>) = targets st"
  by (simp_all add: targets_def)

text \<open>The connections some goroutine will close.\<close>

definition owned :: "assoc \<Rightarrow> nat set" where
  "owned st = targets st \<union> {conn. Some conn \<in> set (as_exiting st)} \<union> pump_conns (as_pump st)"

definition registry_inv :: "assoc \<Rightarrow> bool" where
  "registry_inv st \<longleftrightarrow> distinct (map fst (relays_of (as_mgr st))) \<and> distinct (map fst (as_relayPumps st)) \<and>
     set (relays_of (as_mgr st)) = set (as_relayPumps st) \<and> pump_keys (as_pump st) \<inter> fst ` set (as_relayPumps st) = {}"

definition count_inv :: "assoc \<Rightarrow> bool" where
  "count_inv st \<longleftrightarrow> um_wg (as_mgr st) = length (as_relayPumps st) + length (as_exiting st) + (if as_pump st = PumpGone then 0 else 1)"

definition closing_inv :: "assoc \<Rightarrow> bool" where
  "closing_inv st \<longleftrightarrow> \<not> as_panicked st \<and> None \<notin> set (as_exiting st) \<and> (um_closed (as_mgr st) \<longleftrightarrow> as_closer st \<noteq> NotClosing) \<and>
     (um_relays (as_mgr st) = None \<longleftrightarrow> as_closer st = ClosedAll) \<and>
     (as_closer st = ClosedAll \<longrightarrow> as_relayPumps st = [] \<and> as_exiting st = [] \<and> as_pump st = PumpGone) \<and>
     (\<forall>ts. as_closer st = ClosingTargets ts \<longrightarrow> as_open st \<inter> targets st \<subseteq> set ts)"

definition assoc_inv :: "assoc \<Rightarrow> bool" where
  "assoc_inv st \<longleftrightarrow> registry_inv st \<and> count_inv st \<and> closing_inv st \<and> as_open st \<subseteq> owned st \<and> owned st \<subseteq> {..<as_next st}"

lemmas assoc_inv_defs = assoc_inv_def registry_inv_def count_inv_def closing_inv_def owned_def

lemma new_assoc_inv: "assoc_inv (new_assoc expected)"
  by (simp add: assoc_inv_defs new_assoc_def newUDPRelayMgr_def relays_of_def targets_def)

lemma inv_open_less: "assoc_inv st \<Longrightarrow> O' \<subseteq> as_open st \<Longrightarrow> assoc_inv (st\<lparr>as_open := O'\<rparr>)"
  by (simp add: assoc_inv_defs) blast

lemma relay_at_inv: "assoc_inv st \<Longrightarrow> (key, r) \<in> set (as_relayPumps st) \<longleftrightarrow> relay_at key (as_mgr st) = Some r"
proof -
  assume "assoc_inv st"
  then have "distinct (map fst (relays_of (as_mgr st)))" "set (relays_of (as_mgr st)) = set (as_relayPumps st)" by (auto simp: assoc_inv_def registry_inv_def)
  then show ?thesis by (auto simp: relay_at_def relays_of_def split: option.splits)
qed

lemma relay_at_None: "assoc_inv st \<Longrightarrow> relay_at key (as_mgr st) = None \<longleftrightarrow> key \<notin> fst ` set (as_relayPumps st)"
  using relay_at_inv [of st key] by (cases "relay_at key (as_mgr st)") force+

lemma authorise_mgr:
  "snd (authorise src m) = m \<or> snd (authorise src m) = m\<lparr>um_client := Some src\<rparr>"
  by (simp add: authorise_def Let_def split: option.split)

lemma inv_client: "assoc_inv (st\<lparr>as_mgr := (as_mgr st)\<lparr>um_client := x\<rparr>\<rparr>) = assoc_inv st"
  by (simp add: assoc_inv_defs relays_of_def)

lemma inv_reading: "assoc_inv st \<Longrightarrow> as_pump st \<noteq> PumpGone \<Longrightarrow> pump_conns (as_pump st) = {} \<Longrightarrow> assoc_inv (st\<lparr>as_pump := PumpReading\<rparr>)"
  by (auto simp: assoc_inv_defs)

lemma inv_write: "assoc_inv (pump_write r src payload st) = assoc_inv (st\<lparr>as_pump := PumpReading\<rparr>)"
  by (simp add: assoc_inv_defs pump_write_def relays_of_def)

lemma inv_exit: "assoc_inv st \<Longrightarrow> as_pump st \<noteq> PumpGone \<Longrightarrow> as_open st \<inter> pump_conns (as_pump st) = {} \<Longrightarrow> assoc_inv (pump_exit st)"
  by (auto simp: assoc_inv_defs pump_exit_def relays_of_def)

lemma inv_datagram:
  assumes "assoc_inv st" and "as_pump st = PumpReading"
  shows "assoc_inv (pump_datagram src buf st)"
proof -
  obtain res m where a: "authorise src (as_mgr st) = (res, m)" by (cases "authorise src (as_mgr st)")
  then have m: "assoc_inv (st\<lparr>as_mgr := m\<rparr>)" using authorise_mgr [of src "as_mgr st"] assms(1) inv_client [of _ st] by auto
  then have "assoc_inv (st\<lparr>as_mgr := m, as_pump := PumpCreating pd\<rparr>)" for pd using assms(2) by (auto simp: assoc_inv_defs)
  moreover have "assoc_inv (st\<lparr>as_mgr := m, as_pump := PumpReading\<rparr>)" using inv_reading [OF m] assms(2) by simp
  ultimately show ?thesis using m by (simp add: pump_datagram_def a Let_def inv_write split: option.split sum.split prod.split)
qed

lemma prepare_enter:
  "fst (createRelay_prepare env fl key host port m px) = PrepDial addr \<Longrightarrow> getOrCreate_enter key m = CreateDial"
  by (auto simp: createRelay_prepare_def Let_def split: prod.splits sum.splits if_splits create_result.splits)

lemma inv_create:
  assumes "assoc_inv st" and "as_pump st = PumpCreating pd"
  shows "assoc_inv (pump_create env fl px pd st)"
proof -
  have "assoc_inv (st\<lparr>as_pump := PumpDialing pd addr\<rparr>)" if "fst (createRelay_prepare env fl (pd_key pd) (pd_host pd) (pd_port pd) (as_mgr st) px) = PrepDial addr" for addr
  proof -
    have "relay_at (pd_key pd) (as_mgr st) = None"
      using prepare_enter [OF that] by (auto simp: getOrCreate_enter_def split: if_splits option.splits)
    then have "pd_key pd \<notin> fst ` set (as_relayPumps st)" using relay_at_None [OF assms(1)] by simp
    then show ?thesis using assms by (auto simp: assoc_inv_defs)
  qed
  moreover have "assoc_inv (st\<lparr>as_pump := PumpReading\<rparr>)" using inv_reading [OF assms(1)] assms(2) by simp
  moreover have "assoc_inv (pump_exit st)" using assms by (intro inv_exit) simp_all
  ultimately show ?thesis by (simp add: pump_create_def inv_write split: prepare.split)
qed

lemma inv_dialed:
  assumes "assoc_inv st" and "as_pump st = PumpDialing pd addr"
  shows "assoc_inv (pump_dialed ok pd st)"
proof (cases ok)
  case True
  have "as_next st \<notin> targets st" using assms(1) by (auto simp: assoc_inv_def owned_def)
  moreover have "pump_dialed ok pd st = st\<lparr>as_pump := PumpDialed pd (as_next st), as_open := insert (as_next st) (as_open st), as_next := as_next st + 1\<rparr>"
    using True by (simp add: pump_dialed_def)
  moreover have "owned (st\<lparr>as_pump := PumpDialed pd (as_next st), as_open := insert (as_next st) (as_open st), as_next := as_next st + 1\<rparr>) = insert (as_next st) (owned st)"
    using assms(2) by (simp add: owned_def)
  ultimately show ?thesis
    using assms unfolding assoc_inv_def by (simp add: registry_inv_def count_inv_def closing_inv_def lessThan_Suc subset_insertI2)
next
  case False
  then show ?thesis using inv_reading [OF assms(1)] assms(2) by (simp add: pump_dialed_def)
qed


lemma inv_finish:
  assumes "assoc_inv st" and "as_pump st = PumpDialed pd conn"
  shows "assoc_inv (pump_finish pd conn st)"
proof (cases "um_closed (as_mgr st)")
  case True
  let ?st = "st\<lparr>as_open := as_open st - {conn}\<rparr>"
  have "assoc_inv ?st" using assms(1) by (rule inv_open_less) blast
  then have "assoc_inv (pump_exit ?st)" using assms(2) by (intro inv_exit) auto
  then show ?thesis using True by (simp add: pump_finish_def getOrCreate_finish_def)
next
  case False
  then have open': "as_closer st = NotClosing" using assms(1) by (auto simp: assoc_inv_def closing_inv_def)
  then obtain rs where rs: "um_relays (as_mgr st) = Some rs" using assms(1) by (auto simp: assoc_inv_def closing_inv_def)
  define r where "r = \<lparr>ur_target = conn, ur_clientAddr = pd_client pd, ur_dstHost = pd_host pd, ur_dstPort = pd_port pd\<rparr>"
  have d: "distinct (map fst rs)" "set rs = set (as_relayPumps st)" and key: "pd_key pd \<notin> fst ` set (as_relayPumps st)"
    using assms rs by (auto simp: assoc_inv_def registry_inv_def relays_of_def)
  have "{e \<in> set (as_relayPumps st). fst e \<noteq> pd_key pd} = set (as_relayPumps st)" using key by force
  then have upd: "set (AList.update (pd_key pd) r rs) = insert (pd_key pd, r) (set (as_relayPumps st))" "distinct (map fst (AList.update (pd_key pd) r rs))"
    unfolding set_update_distinct [OF d(1)] d(2) by (simp_all only: distinct_update [OF d(1)])
  define st' where "st' = st\<lparr>as_mgr := (as_mgr st)\<lparr>um_relays := Some (AList.update (pd_key pd) r rs), um_wg := um_wg (as_mgr st) + 1\<rparr>,
      as_relayPumps := as_relayPumps st @ [(pd_key pd, r)], as_pump := PumpReading\<rparr>"
  have "distinct (map fst (as_relayPumps st))" using assms(1) by (simp add: assoc_inv_def registry_inv_def)
  then have "registry_inv st'" using upd key by (simp add: registry_inv_def relays_of_def st'_def)
  moreover have "count_inv st'" using assms by (simp add: assoc_inv_def count_inv_def st'_def)
  moreover have "closing_inv st'" using assms(1) open' by (simp add: assoc_inv_def closing_inv_def st'_def)
  moreover have "targets st' = insert conn (targets st)" by (simp add: targets_def st'_def r_def)
  then have "owned st' = owned st" using assms(2) by (simp add: owned_def st'_def)
  ultimately have "assoc_inv st'" using assms(1) by (simp add: assoc_inv_def) (simp add: st'_def)
  then show ?thesis using False rs by (simp add: pump_finish_def getOrCreate_finish_def inv_write r_def Let_def st'_def)
qed

lemma pump_removed:
  assumes "distinct (map fst ps)" and "(key, r) \<in> set ps"
  shows "set (remove1 (key, r) ps) = {e \<in> set ps. fst e \<noteq> key}" "distinct (map fst (remove1 (key, r) ps))"
  using assms
proof (induction ps)
  case (Cons e ps)
  case 1
  then show ?case using Cons.IH(1) by (cases e) force
  case 2
  have "fst ` set (remove1 (key, r) ps) \<subseteq> fst ` set ps" by (rule image_mono) (rule set_remove1_subset)
  with 2 show ?case using Cons.IH(2) by (cases e) auto
qed simp_all

lemma inv_leave:
  assumes "assoc_inv st" and "(key, r) \<in> set (as_relayPumps st)"
  shows "assoc_inv (relay_leave key r st)"
proof -
  have at: "relay_at key (as_mgr st) = Some r" using relay_at_inv [OF assms(1)] assms(2) by blast
  then obtain rs where rs: "um_relays (as_mgr st) = Some rs" by (auto simp: relay_at_def split: option.splits)
  have d: "distinct (map fst rs)" "set rs = set (as_relayPumps st)" "distinct (map fst (as_relayPumps st))"
    using assms(1) rs by (auto simp: assoc_inv_def registry_inv_def relays_of_def)
  note pumps = pump_removed [OF d(3) assms(2)]
  define st' where "st' = st\<lparr>as_mgr := (as_mgr st)\<lparr>um_relays := Some (AList.delete key rs)\<rparr>,
      as_relayPumps := remove1 (key, r) (as_relayPumps st), as_exiting := as_exiting st @ [Some (ur_target r)]\<rparr>"
  have leave: "relay_leave key r st = st'" using at rs by (simp add: relay_leave_def removeRelay_def st'_def)
  have "set (AList.delete key rs) = {e \<in> set (as_relayPumps st). fst e \<noteq> key}" "distinct (map fst (AList.delete key rs))"
    using d by (auto simp: set_delete distinct_delete_keys)
  moreover have "pump_keys (as_pump st) \<inter> fst ` set (as_relayPumps st) = {}" using assms(1) by (simp add: assoc_inv_def registry_inv_def)
  ultimately have "registry_inv st'" using pumps unfolding registry_inv_def by (simp add: st'_def relays_of_def) blast
  moreover have "count_inv st'" using assms length_pos_if_in_set [OF assms(2)] by (simp add: assoc_inv_def count_inv_def st'_def length_remove1)
  moreover have sub: "targets st' \<subseteq> targets st" "targets st \<subseteq> insert (ur_target r) (targets st')"
  proof -
    show "targets st' \<subseteq> targets st" unfolding targets_def st'_def by (rule image_mono) (simp add: set_remove1_subset)
    have "set (as_relayPumps st) \<subseteq> insert (key, r) (set (remove1 (key, r) (as_relayPumps st)))"
      using in_set_remove1 [of _ "(key, r)" "as_relayPumps st"] by blast
    then show "targets st \<subseteq> insert (ur_target r) (targets st')" unfolding targets_def st'_def by (auto dest!: subsetD)
  qed
  moreover have "closing_inv st'" using assms sub(1) rs unfolding assoc_inv_def closing_inv_def by (simp add: st'_def) blast
  moreover have "ur_target r \<in> targets st" using assms(2) by (force simp: targets_def)
  then have "owned st' = owned st" using sub unfolding owned_def by (simp add: st'_def) blast
  ultimately show ?thesis unfolding leave using assms(1) by (simp add: assoc_inv_def) (simp add: st'_def)
qed

lemma inv_close:
  assumes "assoc_inv st" and "conn \<in> set (as_exiting st)"
  shows "assoc_inv (relay_close conn st)"
proof -
  let ?st = "relay_close conn st"
  have "registry_inv ?st" "targets ?st = targets st" using assms(1) by (simp_all add: assoc_inv_def registry_inv_def relay_close_def relays_of_def)
  moreover obtain n where "length (as_exiting st) = Suc n" using length_pos_if_in_set [OF assms(2)] by (cases "length (as_exiting st)") auto
  then have "count_inv ?st" using assms by (simp add: assoc_inv_def count_inv_def relay_close_def length_remove1)
  moreover have sub: "set (remove1 conn (as_exiting st)) \<subseteq> set (as_exiting st)" "set (as_exiting st) \<subseteq> insert conn (set (remove1 conn (as_exiting st)))"
    using set_remove1_subset [of conn "as_exiting st"] in_set_remove1 [of _ conn "as_exiting st"] by blast+
  have "as_exiting st = [] \<Longrightarrow> False" using assms(2) by simp
  then have "closing_inv ?st"
    using assms sub(1) unfolding assoc_inv_def closing_inv_def by (simp add: relay_close_def relays_of_def) blast
  moreover have "as_open ?st \<subseteq> owned ?st" "owned ?st \<subseteq> owned st"
    using assms(1) sub unfolding assoc_inv_def owned_def by (auto simp: relay_close_def)
  moreover have "as_next ?st = as_next st" by (simp add: relay_close_def)
  ultimately show ?thesis using assms(1) unfolding assoc_inv_def by auto
qed

lemma inv_closing:
  assumes "assoc_inv st" and "as_closer st = NotClosing"
  shows "assoc_inv (closeAll_begin st)"
proof -
  obtain rs where "um_relays (as_mgr st) = Some rs" using assms by (auto simp: assoc_inv_def closing_inv_def)
  moreover from this have "targets st \<subseteq> set (map (ur_target \<circ> snd) rs)"
    using assms(1) by (force simp: assoc_inv_def registry_inv_def relays_of_def targets_def)
  ultimately have "closing_inv (closeAll_begin st)" using assms by (simp add: assoc_inv_def closing_inv_def closeAll_begin_def) blast
  then show ?thesis using assms(1) by (simp add: assoc_inv_def registry_inv_def count_inv_def owned_def closeAll_begin_def relays_of_def)
qed

lemma inv_close_target: "assoc_inv st \<Longrightarrow> as_closer st = ClosingTargets (t # ts) \<Longrightarrow> assoc_inv (closeAll_close t ts st)"
  by (simp add: assoc_inv_defs closeAll_close_def) blast

lemma inv_closed:
  assumes "assoc_inv st" and "as_closer st = ClosingTargets []" and "um_wg (as_mgr st) = 0"
  shows "assoc_inv (closeAll_end st)"
proof -
  have none: "as_relayPumps st = []" "as_exiting st = []" "as_pump st = PumpGone"
    using assms(1,3) by (simp_all add: assoc_inv_def count_inv_def split: if_splits)
  have "as_open st = {}" "um_closed (as_mgr st)" "\<not> as_panicked st"
    using assms(1,2) none by (simp_all add: assoc_inv_def closing_inv_def owned_def targets_def)
  then show ?thesis using none assms(3) by (simp add: assoc_inv_defs closeAll_end_def relays_of_def targets_def)
qed


lemma inv_reply: "assoc_inv (relay_reply r data st) = assoc_inv st"
  by (simp add: assoc_inv_defs relay_reply_def targets_def split: option.split)

lemmas inv_steps = inv_datagram inv_create inv_dialed inv_finish inv_leave inv_close inv_closing inv_close_target inv_closed

lemma assoc_step_inv: "assoc_step st st' \<Longrightarrow> assoc_inv st \<Longrightarrow> assoc_inv st'"
proof (induction rule: assoc_step.induct)
  case (pump_ends st)
  then show ?case by (intro inv_exit) simp_all
next
  case (reply key r st data)
  then show ?case by (simp add: inv_reply)
qed (blast intro: inv_steps)+

lemma assoc_reachable_inv: "assoc_step\<^sup>*\<^sup>* (new_assoc expected) st \<Longrightarrow> assoc_inv st"
  by (induction rule: rtranclp_induct) (auto intro: new_assoc_inv assoc_step_inv)

text \<open>
  C28. No relay is leaked and no map write panics. Under every interleaving of the client's pump, the relays'
  pumps and the end of the association: the registry holds exactly the relays whose pumps run,
  each under its own key; every open connection has a goroutine that will close it; the nil map is
  never written. Once the end has begun and its list of targets is worked off, no running pump has
  an open connection left to wait on, so every one of them can leave; and when the end has returned,
  no connection is open, no pump is left and no later datagram can open one.
\<close>

theorem udp_relays_no_leak:
  assumes "assoc_step\<^sup>*\<^sup>* (new_assoc expected) st"
  shows "\<not> as_panicked st \<and> as_open st \<subseteq> owned st \<and>
    (\<forall>key r. (key, r) \<in> set (as_relayPumps st) \<longleftrightarrow> relay_at key (as_mgr st) = Some r) \<and>
    (as_closer st = ClosingTargets [] \<longrightarrow> as_open st \<inter> targets st = {} \<and>
       (um_wg (as_mgr st) = 0 \<longleftrightarrow> as_relayPumps st = [] \<and> as_exiting st = [] \<and> as_pump st = PumpGone)) \<and>
    (as_closer st = ClosedAll \<longrightarrow> as_open st = {} \<and> as_relayPumps st = [] \<and> as_exiting st = [] \<and> as_pump st = PumpGone \<and>
       (\<nexists>st'. assoc_step st st'))"
proof -
  have inv: "assoc_inv st" by (rule assoc_reachable_inv [OF assms])
  have last: "as_open st = {} \<and> as_relayPumps st = [] \<and> as_exiting st = [] \<and> as_pump st = PumpGone \<and> (\<nexists>st'. assoc_step st st')"
    if "as_closer st = ClosedAll"
  proof -
    have none: "as_relayPumps st = []" "as_exiting st = []" "as_pump st = PumpGone" using inv that by (auto simp: assoc_inv_def closing_inv_def)
    then have "as_open st = {}" using inv by (auto simp: assoc_inv_def owned_def targets_def)
    moreover have "\<not> assoc_step st st'" for st' using none that by (auto elim: assoc_step.cases)
    ultimately show ?thesis using none by blast
  qed
  show ?thesis
    using inv last relay_at_inv [OF inv] by (auto simp: assoc_inv_def closing_inv_def count_inv_def)
qed


definition demo_source :: net_addr where
  "demo_source = \<lparr>na_IP = [127, 0, 0, 1], na_Port = 5000\<rparr>"

theorem udp_relays_no_leak_witness:
  "\<exists>st. assoc_step\<^sup>*\<^sup>* (new_assoc (NoAddr, 0)) st \<and> as_closer st = ClosedAll \<and> as_open st = {}"
proof -
  define s1 where "s1 = pump_exit (new_assoc (NoAddr, 0))"
  define s2 where "s2 = closeAll_begin s1"
  define s3 where "s3 = closeAll_end s2"
  note defs = s1_def s2_def s3_def new_assoc_def newUDPRelayMgr_def pump_exit_def closeAll_begin_def closeAll_end_def
  have "assoc_step (new_assoc (NoAddr, 0)) s1" unfolding s1_def by (rule assoc_step.pump_ends) (simp add: new_assoc_def)
  moreover have "assoc_step s1 s2" unfolding s2_def by (rule assoc_step.closing) (simp add: defs)
  moreover have "assoc_step s2 s3" unfolding s3_def by (rule assoc_step.closed) (simp_all add: defs)
  ultimately have "assoc_step\<^sup>*\<^sup>* (new_assoc (NoAddr, 0)) s3" by (meson converse_rtranclp_into_rtranclp rtranclp.rtrancl_refl)
  moreover have "as_closer s3 = ClosedAll" by (simp add: defs)
  ultimately show ?thesis using udp_relays_no_leak by blast
qed

section \<open>One client per association\<close>

text \<open>A source the association may forward for: what the manager expects, and the client it is locked to.\<close>

definition source_ok :: "udpRelayMgr \<Rightarrow> net_addr \<Rightarrow> bool" where
  "source_ok m src \<longleftrightarrow>
     (\<exists>client. um_client m = Some client \<and> IP_Equal (na_IP client) (na_IP src) \<and> na_Port client = na_Port src) \<and>
     (\<exists>ip. AddrFromSlice (na_IP src) = Some ip \<and> (Addr_IsValid (um_expectedIP m) \<longrightarrow> Unmap ip = um_expectedIP m)) \<and>
     (um_expectedPort m \<noteq> 0 \<longrightarrow> of_int (na_Port src) = um_expectedPort m)"

fun pump_pending :: "pump \<Rightarrow> pending set" where
  "pump_pending (PumpCreating pd) = {pd}"
| "pump_pending (PumpDialing pd targetAddr) = {pd}"
| "pump_pending (PumpDialed pd conn) = {pd}"
| "pump_pending _ = {}"

definition source_inv :: "assoc \<Rightarrow> bool" where
  "source_inv st \<longleftrightarrow>
     (\<forall>(t, src, payload) \<in> set (as_sent st). source_ok (as_mgr st) src) \<and>
     (\<forall>pd \<in> pump_pending (as_pump st). source_ok (as_mgr st) (pd_src pd)) \<and>
     (\<forall>(dst, datagram) \<in> set (as_replies st). um_client (as_mgr st) = Some dst)"

lemma source_ok_cong:
  "um_client m' = um_client m \<Longrightarrow> um_expectedIP m' = um_expectedIP m \<Longrightarrow> um_expectedPort m' = um_expectedPort m \<Longrightarrow> source_ok m' = source_ok m"
  by (simp add: source_ok_def fun_eq_iff)

lemma source_ok_simps [simp]:
  "source_ok (m\<lparr>um_relays := rs\<rparr>) = source_ok m" "source_ok (m\<lparr>um_wg := n\<rparr>) = source_ok m" "source_ok (m\<lparr>um_closed := c\<rparr>) = source_ok m"
  by (rule source_ok_cong; simp)+

lemma authorise_ok:
  assumes "authorise src m = (res, m')"
  shows "(\<forall>src'. source_ok m src' \<longrightarrow> source_ok m' src') \<and> (\<forall>dst. um_client m = Some dst \<longrightarrow> um_client m' = Some dst) \<and>
    (\<forall>client. res = Some client \<longrightarrow> um_client m' = Some client \<and> source_ok m' src)"
proof -
  have refl: "IP_Equal b b" for b by (simp add: IP_Equal_def)
  show ?thesis
  proof (cases "um_client m")
    case None
    then show ?thesis using assms refl by (auto simp: authorise_def source_ok_def Let_def split: option.splits if_splits)
  next
    case (Some c)
    then have m: "m' = m" using assms by (auto simp: authorise_def Let_def split: option.splits if_splits)
    have "res = Some client \<Longrightarrow> client = c \<and> source_ok m src" for client
      using assms Some by (auto simp: authorise_def source_ok_def Let_def split: option.splits if_splits)
    then show ?thesis using Some m by blast
  qed
qed

lemma source_inv_authorised:
  assumes "source_inv st" and "authorise src (as_mgr st) = (res, m')"
  shows "source_inv (st\<lparr>as_mgr := m'\<rparr>)"
  using assms(1) authorise_ok [OF assms(2)] by (fastforce simp: source_inv_def)

lemma source_inv_write: "source_inv st \<Longrightarrow> source_ok (as_mgr st) src \<Longrightarrow> source_inv (pump_write r src payload st)"
  by (auto simp: source_inv_def pump_write_def)

lemma source_datagram:
  assumes "source_inv st" and "as_pump st = PumpReading"
  shows "source_inv (pump_datagram src buf st)"
proof -
  obtain res m where a: "authorise src (as_mgr st) = (res, m)" by (cases "authorise src (as_mgr st)")
  have st: "source_inv (st\<lparr>as_mgr := m\<rparr>)" by (rule source_inv_authorised [OF assms(1) a])
  show ?thesis
  proof (cases res)
    case (Some client)
    then have ok: "source_ok m src" using authorise_ok [OF a] by simp
    have "source_inv (st\<lparr>as_mgr := m, as_pump := PumpCreating pd\<rparr>)" if "pd_src pd = src" for pd
      using st ok that by (simp add: source_inv_def)
    then show ?thesis
      using st ok source_inv_write [OF st, of src]
      by (auto simp: pump_datagram_def a Some Let_def split: sum.split option.split prod.split)
  qed (use st in \<open>simp add: pump_datagram_def a\<close>)
qed

lemma source_create:
  assumes "source_inv st" and "as_pump st = PumpCreating pd"
  shows "source_inv (pump_create env fl px pd st)"
proof -
  have ok: "source_ok (as_mgr st) (pd_src pd)" using assms by (simp add: source_inv_def)
  then show ?thesis
    using assms source_inv_write [OF assms(1) ok]
    by (auto simp: pump_create_def source_inv_def pump_exit_def split: prepare.split)
qed

lemma source_finish:
  assumes "source_inv st" and "as_pump st = PumpDialed pd conn"
  shows "source_inv (pump_finish pd conn st)"
  using assms by (auto simp: pump_finish_def getOrCreate_finish_def source_inv_def pump_exit_def pump_write_def Let_def split: option.split)

lemma source_step: "assoc_step st st' \<Longrightarrow> source_inv st \<Longrightarrow> source_inv st'"
proof (induction rule: assoc_step.induct)
  case (dialed st pd addr ok)
  then show ?case by (simp add: source_inv_def pump_dialed_def)
next
  case (pump_ends st)
  then show ?case by (simp add: source_inv_def pump_exit_def)
next
  case (reply key r st data)
  then show ?case by (auto simp: source_inv_def relay_reply_def split: option.split)
next
  case (leave key r st)
  then show ?case by (simp add: source_inv_def relay_leave_def removeRelay_def split: option.split)
next
  case (close conn st)
  then show ?case by (simp add: source_inv_def relay_close_def)
next
  case (closing st)
  then show ?case by (simp add: source_inv_def closeAll_begin_def)
next
  case (close_target st t ts)
  then show ?case by (simp add: source_inv_def closeAll_close_def)
next
  case (closed st)
  then show ?case by (simp add: source_inv_def closeAll_end_def)
qed (blast intro: source_datagram source_create source_finish)+


lemma source_new: "source_inv (new_assoc expected)"
  by (simp add: source_inv_def new_assoc_def)

lemma source_reachable: "assoc_step\<^sup>*\<^sup>* (new_assoc expected) st \<Longrightarrow> source_inv st"
  by (induction rule: rtranclp_induct) (auto intro: source_new source_step)

definition expects :: "udpRelayMgr \<Rightarrow> Addr \<times> u16" where
  "expects m = (um_expectedIP m, um_expectedPort m)"

lemma expects_simps [simp]:
  "expects (m\<lparr>um_relays := rs\<rparr>) = expects m" "expects (m\<lparr>um_wg := n\<rparr>) = expects m" "expects (m\<lparr>um_closed := c\<rparr>) = expects m"
  "expects (m\<lparr>um_client := cl\<rparr>) = expects m"
  by (simp_all add: expects_def)

lemma expects_datagram: "expects (as_mgr (pump_datagram src buf st)) = expects (as_mgr st)"
proof -
  obtain res m where a: "authorise src (as_mgr st) = (res, m)" by (cases "authorise src (as_mgr st)")
  then have "expects m = expects (as_mgr st)" using authorise_mgr [of src "as_mgr st"] by auto
  then show ?thesis by (simp add: pump_datagram_def a pump_write_def Let_def split: option.split sum.split prod.split)
qed

lemma expects_step: "assoc_step st st' \<Longrightarrow> expects (as_mgr st') = expects (as_mgr st)"
proof (induction rule: assoc_step.induct)
  case (create st pd env fl px)
  then show ?case by (simp add: pump_create_def pump_exit_def pump_write_def split: prepare.split)
next
  case (finish st pd conn)
  then show ?case by (simp add: pump_finish_def getOrCreate_finish_def pump_exit_def pump_write_def Let_def split: option.split)
next
  case (reply key r st data)
  then show ?case by (simp add: relay_reply_def split: option.split)
next
  case (leave key r st)
  then show ?case by (simp add: relay_leave_def removeRelay_def split: option.split)
qed (simp_all add: expects_datagram pump_dialed_def pump_exit_def relay_close_def closeAll_begin_def closeAll_close_def closeAll_end_def)

lemma expected_kept: "assoc_step\<^sup>*\<^sup>* (new_assoc expected) st \<Longrightarrow> expects (as_mgr st) = expected"
  by (induction rule: rtranclp_induct) (simp_all add: expects_step, simp add: expects_def new_assoc_def newUDPRelayMgr_def)

text \<open>
  C29. An association serves one client. Whatever datagrams arrive, from whatever sources and in whatever
  order, everything that is forwarded into the tunnel came from one address and port, the first
  that fitted, and that address and port are those the association expects where it expects any;
  replies go to that client only, and only once there is one.
\<close>

theorem udp_one_client:
  assumes "assoc_step\<^sup>*\<^sup>* (new_assoc (expectedIP, expectedPort)) st"
  shows "(\<forall>(t, src, payload) \<in> set (as_sent st).
      (\<exists>client. um_client (as_mgr st) = Some client \<and> IP_Equal (na_IP client) (na_IP src) \<and> na_Port client = na_Port src) \<and>
      (Addr_IsValid expectedIP \<longrightarrow> map_option Unmap (AddrFromSlice (na_IP src)) = Some expectedIP) \<and>
      (expectedPort \<noteq> 0 \<longrightarrow> of_int (na_Port src) = expectedPort)) \<and>
    (\<forall>(dst, datagram) \<in> set (as_replies st). um_client (as_mgr st) = Some dst)"
proof -
  have "source_inv st" by (rule source_reachable [OF assms])
  moreover have "um_expectedIP (as_mgr st) = expectedIP" "um_expectedPort (as_mgr st) = expectedPort" using expected_kept [OF assms] by (simp_all add: expects_def)
  ultimately show ?thesis unfolding source_inv_def source_ok_def by fastforce
qed


definition demo_datagram :: bytes where "demo_datagram = [0, 0, 0, 1, 1, 2, 3, 4, 0, 53, 9]"

theorem udp_one_client_witness:
  "\<exists>st t. assoc_step\<^sup>*\<^sup>* (new_assoc (Addr4 [127, 0, 0, 1], 5000)) st \<and> (t, demo_source, [9]) \<in> set (as_sent st) \<and>
     map_option Unmap (AddrFromSlice (na_IP demo_source)) = Some (Addr4 [127, 0, 0, 1])"
proof -
  let ?s0 = "new_assoc (Addr4 [127, 0, 0, 1], 5000)"
  define pd where "pd = \<lparr>pd_key = JoinHostPort (Addr_String (Addr4 [1, 2, 3, 4])) (nat_decimal (unat (53 :: u16))), pd_host = Addr_String (Addr4 [1, 2, 3, 4]),
    pd_port = 53, pd_client = demo_source, pd_src = demo_source, pd_payload = [9]\<rparr>"
  define s1 where "s1 = pump_datagram demo_source demo_datagram ?s0"
  define s2 where "s2 = pump_create demo_lookup Leader demo_proxy pd s1"
  define s3 where "s3 = pump_dialed True pd s2"
  define s4 where "s4 = pump_finish pd 0 s3"
  have parse: "parseUDPRequest (take udpMaxPayload demo_datagram) = Inr (Addr_String (Addr4 [1, 2, 3, 4]), 53, [9])"
    by (simp add: parseUDPRequest_def demo_datagram_def udpMaxPayload_def subslice_def Let_def atypIPv4_def)
  have "authorise demo_source (as_mgr ?s0) = (Some demo_source, (as_mgr ?s0)\<lparr>um_client := Some demo_source\<rparr>)"
    by (simp add: authorise_def demo_source_def AddrFromSlice_def new_assoc_def newUDPRelayMgr_def)
  then have s1: "s1 = ?s0\<lparr>as_mgr := (as_mgr ?s0)\<lparr>um_client := Some demo_source\<rparr>, as_pump := PumpCreating pd\<rparr>"
    using parse by (simp add: s1_def pump_datagram_def lookupRelay_def relay_at_def pd_def new_assoc_def newUDPRelayMgr_def Let_def)
  have "fst (createRelay_prepare demo_lookup Leader (pd_key pd) (pd_host pd) (pd_port pd) (as_mgr s1) demo_proxy) = PrepDial (pd_key pd)"
  proof -
    have "lk_v4 demo_lookup" "\<not> lk_v6 demo_lookup" "lk_now demo_lookup = 0" by (simp_all add: demo_lookup_def)
    then show ?thesis
      using demo_allowed [of "Addr4 [1, 2, 3, 4]"]
      by (auto simp: createRelay_prepare_def pd_def demo_lookup_literal demo_proxy_def getOrCreate_enter_def relay_at_def s1 new_assoc_def
          newUDPRelayMgr_def Let_def simp del: Addr_String.simps split: prod.split)
  qed
  then have s2: "s2 = s1\<lparr>as_pump := PumpDialing pd (pd_key pd)\<rparr>" by (simp add: s2_def pump_create_def)
  have steps: "assoc_step ?s0 s1" "assoc_step s1 s2" "assoc_step s2 s3" "assoc_step s3 s4"
  proof -
    show "assoc_step ?s0 s1" unfolding s1_def by (rule assoc_step.datagram) (simp add: new_assoc_def)
    show "assoc_step s1 s2" unfolding s2_def by (rule assoc_step.create) (simp add: s1)
    show "assoc_step s2 s3" unfolding s3_def by (rule assoc_step.dialed) (simp add: s2)
    show "assoc_step s3 s4" unfolding s4_def by (rule assoc_step.finish) (simp add: s3_def pump_dialed_def s2 s1 new_assoc_def)
  qed
  then have "assoc_step\<^sup>*\<^sup>* ?s0 s4" by (meson converse_rtranclp_into_rtranclp rtranclp.rtrancl_refl)
  moreover have "(0, demo_source, [9]) \<in> set (as_sent s4)"
    by (simp add: s4_def pump_finish_def getOrCreate_finish_def pump_write_def s3_def pump_dialed_def s2 s1 new_assoc_def newUDPRelayMgr_def pd_def Let_def)
  ultimately show ?thesis using udp_one_client [of "Addr4 [127, 0, 0, 1]" 5000 s4] by force
qed


section \<open>Headers\<close>

lemma parse_dest:
  assumes "dest_ok d" and "length rsv2 = 2"
  shows "parseUDPRequest (rsv2 @ [0] @ dest_bytes d @ put_uint16 port @ payload) = Inr (dest_host d, port, payload)"
proof -
  obtain x y where r: "rsv2 = [x, y]" using assms(2) by (cases rsv2; cases "tl rsv2") auto
  show ?thesis
  proof (cases d)
    case (ToAddr a)
    show ?thesis
    proof (cases a)
      case (Addr4 b)
      then have "length b = 4" using assms ToAddr by (simp add: addr_wf_def)
      then show ?thesis using ToAddr Addr4 r by (simp add: parseUDPRequest_def Let_def socks_constants subslice_def)
    next
      case (Addr6 b zone)
      then have "length b = 16" "zone = []" using assms ToAddr by (cases zone; simp add: addr_wf_def)+
      then show ?thesis using ToAddr Addr6 r by (simp add: parseUDPRequest_def Let_def socks_constants subslice_def del: Addr_String.simps)
    qed (use assms ToAddr in simp)
  next
    case (ToName n)
    have "drop (5 + k) (a # b # c # d' # e # xs) = drop k xs" "drop (5 + k) (a # b # c # xs) = drop (2 + k) xs" for k a b c d' e and xs :: bytes
      by (simp_all add: numeral_eq_Suc)
    then show ?thesis using assms(1) r ToName by (simp add: parseUDPRequest_def Let_def socks_constants subslice_def unat_of_nat_u8)
  qed
qed

text \<open>How a destination is written in a reply: a name that is the text of an address becomes the address.\<close>

definition reply_dest :: "string \<Rightarrow> dest" where
  "reply_dest host = (case ParseAddr host of Inr a \<Rightarrow> ToAddr (withoutZone a) | Inl _ \<Rightarrow> ToName host)"

lemma buildUDPReply_dest:
  assumes "\<And>e. ParseAddr host = Inl e \<Longrightarrow> length host \<le> 255"
  shows "buildUDPReply host port data = [0, 0, 0] @ dest_bytes (reply_dest host) @ put_uint16 port @ data"
proof (cases "ParseAddr host")
  case (Inr a)
  then show ?thesis using ParseAddr_wf [OF Inr] by (cases a) (simp_all add: buildUDPReply_def reply_dest_def)
qed (use assms in \<open>simp add: buildUDPReply_def reply_dest_def\<close>)

text \<open>
  C30. Datagrams are addressed as the client wrote them. A datagram of the client, to an address or a name and
  whatever it has in the reserved bytes, is taken apart into exactly that destination, port and
  payload; a reply is written with the same layout, so that the client's own parser finds the port
  and payload, with the destination the client used: the same address, or the same name, unless the name is the
  text of an address, for which that address stands.
\<close>

theorem udp_header_roundtrip:
  assumes "dest_ok d" and "length rsv2 = 2"
  shows "\<exists>host. parseUDPRequest (rsv2 @ [0] @ dest_bytes d @ put_uint16 port @ payload) = Inr (host, port, payload) \<and>
    parseUDPRequest (buildUDPReply host port' data) = Inr (dest_host (reply_dest host), port', data) \<and>
    (case d of ToAddr a \<Rightarrow> reply_dest host = d
     | ToName n \<Rightarrow> host = n \<and> (case ParseAddr n of Inl _ \<Rightarrow> reply_dest host = d | Inr a \<Rightarrow> reply_dest host = ToAddr (withoutZone a)))"
proof -
  let ?h = "dest_host d"
  have addr: "ParseAddr ?h = Inr a \<and> withoutZone a = a" if "d = ToAddr a" for a
    using assms(1) that ParseAddr_String [of a] by simp
  have "length ?h \<le> 255" if "ParseAddr ?h = Inl e" for e using that assms(1) addr by (cases d) auto
  then have build: "buildUDPReply ?h port' data = [0, 0] @ [0] @ dest_bytes (reply_dest ?h) @ put_uint16 port' @ data"
    using buildUDPReply_dest [of ?h port' data] by simp
  have "dest_ok (reply_dest ?h)"
  proof (cases "ParseAddr ?h")
    case (Inr a)
    then show ?thesis using ParseAddr_wf [OF Inr] by (cases a) (simp_all add: reply_dest_def addr_wf_def)
  next
    case (Inl e)
    then show ?thesis using assms(1) addr by (cases d) (auto simp: reply_dest_def)
  qed
  then have "parseUDPRequest (buildUDPReply ?h port' data) = Inr (dest_host (reply_dest ?h), port', data)"
    unfolding build by (rule parse_dest) simp
  moreover have "case d of ToAddr a \<Rightarrow> reply_dest ?h = d
     | ToName n \<Rightarrow> ?h = n \<and> (case ParseAddr n of Inl _ \<Rightarrow> reply_dest ?h = d | Inr a \<Rightarrow> reply_dest ?h = ToAddr (withoutZone a))"
    using addr by (cases d) (auto simp: reply_dest_def split: sum.split)
  ultimately show ?thesis using parse_dest [OF assms] by blast
qed

theorem udp_header_roundtrip_witness:
  "\<exists>host. parseUDPRequest [0, 0, 0, 3, 3, 97, 46, 98, 0, 53, 9] = Inr (host, 53, [9]) \<and> host = ''a.b'' \<and>
     parseUDPRequest (buildUDPReply host 53 [7]) = Inr (dest_host (reply_dest host), 53, [7])"
proof -
  have ok: "dest_ok (ToName ''a.b'')" "length [0, 0 :: u8] = 2" by simp_all
  have "[0, 0] @ [0] @ dest_bytes (ToName ''a.b'') @ put_uint16 53 @ [9] = [0, 0, 0, 3, 3, 97, 46, 98, 0, 53, 9]"
    by (simp add: atypDomain_def be_bytes_numeral byte_of_char_def)
  with udp_header_roundtrip [OF ok, of 53 "[9]" 53 "[7]"] show ?thesis by auto
qed

end
