(* ===== verification/SocksServer.thy ===== *)
theory SocksServer
  imports SocksUdp "HOL-Library.Sublist"
begin

text \<open>
  The SOCKS5 server around its commands (\<^verbatim>\<open>cmd/openvpn2socks/socks5.go\<close>, \<^verbatim>\<open>socks5_tcp.go\<close>, \<^verbatim>\<open>socks5_udp.go\<close>): how a UDP association
  starts, the whole of \<^verbatim>\<open>handle\<close> for one client, the two goroutines of \<^verbatim>\<open>proxy\<close> that copy bytes with their deadlines, and
  the accept loop with its wait group.

  The closing of a connection by a watcher of the context shows as reads and writes that fail.
\<close>

section \<open>UDP ASSOCIATE\<close>

text \<open>
  \<open>bind\<close> is the result of binding a UDP socket: the text of its local address, if it has one, or failure.
\<close>

definition localAddrPortFromUDP :: "string option \<Rightarrow> Addr \<times> u16" where
  "localAddrPortFromUDP a =
     (case a of
        Some t \<Rightarrow> (case ParseAddrPort t of Inr ap \<Rightarrow> ap | Inl _ \<Rightarrow> (IPv4Unspecified, 0))
      | None \<Rightarrow> (IPv4Unspecified, 0))"

datatype associate_end = BindFailed | AssociateReplyLost | Associated assoc

definition handleAssociate ::
  "(string \<Rightarrow> string option option) \<Rightarrow> socks5Server \<Rightarrow> net_addr option \<Rightarrow> net_addr option \<Rightarrow> socksRequest \<Rightarrow> client_conn \<Rightarrow>
   associate_end \<times> client_conn" where
  "handleAssociate bind s local remote req c =
     (let listenIP = udpBindIPForCtrl local (sv_listen s)
      in case bind (JoinHostPort listenIP ''0'') of
           None \<Rightarrow> (BindFailed, snd (writeReply repGeneralFailure (IPv4Unspecified, 0) c))
         | Some bound \<Rightarrow>
             (case writeReply repSucceeded (localAddrPortFromUDP bound) c of
                (False, c) \<Rightarrow> (AssociateReplyLost, c)
              | (True, c) \<Rightarrow> (Associated (new_assoc (expected_source remote (Some req))), c)))"

section \<open>One client\<close>

text \<open>What is outside of the server: resolver, dial and bind, and the two addresses of the client's connection.\<close>

record outside =
  out_lookup :: lookup_env
  out_flight :: flight
  out_dial :: "string \<Rightarrow> (stack_error, string option) result"
  out_bind :: "string \<Rightarrow> string option option"
  out_local :: "net_addr option"
  out_remote :: "net_addr option"

datatype handle_end =
    GreetFailed socks_error
  | RequestFailed socks_error
  | Connected connect_end
  | Association associate_end
  | NotSupported u8

definition handle :: "outside \<Rightarrow> socks5Server \<Rightarrow> proxy_state \<Rightarrow> client_conn \<Rightarrow> handle_end \<times> proxy_state \<times> client_conn" where
  "handle out s px c =
     (case greet s c of
        (Some e, c) \<Rightarrow> (GreetFailed e, px, c)
      | (None, c) \<Rightarrow>
          (case readRequest c of
             (Inl e, c) \<Rightarrow> (RequestFailed e, px, snd (writeReply repGeneralFailure (IPv4Unspecified, 0) c))
           | (Inr req, c) \<Rightarrow>
               if rq_cmd req = cmdConnect then
                 (case handleConnect (out_lookup out) (out_flight out) (out_dial out) req px c of
                    (res, px, c) \<Rightarrow> (Connected res, px, c))
               else if rq_cmd req = cmdAssociate then
                 (case handleAssociate (out_bind out) s (out_local out) (out_remote out) req c of
                    (res, c) \<Rightarrow> (Association res, px, c))
               else (NotSupported (rq_cmd req), px, snd (writeReply repCmdNotSupported (IPv4Unspecified, 0) c))))"

section \<open>Copying\<close>

text \<open>
  One end of a proxied connection: what has arrived and is unread, whether the peer has ended its
  stream, what was written to it, its deadlines, whether it can be closed for writing alone, and what is
  closed. \<open>pe_sent\<close> records everything the peer has sent after the request.
\<close>

record pipe_end =
  pe_in :: bytes
  pe_eof :: bool
  pe_sent :: bytes
  pe_out :: bytes
  pe_readBy :: "int option"
  pe_writeBy :: "int option"
  pe_closeWrite :: bool
  pe_shut :: bool
  pe_closed :: bool

definition past :: "int \<Rightarrow> int option \<Rightarrow> bool" where
  "past now dl = (case dl of None \<Rightarrow> False | Some t \<Rightarrow> t \<le> now)"

datatype read_result = ReadData bytes | ReadEOF | ReadError | ReadBlocks

text \<open>A read of up to 32 KiB, the buffer of \<^verbatim>\<open>io.Copy\<close>; an expired deadline fails it before anything is read.\<close>

definition end_read :: "int \<Rightarrow> nat \<Rightarrow> pipe_end \<Rightarrow> read_result \<times> pipe_end" where
  "end_read now n c =
     (if pe_closed c \<or> past now (pe_readBy c) then (ReadError, c)
      else if pe_in c \<noteq> [] then
        let n = min 32768 (max 1 n) in (ReadData (take n (pe_in c)), c\<lparr>pe_in := drop n (pe_in c)\<rparr>)
      else if pe_eof c then (ReadEOF, c)
      else (ReadBlocks, c))"

text \<open>A write of which the network takes up to \<open>k\<close> bytes.\<close>

definition end_write :: "int \<Rightarrow> nat \<Rightarrow> bytes \<Rightarrow> pipe_end \<Rightarrow> bool \<times> pipe_end" where
  "end_write now k p c =
     (if pe_closed c \<or> pe_shut c \<or> past now (pe_writeBy c) then (False, c)
      else (length p \<le> k, c\<lparr>pe_out := pe_out c @ take k p\<rparr>))"

definition idle_SetDeadline :: "int \<Rightarrow> int \<Rightarrow> pipe_end \<Rightarrow> pipe_end" where
  "idle_SetDeadline now idle c = (if idle > 0 then c\<lparr>pe_readBy := Some (now + idle), pe_writeBy := Some (now + idle)\<rparr> else c)"

definition writeDeadliner_Write :: "int \<Rightarrow> int \<Rightarrow> nat \<Rightarrow> bytes \<Rightarrow> pipe_end \<Rightarrow> bool \<times> pipe_end" where
  "writeDeadliner_Write now idle k p c =
     end_write now k p (if idle > 0 then c\<lparr>pe_writeBy := Some (now + idle)\<rparr> else c)"

definition half_close :: "pipe_end \<Rightarrow> pipe_end" where
  "half_close c = (if pe_closeWrite c then c\<lparr>pe_shut := True\<rparr> else c\<lparr>pe_closed := True\<rparr>)"

text \<open>The goroutine of a direction: \<open>Ended True\<close> if the stream it reads has ended.\<close>

datatype copy_phase = Draining | Copying | Ended bool

definition copy_turn :: "int \<Rightarrow> int \<Rightarrow> nat \<Rightarrow> nat \<Rightarrow> pipe_end \<Rightarrow> pipe_end \<Rightarrow> copy_phase \<times> pipe_end \<times> pipe_end" where
  "copy_turn now idle n k src dst =
     (case end_read now n src of
        (ReadBlocks, src) \<Rightarrow> (Copying, src, dst)
      | (ReadEOF, src) \<Rightarrow> (Ended True, src, half_close dst)
      | (ReadError, src) \<Rightarrow> (Ended False, src, half_close dst)
      | (ReadData p, src) \<Rightarrow>
          (case writeDeadliner_Write now idle k p dst of
             (True, dst) \<Rightarrow> (Copying, src, dst)
           | (False, dst) \<Rightarrow> (Ended False, src, half_close dst)))"

text \<open>
  \<open>pi_drained\<close> records that the bytes the request reader had buffered were written to the remote side in full; the code
  ignores the error of that write.
\<close>

record piping =
  pi_now :: int
  pi_idle :: int
  pi_client :: pipe_end
  pi_remote :: pipe_end
  pi_buffered :: bytes
  pi_up :: copy_phase
  pi_down :: copy_phase
  pi_drained :: bool

definition proxy :: "int \<Rightarrow> int \<Rightarrow> bytes \<Rightarrow> pipe_end \<Rightarrow> pipe_end \<Rightarrow> piping" where
  "proxy now idle buffered client remote =
     \<lparr>pi_now = now, pi_idle = idle, pi_client = idle_SetDeadline now idle client, pi_remote = idle_SetDeadline now idle remote,
      pi_buffered = buffered, pi_up = Draining, pi_down = Copying, pi_drained = True\<rparr>"

definition up_drain :: "nat \<Rightarrow> piping \<Rightarrow> piping" where
  "up_drain k st =
     (if pi_buffered st \<noteq> [] then
        (case end_write (pi_now st) k (pi_buffered st) (pi_remote st) of (ok, r) \<Rightarrow>
          st\<lparr>pi_remote := r, pi_buffered := [], pi_drained := ok, pi_up := Copying\<rparr>)
      else st\<lparr>pi_up := Copying\<rparr>)"

definition up_turn :: "nat \<Rightarrow> nat \<Rightarrow> piping \<Rightarrow> piping" where
  "up_turn n k st =
     (case copy_turn (pi_now st) (pi_idle st) n k (pi_client st) (pi_remote st) of (phase, c, r) \<Rightarrow>
       st\<lparr>pi_up := phase, pi_client := c, pi_remote := r\<rparr>)"

definition down_turn :: "nat \<Rightarrow> nat \<Rightarrow> piping \<Rightarrow> piping" where
  "down_turn n k st =
     (case copy_turn (pi_now st) (pi_idle st) n k (pi_remote st) (pi_client st) of (phase, r, c) \<Rightarrow>
       st\<lparr>pi_down := phase, pi_client := c, pi_remote := r\<rparr>)"

definition force_close :: "piping \<Rightarrow> piping" where
  "force_close st = st\<lparr>pi_client := (pi_client st)\<lparr>pe_closed := True\<rparr>, pi_remote := (pi_remote st)\<lparr>pe_closed := True\<rparr>\<rparr>"

fun over :: "copy_phase \<Rightarrow> bool" where
  "over (Ended _) = True"
| "over _ = False"

definition sends :: "bytes \<Rightarrow> pipe_end \<Rightarrow> pipe_end" where
  "sends p c = (if pe_eof c then c else c\<lparr>pe_in := pe_in c @ p, pe_sent := pe_sent c @ p\<rparr>)"

inductive pipe_step :: "piping \<Rightarrow> piping \<Rightarrow> bool" where
  time: "0 \<le> d \<Longrightarrow> pipe_step st (st\<lparr>pi_now := pi_now st + d\<rparr>)"
| client_sends: "pipe_step st (st\<lparr>pi_client := sends p (pi_client st)\<rparr>)"
| remote_sends: "pipe_step st (st\<lparr>pi_remote := sends p (pi_remote st)\<rparr>)"
| client_ends: "pipe_step st (st\<lparr>pi_client := (pi_client st)\<lparr>pe_eof := True\<rparr>\<rparr>)"
| remote_ends: "pipe_step st (st\<lparr>pi_remote := (pi_remote st)\<lparr>pe_eof := True\<rparr>\<rparr>)"
| drain: "pi_up st = Draining \<Longrightarrow> pipe_step st (up_drain k st)"
| up: "pi_up st = Copying \<Longrightarrow> pipe_step st (up_turn n k st)"
| down: "pi_down st = Copying \<Longrightarrow> pipe_step st (down_turn n k st)"
| cancelled: "\<not> (over (pi_up st) \<and> over (pi_down st)) \<Longrightarrow> pipe_step st (force_close st)"

section \<open>The accept loop\<close>

text \<open>
  \<open>se_running\<close> counts the handlers that run; \<open>se_wg\<close> and \<open>se_inflight\<close> are the counters of the code.
\<close>

datatype serve_phase = Accepting | WaitingHandlers | ServeReturned

record serve_state =
  se_phase :: serve_phase
  se_cancelled :: bool
  se_listening :: bool
  se_wg :: nat
  se_inflight :: int
  se_running :: nat

definition Serve_start :: serve_state where
  "Serve_start = \<lparr>se_phase = Accepting, se_cancelled = False, se_listening = True, se_wg = 0, se_inflight = 0, se_running = 0\<rparr>"

definition Serve_accepted :: "serve_state \<Rightarrow> serve_state" where
  "Serve_accepted st = st\<lparr>se_wg := se_wg st + 1, se_inflight := se_inflight st + 1, se_running := se_running st + 1\<rparr>"

definition Serve_accept_failed :: "serve_state \<Rightarrow> serve_state" where
  "Serve_accept_failed st = (if se_cancelled st then st\<lparr>se_phase := WaitingHandlers\<rparr> else st)"

definition handler_done :: "serve_state \<Rightarrow> serve_state" where
  "handler_done st = st\<lparr>se_running := se_running st - 1, se_inflight := se_inflight st - 1, se_wg := se_wg st - 1\<rparr>"

definition Serve_return :: "serve_state \<Rightarrow> serve_state" where
  "Serve_return st = st\<lparr>se_phase := ServeReturned, se_listening := False\<rparr>"

inductive serve_step :: "serve_state \<Rightarrow> serve_state \<Rightarrow> bool" where
  accepted: "se_phase st = Accepting \<Longrightarrow> se_listening st \<Longrightarrow> serve_step st (Serve_accepted st)"
| accept_failed: "se_phase st = Accepting \<Longrightarrow> serve_step st (Serve_accept_failed st)"
| handled: "0 < se_running st \<Longrightarrow> serve_step st (handler_done st)"
| cancel: "serve_step st (st\<lparr>se_cancelled := True\<rparr>)"
| watcher: "se_cancelled st \<Longrightarrow> serve_step st (st\<lparr>se_listening := False\<rparr>)"
| returns: "se_phase st = WaitingHandlers \<Longrightarrow> se_wg st = 0 \<Longrightarrow> serve_step st (Serve_return st)"


section \<open>Streams\<close>

text \<open>What a direction has delivered, by the state of its goroutine.\<close>

fun dir_ok :: "copy_phase \<Rightarrow> bytes \<Rightarrow> bool \<Rightarrow> pipe_end \<Rightarrow> pipe_end \<Rightarrow> bool" where
  "dir_ok Draining buffered drained src dst \<longleftrightarrow> drained \<and> pe_out dst = [] \<and> buffered @ pe_in src = pe_sent src"
| "dir_ok Copying buffered drained src dst \<longleftrightarrow> (drained \<longrightarrow> pe_out dst @ pe_in src = pe_sent src)"
| "dir_ok (Ended whole) buffered drained src dst \<longleftrightarrow>
     (drained \<longrightarrow> prefix (pe_out dst) (pe_sent src) \<and> (whole \<longrightarrow> pe_out dst = pe_sent src)) \<and>
     (whole \<longrightarrow> pe_eof src) \<and> (pe_shut dst \<or> pe_closed dst)"

definition same_source :: "pipe_end \<Rightarrow> pipe_end \<Rightarrow> bool" where
  "same_source c c' \<longleftrightarrow> pe_in c' = pe_in c \<and> pe_sent c' = pe_sent c \<and> pe_eof c' = pe_eof c"

definition same_sink :: "pipe_end \<Rightarrow> pipe_end \<Rightarrow> bool" where
  "same_sink c c' \<longleftrightarrow> pe_out c' = pe_out c \<and> (pe_shut c \<or> pe_closed c \<longrightarrow> pe_shut c' \<or> pe_closed c')"

lemma same_refl [simp]: "same_source c c" "same_sink c c"
  by (simp_all add: same_source_def same_sink_def)

lemma dir_ok_same: "dir_ok ph b d src dst \<Longrightarrow> same_source src src' \<Longrightarrow> same_sink dst dst' \<Longrightarrow> dir_ok ph b d src' dst'"
  by (cases ph) (auto simp: same_source_def same_sink_def)

lemma dir_ok_sends: "dir_ok ph b d src dst \<Longrightarrow> dir_ok ph b d (sends p src) dst"
  by (cases ph) (auto simp: sends_def)

lemma dir_ok_ends: "dir_ok ph b d src dst \<Longrightarrow> dir_ok ph b d (src\<lparr>pe_eof := True\<rparr>) dst"
  by (cases ph) auto

lemma half_close_simps [simp]:
  "pe_in (half_close c) = pe_in c" "pe_sent (half_close c) = pe_sent c" "pe_eof (half_close c) = pe_eof c" "pe_out (half_close c) = pe_out c"
  "pe_readBy (half_close c) = pe_readBy c" "pe_shut (half_close c) \<or> pe_closed (half_close c)"
  by (simp_all add: half_close_def)

lemma end_write_cases:
  assumes "writeDeadliner_Write now idle k p c = (ok, c')"
  shows "same_source c c' \<and> pe_readBy c' = pe_readBy c \<and> prefix (pe_out c') (pe_out c @ p) \<and> (ok \<longrightarrow> pe_out c' = pe_out c @ p) \<and>
    (pe_shut c' \<longleftrightarrow> pe_shut c) \<and> (pe_closed c' \<longleftrightarrow> pe_closed c)"
  using assms by (auto simp: writeDeadliner_Write_def end_write_def same_source_def take_is_prefix split: if_splits)

lemma copy_turn_ok:
  assumes "dir_ok Copying b d src dst" and "copy_turn now idle n k src dst = (ph, src', dst')"
  shows "dir_ok ph b d src' dst'"
proof -
  obtain res s1 where r: "end_read now n src = (res, s1)" by (cases "end_read now n src")
  have sofar: "d \<longrightarrow> prefix (pe_out dst) (pe_sent src)" using assms(1) by (auto intro: prefixI [OF sym])
  show ?thesis
  proof (cases res)
    case (ReadData p)
    then have s1: "pe_in src = p @ pe_in s1" "pe_sent s1 = pe_sent src"
      using r by (auto simp: end_read_def Let_def split: if_splits)
    obtain ok d1 where w: "writeDeadliner_Write now idle k p dst = (ok, d1)" by (cases "writeDeadliner_Write now idle k p dst")
    have "d \<longrightarrow> prefix (pe_out d1) (pe_sent src)"
      using end_write_cases [OF w] assms(1) s1(1) by (metis dir_ok.simps(2) append.assoc prefix_prefix)
    then show ?thesis using assms s1 r ReadData w end_write_cases [OF w] by (cases ok) (auto simp: copy_turn_def)
  qed (use assms r sofar in \<open>auto simp: copy_turn_def end_read_def Let_def split: if_splits\<close>)
qed

lemma copy_turn_other:
  assumes "copy_turn now idle n k src dst = (ph, src', dst')"
  shows "same_sink src src' \<and> same_source dst dst' \<and> pe_readBy src' = pe_readBy src \<and> pe_readBy dst' = pe_readBy dst"
proof -
  obtain res s1 where r: "end_read now n src = (res, s1)" by (cases "end_read now n src")
  then have s1: "same_sink src s1" "pe_readBy s1 = pe_readBy src" by (auto simp: end_read_def same_sink_def Let_def split: if_splits)
  show ?thesis
  proof (cases res)
    case (ReadData p)
    obtain ok d1 where w: "writeDeadliner_Write now idle k p dst = (ok, d1)" by (cases "writeDeadliner_Write now idle k p dst")
    then show ?thesis using assms r s1 ReadData end_write_cases [OF w] by (cases ok) (auto simp: copy_turn_def same_source_def)
  qed (use assms r s1 in \<open>auto simp: copy_turn_def same_source_def\<close>)
qed

definition piping_inv :: "int option \<Rightarrow> piping \<Rightarrow> bool" where
  "piping_inv by st \<longleftrightarrow> dir_ok (pi_up st) (pi_buffered st) (pi_drained st) (pi_client st) (pi_remote st) \<and>
     dir_ok (pi_down st) [] True (pi_remote st) (pi_client st) \<and>
     pe_readBy (pi_client st) = by \<and> pe_readBy (pi_remote st) = by"

lemma inv_drain:
  assumes "piping_inv by st" and "pi_up st = Draining"
  shows "piping_inv by (up_drain k st)"
proof -
  have w: "same_source c c' \<and> (pe_readBy c' = pe_readBy c) \<and> (ok \<longrightarrow> pe_out c' = pe_out c @ p)" if "end_write now k p c = (ok, c')" for now k p c ok c'
    using that by (auto simp: end_write_def same_source_def split: if_splits)
  obtain ok r where e: "end_write (pi_now st) k (pi_buffered st) (pi_remote st) = (ok, r)"
    by (cases "end_write (pi_now st) k (pi_buffered st) (pi_remote st)")
  have "dir_ok (pi_down st) [] True r (pi_client st)"
    using assms(1) w [OF e] dir_ok_same same_refl(2) unfolding piping_inv_def by blast
  then show ?thesis using assms w [OF e] by (auto simp: up_drain_def piping_inv_def e)
qed

lemma inv_turns:
  assumes "piping_inv by st"
  shows "pi_up st = Copying \<Longrightarrow> piping_inv by (up_turn n k st)" and "pi_down st = Copying \<Longrightarrow> piping_inv by (down_turn n k st)"
proof -
  assume up: "pi_up st = Copying"
  obtain ph c r where t: "copy_turn (pi_now st) (pi_idle st) n k (pi_client st) (pi_remote st) = (ph, c, r)"
    by (cases "copy_turn (pi_now st) (pi_idle st) n k (pi_client st) (pi_remote st)")
  show "piping_inv by (up_turn n k st)"
    using assms up copy_turn_ok [OF _ t] copy_turn_other [OF t] dir_ok_same [of "pi_down st" "[]" True "pi_remote st" "pi_client st" r c]
    by (simp add: piping_inv_def up_turn_def t)
next
  assume down: "pi_down st = Copying"
  obtain ph c r where t: "copy_turn (pi_now st) (pi_idle st) n k (pi_remote st) (pi_client st) = (ph, r, c)"
    by (cases "copy_turn (pi_now st) (pi_idle st) n k (pi_remote st) (pi_client st)")
  show "piping_inv by (down_turn n k st)"
    using assms down copy_turn_ok [OF _ t] copy_turn_other [OF t] dir_ok_same [of "pi_up st" "pi_buffered st" "pi_drained st" "pi_client st" "pi_remote st" c r]
    by (simp add: piping_inv_def down_turn_def t)
qed

lemma end_changes:
  "same_source c (c\<lparr>pe_closed := True\<rparr>)" "same_sink c (c\<lparr>pe_closed := True\<rparr>)" "same_sink c (sends p c)" "same_sink c (c\<lparr>pe_eof := True\<rparr>)"
  "pe_readBy (sends p c) = pe_readBy c"
  by (simp_all add: same_source_def same_sink_def sends_def)

lemma pipe_step_inv: "pipe_step st st' \<Longrightarrow> piping_inv by st \<Longrightarrow> piping_inv by st' \<and> pi_idle st' = pi_idle st"
proof (induction rule: pipe_step.induct)
  case (drain st k)
  then show ?case using inv_drain by (simp add: up_drain_def split: prod.split)
next
  case (up st n k)
  then show ?case using inv_turns(1) by (simp add: up_turn_def split: prod.split)
next
  case (down st n k)
  then show ?case using inv_turns(2) by (simp add: down_turn_def split: prod.split)
next
  case (client_sends st p)
  then show ?case using end_changes(3) [of "pi_client st" p] by (simp add: piping_inv_def end_changes(5) dir_ok_sends) (blast intro: dir_ok_same same_refl)
next
  case (remote_sends st p)
  then show ?case using end_changes(3) [of "pi_remote st" p] by (simp add: piping_inv_def end_changes(5) dir_ok_sends) (blast intro: dir_ok_same same_refl)
next
  case (client_ends st)
  then show ?case using end_changes(4) [of "pi_client st"] by (simp add: piping_inv_def dir_ok_ends) (blast intro: dir_ok_same same_refl)
next
  case (remote_ends st)
  then show ?case using end_changes(4) [of "pi_remote st"] by (simp add: piping_inv_def dir_ok_ends) (blast intro: dir_ok_same same_refl)
next
  case (cancelled st)
  then show ?case by (simp add: piping_inv_def force_close_def) (blast intro: dir_ok_same end_changes)
qed (simp_all add: piping_inv_def)


lemma pipe_reachable: "pipe_step\<^sup>*\<^sup>* st0 st \<Longrightarrow> piping_inv by st0 \<Longrightarrow> piping_inv by st \<and> pi_idle st = pi_idle st0"
  by (induction rule: rtranclp_induct) (auto dest: pipe_step_inv)

text \<open>An end at which nothing has been copied yet.\<close>

definition fresh_end :: "bytes \<Rightarrow> bytes \<Rightarrow> pipe_end" where
  "fresh_end buffered arrived = \<lparr>pe_in = arrived, pe_eof = False, pe_sent = buffered @ arrived, pe_out = [], pe_readBy = None, pe_writeBy = None,
     pe_closeWrite = True, pe_shut = False, pe_closed = False\<rparr>"

lemma proxy_inv: "piping_inv (if 0 < idle then Some (t0 + idle) else None) (proxy t0 idle buffered (fresh_end buffered arrived) (fresh_end [] early))"
  by (simp add: piping_inv_def proxy_def fresh_end_def idle_SetDeadline_def)

lemma dir_ok_prefix: "dir_ok ph b d src dst \<Longrightarrow> d \<Longrightarrow> prefix (pe_out dst) (pe_sent src)"
  by (cases ph) (auto intro: prefixI [OF sym])

lemma dir_ok_whole: "dir_ok (Ended True) b d src dst \<Longrightarrow> d \<Longrightarrow> pe_out dst = pe_sent src"
  by simp

lemma dir_ok_over: "dir_ok ph b d src dst \<Longrightarrow> over ph \<Longrightarrow> pe_shut dst \<or> pe_closed dst"
  by (cases ph) simp_all

lemma expired_turn:
  "past now (pe_readBy src) \<Longrightarrow> copy_turn now idle n k src dst = (Ended False, src, half_close dst)"
  by (simp add: copy_turn_def end_read_def)

text \<open>
  C26. A proxied connection is a stream in each direction. Under every interleaving of the two copying
  goroutines, arriving bytes, stream ends, failing or partial writes, deadlines and shutdown, the client has
  got a prefix of what the remote side sent; the remote side has got a prefix of what the client sent after its
  request, buffered bytes first, provided the write of the buffered bytes, whose error the code
  ignores, was whole. A direction that ended because its stream ended has delivered all of it, and one that
  ended has closed its sink for writing. With an idle limit the connection is cut that long after its
  start, however busy it is: the read deadlines are set once, so from then on each
  direction ends with its next turn and copies nothing more.
\<close>

theorem proxied_stream:
  assumes "pipe_step\<^sup>*\<^sup>* (proxy t0 idle buffered (fresh_end buffered arrived) (fresh_end [] early)) st"
  shows "prefix (pe_out (pi_client st)) (pe_sent (pi_remote st)) \<and>
    (pi_drained st \<longrightarrow> prefix (pe_out (pi_remote st)) (pe_sent (pi_client st))) \<and>
    (pi_down st = Ended True \<longrightarrow> pe_out (pi_client st) = pe_sent (pi_remote st)) \<and>
    (pi_up st = Ended True \<and> pi_drained st \<longrightarrow> pe_out (pi_remote st) = pe_sent (pi_client st)) \<and>
    (over (pi_up st) \<longrightarrow> pe_shut (pi_remote st) \<or> pe_closed (pi_remote st)) \<and>
    (over (pi_down st) \<longrightarrow> pe_shut (pi_client st) \<or> pe_closed (pi_client st)) \<and>
    (0 < idle \<and> t0 + idle \<le> pi_now st \<longrightarrow>
      pi_up (up_turn n k st) = Ended False \<and> pe_out (pi_remote (up_turn n k st)) = pe_out (pi_remote st) \<and>
      pi_down (down_turn n k st) = Ended False \<and> pe_out (pi_client (down_turn n k st)) = pe_out (pi_client st))"
proof -
  from pipe_reachable [OF assms proxy_inv]
  have up: "dir_ok (pi_up st) (pi_buffered st) (pi_drained st) (pi_client st) (pi_remote st)"
    and down: "dir_ok (pi_down st) [] True (pi_remote st) (pi_client st)"
    and by': "pe_readBy (pi_client st) = (if 0 < idle then Some (t0 + idle) else None)" "pe_readBy (pi_remote st) = (if 0 < idle then Some (t0 + idle) else None)"
    by (auto simp: piping_inv_def)
  have "pi_down st = Ended True \<longrightarrow> pe_out (pi_client st) = pe_sent (pi_remote st)"
    "pi_up st = Ended True \<and> pi_drained st \<longrightarrow> pe_out (pi_remote st) = pe_sent (pi_client st)"
    using up down by auto
  moreover have "pi_up (up_turn n k st) = Ended False \<and> pe_out (pi_remote (up_turn n k st)) = pe_out (pi_remote st) \<and>
      pi_down (down_turn n k st) = Ended False \<and> pe_out (pi_client (down_turn n k st)) = pe_out (pi_client st)"
    if "0 < idle" "t0 + idle \<le> pi_now st"
    using by' expired_turn that by (auto simp: up_turn_def down_turn_def past_def)
  ultimately show ?thesis
    using dir_ok_prefix [OF down] dir_ok_prefix [OF up] dir_ok_over [OF up] dir_ok_over [OF down] by simp
qed

lemmas proxy_eval = proxy_def fresh_end_def idle_SetDeadline_def up_drain_def up_turn_def copy_turn_def end_read_def end_write_def
  writeDeadliner_Write_def half_close_def past_def

text \<open>Two bytes buffered with the request, a third that arrived; the remote side answers and the client ends its stream.\<close>

definition demo_proxied :: piping where
  "demo_proxied = up_turn 8 8 (let st = up_turn 1 9 (up_drain 9 (proxy 0 600 [1, 2] (fresh_end [1, 2] [3]) (fresh_end [] [])))
     in st\<lparr>pi_client := (pi_client st)\<lparr>pe_eof := True\<rparr>\<rparr>)"

lemma demo_proxied_run: "pipe_step\<^sup>*\<^sup>* (proxy 0 600 [1, 2] (fresh_end [1, 2] [3]) (fresh_end [] [])) demo_proxied"
proof -
  define s0 where "s0 = proxy 0 600 [1, 2] (fresh_end [1, 2] [3]) (fresh_end [] [])"
  define s1 where "s1 = up_drain 9 s0"
  define s2 where "s2 = up_turn 1 9 s1"
  define s3 where "s3 = s2\<lparr>pi_client := (pi_client s2)\<lparr>pe_eof := True\<rparr>\<rparr>"
  have "pi_up s0 = Draining" by (simp add: s0_def proxy_def)
  then have 1: "pipe_step s0 s1" unfolding s1_def by (rule pipe_step.drain)
  have "pi_up s1 = Copying" by (simp add: s1_def up_drain_def split: prod.split)
  then have 2: "pipe_step s1 s2" unfolding s2_def by (rule pipe_step.up)
  have 3: "pipe_step s2 s3" unfolding s3_def by (rule pipe_step.client_ends)
  have "pi_up s3 = Copying" by (simp add: s3_def s2_def s1_def s0_def proxy_eval)
  then have 4: "pipe_step s3 demo_proxied"
    unfolding demo_proxied_def Let_def s0_def [symmetric] s1_def [symmetric] s2_def [symmetric] s3_def [symmetric] by (rule pipe_step.up)
  from 1 2 3 4 show ?thesis unfolding s0_def [symmetric] by (meson converse_rtranclp_into_rtranclp rtranclp.rtrancl_refl)
qed

theorem proxied_stream_witness: "pi_up demo_proxied = Ended True \<and> pe_out (pi_remote demo_proxied) = [1, 2, 3]"
proof -
  have "pi_up demo_proxied = Ended True" "pi_drained demo_proxied" "pe_sent (pi_client demo_proxied) = [1, 2, 3]"
    by (simp_all add: demo_proxied_def proxy_eval)
  then show ?thesis using proxied_stream [OF demo_proxied_run] by simp
qed

text \<open>
  A write of the buffered bytes that was cut short leaves a hole: the copying goes on after it.
\<close>

lemma drain_failure_leaves_hole:
  "\<exists>st. pipe_step\<^sup>*\<^sup>* (proxy 0 600 [1, 2] (fresh_end [1, 2] [3]) (fresh_end [] [])) st \<and>
     pi_up st = Copying \<and> pe_out (pi_remote st) = [1, 3] \<and> pe_sent (pi_client st) = [1, 2, 3]"
proof -
  define s0 where "s0 = proxy 0 600 [1, 2] (fresh_end [1, 2] [3]) (fresh_end [] [])"
  define s1 where "s1 = up_drain 1 s0"
  have "pi_up s0 = Draining" by (simp add: s0_def proxy_def)
  then have 1: "pipe_step s0 s1" unfolding s1_def by (rule pipe_step.drain)
  have "pi_up s1 = Copying" by (simp add: s1_def up_drain_def split: prod.split)
  then have 2: "pipe_step s1 (up_turn 1 9 s1)" by (rule pipe_step.up)
  have "pi_up (up_turn 1 9 s1) = Copying" by (simp add: s1_def s0_def proxy_eval)
  moreover have "pe_out (pi_remote (up_turn 1 9 s1)) = [1, 3]" by (simp add: s1_def s0_def proxy_eval)
  moreover have "pe_sent (pi_client (up_turn 1 9 s1)) = [1, 2, 3]" by (simp add: s1_def s0_def proxy_eval)
  moreover have "pipe_step\<^sup>*\<^sup>* s0 (up_turn 1 9 s1)" using 1 2 by (meson converse_rtranclp_into_rtranclp rtranclp.rtrancl_refl)
  ultimately show ?thesis unfolding s0_def by blast
qed


section \<open>Sessions\<close>

text \<open>What a client of the server says first, and what it is told when that is right.\<close>

definition hello :: "socks5Server \<Rightarrow> bytes \<Rightarrow> bytes" where
  "hello s methods = [5, of_nat (length methods)] @ methods @
     (if sv_authUser s = '''' then []
      else [1, of_nat (length (sv_authUser s))] @ bytes_of_string (sv_authUser s) @ [of_nat (length (sv_authPass s))] @ bytes_of_string (sv_authPass s))"

definition hello_reply :: "socks5Server \<Rightarrow> bytes" where
  "hello_reply s = (if sv_authUser s = '''' then [5, 0] else [5, 2, 1, 0])"

definition hello_ok :: "socks5Server \<Rightarrow> bytes \<Rightarrow> bool" where
  "hello_ok s methods \<longleftrightarrow> length methods \<le> 255 \<and> (if sv_authUser s = '''' then 0 else 2) \<in> set methods \<and>
     length (sv_authUser s) \<le> 255 \<and> length (sv_authPass s) \<le> 255"

lemma after_unlimited: "cn_writes c = None \<Longrightarrow> after k p rest c = c\<lparr>cn_in := rest, cn_out := cn_out c @ p\<rparr>"
  by (cases c) (simp add: after_def)

lemma write_unlimited: "cn_writes c = None \<Longrightarrow> conn_write p c = (True, c\<lparr>cn_out := cn_out c @ p\<rparr>)"
  by (simp add: conn_write_def)

lemma greet_hello:
  assumes "cn_in c = hello s methods @ rest" and "hello_ok s methods" and "cn_writes c = None"
  shows "greet s c = (None, c\<lparr>cn_in := rest, cn_out := cn_out c @ hello_reply s\<rparr>)"
proof (cases "sv_authUser s = ''''")
  case True
  show ?thesis
    unfolding greet_ok
    by (rule exI [of _ methods], rule exI [of _ rest])
      (use assms True in \<open>simp add: hello_def hello_ok_def hello_reply_def can_write_def after_unlimited socks_constants\<close>)
next
  case False
  let ?creds = "[1, of_nat (length (sv_authUser s))] @ bytes_of_string (sv_authUser s) @ [of_nat (length (sv_authPass s))] @ bytes_of_string (sv_authPass s) @ rest"
  let ?c1 = "after 1 [socksVer, authUser] ?creds c"
  have sub: "subnegUserPass s ?c1 = (None, c\<lparr>cn_in := rest, cn_out := cn_out c @ hello_reply s\<rparr>)"
    unfolding subneg_ok using assms(2,3) False
    by (auto simp: hello_ok_def hello_reply_def can_write_def after_unlimited socks_constants)
  show ?thesis
    unfolding greet_ok
    by (rule exI [of _ methods], rule exI [of _ ?creds])
      (use assms False sub in \<open>simp add: hello_def hello_ok_def can_write_def socks_constants\<close>)
qed

lemma handleConnect_rest: "handleConnect env fl dial req px c = (res, px', c') \<Longrightarrow> cn_in c' = cn_in c"
proof (drule handleConnect_end)
  have w: "cn_in (snd (conn_write p c)) = cn_in c" for p by (simp add: conn_write_def split: option.split nat.split)
  assume "case res of
      Proxied addr \<Rightarrow> \<exists>ip local. dial_target env fl (rq_host req) (rq_port req) px ip addr \<and> dial addr = Inr local \<and>
        conn_write (reply_bytes repSucceeded (localAddrPort local)) c = (True, c')
    | ReplyLost addr \<Rightarrow> \<exists>ip local. dial_target env fl (rq_host req) (rq_port req) px ip addr \<and> dial addr = Inr local \<and>
        c' = snd (conn_write (reply_bytes repSucceeded (localAddrPort local)) c)
    | Refused rep \<Rightarrow> c' = snd (conn_write (reply_bytes rep (IPv4Unspecified, 0)) c)"
  then show ?thesis using w by (cases res) (auto, metis snd_conv)
qed

text \<open>
  The server does what an authenticated client asks and nothing for anybody else. A client that says its
  greeting, with the credentials where the server has any, and then a request is answered its
  greeting and: a CONNECT is carried out for exactly the host and port it names, with everything after the
  request left to be forwarded; an ASSOCIATE binds a socket on the address the client reached the server at,
  tells the client its address and starts an association that expects the client's source, or reports failure;
  any other command is refused as unsupported. A client that fails the greeting, or whose request cannot be
  read, changes nothing in the proxy.
\<close>

lemma socks_session:
  fixes d :: dest and port :: u16 and cmd :: u8
  defines "req \<equiv> \<lparr>rq_cmd = cmd, rq_atyp = dest_bytes d ! 0, rq_host = dest_host d, rq_port = port\<rparr>"
  assumes "cn_in c = hello s methods @ [5, cmd, x] @ dest_bytes d @ put_uint16 port @ rest" and "hello_ok s methods" and "cn_writes c = None" and "dest_ok d"
  defines "c1 \<equiv> c\<lparr>cn_in := rest, cn_out := cn_out c @ hello_reply s\<rparr>"
  shows "(cmd = 1 \<longrightarrow> (\<exists>res px' c'. handle out s px c = (Connected res, px', c') \<and>
        handleConnect (out_lookup out) (out_flight out) (out_dial out) req px c1 = (res, px', c') \<and> cn_in c' = rest)) \<and>
    (cmd = 3 \<longrightarrow> handle out s px c =
        (case out_bind out (JoinHostPort (udpBindIPForCtrl (out_local out) (sv_listen s)) ''0'') of
           None \<Rightarrow> (Association BindFailed, px, c1\<lparr>cn_out := cn_out c1 @ reply_bytes 1 (IPv4Unspecified, 0)\<rparr>)
         | Some bound \<Rightarrow> (Association (Associated (new_assoc (expected_source (out_remote out) (Some req)))), px,
             c1\<lparr>cn_out := cn_out c1 @ reply_bytes 0 (localAddrPortFromUDP bound)\<rparr>))) \<and>
    (cmd \<noteq> 1 \<and> cmd \<noteq> 3 \<longrightarrow> handle out s px c = (NotSupported cmd, px, c1\<lparr>cn_out := cn_out c1 @ reply_bytes 7 (IPv4Unspecified, 0)\<rparr>)) \<and>
    (\<forall>c' e. greet s c' = (Some e, snd (greet s c')) \<longrightarrow> handle out s px c' = (GreetFailed e, px, snd (greet s c'))) \<and>
    (\<forall>c' c2 e. greet s c' = (None, c2) \<and> fst (readRequest c2) = Inl e \<longrightarrow> fst (handle out s px c') = RequestFailed e \<and> fst (snd (handle out s px c')) = px)"
proof -
  note g = greet_hello [OF assms(2-4)]
  have r: "readRequest (c\<lparr>cn_in := [5, cmd, x] @ dest_bytes d @ put_uint16 port @ rest, cn_out := cn_out c @ hello_reply s\<rparr>) = (Inr req, c1)"
    using readRequest_dest [of "c\<lparr>cn_in := [5, cmd, x] @ dest_bytes d @ put_uint16 port @ rest, cn_out := cn_out c @ hello_reply s\<rparr>" cmd x d port rest] assms(5)
    by (simp add: req_def c1_def socksVer_def)
  have w: "conn_write p c1 = (True, c1\<lparr>cn_out := cn_out c1 @ p\<rparr>)" for p by (rule write_unlimited) (simp add: c1_def assms(4))
  have cmd: "rq_cmd req = cmd" by (simp add: req_def)
  have h: "handle out s px c =
      (if cmd = cmdConnect then
         (case handleConnect (out_lookup out) (out_flight out) (out_dial out) req px c1 of (res, px, c) \<Rightarrow> (Connected res, px, c))
       else if cmd = cmdAssociate then
         (case handleAssociate (out_bind out) s (out_local out) (out_remote out) req c1 of (res, c) \<Rightarrow> (Association res, px, c))
       else (NotSupported cmd, px, snd (writeReply repCmdNotSupported (IPv4Unspecified, 0) c1)))"
    unfolding handle_def g r cmd prod.case option.case sum.case ..
  have "cmd = 1 \<longrightarrow> (\<exists>res px' c'. handle out s px c = (Connected res, px', c') \<and>
        handleConnect (out_lookup out) (out_flight out) (out_dial out) req px c1 = (res, px', c') \<and> cn_in c' = rest)"
    using handleConnect_rest [of "out_lookup out" "out_flight out" "out_dial out" req px c1]
    by (cases "handleConnect (out_lookup out) (out_flight out) (out_dial out) req px c1")
      (auto simp: h cmdConnect_def c1_def)
  moreover have "cmd \<noteq> 1 \<and> cmd \<noteq> 3 \<longrightarrow> handle out s px c = (NotSupported cmd, px, c1\<lparr>cn_out := cn_out c1 @ reply_bytes 7 (IPv4Unspecified, 0)\<rparr>)"
    by (simp add: h cmdConnect_def cmdAssociate_def writeReply_def w repCmdNotSupported_def)
  moreover have "cmd = 3 \<longrightarrow> handle out s px c =
        (case out_bind out (JoinHostPort (udpBindIPForCtrl (out_local out) (sv_listen s)) ''0'') of
           None \<Rightarrow> (Association BindFailed, px, c1\<lparr>cn_out := cn_out c1 @ reply_bytes 1 (IPv4Unspecified, 0)\<rparr>)
         | Some bound \<Rightarrow> (Association (Associated (new_assoc (expected_source (out_remote out) (Some req)))), px,
             c1\<lparr>cn_out := cn_out c1 @ reply_bytes 0 (localAddrPortFromUDP bound)\<rparr>))"
    by (simp add: h cmdConnect_def cmdAssociate_def handleAssociate_def writeReply_def w repGeneralFailure_def repSucceeded_def split: option.split)
  moreover have "handle out s px c' = (GreetFailed e, px, snd (greet s c'))" if "greet s c' = (Some e, snd (greet s c'))" for c' e
    using that by (cases "greet s c'") (simp add: handle_def)
  moreover have "fst (handle out s px c') = RequestFailed e \<and> fst (snd (handle out s px c')) = px"
    if "greet s c' = (None, c2)" "fst (readRequest c2) = Inl e" for c' c2 e
    using that by (cases "readRequest c2") (simp add: handle_def)
  ultimately show ?thesis by blast
qed


definition demo_outside :: outside where
  "demo_outside = \<lparr>out_lookup = demo_lookup, out_flight = Leader, out_dial = (\<lambda>_. Inr None), out_bind = (\<lambda>_. Some (Some ''127.0.0.1:88'')),
     out_local = Some \<lparr>na_IP = [127, 0, 0, 1], na_Port = 1080\<rparr>, out_remote = Some \<lparr>na_IP = [127, 0, 0, 1], na_Port = 4000\<rparr>\<rparr>"

definition demo_server :: socks5Server where
  "demo_server = \<lparr>sv_listen = ''127.0.0.1:1080'', sv_authUser = ''me'', sv_authPass = ''x''\<rparr>"

lemma socks_session_witness:
  "handle demo_outside demo_server demo_proxy
     \<lparr>cn_in = [5, 1, 2, 1, 2, 109, 101, 1, 120, 5, 3, 0, 1, 0, 0, 0, 0, 0, 0], cn_out = [], cn_writes = None\<rparr> =
   (Association (Associated (new_assoc (Addr4 [127, 0, 0, 1], 0))), demo_proxy,
    \<lparr>cn_in = [], cn_out = [5, 2, 1, 0, 5, 0, 0, 1, 127, 0, 0, 1, 0, 88], cn_writes = None\<rparr>)"
proof -
  let ?c = "\<lparr>cn_in = [5, 1, 2, 1, 2, 109, 101, 1, 120, 5, 3, 0, 1, 0, 0, 0, 0, 0, 0], cn_out = [], cn_writes = None\<rparr>"
  let ?d = "ToAddr (Addr4 [0, 0, 0, 0])"
  let ?req = "\<lparr>rq_cmd = 3, rq_atyp = dest_bytes ?d ! 0, rq_host = dest_host ?d, rq_port = 0\<rparr>"
  have c: "cn_in ?c = hello demo_server [2] @ [5, 3, 0] @ dest_bytes ?d @ put_uint16 0 @ []"
    by code_simp
  have ok: "hello_ok demo_server [2]" "dest_ok ?d" by (simp_all add: hello_ok_def demo_server_def addr_wf_def)
  have "expected_source (out_remote demo_outside) (Some ?req) = (Addr4 [127, 0, 0, 1], 0)" by code_simp
  moreover have "localAddrPortFromUDP (Some ''127.0.0.1:88'') = (Addr4 [127, 0, 0, 1], 88)"
  proof -
    have "JoinHostPort (Addr_String (Addr4 [127, 0, 0, 1])) (nat_decimal (unat (88 :: u16))) = ''127.0.0.1:88''" by code_simp
    then show ?thesis using ParseAddrPort_JoinHostPort [of "Addr4 [127, 0, 0, 1]" 88] by (simp add: localAddrPortFromUDP_def addr_wf_def)
  qed
  moreover have "reply_bytes 0 (Addr4 [127, 0, 0, 1], 88) = [5, 0, 0, 1, 127, 0, 0, 1, 0, 88]" by code_simp
  moreover have "out_bind demo_outside = (\<lambda>_. Some (Some ''127.0.0.1:88''))" by (simp add: demo_outside_def)
  moreover have "hello_reply demo_server = [5, 2, 1, 0]" by (simp add: hello_reply_def demo_server_def)
  ultimately show ?thesis
    using socks_session [OF c ok(1) _ ok(2), of demo_outside demo_proxy] by simp
qed

section \<open>The server ends cleanly\<close>

definition serve_inv :: "serve_state \<Rightarrow> bool" where
  "serve_inv st \<longleftrightarrow> se_wg st = se_running st \<and> se_inflight st = int (se_running st) \<and>
     (se_phase st \<noteq> Accepting \<longrightarrow> se_cancelled st) \<and> (se_phase st = ServeReturned \<longrightarrow> se_running st = 0 \<and> \<not> se_listening st)"

lemmas serve_defs = Serve_start_def Serve_accepted_def Serve_accept_failed_def handler_done_def Serve_return_def serve_inv_def

lemma serve_step_inv: "serve_step st st' \<Longrightarrow> serve_inv st \<Longrightarrow> serve_inv st'"
  by (induction rule: serve_step.induct) (auto simp: serve_defs)

text \<open>
  Serve returns only after its context was cancelled, and then no handler runs, the counter of clients is
  zero and the listener is closed; before, it accepts whatever fails in between.
\<close>

lemma serve_returns_clean:
  assumes "serve_step\<^sup>*\<^sup>* Serve_start st"
  shows "se_inflight st = int (se_running st)"
    and "se_phase st = ServeReturned \<Longrightarrow> se_cancelled st \<and> se_running st = 0 \<and> se_inflight st = 0 \<and> \<not> se_listening st"
proof -
  have "serve_inv Serve_start" by (simp add: serve_defs)
  with assms have "serve_inv st" by (induction rule: rtranclp_induct) (auto dest: serve_step_inv)
  then show "se_inflight st = int (se_running st)"
    and "se_phase st = ServeReturned \<Longrightarrow> se_cancelled st \<and> se_running st = 0 \<and> se_inflight st = 0 \<and> \<not> se_listening st"
    by (auto simp: serve_inv_def)
qed

text \<open>
  An association's request replaces the address of the control connection as the expected source:
  a client may have datagrams of another host served, and then its own are dropped.
\<close>

lemma request_overrides_source:
  assumes "parseHostAsIP (rq_host req) = Some ip" and "\<not> IsUnspecified ip" and "Addr_IsValid ip" and "ip \<noteq> tcpRemoteIP (Some remote)"
  shows "fst (authorise remote (newUDPRelayMgr (expected_source (Some remote) (Some req)))) = None"
proof (cases "AddrFromSlice (na_IP remote)")
  case (Some a)
  then have "Unmap a \<noteq> ip" using assms(4) by (simp add: tcpRemoteIP_def)
  then show ?thesis using assms Some by (simp add: authorise_def expected_source_def newUDPRelayMgr_def Let_def)
qed (simp add: authorise_def)


text \<open>The unspecified IPv4 address in its IPv6 form passes the filter of literals.\<close>

lemma mapped_unspecified_passes: "isProxiableLiteral (Addr6 (replicate 10 0 @ [255, 255] @ replicate 4 0) '''')"
  by code_simp

end
