(* ===== verification/Daemon.thy ===== *)
theory Daemon
  imports OvpnProperties SocksServer ClientProperties
begin

text \<open>
  The daemon \<^verbatim>\<open>openvpn2socks\<close> itself (\<^verbatim>\<open>cmd/openvpn2socks/config.go\<close>, \<^verbatim>\<open>main.go\<close>): its flags, the configuration it makes of a
  profile or of flags alone, and \<^verbatim>\<open>run\<close>, which dials, builds the stack, the resolver and the server, serves,
  and takes everything down.

  Outside are the files and the certificate parsers (the environment of the profile parser), what dialling depends
  on, the network stack of the tunnel, and how serving ends. Splitting the command line into flags is the library's.
\<close>

section \<open>Flags\<close>

record cliOpts =
  op_configFile :: string
  op_server :: string
  op_network :: string
  op_user :: string
  op_pass :: string
  op_caFile :: string
  op_certFile :: string
  op_keyFile :: string
  op_tlsCryptFile :: string
  op_tlsCryptV2File :: string
  op_tlsAuthFile :: string
  op_auth :: string
  op_ciphers :: string
  op_port :: string
  op_sni :: string
  op_handshakeT :: int
  op_listen :: string
  op_socksAuth :: string
  op_dns :: string
  op_idle :: int
  op_verbose :: bool
  op_allowNoServerIdentity :: bool

datatype flag =
    FlagText string string
  | FlagDuration string int
  | FlagBool string bool

definition flag_defaults :: "(string \<Rightarrow> string) \<Rightarrow> cliOpts" where
  "flag_defaults getenv =
     \<lparr>op_configFile = '''', op_server = '''', op_network = ''udp'', op_user = getenv ''OVPN_USER'', op_pass = getenv ''OVPN_PASS'',
      op_caFile = '''', op_certFile = '''', op_keyFile = '''', op_tlsCryptFile = '''', op_tlsCryptV2File = '''', op_tlsAuthFile = '''',
      op_auth = '''', op_ciphers = '''', op_port = '''', op_sni = '''', op_handshakeT = 45 * 1000000000,
      op_listen = ''127.0.0.1:1080'', op_socksAuth = '''', op_dns = '''', op_idle = 10 * 60 * 1000000000, op_verbose = False,
      op_allowNoServerIdentity = False\<rparr>"

fun set_flag :: "flag \<Rightarrow> cliOpts \<Rightarrow> cliOpts option" where
  "set_flag (FlagText name v) o' =
     (if name = ''config'' then Some (o'\<lparr>op_configFile := v\<rparr>)
      else if name = ''server'' then Some (o'\<lparr>op_server := v\<rparr>)
      else if name = ''network'' then Some (o'\<lparr>op_network := v\<rparr>)
      else if name = ''user'' then Some (o'\<lparr>op_user := v\<rparr>)
      else if name = ''pass'' then Some (o'\<lparr>op_pass := v\<rparr>)
      else if name = ''ca'' then Some (o'\<lparr>op_caFile := v\<rparr>)
      else if name = ''cert'' then Some (o'\<lparr>op_certFile := v\<rparr>)
      else if name = ''key'' then Some (o'\<lparr>op_keyFile := v\<rparr>)
      else if name = ''tls-crypt'' then Some (o'\<lparr>op_tlsCryptFile := v\<rparr>)
      else if name = ''tls-crypt-v2'' then Some (o'\<lparr>op_tlsCryptV2File := v\<rparr>)
      else if name = ''tls-auth'' then Some (o'\<lparr>op_tlsAuthFile := v\<rparr>)
      else if name = ''auth'' then Some (o'\<lparr>op_auth := v\<rparr>)
      else if name = ''ciphers'' then Some (o'\<lparr>op_ciphers := v\<rparr>)
      else if name = ''port'' then Some (o'\<lparr>op_port := v\<rparr>)
      else if name = ''sni'' then Some (o'\<lparr>op_sni := v\<rparr>)
      else if name = ''listen'' then Some (o'\<lparr>op_listen := v\<rparr>)
      else if name = ''socks-auth'' then Some (o'\<lparr>op_socksAuth := v\<rparr>)
      else if name = ''dns'' then Some (o'\<lparr>op_dns := v\<rparr>)
      else None)"
| "set_flag (FlagDuration name d) o' =
     (if name = ''timeout'' then Some (o'\<lparr>op_handshakeT := d\<rparr>)
      else if name = ''idle'' then Some (o'\<lparr>op_idle := d\<rparr>)
      else None)"
| "set_flag (FlagBool name b) o' =
     (if name = ''v'' then Some (o'\<lparr>op_verbose := b\<rparr>)
      else if name = ''allow-no-server-identity'' then Some (o'\<lparr>op_allowNoServerIdentity := b\<rparr>)
      else None)"

fun set_flags :: "flag list \<Rightarrow> cliOpts \<Rightarrow> cliOpts option" where
  "set_flags [] o' = Some o'"
| "set_flags (f # fs) o' = (case set_flag f o' of None \<Rightarrow> None | Some o' \<Rightarrow> set_flags fs o')"

text \<open>\<^const>\<open>None\<close> for a flag that is not defined, on which the library ends the process.\<close>

definition parseFlags :: "(string \<Rightarrow> string) \<Rightarrow> flag list \<Rightarrow> cliOpts option" where
  "parseFlags getenv fs = set_flags fs (flag_defaults getenv)"

section \<open>Configuration\<close>

datatype config_error =
    ParseFailed parse_error
  | CredentialsRequired
  | CannotRead string
  | ServerRequired
  | OneControlKeyFile
  | NoCACertificates
  | CertWithoutKey
  | BadClientKeyPair

definition pick_port :: "string \<Rightarrow> Remote list \<Rightarrow> Remote" where
  "pick_port port remotes =
     (if port \<noteq> '''' then
        case find (\<lambda>r. rm_Port r = port) remotes of Some r \<Rightarrow> r | None \<Rightarrow> remotes ! 0
      else remotes ! 0)"

definition profile_options :: "cliOpts \<Rightarrow> ParseOptions" where
  "profile_options opts =
     \<lparr>po_BaseDir = '''', po_Username = op_user opts, po_Password = op_pass opts, po_ServerNameOverride = op_sni opts,
      po_AllowNoServerIdentity = op_allowNoServerIdentity opts, po_PickRemote = Some (pick_port (op_port opts))\<rparr>"

text \<open>What the flags change in the configuration of a profile.\<close>

definition override_config :: "parse_env \<Rightarrow> cliOpts \<Rightarrow> ClientConfig \<Rightarrow> (config_error, ClientConfig) result" where
  "override_config env opts cfg =
     (let cfg = (if op_ciphers opts \<noteq> '''' then cfg\<lparr>cc_Ciphers := Split CHR '':'' (op_ciphers opts)\<rparr> else cfg);
          cfg = (if op_auth opts \<noteq> '''' then cfg\<lparr>cc_Auth := op_auth opts\<rparr> else cfg)
      in if op_tlsAuthFile opts \<noteq> '''' then
           (case pe_readFile env (op_tlsAuthFile opts) of
              None \<Rightarrow> Inl (CannotRead ''tls-auth'')
            | Some b \<Rightarrow>
                let cfg = cfg\<lparr>cc_TLSAuth := b, cc_TLSCryptV1 := [], cc_TLSCryptV2 := []\<rparr>
                in Inr (if cc_KeyDirection cfg = 0 then cfg\<lparr>cc_KeyDirection := 1\<rparr> else cfg))
         else Inr cfg)"

definition loadFromOvpnFile :: "parse_env \<Rightarrow> cliOpts \<Rightarrow> (config_error, ClientConfig \<times> tls_config) result" where
  "loadFromOvpnFile env opts =
     (case ParseFile env (pe_open env) (op_configFile opts) (Some (profile_options opts)) of
        Inl e \<Rightarrow> Inl (ParseFailed e)
      | Inr (parsed, _) \<Rightarrow>
          let cfg = pd_Config parsed
          in if pd_AuthUserPass parsed \<and> (cc_Username cfg = '''' \<or> cc_Password cfg = '''') then Inl CredentialsRequired
             else rbind (override_config env opts cfg) (\<lambda>cfg. Inr (cfg, pd_TLS parsed)))"

definition flag_tls :: "parse_env \<Rightarrow> cliOpts \<Rightarrow> (config_error, tls_config) result" where
  "flag_tls env opts =
     (let tlsCfg = \<lparr>tc_MinVersion = VersionTLS12, tc_MaxVersion = 0, tc_ServerName = op_sni opts, tc_RootCAs = None,
                    tc_InsecureSkipVerify = False, tc_VerifyConnection = False, tc_Certificates = []\<rparr>
      in rbind
           (if op_caFile opts \<noteq> '''' then
              (case pe_readFile env (op_caFile opts) of
                 None \<Rightarrow> Inl (CannotRead ''ca'')
               | Some b \<Rightarrow> if \<not> pe_certs env b then Inl NoCACertificates else Inr (tlsCfg\<lparr>tc_RootCAs := Some [b]\<rparr>))
            else Inr tlsCfg)
           (\<lambda>tlsCfg.
              if (op_certFile opts = '''') \<noteq> (op_keyFile opts = '''') then Inl CertWithoutKey
              else if op_certFile opts \<noteq> '''' then
                (case (pe_readFile env (op_certFile opts), pe_readFile env (op_keyFile opts)) of
                   (Some cert, Some key) \<Rightarrow>
                     if pe_keyPair env cert key then Inr (tlsCfg\<lparr>tc_Certificates := [(cert, key)]\<rparr>) else Inl BadClientKeyPair
                 | _ \<Rightarrow> Inl BadClientKeyPair)
              else Inr tlsCfg))"

text \<open>A key file named by a flag, if it is named.\<close>

definition flag_key :: "parse_env \<Rightarrow> string \<Rightarrow> string \<Rightarrow> (bytes \<Rightarrow> ClientConfig \<Rightarrow> ClientConfig) \<Rightarrow> ClientConfig \<Rightarrow> (config_error, ClientConfig) result" where
  "flag_key env name file put cfg =
     (if file \<noteq> '''' then (case pe_readFile env file of None \<Rightarrow> Inl (CannotRead name) | Some b \<Rightarrow> Inr (put b cfg)) else Inr cfg)"

definition flag_config :: "cliOpts \<Rightarrow> ClientConfig" where
  "flag_config opts =
     \<lparr>cc_Network = op_network opts, cc_RemoteAddr = op_server opts, cc_DialTransport = False, cc_Scramble = None, cc_TLSConfig = True,
      cc_Username = op_user opts, cc_Password = op_pass opts, cc_TLSCryptV1 = [], cc_TLSCryptV2 = [], cc_TLSAuth = [], cc_Auth = '''',
      cc_KeyDirection = 0, cc_PeerInfoExtra = [], cc_Ciphers = [], cc_Reneg = 0, cc_AutoReconnect = False, cc_ReconnectMaxAttempts = 0,
      cc_ReconnectMaxInterval = 0, cc_MaxConsecutiveStalls = 0, cc_StableSessionThreshold = 0, cc_PeerInfoVersion = ''''\<rparr>"

definition loadFromFlags :: "parse_env \<Rightarrow> cliOpts \<Rightarrow> (config_error, ClientConfig \<times> tls_config) result" where
  "loadFromFlags env opts =
     (if op_server opts = '''' then Inl ServerRequired
      else if length (filter (\<lambda>f. f \<noteq> '''') [op_tlsCryptFile opts, op_tlsCryptV2File opts, op_tlsAuthFile opts]) \<noteq> 1 then Inl OneControlKeyFile
      else rbind (flag_tls env opts) (\<lambda>tlsCfg.
        rbind (flag_key env ''tls-crypt'' (op_tlsCryptFile opts) (\<lambda>b cfg. cfg\<lparr>cc_TLSCryptV1 := b\<rparr>) (flag_config opts)) (\<lambda>cfg.
        rbind (flag_key env ''tls-crypt-v2'' (op_tlsCryptV2File opts) (\<lambda>b cfg. cfg\<lparr>cc_TLSCryptV2 := b\<rparr>) cfg) (\<lambda>cfg.
        rbind (flag_key env ''tls-auth'' (op_tlsAuthFile opts)
                 (\<lambda>b cfg. cfg\<lparr>cc_TLSAuth := b, cc_Auth := op_auth opts, cc_KeyDirection := 1\<rparr>) cfg) (\<lambda>cfg.
        Inr (if op_ciphers opts \<noteq> '''' then cfg\<lparr>cc_Ciphers := Split CHR '':'' (op_ciphers opts)\<rparr> else cfg, tlsCfg))))))"

definition loadConfig :: "parse_env \<Rightarrow> cliOpts \<Rightarrow> (config_error, ClientConfig \<times> tls_config) result" where
  "loadConfig env opts = (if op_configFile opts \<noteq> '''' then loadFromOvpnFile env opts else loadFromFlags env opts)"

section \<open>Addresses of the command line\<close>

definition isLoopbackListen :: "string \<Rightarrow> bool" where
  "isLoopbackListen addr =
     (case ParseAddrPort addr of
        Inr ap \<Rightarrow> IsLoopback (fst ap)
      | Inl _ \<Rightarrow>
          (case SplitHostPort addr of
             None \<Rightarrow> False
           | Some (host, _) \<Rightarrow>
               if host = '''' then False
               else if host = ''localhost'' then True
               else (case ParseAddr host of Inl _ \<Rightarrow> False | Inr ip \<Rightarrow> IsLoopback ip)))"

definition parseDNSFlag :: "string \<Rightarrow> (netip_error, Addr \<times> u16) result" where
  "parseDNSFlag s =
     (case ParseAddrPort s of
        Inr ap \<Rightarrow> Inr ap
      | Inl _ \<Rightarrow> rbind (ParseAddr s) (\<lambda>ip. Inr (ip, 53)))"

section \<open>The stack's view of the client\<close>

text \<open>
  \<^verbatim>\<open>pkg/netstack/netstack.go\<close>: the adapter the network stack, which is outside, calls the client through.
\<close>

record TunConfig =
  tn_LocalIP :: Addr
  tn_Netmask :: Addr
  tn_Gateway :: Addr
  tn_LocalIP6 :: Prefix
  tn_RemoteIP6 :: Addr
  tn_Routes :: "Prefix list"
  tn_Routes6 :: "Prefix list"
  tn_DNS :: "Addr list"
  tn_MTU :: u32

definition pushReplyToTunConfig :: "PublicPushReply \<Rightarrow> TunConfig" where
  "pushReplyToTunConfig pr =
     (let mtu = (if pp_MTU pr > 0 then of_int (pp_MTU pr) else 0)
      in \<lparr>tn_LocalIP = pp_LocalIP pr, tn_Netmask = pp_Netmask pr, tn_Gateway = pp_Gateway pr, tn_LocalIP6 = pp_LocalIP6 pr,
          tn_RemoteIP6 = pp_RemoteIP6 pr, tn_Routes = pp_Routes pr, tn_Routes6 = pp_Routes6 pr, tn_DNS = pp_DNS pr, tn_MTU = mtu\<rparr>)"

definition clientTunnel_Config :: "Client \<Rightarrow> TunConfig" where
  "clientTunnel_Config c = pushReplyToTunConfig (PushedOptions c)"

definition clientTunnel_SetInbound :: "Client \<Rightarrow> ref option \<times> Client" where
  "clientTunnel_SetInbound c = Client_SetIngressHandler True c"

text \<open>The registration, and the configurations its hook was called with.\<close>

definition clientTunnel_OnReconfigure :: "Client \<Rightarrow> ref \<times> Client" where
  "clientTunnel_OnReconfigure c = OnReconnect c"

definition reconfigured :: "ref \<Rightarrow> Client \<Rightarrow> TunConfig list" where
  "reconfigured hook c = map (\<lambda>(_, pr). pushReplyToTunConfig pr) (filter (\<lambda>(h, _). h = hook) (cl_fired c))"

definition clientTunnel_Close :: "bool \<Rightarrow> Client \<Rightarrow> Client" where
  "clientTunnel_Close written c = Client_Close written c"

section \<open>Running\<close>

datatype resource = TheClient | TheStack

datatype run_error =
    ConfigFailed config_error
  | VPNDialFailed client_error
  | StackFailed
  | DNSFlagBad netip_error
  | DNSNoIPv4
  | DNSNoIPv6
  | ServerFailed socks_error
  | GaveUp
  | ServeFailed

text \<open>
  \<open>re_stack\<close>: whether the stack comes up; \<open>re_v4\<close>, \<open>re_v6\<close>: the address families it has; \<open>re_served\<close>: whether the listener could be
  bound and served; \<open>re_surrendered\<close>: the client has given up reconnecting by then.
\<close>

record run_env =
  re_parse :: parse_env
  re_session :: session_env
  re_now :: int
  re_stack :: bool
  re_v4 :: bool
  re_v6 :: bool
  re_served :: bool
  re_surrendered :: bool

record running =
  rn_client :: Client
  rn_resetHook :: ref
  rn_proxy :: proxy_state
  rn_server :: socks5Server
  rn_warned :: bool

definition dns_override :: "run_env \<Rightarrow> cliOpts \<Rightarrow> (run_error, Addr \<times> u16) result" where
  "dns_override env opts =
     (if op_dns opts \<noteq> '''' then
        (case parseDNSFlag (op_dns opts) of
           Inl e \<Rightarrow> Inl (DNSFlagBad e)
         | Inr override \<Rightarrow>
             if Addr_Is4 (fst override) \<and> \<not> re_v4 env then Inl DNSNoIPv4
             else if Addr_Is6 (fst override) \<and> \<not> re_v6 env then Inl DNSNoIPv6
             else Inr override)
      else Inr (NoAddr, 0))"

definition daemon_config :: "ClientConfig \<Rightarrow> ClientConfig" where
  "daemon_config cfg = cfg\<lparr>cc_AutoReconnect := True, cc_MaxConsecutiveStalls := 3\<rparr>"

text \<open>The result of a run, what served (if anything did), and what the deferred calls closed, in their order.\<close>

definition daemon_run :: "run_env \<Rightarrow> cliOpts \<Rightarrow> run_error option \<times> running option \<times> resource list" where
  "daemon_run env opts =
     (case loadConfig (re_parse env) opts of
        Inl e \<Rightarrow> (Some (ConfigFailed e), None, [])
      | Inr (cfg, tls) \<Rightarrow>
          let cfg = daemon_config cfg
          in case Client_Dial (re_session env) (re_now env) (Some cfg) of
               Inl e \<Rightarrow> (Some (VPNDialFailed e), None, [])
             | Inr cli \<Rightarrow>
                 if \<not> re_stack env then (Some StackFailed, None, [TheClient])
                 else (case dns_override env opts of
                   Inl e \<Rightarrow> (Some e, None, [TheStack, TheClient])
                 | Inr override \<Rightarrow>
                     (case newSOCKS5 (op_listen opts) (op_socksAuth opts) of
                        Inl e \<Rightarrow> (Some (ServerFailed e), None, [TheStack, TheClient])
                      | Inr srv \<Rightarrow>
                          let (hook, cli') = OnReconnect cli;
                              rn = \<lparr>rn_client = cli', rn_resetHook = hook,
                                     rn_proxy = \<lparr>px_resolver = newResolver (pp_DNS (PushedOptions cli)) override,
                                                 px_connRate = newConnRateLimiter (re_now env)\<rparr>,
                                     rn_server = srv,
                                     rn_warned = (op_socksAuth opts = '''' \<and> \<not> isLoopbackListen (op_listen opts))\<rparr>
                          in (if re_surrendered env then Some GaveUp else if re_served env then None else Some ServeFailed,
                              Some rn, [TheStack, TheClient]))))"

text \<open>The hook \<^verbatim>\<open>run\<close> registers.\<close>

definition reset_hook :: "int \<Rightarrow> running \<Rightarrow> running" where
  "reset_hook now rn = rn\<lparr>rn_proxy := (rn_proxy rn)\<lparr>px_connRate := Limiter_Reset now (px_connRate (rn_proxy rn))\<rparr>\<rparr>"

definition exit_code :: "run_error option \<Rightarrow> int" where
  "exit_code err = (case err of None \<Rightarrow> 0 | Some _ \<Rightarrow> 1)"


section \<open>What is loaded can be dialled\<close>

lemma pick_port_mem: "rs \<noteq> [] \<Longrightarrow> pick_port port rs \<in> set rs"
  by (auto simp: pick_port_def find_Some_iff split: option.split)

lemma pick_port_port: "r \<in> set rs \<Longrightarrow> rm_Port r = port \<Longrightarrow> port \<noteq> '''' \<Longrightarrow> rm_Port (pick_port port rs) = port"
  by (auto simp: pick_port_def find_None_iff find_Some_iff split: option.split)

text \<open>The profile's part, whatever the file holds.\<close>

lemma profile_loaded:
  assumes "ParseFile env fs path (Some (profile_options opts)) = Inr (p, opt')"
  shows "validateScramble (cc_Scramble (pd_Config p)) = None" and "validateControlChannel (pd_Config p) = None"
    and "cc_TLSConfig (pd_Config p)" and "\<not> cc_DialTransport (pd_Config p)" and "cc_Network (pd_Config p) \<in> {''udp'', ''tcp''}"
    and "cc_KeyDirection (pd_Config p) \<in> {0, 1}" and "tc_MinVersion (pd_TLS p) \<in> {VersionTLS12, VersionTLS13}"
    and "tc_InsecureSkipVerify (pd_TLS p) \<longleftrightarrow> tc_ServerName (pd_TLS p) = ''''"
    and "tc_InsecureSkipVerify (pd_TLS p) \<Longrightarrow> op_allowNoServerIdentity opts \<and> tc_VerifyConnection (pd_TLS p)"
    and "op_sni opts \<noteq> '''' \<Longrightarrow> tc_ServerName (pd_TLS p) = op_sni opts"
    and "\<exists>r \<in> set (pd_Remotes p). cc_RemoteAddr (pd_Config p) = Remote_Addr r \<and>
      (op_port opts \<noteq> '''' \<and> (\<exists>r' \<in> set (pd_Remotes p). rm_Port r' = op_port opts) \<longrightarrow> rm_Port r = op_port opts)"
proof -
  define o1 where "o1 = (profile_options opts)\<lparr>po_BaseDir := Dir path\<rparr>"
  from assms obtain t readError p' where "Parse env t readError (Some o1) = Inr (p', opt')" and p: "p = p'\<lparr>pd_SourcePath := path\<rparr>"
    by (auto simp: ParseFile_def rbind_eq_Inr o1_def profile_options_def split: option.splits)
  moreover have "po_BaseDir o1 \<noteq> ''''" by (simp add: o1_def Dir_def)
  ultimately obtain s s' where fin: "finalize env s = Inr (p', s')" and inv: "profile_inv o1 s" by (auto elim: Parse_Inr)
  define s1 where "s1 = (if ps_proto s = '''' then s\<lparr>ps_proto := ''udp''\<rparr> else s)"
  note d = finalize_dialable [OF fin inv] and f = finalize_Inr [OF fin s1_def] and tl = tls_part_Inr [OF finalize_Inr(3) [OF fin s1_def]]
  have o: "po_ServerNameOverride o1 = op_sni opts" "po_AllowNoServerIdentity o1 = op_allowNoServerIdentity opts"
    "po_PickRemote o1 = Some (pick_port (op_port opts))" by (simp_all add: o1_def profile_options_def)
  have i1: "profile_inv o1 s1" using inv by (auto simp: s1_def profile_inv_def)
  show "validateScramble (cc_Scramble (pd_Config p)) = None" "validateControlChannel (pd_Config p) = None" "cc_TLSConfig (pd_Config p)"
    "\<not> cc_DialTransport (pd_Config p)" "cc_Network (pd_Config p) \<in> {''udp'', ''tcp''}" "cc_KeyDirection (pd_Config p) \<in> {0, 1}"
    "tc_MinVersion (pd_TLS p) \<in> {VersionTLS12, VersionTLS13}"
    using d(1,2,4,6,7) f(7,8) by (simp_all add: p)
  show "tc_InsecureSkipVerify (pd_TLS p) \<longleftrightarrow> tc_ServerName (pd_TLS p) = ''''" using tl(2,6) by (simp add: p)
  show "tc_InsecureSkipVerify (pd_TLS p) \<Longrightarrow> op_allowNoServerIdentity opts \<and> tc_VerifyConnection (pd_TLS p)"
    using tl(2,6) d(9) o(2) by (simp add: p)
  show "op_sni opts \<noteq> '''' \<Longrightarrow> tc_ServerName (pd_TLS p) = op_sni opts"
    using tl(2) i1 o(1) by (simp add: p chosen_name_def profile_inv_def)
  have rem: "pd_Remotes p = ps_remotes s1" using f(10) tl(1) by (simp add: p)
  moreover have "pickRemote env s1 = pick_port (op_port opts) (ps_remotes s1)" using i1 o(3) by (simp add: pickRemote_def profile_inv_def)
  moreover have "ps_remotes s1 \<noteq> []" using f(1) by (simp add: s1_def)
  ultimately show "\<exists>r \<in> set (pd_Remotes p). cc_RemoteAddr (pd_Config p) = Remote_Addr r \<and>
      (op_port opts \<noteq> '''' \<and> (\<exists>r' \<in> set (pd_Remotes p). rm_Port r' = op_port opts) \<longrightarrow> rm_Port r = op_port opts)"
    using f(6) pick_port_mem pick_port_port by (auto simp: p intro!: bexI [of _ "pick_port (op_port opts) (ps_remotes s1)"])
qed

lemma override_Inr:
  assumes "override_config env opts cfg = Inr cfg'"
  shows "cc_Scramble cfg' = cc_Scramble cfg \<and> cc_TLSConfig cfg' = cc_TLSConfig cfg \<and> cc_DialTransport cfg' = cc_DialTransport cfg \<and>
    cc_RemoteAddr cfg' = cc_RemoteAddr cfg \<and> cc_Network cfg' = cc_Network cfg \<and> cc_Username cfg' = cc_Username cfg \<and> cc_Password cfg' = cc_Password cfg \<and>
    cc_Ciphers cfg' = (if op_ciphers opts = '''' then cc_Ciphers cfg else Split CHR '':'' (op_ciphers opts)) \<and>
    (if op_tlsAuthFile opts = '''' then cc_TLSAuth cfg' = cc_TLSAuth cfg \<and> cc_TLSCryptV1 cfg' = cc_TLSCryptV1 cfg \<and> cc_TLSCryptV2 cfg' = cc_TLSCryptV2 cfg
     else pe_readFile env (op_tlsAuthFile opts) = Some (cc_TLSAuth cfg') \<and> cc_TLSCryptV1 cfg' = [] \<and> cc_TLSCryptV2 cfg' = [] \<and>
       (cc_KeyDirection cfg \<in> {0, 1} \<longrightarrow> cc_KeyDirection cfg' = 1))"
  using assms by (auto simp: override_config_def Let_def split: if_splits option.splits)

lemma flag_tls_Inr:
  assumes "flag_tls env opts = Inr tls"
  shows "tc_MinVersion tls = VersionTLS12" "tc_ServerName tls = op_sni opts" "\<not> tc_InsecureSkipVerify tls"
  using assms by (auto simp: flag_tls_def Let_def rbind_eq_Inr split: if_splits option.splits)


text \<open>The key of the control channel that the flags name.\<close>

definition flag_key_file :: "cliOpts \<Rightarrow> string" where
  "flag_key_file opts = hd (filter (\<lambda>f. f \<noteq> '''') [op_tlsCryptFile opts, op_tlsCryptV2File opts, op_tlsAuthFile opts])"

lemma flags_loaded:
  assumes "loadFromFlags env opts = Inr (cfg, tls)"
  shows "flag_tls env opts = Inr tls" and "op_server opts \<noteq> ''''" and "cc_RemoteAddr cfg = op_server opts" and "cc_Network cfg = op_network opts"
    and "cc_Scramble cfg = None" and "cc_TLSConfig cfg" and "\<not> cc_DialTransport cfg"
    and "cc_Ciphers cfg = (if op_ciphers opts = '''' then [] else Split CHR '':'' (op_ciphers opts))"
    and "\<exists>key. pe_readFile env (flag_key_file opts) = Some key \<and> cc_TLSCryptV1 cfg @ cc_TLSCryptV2 cfg @ cc_TLSAuth cfg = key \<and>
      validateControlChannel cfg = (if key = [] then Some ControlKeyRequired else None)"
    and "op_tlsAuthFile opts \<noteq> '''' \<Longrightarrow> pe_readFile env (op_tlsAuthFile opts) = Some (cc_TLSAuth cfg) \<and>
      cc_TLSCryptV1 cfg = [] \<and> cc_TLSCryptV2 cfg = [] \<and> cc_KeyDirection cfg = 1"
  using assms
  by (auto simp: loadFromFlags_def flag_key_def flag_key_file_def flag_config_def rbind_eq_Inr validateControlChannel_def Let_def
      split: if_splits option.splits)



definition demo_files :: parse_env where
  "demo_files = demo_parse_env\<lparr>pe_readFile := (\<lambda>f. if f = ''k'' then Some [1, 2] else None)\<rparr>"

definition demo_opts :: cliOpts where
  "demo_opts = (flag_defaults (\<lambda>_. ''''))\<lparr>op_server := ''vpn:1194'', op_tlsAuthFile := ''k'', op_sni := ''vpn''\<rparr>"


text \<open>
  Without \<^verbatim>\<open>-sni\<close> the flags alone give a configuration that neither names the server nor waives the check of its
  name: \<^verbatim>\<open>crypto/tls\<close> refuses to start a handshake with it.
\<close>

lemma flags_without_sni:
  assumes "loadFromFlags env opts = Inr (cfg, tls)" and "op_sni opts = ''''"
  shows "tc_ServerName tls = '''' \<and> \<not> tc_InsecureSkipVerify tls"
  using flag_tls_Inr [OF flags_loaded(1) [OF assms(1)]] assms(2) by simp

section \<open>Command-line addresses\<close>

lemma cut_last_Some: "cut_last c s = Some (a, b) \<Longrightarrow> s = a @ c # b"
  using Cut_rejoin [where c = c and s = "rev s"]
  by (auto simp: cut_last_def split: prod.splits if_splits) (metis rev_append rev_rev_ident rev.simps(2) append.assoc append_Cons append_Nil)

lemma parseIPv6_Inr: "parseIPv6 s = Inr a \<Longrightarrow> \<exists>b zone. a = Addr6 b zone"
  by (auto simp: parseIPv6_def v6_finish_def Let_def rbind_eq_Inr split: prod.splits if_splits option.splits)

lemma addr_kind_before_colon: "addr_kind (ip @ CHR '':'' # port) = Some CHR '':'' \<Longrightarrow> addr_kind ip = None \<or> addr_kind ip = Some CHR '':''"
  by (induction ip) (auto split: if_splits)

lemma no_leading_bracket: "ParseAddr (CHR ''['' # s) = Inr a \<Longrightarrow> False"
  by (auto simp: ParseAddr_def parseIPv6_def Let_def v6_loop.simps hex_digit_def map_sum_eq_Inr parseIPv4Fields_def char_digit_def
      split: prod.splits if_splits option.splits sum.splits)


lemma v4_chars: "v4_loop prev s val n fs = Inr r \<Longrightarrow> CHR '':'' \<notin> set s"
proof (induction prev s val n fs rule: v4_loop.induct)
  case (2 prev c cs val digLen fields)
  then show ?case by (auto simp: char_digit_def Let_def split: if_splits option.splits)
qed simp

text \<open>The text of an address alone is not taken for an address with a port.\<close>

lemma ParseAddrPort_no_port:
  assumes "ParseAddr s = Inr a"
  shows "\<exists>e. ParseAddrPort s = Inl e"
proof (cases "cut_last CHR '':'' s")
  case (Some r)
  obtain ip port where r: "r = (ip, port)" by (cases r)
  then have s: "s = ip @ CHR '':'' # port" using cut_last_Some Some by blast
  have bracket: "ip ! 0 \<noteq> CHR ''[''" if "ip \<noteq> []" using that s assms no_leading_bracket by (cases ip) auto
  have kind: "addr_kind s = Some CHR '':''"
  proof (rule ccontr)
    assume "addr_kind s \<noteq> Some CHR '':''"
    then obtain f where "parseIPv4Fields s = Inr f" using assms by (auto simp: ParseAddr_def map_sum_eq_Inr split: option.splits if_splits)
    then show False using v4_chars [of None s 0 0 "[]" f] s by (auto simp: parseIPv4Fields_def)
  qed
  have "ParseAddr ip = Inr x \<Longrightarrow> \<exists>b zone. x = Addr6 b zone" for x
    using addr_kind_before_colon [OF kind [unfolded s]] parseIPv6_Inr by (auto simp: ParseAddr_def)
  then show ?thesis using Some r bracket by (fastforce simp: ParseAddrPort_def Let_def split: option.splits sum.splits)
qed (simp add: ParseAddrPort_def)

text \<open>
  Both ways to write a DNS server are read back, the port being 53 when it is left out, and a listening address is loopback
  exactly when its address is.
\<close>

lemma parseDNSFlag_text:
  assumes "addr_wf a" and "Addr_IsValid a"
  shows "parseDNSFlag (Addr_String a) = Inr (a, 53)"
    and "parseDNSFlag (JoinHostPort (Addr_String a) (nat_decimal (unat (port :: u16)))) = Inr (a, port)"
proof -
  note p = ParseAddr_String [OF assms]
  then show "parseDNSFlag (Addr_String a) = Inr (a, 53)" using ParseAddrPort_no_port [OF p] by (auto simp: parseDNSFlag_def)
  show "parseDNSFlag (JoinHostPort (Addr_String a) (nat_decimal (unat port))) = Inr (a, port)"
    using ParseAddrPort_JoinHostPort [OF assms] by (simp add: parseDNSFlag_def)
qed

lemma isLoopbackListen_text:
  assumes "addr_wf a" and "Addr_IsValid a"
  shows "isLoopbackListen (JoinHostPort (Addr_String a) (nat_decimal (unat (port :: u16)))) = IsLoopback a"
  using ParseAddrPort_JoinHostPort [OF assms] by (simp add: isLoopbackListen_def)

section \<open>Runs of the daemon\<close>

lemma dns_override_Inr:
  assumes "dns_override env opts = Inr ov"
  shows "if op_dns opts = '''' then ov = (NoAddr, 0)
    else parseDNSFlag (op_dns opts) = Inr ov \<and> (Addr_Is4 (fst ov) \<longrightarrow> re_v4 env) \<and> (Addr_Is6 (fst ov) \<longrightarrow> re_v6 env)"
  using assms by (auto simp: dns_override_def split: if_splits sum.splits)

text \<open>
  A run closes what it has opened, the stack before the client, on every path; it serves only with a
  client dialled from a loaded configuration, with reconnects on and the stall limit set, a resolver whose override the tunnel
  can reach, and credentials exactly if they were asked for; it warns about an open listener exactly then; and it
  exits with success only after serving, when the client has not given up.
\<close>

lemma daemon_run_outcome:
  assumes "daemon_run env opts = (err, served, shut)"
  shows "shut \<in> {[], [TheClient], [TheStack, TheClient]}"
    and "TheClient \<in> set shut \<longleftrightarrow> (\<exists>cfg tls cli. loadConfig (re_parse env) opts = Inr (cfg, tls) \<and>
      Client_Dial (re_session env) (re_now env) (Some (daemon_config cfg)) = Inr cli)"
    and "TheStack \<in> set shut \<longleftrightarrow> TheClient \<in> set shut \<and> re_stack env"
    and "served = Some rn \<Longrightarrow> TheStack \<in> set shut \<and>
      (\<exists>cfg tls cli. loadConfig (re_parse env) opts = Inr (cfg, tls) \<and>
         Client_Dial (re_session env) (re_now env) (Some (daemon_config cfg)) = Inr cli \<and> rn_client rn = snd (OnReconnect cli) \<and>
         (if op_dns opts = '''' then rv_override (px_resolver (rn_proxy rn)) = (NoAddr, 0)
          else parseDNSFlag (op_dns opts) = Inr (rv_override (px_resolver (rn_proxy rn))) \<and>
            (Addr_Is4 (fst (rv_override (px_resolver (rn_proxy rn)))) \<longrightarrow> re_v4 env) \<and>
            (Addr_Is6 (fst (rv_override (px_resolver (rn_proxy rn)))) \<longrightarrow> re_v6 env))) \<and>
      (sv_authUser (rn_server rn) = '''' \<longleftrightarrow> op_socksAuth opts = '''') \<and>
      (rn_warned rn \<longleftrightarrow> sv_authUser (rn_server rn) = '''' \<and> \<not> isLoopbackListen (op_listen opts))"
    and "exit_code err = 0 \<longleftrightarrow> served \<noteq> None \<and> re_served env \<and> \<not> re_surrendered env"
proof -
  show "shut \<in> {[], [TheClient], [TheStack, TheClient]}"
    "TheStack \<in> set shut \<longleftrightarrow> TheClient \<in> set shut \<and> re_stack env"
    "exit_code err = 0 \<longleftrightarrow> served \<noteq> None \<and> re_served env \<and> \<not> re_surrendered env"
    "TheClient \<in> set shut \<longleftrightarrow> (\<exists>cfg tls cli. loadConfig (re_parse env) opts = Inr (cfg, tls) \<and>
      Client_Dial (re_session env) (re_now env) (Some (daemon_config cfg)) = Inr cli)"
    using assms by (auto simp: daemon_run_def exit_code_def Let_def split: sum.splits if_splits prod.splits)
  assume rn: "served = Some rn"
  have auth: "sv_authUser srv = '''' \<longleftrightarrow> spec = ''''" if "newSOCKS5 l spec = Inr srv" for l spec srv
    using that by (auto simp: newSOCKS5_def Let_def split: if_splits prod.splits)
  from rn assms show "TheStack \<in> set shut \<and>
      (\<exists>cfg tls cli. loadConfig (re_parse env) opts = Inr (cfg, tls) \<and>
         Client_Dial (re_session env) (re_now env) (Some (daemon_config cfg)) = Inr cli \<and> rn_client rn = snd (OnReconnect cli) \<and>
         (if op_dns opts = '''' then rv_override (px_resolver (rn_proxy rn)) = (NoAddr, 0)
          else parseDNSFlag (op_dns opts) = Inr (rv_override (px_resolver (rn_proxy rn))) \<and>
            (Addr_Is4 (fst (rv_override (px_resolver (rn_proxy rn)))) \<longrightarrow> re_v4 env) \<and>
            (Addr_Is6 (fst (rv_override (px_resolver (rn_proxy rn)))) \<longrightarrow> re_v6 env))) \<and>
      (sv_authUser (rn_server rn) = '''' \<longleftrightarrow> op_socksAuth opts = '''') \<and>
      (rn_warned rn \<longleftrightarrow> sv_authUser (rn_server rn) = '''' \<and> \<not> isLoopbackListen (op_listen opts))"
    by (auto simp: daemon_run_def Let_def newResolver_def auth dest!: dns_override_Inr split: sum.splits if_splits prod.splits)
qed

text \<open>
  After a reconnect whose hooks are dispatched, the stack is told the options of the new session, and the
  burst limiter starts anew: a target gets its full burst again.
\<close>

lemma reconfigured_current:
  assumes "client_reach c" and "\<not> cl_closed c" and "cl_s c = Some r" and "hook \<in> set (cl_onReconnect c)" and "distinct (cl_onReconnect c)"
  shows "reconfigured hook (fireHooksFor r c) = reconfigured hook c @ [clientTunnel_Config c]"
proof -
  have "filter (\<lambda>(h, _). h = hook) (map (\<lambda>h. (h, pr)) hs) = [(hook, pr)]" if "hook \<in> set hs" "distinct hs" for hs and pr :: PublicPushReply
    using that by (induction hs) (auto simp: filter_empty_conv)
  from this [OF assms(4,5)] show ?thesis
    using hooks_in_order [OF assms(1), of r] assms(2,3) by (simp add: reconfigured_def clientTunnel_Config_def)
qed

lemma reset_gives_burst: "fst (allow now target (px_connRate (rn_proxy (reset_hook now rn))))"
  by (simp add: reset_hook_def Limiter_Reset_def allow_def Time_Sub_def connRateGCEvery_def connRateBurst_def)

text \<open>The MTU is cut to 32 bits, and one that is not positive is none.\<close>

lemma tun_MTU:
  "tn_MTU (pushReplyToTunConfig pr) = (if pp_MTU pr \<le> 0 then 0 else of_int (pp_MTU pr))"
  "0 < pp_MTU pr \<Longrightarrow> pp_MTU pr < 2 ^ 32 \<Longrightarrow> uint (tn_MTU (pushReplyToTunConfig pr)) = pp_MTU pr"
  by (simp_all add: pushReplyToTunConfig_def uint_word_of_int)

end
