(* ===== verification/Sockets.thy ===== *)
theory Sockets
  imports Transport "HOL-Library.Sublist"
begin

text \<open>
  Packet transports over a datagram socket (\<^verbatim>\<open>internal/transport/udp.go\<close>, \<^verbatim>\<open>datagram.go\<close>): reading with the shared
  buffer, deadlines, the goroutines that turn the end of a context into an expired deadline, the bound
  lifetime context, and closing. Sending with its retries is in Transport.

  A context is known by a number. A read is cut in two: what \<^verbatim>\<open>ReadPacket\<close> does before it blocks, and the return of
  the socket's read with the deferred calls; in between anything else may happen.
\<close>

section \<open>Sockets, contexts, watchers\<close>

record socket =
  sk_inbox :: "bytes list"
  sk_readBy :: "int option"
  sk_writeBy :: "int option"
  sk_open :: bool

record call_ctx =
  cx_id :: nat
  cx_deadline :: "int option"
  cx_cancellable :: bool

text \<open>
  A watcher goroutine waits for its context or its stop channel; when both have come it may see either.
\<close>

record watcher =
  wt_ctx :: nat
  wt_stopped :: bool
  wt_lifetime :: bool

text \<open>
  The connection of \<^verbatim>\<open>udp.go\<close>, with \<open>dc_lifetimes\<close> set, or of \<^verbatim>\<open>datagram.go\<close>, which has no lifetime context. \<open>dc_got\<close> and \<open>dc_arrived\<close>
  record the packets read and the datagrams that came.
\<close>

record packet_sock =
  dc_lifetimes :: bool
  dc_sock :: socket
  dc_closed :: bool
  dc_rbuf :: "bytes option"
  dc_lifetimeCtx :: "nat option"
  dc_watchers :: "watcher list"
  dc_reading :: "call_ctx option"
  dc_got :: "bytes list"
  dc_arrived :: "bytes list"
  dc_cancelled :: "nat set"

definition maxUDPPacket :: nat where "maxUDPPacket = 65535"

definition new_packet_sock :: "bool \<Rightarrow> packet_sock" where
  "new_packet_sock lifetimes =
     \<lparr>dc_lifetimes = lifetimes, dc_sock = \<lparr>sk_inbox = [], sk_readBy = None, sk_writeBy = None, sk_open = True\<rparr>, dc_closed = False,
      dc_rbuf = None, dc_lifetimeCtx = None, dc_watchers = [], dc_reading = None, dc_got = [], dc_arrived = [], dc_cancelled = {}\<rparr>"

definition NewUDP :: packet_sock where "NewUDP = new_packet_sock True"
definition NewDatagram :: packet_sock where "NewDatagram = new_packet_sock False"

definition isLifetimeCtx :: "call_ctx \<Rightarrow> packet_sock \<Rightarrow> bool" where
  "isLifetimeCtx cx u = (dc_lifetimeCtx u = Some (cx_id cx))"

definition watchContext :: "call_ctx \<Rightarrow> packet_sock \<Rightarrow> packet_sock" where
  "watchContext cx u =
     (if \<not> cx_cancellable cx then u
      else u\<lparr>dc_watchers := dc_watchers u @ [\<lparr>wt_ctx = cx_id cx, wt_stopped = False, wt_lifetime = False\<rparr>]\<rparr>)"

definition stop_watchers :: "(watcher \<Rightarrow> bool) \<Rightarrow> packet_sock \<Rightarrow> packet_sock" where
  "stop_watchers which u = u\<lparr>dc_watchers := map (\<lambda>w. if which w then w\<lparr>wt_stopped := True\<rparr> else w) (dc_watchers u)\<rparr>"

definition ReadPacket_enter :: "call_ctx \<Rightarrow> packet_sock \<Rightarrow> packet_sock" where
  "ReadPacket_enter cx u =
     (let u = (case cx_deadline cx of
                 Some d \<Rightarrow> u\<lparr>dc_sock := (dc_sock u)\<lparr>sk_readBy := Some d\<rparr>\<rparr>
               | None \<Rightarrow> u);
          u = (if dc_lifetimes u \<and> isLifetimeCtx cx u then u else watchContext cx u)
      in u\<lparr>dc_rbuf := (case dc_rbuf u of None \<Rightarrow> Some (replicate maxUDPPacket 0) | Some b \<Rightarrow> Some b), dc_reading := Some cx\<rparr>)"

text \<open>The deferred calls: the deadline is taken back if the call had set one; its watcher is stopped.\<close>

definition ReadPacket_leave :: "call_ctx \<Rightarrow> packet_sock \<Rightarrow> packet_sock" where
  "ReadPacket_leave cx u =
     (let u = stop_watchers (\<lambda>w. wt_ctx w = cx_id cx \<and> \<not> wt_lifetime w) u;
          u = (case cx_deadline cx of Some _ \<Rightarrow> u\<lparr>dc_sock := (dc_sock u)\<lparr>sk_readBy := None\<rparr>\<rparr> | None \<Rightarrow> u)
      in u\<lparr>dc_reading := None\<rparr>)"

definition expired :: "int \<Rightarrow> int option \<Rightarrow> bool" where
  "expired now dl = (case dl of None \<Rightarrow> False | Some t \<Rightarrow> t \<le> now)"

text \<open>The socket's read into the shared buffer; \<^const>\<open>None\<close> while it blocks.\<close>

definition socket_read :: "int \<Rightarrow> packet_sock \<Rightarrow> ((transport_error, nat) result \<times> packet_sock) option" where
  "socket_read now u =
     (if \<not> sk_open (dc_sock u) \<or> expired now (sk_readBy (dc_sock u)) then Some (Inl SocketError, u)
      else case sk_inbox (dc_sock u) of
        [] \<Rightarrow> None
      | p # ps \<Rightarrow>
          let n = min (length p) maxUDPPacket
          in Some (Inr n, u\<lparr>dc_sock := (dc_sock u)\<lparr>sk_inbox := ps\<rparr>, dc_rbuf := map_option (copy_at 0 (take n p)) (dc_rbuf u)\<rparr>))"

definition ReadPacket_return :: "int \<Rightarrow> call_ctx \<Rightarrow> packet_sock \<Rightarrow> ((transport_error, bytes) result \<times> packet_sock) option" where
  "ReadPacket_return now cx u =
     (case socket_read now u of
        None \<Rightarrow> None
      | Some (Inl e, u) \<Rightarrow> Some (Inl (if dc_closed u then TransportClosed else e), ReadPacket_leave cx u)
      | Some (Inr n, u) \<Rightarrow>
          let p = take n (the (dc_rbuf u))
          in Some (Inr p, (ReadPacket_leave cx u)\<lparr>dc_got := dc_got u @ [p]\<rparr>))"

text \<open>\<^verbatim>\<open>datagramConn.WritePacket\<close>: one write, with the outcome of the socket.\<close>

definition datagram_WritePacket :: "int \<Rightarrow> bool \<Rightarrow> bool \<Rightarrow> call_ctx \<Rightarrow> packet_sock \<Rightarrow> transport_error option \<times> packet_sock" where
  "datagram_WritePacket now taken closedMeanwhile cx u =
     (if dc_closed u then (Some TransportClosed, u)
      else
        let u = (case cx_deadline cx of Some d \<Rightarrow> u\<lparr>dc_sock := (dc_sock u)\<lparr>sk_writeBy := Some d\<rparr>\<rparr> | None \<Rightarrow> u);
            err = (\<not> sk_open (dc_sock u) \<or> expired now (sk_writeBy (dc_sock u)) \<or> \<not> taken);
            u = (case cx_deadline cx of Some d \<Rightarrow> u\<lparr>dc_sock := (dc_sock u)\<lparr>sk_writeBy := None\<rparr>\<rparr> | None \<Rightarrow> u)
        in (if err then if closedMeanwhile then Some TransportClosed else Some SocketError else None, u))"

definition BindLifetimeCtx :: "call_ctx \<Rightarrow> packet_sock \<Rightarrow> packet_sock" where
  "BindLifetimeCtx cx u =
     (if \<not> cx_cancellable cx then u
      else
        let u = stop_watchers wt_lifetime u
        in u\<lparr>dc_lifetimeCtx := Some (cx_id cx),
             dc_watchers := dc_watchers u @ [\<lparr>wt_ctx = cx_id cx, wt_stopped = False, wt_lifetime = True\<rparr>]\<rparr>)"

definition packet_Close :: "packet_sock \<Rightarrow> packet_sock" where
  "packet_Close u =
     (if dc_closed u then u
      else (stop_watchers wt_lifetime (u\<lparr>dc_closed := True\<rparr>))\<lparr>dc_sock := (dc_sock u)\<lparr>sk_open := False\<rparr>\<rparr>)"

text \<open>\<^verbatim>\<open>SetDeadline(time.Unix(1, 0))\<close> of a watcher, in nanoseconds.\<close>

definition watcher_fires :: "watcher \<Rightarrow> packet_sock \<Rightarrow> packet_sock" where
  "watcher_fires w u =
     u\<lparr>dc_sock := (dc_sock u)\<lparr>sk_readBy := Some 1000000000, sk_writeBy := Some 1000000000\<rparr>, dc_watchers := remove1 w (dc_watchers u)\<rparr>"

inductive sock_step :: "packet_sock \<Rightarrow> packet_sock \<Rightarrow> bool" where
  arrives: "sock_step u (u\<lparr>dc_sock := (dc_sock u)\<lparr>sk_inbox := sk_inbox (dc_sock u) @ [p]\<rparr>, dc_arrived := dc_arrived u @ [p]\<rparr>)"
| enter: "dc_reading u = None \<Longrightarrow> sock_step u (ReadPacket_enter cx u)"
| return: "dc_reading u = Some cx \<Longrightarrow> ReadPacket_return now cx u = Some (res, u') \<Longrightarrow> sock_step u u'"
| bind: "dc_lifetimes u \<Longrightarrow> sock_step u (BindLifetimeCtx cx u)"
| cancel: "sock_step u (u\<lparr>dc_cancelled := insert i (dc_cancelled u)\<rparr>)"
| fires: "w \<in> set (dc_watchers u) \<Longrightarrow> wt_ctx w \<in> dc_cancelled u \<Longrightarrow> sock_step u (watcher_fires w u)"
| stops: "w \<in> set (dc_watchers u) \<Longrightarrow> wt_stopped w \<Longrightarrow> sock_step u (u\<lparr>dc_watchers := remove1 w (dc_watchers u)\<rparr>)"
| close: "sock_step u (packet_Close u)"


section \<open>What a reader gets\<close>

definition sock_inv :: "packet_sock \<Rightarrow> bool" where
  "sock_inv u \<longleftrightarrow> dc_got u @ map (take maxUDPPacket) (sk_inbox (dc_sock u)) = map (take maxUDPPacket) (dc_arrived u) \<and>
     (\<forall>b. dc_rbuf u = Some b \<longrightarrow> length b = maxUDPPacket) \<and> (dc_reading u \<noteq> None \<longrightarrow> dc_rbuf u \<noteq> None) \<and>
     (sk_open (dc_sock u) \<longleftrightarrow> \<not> dc_closed u) \<and>
     (dc_cancelled u = {} \<longrightarrow> sk_readBy (dc_sock u) = Option.bind (dc_reading u) cx_deadline)"

lemma stop_watchers_simps [simp]:
  "dc_sock (stop_watchers P u) = dc_sock u" "dc_closed (stop_watchers P u) = dc_closed u" "dc_rbuf (stop_watchers P u) = dc_rbuf u"
  "dc_reading (stop_watchers P u) = dc_reading u" "dc_got (stop_watchers P u) = dc_got u" "dc_arrived (stop_watchers P u) = dc_arrived u"
  "dc_cancelled (stop_watchers P u) = dc_cancelled u"
  by (simp_all add: stop_watchers_def)

lemma leave_simps [simp]:
  "dc_closed (ReadPacket_leave cx u) = dc_closed u" "dc_rbuf (ReadPacket_leave cx u) = dc_rbuf u" "dc_reading (ReadPacket_leave cx u) = None"
  "dc_got (ReadPacket_leave cx u) = dc_got u" "dc_arrived (ReadPacket_leave cx u) = dc_arrived u" "dc_cancelled (ReadPacket_leave cx u) = dc_cancelled u"
  "sk_inbox (dc_sock (ReadPacket_leave cx u)) = sk_inbox (dc_sock u)" "sk_open (dc_sock (ReadPacket_leave cx u)) = sk_open (dc_sock u)"
  "sk_readBy (dc_sock (ReadPacket_leave cx u)) = (if cx_deadline cx = None then sk_readBy (dc_sock u) else None)"
  by (simp_all add: ReadPacket_leave_def Let_def split: option.split)

lemma enter_simps [simp]:
  "dc_closed (ReadPacket_enter cx u) = dc_closed u" "dc_reading (ReadPacket_enter cx u) = Some cx"
  "dc_got (ReadPacket_enter cx u) = dc_got u" "dc_arrived (ReadPacket_enter cx u) = dc_arrived u" "dc_cancelled (ReadPacket_enter cx u) = dc_cancelled u"
  "dc_rbuf (ReadPacket_enter cx u) = (case dc_rbuf u of None \<Rightarrow> Some (replicate maxUDPPacket 0) | Some b \<Rightarrow> Some b)"
  "sk_inbox (dc_sock (ReadPacket_enter cx u)) = sk_inbox (dc_sock u)" "sk_open (dc_sock (ReadPacket_enter cx u)) = sk_open (dc_sock u)"
  "sk_readBy (dc_sock (ReadPacket_enter cx u)) = (case cx_deadline cx of None \<Rightarrow> sk_readBy (dc_sock u) | Some d \<Rightarrow> Some d)"
  by (simp_all add: ReadPacket_enter_def watchContext_def Let_def split: option.split)

lemma return_cases:
  assumes "ReadPacket_return now cx u = Some (res, u')" and "sock_inv u" and "dc_reading u = Some cx"
  shows "(\<exists>p ps. sk_inbox (dc_sock u) = p # ps \<and> \<not> dc_closed u \<and> \<not> expired now (sk_readBy (dc_sock u)) \<and> res = Inr (take maxUDPPacket p) \<and>
      u' = (ReadPacket_leave cx (u\<lparr>dc_sock := (dc_sock u)\<lparr>sk_inbox := ps\<rparr>, dc_rbuf := map_option (copy_at 0 (take maxUDPPacket p)) (dc_rbuf u)\<rparr>))
        \<lparr>dc_got := dc_got u @ [take maxUDPPacket p]\<rparr>) \<or>
    ((dc_closed u \<or> expired now (sk_readBy (dc_sock u))) \<and> res = Inl (if dc_closed u then TransportClosed else SocketError) \<and> u' = ReadPacket_leave cx u)"
proof (cases "dc_closed u \<or> expired now (sk_readBy (dc_sock u))")
  case True
  then show ?thesis using assms by (auto simp: ReadPacket_return_def socket_read_def sock_inv_def)
next
  case False
  obtain b where b: "dc_rbuf u = Some b" "length b = maxUDPPacket" using assms(2,3) by (auto simp: sock_inv_def)
  obtain p ps where i: "sk_inbox (dc_sock u) = p # ps"
    using assms False by (cases "sk_inbox (dc_sock u)") (auto simp: ReadPacket_return_def socket_read_def sock_inv_def)
  have t: "take (min (length p) maxUDPPacket) p = take maxUDPPacket p" by (cases "length p \<le> maxUDPPacket") simp_all
  have c: "take (min (length p) maxUDPPacket) (copy_at 0 (take maxUDPPacket p) b) = take maxUDPPacket p" by (simp add: copy_at_def t)
  from assms False i b t c show ?thesis by (auto simp: ReadPacket_return_def socket_read_def sock_inv_def Let_def)
qed

lemma sock_step_inv: "sock_step u u' \<Longrightarrow> sock_inv u \<Longrightarrow> sock_inv u'"
proof (induction rule: sock_step.induct)
  case (enter u cx)
  then show ?case by (simp add: sock_inv_def split: option.split)
next
  case (return u cx now res u')
  show ?case using return_cases [OF return(2,3,1)] return(1,3)
    by (elim disjE exE conjE) (auto simp: sock_inv_def)
next
  case (bind u cx)
  then show ?case by (simp add: sock_inv_def BindLifetimeCtx_def Let_def)
next
  case (fires w u)
  then show ?case by (auto simp: sock_inv_def watcher_fires_def)
next
  case (close u)
  then show ?case by (simp add: sock_inv_def packet_Close_def)
qed (auto simp: sock_inv_def)

lemma sock_reachable: "sock_step\<^sup>*\<^sup>* (new_packet_sock lifetimes) u \<Longrightarrow> sock_inv u"
proof (induction rule: rtranclp_induct)
  case base
  show ?case by (simp add: new_packet_sock_def sock_inv_def)
qed (rule sock_step_inv)

text \<open>
  Whatever contexts end, watchers fire and deadlines pass: the packets read are the datagrams that came, in order, none lost,
  repeated or mixed with the buffer's old content, each cut to the size of the buffer. A closed connection tells its
  reader so. And as long as no context has ended, a read with time left returns the datagram that waits.
\<close>

lemma packets_in_order:
  assumes "sock_step\<^sup>*\<^sup>* (new_packet_sock lifetimes) u"
  shows "prefix (dc_got u) (map (take 65535) (dc_arrived u))"
    and "dc_reading u = Some cx \<Longrightarrow> dc_closed u \<Longrightarrow> ReadPacket_return now cx u = Some (Inl TransportClosed, ReadPacket_leave cx u)"
    and "dc_reading u = Some cx \<Longrightarrow> \<not> dc_closed u \<Longrightarrow> dc_cancelled u = {} \<Longrightarrow> \<not> expired now (cx_deadline cx) \<Longrightarrow>
      sk_inbox (dc_sock u) = p # ps \<Longrightarrow> \<exists>u'. ReadPacket_return now cx u = Some (Inr (take 65535 p), u')"
proof -
  note inv = sock_reachable [OF assms]
  show "prefix (dc_got u) (map (take 65535) (dc_arrived u))" using inv by (auto simp: sock_inv_def maxUDPPacket_def intro: prefixI [OF sym])
  show "ReadPacket_return now cx u = Some (Inl TransportClosed, ReadPacket_leave cx u)" if "dc_reading u = Some cx" "dc_closed u"
    using inv that by (simp add: ReadPacket_return_def socket_read_def sock_inv_def)
  show "\<exists>u'. ReadPacket_return now cx u = Some (Inr (take 65535 p), u')"
    if r: "dc_reading u = Some cx" "\<not> dc_closed u" "dc_cancelled u = {}" "\<not> expired now (cx_deadline cx)" "sk_inbox (dc_sock u) = p # ps"
  proof -
    have "sk_readBy (dc_sock u) = cx_deadline cx" using inv r by (simp add: sock_inv_def)
    then obtain res u' where ret: "ReadPacket_return now cx u = Some (res, u')"
      using inv r by (auto simp: ReadPacket_return_def socket_read_def sock_inv_def Let_def)
    from return_cases [OF ret inv r(1)] show ?thesis
      using ret r \<open>sk_readBy (dc_sock u) = cx_deadline cx\<close> by (auto simp: maxUDPPacket_def)
  qed
qed

lemma packet_Close_idempotent: "packet_Close (packet_Close u) = packet_Close u"
  by (simp add: packet_Close_def)

text \<open>
  The end of one call's context outlives the call: the expired deadline its watcher leaves makes the next
  read fail too, though its own context lives and a datagram waits.
\<close>

lemma ended_context_poisons:
  fixes cx1 cx2 :: call_ctx
  defines "cx1 \<equiv> \<lparr>cx_id = 1, cx_deadline = None, cx_cancellable = True\<rparr>" and "cx2 \<equiv> \<lparr>cx_id = 2, cx_deadline = None, cx_cancellable = True\<rparr>"
  shows "\<exists>u. sock_step\<^sup>*\<^sup>* (new_packet_sock True) u \<and> dc_cancelled u = {1} \<and> \<not> dc_closed u \<and> dc_reading u = Some cx2 \<and> sk_inbox (dc_sock u) = [[7]] \<and>
    (\<forall>now \<ge> 1000000000. fst (the (ReadPacket_return now cx2 u)) = Inl SocketError)"
proof -
  define w where "w = \<lparr>wt_ctx = 1, wt_stopped = False, wt_lifetime = False\<rparr>"
  define u1 where "u1 = ReadPacket_enter cx1 (new_packet_sock True)"
  define u2 where "u2 = u1\<lparr>dc_cancelled := insert 1 (dc_cancelled u1)\<rparr>"
  define u3 where "u3 = watcher_fires w u2"
  define u4 where "u4 = ReadPacket_leave cx1 u3"
  define u5 where "u5 = u4\<lparr>dc_sock := (dc_sock u4)\<lparr>sk_inbox := sk_inbox (dc_sock u4) @ [[7]]\<rparr>, dc_arrived := dc_arrived u4 @ [[7]]\<rparr>"
  define u6 where "u6 = ReadPacket_enter cx2 u5"
  have w: "w \<in> set (dc_watchers u2)"
    by (simp add: u2_def u1_def w_def cx1_def new_packet_sock_def ReadPacket_enter_def isLifetimeCtx_def watchContext_def)
  note s = new_packet_sock_def cx1_def cx2_def u1_def u2_def u3_def u4_def u5_def u6_def watcher_fires_def
  have "sock_step (new_packet_sock True) u1" unfolding u1_def by (rule sock_step.enter) (simp add: new_packet_sock_def)
  moreover have "sock_step u1 u2" unfolding u2_def by (rule sock_step.cancel)
  moreover have "sock_step u2 u3" unfolding u3_def by (rule sock_step.fires) (use w in \<open>simp_all add: w_def u2_def\<close>)
  moreover have "sock_step u3 u4"
  proof (rule sock_step.return)
    show "dc_reading u3 = Some cx1" by (simp add: u3_def u2_def u1_def watcher_fires_def)
    show "ReadPacket_return 1000000000 cx1 u3 = Some (Inl SocketError, u4)"
      by (simp add: ReadPacket_return_def socket_read_def u4_def u3_def u2_def u1_def watcher_fires_def expired_def new_packet_sock_def)
  qed
  moreover have "sock_step u4 u5" unfolding u5_def by (rule sock_step.arrives)
  moreover have "sock_step u5 u6" unfolding u6_def by (rule sock_step.enter) (simp add: u5_def u4_def)
  ultimately have "sock_step\<^sup>*\<^sup>* (new_packet_sock True) u6" by (meson converse_rtranclp_into_rtranclp rtranclp.rtrancl_refl)
  moreover have "fst (the (ReadPacket_return now cx2 u6)) = Inl SocketError" if "1000000000 \<le> now" for now
    using that by (simp add: ReadPacket_return_def socket_read_def s expired_def)
  ultimately show ?thesis by (intro exI [of _ u6]) (simp add: s)
qed

end
