(* ===== verification/MemoryTransport.thy ===== *)
theory MemoryTransport
  imports Transport "HOL-Library.Multiset"
begin

text \<open>
  The in-memory transport with fault injection (\<^verbatim>\<open>internal/transport/memory.go\<close>), the wire under the program's own tests. Without
  faults it keeps the contract of a packet transport, as TCP does; with reordering alone nothing is lost.

  Where a \<^verbatim>\<open>select\<close> has several cases ready, an argument says which it takes; a call that would wait
  for room or for a packet ends with its context.
\<close>

section \<open>Definitions\<close>

record memoryConn =
  mc_q :: "bytes list"
  mc_closed :: bool
  mc_pending :: "bytes option"

text \<open>The end that writes and its peer.\<close>

record memoryPair =
  mp_self :: memoryConn
  mp_peer :: memoryConn

definition newMemoryConn :: memoryConn where
  "newMemoryConn = \<lparr>mc_q = [], mc_closed = False, mc_pending = None\<rparr>"

definition MemoryPair :: memoryPair where
  "MemoryPair = \<lparr>mp_self = newMemoryConn, mp_peer = newMemoryConn\<rparr>"

text \<open>
  What the injected functions answer in one call: dropping, swapping (\<^const>\<open>None\<close> if there is no such function),
  and duplicating, once for each packet delivered.
\<close>

record faults =
  ft_drop :: bool
  ft_swap :: "bool option"
  ft_dup :: "nat \<Rightarrow> bool"

definition mem_deliver :: "bool \<Rightarrow> bytes \<Rightarrow> memoryPair \<Rightarrow> transport_error option \<times> memoryPair" where
  "mem_deliver closedFirst p m =
     (let full = (length (mc_q (mp_peer m)) \<ge> 256);
          gone = (mc_closed (mp_peer m) \<or> mc_closed (mp_self m))
      in if gone \<and> (closedFirst \<or> full) then (Some TransportClosed, m)
         else if full then (Some ContextDone, m)
         else (None, m\<lparr>mp_peer := (mp_peer m)\<lparr>mc_q := mc_q (mp_peer m) @ [p]\<rparr>\<rparr>))"

text \<open>The packets to send now; \<^const>\<open>None\<close> if this one is held back.\<close>

definition mem_reorder :: "bool option \<Rightarrow> bytes \<Rightarrow> memoryConn \<Rightarrow> bytes list option \<times> memoryConn" where
  "mem_reorder swap out m =
     (case swap of
        None \<Rightarrow> (Some [out], m)
      | Some yes \<Rightarrow>
          (case mc_pending m of
             None \<Rightarrow> if yes then (None, m\<lparr>mc_pending := Some out\<rparr>) else (Some [out], m)
           | Some held \<Rightarrow> (Some [out, held], m\<lparr>mc_pending := None\<rparr>)))"

fun mem_send :: "bool \<Rightarrow> (nat \<Rightarrow> bool) \<Rightarrow> nat \<Rightarrow> bytes list \<Rightarrow> memoryPair \<Rightarrow> transport_error option \<times> memoryPair" where
  "mem_send cf dup i [] m = (None, m)"
| "mem_send cf dup i (pkt # pkts) m =
     (case mem_deliver cf pkt m of
        (Some e, m) \<Rightarrow> (Some e, m)
      | (None, m) \<Rightarrow>
          if dup i then
            (case mem_deliver cf pkt m of (Some e, m) \<Rightarrow> (Some e, m) | (None, m) \<Rightarrow> mem_send cf dup (i + 1) pkts m)
          else mem_send cf dup (i + 1) pkts m)"

definition mem_WritePacket :: "faults \<Rightarrow> bool \<Rightarrow> memoryPair \<Rightarrow> bytes \<Rightarrow> transport_error option \<times> memoryPair" where
  "mem_WritePacket ft closedFirst m p =
     (if mc_closed (mp_self m) \<or> mc_closed (mp_peer m) then (Some TransportClosed, m)
      else if ft_drop ft then (None, m)
      else (case mem_reorder (ft_swap ft) p (mp_self m) of
        (None, self) \<Rightarrow> (None, m\<lparr>mp_self := self\<rparr>)
      | (Some toSend, self) \<Rightarrow> mem_send closedFirst (ft_dup ft) 0 toSend (m\<lparr>mp_self := self\<rparr>)))"

text \<open>Reading at the peer; \<open>ended\<close>: its context has ended and that case is taken.\<close>

definition mem_ReadPacket :: "bool \<Rightarrow> memoryPair \<Rightarrow> (transport_error, bytes) result \<times> memoryPair" where
  "mem_ReadPacket ended m =
     (if ended then (Inl ContextDone, m)
      else case mc_q (mp_peer m) of
        p # q \<Rightarrow> (Inr p, m\<lparr>mp_peer := (mp_peer m)\<lparr>mc_q := q\<rparr>\<rparr>)
      | [] \<Rightarrow> (Inl (if mc_closed (mp_peer m) then TransportClosed else ContextDone), m))"

text \<open>Closing the writing end; a packet held back is flushed if the peer has room.\<close>

definition mem_Close :: "memoryPair \<Rightarrow> memoryPair" where
  "mem_Close m =
     (if mc_closed (mp_self m) then m
      else
        let held = mc_pending (mp_self m);
            m = m\<lparr>mp_self := (mp_self m)\<lparr>mc_closed := True, mc_pending := None\<rparr>\<rparr>
        in case held of
             Some p \<Rightarrow> if \<not> mc_closed (mp_peer m) \<and> length (mc_q (mp_peer m)) < 256
                       then m\<lparr>mp_peer := (mp_peer m)\<lparr>mc_q := mc_q (mp_peer m) @ [p]\<rparr>\<rparr> else m
           | None \<Rightarrow> m)"

section \<open>Without faults: a packet transport\<close>

definition no_faults :: faults where
  "no_faults = \<lparr>ft_drop = False, ft_swap = None, ft_dup = (\<lambda>_. False)\<rparr>"

definition mem_rep :: "memoryPair \<Rightarrow> bytes list \<Rightarrow> bool" where
  "mem_rep m ps \<longleftrightarrow> mc_q (mp_peer m) = ps"

interpretation memory: packet_channel "mem_ReadPacket False" "mem_WritePacket no_faults cf" mem_rep for cf
  by unfold_locales
    (auto simp: mem_rep_def mem_WritePacket_def mem_ReadPacket_def mem_reorder_def mem_deliver_def no_faults_def Let_def split: if_splits)

interpretation memory_scrambled: scrambled_channel "mem_ReadPacket False" "mem_WritePacket no_faults cf" mem_rep cfg for cf cfg
  by unfold_locales

text \<open>What is written to the pair comes out at the other end, in order, as far as there is room for it.\<close>

lemma memory_delivers:
  "recv_n (mem_ReadPacket False) (length (sent (mem_WritePacket no_faults cf) MemoryPair ps)) (send_all (mem_WritePacket no_faults cf) MemoryPair ps) =
   sent (mem_WritePacket no_faults cf) MemoryPair ps"
  by (rule memory.delivers) (simp add: mem_rep_def MemoryPair_def newMemoryConn_def)

section \<open>Reordering\<close>

definition in_flight :: "memoryPair \<Rightarrow> bytes multiset" where
  "in_flight m = mset (mc_q (mp_peer m)) + mset_set (set_option (mc_pending (mp_self m)))"

text \<open>
  With reordering alone a packet the pair takes is in flight afterwards, in the queue or held back, and so is every other; one is
  held back at a time, and closing flushes it.
\<close>

lemma reorder_loses_nothing:
  assumes "mem_WritePacket \<lparr>ft_drop = False, ft_swap = Some swap, ft_dup = (\<lambda>_. False)\<rparr> cf m p = (None, m')"
  shows "in_flight m' = in_flight m + {#p#}"
  using assms
  by (cases "mc_pending (mp_self m)")
    (auto simp: mem_WritePacket_def mem_reorder_def mem_deliver_def in_flight_def Let_def split: if_splits)

lemma close_flushes:
  assumes "\<not> mc_closed (mp_peer m)" and "\<not> mc_closed (mp_self m)" and "length (mc_q (mp_peer m)) < 256"
  shows "mset (mc_q (mp_peer (mem_Close m))) = in_flight m"
  using assms by (cases "mc_pending (mp_self m)") (simp_all add: mem_Close_def in_flight_def)

end
