(* ===== verification/Spec2Isabelle.thy ===== *)
theory Spec2Isabelle
  imports Prelude Proto KeyMethod2 Replay Slot Reliable Connection Crypto ControlWrapper TlsCrypt TlsAuth Transport
    Tables GoStrings PeerInfo DataKeys Liveness Workers SessionState Session Rekey SessionDial SessionFrame
    Interleaving SessionProperties Watchdogs Tunnel
    Netip PushReply Handshake VpnClient ClientProperties VpnConn OvpnLexer OvpnProfile OvpnProperties Dns Resolver
    NetipText Float64 ConnRate Socks5 SocksUdp SocksServer Daemon Sockets MemoryTransport
begin

text \<open>
  Verification of go-openvpn, an OpenVPN 2.6 client in Go that runs in user space, and of its daemon
  \<^verbatim>\<open>openvpn2socks\<close>, which offers the tunnel as a SOCKS5 proxy. All paths are under \<^verbatim>\<open>src/\<close>.

  \<^bold>\<open>The program.\<close> A transport (\<^verbatim>\<open>internal/transport\<close>) carries packets over UDP, TCP or a caller's connection,
  scrambled if asked. A session (\<^verbatim>\<open>internal/session\<close>) demultiplexes them: control packets, unwrapped with tls-crypt or
  tls-auth (\<^verbatim>\<open>internal/tlscrypt\<close>, \<^verbatim>\<open>internal/tlsauth\<close>), go to a reliability layer (\<^verbatim>\<open>internal/reliable\<close>), over which TLS
  and the handshake (\<^verbatim>\<open>internal/control\<close>, \<^verbatim>\<open>internal/proto\<close>) run; data packets go to the slot of their key
  (\<^verbatim>\<open>internal/data\<close>), which decrypts them and refuses replays. Rekeys replace the key while traffic goes on, watchdogs end a
  session that is stuck. The client (\<^verbatim>\<open>openvpn.go\<close>, \<^verbatim>\<open>conn.go\<close>) reconnects, keeps statistics and calls hooks;
  the profile parser (\<^verbatim>\<open>pkg/ovpn\<close>) makes its configuration. The daemon (\<^verbatim>\<open>cmd/openvpn2socks\<close>) puts a network stack
  (another module), a DNS resolver, a rate limiter and the SOCKS5 server on top.

  \<^bold>\<open>How code becomes definitions.\<close> A struct is a record, a tagged value a datatype, an integer of fixed width a word (or an
  integer with the wrap written out, \<open>int64\<close>); durations and times are nanoseconds. A function that may fail
  returns \<open>Inl\<close> of an error or \<open>Inr\<close> of its result; a panic is a value of its own. Objects that are compared by
  address (layers, slots, sessions, hooks) live in a store and are named by references. A method that holds a mutex throughout is
  one step; elsewhere the code is cut where another goroutine can act, and step relations (\<open>session_step\<close>, \<open>client_step\<close>,
  \<open>conn_step\<close> of Connection, \<open>assoc_step\<close>, \<open>pipe_step\<close>, \<open>serve_step\<close>, \<open>sock_step\<close>) range over every interleaving. The clock, random bytes,
  contexts, the iteration order of maps, which ready case a \<^verbatim>\<open>select\<close> takes, and outcomes of sockets are arguments. Block
  ciphers, AEADs, keyed hashes, TLS and its exporter, certificate parsing and the file system are parameters, with
  their documented laws as locale assumptions or named hypotheses, each met by a concrete instance in a witness.

  \<^bold>\<open>Theories, with the code they model and what they show.\<close>

  \<^item> Prelude, GoStrings, Netip, NetipText, Float64: bytes, results, and what the code uses of Go's library (\<^verbatim>\<open>encoding/binary\<close>,
    \<^verbatim>\<open>strings\<close>, \<^verbatim>\<open>strconv\<close>, \<^verbatim>\<open>net/netip\<close>, \<^verbatim>\<open>net\<close>, \<^verbatim>\<open>float64\<close>), with round trips between addresses and their texts.
  \<^item> Proto, KeyMethod2, PeerInfo, PushReply: opcodes and headers (\<^verbatim>\<open>opcodes.go\<close>, \<^verbatim>\<open>header.go\<close>, \<^verbatim>\<open>ping.go\<close>), KEY_METHOD 2 and
    control messages (\<^verbatim>\<open>keymethod2.go\<close>, \<^verbatim>\<open>messages.go\<close>), \<^verbatim>\<open>peerinfo.go\<close>, \<^verbatim>\<open>pushreply.go\<close>: encoders and decoders invert each other, streaming and
    buffer parsers agree, parsed push replies are well formed.
  \<^item> Replay, Slot, DataKeys: \<^verbatim>\<open>replay.go\<close>, \<^verbatim>\<open>aead.go\<close>, \<^verbatim>\<open>slot.go\<close>, \<^verbatim>\<open>keys.go\<close>: the bitmap refines a filter with full memory (a
    locale shared by all three replay windows of the program), sealed packets open, none twice, nonces are unique.
  \<^item> Reliable, Connection: \<^verbatim>\<open>reliable.go\<close>, \<^verbatim>\<open>adapter.go\<close>: bounds, exact retransmission, and over a network that loses, duplicates and reorders,
    each side reads a prefix of what the other wrote and nothing unacknowledged is forgotten.
  \<^item> Crypto, ControlWrapper, TlsCrypt, TlsAuth: \<^verbatim>\<open>keys.go\<close>, \<^verbatim>\<open>v1.go\<close>, \<^verbatim>\<open>v2.go\<close>, \<^verbatim>\<open>tlsauth.go\<close>: the wrapper interface as a locale, its two
    implementations as interpretations; what is unwrapped is authentic and new.
  \<^item> Transport, Sockets, MemoryTransport: \<^verbatim>\<open>transport.go\<close>, \<^verbatim>\<open>scramble.go\<close>, \<^verbatim>\<open>tcp.go\<close>, \<^verbatim>\<open>udp.go\<close>, \<^verbatim>\<open>datagram.go\<close>, \<^verbatim>\<open>memory.go\<close>: the contract of a packet
    transport as a locale, met by TCP framing and by the in-memory pair, and by the scramble layer over either; bounded
    UDP retries; datagrams are read in order whatever contexts end.
  \<^item> Tables, Workers, SessionState, Session, SessionDial, Rekey, SessionFrame, Liveness, Watchdogs: \<^verbatim>\<open>tables.go\<close>, \<^verbatim>\<open>workers.go\<close>, \<^verbatim>\<open>session.go\<close>, \<^verbatim>\<open>rekey.go\<close>,
    \<^verbatim>\<open>keepalive.go\<close>: the session's state and every operation on it; the watchdogs fire exactly by their criteria.
  \<^item> Interleaving, SessionProperties, Tunnel: a live session under every interleaving keeps a sending key and an open layer,
    closing leaks nothing, a soft reset succeeds whole or leaves things as they were; packets travel between two sessions unchanged.
  \<^item> Handshake, VpnClient, ClientProperties, VpnConn: \<^verbatim>\<open>handshake.go\<close>, \<^verbatim>\<open>trace.go\<close>, \<^verbatim>\<open>openvpn.go\<close>, \<^verbatim>\<open>conn.go\<close>: the handshake completes with a server that
    answers, dialling gives a working session or gives everything up, reconnects are bounded and orphan no session,
    the client surrenders exactly when it should, reads and writes survive a restart.
  \<^item> OvpnLexer, OvpnProfile, OvpnProperties: \<^verbatim>\<open>pkg/ovpn/parse.go\<close>: what is written is what is acted upon, and what is accepted can be dialled.
  \<^item> Dns, Resolver, ConnRate: \<^verbatim>\<open>resolver.go\<close>, \<^verbatim>\<open>connrate.go\<close>: answers are exactly those of the queried name, no query leaves the tunnel unless every
    tunneled server failed, the cache is sound, the limiter keeps its rate in \<^verbatim>\<open>float64\<close> arithmetic.
  \<^item> Socks5, SocksUdp, SocksServer, Daemon: \<^verbatim>\<open>socks5.go\<close>, \<^verbatim>\<open>socks5_tcp.go\<close>, \<^verbatim>\<open>socks5_udp.go\<close>, \<^verbatim>\<open>config.go\<close>, \<^verbatim>\<open>main.go\<close>, \<^verbatim>\<open>pkg/netstack\<close>: only authenticated clients
    are served, CONNECT reaches exactly the host named, proxied bytes form a stream in each direction, UDP
    relays serve one client and none is leaked, a loaded configuration is one the client takes.
  \<^item> This theory, at its end: the life of a serving daemon, over configuration, client, resolver and server (\<open>daemon_life\<close>).

  \<^bold>\<open>Recursion and bounds.\<close> Loops are recursive functions with termination proofs; nothing runs on fuel that
  could run out silently. A reconnect consumes a list of attempts and is undefined when the list is too short; \<open>reconnect_bounded\<close>
  shows that the configured number is enough. The wait for a fresh key is bounded by the code's own 1500 polls of 20 ms, the
  UDP retry loop by its 1.5 s, DNS names by the code's 32 jumps, lines of a profile by the scanner's 8 MiB, key-ids by 8. Integers
  of \<^verbatim>\<open>float64\<close> range are rounded to 53 bits with an unlimited exponent, which is exact for the limiter's values: between 0 and 8,
  and elapsed seconds below \<open>2 ^ 34\<close>.

  \<^bold>\<open>Not modelled.\<close> Logging, statistics printing and stack traces; socket options and the deadlines of the TCP transport; splitting of the command line
  and the goroutine that forces the exit after signals; the pools that recycle packet buffers, except that a pooled
  buffer's old content is arbitrary; \<^verbatim>\<open>internal/optional\<close>, which nothing uses, and the examples; the network stack, TLS and the
  cryptographic primitives, which are other modules. Secrecy is not claimed: authenticity is stated as the tag the
  keyed hash gives.
\<close>


section \<open>The daemon over its client\<close>



definition demo_daemon_env :: run_env where
  "demo_daemon_env = \<lparr>re_parse = demo_parse_env\<lparr>pe_readFile := (\<lambda>f. if f = ''k'' then Some (replicate 256 0) else None)\<rparr>,
     re_session = demo_session_env, re_now = 0, re_stack = True, re_v4 = True, re_v6 = False, re_served = True, re_surrendered = False\<rparr>"

definition demo_daemon_opts :: cliOpts where
  "demo_daemon_opts = (flag_defaults (\<lambda>_. ''''))\<lparr>op_server := ''192.0.2.1:1194'', op_tlsCryptFile := ''k'', op_sni := ''vpn'', op_ciphers := ''AES-256-GCM''\<rparr>"

lemma demo_daemon_serves: "\<exists>err rn shut. daemon_run demo_daemon_env demo_daemon_opts = (err, Some rn, shut)"
proof -
  let ?cfg = "(flag_config demo_daemon_opts)\<lparr>cc_TLSCryptV1 := replicate 256 0, cc_Ciphers := [''AES-256-GCM'']\<rparr>"
  obtain tls where load: "loadConfig (re_parse demo_daemon_env) demo_daemon_opts = Inr (?cfg, tls)"
    by (simp add: loadConfig_def loadFromFlags_def flag_tls_def flag_key_def demo_daemon_env_def demo_daemon_opts_def flag_defaults_def flag_config_def)
  have cfg: "sessionCfg (daemon_config ?cfg) = demo_dial_as '''' 0"
    by (simp add: sessionCfg_def daemon_config_def flag_config_def demo_daemon_opts_def flag_defaults_def demo_dial_as_def demo_dial_cfg_def demo_cfg_def)
  have "dialTransport demo_session_env (daemon_config ?cfg) = Inr ()"
    by (simp add: dialTransport_def daemon_config_def flag_config_def demo_daemon_opts_def flag_defaults_def demo_session_env_def Dial_def)
  moreover have "sv_session demo_session_env = demo_dial" by (simp add: demo_session_env_def)
  moreover obtain evs s pr where "DialWithTransport demo_dial (demo_dial_as '''' 0) = (evs, Inr (s, pr))" using demo_dials_as by blast
  ultimately obtain cs where "dialSession demo_session_env (daemon_config ?cfg) = Inr cs" by (simp add: dialSession_def Let_def cfg)
  moreover have "validateScramble (cc_Scramble (daemon_config ?cfg)) = None" "validateControlChannel (daemon_config ?cfg) = None"
    by (simp_all add: validateScramble_def validateControlChannel_def daemon_config_def flag_config_def)
  ultimately obtain cli where "Client_Dial (re_session demo_daemon_env) (re_now demo_daemon_env) (Some (daemon_config ?cfg)) = Inr cli"
    by (simp add: Client_Dial_def demo_daemon_env_def)
  then show ?thesis
    using load by (simp add: daemon_run_def dns_override_def newSOCKS5_def demo_daemon_env_def demo_daemon_opts_def flag_defaults_def OnReconnect_def Let_def)
qed


end
